(* ===== verification/Prelude.thy ===== *)
theory Prelude
  imports Main "HOL-Library.AList" "HOL-Library.Char_ord" "HOL-Library.List_Lexorder"
    "HOL-Library.Product_Lexorder" "HOL-Library.Sublist" "HOL-Library.Multiset"
begin

text \<open>
  Shared material of the development.

  \<^item> Python exceptions as values (\<open>exn\<close>) and fallible computations as sums (\<open>'a result\<close>);
  \<^item> Python dictionaries as association lists in insertion order (\<open>('k, 'v) dict\<close>), with the
    operations the plugins use on them;
  \<^item> Kafka topic partitions with the lexicographic order Python tuples have;
  \<^item> string helpers (\<open>in\<close>, \<open>lower\<close>, \<open>strip\<close>) on ASCII strings;
  \<^item> the collections \<open>dict_simps\<close> and \<open>result_simps\<close> the component proofs use.
\<close>

named_theorems dict_simps "rewrite rules for Python dictionaries"
named_theorems result_simps "rewrite rules for fallible computations"

section \<open>Exceptions and results\<close>

text \<open>
  An exception carries its class name, the names of the classes it derives from and its message,
  which is what \<open>isinstance\<close>, \<open>type(exc).__name__\<close> and \<open>str(exc)\<close> read.
\<close>

datatype exn = Exn (exn_name: string) (exn_bases: "string list") (exn_msg: string)

type_synonym 'a result = "exn + 'a"

definition isinstance_exn :: "exn \<Rightarrow> string \<Rightarrow> bool" where
  "isinstance_exn e c \<longleftrightarrow> c = exn_name e \<or> List.member (exn_bases e) c"

abbreviation ValueError :: "string \<Rightarrow> exn" where
  "ValueError \<equiv> Exn ''ValueError'' [''Exception'']"

abbreviation TypeError :: "string \<Rightarrow> exn" where
  "TypeError \<equiv> Exn ''TypeError'' [''Exception'']"

abbreviation KeyError :: "string \<Rightarrow> exn" where
  "KeyError \<equiv> Exn ''KeyError'' [''LookupError'', ''Exception'']"

abbreviation RuntimeError :: "string \<Rightarrow> exn" where
  "RuntimeError \<equiv> Exn ''RuntimeError'' [''Exception'']"

definition bindR :: "'a result \<Rightarrow> ('a \<Rightarrow> 'b result) \<Rightarrow> 'b result" where
  "bindR m f = (case m of Inl e \<Rightarrow> Inl e | Inr a \<Rightarrow> f a)"

lemma bindR_simps [simp, result_simps]:
  "bindR (Inl e) f = Inl e"
  "bindR (Inr a) f = f a"
  by (simp_all add: bindR_def)

lemma bindR_Inr_iff [result_simps]:
  "bindR m f = Inr b \<longleftrightarrow> (\<exists>a. m = Inr a \<and> f a = Inr b)"
  by (cases m) auto

lemma bindR_Inl_iff [result_simps]:
  "bindR m f = Inl e \<longleftrightarrow> m = Inl e \<or> (\<exists>a. m = Inr a \<and> f a = Inl e)"
  by (cases m) auto

section \<open>Effects\<close>

text \<open>
  An operation that mutates a state and may raise: the state it leaves behind is kept also when an
  exception escapes, as the mutations before a \<^verbatim>\<open>raise\<close> are in Python.
\<close>

type_synonym ('s, 'e, 'a) xeff = "'s \<Rightarrow> 's \<times> ('e + 'a)"

type_synonym ('s, 'a) eff = "('s, exn, 'a) xeff"

definition returnE :: "'a \<Rightarrow> ('s, 'e, 'a) xeff" where
  "returnE a s = (s, Inr a)"

definition raiseE :: "'e \<Rightarrow> ('s, 'e, 'a) xeff" where
  "raiseE e s = (s, Inl e)"

definition bindE :: "('s, 'e, 'a) xeff \<Rightarrow> ('a \<Rightarrow> ('s, 'e, 'b) xeff) \<Rightarrow> ('s, 'e, 'b) xeff" where
  "bindE m f s = (case m s of (s', Inl e) \<Rightarrow> (s', Inl e) | (s', Inr a) \<Rightarrow> f a s')"

definition thenE :: "('s, 'e, 'a) xeff \<Rightarrow> ('s, 'e, 'b) xeff \<Rightarrow> ('s, 'e, 'b) xeff" where
  "thenE m n = bindE m (\<lambda>_. n)"

definition modifyE :: "('s \<Rightarrow> 's) \<Rightarrow> ('s, 'e, unit) xeff" where
  "modifyE f s = (f s, Inr ())"

text \<open>\<^verbatim>\<open>try: m except Exception as e: h e\<close>.\<close>

definition tryE :: "('s, 'e, 'a) xeff \<Rightarrow> ('e \<Rightarrow> ('s, 'e, 'a) xeff) \<Rightarrow> ('s, 'e, 'a) xeff" where
  "tryE m h s = (case m s of (s', Inl e) \<Rightarrow> h e s' | (s', Inr a) \<Rightarrow> (s', Inr a))"

text \<open>\<^verbatim>\<open>try: m finally: c\<close>: an exception of the clean-up replaces the outcome.\<close>

definition finallyE :: "('s, 'e, 'a) xeff \<Rightarrow> ('s, 'e, unit) xeff \<Rightarrow> ('s, 'e, 'a) xeff" where
  "finallyE m c s =
     (case m s of (s', r) \<Rightarrow> (case c s' of (s'', Inl e) \<Rightarrow> (s'', Inl e) | (s'', Inr _) \<Rightarrow> (s'', r)))"

lemma eff_simps [simp, result_simps]:
  "returnE a s = (s, Inr a)"
  "raiseE e s = (s, Inl e)"
  "modifyE f s = (f s, Inr ())"
  "bindE (returnE a) g s = g a s"
  "bindE (raiseE e) g s = (s, Inl e)"
  "thenE (modifyE f) n s = n (f s)"
  by (simp_all add: returnE_def raiseE_def modifyE_def bindE_def thenE_def)

lemma bindE_split:
  "P (bindE m f s) \<longleftrightarrow>
     (\<forall>s' e. m s = (s', Inl e) \<longrightarrow> P (s', Inl e)) \<and> (\<forall>s' a. m s = (s', Inr a) \<longrightarrow> P (f a s'))"
  by (auto simp: bindE_def split: prod.splits sum.splits)

lemma bindE_Inr: "bindE m f s = (s', Inr b) \<longleftrightarrow> (\<exists>s1 a. m s = (s1, Inr a) \<and> f a s1 = (s', Inr b))"
  by (cases "m s"; cases "snd (m s)") (auto simp: bindE_def)

lemma thenE_Inr: "thenE m n s = (s', Inr b) \<longleftrightarrow> (\<exists>s1 a. m s = (s1, Inr a) \<and> n s1 = (s', Inr b))"
  by (simp add: thenE_def bindE_Inr)

lemma thenE_run: "thenE m n s = (case m s of (s1, Inl e) \<Rightarrow> (s1, Inl e) | (s1, Inr a) \<Rightarrow> n s1)"
  by (simp add: thenE_def bindE_def)

lemma bindE_assoc: "bindE (bindE m f) g = bindE m (\<lambda>a. bindE (f a) g)"
  by (rule ext) (auto simp: bindE_def split: prod.splits sum.splits)

text \<open>\<open>preserves R m\<close>: \<open>m\<close> moves the state along \<open>R\<close>, whether it returns or raises.\<close>

definition preserves :: "('s \<Rightarrow> 's \<Rightarrow> bool) \<Rightarrow> ('s, 'e, 'a) xeff \<Rightarrow> bool" where
  "preserves R m \<longleftrightarrow> (\<forall>s. R s (fst (m s)))"

lemma preserves_basic [intro!]:
  "reflp R \<Longrightarrow> preserves R (returnE a)"
  "reflp R \<Longrightarrow> preserves R (raiseE e)"
  "(\<And>s. R s (f s)) \<Longrightarrow> preserves R (modifyE f)"
  by (auto simp: preserves_def reflp_def)

lemma preserves_bind [intro]:
  assumes "transp R" "preserves R m" "\<And>a. preserves R (f a)"
  shows "preserves R (bindE m f)"
  unfolding preserves_def
proof
  fix s
  show "R s (fst (bindE m f s))"
  proof (cases "m s")
    case (Pair s1 r)
    then have "R s s1" using assms(2) by (metis fst_conv preserves_def)
    moreover have "\<forall>a. R s1 (fst (f a s1))" using assms(3) by (simp add: preserves_def)
    ultimately show ?thesis using Pair assms(1) by (cases r) (auto simp: bindE_def dest: transpD)
  qed
qed

lemma preserves_then [intro]: "\<lbrakk>transp R; preserves R m; preserves R n\<rbrakk> \<Longrightarrow> preserves R (thenE m n)"
  unfolding thenE_def by (rule preserves_bind)

lemma preserves_try [intro]:
  assumes "transp R" "preserves R m" "\<And>e. preserves R (h e)"
  shows "preserves R (tryE m h)"
  unfolding preserves_def
proof
  fix s
  show "R s (fst (tryE m h s))"
  proof (cases "m s")
    case (Pair s1 r)
    then have "R s s1" using assms(2) by (metis fst_conv preserves_def)
    moreover have "\<forall>e. R s1 (fst (h e s1))" using assms(3) by (simp add: preserves_def)
    ultimately show ?thesis using Pair assms(1) by (cases r) (auto simp: tryE_def dest: transpD)
  qed
qed

lemma preservesD: "\<lbrakk>preserves R m; m s = (s', r)\<rbrakk> \<Longrightarrow> R s s'"
  by (metis fst_conv preserves_def)

lemma preserves_state: "preserves R m \<Longrightarrow> R s (fst (m s))"
  by (simp add: preserves_def)

lemma preserves_mono: "\<lbrakk>preserves R m; \<And>s s'. R s s' \<Longrightarrow> Q s s'\<rbrakk> \<Longrightarrow> preserves Q m"
  by (simp add: preserves_def)

lemma finally_preserves:
  assumes "transp R" "preserves R m" "preserves R c"
  shows "preserves R (finallyE m c)"
  unfolding preserves_def
proof
  fix s
  obtain s1 r s2 z where run: "m s = (s1, r)" "c s1 = (s2, z)" by (metis prod.collapse)
  have "R s s2" using transpD [OF assms(1) preservesD [OF assms(2) run(1)] preservesD [OF assms(3) run(2)]] .
  then show "R s (fst (finallyE m c s))" using run by (cases z) (auto simp: finallyE_def)
qed

text \<open>What may happen to a call of a server: nothing, or the connection fails before or after it ran.\<close>

datatype call_fault = NoFault | LostRequest exn | LostReply exn

definition faulty_call :: "('r \<Rightarrow> 'r \<times> call_fault) \<Rightarrow> ('r, 'a) eff \<Rightarrow> ('r, 'a) eff" where
  "faulty_call fault cmd r =
     (case fault r of
        (r', NoFault) \<Rightarrow> cmd r'
      | (r', LostRequest e) \<Rightarrow> (r', Inl e)
      | (r', LostReply e) \<Rightarrow> (fst (cmd r'), Inl e))"

text \<open>
  A pipeline runs all its commands and raises the first error of them at the end.
\<close>

fun run_commands :: "('r, 'e, unit) xeff list \<Rightarrow> ('r, 'e, unit) xeff" where
  "run_commands [] r = (r, Inr ())"
| "run_commands (c # cs) r =
     (case c r of
        (r1, Inr _) \<Rightarrow> run_commands cs r1
      | (r1, Inl e) \<Rightarrow> (fst (run_commands cs r1), Inl e))"

text \<open>
  A command run symbolically: where \<open>obs\<close> sees \<open>h\<close> of the server, \<open>m\<close> returns \<open>a\<close> and leaves what is seen as \<open>h'\<close>.
  A fault that itself changes nothing seen leaves a command done or not done.
\<close>

definition runs_on :: "('r \<Rightarrow> 'h) \<Rightarrow> ('r, 'e, 'a) xeff \<Rightarrow> 'h \<Rightarrow> 'a \<Rightarrow> 'h \<Rightarrow> bool" where
  "runs_on obs m h a h' \<longleftrightarrow> (\<forall>r. obs r = h \<longrightarrow> (\<exists>r'. m r = (r', Inr a) \<and> obs r' = h'))"

lemma runs_on_return: "runs_on obs (returnE a) h a h"
  by (simp add: runs_on_def)

lemma runs_on_bind: "\<lbrakk>runs_on obs m h a h1; runs_on obs (f a) h1 b h2\<rbrakk> \<Longrightarrow> runs_on obs (bindE m f) h b h2"
  by (fastforce simp: runs_on_def bindE_def)

lemma runs_on_then: "\<lbrakk>runs_on obs m h a h1; runs_on obs n h1 b h2\<rbrakk> \<Longrightarrow> runs_on obs (thenE m n) h b h2"
  unfolding thenE_def by (rule runs_on_bind)

lemma runs_onD: "\<lbrakk>runs_on obs m h a h'; obs r = h\<rbrakk> \<Longrightarrow> \<exists>r'. m r = (r', Inr a) \<and> obs r' = h'"
  by (simp add: runs_on_def)

lemma runs_on_faulty:
  assumes "\<And>r. obs (fst (fault r)) = obs r" "runs_on obs m (obs r) a h'" "faulty_call fault m r = (r', x)"
  shows "(x = Inr a \<and> obs r' = h') \<or> ((\<exists>e. x = Inl e) \<and> (obs r' = obs r \<or> obs r' = h'))"
proof -
  obtain r1 f where f: "fault r = (r1, f)" by (cases "fault r")
  then have "obs r1 = obs r" using assms(1) [of r] by simp
  then obtain r2 where "m r1 = (r2, Inr a)" "obs r2 = h'" using assms(2) by (auto simp: runs_on_def)
  then show ?thesis using assms(3) f \<open>obs r1 = obs r\<close> by (cases f) (auto simp: faulty_call_def)
qed

text \<open>
  What is relied on of \<^verbatim>\<open>retry_async\<close>: it runs the operation, and after a failure it may report a retry and run it
  again; its outcome is the outcome of its last run.
\<close>

inductive attempts :: "('s, 'e, 'a) xeff \<Rightarrow> ('s \<Rightarrow> 's) \<Rightarrow> 's \<Rightarrow> 's \<times> ('e + 'a) \<Rightarrow> bool"
  for op :: "('s, 'e, 'a) xeff" and on_retry :: "'s \<Rightarrow> 's" where
  last_attempt: "attempts op on_retry s (op s)"
| next_attempt: "op s = (s1, Inl e) \<Longrightarrow> attempts op on_retry (on_retry s1) out \<Longrightarrow> attempts op on_retry s out"

type_synonym ('s, 'e, 'a) retry_fun = "('s, 'e, 'a) xeff \<Rightarrow> ('s \<Rightarrow> 's) \<Rightarrow> ('s, 'e, 'a) xeff"

definition retry_law :: "('s, 'e, 'a) retry_fun \<Rightarrow> bool" where
  "retry_law retry \<longleftrightarrow> (\<forall>op on_retry s. attempts op on_retry s (retry op on_retry s))"

text \<open>The outcome of \<^verbatim>\<open>retry_async\<close> is that of a last run, and whatever each run keeps is kept up to it.\<close>

lemma retry_last_run:
  assumes "retry_law retry" "transp R" "reflp R" "preserves R op" "\<And>s. R s (f s)" "retry op f s = (s', x)"
  shows "\<exists>s1. R s s1 \<and> op s1 = (s', x)"
proof -
  have "attempts op f s out \<Longrightarrow> \<exists>s1. R s s1 \<and> op s1 = out" for s out
  proof (induction rule: attempts.induct)
    case (last_attempt s)
    then show ?case using assms(3) by (auto simp: reflp_def)
  next
    case (next_attempt s s1 e out)
    then have "R s (f s1)" using preservesD [OF assms(4)] assms(5) [of s1] transpD [OF assms(2)] by blast
    then show ?case using next_attempt.IH transpD [OF assms(2)] by blast
  qed
  then show ?thesis using assms(1,6) unfolding retry_law_def by metis
qed

lemma preserves_retry:
  assumes "retry_law retry" "transp R" "reflp R" "preserves R op" "\<And>s. R s (f s)"
  shows "preserves R (retry op f)"
  unfolding preserves_def
proof
  fix s
  obtain s' x where run: "retry op f s = (s', x)" by (cases "retry op f s")
  then obtain s1 where "R s s1" "op s1 = (s', x)" using retry_last_run [OF assms] by blast
  then show "R s (fst (retry op f s))" using run preservesD [OF assms(4)] transpD [OF assms(2)] by (metis fst_conv)
qed

text \<open>Two attempts obey the law.\<close>

definition two_attempts :: "('s, 'e, 'a) retry_fun" where
  "two_attempts op on_retry s = (case op s of (s1, Inl e) \<Rightarrow> op (on_retry s1) | (s1, Inr u) \<Rightarrow> (s1, Inr u))"

lemma two_attempts_law: "retry_law (two_attempts :: ('s, 'e, 'a) retry_fun)"
proof -
  have "attempts op on_retry s (two_attempts op on_retry s)" for op :: "('s, 'e, 'a) xeff" and on_retry s
  proof (cases "op s")
    case (Pair s1 r)
    show ?thesis
    proof (cases r)
      case (Inl e)
      then have "attempts op on_retry s (op (on_retry s1))"
        using next_attempt [of op s s1 e on_retry] last_attempt [of op on_retry "on_retry s1"] Pair by simp
      then show ?thesis using Pair Inl by (simp add: two_attempts_def)
    next
      case (Inr u)
      then show ?thesis using last_attempt [of op on_retry s] Pair by (simp add: two_attempts_def)
    qed
  qed
  then show ?thesis by (simp add: retry_law_def)
qed

lemma map_filter_append: "List.map_filter f (xs @ ys) = List.map_filter f xs @ List.map_filter f ys"
  by (simp add: List.map_filter_def)

section \<open>Dictionaries\<close>

text \<open>
  A Python dictionary keeps insertion order: assignment to a present key keeps its place,
  assignment to an absent key appends, \<open>pop\<close> removes.  \<open>AList.update\<close> and \<open>AList.delete\<close>
  behave exactly so.
\<close>

type_synonym ('k, 'v) dict = "('k \<times> 'v) list"

abbreviation dict_get :: "('k, 'v) dict \<Rightarrow> 'k \<Rightarrow> 'v option" where
  "dict_get d k \<equiv> map_of d k"

abbreviation dict_set :: "'k \<Rightarrow> 'v \<Rightarrow> ('k, 'v) dict \<Rightarrow> ('k, 'v) dict" where
  "dict_set \<equiv> AList.update"

abbreviation dict_pop :: "'k \<Rightarrow> ('k, 'v) dict \<Rightarrow> ('k, 'v) dict" where
  "dict_pop \<equiv> AList.delete"

abbreviation dict_keys :: "('k, 'v) dict \<Rightarrow> 'k list" where
  "dict_keys d \<equiv> map fst d"

definition dict_getd :: "('k, 'v) dict \<Rightarrow> 'k \<Rightarrow> 'v \<Rightarrow> 'v" where
  "dict_getd d k v = (case dict_get d k of None \<Rightarrow> v | Some w \<Rightarrow> w)"

definition dict_wf :: "('k, 'v) dict \<Rightarrow> bool" where
  "dict_wf d \<longleftrightarrow> distinct (dict_keys d)"

lemma dict_get_set [simp, dict_simps]:
  "dict_get (dict_set k v d) k' = (if k' = k then Some v else dict_get d k')"
  by (simp add: update_conv')

lemma dict_get_pop [simp, dict_simps]:
  "dict_get (dict_pop k d) k' = (if k' = k then None else dict_get d k')"
  by (simp add: delete_conv')

lemma dict_wf_Nil [simp, dict_simps]: "dict_wf []"
  by (simp add: dict_wf_def)

lemma dict_wf_set [simp, intro, dict_simps]: "dict_wf d \<Longrightarrow> dict_wf (dict_set k v d)"
  by (simp add: dict_wf_def distinct_update)

lemma dict_wf_pop [simp, intro, dict_simps]: "dict_wf d \<Longrightarrow> dict_wf (dict_pop k d)"
  by (simp add: dict_wf_def distinct_delete)

lemma dict_get_in_iff:
  "dict_wf d \<Longrightarrow> dict_get d k = Some v \<longleftrightarrow> (k, v) \<in> set d"
  by (simp add: dict_wf_def)

lemma dict_get_None_iff [dict_simps]: "dict_get d k = None \<longleftrightarrow> k \<notin> set (dict_keys d)"
  by (simp add: map_of_eq_None_iff)

section \<open>Topic partitions\<close>

text \<open>
  A \<open>(topic, partition)\<close> tuple, ordered as Python orders it: by topic, then by partition.
\<close>

datatype topic_partition = TopicPartition (tp_topic: string) (tp_partition: int)

instantiation topic_partition :: linorder
begin

definition less_eq_topic_partition :: "topic_partition \<Rightarrow> topic_partition \<Rightarrow> bool" where
  "less_eq_topic_partition a b \<longleftrightarrow>
     tp_topic a < tp_topic b \<or> tp_topic a = tp_topic b \<and> tp_partition a \<le> tp_partition b"

definition less_topic_partition :: "topic_partition \<Rightarrow> topic_partition \<Rightarrow> bool" where
  "less_topic_partition a b \<longleftrightarrow>
     tp_topic a < tp_topic b \<or> tp_topic a = tp_topic b \<and> tp_partition a < tp_partition b"

instance
  by standard
    (auto simp: less_eq_topic_partition_def less_topic_partition_def topic_partition.expand)

end

section \<open>Dynamic values\<close>

text \<open>
  The values \<^verbatim>\<open>json.loads\<close> produces and the plugins inspect with \<^verbatim>\<open>isinstance\<close>.  A finite float is
  the dyadic rational \<open>m * 2 ^ e\<close> it denotes.
\<close>

datatype pyval =
    PNone
  | PBool bool
  | PInt int
  | PFloat int int
  | PStr string
  | PList "pyval list"
  | PDict "(string \<times> pyval) list"

fun digits_of :: "nat \<Rightarrow> string" where
  "digits_of n =
     (if n < 10 then [char_of (48 + n)] else digits_of (n div 10) @ [char_of (48 + n mod 10)])"

declare digits_of.simps [simp del]

definition str_of_int :: "int \<Rightarrow> string" where
  "str_of_int i = (if i < 0 then ''-'' @ digits_of (nat (- i)) else digits_of (nat i))"

text \<open>
  \<^verbatim>\<open>str(v)\<close>; the text of floats and containers is the first argument (it is never inspected).
\<close>

fun py_str :: "(pyval \<Rightarrow> string) \<Rightarrow> pyval \<Rightarrow> string" where
  "py_str R (PStr s) = s"
| "py_str R (PInt i) = str_of_int i"
| "py_str R (PBool b) = (if b then ''True'' else ''False'')"
| "py_str R PNone = ''None''"
| "py_str R v = R v"

definition is_space :: "char \<Rightarrow> bool" where
  "is_space c \<longleftrightarrow> c = CHR '' '' \<or> (CHR 0x09 \<le> c \<and> c \<le> CHR 0x0D) \<or> (CHR 0x1C \<le> c \<and> c \<le> CHR 0x1F)"

definition str_strip :: "string \<Rightarrow> string" where
  "str_strip s = rev (dropWhile is_space (rev (dropWhile is_space s)))"

definition is_digit :: "char \<Rightarrow> bool" where
  "is_digit c \<longleftrightarrow> CHR ''0'' \<le> c \<and> c \<le> CHR ''9''"

text \<open>Digits with single underscores between them, as \<^verbatim>\<open>int(str)\<close> accepts.\<close>

fun parse_digits :: "nat \<Rightarrow> string \<Rightarrow> nat option" where
  "parse_digits acc [] = Some acc"
| "parse_digits acc (c # cs) =
     (if is_digit c then parse_digits (10 * acc + (of_char c - 48)) cs
      else if c = CHR ''_'' then
        (case cs of d # ds \<Rightarrow> if is_digit d then parse_digits (10 * acc + (of_char d - 48)) ds else None
         | [] \<Rightarrow> None)
      else None)"

definition parse_int :: "string \<Rightarrow> int option" where
  "parse_int s =
     (case str_strip s of
        [] \<Rightarrow> None
      | c # cs \<Rightarrow>
          (if c = CHR ''-'' then
             (if cs \<noteq> [] \<and> is_digit (hd cs) then map_option (\<lambda>n. - int n) (parse_digits 0 cs) else None)
           else if c = CHR ''+'' then
             (if cs \<noteq> [] \<and> is_digit (hd cs) then map_option int (parse_digits 0 cs) else None)
           else if is_digit c then map_option int (parse_digits 0 (c # cs)) else None))"

text \<open>\<^verbatim>\<open>int(v)\<close>: truncation of floats, parsing of strings, \<^verbatim>\<open>TypeError\<close> for the rest.\<close>

fun py_int :: "pyval \<Rightarrow> int result" where
  "py_int (PInt i) = Inr i"
| "py_int (PBool b) = Inr (if b then 1 else 0)"
| "py_int (PFloat m e) =
     Inr (if 0 \<le> e then m * 2 ^ nat e else sgn m * (\<bar>m\<bar> div 2 ^ nat (- e)))"
| "py_int (PStr s) =
     (case parse_int s of Some i \<Rightarrow> Inr i | None \<Rightarrow> Inl (ValueError ''invalid literal for int()''))"
| "py_int v = Inl (TypeError ''int() argument must be a string or a real number'')"

section \<open>Strings\<close>

definition str_contains :: "string \<Rightarrow> string \<Rightarrow> bool" where
  "str_contains hay needle \<longleftrightarrow> sublist needle hay"

definition lower_char :: "char \<Rightarrow> char" where
  "lower_char c = (if CHR ''A'' \<le> c \<and> c \<le> CHR ''Z'' then char_of (of_char c + (32 :: nat)) else c)"

definition str_lower :: "string \<Rightarrow> string" where
  "str_lower s = map lower_char s"

end
