(* ===== verification/Schema_Wire.thy ===== *)
theory Schema_Wire
  imports Prelude "HOL-Library.Word"
begin

text \<open>
  The Confluent Schema Registry wire format (\<^verbatim>\<open>kafka/_schema_registry_wire.py\<close>): magic byte, big-endian
  32-bit schema id, and the zigzag varint list of Protobuf message indexes.  Python integers are
  \<open>int\<close>, byte strings are lists of 8-bit words, buffer positions are \<open>nat\<close>.  The varint encoder's
  \<^verbatim>\<open>while True\<close> loop is a partial function whose \<open>None\<close> means that it does not return; it is proved
  to return on every value the callers pass.
\<close>

unbundle bit_operations_syntax

type_synonym bytes = "8 word list"

section \<open>Definitions\<close>

definition CONFLUENT_MAGIC_BYTE :: "8 word" where
  "CONFLUENT_MAGIC_BYTE = 0"

partial_function (option) encode_unsigned_varint_loop :: "int \<Rightarrow> bytes \<Rightarrow> bytes option" where
  "encode_unsigned_varint_loop remaining encoded =
     (let bits = remaining AND 0x7F; remaining' = drop_bit 7 remaining in
      if remaining' \<noteq> 0
      then encode_unsigned_varint_loop remaining' (encoded @ [word_of_int (bits OR 0x80)])
      else Some (encoded @ [word_of_int bits]))"

definition encode_unsigned_varint :: "int \<Rightarrow> bytes option" where
  "encode_unsigned_varint value = encode_unsigned_varint_loop value []"

definition encode_zigzag_varint :: "int \<Rightarrow> bytes result option" where
  "encode_zigzag_varint value =
     (if value < 0 then Some (Inl (ValueError ''Varint value must be >= 0.''))
      else map_option Inr (encode_unsigned_varint (push_bit 1 value)))"

function decode_unsigned_varint_loop :: "bytes \<Rightarrow> nat \<Rightarrow> nat \<Rightarrow> int \<Rightarrow> (int \<times> nat) result" where
  "decode_unsigned_varint_loop value cursor shift decoded =
     (if cursor < length value then
        let item = uint (value ! cursor);
            decoded' = decoded OR push_bit shift (item AND 0x7F)
        in if item AND 0x80 = 0 then Inr (decoded', cursor + 1)
           else decode_unsigned_varint_loop value (cursor + 1) (shift + 7) decoded'
      else Inl (ValueError ''Unexpected end of schema-registry varint payload.''))"
  by pat_completeness auto
termination
  by (relation "measure (\<lambda>(value, cursor, shift, decoded). length value - cursor)") auto

definition decode_unsigned_varint :: "bytes \<Rightarrow> nat \<Rightarrow> (int \<times> nat) result" where
  "decode_unsigned_varint value offset = decode_unsigned_varint_loop value offset 0 0"

definition decode_zigzag_varint :: "bytes \<Rightarrow> nat \<Rightarrow> (int \<times> nat) result" where
  "decode_zigzag_varint value offset =
     bindR (decode_unsigned_varint value offset) (\<lambda>(encoded, offset').
       let decoded = drop_bit 1 encoded XOR (- (encoded AND 1)) in
       if decoded < 0
       then Inl (ValueError ''Decoded zigzag varint must be >= 0 for message indexes.'')
       else Inr (decoded, offset'))"

text \<open>The \<^verbatim>\<open>for index in normalized\<close> loop of \<open>encode_message_indexes\<close>.\<close>

fun encode_message_indexes_loop :: "int list \<Rightarrow> bytes \<Rightarrow> bytes result option" where
  "encode_message_indexes_loop [] encoded = Some (Inr encoded)"
| "encode_message_indexes_loop (index # rest) encoded =
     (if index < 0 then Some (Inl (ValueError ''Protobuf message indexes must be >= 0.''))
      else case encode_zigzag_varint index of
        None \<Rightarrow> None
      | Some (Inl e) \<Rightarrow> Some (Inl e)
      | Some (Inr bs) \<Rightarrow> encode_message_indexes_loop rest (encoded @ bs))"

definition encode_message_indexes :: "int list \<Rightarrow> bytes result option" where
  "encode_message_indexes indexes =
     (if indexes = [0] then Some (Inr [0])
      else case encode_zigzag_varint (int (length indexes)) of
        None \<Rightarrow> None
      | Some (Inl e) \<Rightarrow> Some (Inl e)
      | Some (Inr bs) \<Rightarrow> encode_message_indexes_loop indexes bs)"

text \<open>The \<^verbatim>\<open>for _ in range(length)\<close> loop of \<open>decode_message_indexes\<close>.\<close>

fun decode_message_indexes_loop ::
    "nat \<Rightarrow> bytes \<Rightarrow> nat \<Rightarrow> int list \<Rightarrow> (int list \<times> nat) result" where
  "decode_message_indexes_loop 0 value offset indexes = Inr (indexes, offset)"
| "decode_message_indexes_loop (Suc n) value offset indexes =
     bindR (decode_zigzag_varint value offset) (\<lambda>(item, offset').
       decode_message_indexes_loop n value offset' (indexes @ [item]))"

definition decode_message_indexes :: "bytes \<Rightarrow> nat \<Rightarrow> (int list \<times> nat) result" where
  "decode_message_indexes value offset =
     (if length value \<le> offset
      then Inl (ValueError ''Schema-registry Protobuf payload is missing message indexes.'')
      else if value ! offset = 0 then Inr ([0], offset + 1)
      else bindR (decode_zigzag_varint value offset) (\<lambda>(len, offset').
             decode_message_indexes_loop (nat len) value offset' []))"

text \<open>\<^verbatim>\<open>struct.pack(">I", n)\<close> and \<^verbatim>\<open>struct.unpack(">I", b)\<close>.\<close>

definition pack_be_u32 :: "int \<Rightarrow> bytes result" where
  "pack_be_u32 n =
     (if 0 \<le> n \<and> n < 2 ^ 32
      then Inr [word_of_int (drop_bit 24 n), word_of_int (drop_bit 16 n),
                word_of_int (drop_bit 8 n), word_of_int n]
      else Inl (Exn ''error'' [''Exception''] ''argument out of range''))"

fun unpack_be_u32 :: "bytes \<Rightarrow> int result" where
  "unpack_be_u32 [a, b, c, d] =
     Inr (push_bit 24 (uint a) + push_bit 16 (uint b) + push_bit 8 (uint c) + uint d)"
| "unpack_be_u32 _ = Inl (Exn ''error'' [''Exception''] ''unpack requires a buffer of 4 bytes'')"

definition encode_confluent_prefix :: "int \<Rightarrow> int list option \<Rightarrow> bytes result option" where
  "encode_confluent_prefix schema_id message_indexes =
     (case pack_be_u32 schema_id of
        Inl e \<Rightarrow> Some (Inl e)
      | Inr packed \<Rightarrow>
          (case message_indexes of
             None \<Rightarrow> Some (Inr (CONFLUENT_MAGIC_BYTE # packed))
           | Some indexes \<Rightarrow>
               map_option (map_sum id (\<lambda>bs. CONFLUENT_MAGIC_BYTE # packed @ bs))
                 (encode_message_indexes indexes)))"

definition decode_confluent_prefix ::
    "bytes \<Rightarrow> bool \<Rightarrow> (int \<times> nat \<times> int list option) result" where
  "decode_confluent_prefix value expect_message_indexes =
     (if length value < 5
      then Inl (ValueError ''Schema-registry payload must be at least 5 bytes long.'')
      else if value ! 0 \<noteq> CONFLUENT_MAGIC_BYTE
      then Inl (ValueError ''Unsupported schema-registry payload magic byte.'')
      else bindR (unpack_be_u32 (take 4 (drop 1 value))) (\<lambda>schema_id.
        if expect_message_indexes
        then bindR (decode_message_indexes value 5) (\<lambda>(indexes, offset).
               Inr (schema_id, offset, Some indexes))
        else Inr (schema_id, 5, None)))"

declare decode_unsigned_varint_loop.simps [simp del]

section \<open>Varints\<close>

text \<open>Reference encoding: base-128 digits, least significant first, continuation bit 7.\<close>

fun varint_spec :: "nat \<Rightarrow> bytes" where
  "varint_spec n =
     (if n < 128 then [word_of_nat n]
      else word_of_nat (n mod 128 + 128) # varint_spec (n div 128))"

declare varint_spec.simps [simp del]

lemma varint_spec_nonempty [simp]: "varint_spec n \<noteq> []"
  by (subst varint_spec.simps) simp

lemma low_seven_bits: "x AND 0x7F = x mod 128" for x :: int
  using take_bit_eq_mask [of 7 x] by (simp add: take_bit_eq_mod mask_eq_exp_minus_1)

lemma or_push_bit: "0 \<le> d \<Longrightarrow> d < 2 ^ s \<Longrightarrow> d OR push_bit s x = d + x * 2 ^ s" for d x :: int
proof -
  assume "0 \<le> d" "d < 2 ^ s"
  then have "take_bit s d = d" by (simp add: take_bit_eq_mod)
  then have "d AND push_bit s x = 0"
    by (metis (no_types, lifting) and.commute and.left_commute bit.conj_zero_right push_bit_take_bit take_bit_eq_mask take_bit_push_bit diff_self_eq_0 take_bit_0 push_bit_of_0)
  then show ?thesis
    using disjunctive_add_eq_or [of d "push_bit s x"] by (simp add: push_bit_eq_mult)
qed

lemma set_continuation: "(x mod 128) OR 0x80 = x mod 128 + 128" for x :: int
  using or_push_bit [of "x mod 128" 7 1] by simp

lemma encode_loop_spec:
  "encode_unsigned_varint_loop (int n) acc = Some (acc @ varint_spec n)"
proof (induction n arbitrary: acc rule: varint_spec.induct)
  case (1 n)
  have d: "drop_bit 7 (int n) = int (n div 128)"
    by (simp add: drop_bit_eq_div zdiv_int)
  have w: "word_of_int (int k) = (word_of_nat k :: 8 word)" for k by simp
  show ?case
  proof (cases "n < 128")
    case True
    then show ?thesis
      by (subst encode_unsigned_varint_loop.simps, subst varint_spec.simps)
         (simp add: d low_seven_bits Let_def)
  next
    case False
    then have "int (n div 128) \<noteq> 0" by (simp add: div_eq_0_iff)
    moreover have "int n mod 128 + 128 = int (n mod 128 + 128)" by (simp add: zmod_int)
    ultimately show ?thesis
      using "1.IH" [OF False] False
      by (subst encode_unsigned_varint_loop.simps, subst varint_spec.simps)
         (simp only: d low_seven_bits set_continuation Let_def if_True not_False_eq_True append_assoc append.simps w if_False)
  qed
qed

lemma uint_byte: "m < 256 \<Longrightarrow> uint (word_of_nat m :: 8 word) = int m"
  by (simp add: unsigned_of_nat take_bit_nat_eq_self)

lemma continuation_bit: "x AND 0x80 = 0 \<longleftrightarrow> even (x div 128)" for x :: int
  using and_exp_eq_0_iff_not_bit [of x 7] by (simp add: bit_iff_odd)

lemma decode_loop_spec:
  "0 \<le> d \<Longrightarrow> d < 2 ^ s \<Longrightarrow>
   decode_unsigned_varint_loop (pre @ varint_spec n @ post) (length pre) s d
     = Inr (d + int n * 2 ^ s, length pre + length (varint_spec n))"
proof (induction n arbitrary: d s pre rule: varint_spec.induct)
  case (1 n)
  show ?case
  proof (cases "n < 128")
    case True
    then have "int n AND 0x80 = 0" by (simp add: continuation_bit)
    with True 1 show ?thesis
      by (subst decode_unsigned_varint_loop.simps, subst (1 2 3 4) varint_spec.simps)
         (simp add: nth_append uint_byte low_seven_bits or_push_bit Let_def)
  next
    case False
    define b :: "8 word" where "b = word_of_nat (n mod 128 + 128)"
    have ub: "uint b = int (n mod 128 + 128)"
      unfolding b_def by (rule uint_byte) simp
    have b: "uint b AND 0x80 \<noteq> 0"
    proof -
      have "int (n mod 128 + 128) div 128 = 1"
        using zdiv_int [of "n mod 128 + 128" 128] by simp
      then show ?thesis unfolding ub continuation_bit by simp
    qed
    have d': "d OR push_bit s (uint b AND 0x7F) = d + int (n mod 128) * 2 ^ s"
      using "1.prems" by (simp only: ub low_seven_bits or_push_bit) simp
    let ?d' = "d + int (n mod 128) * 2 ^ s"
    have le: "int (n mod 128) * 2 ^ s \<le> 127 * 2 ^ s" by simp
    have pow: "(2 :: int) ^ (s + 7) = 2 ^ s + 127 * 2 ^ s" by (simp add: power_add)
    have bd: "0 \<le> ?d'" using "1.prems" by simp
    have bd': "?d' < 2 ^ (s + 7)" using "1.prems"(2) le unfolding pow by linarith
    have v: "varint_spec n = b # varint_spec (n div 128)"
      using False unfolding b_def by (subst varint_spec.simps) simp
    have sum: "?d' + int (n div 128) * 2 ^ (s + 7) = d + int n * 2 ^ s"
    proof -
      have "int n = int (n mod 128) + int (n div 128) * 128"
        by (metis mod_mult_div_eq mult.commute of_nat_add of_nat_mult of_nat_numeral)
      then show ?thesis by (simp add: power_add algebra_simps)
    qed
    show ?thesis
      using "1.IH" [OF False bd bd', of "pre @ [b]"] b
      by (subst decode_unsigned_varint_loop.simps) (simp add: v nth_append d' Let_def sum del: push_bit_and)
  qed
qed

definition zigzag_spec :: "int \<Rightarrow> bytes" where
  "zigzag_spec v = varint_spec (nat (2 * v))"

lemma encode_zigzag_spec:
  "0 \<le> v \<Longrightarrow> encode_zigzag_varint v = Some (Inr (zigzag_spec v))"
  using encode_loop_spec [of "nat (2 * v)" "[]"]
  by (simp add: encode_zigzag_varint_def encode_unsigned_varint_def zigzag_spec_def
      push_bit_eq_mult mult.commute)

lemma decode_zigzag_spec:
  "0 \<le> v \<Longrightarrow> decode_zigzag_varint (pre @ zigzag_spec v @ post) (length pre)
     = Inr (v, length pre + length (zigzag_spec v))"
  using decode_loop_spec [of 0 0 pre "nat (2 * v)" post]
  by (simp add: decode_zigzag_varint_def decode_unsigned_varint_def zigzag_spec_def
      drop_bit_eq_div and_one_eq Let_def)

lemma zigzag_spec_first:
  "0 \<le> v \<Longrightarrow> zigzag_spec v ! 0 = 0 \<longleftrightarrow> v = 0"
proof -
  assume v: "0 \<le> v"
  show ?thesis
  proof (cases "nat (2 * v) < 128")
    case True
    then have "zigzag_spec v ! 0 = (word_of_nat (nat (2 * v)) :: 8 word)"
      by (simp add: zigzag_spec_def varint_spec.simps)
    moreover have "uint (word_of_nat (nat (2 * v)) :: 8 word) = 2 * v"
      using uint_byte [of "nat (2 * v)"] True v by simp
    ultimately show ?thesis using v
      by (metis mult_eq_0_iff uint_0_iff zero_neq_numeral)
  next
    case False
    let ?m = "nat (2 * v) mod 128 + 128"
    have "zigzag_spec v ! 0 = (word_of_nat ?m :: 8 word)"
      using False by (simp add: zigzag_spec_def varint_spec.simps [of "nat (2 * v)"])
    moreover have "uint (word_of_nat ?m :: 8 word) \<noteq> 0"
      by (subst uint_byte) simp_all
    moreover have "v \<noteq> 0" using False by auto
    ultimately show ?thesis by (metis uint_0_iff)
  qed
qed

section \<open>Message indexes and prefix\<close>

lemma encode_indexes_loop_spec:
  "list_all (\<lambda>i. 0 \<le> i) indexes \<Longrightarrow>
   encode_message_indexes_loop indexes acc = Some (Inr (acc @ concat (map zigzag_spec indexes)))"
  by (induction indexes arbitrary: acc) (simp_all add: encode_zigzag_spec)

lemma decode_indexes_loop_spec:
  "list_all (\<lambda>i. 0 \<le> i) indexes \<Longrightarrow>
   decode_message_indexes_loop (length indexes)
       (pre @ concat (map zigzag_spec indexes) @ post) (length pre) acc
     = Inr (acc @ indexes, length pre + length (concat (map zigzag_spec indexes)))"
proof (induction indexes arbitrary: pre acc)
  case (Cons i indexes)
  then show ?case
    using decode_zigzag_spec [of i pre "concat (map zigzag_spec indexes) @ post"]
      Cons.IH [of "pre @ zigzag_spec i" "acc @ [i]"]
    by simp
qed simp

text \<open>What the indexes section of a payload is: one zero byte for the common case \<open>[0]\<close>.\<close>

definition indexes_spec :: "int list \<Rightarrow> bytes" where
  "indexes_spec indexes =
     (if indexes = [0] then [0]
      else zigzag_spec (int (length indexes)) @ concat (map zigzag_spec indexes))"

lemma encode_indexes_spec:
  "list_all (\<lambda>i. 0 \<le> i) indexes \<Longrightarrow>
   encode_message_indexes indexes = Some (Inr (indexes_spec indexes))"
  by (simp add: encode_message_indexes_def indexes_spec_def encode_zigzag_spec
      encode_indexes_loop_spec)

lemma indexes_spec_length: "length (indexes_spec indexes) > 0"
  by (simp add: indexes_spec_def zigzag_spec_def)

lemma decode_indexes_spec:
  assumes "list_all (\<lambda>i. 0 \<le> i) indexes" and "indexes \<noteq> []"
  shows "decode_message_indexes (pre @ indexes_spec indexes @ post) (length pre)
     = Inr (indexes, length pre + length (indexes_spec indexes))"
proof (cases "indexes = [0]")
  case True
  then show ?thesis by (simp add: decode_message_indexes_def indexes_spec_def)
next
  case False
  let ?n = "int (length indexes)" and ?c = "concat (map zigzag_spec indexes)"
  let ?buf = "pre @ zigzag_spec ?n @ ?c @ post"
  have len: "length (zigzag_spec ?n) > 0" by (simp add: zigzag_spec_def)
  then have "?buf ! length pre = zigzag_spec ?n ! 0" by (simp add: nth_append)
  then have "?buf ! length pre \<noteq> 0"
    using zigzag_spec_first [of ?n] assms(2) by simp
  then show ?thesis
    using False len decode_zigzag_spec [of ?n pre "?c @ post"]
      decode_indexes_loop_spec [OF assms(1), of "pre @ zigzag_spec ?n" post "[]"]
    by (simp add: decode_message_indexes_def indexes_spec_def)
qed

lemma unpack_pack_be_u32:
  assumes "0 \<le> n" and "n < 2 ^ 32"
  shows "\<exists>bs. pack_be_u32 n = Inr bs \<and> length bs = 4 \<and> unpack_be_u32 bs = Inr n"
proof -
  have u: "uint (word_of_int k :: 8 word) = k mod 256" for k
    by (simp add: uint_word_of_int)
  define a b c where "a = n div 256" and "b = a div 256" and "c = b div 256"
  have eqs: "n = 256 * a + n mod 256" "a = 256 * b + a mod 256" "b = 256 * c + b mod 256"
    by (simp_all add: a_def b_def c_def)
  have "b = n div 2 ^ 16" "c = n div 2 ^ 24"
    by (simp_all add: a_def b_def c_def zdiv_zmult2_eq [symmetric])
  moreover from this have "c mod 256 = c" using assms by simp
  moreover have "c * 16777216 + (b mod 256) * 65536 + (a mod 256) * 256 + n mod 256 = n"
    using eqs by linarith
  ultimately have "(n div 2 ^ 24 mod 256) * 2 ^ 24 + (n div 2 ^ 16 mod 256) * 2 ^ 16
      + (n div 2 ^ 8 mod 256) * 2 ^ 8 + n mod 256 = n"
    by (simp add: a_def)
  then have "unpack_be_u32 [word_of_int (drop_bit 24 n), word_of_int (drop_bit 16 n),
      word_of_int (drop_bit 8 n), word_of_int n] = Inr n"
    by (simp only: unpack_be_u32.simps u push_bit_eq_mult drop_bit_eq_div)
  moreover have "pack_be_u32 n = Inr [word_of_int (drop_bit 24 n), word_of_int (drop_bit 16 n),
      word_of_int (drop_bit 8 n), word_of_int n]"
    using assms by (simp add: pack_be_u32_def)
  ultimately show ?thesis by fastforce
qed

lemma encode_loop_nonneg:
  assumes ret: "encode_unsigned_varint_loop r acc = Some bs"
  shows "0 \<le> r"
proof (rule encode_unsigned_varint_loop.raw_induct [where P = "\<lambda>r acc bs. 0 \<le> r", OF _ ret])
  fix f :: "int \<Rightarrow> bytes \<Rightarrow> bytes option" and r acc bs
  assume IH: "\<And>r acc bs. f r acc = Some bs \<Longrightarrow> 0 \<le> r"
    and eq: "(let bits = r AND 0x7F; r' = drop_bit 7 r in
      if r' \<noteq> 0 then f r' (acc @ [word_of_int (bits OR 0x80)])
      else Some (acc @ [word_of_int bits])) = Some bs"
  show "0 \<le> r"
  proof (cases "drop_bit 7 r = 0")
    case True
    then have "0 \<le> drop_bit 7 r" by simp
    then show ?thesis by (simp only: drop_bit_nonnegative_int_iff)
  next
    case False
    with eq have "f (drop_bit 7 r) (acc @ [word_of_int ((r AND 0x7F) OR 0x80)]) = Some bs"
      by (simp add: Let_def)
    then have "0 \<le> drop_bit 7 r" by (rule IH)
    then show ?thesis by (simp only: drop_bit_nonnegative_int_iff)
  qed
qed

section \<open>Properties\<close>

text \<open>
  C30: the varint encoder's \<^verbatim>\<open>while True\<close> loop returns exactly on the non-negative integers (on a
  negative one the shift never reaches zero), and the zigzag front end, which rejects negative
  values, therefore always returns: an error for a negative value and bytes otherwise.
\<close>

theorem varint_encoder_returns:
  "(encode_unsigned_varint v \<noteq> None \<longleftrightarrow> 0 \<le> v) \<and>
   (\<exists>r. encode_zigzag_varint v = Some r \<and> (isl r \<longleftrightarrow> v < 0))"
proof -
  have "encode_unsigned_varint v \<noteq> None" if "0 \<le> v"
    using encode_loop_spec [of "nat v" "[]"] that by (simp add: encode_unsigned_varint_def)
  moreover have "0 \<le> v" if "encode_unsigned_varint v \<noteq> None"
    using encode_loop_nonneg that by (auto simp: encode_unsigned_varint_def)
  moreover have "\<exists>r. encode_zigzag_varint v = Some r \<and> (isl r \<longleftrightarrow> v < 0)"
    using encode_zigzag_spec [of v]
    by (cases "v < 0") (simp_all add: encode_zigzag_varint_def [of v])
  ultimately show ?thesis by blast
qed

text \<open>
  C29: round trip of the Confluent prefix.  For every schema id that fits in 32 bits and every
  non-empty list of non-negative message indexes the encoder returns a prefix, and decoding that
  prefix in front of any payload yields the schema id, the position at which the payload starts
  and the same message indexes.
\<close>

theorem confluent_prefix_roundtrip:
  assumes "0 \<le> schema_id" and "schema_id < 2 ^ 32"
    and "list_all (\<lambda>i. 0 \<le> i) indexes" and "indexes \<noteq> []"
  shows "\<exists>prefix. encode_confluent_prefix schema_id (Some indexes) = Some (Inr prefix) \<and>
     decode_confluent_prefix (prefix @ payload) True =
       Inr (schema_id, length prefix, Some indexes)"
proof -
  obtain packed where p: "pack_be_u32 schema_id = Inr packed" "length packed = 4"
      "unpack_be_u32 packed = Inr schema_id"
    using unpack_pack_be_u32 [OF assms(1,2)] by blast
  let ?prefix = "CONFLUENT_MAGIC_BYTE # packed @ indexes_spec indexes"
  have "encode_confluent_prefix schema_id (Some indexes) = Some (Inr ?prefix)"
    using p assms(3) by (simp add: encode_confluent_prefix_def encode_indexes_spec)
  moreover have "decode_confluent_prefix (?prefix @ payload) True =
      Inr (schema_id, length ?prefix, Some indexes)"
    using p decode_indexes_spec [OF assms(3,4), of "CONFLUENT_MAGIC_BYTE # packed" payload]
      indexes_spec_length [of indexes]
    by (simp add: decode_confluent_prefix_def)
  ultimately show ?thesis by blast
qed

theorem confluent_prefix_roundtrip_witness:
  "\<exists>prefix. encode_confluent_prefix 300 (Some [1, 200]) = Some (Inr prefix) \<and>
     decode_confluent_prefix (prefix @ [7, 8]) True = Inr (300, length prefix, Some [1, 200])"
  by (rule confluent_prefix_roundtrip) simp_all

text \<open>
  The empty list of message indexes is not represented: it is encoded as the same single zero
  byte as the list \<open>[0]\<close>, so the decoder returns \<open>[0]\<close> for it.
\<close>

theorem empty_message_indexes_alias:
  "encode_message_indexes [] = encode_message_indexes [0] \<and>
   encode_message_indexes [] = Some (Inr [0]) \<and>
   decode_message_indexes [0] 0 = Inr ([0], 1)"
proof -
  have "zigzag_spec 0 = [0]" by (simp add: zigzag_spec_def varint_spec.simps)
  then show ?thesis
    using encode_indexes_spec [of "[]"] encode_indexes_spec [of "[0]"]
    by (simp add: indexes_spec_def decode_message_indexes_def)
qed

end
