(* ===== verification/Kafka_Cursor.thy ===== *)
theory Kafka_Cursor
  imports Prelude
begin

text \<open>
  The cursor state of a Kafka source (\<^verbatim>\<open>kafka/sources/_cursor_state.py\<close>, \<^verbatim>\<open>_offsets.py\<close>): which offsets
  were emitted (\<open>processed_offsets\<close>), which may be committed to the broker (\<open>committable_offsets\<close>),
  the resumable checkpoint with its cache, and the positions to seek to.  Every mutation the class
  reports through its \<^verbatim>\<open>on_change\<close> callback is counted in \<open>cursor_changes\<close>.

  The interface \<open>offset_tracker\<close> is what the delivery and commit code relies on; it is interpreted
  on the cursor state below.
\<close>

section \<open>State and operations\<close>

type_synonym offset_map = "(topic_partition, int) dict"
type_synonym pydict = "(string, pyval) dict"

record cursor_state =
  start_offsets :: offset_map
  resume_offsets :: offset_map
  positioning_applied :: bool
  pending_commit_count :: int
  processed_offsets :: offset_map
  committable_offsets :: offset_map
  last_seen :: "(string \<times> int \<times> int) option"
  checkpoint_cache :: "pydict option"
  checkpoint_dirty :: bool
  cursor_changes :: nat

definition normalize_offset_map :: "offset_map \<Rightarrow> offset_map" where
  "normalize_offset_map value =
     map (\<lambda>(k, offset). (TopicPartition (tp_topic k) (tp_partition k), offset)) value"

definition cursor_on_change :: "cursor_state \<Rightarrow> cursor_state" where
  "cursor_on_change s = s\<lparr>cursor_changes := Suc (cursor_changes s)\<rparr>"

definition cursor_init :: "offset_map \<Rightarrow> cursor_state" where
  "cursor_init starts =
     \<lparr>start_offsets = normalize_offset_map starts, resume_offsets = [],
      positioning_applied = False, pending_commit_count = 0, processed_offsets = [],
      committable_offsets = [], last_seen = None, checkpoint_cache = None,
      checkpoint_dirty = False, cursor_changes = 0\<rparr>"

definition set_start_offsets :: "offset_map \<Rightarrow> cursor_state \<Rightarrow> cursor_state" where
  "set_start_offsets offsets s =
     cursor_on_change (s\<lparr>start_offsets := normalize_offset_map offsets\<rparr>)"

definition set_resume_offsets :: "offset_map \<Rightarrow> cursor_state \<Rightarrow> cursor_state" where
  "set_resume_offsets offsets s =
     cursor_on_change (s\<lparr>resume_offsets := normalize_offset_map offsets\<rparr>)"

definition set_positioning_applied :: "bool \<Rightarrow> cursor_state \<Rightarrow> cursor_state" where
  "set_positioning_applied b s = cursor_on_change (s\<lparr>positioning_applied := b\<rparr>)"

definition set_pending_commit_count :: "int \<Rightarrow> cursor_state \<Rightarrow> cursor_state" where
  "set_pending_commit_count n s = cursor_on_change (s\<lparr>pending_commit_count := n\<rparr>)"

text \<open>\<^verbatim>\<open>sorted(self._processed_offsets.items())[-1]\<close> as a last-seen triple.\<close>

definition greatest_processed :: "offset_map \<Rightarrow> string \<times> int \<times> int" where
  "greatest_processed d =
     (case last (sort d) of (k, offset) \<Rightarrow> (tp_topic k, tp_partition k, offset))"

definition set_processed_offsets :: "offset_map \<Rightarrow> cursor_state \<Rightarrow> cursor_state" where
  "set_processed_offsets offsets s =
     (let s1 = s\<lparr>processed_offsets := normalize_offset_map offsets, checkpoint_dirty := True\<rparr>;
          s2 = (if processed_offsets s1 \<noteq> []
                then s1\<lparr>last_seen := Some (greatest_processed (processed_offsets s1))\<rparr> else s1);
          s3 = (if processed_offsets s2 = []
                then s2\<lparr>last_seen := None, checkpoint_cache := None\<rparr> else s2)
      in cursor_on_change s3)"

definition set_committable_offsets :: "offset_map \<Rightarrow> cursor_state \<Rightarrow> cursor_state" where
  "set_committable_offsets offsets s =
     cursor_on_change (s\<lparr>committable_offsets := normalize_offset_map offsets\<rparr>)"

definition set_last_seen :: "(string \<times> int \<times> int) option \<Rightarrow> cursor_state \<Rightarrow> cursor_state" where
  "set_last_seen v s = cursor_on_change (s\<lparr>last_seen := v, checkpoint_dirty := True\<rparr>)"

definition reset_for_stream :: "cursor_state \<Rightarrow> cursor_state" where
  "reset_for_stream s =
     cursor_on_change (s\<lparr>pending_commit_count := 0, processed_offsets := [],
       committable_offsets := [], last_seen := None, checkpoint_cache := None,
       checkpoint_dirty := False, positioning_applied := False\<rparr>)"

definition cursor_prepare_resume :: "offset_map \<Rightarrow> cursor_state \<Rightarrow> cursor_state" where
  "cursor_prepare_resume offsets s =
     cursor_on_change (s\<lparr>positioning_applied := False,
       resume_offsets := normalize_offset_map offsets\<rparr>)"

definition positioning_targets :: "cursor_state \<Rightarrow> offset_map" where
  "positioning_targets s = (if start_offsets s \<noteq> [] then start_offsets s else resume_offsets s)"

definition has_exact_start_offsets :: "cursor_state \<Rightarrow> bool" where
  "has_exact_start_offsets s \<longleftrightarrow> start_offsets s \<noteq> []"

definition mark_positioning_applied :: "cursor_state \<Rightarrow> cursor_state" where
  "mark_positioning_applied s = cursor_on_change (s\<lparr>positioning_applied := True\<rparr>)"

definition discard_tracking_state :: "cursor_state \<Rightarrow> cursor_state" where
  "discard_tracking_state s =
     cursor_on_change (s\<lparr>pending_commit_count := 0, processed_offsets := [],
       committable_offsets := [], last_seen := None, checkpoint_cache := None,
       checkpoint_dirty := False\<rparr>)"

definition apply_exact_positioning :: "offset_map \<Rightarrow> cursor_state \<Rightarrow> cursor_state" where
  "apply_exact_positioning offsets s =
     discard_tracking_state (s\<lparr>start_offsets := normalize_offset_map offsets,
       resume_offsets := [], positioning_applied := True\<rparr>)"

definition clear_positioning_targets :: "cursor_state \<Rightarrow> cursor_state" where
  "clear_positioning_targets s =
     discard_tracking_state (s\<lparr>start_offsets := [], resume_offsets := [],
       positioning_applied := True\<rparr>)"

definition remember_processed_offset :: "string \<Rightarrow> int \<Rightarrow> int \<Rightarrow> cursor_state \<Rightarrow> cursor_state" where
  "remember_processed_offset topic part offset s =
     cursor_on_change (s\<lparr>
       processed_offsets := dict_set (TopicPartition topic part) offset (processed_offsets s),
       last_seen := Some (topic, part, offset), checkpoint_dirty := True\<rparr>)"

definition remember_committable_offset ::
    "string \<Rightarrow> int \<Rightarrow> int \<Rightarrow> cursor_state \<Rightarrow> cursor_state" where
  "remember_committable_offset topic part offset s =
     cursor_on_change (s\<lparr>committable_offsets :=
       dict_set (TopicPartition topic part) offset (committable_offsets s)\<rparr>)"

definition increment_pending_commit_count :: "int \<Rightarrow> cursor_state \<Rightarrow> cursor_state" where
  "increment_pending_commit_count n s =
     (if n \<le> 0 then s
      else cursor_on_change (s\<lparr>pending_commit_count := pending_commit_count s + n\<rparr>))"

definition clear_pending_commit_count :: "cursor_state \<Rightarrow> cursor_state" where
  "clear_pending_commit_count s = cursor_on_change (s\<lparr>pending_commit_count := 0\<rparr>)"

definition mark_delivered_message ::
    "string \<Rightarrow> int \<Rightarrow> int \<Rightarrow> bool \<Rightarrow> cursor_state \<Rightarrow> cursor_state" where
  "mark_delivered_message topic part offset enable_auto_commit s =
     (let s1 = remember_processed_offset topic part offset s;
          s2 = remember_committable_offset topic part offset s1
      in if \<not> enable_auto_commit then increment_pending_commit_count 1 s2 else s2)"

definition mark_transaction_committed ::
    "string \<Rightarrow> int \<Rightarrow> int \<Rightarrow> cursor_state \<Rightarrow> cursor_state" where
  "mark_transaction_committed topic part offset s =
     clear_pending_commit_count
       (remember_committable_offset topic part offset
         (remember_processed_offset topic part offset s))"

text \<open>
  \<open>_build_topic_partition\<close> of the facade: the broker client's \<^verbatim>\<open>TopicPartition\<close> class or the plain tuple,
  both the pair of its arguments.
\<close>

definition build_topic_partition :: "string \<Rightarrow> int \<Rightarrow> topic_partition" where
  "build_topic_partition topic part = TopicPartition topic part"

definition build_commit_offsets :: "cursor_state \<Rightarrow> offset_map" where
  "build_commit_offsets s =
     map (\<lambda>(k, offset). (build_topic_partition (tp_topic k) (tp_partition k), offset + 1))
       (committable_offsets s)"

definition cursor_drop_revoked :: "topic_partition set \<Rightarrow> cursor_state \<Rightarrow> cursor_state" where
  "cursor_drop_revoked revoked s =
     (let s1 = s\<lparr>committable_offsets := filter (\<lambda>(k, _). k \<notin> revoked) (committable_offsets s),
                 processed_offsets := filter (\<lambda>(k, _). k \<notin> revoked) (processed_offsets s)\<rparr>;
          s2 = (case last_seen s1 of
                  None \<Rightarrow> s1
                | Some (topic, part, _) \<Rightarrow>
                    if TopicPartition topic part \<in> revoked then
                      (if processed_offsets s1 \<noteq> []
                       then s1\<lparr>last_seen := Some (greatest_processed (processed_offsets s1))\<rparr>
                       else s1\<lparr>last_seen := None\<rparr>)
                    else s1)
      in cursor_on_change (s2\<lparr>checkpoint_dirty := True\<rparr>))"

text \<open>The dictionary literal of \<open>current_checkpoint\<close>.\<close>

definition offset_entry :: "topic_partition \<times> int \<Rightarrow> pyval" where
  "offset_entry e =
     PDict [(''topic'', PStr (tp_topic (fst e))), (''partition'', PInt (tp_partition (fst e))),
            (''offset'', PInt (snd e))]"

definition checkpoint_of :: "offset_map \<Rightarrow> string \<times> int \<times> int \<Rightarrow> pydict" where
  "checkpoint_of processed seen =
     (case seen of (topic, part, offset) \<Rightarrow>
       [(''topic'', PStr topic), (''partition'', PInt part), (''offset'', PInt offset),
        (''offsets'', PList (map offset_entry (sort processed)))])"

definition current_checkpoint :: "cursor_state \<Rightarrow> cursor_state \<times> pydict option" where
  "current_checkpoint s =
     (if processed_offsets s = [] \<or> last_seen s = None then (s, None)
      else if \<not> checkpoint_dirty s \<and> checkpoint_cache s \<noteq> None then (s, checkpoint_cache s)
      else let c = checkpoint_of (processed_offsets s) (the (last_seen s))
           in (s\<lparr>checkpoint_cache := Some c, checkpoint_dirty := False\<rparr>, Some c))"

text \<open>
  \<open>normalize_checkpoint_offsets\<close>: the offsets of a checkpoint, from its \<^verbatim>\<open>offsets\<close> list or, without a
  usable entry there, from its top-level fields.
\<close>

definition checkpoint_entry ::
    "(pyval \<Rightarrow> string) \<Rightarrow> pydict \<Rightarrow> (topic_partition \<times> int) option result" where
  "checkpoint_entry R item =
     (case (dict_get item ''topic'', dict_get item ''partition'', dict_get item ''offset'') of
        (Some t, Some p, Some off) \<Rightarrow>
          bindR (py_int off) (\<lambda>offset. bindR (py_int p) (\<lambda>part.
            Inr (Some (TopicPartition (py_str R t) part, offset))))
      | _ \<Rightarrow> Inr None)"

text \<open>The top-level fields; a dictionary display evaluates its key before its value.\<close>

definition checkpoint_top_entry ::
    "(pyval \<Rightarrow> string) \<Rightarrow> pydict \<Rightarrow> offset_map result" where
  "checkpoint_top_entry R v =
     (case (dict_get v ''topic'', dict_get v ''partition'', dict_get v ''offset'') of
        (Some t, Some p, Some off) \<Rightarrow>
          bindR (py_int p) (\<lambda>part. bindR (py_int off) (\<lambda>offset.
            Inr [(TopicPartition (py_str R t) part, offset)]))
      | _ \<Rightarrow> Inr [])"

fun checkpoint_entries ::
    "(pyval \<Rightarrow> string) \<Rightarrow> pyval list \<Rightarrow> offset_map \<Rightarrow> offset_map result" where
  "checkpoint_entries R [] offsets = Inr offsets"
| "checkpoint_entries R (PDict item # items) offsets =
     bindR (checkpoint_entry R item) (\<lambda>entry.
       case entry of
         None \<Rightarrow> checkpoint_entries R items offsets
       | Some (k, offset) \<Rightarrow> checkpoint_entries R items (dict_set k offset offsets))"
| "checkpoint_entries R (_ # items) offsets = checkpoint_entries R items offsets"

definition normalize_checkpoint_offsets ::
    "(pyval \<Rightarrow> string) \<Rightarrow> pydict \<Rightarrow> offset_map result" where
  "normalize_checkpoint_offsets R value =
     bindR (case dict_get value ''offsets'' of
              Some (PList raw_offsets) \<Rightarrow> checkpoint_entries R raw_offsets []
            | _ \<Rightarrow> Inr [])
       (\<lambda>offsets.
          if offsets \<noteq> [] then Inr offsets
          else checkpoint_top_entry R value)"

text \<open>\<^verbatim>\<open>KafkaSourceSurface.prepare_resume\<close>: the argument is \<^verbatim>\<open>checkpoint.value\<close>, if there is one.\<close>

definition surface_prepare_resume ::
    "(pyval \<Rightarrow> string) \<Rightarrow> pyval option \<Rightarrow> (cursor_state, unit) eff" where
  "surface_prepare_resume R checkpoint s =
     (case checkpoint of
        Some (PDict value) \<Rightarrow>
          (case normalize_checkpoint_offsets R value of
             Inl e \<Rightarrow> (s, Inl e)
           | Inr offsets \<Rightarrow> (cursor_prepare_resume offsets s, Inr ()))
      | _ \<Rightarrow> (cursor_prepare_resume [] s, Inr ()))"

section \<open>Dictionary lemmas for offset maps\<close>

lemma normalize_offset_map_id [simp]: "normalize_offset_map d = d"
  by (induction d) (auto simp: normalize_offset_map_def)

lemma build_commit_offsets_get:
  "dict_get (build_commit_offsets s) k = map_option (\<lambda>offset. offset + 1) (dict_get (committable_offsets s) k)"
proof -
  have "dict_get (map (\<lambda>(k, offset). (build_topic_partition (tp_topic k) (tp_partition k), offset + 1)) d) k
      = map_option (\<lambda>offset. offset + 1) (dict_get d k)" for d
    by (induction d) (auto simp: build_topic_partition_def)
  then show ?thesis by (simp add: build_commit_offsets_def)
qed

lemma filter_keys_get:
  "dict_get (filter (\<lambda>(k, _). k \<notin> A) d) k = (if k \<in> A then None else dict_get d k)"
  by (induction d) auto

lemma filter_keys_wf: "dict_wf d \<Longrightarrow> dict_wf (filter (\<lambda>(k, _). P k) d)"
  by (induction d) (auto simp: dict_wf_def)

lemma greatest_processed_in:
  assumes "d \<noteq> []"
  obtains k off where "greatest_processed d = (tp_topic k, tp_partition k, off)" "(k, off) \<in> set d"
proof -
  have "sort d \<noteq> []"
    using assms by (metis length_0_conv length_sort)
  then have "last (sort d) \<in> set d"
    using last_in_set set_sort by metis
  with that show ?thesis by (cases "last (sort d)") (auto simp: greatest_processed_def)
qed

lemma fold_dict_set_get:
  "dict_get (fold (\<lambda>(k, v). dict_set k v) xs acc) = dict_get acc ++ dict_get (rev xs)"
  by (induction xs arbitrary: acc) (auto simp: update_conv' map_add_def fun_eq_iff split: option.splits)

lemma dict_get_sort: "dict_wf d \<Longrightarrow> dict_get (rev (sort d)) = dict_get d"
  for d :: "('k :: linorder \<times> 'v :: linorder) list"
proof -
  assume wf: "dict_wf d"
  have "mset (map fst (rev (sort d))) = mset (map fst d)" by simp
  then have "distinct (map fst (rev (sort d)))"
    using wf by (metis dict_wf_def mset_eq_imp_distinct_iff)
  then show ?thesis
    using wf by (intro map_of_inject_set [THEN iffD2]) (simp_all add: dict_wf_def)
qed

section \<open>The invariant\<close>

definition seen_ok :: "offset_map \<Rightarrow> (string \<times> int \<times> int) option \<Rightarrow> bool" where
  "seen_ok d seen =
     (case seen of
        None \<Rightarrow> d = []
      | Some (topic, part, offset) \<Rightarrow> dict_get d (TopicPartition topic part) = Some offset)"

definition cache_ok :: "offset_map \<Rightarrow> (string \<times> int \<times> int) option \<Rightarrow> pydict option \<Rightarrow> bool" where
  "cache_ok d seen cache \<longleftrightarrow>
     cache = None \<or> (seen \<noteq> None \<and> cache = Some (checkpoint_of d (the seen)))"

definition cursor_inv :: "cursor_state \<Rightarrow> bool" where
  "cursor_inv s \<longleftrightarrow>
     dict_wf (processed_offsets s) \<and> dict_wf (committable_offsets s) \<and>
     seen_ok (processed_offsets s) (last_seen s) \<and>
     (checkpoint_dirty s \<or> cache_ok (processed_offsets s) (last_seen s) (checkpoint_cache s)) \<and>
     0 \<le> pending_commit_count s"

lemma seen_ok_simps [simp]:
  "seen_ok [] None"
  "seen_ok d None \<longleftrightarrow> d = []"
  "seen_ok d (Some (t, p, off)) \<longleftrightarrow> dict_get d (TopicPartition t p) = Some off"
  by (simp_all add: seen_ok_def)

lemma cache_ok_None [simp]: "cache_ok d seen None"
  by (simp add: cache_ok_def)

lemma seen_ok_greatest: "dict_wf d \<Longrightarrow> d \<noteq> [] \<Longrightarrow> seen_ok d (Some (greatest_processed d))"
  by (elim greatest_processed_in) (simp add: dict_get_in_iff)

text \<open>
  The operations of the class, as the source's collaborators call them.  The raw \<^verbatim>\<open>last_seen\<close> setter,
  a compatibility accessor that only tests use, is left out: it can store an arbitrary position.
\<close>

datatype cursor_op =
    ResetForStream
  | PrepareResume offset_map
  | MarkPositioningApplied
  | ApplyExactPositioning offset_map
  | ClearPositioningTargets
  | RememberProcessed string int int
  | RememberCommittable string int int
  | IncrementPending int
  | ClearPending
  | MarkDelivered string int int bool
  | MarkTransactionCommitted string int int
  | DiscardTracking
  | DropRevoked "topic_partition set"
  | SetProcessed offset_map
  | ReadCheckpoint

fun cursor_apply :: "cursor_op \<Rightarrow> cursor_state \<Rightarrow> cursor_state" where
  "cursor_apply ResetForStream s = reset_for_stream s"
| "cursor_apply (PrepareResume d) s = cursor_prepare_resume d s"
| "cursor_apply MarkPositioningApplied s = mark_positioning_applied s"
| "cursor_apply (ApplyExactPositioning d) s = apply_exact_positioning d s"
| "cursor_apply ClearPositioningTargets s = clear_positioning_targets s"
| "cursor_apply (RememberProcessed t p off) s = remember_processed_offset t p off s"
| "cursor_apply (RememberCommittable t p off) s = remember_committable_offset t p off s"
| "cursor_apply (IncrementPending n) s = increment_pending_commit_count n s"
| "cursor_apply ClearPending s = clear_pending_commit_count s"
| "cursor_apply (MarkDelivered t p off auto_commit) s = mark_delivered_message t p off auto_commit s"
| "cursor_apply (MarkTransactionCommitted t p off) s = mark_transaction_committed t p off s"
| "cursor_apply DiscardTracking s = discard_tracking_state s"
| "cursor_apply (DropRevoked r) s = cursor_drop_revoked r s"
| "cursor_apply (SetProcessed d) s = (if dict_wf d then set_processed_offsets d s else s)"
| "cursor_apply ReadCheckpoint s = fst (current_checkpoint s)"

definition cursor_run :: "cursor_op list \<Rightarrow> cursor_state \<Rightarrow> cursor_state" where
  "cursor_run ops s = fold cursor_apply ops s"

lemmas cursor_defs =
  cursor_on_change_def reset_for_stream_def cursor_prepare_resume_def mark_positioning_applied_def
  discard_tracking_state_def apply_exact_positioning_def clear_positioning_targets_def
  remember_processed_offset_def remember_committable_offset_def increment_pending_commit_count_def
  clear_pending_commit_count_def mark_delivered_message_def mark_transaction_committed_def

lemma cursor_inv_init: "cursor_inv (cursor_init d)"
  by (simp add: cursor_inv_def cursor_init_def)

lemma cursor_inv_simple:
  assumes "cursor_inv s"
  shows "cursor_inv (reset_for_stream s)" "cursor_inv (cursor_prepare_resume d s)"
    "cursor_inv (mark_positioning_applied s)" "cursor_inv (apply_exact_positioning d s)"
    "cursor_inv (clear_positioning_targets s)" "cursor_inv (discard_tracking_state s)"
    "cursor_inv (remember_processed_offset t p off s)"
    "cursor_inv (remember_committable_offset t p off s)"
    "cursor_inv (increment_pending_commit_count n s)" "cursor_inv (clear_pending_commit_count s)"
  using assms by (simp_all add: cursor_inv_def cursor_defs)

lemma cursor_inv_marks:
  assumes "cursor_inv s"
  shows "cursor_inv (mark_delivered_message t p off b s)"
    "cursor_inv (mark_transaction_committed t p off s)"
  using assms
  by (simp_all add: mark_delivered_message_def mark_transaction_committed_def Let_def cursor_inv_simple)

lemma cursor_inv_set_processed: "cursor_inv s \<Longrightarrow> dict_wf d \<Longrightarrow> cursor_inv (set_processed_offsets d s)"
  by (simp add: set_processed_offsets_def Let_def cursor_on_change_def cursor_inv_def seen_ok_greatest)

lemma seen_ok_filter:
  "seen_ok d (Some (t, p, off)) \<Longrightarrow> TopicPartition t p \<notin> r \<Longrightarrow>
   seen_ok (filter (\<lambda>(k, _). k \<notin> r) d) (Some (t, p, off))"
  by (simp add: filter_keys_get)

lemma cursor_inv_drop_revoked:
  assumes "cursor_inv s"
  shows "cursor_inv (cursor_drop_revoked r s)"
proof (cases "last_seen s")
  case None
  with assms show ?thesis
    by (simp add: cursor_drop_revoked_def Let_def cursor_on_change_def cursor_inv_def filter_keys_wf)
next
  case (Some seen)
  obtain t p off where "seen = (t, p, off)" by (cases seen)
  with Some assms show ?thesis
    by (simp add: cursor_drop_revoked_def Let_def cursor_on_change_def cursor_inv_def
        filter_keys_wf filter_keys_get seen_ok_greatest)
qed

lemma cursor_inv_current_checkpoint: "cursor_inv s \<Longrightarrow> cursor_inv (fst (current_checkpoint s))"
  by (auto simp: current_checkpoint_def cursor_inv_def cache_ok_def Let_def)

lemma cursor_inv_apply: "cursor_inv s \<Longrightarrow> cursor_inv (cursor_apply op s)"
  by (cases op) (simp_all add: cursor_inv_simple cursor_inv_marks cursor_inv_drop_revoked
      cursor_inv_set_processed cursor_inv_current_checkpoint)

lemma cursor_inv_run: "cursor_inv s \<Longrightarrow> cursor_inv (cursor_run ops s)"
  by (induction ops arbitrary: s) (simp_all add: cursor_run_def cursor_inv_apply)

section \<open>Reading the maps back\<close>

lemma mark_delivered_maps [simp]:
  "processed_offsets (mark_delivered_message t p off b s) =
     dict_set (TopicPartition t p) off (processed_offsets s)"
  "committable_offsets (mark_delivered_message t p off b s) =
     dict_set (TopicPartition t p) off (committable_offsets s)"
  "pending_commit_count (mark_delivered_message t p off b s) =
     (if b then pending_commit_count s else pending_commit_count s + 1)"
  by (simp_all add: cursor_defs Let_def)

lemma mark_transaction_maps [simp]:
  "processed_offsets (mark_transaction_committed t p off s) =
     dict_set (TopicPartition t p) off (processed_offsets s)"
  "committable_offsets (mark_transaction_committed t p off s) =
     dict_set (TopicPartition t p) off (committable_offsets s)"
  "pending_commit_count (mark_transaction_committed t p off s) = 0"
  by (simp_all add: cursor_defs)

lemma drop_revoked_maps [simp]:
  "processed_offsets (cursor_drop_revoked r s) = filter (\<lambda>(k, _). k \<notin> r) (processed_offsets s)"
  "committable_offsets (cursor_drop_revoked r s) = filter (\<lambda>(k, _). k \<notin> r) (committable_offsets s)"
  "pending_commit_count (cursor_drop_revoked r s) = pending_commit_count s"
  by (auto simp: cursor_drop_revoked_def Let_def cursor_on_change_def split: option.split)

lemma checkpoint_entries_offset_entries:
  "checkpoint_entries R (map offset_entry xs) acc = Inr (fold (\<lambda>(k, v). dict_set k v) xs acc)"
  by (induction xs arbitrary: acc)
    (auto simp: offset_entry_def checkpoint_entry_def)

lemma current_checkpoint_fresh:
  "cursor_inv s \<Longrightarrow>
   snd (current_checkpoint s) =
     (if processed_offsets s = [] then None
      else Some (checkpoint_of (processed_offsets s) (the (last_seen s))))"
  by (auto simp: current_checkpoint_def cursor_inv_def cache_ok_def Let_def)

section \<open>The tracker interface\<close>

text \<open>
  What the delivery code relies on: marking a position makes it the processed and committable
  offset of its partition and touches no other partition; revocation forgets exactly the revoked
  partitions.
\<close>

text \<open>Offsets of one partition appear in increasing order, as a Kafka log delivers them.\<close>

definition partition_ordered :: "(topic_partition \<times> int) list \<Rightarrow> bool" where
  "partition_ordered ms \<longleftrightarrow> sorted_wrt (\<lambda>m m'. fst m = fst m' \<longrightarrow> snd m < snd m') ms"

locale offset_tracker =
  fixes inv :: "'s \<Rightarrow> bool"
    and processed :: "'s \<Rightarrow> topic_partition \<Rightarrow> int option"
    and committable :: "'s \<Rightarrow> topic_partition \<Rightarrow> int option"
    and mark :: "topic_partition \<Rightarrow> int \<Rightarrow> 's \<Rightarrow> 's"
    and revoke :: "topic_partition set \<Rightarrow> 's \<Rightarrow> 's"
  assumes inv_mark: "inv s \<Longrightarrow> inv (mark k off s)"
    and inv_revoke: "inv s \<Longrightarrow> inv (revoke r s)"
    and processed_mark: "inv s \<Longrightarrow> processed (mark k off s) = (processed s)(k \<mapsto> off)"
    and committable_mark: "inv s \<Longrightarrow> committable (mark k off s) = (committable s)(k \<mapsto> off)"
    and processed_revoke: "inv s \<Longrightarrow> processed (revoke r s) = processed s |` (- r)"
    and committable_revoke: "inv s \<Longrightarrow> committable (revoke r s) = committable s |` (- r)"
begin

lemma inv_marks: "inv s \<Longrightarrow> inv (fold (\<lambda>(k, off). mark k off) ms s)"
  by (induction ms arbitrary: s) (auto simp: inv_mark)

lemma committable_marks:
  "inv s \<Longrightarrow> committable (fold (\<lambda>(k, off). mark k off) ms s) = committable s ++ map_of (rev ms)"
proof (induction ms arbitrary: s)
  case (Cons m ms)
  then show ?case
    by (cases m) (auto simp: inv_mark committable_mark map_add_def fun_eq_iff split: option.splits)
qed simp

lemma committable_latest:
  assumes "inv s" and ord: "partition_ordered ms"
  shows "committable (fold (\<lambda>(k, off). mark k off) ms s) k =
     (if k \<in> fst ` set ms then Some (Max (snd ` {m \<in> set ms. fst m = k})) else committable s k)"
  using ord
proof (induction ms rule: rev_induct)
  case (snoc m ms)
  obtain k' off where m: "m = (k', off)" by (cases m)
  have ord: "partition_ordered ms" and less: "\<forall>m' \<in> set ms. fst m' = k' \<longrightarrow> snd m' < off"
    using snoc.prems by (auto simp: partition_ordered_def sorted_wrt_append m)
  have "Max (snd ` {m' \<in> set (ms @ [m]). fst m' = k'}) = off"
    using less by (intro Max_eqI) (force simp: m)+
  moreover have "{m' \<in> set (ms @ [m]). fst m' = k} = {m' \<in> set ms. fst m' = k}" if "k \<noteq> k'"
    using that by (auto simp: m)
  ultimately show ?case
    using snoc.IH [OF ord] inv_marks [OF assms(1), of ms]
    by (auto simp: m committable_mark)
qed simp

lemma revoke_forgets:
  "inv s \<Longrightarrow> k \<in> r \<Longrightarrow> committable (revoke r s) k = None \<and> processed (revoke r s) k = None"
  by (simp add: committable_revoke processed_revoke)

end

interpretation cursor: offset_tracker cursor_inv
  "\<lambda>s. dict_get (processed_offsets s)" "\<lambda>s. dict_get (committable_offsets s)"
  "\<lambda>k off. mark_delivered_message (tp_topic k) (tp_partition k) off auto_commit" cursor_drop_revoked
  for auto_commit
  by unfold_locales
    (auto simp: cursor_inv_marks cursor_inv_drop_revoked update_conv' filter_keys_get restrict_map_def)

section \<open>Properties\<close>

text \<open>
  C26: the checkpoint cache is never stale.  After any sequence of cursor operations from the initial
  state, the checkpoint the source reports is \<^verbatim>\<open>None\<close> exactly when nothing was emitted, and otherwise
  the checkpoint computed afresh from the offsets processed so far, whose last-seen position is the
  processed offset of its partition.
\<close>

theorem checkpoint_never_stale:
  "let s = cursor_run ops (cursor_init starts) in
   seen_ok (processed_offsets s) (last_seen s) \<and>
   snd (current_checkpoint s) =
     (if processed_offsets s = [] then None
      else Some (checkpoint_of (processed_offsets s) (the (last_seen s))))"
proof -
  have "cursor_inv (cursor_run ops (cursor_init starts))"
    by (intro cursor_inv_run cursor_inv_init)
  then show ?thesis by (simp add: current_checkpoint_fresh Let_def) (simp add: cursor_inv_def)
qed

text \<open>
  Checkpoint round trip.  For a reported checkpoint of any reachable cursor, normalising it on
  resume succeeds and gives back, for every partition, the processed offset.
\<close>

lemma checkpoint_roundtrip:
  assumes "s = cursor_run ops (cursor_init starts)" and "current_checkpoint s = (s', Some c)"
  shows "\<exists>d. normalize_checkpoint_offsets R c = Inr d \<and> dict_get d = dict_get (processed_offsets s)"
proof -
  have inv: "cursor_inv s" unfolding assms(1) by (intro cursor_inv_run cursor_inv_init)
  then have ne: "processed_offsets s \<noteq> []"
    and c: "c = checkpoint_of (processed_offsets s) (the (last_seen s))"
    using current_checkpoint_fresh [OF inv] assms(2) by (auto split: if_splits)
  let ?d = "fold (\<lambda>(k, v). dict_set k v) (sort (processed_offsets s)) []"
  have get: "dict_get ?d = dict_get (processed_offsets s)"
    using inv by (simp add: fold_dict_set_get dict_get_sort cursor_inv_def)
  then have "?d \<noteq> []"
    using ne by (metis (no_types, lifting) dict_get_None_iff list.set_intros(1) list.simps(9)
        map_of.simps(1) neq_Nil_conv)
  then have "normalize_checkpoint_offsets R c = Inr ?d"
    by (auto simp: c checkpoint_of_def normalize_checkpoint_offsets_def
        checkpoint_entries_offset_entries split: prod.splits)
  with get show ?thesis by blast
qed

text \<open>
  Refinement of the tracker specification.  Marking the messages of a poll as delivered, in the
  order a Kafka log delivers them, leaves each partition of the poll committable at the greatest
  delivered offset, so that the broker commit is one past it, and leaves every other partition alone.
\<close>

lemma delivered_batch_commit_offsets:
  assumes "cursor_inv s" and "partition_ordered ms"
  shows "dict_get (build_commit_offsets
           (fold (\<lambda>(k, off). mark_delivered_message (tp_topic k) (tp_partition k) off auto_commit) ms s)) k =
     (if k \<in> fst ` set ms then Some (Max (snd ` set (filter (\<lambda>m. fst m = k) ms)) + 1)
      else map_option (\<lambda>off. off + 1) (dict_get (committable_offsets s) k))"
  using cursor.committable_latest [OF assms, of auto_commit k]
  by (simp add: build_commit_offsets_get)

text \<open>
  Revocation.  Dropping revoked partitions removes them from the committable and the processed
  offsets and keeps every other partition's offsets, on every cursor that satisfies the invariant.
\<close>

lemma drop_revoked_forgets_exactly:
  assumes "cursor_inv s"
  shows "dict_get (committable_offsets (cursor_drop_revoked r s)) =
           dict_get (committable_offsets s) |` (- r) \<and>
         dict_get (processed_offsets (cursor_drop_revoked r s)) =
           dict_get (processed_offsets s) |` (- r) \<and>
         cursor_inv (cursor_drop_revoked r s)"
  using cursor.committable_revoke [OF assms] cursor.processed_revoke [OF assms]
    cursor.inv_revoke [OF assms] by blast

end
