(* ===== verification/Kafka_Poison.thy ===== *)
theory Kafka_Poison
  imports Kafka_Cursor "HOL-Library.Word"
begin

text \<open>
  Poison-record routing of a Kafka source (\<^verbatim>\<open>kafka/sources/_poison.py\<close>, \<^verbatim>\<open>_poison_controller.py\<close>, the
  policy enum, \<open>KafkaPoisonRecordInfo\<close> and \<open>BatchMessageContext\<close> of \<^verbatim>\<open>_models.py\<close>): what happens to a
  record that cannot be deserialised.  The dead-letter sink is not part of this package; it is a
  parameter (\<open>sink_ops\<close>) over a sink state of any type.
\<close>

section \<open>Messages and dead-letter records\<close>

type_synonym byte_string = "8 word list"

record kafka_message =
  m_topic :: string
  m_partition :: int
  m_offset :: int
  m_key :: "byte_string option"
  m_value :: "byte_string option"
  m_headers :: "(string \<times> byte_string) list"
  m_timestamp :: "int option"
  m_timestamp_type :: "int option"

text \<open>The dictionary \<open>message_metadata\<close> builds, as a record.\<close>

record message_metadata =
  md_topic :: string
  md_partition :: int
  md_offset :: int
  md_key :: "byte_string option"
  md_headers :: "(string \<times> byte_string) list"
  md_timestamp :: "int option"
  md_timestamp_type :: "int option"
  md_consumer_group :: string
  md_bootstrap_servers :: string
  md_subscription_mode :: string
  md_batch_size :: int
  md_batch_index :: int

record batch_message_context =
  bc_metadata :: message_metadata
  bc_message :: kafka_message

abbreviation message_tp :: "kafka_message \<Rightarrow> topic_partition" where
  "message_tp m \<equiv> TopicPartition (m_topic m) (m_partition m)"

datatype poison_policy =
    FAIL_CLOSED
  | LOG_AND_CONTINUE
  | DLQ_AND_CONTINUE
  | DLQ_AND_FAIL_CLOSED

datatype poison_classification =
    SCHEMA_REGISTRY_BINDING_MISMATCH
  | SCHEMA_EVOLUTION
  | SCHEMA_VALIDATION
  | DESERIALIZATION
  | UNKNOWN

record poison_info =
  pi_classification :: poison_classification
  pi_policy :: poison_policy

text \<open>How a byte string is stored in the dead-letter payload.\<close>

datatype encoded_value = EncUtf8 string | EncBase64 string

record poison_payload =
  pp_topic :: string
  pp_partition :: int
  pp_offset :: int
  pp_key :: "encoded_value option"
  pp_value :: "encoded_value option"
  pp_headers :: "(string \<times> encoded_value option) list"
  pp_timestamp :: "int option"
  pp_timestamp_type :: "int option"
  pp_metadata :: message_metadata
  pp_poison :: poison_info

record poison_dlq_record =
  dr_pipeline_id :: string
  dr_run_id :: string
  dr_stage :: string
  dr_error_type :: string
  dr_error_message :: string
  dr_record :: poison_payload
  dr_original_record :: poison_payload
  dr_processed_record :: "poison_payload option"
  dr_source :: string
  dr_checkpoint :: "string \<times> int \<times> int"
  dr_created_at :: string
  dr_max_attempts :: "int option"

section \<open>Controller state\<close>

record 'k poison_state =
  poison_record_policy :: poison_policy
  poison_record_sink :: "'k option"
  poison_record_pipeline_id :: string
  poison_record_max_attempts :: "int option"
  poison_source_name :: string
  dlq_write_count :: nat
  dlq_write_failure_count :: nat
  log_only_count :: nat
  fail_closed_count :: nat
  classification_counts :: "poison_classification \<Rightarrow> nat"
  poison_changes :: nat

text \<open>
  The operations the sink offers; \<open>sk_write_batch\<close> is \<open>None\<close> when the object has no callable
  \<^verbatim>\<open>write_batch\<close>.  The codecs of the standard library and the clock are parameters too.
\<close>

record 'k sink_ops =
  sk_write :: "poison_dlq_record \<Rightarrow> ('k, unit) eff"
  sk_write_batch :: "(poison_dlq_record list \<Rightarrow> ('k, unit) eff) option"
  sk_utf8_decode :: "byte_string \<Rightarrow> string option"
  sk_b64encode :: "byte_string \<Rightarrow> string"
  sk_time_ms :: int
  sk_now_utc :: string

definition poison_init ::
    "string \<Rightarrow> poison_policy \<Rightarrow> 'k option \<Rightarrow> string \<Rightarrow> int option \<Rightarrow> 'k poison_state" where
  "poison_init source_name policy sink pipeline_id max_attempts =
     \<lparr>poison_record_policy = policy, poison_record_sink = sink,
      poison_record_pipeline_id = pipeline_id, poison_record_max_attempts = max_attempts,
      poison_source_name = source_name, dlq_write_count = 0, dlq_write_failure_count = 0,
      log_only_count = 0, fail_closed_count = 0, classification_counts = (\<lambda>_. 0),
      poison_changes = 0\<rparr>"

definition poison_on_change :: "'k poison_state \<Rightarrow> 'k poison_state" where
  "poison_on_change s = s\<lparr>poison_changes := Suc (poison_changes s)\<rparr>"

section \<open>Policy and classification\<close>

definition should_continue_after_poison_record :: "'k poison_state \<Rightarrow> bool" where
  "should_continue_after_poison_record s \<longleftrightarrow>
     poison_record_policy s = LOG_AND_CONTINUE \<or> poison_record_policy s = DLQ_AND_CONTINUE"

definition policy_uses_dlq :: "poison_policy \<Rightarrow> bool" where
  "policy_uses_dlq p \<longleftrightarrow> p = DLQ_AND_CONTINUE \<or> p = DLQ_AND_FAIL_CLOSED"

datatype policy_argument = NoPolicy | PolicyEnum poison_policy | PolicyName string

definition poison_policy_of_name :: "string \<Rightarrow> poison_policy result" where
  "poison_policy_of_name n =
     (if n = ''fail_closed'' then Inr FAIL_CLOSED
      else if n = ''log_and_continue'' then Inr LOG_AND_CONTINUE
      else if n = ''dlq_and_continue'' then Inr DLQ_AND_CONTINUE
      else if n = ''dlq_and_fail_closed'' then Inr DLQ_AND_FAIL_CLOSED
      else Inl (ValueError (n @ '' is not a valid KafkaPoisonRecordPolicy'')))"

text \<open>The flag says whether \<open>on_deserialize_error\<close> is \<^verbatim>\<open>LOG_AND_CONTINUE\<close>.\<close>

definition resolve_poison_record_policy :: "policy_argument \<Rightarrow> bool \<Rightarrow> poison_policy result" where
  "resolve_poison_record_policy policy log_and_continue =
     (case policy of
        NoPolicy \<Rightarrow> Inr (if log_and_continue then LOG_AND_CONTINUE else FAIL_CLOSED)
      | PolicyEnum p \<Rightarrow> Inr p
      | PolicyName n \<Rightarrow> poison_policy_of_name n)"

definition any_marker :: "string \<Rightarrow> string list \<Rightarrow> bool" where
  "any_marker message markers \<longleftrightarrow> list_ex (\<lambda>m. str_contains message m) markers"

definition classify_poison_record :: "exn \<Rightarrow> poison_classification" where
  "classify_poison_record e =
     (let error_type = str_lower (exn_name e); message = str_lower (exn_msg e) in
      if str_contains message ''binding mismatch'' \<and> str_contains message ''protobuf''
      then SCHEMA_REGISTRY_BINDING_MISMATCH
      else if str_contains error_type ''schemaresolutionerror'' \<or>
        (str_contains message ''schema'' \<and>
         any_marker message [''mismatch'', ''reader'', ''writer'', ''union''])
      then SCHEMA_EVOLUTION
      else if str_contains error_type ''validationerror'' \<or> str_contains error_type ''jsonschema'' \<or>
        any_marker message [''is not of type'', ''is a required property'', ''failed validating'',
          ''oneof'', ''anyof'', ''allof'']
      then SCHEMA_VALIDATION
      else if any_marker message [''payload'', ''deserialize'', ''magic byte'', ''varint'', ''utf-8'',
          ''bad batch'', ''bad payload'']
      then DESERIALIZATION
      else UNKNOWN)"

definition observe_poison_records :: "exn \<Rightarrow> nat \<Rightarrow> 'k poison_state \<Rightarrow> 'k poison_state \<times> poison_info" where
  "observe_poison_records e n s =
     (let classification = classify_poison_record e;
          s1 = s\<lparr>classification_counts := (classification_counts s)
                   (classification := classification_counts s classification + n)\<rparr>;
          s2 = (if poison_record_policy s = LOG_AND_CONTINUE
                then s1\<lparr>log_only_count := log_only_count s1 + n\<rparr>
                else if poison_record_policy s = FAIL_CLOSED \<or>
                        poison_record_policy s = DLQ_AND_FAIL_CLOSED
                then s1\<lparr>fail_closed_count := fail_closed_count s1 + n\<rparr>
                else s1)
      in (s2, \<lparr>pi_classification = classification, pi_policy = poison_record_policy s\<rparr>))"

section \<open>Dead-letter capture\<close>

definition encode_kafka_value :: "'k sink_ops \<Rightarrow> byte_string option \<Rightarrow> encoded_value option" where
  "encode_kafka_value K v =
     (case v of
        None \<Rightarrow> None
      | Some bs \<Rightarrow>
          (case sk_utf8_decode K bs of
             None \<Rightarrow> Some (EncBase64 (sk_b64encode K bs))
           | Some decoded \<Rightarrow>
               if CHR 0x00 \<in> set decoded then Some (EncBase64 (sk_b64encode K bs))
               else Some (EncUtf8 decoded)))"

definition encode_kafka_headers ::
    "'k sink_ops \<Rightarrow> (string \<times> byte_string) list \<Rightarrow> (string \<times> encoded_value option) list" where
  "encode_kafka_headers K headers = map (\<lambda>(k, v). (k, encode_kafka_value K (Some v))) headers"

definition build_poison_dlq_record ::
    "'k sink_ops \<Rightarrow> 'k poison_state \<Rightarrow> exn \<Rightarrow> kafka_message \<Rightarrow> message_metadata \<Rightarrow> string \<Rightarrow> poison_info
     \<Rightarrow> poison_dlq_record" where
  "build_poison_dlq_record K s e m md stage info =
     (let topic = md_topic md; part = md_partition md; offset = md_offset md;
          payload =
            \<lparr>pp_topic = topic, pp_partition = part, pp_offset = offset,
             pp_key = encode_kafka_value K (m_key m), pp_value = encode_kafka_value K (m_value m),
             pp_headers = encode_kafka_headers K (m_headers m), pp_timestamp = m_timestamp m,
             pp_timestamp_type = m_timestamp_type m, pp_metadata = md, pp_poison = info\<rparr>
      in
      \<lparr>dr_pipeline_id = poison_record_pipeline_id s,
       dr_run_id = topic @ '':'' @ str_of_int part @ '':'' @ str_of_int offset @ '':'' @
                   str_of_int (sk_time_ms K),
       dr_stage = stage,
       dr_error_type = exn_name e,
       dr_error_message = exn_msg e,
       dr_record = payload,
       dr_original_record = payload,
       dr_processed_record = None,
       dr_source = poison_source_name s,
       dr_checkpoint = (topic, part, offset),
       dr_created_at = sk_now_utc K,
       dr_max_attempts = poison_record_max_attempts s\<rparr>)"

definition handle_poison_dlq_write_error :: "exn \<Rightarrow> nat \<Rightarrow> ('k poison_state, unit) eff" where
  "handle_poison_dlq_write_error e record_count s =
     (let s1 = poison_on_change
                 (s\<lparr>dlq_write_failure_count := dlq_write_failure_count s + record_count\<rparr>)
      in if poison_record_policy s1 = DLQ_AND_FAIL_CLOSED then (s1, Inl e) else (s1, Inr ()))"

text \<open>The \<^verbatim>\<open>for record in records: await sink.write(record)\<close> loop.\<close>

fun write_each :: "'k sink_ops \<Rightarrow> poison_dlq_record list \<Rightarrow> ('k, unit) eff" where
  "write_each K [] k = (k, Inr ())"
| "write_each K (r # rs) k =
     (case sk_write K r k of (k', Inl e) \<Rightarrow> (k', Inl e) | (k', Inr _) \<Rightarrow> write_each K rs k')"

definition finish_capture ::
    "'k \<times> unit result \<Rightarrow> nat \<Rightarrow> ('k poison_state, unit) eff" where
  "finish_capture outcome n s =
     (case outcome of
        (k, Inl e) \<Rightarrow> handle_poison_dlq_write_error e n (s\<lparr>poison_record_sink := Some k\<rparr>)
      | (k, Inr _) \<Rightarrow>
          (poison_on_change (s\<lparr>poison_record_sink := Some k,
             dlq_write_count := dlq_write_count s + n\<rparr>), Inr ()))"

definition capture_poison_batch ::
    "'k sink_ops \<Rightarrow> exn \<Rightarrow> kafka_message list \<Rightarrow> batch_message_context list \<Rightarrow> string \<Rightarrow> poison_info
     \<Rightarrow> ('k poison_state, unit) eff" where
  "capture_poison_batch K e messages batch_contexts stage info s =
     (if \<not> policy_uses_dlq (poison_record_policy s) then (s, Inr ())
      else case poison_record_sink s of
        None \<Rightarrow> (s, Inr ())
      | Some k \<Rightarrow>
          let records = map (\<lambda>(m, bc). build_poison_dlq_record K s e m (bc_metadata bc) stage info)
                          (zip messages batch_contexts)
          in (case sk_write_batch K of
                Some write_batch \<Rightarrow> finish_capture (write_batch records k) (length records) s
              | None \<Rightarrow> finish_capture (write_each K records k) (length records) s))"

definition capture_poison_record ::
    "'k sink_ops \<Rightarrow> exn \<Rightarrow> kafka_message \<Rightarrow> message_metadata \<Rightarrow> string \<Rightarrow> poison_info
     \<Rightarrow> ('k poison_state, unit) eff" where
  "capture_poison_record K e m md stage info s =
     (if \<not> policy_uses_dlq (poison_record_policy s) then (s, Inr ())
      else case poison_record_sink s of
        None \<Rightarrow> (s, Inr ())
      | Some k \<Rightarrow>
          finish_capture (sk_write K (build_poison_dlq_record K s e m md stage info) k) 1 s)"

section \<open>Lemmas\<close>

lemma observe_frame [simp]:
  "poison_record_policy (fst (observe_poison_records e n s)) = poison_record_policy s"
  "poison_record_sink (fst (observe_poison_records e n s)) = poison_record_sink s"
  "dlq_write_count (fst (observe_poison_records e n s)) = dlq_write_count s"
  "dlq_write_failure_count (fst (observe_poison_records e n s)) = dlq_write_failure_count s"
  by (simp_all add: observe_poison_records_def Let_def)

lemmas capture_defs =
  finish_capture_def handle_poison_dlq_write_error_def poison_on_change_def Let_def

lemma finish_capture_counts:
  "dlq_write_count (fst (finish_capture outcome n s)) + dlq_write_failure_count (fst (finish_capture outcome n s))
     = dlq_write_count s + dlq_write_failure_count s + n"
  "isl (snd (finish_capture outcome n s)) \<longleftrightarrow>
     isl (snd outcome) \<and> poison_record_policy s = DLQ_AND_FAIL_CLOSED"
  by (auto simp: capture_defs split: prod.splits sum.splits)

lemma finish_capture_frame [simp]:
  "poison_record_policy (fst (finish_capture outcome n s)) = poison_record_policy s"
  "log_only_count (fst (finish_capture outcome n s)) = log_only_count s"
  "fail_closed_count (fst (finish_capture outcome n s)) = fail_closed_count s"
  "classification_counts (fst (finish_capture outcome n s)) = classification_counts s"
  "poison_record_sink (fst (finish_capture outcome n s)) = Some (fst outcome)"
  by (auto simp: capture_defs split: prod.splits sum.splits)

lemma capture_record_frame [simp]:
  "poison_record_policy (fst (capture_poison_record K e m md stage info s)) = poison_record_policy s"
  "classification_counts (fst (capture_poison_record K e m md stage info s)) = classification_counts s"
  by (simp_all add: capture_poison_record_def split: option.split)

lemma capture_batch_frame [simp]:
  "poison_record_policy (fst (capture_poison_batch K e ms bcs stage info s)) = poison_record_policy s"
  "classification_counts (fst (capture_poison_batch K e ms bcs stage info s)) = classification_counts s"
  by (simp_all add: capture_poison_batch_def Let_def split: option.split)

text \<open>A capture that is not attempted or does not fail lets the caller go on.\<close>

lemma capture_record_raises:
  "isl (snd (capture_poison_record K e m md stage info s)) \<Longrightarrow>
   poison_record_policy s = DLQ_AND_FAIL_CLOSED"
  by (simp add: capture_poison_record_def finish_capture_counts split: if_splits option.splits)

lemma capture_batch_raises:
  "isl (snd (capture_poison_batch K e ms bcs stage info s)) \<Longrightarrow>
   poison_record_policy s = DLQ_AND_FAIL_CLOSED"
  by (simp add: capture_poison_batch_def finish_capture_counts Let_def split: if_splits option.splits)

end
