(* ===== verification/Kafka_Operator.thy ===== *)
theory Kafka_Operator
  imports Kafka_Poison
begin

text \<open>
  Operator controls of a Kafka source (\<^verbatim>\<open>kafka/sources/_operator_controls.py\<close>) and the assignment
  normalisation of \<^verbatim>\<open>_rebalance.py\<close>.  The broker client (\<^verbatim>\<open>aiokafka\<close>) is a parameter: a record of the
  methods the source looks up on the consumer object, each optional where the source uses
  \<^verbatim>\<open>getattr(consumer, name, None)\<close>, over a consumer state of any type.
\<close>

section \<open>Assignments\<close>

text \<open>
  An element of an assignment collection: an object with \<^verbatim>\<open>topic\<close> and \<^verbatim>\<open>partition\<close> attributes (either may
  be missing or \<^verbatim>\<open>None\<close>), a tuple of at least two elements, or something else.
\<close>

datatype assignment_item =
    ItemObject "string option" "int option"
  | ItemTuple string int
  | ItemOther

fun normalize_item :: "assignment_item \<Rightarrow> topic_partition option" where
  "normalize_item (ItemObject (Some topic) (Some part)) = Some (TopicPartition topic part)"
| "normalize_item (ItemTuple topic part) = Some (TopicPartition topic part)"
| "normalize_item _ = None"

definition normalize_assignment_items :: "assignment_item list option \<Rightarrow> topic_partition list" where
  "normalize_assignment_items items =
     (case items of None \<Rightarrow> [] | Some xs \<Rightarrow> List.map_filter normalize_item xs)"

definition tuple_of :: "topic_partition \<Rightarrow> assignment_item" where
  "tuple_of k = ItemTuple (tp_topic k) (tp_partition k)"

definition normalize_topic_partitions :: "topic_partition list \<Rightarrow> topic_partition list" where
  "normalize_topic_partitions items = normalize_assignment_items (Some (map tuple_of items))"

section \<open>The consumer interface\<close>

record 'c consumer_ops =
  co_commit :: "offset_map option \<Rightarrow> ('c, unit) eff"
  co_getmany :: "(int \<Rightarrow> int \<Rightarrow> ('c, (topic_partition \<times> kafka_message list) list) eff) option"
  co_assignment :: "('c \<Rightarrow> assignment_item list) option"
  co_seek :: "(topic_partition \<Rightarrow> int \<Rightarrow> ('c, unit) eff) option"
  co_pause :: "(topic_partition list \<Rightarrow> ('c, unit) eff) option"
  co_resume :: "(topic_partition list \<Rightarrow> ('c, unit) eff) option"
  co_seek_to_beginning :: "(topic_partition list \<Rightarrow> ('c, unit) eff) option"
  co_seek_to_end :: "(topic_partition list \<Rightarrow> ('c, unit) eff) option"
  co_assign :: "(topic_partition list \<Rightarrow> ('c, unit) eff) option"
  co_stop :: "('c, unit) eff"

section \<open>Controller state and operations\<close>

record operator_state =
  active_assignment :: "topic_partition set"
  paused_partitions :: "topic_partition set"
  pause_all_requested :: bool
  operator_changes :: nat

definition operator_on_change :: "operator_state \<Rightarrow> operator_state" where
  "operator_on_change s = s\<lparr>operator_changes := Suc (operator_changes s)\<rparr>"

definition operator_init :: "topic_partition list \<Rightarrow> operator_state" where
  "operator_init assignments =
     \<lparr>active_assignment = set (normalize_topic_partitions assignments), paused_partitions = {},
      pause_all_requested = False, operator_changes = 0\<rparr>"

definition set_active_assignment :: "topic_partition list \<Rightarrow> operator_state \<Rightarrow> operator_state" where
  "set_active_assignment assignments s =
     operator_on_change (s\<lparr>active_assignment := set (normalize_topic_partitions assignments)\<rparr>)"

definition set_paused_partitions :: "topic_partition list \<Rightarrow> operator_state \<Rightarrow> operator_state" where
  "set_paused_partitions parts s =
     operator_on_change (s\<lparr>paused_partitions := set (normalize_topic_partitions parts)\<rparr>)"

definition set_pause_all_requested :: "bool \<Rightarrow> operator_state \<Rightarrow> operator_state" where
  "set_pause_all_requested b s = operator_on_change (s\<lparr>pause_all_requested := b\<rparr>)"

definition sync_active_assignment :: "assignment_item list option \<Rightarrow> operator_state \<Rightarrow> operator_state" where
  "sync_active_assignment assignments s =
     (let normalized = (case assignments of
                          None \<Rightarrow> active_assignment s
                        | Some items \<Rightarrow> set (List.map_filter normalize_item items))
      in if normalized \<noteq> active_assignment s
         then operator_on_change (s\<lparr>active_assignment := normalized\<rparr>) else s)"

definition operator_drop_revoked :: "topic_partition set \<Rightarrow> operator_state \<Rightarrow> operator_state" where
  "operator_drop_revoked revoked s =
     (if revoked = {} then s
      else operator_on_change (s\<lparr>paused_partitions := paused_partitions s - revoked,
             active_assignment := active_assignment s - revoked\<rparr>))"

definition paused_partition_count :: "operator_state \<Rightarrow> nat" where
  "paused_partition_count s =
     (if pause_all_requested s then card (active_assignment s) else card (paused_partitions s))"

definition validate_assigned_partitions :: "topic_partition set \<Rightarrow> operator_state \<Rightarrow> unit result" where
  "validate_assigned_partitions targets s =
     (if targets - active_assignment s \<noteq> {}
      then Inl (ValueError ''KafkaSource operator controls can only target assigned partitions.'')
      else Inr ())"

definition resolve_seek_targets ::
    "topic_partition list option \<Rightarrow> operator_state \<Rightarrow> topic_partition set result" where
  "resolve_seek_targets parts s =
     (case parts of
        None \<Rightarrow>
          if active_assignment s = {}
          then Inl (RuntimeError ''KafkaSource has no active assignment yet, so operator seek controls cannot resolve target partitions.'')
          else Inr (active_assignment s)
      | Some ps \<Rightarrow>
          let targets = set (normalize_topic_partitions ps)
          in bindR (validate_assigned_partitions targets s) (\<lambda>_. Inr targets))"

text \<open>
  Calls on the consumer run on a pair of the controller state and the consumer, which is absent
  before \<^verbatim>\<open>open\<close> and after \<^verbatim>\<open>close\<close>.
\<close>

type_synonym 'c controls = "operator_state \<times> 'c option"

definition apply_pause_state ::
    "'c consumer_ops \<Rightarrow> assignment_item list option \<Rightarrow> ('c controls, unit) eff" where
  "apply_pause_state K parts sc =
     (case sc of (s, None) \<Rightarrow> (sc, Inr ()) | (s, Some c) \<Rightarrow>
        (case co_pause K of None \<Rightarrow> (sc, Inr ()) | Some pause \<Rightarrow>
           let targets = (if pause_all_requested s then active_assignment s else paused_partitions s);
               requested = set (normalize_assignment_items parts);
               targets' = (if parts \<noteq> None \<and> requested \<noteq> {} then targets \<inter> requested else targets)
           in if targets' = {} then (sc, Inr ())
              else (case pause (sorted_list_of_set targets') c of (c', r) \<Rightarrow> ((s, Some c'), r))))"

definition apply_resume_state ::
    "'c consumer_ops \<Rightarrow> assignment_item list option \<Rightarrow> ('c controls, unit) eff" where
  "apply_resume_state K parts sc =
     (case sc of (s, None) \<Rightarrow> (sc, Inr ()) | (s, Some c) \<Rightarrow>
        (case co_resume K of None \<Rightarrow> (sc, Inr ()) | Some resume \<Rightarrow>
           let targets = (if parts \<noteq> None then set (normalize_assignment_items parts)
                          else active_assignment s)
           in if targets = {} then (sc, Inr ())
              else (case resume (sorted_list_of_set targets) c of (c', r) \<Rightarrow> ((s, Some c'), r))))"

text \<open>\<^verbatim>\<open>targets if targets else None\<close> as the argument of the two functions above.\<close>

definition targets_argument :: "topic_partition set \<Rightarrow> assignment_item list option" where
  "targets_argument targets =
     (if targets = {} then None else Some (map tuple_of (sorted_list_of_set targets)))"

definition notify_controls :: "('c controls, unit) eff" where
  "notify_controls sc = ((operator_on_change (fst sc), snd sc), Inr ())"

definition operator_pause ::
    "'c consumer_ops \<Rightarrow> topic_partition list option \<Rightarrow> ('c controls, unit) eff" where
  "operator_pause K parts sc =
     (let s = fst sc; c = snd sc in
      case parts of
        None \<Rightarrow>
          (let s1 = s\<lparr>pause_all_requested := True\<rparr>; targets = active_assignment s1;
               s2 = (if targets \<noteq> {} then s1\<lparr>paused_partitions := paused_partitions s1 \<union> targets\<rparr> else s1)
           in thenE (apply_pause_state K (targets_argument targets)) notify_controls (s2, c))
      | Some ps \<Rightarrow>
          (let targets = set (normalize_topic_partitions ps) in
           case validate_assigned_partitions targets s of
             Inl e \<Rightarrow> (sc, Inl e)
           | Inr _ \<Rightarrow>
               thenE (apply_pause_state K (targets_argument targets)) notify_controls
                 (s\<lparr>paused_partitions := paused_partitions s \<union> targets\<rparr>, c)))"

definition operator_resume ::
    "'c consumer_ops \<Rightarrow> topic_partition list option \<Rightarrow> ('c controls, unit) eff" where
  "operator_resume K parts sc =
     (let s = fst sc; c = snd sc in
      case parts of
        None \<Rightarrow>
          (let s1 = s\<lparr>pause_all_requested := False\<rparr>;
               targets = (if paused_partitions s1 \<noteq> {} then paused_partitions s1 else active_assignment s1);
               s2 = s1\<lparr>paused_partitions := {}\<rparr>
           in thenE (apply_resume_state K (targets_argument targets)) notify_controls (s2, c))
      | Some ps \<Rightarrow>
          (let targets = set (normalize_topic_partitions ps) in
           case validate_assigned_partitions targets s of
             Inl e \<Rightarrow> (sc, Inl e)
           | Inr _ \<Rightarrow>
               (let s1 = (if pause_all_requested s
                          then s\<lparr>pause_all_requested := False,
                                 paused_partitions := active_assignment s - targets\<rparr> else s);
                    s2 = s1\<lparr>paused_partitions := paused_partitions s1 - targets\<rparr>
                in thenE (apply_resume_state K (targets_argument targets)) notify_controls (s2, c))))"

text \<open>
  \<^verbatim>\<open>seek_with_consumer_method\<close>; the second argument is the looked-up consumer method and its name.
\<close>

definition operator_seek_with_consumer_method ::
    "(topic_partition list \<Rightarrow> ('c, unit) eff) option \<Rightarrow> string \<Rightarrow> topic_partition list option \<Rightarrow> operator_state
     \<Rightarrow> ('c, unit) eff" where
  "operator_seek_with_consumer_method consumer_method method_name parts s c =
     (case resolve_seek_targets parts s of
        Inl e \<Rightarrow> (c, Inl e)
      | Inr targets \<Rightarrow>
          (case consumer_method of
             None \<Rightarrow> (c, Inl (TypeError (''Kafka consumer does not support '' @ method_name @ ''().'')))
           | Some m \<Rightarrow> m (sorted_list_of_set targets) c))"

end
