(* ===== verification/Kafka_Delivery.thy ===== *)
theory Kafka_Delivery
  imports Kafka_Operator
begin

text \<open>
  The state of a Kafka source and its delivery side: runtime counters (\<^verbatim>\<open>_runtime_state.py\<close>), commit
  gating (\<^verbatim>\<open>_commit_runtime.py\<close>) and the delivery controller (\<^verbatim>\<open>_delivery.py\<close>) with the metadata helpers
  of \<^verbatim>\<open>_deserializer_runtime.py\<close>.  The closures that \<open>start_delivery\<close> hands out are numbered hooks; the
  \<^verbatim>\<open>nonlocal acknowledged\<close> cell of each is an entry of \<open>acknowledged_hooks\<close>, so that a callback kept
  by the pipeline can still be called after the delivery was cleared.
\<close>

section \<open>Configuration and state\<close>

record kafka_config =
  kc_group_id :: string
  kc_bootstrap_servers :: string
  kc_topics :: "string list"
  kc_topic_pattern :: "string option"
  kc_assignments :: "topic_partition list"
  kc_enable_auto_commit :: bool
  kc_commit_every :: int
  kc_poll_timeout_ms :: int
  kc_max_poll_records :: int
  kc_max_idle_polls :: "int option"
  kc_monotonic :: "nat \<Rightarrow> int" \<comment> \<open>the n-th reading of \<^verbatim>\<open>time.monotonic()\<close>\<close>

record runtime_state =
  rebalance_count :: int
  idle_poll_count :: int
  last_poll_monotonic :: "int option"
  last_message_monotonic :: "int option"
  last_commit_monotonic :: "int option"
  last_rebalance_monotonic :: "int option"
  clock_reads :: nat
  runtime_changes :: nat

record delivery_context =
  dc_topic :: string
  dc_partition :: int
  dc_offset :: int
  dc_consumer_group :: string
  dc_bootstrap_servers :: string
  dc_subscription_mode :: string
  dc_batch_size :: int
  dc_batch_index :: int
  dc_key :: "byte_string option"
  dc_headers :: "(string \<times> byte_string) list"
  dc_timestamp :: "int option"
  dc_timestamp_type :: "int option"

record delivery_hook =
  hk_id :: nat
  hk_topic :: string
  hk_partition :: int
  hk_offset :: int

record delivery_state =
  record_error_count :: nat
  record_drop_count :: nat
  batch_deserialize_error_count :: nat
  active_hook :: "delivery_hook option"
  current_delivery_context :: "delivery_context option"
  next_hook :: nat
  acknowledged_hooks :: "nat set"

record ('c, 'k) kafka_source =
  src_cursor :: cursor_state
  src_runtime :: runtime_state
  src_controls :: operator_state
  src_poison :: "'k poison_state"
  src_delivery :: delivery_state
  src_consumer :: "'c option"
  src_state_changes :: nat

definition delivery_id :: "delivery_context \<Rightarrow> string" where
  "delivery_id c = dc_topic c @ '':'' @ str_of_int (dc_partition c) @ '':'' @ str_of_int (dc_offset c)"

definition subscription_mode :: "kafka_config \<Rightarrow> string" where
  "subscription_mode cfg =
     (if kc_assignments cfg \<noteq> [] then ''manual_assign''
      else if kc_topic_pattern cfg \<noteq> None then ''topic_pattern'' else ''topics'')"

definition on_state_changed :: "('c, 'k) kafka_source \<Rightarrow> ('c, 'k) kafka_source" where
  "on_state_changed s = s\<lparr>src_state_changes := Suc (src_state_changes s)\<rparr>"

abbreviation upd_cursor ::
    "(cursor_state \<Rightarrow> cursor_state) \<Rightarrow> ('c, 'k) kafka_source \<Rightarrow> ('c, 'k) kafka_source" where
  "upd_cursor f s \<equiv> s\<lparr>src_cursor := f (src_cursor s)\<rparr>"

abbreviation upd_runtime ::
    "(runtime_state \<Rightarrow> runtime_state) \<Rightarrow> ('c, 'k) kafka_source \<Rightarrow> ('c, 'k) kafka_source" where
  "upd_runtime f s \<equiv> s\<lparr>src_runtime := f (src_runtime s)\<rparr>"

abbreviation upd_delivery ::
    "(delivery_state \<Rightarrow> delivery_state) \<Rightarrow> ('c, 'k) kafka_source \<Rightarrow> ('c, 'k) kafka_source" where
  "upd_delivery f s \<equiv> s\<lparr>src_delivery := f (src_delivery s)\<rparr>"

section \<open>Runtime counters\<close>

definition runtime_init :: runtime_state where
  "runtime_init =
     \<lparr>rebalance_count = 0, idle_poll_count = 0, last_poll_monotonic = None,
      last_message_monotonic = None, last_commit_monotonic = None,
      last_rebalance_monotonic = None, clock_reads = 0, runtime_changes = 0\<rparr>"

definition runtime_on_change :: "runtime_state \<Rightarrow> runtime_state" where
  "runtime_on_change r = r\<lparr>runtime_changes := Suc (runtime_changes r)\<rparr>"

definition set_rebalance_count :: "int \<Rightarrow> runtime_state \<Rightarrow> runtime_state" where
  "set_rebalance_count n r = runtime_on_change (r\<lparr>rebalance_count := n\<rparr>)"

definition set_idle_poll_count :: "int \<Rightarrow> runtime_state \<Rightarrow> runtime_state" where
  "set_idle_poll_count n r = runtime_on_change (r\<lparr>idle_poll_count := n\<rparr>)"

definition record_poll :: "kafka_config \<Rightarrow> runtime_state \<Rightarrow> runtime_state" where
  "record_poll cfg r =
     runtime_on_change (r\<lparr>last_poll_monotonic := Some (kc_monotonic cfg (clock_reads r)),
       clock_reads := Suc (clock_reads r)\<rparr>)"

definition record_delivery_progress :: "kafka_config \<Rightarrow> runtime_state \<Rightarrow> runtime_state" where
  "record_delivery_progress cfg r =
     runtime_on_change (r\<lparr>last_message_monotonic := Some (kc_monotonic cfg (clock_reads r)),
       clock_reads := Suc (clock_reads r)\<rparr>)"

definition record_commit_progress :: "kafka_config \<Rightarrow> runtime_state \<Rightarrow> runtime_state" where
  "record_commit_progress cfg r =
     runtime_on_change (r\<lparr>last_commit_monotonic := Some (kc_monotonic cfg (clock_reads r)),
       clock_reads := Suc (clock_reads r)\<rparr>)"

definition record_rebalance :: "kafka_config \<Rightarrow> runtime_state \<Rightarrow> runtime_state" where
  "record_rebalance cfg r =
     runtime_on_change (r\<lparr>rebalance_count := rebalance_count r + 1,
       last_rebalance_monotonic := Some (kc_monotonic cfg (clock_reads r)),
       clock_reads := Suc (clock_reads r)\<rparr>)"

section \<open>Commit gating\<close>

definition commit_if_needed ::
    "kafka_config \<Rightarrow> 'c consumer_ops \<Rightarrow> bool \<Rightarrow> (('c, 'k) kafka_source, unit) eff" where
  "commit_if_needed cfg K force s =
     (case src_consumer s of
        None \<Rightarrow> (s, Inr ())
      | Some c \<Rightarrow>
          if kc_enable_auto_commit cfg then (s, Inr ())
          else if pending_commit_count (src_cursor s) \<le> 0 then (s, Inr ())
          else if \<not> force \<and> pending_commit_count (src_cursor s) < kc_commit_every cfg then (s, Inr ())
          else
            let offsets = build_commit_offsets (src_cursor s) in
            (case co_commit K (if offsets \<noteq> [] then Some offsets else None) c of
               (c', Inl e) \<Rightarrow> (s\<lparr>src_consumer := Some c'\<rparr>, Inl e)
             | (c', Inr _) \<Rightarrow>
                 (upd_runtime (record_commit_progress cfg)
                    (upd_cursor clear_pending_commit_count (s\<lparr>src_consumer := Some c'\<rparr>)), Inr ())))"

section \<open>Delivery controller\<close>

definition delivery_init :: delivery_state where
  "delivery_init =
     \<lparr>record_error_count = 0, record_drop_count = 0, batch_deserialize_error_count = 0,
      active_hook = None, current_delivery_context = None, next_hook = 0, acknowledged_hooks = {}\<rparr>"

definition clear_active_delivery :: "delivery_state \<Rightarrow> delivery_state" where
  "clear_active_delivery d = d\<lparr>active_hook := None, current_delivery_context := None\<rparr>"

definition reset_run_state :: "delivery_state \<Rightarrow> delivery_state" where
  "reset_run_state d = clear_active_delivery (d\<lparr>record_error_count := 0, record_drop_count := 0\<rparr>)"

definition mark_emitted_offset ::
    "kafka_config \<Rightarrow> string \<Rightarrow> int \<Rightarrow> int \<Rightarrow> ('c, 'k) kafka_source \<Rightarrow> ('c, 'k) kafka_source" where
  "mark_emitted_offset cfg topic part offset s =
     upd_runtime (record_delivery_progress cfg)
       (upd_cursor (remember_processed_offset topic part offset) s)"

definition message_metadata ::
    "kafka_config \<Rightarrow> kafka_message \<Rightarrow> int \<Rightarrow> int \<Rightarrow> message_metadata" where
  "message_metadata cfg m batch_size batch_index =
     \<lparr>md_topic = m_topic m, md_partition = m_partition m, md_offset = m_offset m,
      md_key = m_key m, md_headers = m_headers m, md_timestamp = m_timestamp m,
      md_timestamp_type = m_timestamp_type m, md_consumer_group = kc_group_id cfg,
      md_bootstrap_servers = kc_bootstrap_servers cfg,
      md_subscription_mode = subscription_mode cfg, md_batch_size = batch_size,
      md_batch_index = batch_index\<rparr>"

definition build_batch_contexts ::
    "kafka_config \<Rightarrow> kafka_message list \<Rightarrow> batch_message_context list" where
  "build_batch_contexts cfg messages =
     map (\<lambda>(index, m). \<lparr>bc_metadata = message_metadata cfg m (int (length messages)) (int index),
                         bc_message = m\<rparr>)
       (enumerate 0 messages)"

definition delivery_context_from_metadata :: "message_metadata \<Rightarrow> delivery_context" where
  "delivery_context_from_metadata md =
     \<lparr>dc_topic = md_topic md, dc_partition = md_partition md, dc_offset = md_offset md,
      dc_consumer_group = md_consumer_group md, dc_bootstrap_servers = md_bootstrap_servers md,
      dc_subscription_mode = md_subscription_mode md, dc_batch_size = md_batch_size md,
      dc_batch_index = md_batch_index md, dc_key = md_key md, dc_headers = md_headers md,
      dc_timestamp = md_timestamp md, dc_timestamp_type = md_timestamp_type md\<rparr>"

definition start_delivery ::
    "string \<Rightarrow> int \<Rightarrow> int \<Rightarrow> message_metadata \<Rightarrow> ('c, 'k) kafka_source
     \<Rightarrow> ('c, 'k) kafka_source \<times> delivery_hook" where
  "start_delivery topic part offset md s =
     (let d = src_delivery s;
          hook = \<lparr>hk_id = next_hook d, hk_topic = topic, hk_partition = part, hk_offset = offset\<rparr>
      in (s\<lparr>src_delivery := d\<lparr>current_delivery_context := Some (delivery_context_from_metadata md),
                             active_hook := Some hook, next_hook := Suc (next_hook d)\<rparr>\<rparr>, hook))"

definition was_acked :: "delivery_hook \<Rightarrow> ('c, 'k) kafka_source \<Rightarrow> bool" where
  "was_acked hook s \<longleftrightarrow> hk_id hook \<in> acknowledged_hooks (src_delivery s)"

definition set_acknowledged :: "delivery_hook \<Rightarrow> delivery_state \<Rightarrow> delivery_state" where
  "set_acknowledged hook d = d\<lparr>acknowledged_hooks := insert (hk_id hook) (acknowledged_hooks d)\<rparr>"

text \<open>The closure \<^verbatim>\<open>_ack\<close>.\<close>

definition ack_hook ::
    "kafka_config \<Rightarrow> 'c consumer_ops \<Rightarrow> delivery_hook \<Rightarrow> (('c, 'k) kafka_source, unit) eff" where
  "ack_hook cfg K hook s =
     (if was_acked hook s then (s, Inr ())
      else
        let s1 = upd_delivery (set_acknowledged hook) s;
            s2 = upd_cursor (mark_delivered_message (hk_topic hook) (hk_partition hook)
                   (hk_offset hook) (kc_enable_auto_commit cfg)) s1;
            s3 = upd_runtime (record_delivery_progress cfg) s2
        in if \<not> kc_enable_auto_commit cfg then commit_if_needed cfg K False s3 else (s3, Inr ()))"

text \<open>The closure \<^verbatim>\<open>_offsets\<close>: what a transactional sink commits for this record.\<close>

definition offsets_hook :: "kafka_config \<Rightarrow> delivery_hook \<Rightarrow> offset_map \<times> string" where
  "offsets_hook cfg hook =
     ([(build_topic_partition (hk_topic hook) (hk_partition hook), hk_offset hook + 1)], kc_group_id cfg)"

text \<open>The closure \<^verbatim>\<open>_committed\<close>.\<close>

definition committed_hook ::
    "kafka_config \<Rightarrow> delivery_hook \<Rightarrow> ('c, 'k) kafka_source \<Rightarrow> ('c, 'k) kafka_source" where
  "committed_hook cfg hook s =
     upd_runtime (record_commit_progress cfg)
       (upd_cursor (mark_transaction_committed (hk_topic hook) (hk_partition hook) (hk_offset hook))
         (upd_delivery (set_acknowledged hook) s))"

definition acknowledge_dropped_record ::
    "kafka_config \<Rightarrow> 'c consumer_ops \<Rightarrow> string \<Rightarrow> int \<Rightarrow> int \<Rightarrow> (('c, 'k) kafka_source, unit) eff" where
  "acknowledge_dropped_record cfg K topic part offset s =
     (let s1 = upd_cursor (mark_delivered_message topic part offset (kc_enable_auto_commit cfg)) s;
          s2 = upd_runtime (record_delivery_progress cfg) s1
      in if \<not> kc_enable_auto_commit cfg then commit_if_needed cfg K False s2 else (s2, Inr ()))"

text \<open>The two \<^verbatim>\<open>remember\<close> calls in the loop of \<open>_continue_after_batch_failure\<close>.\<close>

definition remember_handled :: "topic_partition \<Rightarrow> int \<Rightarrow> cursor_state \<Rightarrow> cursor_state" where
  "remember_handled k offset s =
     remember_committable_offset (tp_topic k) (tp_partition k) offset
       (remember_processed_offset (tp_topic k) (tp_partition k) offset s)"

definition continue_after_batch_failure ::
    "kafka_config \<Rightarrow> 'c consumer_ops \<Rightarrow> kafka_message list \<Rightarrow> (('c, 'k) kafka_source, unit) eff" where
  "continue_after_batch_failure cfg K messages s =
     (let s1 = on_state_changed (upd_delivery
                 (\<lambda>d. d\<lparr>record_drop_count := record_drop_count d + length messages\<rparr>) s);
          s2 = upd_cursor (fold (\<lambda>(k, offset). remember_handled k offset)
                 (map (\<lambda>m. (message_tp m, m_offset m)) messages)) s1;
          s3 = upd_runtime (record_delivery_progress cfg) s2
      in if \<not> kc_enable_auto_commit cfg
         then commit_if_needed cfg K False
                (on_state_changed (upd_cursor (increment_pending_commit_count (int (length messages))) s3))
         else (s3, Inr ()))"

text \<open>\<^verbatim>\<open>raise SourceRecordError(exc, checkpoint=self._current_checkpoint(), ...)\<close>.\<close>

definition raise_source_record_error :: "exn \<Rightarrow> (('c, 'k) kafka_source, 'a) eff" where
  "raise_source_record_error e s =
     (upd_cursor (\<lambda>c. fst (current_checkpoint c)) s,
      Inl (Exn ''SourceRecordError'' [''Exception''] (exn_msg e)))"

definition count_errors :: "nat \<Rightarrow> delivery_state \<Rightarrow> delivery_state" where
  "count_errors n d = d\<lparr>record_error_count := record_error_count d + n\<rparr>"

definition observe_in_source ::
    "exn \<Rightarrow> nat \<Rightarrow> ('c, 'k) kafka_source \<Rightarrow> ('c, 'k) kafka_source \<times> poison_info" where
  "observe_in_source e n s =
     (case observe_poison_records e n (src_poison s) of (p, info) \<Rightarrow> (s\<lparr>src_poison := p\<rparr>, info))"

definition run_capture :: "('k poison_state, unit) eff \<Rightarrow> (('c, 'k) kafka_source, unit) eff" where
  "run_capture capture s = (case capture (src_poison s) of (p, r) \<Rightarrow> (s\<lparr>src_poison := p\<rparr>, r))"

definition handle_single_deserialize_error ::
    "kafka_config \<Rightarrow> 'c consumer_ops \<Rightarrow> 'k sink_ops \<Rightarrow> exn \<Rightarrow> kafka_message \<Rightarrow> message_metadata
     \<Rightarrow> (('c, 'k) kafka_source, bool) eff" where
  "handle_single_deserialize_error cfg K SK e m md s =
     (case observe_in_source e 1 (upd_delivery (count_errors 1) s) of (s1, info) \<Rightarrow>
       bindE (run_capture (capture_poison_record SK e m md ''kafka_deserialize'' info)) (\<lambda>_ s2.
         if should_continue_after_poison_record (src_poison s2) then
           bindE (acknowledge_dropped_record cfg K (m_topic m) (m_partition m) (m_offset m))
             (\<lambda>_. returnE True)
             (on_state_changed (upd_delivery (\<lambda>d. d\<lparr>record_drop_count := record_drop_count d + 1\<rparr>) s2))
         else raise_source_record_error e s2)
       (on_state_changed s1))"

definition handle_batch_failure ::
    "kafka_config \<Rightarrow> 'c consumer_ops \<Rightarrow> 'k sink_ops \<Rightarrow> exn \<Rightarrow> kafka_message list
     \<Rightarrow> batch_message_context list \<Rightarrow> string \<Rightarrow> (('c, 'k) kafka_source, bool) eff" where
  "handle_batch_failure cfg K SK e messages batch_contexts stage s =
     (case observe_in_source e (length messages)
             (upd_delivery (\<lambda>d. count_errors (length messages)
                (d\<lparr>batch_deserialize_error_count := batch_deserialize_error_count d + 1\<rparr>)) s) of
        (s1, info) \<Rightarrow>
       bindE (run_capture (capture_poison_batch SK e messages batch_contexts stage info)) (\<lambda>_ s2.
         if should_continue_after_poison_record (src_poison s2)
         then bindE (continue_after_batch_failure cfg K messages) (\<lambda>_. returnE True) s2
         else raise_source_record_error e s2)
       (on_state_changed s1))"

definition handle_batch_deserialize_error ::
    "kafka_config \<Rightarrow> 'c consumer_ops \<Rightarrow> 'k sink_ops \<Rightarrow> kafka_message list \<Rightarrow> batch_message_context list
     \<Rightarrow> exn \<Rightarrow> (('c, 'k) kafka_source, bool) eff" where
  "handle_batch_deserialize_error cfg K SK messages batch_contexts e =
     handle_batch_failure cfg K SK e messages batch_contexts ''kafka_batch_deserialize''"

definition handle_batch_deserializer_count_mismatch ::
    "kafka_config \<Rightarrow> 'c consumer_ops \<Rightarrow> 'k sink_ops \<Rightarrow> kafka_message list \<Rightarrow> batch_message_context list
     \<Rightarrow> nat \<Rightarrow> (('c, 'k) kafka_source, bool) eff" where
  "handle_batch_deserializer_count_mismatch cfg K SK messages batch_contexts output_count =
     handle_batch_failure cfg K SK
       (ValueError (''Kafka batch_deserializer returned a different number of records than input messages: input=''
          @ str_of_int (int (length messages)) @ '', output='' @ str_of_int (int output_count) @ ''.''))
       messages batch_contexts ''kafka_batch_deserialize_count_mismatch''"

end
