(* ===== verification/Kafka_Stream.thy ===== *)
theory Kafka_Stream
  imports Kafka_Delivery
begin

text \<open>
  The streaming side of a Kafka source: consumer bootstrap, positioning and rebalance handling
  (\<^verbatim>\<open>_consumer_runtime.py\<close>), the operator API (\<^verbatim>\<open>_operator_api.py\<close>), the poll, deserialise and deliver
  loop (\<^verbatim>\<open>_stream_runtime.py\<close>) and closing (\<^verbatim>\<open>_session_runtime.py\<close>).

  The pipeline that consumes the generator is a parameter: for the \<open>n\<close>-th record it receives, which
  callbacks it calls and which rebalances happen before it asks for the next record, and whether it
  asks at all or closes the generator.
\<close>

section \<open>Consumer runtime\<close>

definition run_controls :: "('c controls, 'a) eff \<Rightarrow> (('c, 'k) kafka_source, 'a) eff" where
  "run_controls f s =
     (case f (src_controls s, src_consumer s) of
        ((controls, c), r) \<Rightarrow> (s\<lparr>src_controls := controls, src_consumer := c\<rparr>, r))"

abbreviation upd_controls ::
    "(operator_state \<Rightarrow> operator_state) \<Rightarrow> ('c, 'k) kafka_source \<Rightarrow> ('c, 'k) kafka_source" where
  "upd_controls f s \<equiv> s\<lparr>src_controls := f (src_controls s)\<rparr>"

text \<open>
  \<^verbatim>\<open>with contextlib.suppress(Exception): await getmany(timeout_ms=0, max_records=1)\<close>: the poll that only
  nudges the client to join its group; what it returns is discarded, a cancellation passes.
\<close>

definition bootstrap_poll :: "'c consumer_ops \<Rightarrow> ('c, unit) eff" where
  "bootstrap_poll K c =
     (case co_getmany K of
        None \<Rightarrow> (c, Inr ())
      | Some getmany \<Rightarrow>
          (case getmany 0 1 c of
             (c', Inl e) \<Rightarrow> (c', if isinstance_exn e ''CancelledError'' then Inl e else Inr ())
           | (c', Inr _) \<Rightarrow> (c', Inr ())))"

definition refresh_assignment_state ::
    "'c consumer_ops \<Rightarrow> bool \<Rightarrow> (('c, 'k) kafka_source, unit) eff" where
  "refresh_assignment_state K bootstrap s =
     (case src_consumer s of
        None \<Rightarrow> (s, Inr ())
      | Some c \<Rightarrow>
          (case co_assignment K of
             None \<Rightarrow> (s, Inr ())
           | Some assignment \<Rightarrow>
               (case (if assignment c = [] \<and> bootstrap then bootstrap_poll K c else (c, Inr ())) of
                  (c', Inl e) \<Rightarrow> (s\<lparr>src_consumer := Some c'\<rparr>, Inl e)
                | (c', Inr _) \<Rightarrow>
                    (upd_controls (sync_active_assignment (Some (assignment c'))) (s\<lparr>src_consumer := Some c'\<rparr>), Inr ()))))"

definition sync_assignment_from_consumer ::
    "'c consumer_ops \<Rightarrow> ('c, 'k) kafka_source \<Rightarrow> ('c, 'k) kafka_source" where
  "sync_assignment_from_consumer K s =
     (case src_consumer s of
        None \<Rightarrow> s
      | Some c \<Rightarrow>
          (case co_assignment K of
             None \<Rightarrow> s
           | Some assignment \<Rightarrow> upd_controls (sync_active_assignment (Some (assignment c))) s))"

definition assignment_contains :: "assignment_item list \<Rightarrow> topic_partition \<Rightarrow> bool" where
  "assignment_contains assignments k \<longleftrightarrow> list_ex (\<lambda>item. normalize_item item = Some k) assignments"

definition assignment_contains_all :: "assignment_item list \<Rightarrow> offset_map \<Rightarrow> bool" where
  "assignment_contains_all assignments offsets \<longleftrightarrow>
     list_all (\<lambda>(k, _). assignment_contains assignments k) offsets"

text \<open>
  The poll of \<open>apply_initial_positioning\<close> when a target is not assigned yet.
\<close>

definition poll_for_targets ::
    "'c consumer_ops \<Rightarrow> offset_map \<Rightarrow> 'c \<Rightarrow> (('c, 'k) kafka_source, unit) eff" where
  "poll_for_targets K target_offsets c s =
     (case co_assignment K of
        None \<Rightarrow> (s, Inr ())
      | Some assignment \<Rightarrow>
          if assignment_contains_all (assignment c) target_offsets then (s, Inr ())
          else (case bootstrap_poll K c of
                  (c', Inl e) \<Rightarrow> (s\<lparr>src_consumer := Some c'\<rparr>, Inl e)
                | (c', Inr _) \<Rightarrow>
                    (upd_controls (sync_active_assignment (Some (assignment c'))) (s\<lparr>src_consumer := Some c'\<rparr>), Inr ())))"

text \<open>The seek loop of \<open>apply_initial_positioning\<close>; \<open>assigned\<close> is \<open>None\<close> without an \<^verbatim>\<open>assignment\<close> method.\<close>

fun seek_targets ::
    "(topic_partition \<Rightarrow> int \<Rightarrow> ('c, unit) eff) \<Rightarrow> assignment_item list option \<Rightarrow> bool \<Rightarrow> offset_map
     \<Rightarrow> ('c, unit) eff" where
  "seek_targets seek assigned exact [] c = (c, Inr ())"
| "seek_targets seek assigned exact ((k, offset) # rest) c =
     (if (case assigned of None \<Rightarrow> False | Some items \<Rightarrow> items \<noteq> [] \<and> \<not> assignment_contains items k)
      then seek_targets seek assigned exact rest c
      else (case seek (build_topic_partition (tp_topic k) (tp_partition k))
                   (if exact then offset else offset + 1) c of
              (c', Inl e) \<Rightarrow> (c', Inl e)
            | (c', Inr _) \<Rightarrow> seek_targets seek assigned exact rest c'))"

definition seek_initial_offsets ::
    "'c consumer_ops \<Rightarrow> offset_map \<Rightarrow> (('c, 'k) kafka_source, unit) eff" where
  "seek_initial_offsets K target_offsets s =
     (case co_seek K of
        None \<Rightarrow> (upd_cursor mark_positioning_applied s, Inr ())
      | Some seek \<Rightarrow>
          (case src_consumer s of
             None \<Rightarrow> (s, Inr ())
           | Some c \<Rightarrow>
               (case seek_targets seek (map_option (\<lambda>assignment. assignment c) (co_assignment K))
                       (has_exact_start_offsets (src_cursor s)) target_offsets c of
                  (c', Inl e) \<Rightarrow> (s\<lparr>src_consumer := Some c'\<rparr>, Inl e)
                | (c', Inr _) \<Rightarrow>
                    (on_state_changed (upd_cursor mark_positioning_applied (s\<lparr>src_consumer := Some c'\<rparr>)), Inr ()))))"

definition apply_initial_positioning ::
    "'c consumer_ops \<Rightarrow> (('c, 'k) kafka_source, unit) eff" where
  "apply_initial_positioning K s =
     (case src_consumer s of
        None \<Rightarrow> (s, Inr ())
      | Some c \<Rightarrow>
          if positioning_applied (src_cursor s) then (s, Inr ())
          else
            let target_offsets = positioning_targets (src_cursor s) in
            if target_offsets = [] then (upd_cursor mark_positioning_applied s, Inr ())
            else thenE (poll_for_targets K target_offsets c) (seek_initial_offsets K target_offsets) s)"

definition bootstrap_consumer_state ::
    "'c consumer_ops \<Rightarrow> (('c, 'k) kafka_source, unit) eff" where
  "bootstrap_consumer_state K =
     thenE (refresh_assignment_state K True)
       (thenE (apply_initial_positioning K) (run_controls (apply_pause_state K None)))"

definition bind_consumer ::
    "kafka_config \<Rightarrow> 'c consumer_ops \<Rightarrow> (('c, 'k) kafka_source, unit) eff" where
  "bind_consumer cfg K s =
     (case src_consumer s of
        None \<Rightarrow> (s, Inr ())
      | Some c \<Rightarrow>
          if kc_assignments cfg = [] then (s, Inr ())
          else (case co_assign K of
                  None \<Rightarrow> (s, Inr ())
                | Some assign \<Rightarrow>
                    (case assign (kc_assignments cfg) c of
                       (c', Inl e) \<Rightarrow> (s\<lparr>src_consumer := Some c'\<rparr>, Inl e)
                     | (c', Inr _) \<Rightarrow>
                         (upd_controls (set_active_assignment (kc_assignments cfg))
                            (s\<lparr>src_consumer := Some c'\<rparr>), Inr ()))))"

definition handle_partitions_assigned ::
    "kafka_config \<Rightarrow> 'c consumer_ops \<Rightarrow> assignment_item list \<Rightarrow> (('c, 'k) kafka_source, unit) eff" where
  "handle_partitions_assigned cfg K parts s =
     run_controls (apply_pause_state K (Some parts))
       (upd_controls (sync_active_assignment (Some parts)) (upd_runtime (record_rebalance cfg) s))"

definition handle_partitions_revoked ::
    "kafka_config \<Rightarrow> 'c consumer_ops \<Rightarrow> assignment_item list \<Rightarrow> (('c, 'k) kafka_source, unit) eff" where
  "handle_partitions_revoked cfg K parts =
     bindE (commit_if_needed cfg K True) (\<lambda>_ s.
       let revoked = set (normalize_assignment_items (Some parts)) in
       if revoked = {} then (s, Inr ())
       else (on_state_changed (upd_controls (operator_drop_revoked revoked)
               (upd_cursor (cursor_drop_revoked revoked) s)), Inr ()))"

section \<open>Operator API\<close>

definition require_open_consumer :: "('c, 'k) kafka_source \<Rightarrow> 'c result" where
  "require_open_consumer s =
     (case src_consumer s of
        None \<Rightarrow> Inl (RuntimeError ''KafkaSource operator controls require an open consumer. Call open() or use the source inside a running pipeline first.'')
      | Some c \<Rightarrow> Inr c)"

definition commit_now ::
    "kafka_config \<Rightarrow> 'c consumer_ops \<Rightarrow> (('c, 'k) kafka_source, unit) eff" where
  "commit_now cfg K s =
     (case require_open_consumer s of
        Inl e \<Rightarrow> (s, Inl e)
      | Inr c \<Rightarrow>
          let offsets = build_commit_offsets (src_cursor s) in
          (case co_commit K (if offsets \<noteq> [] then Some offsets else None) c of
             (c', Inl e) \<Rightarrow> (s\<lparr>src_consumer := Some c'\<rparr>, Inl e)
           | (c', Inr _) \<Rightarrow>
               (upd_runtime (record_commit_progress cfg)
                  (upd_cursor clear_pending_commit_count (s\<lparr>src_consumer := Some c'\<rparr>)), Inr ())))"

fun seek_all ::
    "(topic_partition \<Rightarrow> int \<Rightarrow> ('c, unit) eff) \<Rightarrow> offset_map \<Rightarrow> ('c, unit) eff" where
  "seek_all seek [] c = (c, Inr ())"
| "seek_all seek ((k, offset) # rest) c =
     (case seek (build_topic_partition (tp_topic k) (tp_partition k)) offset c of
        (c', Inl e) \<Rightarrow> (c', Inl e)
      | (c', Inr _) \<Rightarrow> seek_all seek rest c')"

definition seek_to_offsets ::
    "'c consumer_ops \<Rightarrow> offset_map \<Rightarrow> (('c, 'k) kafka_source, unit) eff" where
  "seek_to_offsets K offsets s =
     (let normalized = normalize_offset_map offsets in
      if normalized = [] then (s, Inr ())
      else case require_open_consumer s of
        Inl e \<Rightarrow> (s, Inl e)
      | Inr _ \<Rightarrow>
          thenE (refresh_assignment_state K True)
            (\<lambda>s1. case validate_assigned_partitions (set (dict_keys normalized)) (src_controls s1) of
                Inl e \<Rightarrow> (s1, Inl e)
              | Inr _ \<Rightarrow>
                  (case co_seek K of
                     None \<Rightarrow> (s1, Inl (TypeError ''Kafka consumer does not support seek().''))
                   | Some seek \<Rightarrow>
                       (case src_consumer s1 of
                          None \<Rightarrow> (s1, Inr ())
                        | Some c1 \<Rightarrow>
                            (case seek_all seek (sort normalized) c1 of
                               (c2, Inl e) \<Rightarrow> (s1\<lparr>src_consumer := Some c2\<rparr>, Inl e)
                             | (c2, Inr _) \<Rightarrow>
                                 (upd_cursor (apply_exact_positioning normalized)
                                    (s1\<lparr>src_consumer := Some c2\<rparr>), Inr ()))))) s)"

definition api_seek_with_consumer_method ::
    "'c consumer_ops \<Rightarrow> (topic_partition list \<Rightarrow> ('c, unit) eff) option \<Rightarrow> string
     \<Rightarrow> topic_partition list option \<Rightarrow> (('c, 'k) kafka_source, unit) eff" where
  "api_seek_with_consumer_method K consumer_method method_name parts s =
     (case require_open_consumer s of
        Inl e \<Rightarrow> (s, Inl e)
      | Inr _ \<Rightarrow>
          thenE (refresh_assignment_state K True)
            (\<lambda>s1. case src_consumer s1 of
                None \<Rightarrow> (s1, Inr ())
              | Some c1 \<Rightarrow>
                  (case operator_seek_with_consumer_method consumer_method method_name parts
                          (src_controls s1) c1 of
                     (c2, Inl e) \<Rightarrow> (s1\<lparr>src_consumer := Some c2\<rparr>, Inl e)
                   | (c2, Inr _) \<Rightarrow>
                       (upd_cursor clear_positioning_targets (s1\<lparr>src_consumer := Some c2\<rparr>), Inr ()))) s)"

definition api_pause ::
    "'c consumer_ops \<Rightarrow> topic_partition list option \<Rightarrow> (('c, 'k) kafka_source, unit) eff" where
  "api_pause K parts s = run_controls (operator_pause K parts) (sync_assignment_from_consumer K s)"

definition api_resume ::
    "'c consumer_ops \<Rightarrow> topic_partition list option \<Rightarrow> (('c, 'k) kafka_source, unit) eff" where
  "api_resume K parts s = run_controls (operator_resume K parts) (sync_assignment_from_consumer K s)"

section \<open>Delivery of a batch\<close>

datatype delivery_event =
    CallSuccess
  | CallCommitted
  | Revoked "assignment_item list"
  | Assigned "assignment_item list"

datatype resumption = ResumeNext | CloseGenerator

type_synonym pipeline = "nat \<Rightarrow> delivery_event list \<times> resumption"

datatype gen_outcome = Completed | GenClosed | GenRaised exn

text \<open>
  One event while the generator is suspended.  An exception of a callback goes to its caller in the
  pipeline, not into the generator; the state it leaves is kept.
\<close>

fun handle_delivery_event ::
    "kafka_config \<Rightarrow> 'c consumer_ops \<Rightarrow> delivery_hook \<Rightarrow> delivery_event \<Rightarrow> ('c, 'k) kafka_source
     \<Rightarrow> ('c, 'k) kafka_source" where
  "handle_delivery_event cfg K hook CallSuccess s = fst (ack_hook cfg K hook s)"
| "handle_delivery_event cfg K hook CallCommitted s = committed_hook cfg hook s"
| "handle_delivery_event cfg K hook (Revoked parts) s = fst (handle_partitions_revoked cfg K parts s)"
| "handle_delivery_event cfg K hook (Assigned parts) s = fst (handle_partitions_assigned cfg K parts s)"

definition emit_record ::
    "kafka_config \<Rightarrow> 'c consumer_ops \<Rightarrow> delivery_event list \<times> resumption \<Rightarrow> kafka_message
     \<Rightarrow> message_metadata \<Rightarrow> ('c, 'k) kafka_source \<Rightarrow> ('c, 'k) kafka_source \<times> gen_outcome" where
  "emit_record cfg K reaction m md s =
     (let s1 = mark_emitted_offset cfg (m_topic m) (m_partition m) (m_offset m) s in
      case start_delivery (m_topic m) (m_partition m) (m_offset m) md s1 of (s2, hook) \<Rightarrow>
        let s3 = fold (handle_delivery_event cfg K hook) (fst reaction) s2;
            s4 = upd_delivery clear_active_delivery s3
        in (case snd reaction of
              CloseGenerator \<Rightarrow> (s4, GenClosed)
            | ResumeNext \<Rightarrow>
                if was_acked hook s4 then (s4, Completed)
                else (case ack_hook cfg K hook s4 of
                        (s5, Inl e) \<Rightarrow> (s5, GenRaised e)
                      | (s5, Inr _) \<Rightarrow> (s5, Completed))))"

text \<open>
  The result of a generator run: the source state, the records handed to the pipeline so far, and
  how the run ended.
\<close>

type_synonym ('c, 'k, 'r) run = "('c, 'k) kafka_source \<times> 'r list \<times> gen_outcome"

fun emit_each ::
    "kafka_config \<Rightarrow> 'c consumer_ops \<Rightarrow> pipeline \<Rightarrow> ('r \<times> batch_message_context) list \<Rightarrow> 'r list
     \<Rightarrow> ('c, 'k) kafka_source \<Rightarrow> ('c, 'k, 'r) run" where
  "emit_each cfg K pipe [] out s = (s, out, Completed)"
| "emit_each cfg K pipe ((record, bc) # rest) out s =
     (case emit_record cfg K (pipe (length out)) (bc_message bc) (bc_metadata bc) s of
        (s', Completed) \<Rightarrow> emit_each cfg K pipe rest (out @ [record]) s'
      | (s', outcome) \<Rightarrow> (s', out @ [record], outcome))"

fun deliver_each ::
    "kafka_config \<Rightarrow> 'c consumer_ops \<Rightarrow> 'k sink_ops \<Rightarrow> (kafka_message \<Rightarrow> message_metadata \<Rightarrow> 'r result)
     \<Rightarrow> pipeline \<Rightarrow> batch_message_context list \<Rightarrow> 'r list \<Rightarrow> ('c, 'k) kafka_source
     \<Rightarrow> ('c, 'k, 'r) run" where
  "deliver_each cfg K SK deserialize pipe [] out s = (s, out, Completed)"
| "deliver_each cfg K SK deserialize pipe (bc # rest) out s =
     (case deserialize (bc_message bc) (bc_metadata bc) of
        Inl e \<Rightarrow>
          (case handle_single_deserialize_error cfg K SK e (bc_message bc) (bc_metadata bc) s of
             (s', Inl e') \<Rightarrow> (s', out, GenRaised e')
           | (s', Inr _) \<Rightarrow> deliver_each cfg K SK deserialize pipe rest out s')
      | Inr record \<Rightarrow>
          (case emit_record cfg K (pipe (length out)) (bc_message bc) (bc_metadata bc) s of
             (s', Completed) \<Rightarrow> deliver_each cfg K SK deserialize pipe rest (out @ [record]) s'
           | (s', outcome) \<Rightarrow> (s', out @ [record], outcome)))"

definition outcome_of :: "'a result \<Rightarrow> gen_outcome" where
  "outcome_of r = (case r of Inl e \<Rightarrow> GenRaised e | Inr _ \<Rightarrow> Completed)"

text \<open>
  The user's deserialisers are parameters: one per message, or one per batch when configured.
\<close>

record 'r deserializers =
  ds_single :: "kafka_message \<Rightarrow> message_metadata \<Rightarrow> 'r result"
  ds_batch :: "(kafka_message list \<Rightarrow> batch_message_context list \<Rightarrow> 'r list result) option"

definition deliver_batch ::
    "kafka_config \<Rightarrow> 'c consumer_ops \<Rightarrow> 'k sink_ops \<Rightarrow> 'r deserializers \<Rightarrow> pipeline \<Rightarrow> kafka_message list
     \<Rightarrow> 'r list \<Rightarrow> ('c, 'k) kafka_source \<Rightarrow> ('c, 'k, 'r) run" where
  "deliver_batch cfg K SK ds pipe messages out s =
     (let batch_contexts = build_batch_contexts cfg messages in
      case ds_batch ds of
        Some deserialize_batch \<Rightarrow>
          (case deserialize_batch messages batch_contexts of
             Inl e \<Rightarrow>
               (case handle_batch_deserialize_error cfg K SK messages batch_contexts e s of
                  (s', r) \<Rightarrow> (s', out, outcome_of r))
           | Inr batch_records \<Rightarrow>
               if length batch_records = length messages
               then emit_each cfg K pipe (zip batch_records batch_contexts) out s
               else (case handle_batch_deserializer_count_mismatch cfg K SK messages batch_contexts
                            (length batch_records) (upd_delivery clear_active_delivery s) of
                       (s', r) \<Rightarrow> (s', out, outcome_of r)))
      | None \<Rightarrow> deliver_each cfg K SK (ds_single ds) pipe batch_contexts out s)"

section \<open>The stream\<close>

text \<open>
  How the messages are fetched: \<^verbatim>\<open>getmany\<close> with the configured limits under the core library's
  \<^verbatim>\<open>retry_async\<close> and the source's policy, or, from a client without that method, one message after the
  other by its own iterator.
\<close>

type_synonym polled = "(topic_partition \<times> kafka_message list) list"

record 'c fetch_ops =
  fo_getmany :: "('c, polled) eff option"
  fo_next :: "('c, kafka_message) eff"

text \<open>One turn of \<^verbatim>\<open>_iter_message_batches\<close>: what it leads to, with the new count of idle polls.\<close>

datatype fetched = FetchRaised exn | FetchEnded | FetchIdle int | FetchBatch "kafka_message list"

definition fetch_failed :: "exn \<Rightarrow> fetched" where
  "fetch_failed e = (if isinstance_exn e ''StopAsyncIteration'' then FetchEnded else FetchRaised e)"

definition fetched_nothing :: "kafka_config \<Rightarrow> int \<Rightarrow> ('c, 'k) kafka_source \<Rightarrow> ('c, 'k) kafka_source \<times> fetched" where
  "fetched_nothing cfg idle_polls s =
     (case kc_max_idle_polls cfg of
        None \<Rightarrow> (upd_runtime (\<lambda>r. set_idle_poll_count (idle_poll_count r + 1) r) s, FetchIdle idle_polls)
      | Some max_idle \<Rightarrow>
          (upd_runtime (set_idle_poll_count (idle_polls + 1)) s,
           if max_idle \<le> idle_polls + 1 then FetchEnded else FetchIdle (idle_polls + 1)))"

definition fetch ::
    "kafka_config \<Rightarrow> 'c consumer_ops \<Rightarrow> 'c fetch_ops \<Rightarrow> int \<Rightarrow> ('c, 'k) kafka_source
     \<Rightarrow> ('c, 'k) kafka_source \<times> fetched" where
  "fetch cfg K F idle_polls s =
     (case src_consumer s of
        None \<Rightarrow> (s, FetchRaised (RuntimeError ''consumer closed''))
      | Some c \<Rightarrow>
          (case fo_getmany F of
             None \<Rightarrow>
               (case fo_next F c of
                  (c', Inl e) \<Rightarrow> (s\<lparr>src_consumer := Some c'\<rparr>, fetch_failed e)
                | (c', Inr m) \<Rightarrow> (sync_assignment_from_consumer K (s\<lparr>src_consumer := Some c'\<rparr>), FetchBatch [m]))
           | Some getmany \<Rightarrow>
               (case getmany c of
                  (c', Inl e) \<Rightarrow> (s\<lparr>src_consumer := Some c'\<rparr>, fetch_failed e)
                | (c', Inr batches) \<Rightarrow>
                    let s1 = upd_runtime (record_poll cfg) (s\<lparr>src_consumer := Some c'\<rparr>) in
                    if list_all (\<lambda>(_, ms). ms = []) batches then fetched_nothing cfg idle_polls s1
                    else
                      (upd_controls (sync_active_assignment (Some (map (\<lambda>(k, _). tuple_of k) batches)))
                         (upd_runtime (set_idle_poll_count 0) s1),
                       FetchBatch (concat (map snd batches))))))"

text \<open>The poll loop with fuel: one unit per turn.\<close>

fun poll_loop ::
    "kafka_config \<Rightarrow> 'c consumer_ops \<Rightarrow> 'k sink_ops \<Rightarrow> 'r deserializers \<Rightarrow> pipeline
     \<Rightarrow> 'c fetch_ops \<Rightarrow> nat \<Rightarrow> int \<Rightarrow> 'r list \<Rightarrow> ('c, 'k) kafka_source
     \<Rightarrow> ('c, 'k, 'r) run option" where
  "poll_loop cfg K SK ds pipe F 0 idle_polls out s = None"
| "poll_loop cfg K SK ds pipe F (Suc fuel) idle_polls out s =
     (case fetch cfg K F idle_polls s of
        (s', FetchRaised e) \<Rightarrow> Some (s', out, GenRaised e)
      | (s', FetchEnded) \<Rightarrow> Some (s', out, Completed)
      | (s', FetchIdle n) \<Rightarrow> poll_loop cfg K SK ds pipe F fuel n out s'
      | (s', FetchBatch messages) \<Rightarrow>
          (case deliver_batch cfg K SK ds pipe messages out s' of
             (s4, out', Completed) \<Rightarrow> poll_loop cfg K SK ds pipe F fuel 0 out' s4
           | (s4, out', outcome) \<Rightarrow> Some (s4, out', outcome)))"

text \<open>The \<^verbatim>\<open>except\<close> and \<^verbatim>\<open>finally\<close> clauses of \<open>stream\<close>.\<close>

definition stream_finally ::
    "kafka_config \<Rightarrow> 'c consumer_ops \<Rightarrow> gen_outcome \<Rightarrow> ('c, 'k) kafka_source
     \<Rightarrow> ('c, 'k) kafka_source \<times> gen_outcome" where
  "stream_finally cfg K outcome s =
     (case commit_if_needed cfg K True (upd_delivery clear_active_delivery s) of
        (s', Inl e) \<Rightarrow> (s', GenRaised e)
      | (s', Inr _) \<Rightarrow> (s', outcome))"

definition stream_end ::
    "kafka_config \<Rightarrow> 'c consumer_ops \<Rightarrow> gen_outcome \<Rightarrow> ('c, 'k) kafka_source
     \<Rightarrow> ('c, 'k) kafka_source \<times> gen_outcome" where
  "stream_end cfg K outcome s =
     (case outcome of
        GenRaised e \<Rightarrow>
          (case commit_if_needed cfg K True s of
             (s', Inl e') \<Rightarrow> stream_finally cfg K (GenRaised e') s'
           | (s', Inr _) \<Rightarrow> stream_finally cfg K (GenRaised e) s')
      | _ \<Rightarrow> stream_finally cfg K outcome s)"

text \<open>What \<open>stream\<close> does before its first poll.\<close>

definition stream_start :: "'c consumer_ops \<Rightarrow> (('c, 'k) kafka_source, unit) eff" where
  "stream_start K s =
     bootstrap_consumer_state K (on_state_changed (upd_cursor reset_for_stream (upd_delivery reset_run_state s)))"

definition stream ::
    "kafka_config \<Rightarrow> 'c consumer_ops \<Rightarrow> 'k sink_ops \<Rightarrow> 'r deserializers \<Rightarrow> pipeline
     \<Rightarrow> 'c fetch_ops \<Rightarrow> nat \<Rightarrow> ('c, 'k) kafka_source \<Rightarrow> ('c, 'k, 'r) run option" where
  "stream cfg K SK ds pipe F fuel s =
     (case stream_start K s of
        (s2, Inl e) \<Rightarrow> Some (s2, [], GenRaised e)
      | (s2, Inr _) \<Rightarrow>
          (case poll_loop cfg K SK ds pipe F fuel 0 [] s2 of
             None \<Rightarrow> None
           | Some (s3, out, outcome) \<Rightarrow>
               (case stream_end cfg K outcome s3 of (s4, outcome') \<Rightarrow> Some (s4, out, outcome'))))"

section \<open>Closing\<close>

definition handle_consumer_closed :: "('c, 'k) kafka_source \<Rightarrow> ('c, 'k) kafka_source" where
  "handle_consumer_closed s =
     on_state_changed (upd_delivery clear_active_delivery (upd_controls (set_active_assignment []) s))"

text \<open>\<^verbatim>\<open>KafkaConsumerSession.close\<close>; errors of the final commit and of \<^verbatim>\<open>stop\<close> are logged or suppressed.\<close>

definition session_close ::
    "kafka_config \<Rightarrow> 'c consumer_ops \<Rightarrow> ('c, 'k) kafka_source \<Rightarrow> ('c, 'k) kafka_source" where
  "session_close cfg K s =
     (case src_consumer s of
        None \<Rightarrow> s
      | Some _ \<Rightarrow>
          handle_consumer_closed ((fst (commit_if_needed cfg K True s))\<lparr>src_consumer := None\<rparr>))"

end
