(* ===== verification/Kafka_Commit_Safety.thy ===== *)
theory Kafka_Commit_Safety
  imports Kafka_Stream
begin

text \<open>
  Delivery and commit order of a Kafka source: after any delivery of a batch the committable offsets
  are those of a prefix of the batch, every commit sent to the broker covers such a prefix, and the
  prefix never runs ahead of what the pipeline was given.  The proofs follow the code: one lemma per
  operation of the delivery controller (\<open>at_prefix\<close> says which prefix the source has reached), then the
  loops over the batch.
\<close>

section \<open>Commit prefixes\<close>

definition msg_pos :: "kafka_message \<Rightarrow> topic_partition \<times> int" where
  "msg_pos m = (message_tp m, m_offset m)"

definition prefix_committable ::
    "(topic_partition \<Rightarrow> int option) \<Rightarrow> kafka_message list \<Rightarrow> nat \<Rightarrow> topic_partition \<Rightarrow> int option" where
  "prefix_committable base ms j = base ++ map_of (rev (map msg_pos (take j ms)))"

lemma prefix_committable_Suc:
  "j < length ms \<Longrightarrow>
   prefix_committable base ms (Suc j) = (prefix_committable base ms j)(message_tp (ms ! j) \<mapsto> m_offset (ms ! j))"
  by (simp add: prefix_committable_def take_Suc_conv_app_nth msg_pos_def map_add_def fun_eq_iff)

lemma prefix_committable_0 [simp]: "prefix_committable base ms 0 = base"
  by (simp add: prefix_committable_def)

definition source_inv :: "('c, 'k) kafka_source \<Rightarrow> bool" where
  "source_inv s \<longleftrightarrow>
     cursor_inv (src_cursor s) \<and>
     (pending_commit_count (src_cursor s) \<le> 0 \<or> committable_offsets (src_cursor s) \<noteq> []) \<and>
     (\<forall>i \<in> acknowledged_hooks (src_delivery s). i < next_hook (src_delivery s))"

definition at_prefix ::
    "(topic_partition \<Rightarrow> int option) \<Rightarrow> kafka_message list \<Rightarrow> poison_policy \<Rightarrow> (nat \<Rightarrow> 'c \<Rightarrow> bool) \<Rightarrow> nat
     \<Rightarrow> ('c, 'k) kafka_source \<Rightarrow> bool" where
  "at_prefix base ms pol P j s \<longleftrightarrow>
     source_inv s \<and> poison_record_policy (src_poison s) = pol \<and>
     dict_get (committable_offsets (src_cursor s)) = prefix_committable base ms j \<and>
     src_consumer s \<noteq> None \<and> pred_option (P j) (src_consumer s)"

definition commits_preserve ::
    "'c consumer_ops \<Rightarrow> (topic_partition \<Rightarrow> int option) \<Rightarrow> kafka_message list \<Rightarrow> (nat \<Rightarrow> 'c \<Rightarrow> bool) \<Rightarrow> bool" where
  "commits_preserve K base ms P \<longleftrightarrow>
     (\<forall>j offsets c. j \<le> length ms \<and>
        (\<forall>k. dict_get offsets k = map_option (\<lambda>offset. offset + 1) (prefix_committable base ms j k)) \<and> P j c
        \<longrightarrow> P j (fst (co_commit K (Some offsets) c))) \<and>
     (\<forall>i j c. i \<le> j \<and> P i c \<longrightarrow> P j c)"

lemma commits_preserveD:
  "commits_preserve K base ms P \<Longrightarrow> j \<le> length ms \<Longrightarrow>
   (\<And>k. dict_get offsets k = map_option (\<lambda>offset. offset + 1) (prefix_committable base ms j k)) \<Longrightarrow>
   P j c \<Longrightarrow> P j (fst (co_commit K (Some offsets) c))"
  unfolding commits_preserve_def by blast

lemma commits_preserve_mono:
  "commits_preserve K base ms P \<Longrightarrow> i \<le> j \<Longrightarrow> pred_option (P i) c \<Longrightarrow> pred_option (P j) c"
  unfolding commits_preserve_def by (cases c) auto

lemma dict_set_not_Nil [simp]: "dict_set k v d \<noteq> []"
  by (cases d) auto

lemma cursor_inv_clear_pending [simp]: "cursor_inv s \<Longrightarrow> cursor_inv (clear_pending_commit_count s)"
  by (simp add: cursor_inv_simple)

lemma clear_pending_fields [simp]:
  "committable_offsets (clear_pending_commit_count s) = committable_offsets s"
  "processed_offsets (clear_pending_commit_count s) = processed_offsets s"
  "pending_commit_count (clear_pending_commit_count s) = 0"
  by (simp_all add: cursor_defs)

lemma build_commit_offsets_Nil [simp]: "build_commit_offsets s = [] \<longleftrightarrow> committable_offsets s = []"
  by (simp add: build_commit_offsets_def)

text \<open>Gating changes neither the committable offsets nor the delivery, poison and control state.\<close>

lemma commit_if_needed_frame [simp]:
  "src_delivery (fst (commit_if_needed cfg K f s)) = src_delivery s"
  "src_poison (fst (commit_if_needed cfg K f s)) = src_poison s"
  "src_controls (fst (commit_if_needed cfg K f s)) = src_controls s"
  "committable_offsets (src_cursor (fst (commit_if_needed cfg K f s))) = committable_offsets (src_cursor s)"
  "processed_offsets (src_cursor (fst (commit_if_needed cfg K f s))) = processed_offsets (src_cursor s)"
  "src_consumer (fst (commit_if_needed cfg K f s)) = None \<longleftrightarrow> src_consumer s = None"
  by (simp_all add: commit_if_needed_def Let_def split: option.split sum.split prod.split)

lemma commit_if_needed_inv:
  "source_inv s \<Longrightarrow> source_inv (fst (commit_if_needed cfg K f s))"
  by (auto simp: commit_if_needed_def Let_def source_inv_def split: option.splits sum.splits prod.splits)

lemma commit_at_prefix:
  assumes "at_prefix base ms pol P j s" "j \<le> length ms" "commits_preserve K base ms P"
  shows "at_prefix base ms pol P j (fst (commit_if_needed cfg K f s))"
proof -
  have "pred_option (P j) (src_consumer (fst (commit_if_needed cfg K f s)))"
  proof (cases "src_consumer s")
    case (Some c)
    let ?off = "build_commit_offsets (src_cursor s)"
    have Pc: "P j c" and get: "dict_get (committable_offsets (src_cursor s)) = prefix_committable base ms j"
      using assms(1) Some by (simp_all add: at_prefix_def)
    have P: "P j (fst (co_commit K (Some ?off) c))"
      by (rule commits_preserveD [OF assms(3,2) _ Pc]) (simp add: build_commit_offsets_get get)
    have "src_consumer (fst (commit_if_needed cfg K f s)) \<in> {Some c, Some (fst (co_commit K (Some ?off) c))}"
      using assms(1) Some
      by (cases "pending_commit_count (src_cursor s) \<le> 0"; cases "co_commit K (Some ?off) c")
        (simp_all add: commit_if_needed_def at_prefix_def source_inv_def split: sum.split)
    with P Pc show ?thesis by auto
  qed (simp add: commit_if_needed_def)
  with assms(1) show ?thesis by (simp add: at_prefix_def commit_if_needed_inv)
qed

lemma remember_processed_fields [simp]:
  "committable_offsets (remember_processed_offset t p off s) = committable_offsets s"
  "pending_commit_count (remember_processed_offset t p off s) = pending_commit_count s"
  by (simp_all add: cursor_defs)

lemma mark_emitted_at_prefix:
  "at_prefix base ms pol P j s \<Longrightarrow> at_prefix base ms pol P j (mark_emitted_offset cfg t p off s)"
  by (simp add: at_prefix_def source_inv_def mark_emitted_offset_def cursor_inv_simple)

section \<open>Hooks\<close>

definition hook_for :: "kafka_message \<Rightarrow> delivery_hook \<Rightarrow> bool" where
  "hook_for m hook \<longleftrightarrow> hk_topic hook = m_topic m \<and> hk_partition hook = m_partition m \<and> hk_offset hook = m_offset m"

definition hook_at ::
    "(topic_partition \<Rightarrow> int option) \<Rightarrow> kafka_message list \<Rightarrow> poison_policy \<Rightarrow> (nat \<Rightarrow> 'c \<Rightarrow> bool) \<Rightarrow> nat \<Rightarrow> delivery_hook
     \<Rightarrow> ('c, 'k) kafka_source \<Rightarrow> bool" where
  "hook_at base ms pol P j hook s \<longleftrightarrow>
     at_prefix base ms pol P (if was_acked hook s then Suc j else j) s \<and>
     hk_id hook < next_hook (src_delivery s)"

lemma mark_at_prefix:
  assumes "at_prefix base ms pol P j' s" "j < length ms" "j' = j \<or> j' = Suc j" "commits_preserve K base ms P"
    and "d' = src_delivery s \<or> d' = set_acknowledged hook (src_delivery s) \<and> hk_id hook < next_hook (src_delivery s)"
  shows "at_prefix base ms pol P (Suc j)
     (s\<lparr>src_delivery := d', src_cursor := mark_delivered_message (m_topic (ms ! j)) (m_partition (ms ! j)) (m_offset (ms ! j)) b (src_cursor s), src_runtime := r'\<rparr>)"
    "at_prefix base ms pol P (Suc j)
     (s\<lparr>src_delivery := d', src_cursor := mark_transaction_committed (m_topic (ms ! j)) (m_partition (ms ! j)) (m_offset (ms ! j)) (src_cursor s), src_runtime := r'\<rparr>)"
  using assms commits_preserve_mono [OF assms(4), of j' "Suc j" "src_consumer s"]
  by (auto simp: at_prefix_def source_inv_def cursor_inv_marks prefix_committable_Suc update_conv'
      set_acknowledged_def)

lemma ack_hook_at:
  assumes "hook_at base ms pol P j hook s" "j < length ms" "hook_for (ms ! j) hook" "commits_preserve K base ms P"
  shows "hook_at base ms pol P j hook (fst (ack_hook cfg K hook s))" "was_acked hook (fst (ack_hook cfg K hook s))"
proof -
  have "hook_at base ms pol P j hook (fst (ack_hook cfg K hook s)) \<and> was_acked hook (fst (ack_hook cfg K hook s))"
  proof (cases "was_acked hook s")
    case True
    with assms(1) show ?thesis by (simp add: ack_hook_def)
  next
    case False
    let ?s1 = "s\<lparr>src_delivery := set_acknowledged hook (src_delivery s),
        src_cursor := mark_delivered_message (m_topic (ms ! j)) (m_partition (ms ! j)) (m_offset (ms ! j))
          (kc_enable_auto_commit cfg) (src_cursor s),
        src_runtime := record_delivery_progress cfg (src_runtime s)\<rparr>"
    have at: "at_prefix base ms pol P (Suc j) ?s1"
      using assms(1,2,4) False by (intro mark_at_prefix(1) [where hook = hook and K = K]) (auto simp: hook_at_def)
    have "at_prefix base ms pol P (Suc j) (fst (commit_if_needed cfg K False ?s1))"
      using at assms(2,4) by (intro commit_at_prefix) simp_all
    moreover have "fst (ack_hook cfg K hook s) \<in> {?s1, fst (commit_if_needed cfg K False ?s1)}"
      using assms(3) False by (simp add: ack_hook_def hook_for_def Let_def)
    moreover have "hk_id hook < next_hook (src_delivery s)"
      using assms(1) by (simp add: hook_at_def)
    ultimately show ?thesis
      using at by (auto simp: hook_at_def was_acked_def set_acknowledged_def)
  qed
  then show "hook_at base ms pol P j hook (fst (ack_hook cfg K hook s))"
    and "was_acked hook (fst (ack_hook cfg K hook s))" by blast+
qed

lemma committed_hook_at:
  assumes "hook_at base ms pol P j hook s" "j < length ms" "hook_for (ms ! j) hook" "commits_preserve K base ms P"
  shows "hook_at base ms pol P j hook (committed_hook cfg hook s)"
proof -
  have "at_prefix base ms pol P (Suc j) (s\<lparr>src_delivery := set_acknowledged hook (src_delivery s),
      src_cursor := mark_transaction_committed (m_topic (ms ! j)) (m_partition (ms ! j))
        (m_offset (ms ! j)) (src_cursor s),
      src_runtime := record_commit_progress cfg (src_runtime s)\<rparr>)"
    using assms(1,2,4)
    by (intro mark_at_prefix(2) [where K = K and hook = hook and j' = "if was_acked hook s then Suc j else j"])
      (simp_all add: hook_at_def)
  with assms(1,3) show ?thesis
    by (auto simp: committed_hook_def hook_for_def hook_at_def was_acked_def set_acknowledged_def)
qed

text \<open>A pipeline that only calls the delivery callbacks (no rebalance while it works).\<close>

definition plain_event :: "delivery_event \<Rightarrow> bool" where
  "plain_event e \<longleftrightarrow> e = CallSuccess \<or> e = CallCommitted"

lemma events_hook_at:
  assumes "hook_at base ms pol P j hook s" "j < length ms" "hook_for (ms ! j) hook"
    "commits_preserve K base ms P" "list_all plain_event es"
  shows "hook_at base ms pol P j hook (fold (handle_delivery_event cfg K hook) es s)"
  using assms(1,5)
proof (induction es arbitrary: s)
  case (Cons e es)
  have "hook_at base ms pol P j hook (handle_delivery_event cfg K hook e s)"
    using Cons.prems assms(2,3,4) ack_hook_at(1) committed_hook_at
    by (cases e) (auto simp: plain_event_def)
  with Cons show ?case by simp
qed simp

lemma start_delivery_hook_at:
  assumes "at_prefix base ms pol P j s"
  shows "hook_at base ms pol P j (snd (start_delivery t p off md s)) (fst (start_delivery t p off md s))"
  using assms
  by (auto simp: hook_at_def start_delivery_def at_prefix_def source_inv_def was_acked_def Let_def
      less_Suc_eq)

lemma start_delivery_hook_for:
  "hook_for m (snd (start_delivery (m_topic m) (m_partition m) (m_offset m) md s))"
  by (simp add: hook_for_def start_delivery_def Let_def)

lemma clear_active_hook_at:
  "hook_at base ms pol P j hook (upd_delivery clear_active_delivery s) = hook_at base ms pol P j hook s"
  "was_acked hook (upd_delivery clear_active_delivery s) = was_acked hook s"
  by (simp_all add: hook_at_def at_prefix_def source_inv_def was_acked_def clear_active_delivery_def)

lemma emit_record_at_prefix:
  assumes "at_prefix base ms pol P j s" "j < length ms" "commits_preserve K base ms P"
    "list_all plain_event (fst reaction)"
  shows "\<exists>j'. j \<le> j' \<and> j' \<le> Suc j \<and>
      at_prefix base ms pol P j' (fst (emit_record cfg K reaction (ms ! j) md s)) \<and>
      (snd (emit_record cfg K reaction (ms ! j) md s) \<noteq> GenClosed \<longrightarrow> j' = Suc j)"
proof -
  let ?m = "ms ! j"
  define s1 where "s1 = mark_emitted_offset cfg (m_topic ?m) (m_partition ?m) (m_offset ?m) s"
  obtain s2 hook where sd: "start_delivery (m_topic ?m) (m_partition ?m) (m_offset ?m) md s1 = (s2, hook)"
    by fastforce
  have "at_prefix base ms pol P j s1"
    unfolding s1_def by (rule mark_emitted_at_prefix [OF assms(1)])
  then have h2: "hook_at base ms pol P j hook s2" and hf: "hook_for ?m hook"
    using start_delivery_hook_at start_delivery_hook_for sd by (metis fst_conv snd_conv)+
  define s4 where "s4 = upd_delivery clear_active_delivery (fold (handle_delivery_event cfg K hook) (fst reaction) s2)"
  have h4: "hook_at base ms pol P j hook s4"
    unfolding s4_def clear_active_hook_at
    by (rule events_hook_at [OF h2 assms(2) hf assms(3,4)])
  have ack: "hook_at base ms pol P j hook (fst (ack_hook cfg K hook s4))"
      "was_acked hook (fst (ack_hook cfg K hook s4))"
    by (rule ack_hook_at [OF h4 assms(2) hf assms(3)])+
  have run: "emit_record cfg K reaction ?m md s =
      (case snd reaction of CloseGenerator \<Rightarrow> (s4, GenClosed)
       | ResumeNext \<Rightarrow> if was_acked hook s4 then (s4, Completed)
           else (case ack_hook cfg K hook s4 of (s5, Inl e) \<Rightarrow> (s5, GenRaised e) | (s5, Inr _) \<Rightarrow> (s5, Completed)))"
    unfolding emit_record_def Let_def s1_def [symmetric] sd prod.case s4_def [symmetric] ..
  show ?thesis
  proof (cases "snd reaction")
    case CloseGenerator
    with h4 run show ?thesis
      by (intro exI [of _ "if was_acked hook s4 then Suc j else j"]) (simp add: hook_at_def)
  next
    case ResumeNext
    with h4 ack run show ?thesis
      by (cases "was_acked hook s4") (auto simp: hook_at_def split: prod.splits sum.splits)
  qed
qed


section \<open>Records that cannot be deserialised\<close>

lemma remember_handled_fields [simp]:
  "committable_offsets (remember_handled k off s) = dict_set k off (committable_offsets s)"
  "pending_commit_count (remember_handled k off s) = pending_commit_count s"
  by (simp_all add: remember_handled_def cursor_defs build_topic_partition_def)

lemma cursor_inv_remember_handled [simp]: "cursor_inv s \<Longrightarrow> cursor_inv (remember_handled k off s)"
  by (simp add: remember_handled_def cursor_inv_simple)

lemma acknowledge_dropped_at_prefix:
  assumes "at_prefix base ms pol P j s" "j < length ms" "commits_preserve K base ms P"
  shows "at_prefix base ms pol P (Suc j)
    (fst (acknowledge_dropped_record cfg K (m_topic (ms ! j)) (m_partition (ms ! j)) (m_offset (ms ! j)) s))"
proof -
  let ?s1 = "s\<lparr>src_delivery := src_delivery s, src_cursor := mark_delivered_message (m_topic (ms ! j)) (m_partition (ms ! j)) (m_offset (ms ! j))
        (kc_enable_auto_commit cfg) (src_cursor s), src_runtime := record_delivery_progress cfg (src_runtime s)\<rparr>"
  have at: "at_prefix base ms pol P (Suc j) ?s1"
    by (rule mark_at_prefix(1) [OF assms(1,2) _ assms(3)]) simp_all
  then have "at_prefix base ms pol P (Suc j) (fst (commit_if_needed cfg K False ?s1))"
    using assms(2,3) by (intro commit_at_prefix) simp_all
  with at show ?thesis
    by (cases "kc_enable_auto_commit cfg") (simp_all add: acknowledge_dropped_record_def Let_def)
qed


lemma at_prefix_frame [simp]:
  "at_prefix base ms pol P j (on_state_changed s) = at_prefix base ms pol P j s"
  "at_prefix base ms pol P j (upd_delivery (count_errors n) s) = at_prefix base ms pol P j s"
  "at_prefix base ms pol P j (s\<lparr>src_delivery := src_delivery s\<lparr>record_drop_count := n\<rparr>\<rparr>) = at_prefix base ms pol P j s"
  "poison_record_policy p = poison_record_policy (src_poison s) \<Longrightarrow>
   at_prefix base ms pol P j (s\<lparr>src_poison := p\<rparr>) = at_prefix base ms pol P j s"
  by (simp_all add: at_prefix_def source_inv_def on_state_changed_def count_errors_def)

lemma current_checkpoint_frame [simp]:
  "pending_commit_count (fst (current_checkpoint s)) = pending_commit_count s"
  "committable_offsets (fst (current_checkpoint s)) = committable_offsets s"
  "processed_offsets (fst (current_checkpoint s)) = processed_offsets s"
  by (simp_all add: current_checkpoint_def Let_def split: option.split prod.split)

lemma raise_source_record_error_at_prefix [simp]:
  "at_prefix base ms pol P j s \<Longrightarrow> at_prefix base ms pol P j (fst (raise_source_record_error e s))"
  by (simp add: at_prefix_def source_inv_def raise_source_record_error_def cursor_inv_current_checkpoint)

lemma observe_in_source_at_prefix:
  "at_prefix base ms pol P j s \<Longrightarrow> at_prefix base ms pol P j (fst (observe_in_source e n s))"
  using observe_frame(1) [of e n "src_poison s"]
  by (cases "observe_poison_records e n (src_poison s)") (simp add: observe_in_source_def)

lemma run_capture_at_prefix:
  assumes "at_prefix base ms pol P j s"
    "\<And>p. poison_record_policy (fst (capture p)) = poison_record_policy p"
  shows "at_prefix base ms pol P j (fst (run_capture capture s))"
  using assms(1) assms(2) [of "src_poison s"]
  by (cases "capture (src_poison s)") (simp add: run_capture_def)

definition continues :: "poison_policy \<Rightarrow> bool" where
  "continues pol \<longleftrightarrow> pol = LOG_AND_CONTINUE \<or> pol = DLQ_AND_CONTINUE"

lemma at_prefix_continues:
  "at_prefix base ms pol P j s \<Longrightarrow> should_continue_after_poison_record (src_poison s) = continues pol"
  by (simp add: at_prefix_def should_continue_after_poison_record_def continues_def)

lemma handle_single_at_prefix:
  assumes at: "at_prefix base ms pol P j s" and j: "j < length ms" and K: "commits_preserve K base ms P"
    and run: "handle_single_deserialize_error cfg K SK e (ms ! j) md s = (s', r)"
  shows "(case r of
       Inr _ \<Rightarrow> continues pol \<and> at_prefix base ms pol P (Suc j) s'
     | Inl _ \<Rightarrow> at_prefix base ms pol P j s' \<or> continues pol \<and> at_prefix base ms pol P (Suc j) s')"
proof -
  obtain s1 info where obs: "observe_in_source e 1 (upd_delivery (count_errors 1) s) = (s1, info)"
    by fastforce
  define capture where
    "capture = capture_poison_record SK e (ms ! j) md ''kafka_deserialize'' info"
  obtain s2 r2 where cap: "run_capture capture (on_state_changed s1) = (s2, r2)" by fastforce
  have "at_prefix base ms pol P j s1"
    using observe_in_source_at_prefix [of base ms pol P j "upd_delivery (count_errors 1) s" e 1] at obs by simp
  then have at2: "at_prefix base ms pol P j s2"
    using run_capture_at_prefix [of base ms pol P j "on_state_changed s1"] cap
    by (metis at_prefix_frame(1) capture_def capture_record_frame(1) fst_conv)
  let ?s3 = "on_state_changed (upd_delivery (\<lambda>d. d\<lparr>record_drop_count := record_drop_count d + 1\<rparr>) s2)"
  have ack: "at_prefix base ms pol P (Suc j)
      (fst (acknowledge_dropped_record cfg K (m_topic (ms ! j)) (m_partition (ms ! j)) (m_offset (ms ! j)) ?s3))"
    using at2 by (intro acknowledge_dropped_at_prefix [OF _ j K]) simp
  have raised: "at_prefix base ms pol P j (fst (raise_source_record_error e s2))"
    using at2 by simp
  note cont = at_prefix_continues [OF at2]
  show ?thesis
    using run ack raised at2 cont
    unfolding handle_single_deserialize_error_def obs prod.case capture_def [symmetric]
    by (cases r2; cases "continues pol")
      (auto simp: bindE_def cap raise_source_record_error_def split: prod.splits sum.splits)
qed


lemma fold_remember_handled:
  "cursor_inv s \<Longrightarrow> cursor_inv (fold (\<lambda>(k, off). remember_handled k off) ps s)"
  "dict_get (committable_offsets (fold (\<lambda>(k, off). remember_handled k off) ps s)) =
     dict_get (committable_offsets s) ++ map_of (rev ps)"
  "pending_commit_count (fold (\<lambda>(k, off). remember_handled k off) ps s) = pending_commit_count s"
  "ps \<noteq> [] \<or> committable_offsets s \<noteq> [] \<Longrightarrow>
   committable_offsets (fold (\<lambda>(k, off). remember_handled k off) ps s) \<noteq> []"
  by (induction ps arbitrary: s) (auto simp: update_conv' map_add_def fun_eq_iff split: option.split)

lemma increment_pending_fields [simp]:
  "committable_offsets (increment_pending_commit_count n s) = committable_offsets s"
  "processed_offsets (increment_pending_commit_count n s) = processed_offsets s"
  "pending_commit_count (increment_pending_commit_count n s) = pending_commit_count s + max 0 n"
  by (simp_all add: cursor_defs)

lemma continue_after_batch_failure_at_prefix:
  assumes at: "at_prefix base ms pol P 0 s" and ms: "ms \<noteq> []" and K: "commits_preserve K base ms P"
  shows "at_prefix base ms pol P (length ms) (fst (continue_after_batch_failure cfg K ms s))"
proof -
  let ?ps = "map (\<lambda>m. (message_tp m, m_offset m)) ms"
  let ?s3 = "upd_runtime (record_delivery_progress cfg) (upd_cursor (fold (\<lambda>(k, off). remember_handled k off) ?ps)
    (on_state_changed (upd_delivery (\<lambda>d. d\<lparr>record_drop_count := record_drop_count d + length ms\<rparr>) s)))"
  let ?s4 = "on_state_changed (upd_cursor (increment_pending_commit_count (int (length ms))) ?s3)"
  have pos: "msg_pos = (\<lambda>m. (message_tp m, m_offset m))" by (simp add: msg_pos_def fun_eq_iff)
  have at3: "at_prefix base ms pol P (length ms) ?s3" and at4: "at_prefix base ms pol P (length ms) ?s4"
    using at ms commits_preserve_mono [OF K, of 0 "length ms" "src_consumer s"]
    by (auto simp: at_prefix_def source_inv_def prefix_committable_def pos on_state_changed_def
        fold_remember_handled cursor_inv_simple)
  have "at_prefix base ms pol P (length ms) (fst (commit_if_needed cfg K False ?s4))"
    using at4 K by (intro commit_at_prefix) simp_all
  with at3 show ?thesis by (simp add: continue_after_batch_failure_def Let_def)
qed

lemma handle_batch_failure_at_prefix:
  assumes at: "at_prefix base ms pol P 0 s" and ms: "ms \<noteq> []" and K: "commits_preserve K base ms P"
    and run: "handle_batch_failure cfg K SK e ms bcs stage s = (s', r)"
  shows "(case r of
       Inr _ \<Rightarrow> continues pol \<and> at_prefix base ms pol P (length ms) s'
     | Inl _ \<Rightarrow> at_prefix base ms pol P 0 s' \<or> continues pol \<and> at_prefix base ms pol P (length ms) s')"
proof -
  let ?s0 = "upd_delivery (\<lambda>d. count_errors (length ms)
      (d\<lparr>batch_deserialize_error_count := batch_deserialize_error_count d + 1\<rparr>)) s"
  obtain s1 info where obs: "observe_in_source e (length ms) ?s0 = (s1, info)"
    by fastforce
  define capture where "capture = capture_poison_batch SK e ms bcs stage info"
  obtain s2 r2 where cap: "run_capture capture (on_state_changed s1) = (s2, r2)" by fastforce
  have "at_prefix base ms pol P 0 ?s0"
    using at by (simp add: at_prefix_def source_inv_def count_errors_def)
  then have "at_prefix base ms pol P 0 s1"
    using observe_in_source_at_prefix obs by (metis fst_conv)
  then have at2: "at_prefix base ms pol P 0 s2"
    using run_capture_at_prefix [of base ms pol P 0 "on_state_changed s1"] cap
    by (metis at_prefix_frame(1) capture_def capture_batch_frame(1) fst_conv)
  have cont: "at_prefix base ms pol P (length ms) (fst (continue_after_batch_failure cfg K ms s2))"
    by (rule continue_after_batch_failure_at_prefix [OF at2 ms K])
  have raised: "at_prefix base ms pol P 0 (fst (raise_source_record_error e s2))"
    using at2 by simp
  note pol = at_prefix_continues [OF at2]
  show ?thesis
    using run cont raised at2 pol
    unfolding handle_batch_failure_def obs prod.case capture_def [symmetric]
    by (cases r2; cases "continues pol")
      (auto simp: bindE_def cap raise_source_record_error_def split: prod.splits sum.splits)
qed

section \<open>A batch\<close>

definition deserialized ::
    "(kafka_message \<Rightarrow> message_metadata \<Rightarrow> 'r result) \<Rightarrow> batch_message_context list \<Rightarrow> 'r list" where
  "deserialized f bcs =
     concat (map (\<lambda>bc. case f (bc_message bc) (bc_metadata bc) of Inl _ \<Rightarrow> [] | Inr r \<Rightarrow> [r]) bcs)"

lemma deserialized_simps [simp]:
  "deserialized f [] = []"
  "f (bc_message bc) (bc_metadata bc) = Inl e \<Longrightarrow> deserialized f (bc # bcs) = deserialized f bcs"
  "f (bc_message bc) (bc_metadata bc) = Inr r \<Longrightarrow> deserialized f (bc # bcs) = r # deserialized f bcs"
  by (simp_all add: deserialized_def)

text \<open>
  What a delivery run of \<open>bcs\<close> started at prefix \<open>j\<close> may leave: \<open>k\<close> further messages committable, \<open>n\<close> of
  them handed to the pipeline or found undeserialisable.
\<close>

definition delivered_upto ::
    "(topic_partition \<Rightarrow> int option) \<Rightarrow> kafka_message list \<Rightarrow> poison_policy \<Rightarrow> (nat \<Rightarrow> 'c \<Rightarrow> bool) \<Rightarrow> nat
     \<Rightarrow> (kafka_message \<Rightarrow> message_metadata \<Rightarrow> 'r result) \<Rightarrow> batch_message_context list \<Rightarrow> 'r list
     \<Rightarrow> ('c, 'k, 'r) run \<Rightarrow> bool" where
  "delivered_upto base ms pol P j f bcs out result \<longleftrightarrow>
     (case result of (s', out', outcome) \<Rightarrow>
       \<exists>k n. k \<le> n \<and> n \<le> Suc k \<and> n \<le> length bcs \<and> at_prefix base ms pol P (j + k) s' \<and>
         out' = out @ deserialized f (take n bcs) \<and>
         (outcome = Completed \<longrightarrow> k = length bcs) \<and>
         (\<not> continues pol \<longrightarrow> (\<forall>bc \<in> set (take k bcs). \<not> isl (f (bc_message bc) (bc_metadata bc)))))"

lemma delivered_uptoI:
  assumes "k \<le> n" "n \<le> Suc k" "n \<le> length bcs" "at_prefix base ms pol P (j + k) s'"
    "out' = out @ deserialized f (take n bcs)" "outcome = Completed \<Longrightarrow> k = length bcs"
    "\<And>bc. \<not> continues pol \<Longrightarrow> bc \<in> set (take k bcs) \<Longrightarrow> \<not> isl (f (bc_message bc) (bc_metadata bc))"
  shows "delivered_upto base ms pol P j f bcs out (s', out', outcome)"
  unfolding delivered_upto_def prod.case using assms by blast

lemma delivered_upto_Cons:
  assumes "delivered_upto base ms pol P (Suc j) f bcs (out @ deserialized f [bc]) result"
    "isl (f (bc_message bc) (bc_metadata bc)) \<Longrightarrow> continues pol"
  shows "delivered_upto base ms pol P j f (bc # bcs) out result"
proof -
  obtain s' out' outcome where res: "result = (s', out', outcome)" by (cases result)
  obtain k n where kn: "k \<le> n" "n \<le> Suc k" "n \<le> length bcs" "at_prefix base ms pol P (Suc j + k) s'"
    "out' = (out @ deserialized f [bc]) @ deserialized f (take n bcs)" "outcome = Completed \<longrightarrow> k = length bcs"
    "\<not> continues pol \<longrightarrow> (\<forall>bc \<in> set (take k bcs). \<not> isl (f (bc_message bc) (bc_metadata bc)))"
    using assms(1) unfolding delivered_upto_def res prod.case by blast
  show ?thesis unfolding res
    by (rule delivered_uptoI [of "Suc k" "Suc n"]) (use kn assms(2) in \<open>auto simp: deserialized_def\<close>)
qed

lemma deliver_each_delivered_upto:
  assumes "at_prefix base ms pol P j s" "map bc_message bcs = drop j ms" "j \<le> length ms"
    "commits_preserve K base ms P" "\<And>i. list_all plain_event (fst (pipe i))"
  shows "delivered_upto base ms pol P j f bcs out (deliver_each cfg K SK f pipe bcs out s)"
  using assms(1-3)
proof (induction bcs arbitrary: j out s)
  case Nil
  then show ?case by (auto intro: delivered_uptoI [of 0 0])
next
  case (Cons bc bcs)
  from Cons.prems(2,3) have j: "j < length ms"
    by (cases "j = length ms") auto
  with Cons.prems(2) have m: "bc_message bc = ms ! j" "map bc_message bcs = drop (Suc j) ms"
    by (simp_all add: Cons_nth_drop_Suc [symmetric])
  show ?case
  proof (cases "f (bc_message bc) (bc_metadata bc)")
    case bad: (Inl e)
    obtain s' r where run: "handle_single_deserialize_error cfg K SK e (ms ! j) (bc_metadata bc) s = (s', r)"
      by fastforce
    note h = handle_single_at_prefix [OF Cons.prems(1) j assms(4) run]
    show ?thesis
    proof (cases r)
      case (Inr _)
      then have "delivered_upto base ms pol P (Suc j) f bcs (out @ deserialized f [bc])
          (deliver_each cfg K SK f pipe bcs out s')"
        using Cons.IH [of "Suc j" s' out] h m j bad by simp
      then show ?thesis
        using Inr bad run m h by (auto intro: delivered_upto_Cons)
    next
      case (Inl e')
      from h Inl consider "at_prefix base ms pol P j s'" | "continues pol" "at_prefix base ms pol P (Suc j) s'"
        by auto
      then have "delivered_upto base ms pol P j f (bc # bcs) out (s', out, GenRaised e')"
        by cases (auto intro: delivered_uptoI [of 0 0] delivered_uptoI [of 1 1] simp: bad)
      then show ?thesis
        using Inl run m bad by simp
    qed
  next
    case (Inr rec)
    obtain s' oc where run: "emit_record cfg K (pipe (length out)) (ms ! j) (bc_metadata bc) s = (s', oc)"
      by fastforce
    obtain j' where j': "j \<le> j'" "j' \<le> Suc j" "at_prefix base ms pol P j' s'" "oc \<noteq> GenClosed \<longrightarrow> j' = Suc j"
      using emit_record_at_prefix [OF Cons.prems(1) j assms(4) assms(5) [of "length out"], of cfg "bc_metadata bc"] run
      by auto
    show ?thesis
    proof (cases "oc = Completed")
      case True
      then have "delivered_upto base ms pol P (Suc j) f bcs (out @ deserialized f [bc])
          (deliver_each cfg K SK f pipe bcs (out @ [rec]) s')"
        using Cons.IH [of "Suc j" s' "out @ [rec]"] j' m j Inr by simp
      then show ?thesis
        using Inr True run m by (auto intro: delivered_upto_Cons)
    next
      case False
      then have "delivered_upto base ms pol P j f (bc # bcs) out (s', out @ [rec], oc)"
        using j' Inr by (intro delivered_uptoI [of "j' - j" 1]) (auto simp: take_Cons' split: if_splits)
      then show ?thesis
        using Inr False run m by (cases oc) simp_all
    qed
  qed
qed


lemma emit_each_as_deliver_each:
  assumes "\<And>record bc. (record, bc) \<in> set prs \<Longrightarrow> f (bc_message bc) (bc_metadata bc) = Inr record"
  shows "emit_each cfg K pipe prs out s = deliver_each cfg K SK f pipe (map snd prs) out s"
  using assms
proof (induction prs arbitrary: out s)
  case (Cons pr prs)
  obtain rec bc where pr: "pr = (rec, bc)" by (cases pr)
  have f: "f (bc_message bc) (bc_metadata bc) = Inr rec" using Cons.prems pr by simp
  show ?case
    using Cons.IH Cons.prems by (simp add: pr f cong: prod.case_cong gen_outcome.case_cong)
qed simp

lemma build_batch_contexts_simps [simp]:
  "map bc_message (build_batch_contexts cfg ms) = ms"
  "length (build_batch_contexts cfg ms) = length ms"
  by (simp_all add: build_batch_contexts_def comp_def case_prod_unfold enumerate_eq_zip)

lemma build_batch_contexts_nth:
  "i < length ms \<Longrightarrow> build_batch_contexts cfg ms ! i =
     \<lparr>bc_metadata = message_metadata cfg (ms ! i) (int (length ms)) (int i), bc_message = ms ! i\<rparr>"
  by (simp add: build_batch_contexts_def nth_enumerate_eq)

text \<open>The records of the first \<open>n\<close> messages, and whether the \<open>i\<close>-th message has none.\<close>

definition batch_records ::
    "kafka_config \<Rightarrow> 'r deserializers \<Rightarrow> kafka_message list \<Rightarrow> nat \<Rightarrow> 'r list" where
  "batch_records cfg ds ms n =
     (case ds_batch ds of
        None \<Rightarrow> deserialized (ds_single ds) (take n (build_batch_contexts cfg ms))
      | Some g \<Rightarrow> (case g ms (build_batch_contexts cfg ms) of
                    Inl _ \<Rightarrow> []
                  | Inr rs \<Rightarrow> if length rs = length ms then take n rs else []))"

definition undecodable :: "kafka_config \<Rightarrow> 'r deserializers \<Rightarrow> kafka_message list \<Rightarrow> nat \<Rightarrow> bool" where
  "undecodable cfg ds ms i \<longleftrightarrow>
     (case ds_batch ds of
        None \<Rightarrow> isl (ds_single ds (ms ! i) (message_metadata cfg (ms ! i) (int (length ms)) (int i)))
      | Some g \<Rightarrow> (case g ms (build_batch_contexts cfg ms) of
                    Inl _ \<Rightarrow> True
                  | Inr rs \<Rightarrow> length rs \<noteq> length ms))"

definition batch_outcome ::
    "(topic_partition \<Rightarrow> int option) \<Rightarrow> kafka_message list \<Rightarrow> poison_policy \<Rightarrow> (nat \<Rightarrow> 'c \<Rightarrow> bool)
     \<Rightarrow> kafka_config \<Rightarrow> 'r deserializers \<Rightarrow> 'r list \<Rightarrow> ('c, 'k, 'r) run \<Rightarrow> bool" where
  "batch_outcome base ms pol P cfg ds out result \<longleftrightarrow>
     (case result of (s', out', outcome) \<Rightarrow>
       \<exists>k n. k \<le> n \<and> n \<le> Suc k \<and> n \<le> length ms \<and> at_prefix base ms pol P k s' \<and>
         out' = out @ batch_records cfg ds ms n \<and> (outcome = Completed \<longrightarrow> k = length ms) \<and>
         (\<not> continues pol \<longrightarrow> (\<forall>i < k. \<not> undecodable cfg ds ms i)))"

lemma delivered_upto_0:
  assumes "delivered_upto base ms pol P 0 f (build_batch_contexts cfg ms) out result"
    "\<And>n. n \<le> length ms \<Longrightarrow> deserialized f (take n (build_batch_contexts cfg ms)) = batch_records cfg ds ms n"
    "\<And>i. i < length ms \<Longrightarrow>
       isl (f (ms ! i) (message_metadata cfg (ms ! i) (int (length ms)) (int i))) = undecodable cfg ds ms i"
  shows "batch_outcome base ms pol P cfg ds out result"
proof -
  obtain s' out' outcome where res: "result = (s', out', outcome)" by (cases result)
  let ?bcs = "build_batch_contexts cfg ms"
  obtain k n where kn: "k \<le> n" "n \<le> Suc k" "n \<le> length ms" "at_prefix base ms pol P k s'"
    "out' = out @ deserialized f (take n ?bcs)" "outcome = Completed \<longrightarrow> k = length ms"
    "\<not> continues pol \<longrightarrow> (\<forall>bc \<in> set (take k ?bcs). \<not> isl (f (bc_message bc) (bc_metadata bc)))"
    using assms(1) unfolding delivered_upto_def res prod.case by auto
  have "\<not> undecodable cfg ds ms i" if "\<not> continues pol" "i < k" for i
  proof -
    have "?bcs ! i \<in> set (take k ?bcs)"
      using that(2) kn(1,3) by (simp add: in_set_conv_nth) (metis nth_take)
    then show ?thesis
      using kn(1,3,7) that assms(3) [of i] by (auto simp: build_batch_contexts_nth)
  qed
  then show ?thesis using kn assms(2) unfolding batch_outcome_def res prod.case by auto
qed

text \<open>A record list of the batch deserialiser, read as a deserialiser of the single messages.\<close>

definition nth_record :: "'r list \<Rightarrow> kafka_message \<Rightarrow> message_metadata \<Rightarrow> 'r result" where
  "nth_record rs m md = Inr (rs ! nat (md_batch_index md))"

lemma deserialized_nth_record:
  assumes "length rs = length ms" "n \<le> length ms"
  shows "deserialized (nth_record rs) (take n (build_batch_contexts cfg ms)) = take n rs"
proof -
  have "deserialized (nth_record rs) bcs = map (\<lambda>bc. rs ! nat (md_batch_index (bc_metadata bc))) bcs" for bcs
    by (induction bcs) (simp_all add: deserialized_def nth_record_def)
  then show ?thesis
    using assms by (simp add: build_batch_contexts_nth list_eq_iff_nth_eq message_metadata_def)
qed

lemma batch_failure_outcome:
  assumes "at_prefix base ms pol P 0 s" "ms \<noteq> []" "commits_preserve K base ms P"
    "handle_batch_failure cfg K SK e ms bcs stage s = (s', r)" "\<And>n. batch_records cfg ds ms n = []"
  shows "batch_outcome base ms pol P cfg ds out (s', out, outcome_of r)"
proof -
  have "\<exists>k. (k = 0 \<or> continues pol \<and> k = length ms) \<and> at_prefix base ms pol P k s' \<and>
      (outcome_of r = Completed \<longrightarrow> k = length ms)"
    using handle_batch_failure_at_prefix [OF assms(1-4)] by (cases r) (auto simp: outcome_of_def)
  then obtain k where "k = 0 \<or> continues pol \<and> k = length ms" "at_prefix base ms pol P k s'"
      "outcome_of r = Completed \<longrightarrow> k = length ms" by blast
  then show ?thesis
    using assms(5) unfolding batch_outcome_def prod.case by (intro exI [of _ k]) auto
qed

lemma deliver_batch_outcome:
  assumes at: "at_prefix base ms pol P 0 s" and ms: "ms \<noteq> []" and K: "commits_preserve K base ms P"
    and pipe: "\<And>i. list_all plain_event (fst (pipe i))"
  shows "batch_outcome base ms pol P cfg ds out (deliver_batch cfg K SK ds pipe ms out s)"
proof -
  let ?bcs = "build_batch_contexts cfg ms"
  have each: "delivered_upto base ms pol P 0 f ?bcs out (deliver_each cfg K SK f pipe ?bcs out s)" for f
    by (rule deliver_each_delivered_upto [OF at _ _ K pipe]) simp_all
  consider "ds_batch ds = None"
    | g e where "ds_batch ds = Some g" "g ms ?bcs = Inl e"
    | g rs where "ds_batch ds = Some g" "g ms ?bcs = Inr rs" "length rs = length ms"
    | g rs where "ds_batch ds = Some g" "g ms ?bcs = Inr rs" "length rs \<noteq> length ms"
    by (metis option.exhaust sum.exhaust)
  then show ?thesis
  proof cases
    case 1
    then have "deliver_batch cfg K SK ds pipe ms out s = deliver_each cfg K SK (ds_single ds) pipe ?bcs out s"
      by (simp add: deliver_batch_def)
    with each [of "ds_single ds"] 1 show ?thesis
      by (auto intro!: delivered_upto_0 simp: batch_records_def undecodable_def)
  next
    case 2
    obtain s' r where h: "handle_batch_deserialize_error cfg K SK ms ?bcs e s = (s', r)" by fastforce
    with 2 have "deliver_batch cfg K SK ds pipe ms out s = (s', out, outcome_of r)"
      by (simp add: deliver_batch_def)
    moreover have "batch_records cfg ds ms n = []" for n using 2 by (simp add: batch_records_def)
    ultimately show ?thesis
      by (simp add: batch_failure_outcome [OF at ms K h [unfolded handle_batch_deserialize_error_def]])
  next
    case 3
    have "emit_each cfg K pipe (zip rs ?bcs) out s = deliver_each cfg K SK (nth_record rs) pipe ?bcs out s"
      using 3 by (subst emit_each_as_deliver_each [where f = "nth_record rs"])
        (auto simp: in_set_zip nth_record_def build_batch_contexts_nth message_metadata_def)
    with 3 have "deliver_batch cfg K SK ds pipe ms out s = deliver_each cfg K SK (nth_record rs) pipe ?bcs out s"
      by (simp add: deliver_batch_def)
    with each [of "nth_record rs"] 3 show ?thesis
      by (auto intro!: delivered_upto_0 simp: batch_records_def undecodable_def deserialized_nth_record
          nth_record_def)
  next
    case 4
    let ?s0 = "upd_delivery clear_active_delivery s"
    obtain s' r where h: "handle_batch_deserializer_count_mismatch cfg K SK ms ?bcs (length rs) ?s0 = (s', r)"
      by fastforce
    with 4 have "deliver_batch cfg K SK ds pipe ms out s = (s', out, outcome_of r)"
      by (simp add: deliver_batch_def)
    moreover have "batch_records cfg ds ms n = []" for n using 4 by (simp add: batch_records_def)
    moreover have "at_prefix base ms pol P 0 ?s0"
      using at by (simp add: at_prefix_def source_inv_def clear_active_delivery_def)
    ultimately show ?thesis
      by (simp add: batch_failure_outcome [OF _ ms K h [unfolded handle_batch_deserializer_count_mismatch_def]])
  qed
qed

section \<open>Properties\<close>

text \<open>What the broker client is asked to commit: \<open>offset + 1\<close> for every entry of the first \<open>j\<close> messages.\<close>

definition commits_prefix ::
    "(topic_partition \<Rightarrow> int option) \<Rightarrow> kafka_message list \<Rightarrow> nat \<Rightarrow> offset_map \<Rightarrow> bool" where
  "commits_prefix base ms j offsets \<longleftrightarrow>
     (\<forall>k. dict_get offsets k = map_option (\<lambda>offset. offset + 1) (prefix_committable base ms j k))"

definition new_commits ::
    "('c \<Rightarrow> offset_map list) \<Rightarrow> offset_map list \<Rightarrow> (topic_partition \<Rightarrow> int option) \<Rightarrow> kafka_message list
     \<Rightarrow> nat \<Rightarrow> 'c \<Rightarrow> bool" where
  "new_commits trace old base ms k c \<longleftrightarrow>
     (\<exists>new. trace c = old @ new \<and> (\<forall>offsets \<in> set new. \<exists>j \<le> k. commits_prefix base ms j offsets))"

lemma new_commits_preserve:
  assumes "\<And>offsets c. trace (fst (co_commit K (Some offsets) c)) = trace c @ [offsets]"
  shows "commits_preserve K base ms (new_commits trace old base ms)"
  unfolding commits_preserve_def
proof (intro conjI allI impI; elim conjE)
  fix j offsets c
  assume "\<forall>k. dict_get offsets k = map_option (\<lambda>offset. offset + 1) (prefix_committable base ms j k)"
    "new_commits trace old base ms j c"
  then obtain new where "trace c = old @ new" "\<forall>o' \<in> set (new @ [offsets]). \<exists>i \<le> j. commits_prefix base ms i o'"
    unfolding new_commits_def commits_prefix_def by auto
  then show "new_commits trace old base ms j (fst (co_commit K (Some offsets) c))"
    unfolding new_commits_def assms by (intro exI [of _ "new @ [offsets]"]) simp
next
  fix i j c
  assume "i \<le> j" "new_commits trace old base ms i c"
  then show "new_commits trace old base ms j c"
    unfolding new_commits_def by (meson le_trans)
qed

text \<open>
  C1: a batch is delivered and committed in order, without gaps.  When the pipeline only calls the
  delivery callbacks, there are \<open>k \<le> n \<le> k + 1\<close> such that the first \<open>n\<close> messages of the batch were handed
  to the pipeline (those that could be deserialised), the committable offsets are exactly those of
  the first \<open>k\<close> messages, and every commit sent to the broker covers exactly a prefix of at most \<open>k\<close>
  messages; \<open>k\<close> is the whole batch when the delivery completed.  Under a fail-closed policy no
  committable message is one that could not be deserialised.  The broker client is any one whose
  commit calls are recorded by \<open>trace\<close>, whether they succeed or not.
\<close>

theorem commits_follow_delivery:
  assumes "source_inv s" "src_consumer s = Some c" "messages \<noteq> []"
    and trace: "\<And>offsets c. trace (fst (co_commit K (Some offsets) c)) = trace c @ [offsets]"
    and plain: "\<And>i. list_all plain_event (fst (pipe i))"
    and base: "base = dict_get (committable_offsets (src_cursor s))"
    and run: "deliver_batch cfg K SK ds pipe messages out s = (s', out', outcome)"
  shows "\<exists>k n c' new. k \<le> n \<and> n \<le> Suc k \<and> n \<le> length messages \<and>
      out' = out @ batch_records cfg ds messages n \<and>
      dict_get (committable_offsets (src_cursor s')) = prefix_committable base messages k \<and>
      src_consumer s' = Some c' \<and> trace c' = trace c @ new \<and>
      (\<forall>offsets \<in> set new. \<exists>j \<le> k. commits_prefix base messages j offsets) \<and>
      (outcome = Completed \<longrightarrow> k = length messages) \<and>
      (\<not> should_continue_after_poison_record (src_poison s) \<longrightarrow>
         (\<forall>i < k. \<not> undecodable cfg ds messages i))"
proof -
  let ?P = "new_commits trace (trace c) base messages" and ?pol = "poison_record_policy (src_poison s)"
  have at: "at_prefix base messages ?pol ?P 0 s"
    using assms(1,2) base by (simp add: at_prefix_def new_commits_def)
  have "batch_outcome base messages ?pol ?P cfg ds out (deliver_batch cfg K SK ds pipe messages out s)"
    by (rule deliver_batch_outcome [OF at assms(3) _ plain]) (rule new_commits_preserve, rule trace)
  then obtain k n where kn: "k \<le> n" "n \<le> Suc k" "n \<le> length messages" "at_prefix base messages ?pol ?P k s'"
    "out' = out @ batch_records cfg ds messages n" "outcome = Completed \<longrightarrow> k = length messages"
    "\<not> continues ?pol \<longrightarrow> (\<forall>i < k. \<not> undecodable cfg ds messages i)"
    unfolding run batch_outcome_def prod.case by blast
  obtain c' where c': "src_consumer s' = Some c'" "?P k c'"
    "dict_get (committable_offsets (src_cursor s')) = prefix_committable base messages k"
    using kn(4) unfolding at_prefix_def by fastforce
  then obtain new where "trace c' = trace c @ new"
      "\<forall>offsets \<in> set new. \<exists>j \<le> k. commits_prefix base messages j offsets"
    unfolding new_commits_def by blast
  with kn c' at_prefix_continues [OF at] show ?thesis by blast
qed


text \<open>A broker client that records every commit, for the concrete runs below.\<close>

definition logging_consumer :: "offset_map list consumer_ops" where
  "logging_consumer =
     \<lparr>co_commit = (\<lambda>offsets c. (c @ [case offsets of None \<Rightarrow> [] | Some d \<Rightarrow> d], Inr ())),
      co_getmany = None, co_assignment = None, co_seek = None, co_pause = None, co_resume = None,
      co_seek_to_beginning = None, co_seek_to_end = None, co_assign = None,
      co_stop = (\<lambda>c. (c, Inr ()))\<rparr>"

definition sample_config :: kafka_config where
  "sample_config =
     \<lparr>kc_group_id = ''g'', kc_bootstrap_servers = ''b'', kc_topics = [''t''], kc_topic_pattern = None,
      kc_assignments = [], kc_enable_auto_commit = False, kc_commit_every = 1,
      kc_poll_timeout_ms = 1000, kc_max_poll_records = 500, kc_max_idle_polls = Some 1,
      kc_monotonic = int\<rparr>"

definition sample_message :: "int \<Rightarrow> int \<Rightarrow> kafka_message" where
  "sample_message part offset =
     \<lparr>m_topic = ''t'', m_partition = part, m_offset = offset, m_key = None, m_value = None,
      m_headers = [], m_timestamp = None, m_timestamp_type = None\<rparr>"

definition sample_source :: "poison_policy \<Rightarrow> 'c \<Rightarrow> ('c, unit) kafka_source" where
  "sample_source policy c =
     \<lparr>src_cursor = cursor_init [], src_runtime = runtime_init, src_controls = operator_init [],
      src_poison = poison_init ''kafka'' policy None ''p'' None, src_delivery = delivery_init,
      src_consumer = Some c, src_state_changes = 0\<rparr>"

definition sample_sink :: "unit sink_ops" where
  "sample_sink =
     \<lparr>sk_write = (\<lambda>_ k. (k, Inr ())), sk_write_batch = None, sk_utf8_decode = (\<lambda>_. None),
      sk_b64encode = (\<lambda>_. []), sk_time_ms = 0, sk_now_utc = []\<rparr>"

text \<open>Messages of partition 7 cannot be deserialised.\<close>

definition sample_deserializers :: "int deserializers" where
  "sample_deserializers =
     \<lparr>ds_single = (\<lambda>m _. if m_partition m = 7 then Inl (ValueError ''bad payload'') else Inr (m_offset m)),
      ds_batch = None\<rparr>"

lemmas sample_defs = logging_consumer_def sample_config_def sample_message_def sample_source_def
  sample_sink_def sample_deserializers_def

lemma source_inv_sample: "source_inv (sample_source policy c)"
  by (simp add: source_inv_def sample_source_def cursor_inv_init) (simp add: cursor_init_def delivery_init_def)

text \<open>Two good messages, then one that cannot be deserialised, under the fail-closed policy.\<close>

theorem commits_follow_delivery_witness:
  "case deliver_batch sample_config logging_consumer sample_sink sample_deserializers
       (\<lambda>_. ([CallSuccess], ResumeNext)) [sample_message 0 4, sample_message 1 9, sample_message 7 2] []
       (sample_source FAIL_CLOSED []) of (s', out', outcome) \<Rightarrow>
     out' = [4, 9] \<and> src_consumer s' = Some [[(TopicPartition ''t'' 0, 5)],
       [(TopicPartition ''t'' 0, 5), (TopicPartition ''t'' 1, 10)]] \<and>
     (\<exists>k n. k \<le> n \<and> n \<le> Suc k \<and> out' = batch_records sample_config sample_deserializers
        [sample_message 0 4, sample_message 1 9, sample_message 7 2] n)"
proof -
  let ?ms = "[sample_message 0 4, sample_message 1 9, sample_message 7 2]"
  let ?run = "deliver_batch sample_config logging_consumer sample_sink sample_deserializers
       (\<lambda>_. ([CallSuccess], ResumeNext)) ?ms [] (sample_source FAIL_CLOSED [])"
  obtain s' out' outcome where run: "?run = (s', out', outcome)" by (cases ?run)
  have "(\<lambda>(s, out, _). (src_consumer s, out)) ?run = (Some [[(TopicPartition ''t'' 0, 5)],
       [(TopicPartition ''t'' 0, 5), (TopicPartition ''t'' 1, 10)]], [4, 9])"
    by code_simp
  with run have "out' = [4, 9]" "src_consumer s' = Some [[(TopicPartition ''t'' 0, 5)],
       [(TopicPartition ''t'' 0, 5), (TopicPartition ''t'' 1, 10)]]"
    by simp_all
  moreover have "\<exists>k n. k \<le> n \<and> n \<le> Suc k \<and> out' = batch_records sample_config sample_deserializers ?ms n"
  proof -
    have c: "src_consumer (sample_source FAIL_CLOSED []) = Some ([] :: offset_map list)"
      by (simp add: sample_source_def)
    have tr: "id (fst (co_commit logging_consumer (Some offsets) c)) = id c @ [offsets]" for offsets c
      by (simp add: logging_consumer_def)
    have plain: "list_all plain_event (fst ((\<lambda>_ :: nat. ([CallSuccess], ResumeNext)) i))" for i
      by (simp add: plain_event_def)
    show ?thesis
      using commits_follow_delivery [OF source_inv_sample c _ tr plain refl run] by auto
  qed
  ultimately show ?thesis unfolding run by auto
qed

end
