(* ===== verification/Kafka_Runtime.thy ===== *)
theory Kafka_Runtime
  imports Kafka_Commit_Safety
begin

text \<open>
  The manual runtime that joins a Kafka source and a sink (\<^verbatim>\<open>kafka/runtime.py\<close>): a record is transformed, written,
  flushed and only then acknowledged, or written in a transaction that carries its offset; \<^verbatim>\<open>drain_to\<close> does so for
  the records of the source's generator, one after the other: it starts the generator, polls until the source is idle
  or enough records were received, and closes the generator, which commits.

  The sink is a parameter, a record of its methods over a state of its own; a method the code looks up with
  \<^verbatim>\<open>getattr\<close> is an option.  The state of the runtime is the pair of the source's and the sink's.
\<close>

section \<open>Sinks\<close>

record 'q transaction_methods =
  tx_begin :: "('q, unit) eff"
  tx_send_offsets :: "offset_map \<times> string \<Rightarrow> ('q, unit) eff"
  tx_commit :: "('q, unit) eff"
  tx_abort :: "('q, unit) eff"

record ('u, 'q) base_sink =
  bs_open :: "('q, unit) eff"
  bs_write :: "'u \<Rightarrow> ('q, unit) eff"
  bs_flush :: "('q, unit) eff"
  bs_close :: "('q, unit) eff"
  bs_wait_for_pending_acks :: "('q, unit) eff option"
  bs_transaction :: "'q transaction_methods option"

text \<open>
  The options of a delivery.  The transform is the identity when there is none; \<open>ro_mapping\<close> says whether a record is
  a mutable mapping and gives its items.
\<close>

record ('r, 'u, 'v) runtime_options =
  ro_transform :: "'r \<Rightarrow> 'u result"
  ro_flush :: bool
  ro_metadata_field :: "string option"
  ro_key_field :: "string option"
  ro_transactional :: bool
  ro_max_records :: "int option"
  ro_mapping :: "'u \<Rightarrow> (string, 'v) dict option"
  ro_of_mapping :: "(string, 'v) dict \<Rightarrow> 'u"
  ro_context_value :: "delivery_context \<Rightarrow> 'v"
  ro_key_value :: "string \<Rightarrow> 'v"

type_synonym ('c, 'k, 'q, 'a) joint_op = "(('c, 'k) kafka_source \<times> 'q) \<Rightarrow> (('c, 'k) kafka_source \<times> 'q) \<times> (exn + 'a)"

section \<open>Delivery\<close>

definition decorate_field :: "string option \<Rightarrow> 'v option \<Rightarrow> (string, 'v) dict \<Rightarrow> (string, 'v) dict" where
  "decorate_field field value d =
     (case (field, value) of (Some f, Some v) \<Rightarrow> dict_set f v d | _ \<Rightarrow> d)"

definition decorate_outbound_record ::
    "('r, 'u, 'v) runtime_options \<Rightarrow> delivery_context option \<Rightarrow> 'u \<Rightarrow> 'u result" where
  "decorate_outbound_record opts context outbound =
     (if ro_metadata_field opts = None \<and> ro_key_field opts = None then Inr outbound
      else case ro_mapping opts outbound of
        None \<Rightarrow> Inl (TypeError ''Kafka delivery metadata injection requires transformed records to be mutable mappings.'')
      | Some d \<Rightarrow>
          Inr (ro_of_mapping opts
            (decorate_field (ro_key_field opts) (map_option (\<lambda>c. ro_key_value opts (delivery_id c)) context)
              (decorate_field (ro_metadata_field opts) (map_option (ro_context_value opts) context) d))))"

definition outbound_record :: "('r, 'u, 'v) runtime_options \<Rightarrow> delivery_context option \<Rightarrow> 'r \<Rightarrow> 'u result" where
  "outbound_record opts context record = bindR (ro_transform opts record) (decorate_outbound_record opts context)"

definition write_through :: "('u, 'q) base_sink \<Rightarrow> bool \<Rightarrow> 'u \<Rightarrow> ('q, unit) eff" where
  "write_through SO flush outbound =
     thenE (bs_write SO outbound)
       (if flush then bs_flush SO
        else (case bs_wait_for_pending_acks SO of None \<Rightarrow> returnE () | Some wait \<Rightarrow> wait))"

definition runtime_cancelled :: "exn \<Rightarrow> bool" where
  "runtime_cancelled e = isinstance_exn e ''CancelledError''"

definition transaction_body ::
    "('u, 'q) base_sink \<Rightarrow> 'q transaction_methods \<Rightarrow> bool \<Rightarrow> offset_map \<times> string \<Rightarrow> 'u \<Rightarrow> ('q, unit) eff" where
  "transaction_body SO T flush offsets outbound =
     thenE (bs_write SO outbound)
     (thenE (if flush then bs_flush SO else returnE ())
     (thenE (tx_send_offsets T offsets) (tx_commit T)))"

definition run_transaction ::
    "('u, 'q) base_sink \<Rightarrow> 'q transaction_methods \<Rightarrow> bool \<Rightarrow> offset_map \<times> string \<Rightarrow> 'u \<Rightarrow> ('q, unit) eff" where
  "run_transaction SO T flush offsets outbound =
     thenE (tx_begin T)
       (tryE (transaction_body SO T flush offsets outbound)
          (\<lambda>e. if runtime_cancelled e then raiseE e else thenE (tx_abort T) (raiseE e)))"

definition deliver_with_transactional_offsets ::
    "kafka_config \<Rightarrow> ('u, 'q) base_sink \<Rightarrow> bool \<Rightarrow> delivery_hook \<Rightarrow> 'u \<Rightarrow> ('c, 'k, 'q, 'u) joint_op" where
  "deliver_with_transactional_offsets cfg SO flush hook outbound x =
     (case x of (s, q) \<Rightarrow>
        (case bs_transaction SO of
           None \<Rightarrow> ((s, q), Inl (TypeError ''transactional_offsets=True requires a sink with Kafka transaction methods.''))
         | Some T \<Rightarrow>
             (case run_transaction SO T flush (offsets_hook cfg hook) outbound q of
                (q', Inl e) \<Rightarrow> ((s, q'), Inl e)
              | (q', Inr _) \<Rightarrow> ((committed_hook cfg hook s, q'), Inr outbound))))"

definition runtime_deliver ::
    "kafka_config \<Rightarrow> 'c consumer_ops \<Rightarrow> ('u, 'q) base_sink \<Rightarrow> ('r, 'u, 'v) runtime_options \<Rightarrow> 'r \<Rightarrow> ('c, 'k, 'q, 'u) joint_op" where
  "runtime_deliver cfg K SO opts record x =
     (case x of (s, q) \<Rightarrow>
        (case outbound_record opts (current_delivery_context (src_delivery s)) record of
           Inl e \<Rightarrow> ((s, q), Inl e)
         | Inr outbound \<Rightarrow>
             (case active_hook (src_delivery s) of
                None \<Rightarrow> ((s, q), Inl (RuntimeError ''KafkaSourceRuntime.deliver() requires an active delivery success callback.''))
              | Some hook \<Rightarrow>
                  if ro_transactional opts then deliver_with_transactional_offsets cfg SO (ro_flush opts) hook outbound (s, q)
                  else (case write_through SO (ro_flush opts) outbound q of
                          (q', Inl e) \<Rightarrow> ((s, q'), Inl e)
                        | (q', Inr _) \<Rightarrow>
                            (case ack_hook cfg K hook s of
                               (s', Inl e) \<Rightarrow> ((s', q'), Inl e)
                             | (s', Inr _) \<Rightarrow> ((s', q'), Inr outbound))))))"

section \<open>Effects on one side of the joint state\<close>

definition on_sink :: "('q, 'a) eff \<Rightarrow> ('s \<times> 'q, 'a) eff" where
  "on_sink m x = (case x of (s, q) \<Rightarrow> (case m q of (q', r) \<Rightarrow> ((s, q'), r)))"

definition on_source :: "('s, 'a) eff \<Rightarrow> ('s \<times> 'q, 'a) eff" where
  "on_source m x = (case x of (s, q) \<Rightarrow> (case m s of (s', r) \<Rightarrow> ((s', q), r)))"

definition suppressed :: "('s, unit) eff \<Rightarrow> ('s, unit) eff" where
  "suppressed m = tryE m (\<lambda>e. if runtime_cancelled e then raiseE e else returnE ())"

section \<open>Draining\<close>

text \<open>The loop goes on while fewer records than wanted were received.\<close>

definition wants_more :: "('r, 'u, 'v) runtime_options \<Rightarrow> nat \<Rightarrow> bool" where
  "wants_more opts n \<longleftrightarrow> (case ro_max_records opts of None \<Rightarrow> True | Some m \<Rightarrow> int n < m)"

text \<open>
  How a part of a drain ends: the generator ran on to the end of the part; the loop stopped while the generator is
  suspended at a \<^verbatim>\<open>yield\<close>, because no more records are wanted or with the exception of a delivery; or the generator
  itself raised.
\<close>

datatype drain_step = Advanced | Suspended "exn option" | GeneratorFailed exn

text \<open>
  One record: the generator up to its \<^verbatim>\<open>yield\<close>, the delivery, and, when the loop goes on, the generator resumed by
  the next \<^verbatim>\<open>anext\<close>.
\<close>

definition drain_record ::
    "kafka_config \<Rightarrow> 'c consumer_ops \<Rightarrow> ('u, 'q) base_sink \<Rightarrow> ('r, 'u, 'v) runtime_options \<Rightarrow> nat \<Rightarrow> kafka_message
     \<Rightarrow> message_metadata \<Rightarrow> 'r \<Rightarrow> ('c, 'k) kafka_source \<times> 'q \<Rightarrow> (('c, 'k) kafka_source \<times> 'q) \<times> drain_step" where
  "drain_record cfg K SO opts received m md record x =
     (case x of (s, q) \<Rightarrow>
        let s1 = mark_emitted_offset cfg (m_topic m) (m_partition m) (m_offset m) s in
        (case start_delivery (m_topic m) (m_partition m) (m_offset m) md s1 of (s2, hook) \<Rightarrow>
           (case runtime_deliver cfg K SO opts record (s2, q) of
              (x', Inl e) \<Rightarrow> (x', Suspended (Some e))
            | ((s3, q'), Inr _) \<Rightarrow>
                if \<not> wants_more opts received then ((s3, q'), Suspended None)
                else
                  let s4 = upd_delivery clear_active_delivery s3 in
                  if was_acked hook s4 then ((s4, q'), Advanced)
                  else (case ack_hook cfg K hook s4 of
                          (s5, Inl e) \<Rightarrow> ((s5, q'), GeneratorFailed e)
                        | (s5, Inr _) \<Rightarrow> ((s5, q'), Advanced)))))"

text \<open>
  The messages of a batch as \<open>emit_each\<close>, \<open>deliver_each\<close> and \<open>deliver_batch\<close> go through them, each record delivered
  where the generator yields it; with the records received so far.
\<close>

fun drain_emit_each ::
    "kafka_config \<Rightarrow> 'c consumer_ops \<Rightarrow> ('u, 'q) base_sink \<Rightarrow> ('r, 'u, 'v) runtime_options
     \<Rightarrow> ('r \<times> batch_message_context) list \<Rightarrow> 'r list \<Rightarrow> ('c, 'k) kafka_source \<times> 'q
     \<Rightarrow> (('c, 'k) kafka_source \<times> 'q) \<times> 'r list \<times> drain_step" where
  "drain_emit_each cfg K SO opts [] out x = (x, out, Advanced)"
| "drain_emit_each cfg K SO opts ((record, bc) # rest) out x =
     (case drain_record cfg K SO opts (Suc (length out)) (bc_message bc) (bc_metadata bc) record x of
        (x', Advanced) \<Rightarrow> drain_emit_each cfg K SO opts rest (out @ [record]) x'
      | (x', step) \<Rightarrow> (x', out @ [record], step))"

fun drain_each ::
    "kafka_config \<Rightarrow> 'c consumer_ops \<Rightarrow> 'k sink_ops \<Rightarrow> (kafka_message \<Rightarrow> message_metadata \<Rightarrow> 'r result)
     \<Rightarrow> ('u, 'q) base_sink \<Rightarrow> ('r, 'u, 'v) runtime_options \<Rightarrow> batch_message_context list \<Rightarrow> 'r list
     \<Rightarrow> ('c, 'k) kafka_source \<times> 'q \<Rightarrow> (('c, 'k) kafka_source \<times> 'q) \<times> 'r list \<times> drain_step" where
  "drain_each cfg K SK deserialize SO opts [] out x = (x, out, Advanced)"
| "drain_each cfg K SK deserialize SO opts (bc # rest) out (s, q) =
     (case deserialize (bc_message bc) (bc_metadata bc) of
        Inl e \<Rightarrow>
          (case handle_single_deserialize_error cfg K SK e (bc_message bc) (bc_metadata bc) s of
             (s', Inl e') \<Rightarrow> ((s', q), out, GeneratorFailed e')
           | (s', Inr _) \<Rightarrow> drain_each cfg K SK deserialize SO opts rest out (s', q))
      | Inr record \<Rightarrow>
          (case drain_record cfg K SO opts (Suc (length out)) (bc_message bc) (bc_metadata bc) record (s, q) of
             (x', Advanced) \<Rightarrow> drain_each cfg K SK deserialize SO opts rest (out @ [record]) x'
           | (x', step) \<Rightarrow> (x', out @ [record], step)))"

definition step_of :: "'a result \<Rightarrow> drain_step" where
  "step_of r = (case r of Inl e \<Rightarrow> GeneratorFailed e | Inr _ \<Rightarrow> Advanced)"

definition drain_batch ::
    "kafka_config \<Rightarrow> 'c consumer_ops \<Rightarrow> 'k sink_ops \<Rightarrow> 'r deserializers \<Rightarrow> ('u, 'q) base_sink \<Rightarrow> ('r, 'u, 'v) runtime_options
     \<Rightarrow> kafka_message list \<Rightarrow> 'r list \<Rightarrow> ('c, 'k) kafka_source \<times> 'q
     \<Rightarrow> (('c, 'k) kafka_source \<times> 'q) \<times> 'r list \<times> drain_step" where
  "drain_batch cfg K SK ds SO opts messages out x =
     (case x of (s, q) \<Rightarrow>
        let batch_contexts = build_batch_contexts cfg messages in
        (case ds_batch ds of
           Some deserialize_batch \<Rightarrow>
             (case deserialize_batch messages batch_contexts of
                Inl e \<Rightarrow>
                  (case handle_batch_deserialize_error cfg K SK messages batch_contexts e s of
                     (s', r) \<Rightarrow> ((s', q), out, step_of r))
              | Inr records \<Rightarrow>
                  if length records = length messages
                  then drain_emit_each cfg K SO opts (zip records batch_contexts) out (s, q)
                  else (case handle_batch_deserializer_count_mismatch cfg K SK messages batch_contexts
                               (length records) (upd_delivery clear_active_delivery s) of
                          (s', r) \<Rightarrow> ((s', q), out, step_of r)))
         | None \<Rightarrow> drain_each cfg K SK (ds_single ds) SO opts batch_contexts out (s, q)))"

text \<open>The poll loop with the deliveries, one unit of fuel per turn; \<open>None\<close> when the fuel is used up.\<close>

fun drain_polls ::
    "kafka_config \<Rightarrow> 'c consumer_ops \<Rightarrow> 'k sink_ops \<Rightarrow> 'r deserializers \<Rightarrow> ('u, 'q) base_sink \<Rightarrow> ('r, 'u, 'v) runtime_options
     \<Rightarrow> 'c fetch_ops \<Rightarrow> nat \<Rightarrow> int \<Rightarrow> 'r list \<Rightarrow> ('c, 'k) kafka_source \<times> 'q
     \<Rightarrow> ((('c, 'k) kafka_source \<times> 'q) \<times> 'r list \<times> drain_step) option" where
  "drain_polls cfg K SK ds SO opts F 0 idle_polls out x = None"
| "drain_polls cfg K SK ds SO opts F (Suc fuel) idle_polls out (s, q) =
     (case fetch cfg K F idle_polls s of
        (s', FetchRaised e) \<Rightarrow> Some ((s', q), out, GeneratorFailed e)
      | (s', FetchEnded) \<Rightarrow> Some ((s', q), out, Advanced)
      | (s', FetchIdle n) \<Rightarrow> drain_polls cfg K SK ds SO opts F fuel n out (s', q)
      | (s', FetchBatch messages) \<Rightarrow>
          (case drain_batch cfg K SK ds SO opts messages out (s', q) of
             (x', out', Advanced) \<Rightarrow> drain_polls cfg K SK ds SO opts F fuel 0 out' x'
           | (x', out', step) \<Rightarrow> Some (x', out', step)))"

text \<open>
  The end of the generator.  One that ran to its end or raised goes through the \<^verbatim>\<open>except\<close> and \<^verbatim>\<open>finally\<close> clauses of
  \<open>stream\<close>, whose own exception the loop gets; closing it afterwards does nothing.  A suspended one is closed: the
  \<^verbatim>\<open>finally\<close> clauses clear the delivery (those of \<^verbatim>\<open>_emit_record\<close> and of \<open>stream\<close>, to the same effect) and commit; of what the
  closing raises only a cancellation is not suppressed.
\<close>

definition close_stream :: "kafka_config \<Rightarrow> 'c consumer_ops \<Rightarrow> (('c, 'k) kafka_source, unit) eff" where
  "close_stream cfg K s =
     (case stream_finally cfg K GenClosed s of
        (s', GenRaised e) \<Rightarrow> (s', Inl e)
      | (s', _) \<Rightarrow> (s', Inr ()))"

definition drain_end ::
    "kafka_config \<Rightarrow> 'c consumer_ops \<Rightarrow> 'r list \<Rightarrow> drain_step \<Rightarrow> ('c, 'k, 'q, 'r list) joint_op" where
  "drain_end cfg K records step x =
     (case x of (s, q) \<Rightarrow>
        (case step of
           Suspended stopped \<Rightarrow>
             on_source (thenE (suppressed (close_stream cfg K))
               (\<lambda>s'. (s', case stopped of None \<Rightarrow> Inr records | Some e \<Rightarrow> Inl e))) (s, q)
         | _ \<Rightarrow>
             (case stream_end cfg K (case step of GeneratorFailed e \<Rightarrow> GenRaised e | _ \<Rightarrow> Completed) s of
                (s', GenRaised e) \<Rightarrow> ((s', q), Inl e)
              | (s', _) \<Rightarrow> ((s', q), Inr records))))"

text \<open>
  The whole drain.  A generator from which no record is wanted is never started, and closing it does nothing.
\<close>

definition drain_to ::
    "kafka_config \<Rightarrow> 'c consumer_ops \<Rightarrow> 'k sink_ops \<Rightarrow> 'r deserializers \<Rightarrow> ('u, 'q) base_sink \<Rightarrow> ('r, 'u, 'v) runtime_options
     \<Rightarrow> 'c fetch_ops \<Rightarrow> nat \<Rightarrow> ('c, 'k) kafka_source \<times> 'q
     \<Rightarrow> ((('c, 'k) kafka_source \<times> 'q) \<times> 'r list result) option" where
  "drain_to cfg K SK ds SO opts F fuel x =
     (case x of (s, q) \<Rightarrow>
        if \<not> wants_more opts 0 then Some ((s, q), Inr [])
        else if src_consumer s = None
        then Some ((s, q), Inl (RuntimeError ''KafkaSource must be used as an async context manager or call open() before stream().''))
        else (case stream_start K s of
                (s', Inl e) \<Rightarrow> Some ((s', q), Inl e)
              | (s', Inr _) \<Rightarrow>
                  map_option (\<lambda>(x', records, step). drain_end cfg K records step x')
                    (drain_polls cfg K SK ds SO opts F fuel 0 [] (s', q))))"

section \<open>The session over a source and a sink\<close>

text \<open>Opening and closing; the source's operations are parameters here.\<close>

definition runtime_open :: "('u, 'q) base_sink \<Rightarrow> ('s, unit) eff \<Rightarrow> ('s \<times> 'q, unit) eff" where
  "runtime_open SO source_open =
     thenE (on_sink (bs_open SO))
       (tryE (on_source source_open)
          (\<lambda>e. if runtime_cancelled e then raiseE e
               else thenE (suppressed (on_sink (bs_close SO))) (raiseE e)))"

definition runtime_close :: "('u, 'q) base_sink \<Rightarrow> ('s, unit) eff \<Rightarrow> ('s \<times> 'q, unit) eff" where
  "runtime_close SO source_close x =
     (case on_source source_close x of
        (x1, Inl e) \<Rightarrow>
          if runtime_cancelled e then (x1, Inl e)
          else (case on_sink (bs_close SO) x1 of
                  (x2, Inl e2) \<Rightarrow> (x2, Inl (if runtime_cancelled e2 then e2 else e))
                | (x2, Inr _) \<Rightarrow> (x2, Inl e))
      | (x1, Inr _) \<Rightarrow> on_sink (bs_close SO) x1)"

end
