(* ===== verification/Kafka_Durability.thy ===== *)
theory Kafka_Durability
  imports Kafka_Runtime
begin

text \<open>
  What the runtime promises over a sink that keeps what it is given (the locale \<open>durable_sink\<close>): after a drain that
  flushes each record, however it ended, the records of all messages whose offsets may be committed are stored.  The
  lemmas follow the code: a record, the messages of a batch, the polls, the closing of the generator.
\<close>

section \<open>The messages of several polls\<close>

text \<open>The record of the \<open>i\<close>-th message of a batch, if it can be deserialised.\<close>

definition message_record :: "kafka_config \<Rightarrow> 'r deserializers \<Rightarrow> kafka_message list \<Rightarrow> nat \<Rightarrow> 'r option" where
  "message_record cfg ds ms i =
     (case ds_batch ds of
        None \<Rightarrow> (case ds_single ds (ms ! i) (message_metadata cfg (ms ! i) (int (length ms)) (int i)) of
                  Inl _ \<Rightarrow> None | Inr r \<Rightarrow> Some r)
      | Some g \<Rightarrow> (case g ms (build_batch_contexts cfg ms) of
                    Inl _ \<Rightarrow> None
                  | Inr rs \<Rightarrow> if length rs = length ms then Some (rs ! i) else None))"

text \<open>The messages of all batches in order, each with its batch and its place there.\<close>

definition positions :: "kafka_message list list \<Rightarrow> (kafka_message list \<times> nat) list" where
  "positions bs = concat (map (\<lambda>b. map (Pair b) [0..<length b]) bs)"

definition position_records ::
    "kafka_config \<Rightarrow> 'r deserializers \<Rightarrow> (kafka_message list \<times> nat) list \<Rightarrow> 'r list" where
  "position_records cfg ds ps = List.map_filter (\<lambda>(b, i). message_record cfg ds b i) ps"

lemma positions_simps [simp]:
  "positions [] = []" "positions (b # bs) = map (Pair b) [0..<length b] @ positions bs"
  "positions (bs @ bs') = positions bs @ positions bs'"
  by (simp_all add: positions_def)

lemma positions_messages: "map (\<lambda>(b, i). b ! i) (positions bs) = concat bs"
  by (induction bs) (simp_all add: comp_def map_nth)

lemma length_positions [simp]: "length (positions bs) = length (concat bs)"
  by (metis length_map positions_messages)

lemma position_records_append [simp]:
  "position_records cfg ds (ps @ ps') = position_records cfg ds ps @ position_records cfg ds ps'"
  by (simp add: position_records_def List.map_filter_def)

lemma prefix_committable_append:
  "n \<le> length ms \<Longrightarrow> prefix_committable base (ms @ ms') n = prefix_committable base ms n"
  "prefix_committable base (ms @ ms') (length ms + k) = prefix_committable (prefix_committable base ms (length ms)) ms' k"
  by (simp_all add: prefix_committable_def)

lemma at_prefix_rebase:
  "at_prefix base (ms @ ms') pol P (length ms + k) s \<longleftrightarrow>
   at_prefix (prefix_committable base ms (length ms)) ms' pol (\<lambda>j. P (length ms + j)) k s"
  by (simp add: at_prefix_def prefix_committable_append)

lemma commits_preserve_rebase:
  "commits_preserve K base (ms @ ms') P \<Longrightarrow>
   commits_preserve K (prefix_committable base ms (length ms)) ms' (\<lambda>j. P (length ms + j))"
  unfolding commits_preserve_def
  by (simp add: prefix_committable_append(2) [symmetric]) (metis add_le_cancel_left length_append)

text \<open>
  A broker client whose commits and polls are on record: \<open>trace\<close> lists the commits it was asked for, whether they succeed
  or not, \<open>polled\<close> what each poll that returned has handed out.
\<close>

definition client_log ::
    "'c consumer_ops \<Rightarrow> 'c fetch_ops \<Rightarrow> ('c \<Rightarrow> offset_map list) \<Rightarrow> ('c \<Rightarrow> kafka_message list list) \<Rightarrow> bool" where
  "client_log K F trace polled \<longleftrightarrow>
     (\<forall>offsets c. trace (fst (co_commit K (Some offsets) c)) = trace c @ [offsets] \<and>
        polled (fst (co_commit K (Some offsets) c)) = polled c) \<and>
     (case fo_getmany F of
        Some getmany \<Rightarrow>
          \<forall>c. trace (fst (getmany c)) = trace c \<and>
            polled (fst (getmany c)) = polled c @ (case snd (getmany c) of Inl _ \<Rightarrow> [] | Inr batches \<Rightarrow> [concat (map snd batches)])
      | None \<Rightarrow>
          \<forall>c. trace (fst (fo_next F c)) = trace c \<and>
            polled (fst (fo_next F c)) = polled c @ (case snd (fo_next F c) of Inl _ \<Rightarrow> [] | Inr m \<Rightarrow> [[m]]))"

definition client_at ::
    "('c \<Rightarrow> offset_map list) \<Rightarrow> ('c \<Rightarrow> kafka_message list list) \<Rightarrow> (topic_partition \<Rightarrow> int option) \<Rightarrow> 'c
     \<Rightarrow> kafka_message list list \<Rightarrow> nat \<Rightarrow> 'c \<Rightarrow> bool" where
  "client_at trace polled base c0 bs k c \<longleftrightarrow> new_commits trace (trace c0) base (concat bs) k c \<and> polled c = polled c0 @ bs"

lemma commits_preserve_conj:
  assumes "commits_preserve K base ms P" "\<And>offsets c. Q (fst (co_commit K (Some offsets) c)) = Q c"
  shows "commits_preserve K base ms (\<lambda>j c. P j c \<and> Q c)"
  using assms(1) unfolding commits_preserve_def assms(2) by blast

lemma client_at_preserved:
  assumes "client_log K F trace polled"
  shows "commits_preserve K base (concat bs) (client_at trace polled base c0 bs)"
proof -
  have "commits_preserve K base (concat bs) (new_commits trace (trace c0) base (concat bs))"
    by (rule new_commits_preserve) (use assms in \<open>simp add: client_log_def\<close>)
  from commits_preserve_conj [OF this, of "\<lambda>c. polled c = polled c0 @ bs"] assms show ?thesis
    by (simp add: client_at_def [abs_def] client_log_def)
qed

lemma new_commits_later:
  assumes "new_commits trace old base ms k c" "k \<le> length ms" "trace c' = trace c"
  shows "new_commits trace old base (ms @ ms') k c'"
proof -
  obtain new where new: "trace c = old @ new" "\<forall>offsets\<in>set new. \<exists>j\<le>k. commits_prefix base ms j offsets"
    using assms(1) by (auto simp: new_commits_def)
  have "commits_prefix base (ms @ ms') j offsets" if "j \<le> k" "commits_prefix base ms j offsets" for j offsets
    using that assms(2) by (simp add: commits_prefix_def prefix_committable_append(1))
  then show ?thesis using new assms(3) unfolding new_commits_def by metis
qed

lemma fetched_frame [simp]:
  "src_cursor (sync_assignment_from_consumer K s) = src_cursor s"
  "src_delivery (sync_assignment_from_consumer K s) = src_delivery s"
  "src_poison (sync_assignment_from_consumer K s) = src_poison s"
  "src_consumer (sync_assignment_from_consumer K s) = src_consumer s"
  by (simp_all add: sync_assignment_from_consumer_def split: option.split)

lemma at_prefix_fields:
  assumes "at_prefix base ms pol P n s" "src_cursor s' = src_cursor s" "src_delivery s' = src_delivery s"
    "src_poison s' = src_poison s" "src_consumer s' = Some c'" "n \<le> length ms" "P' n c'"
  shows "at_prefix base (ms @ ms') pol P' n s'"
  using assms by (auto simp: at_prefix_def source_inv_def prefix_committable_append(1))

lemma fetch_frame:
  "src_cursor (fst (fetch cfg K F idle s)) = src_cursor s"
  "src_delivery (fst (fetch cfg K F idle s)) = src_delivery s"
  "src_poison (fst (fetch cfg K F idle s)) = src_poison s"
  by (simp_all add: fetch_def fetched_nothing_def Let_def split: option.split sum.split prod.split)

text \<open>A turn of the poll loop adds its batch to those handed out; nothing else changes.\<close>

lemma fetch_at:
  assumes log: "client_log K F trace polled" and f: "fetch cfg K F idle s = (s', f)"
    and at: "at_prefix base (concat bs) pol (client_at trace polled base c0 bs) (length (concat bs)) s"
  shows "\<exists>new. at_prefix base (concat (bs @ new)) pol (client_at trace polled base c0 (bs @ new)) (length (concat bs)) s' \<and>
     (case f of FetchBatch ms \<Rightarrow> new = [ms] \<and> ms \<noteq> [] | _ \<Rightarrow> concat new = [])"
proof -
  obtain c where c: "src_consumer s = Some c" "client_at trace polled base c0 bs (length (concat bs)) c"
    using at by (auto simp: at_prefix_def)
  have "\<exists>c' new. src_consumer s' = Some c' \<and> trace c' = trace c \<and> polled c' = polled c @ new \<and>
      (case f of FetchBatch ms \<Rightarrow> new = [ms] \<and> ms \<noteq> [] | _ \<Rightarrow> concat new = [])"
  proof (cases "fo_getmany F")
    case None
    obtain c' r where n: "fo_next F c = (c', r)" by (cases "fo_next F c")
    have "\<forall>c. trace (fst (fo_next F c)) = trace c \<and>
        polled (fst (fo_next F c)) = polled c @ (case snd (fo_next F c) of Inl _ \<Rightarrow> [] | Inr m \<Rightarrow> [[m]])"
      using log None by (simp add: client_log_def)
    from spec [OF this, of c] have "trace c' = trace c" "polled c' = polled c @ (case r of Inl _ \<Rightarrow> [] | Inr m \<Rightarrow> [[m]])"
      by (simp_all add: n)
    then show ?thesis
      using f c(1) None n by (auto simp: fetch_def fetch_failed_def split: sum.splits if_splits)
  next
    case (Some getmany)
    obtain c' r where n: "getmany c = (c', r)" by (cases "getmany c")
    have "\<forall>c. trace (fst (getmany c)) = trace c \<and>
        polled (fst (getmany c)) = polled c @ (case snd (getmany c) of Inl _ \<Rightarrow> [] | Inr batches \<Rightarrow> [concat (map snd batches)])"
      using log Some by (simp add: client_log_def)
    from spec [OF this, of c]
    have tp: "trace c' = trace c" "polled c' = polled c @ (case r of Inl _ \<Rightarrow> [] | Inr batches \<Rightarrow> [concat (map snd batches)])"
      by (simp_all add: n)
    show ?thesis
      using f c(1) Some n tp
      by (auto simp: fetch_def fetch_failed_def fetched_nothing_def Let_def list_all_iff split: sum.splits if_splits option.splits)
        force+
  qed
  then obtain c' new where n: "src_consumer s' = Some c'" "trace c' = trace c" "polled c' = polled c @ new"
      "case f of FetchBatch ms \<Rightarrow> new = [ms] \<and> ms \<noteq> [] | _ \<Rightarrow> concat new = []" by blast
  have "client_at trace polled base c0 (bs @ new) (length (concat bs)) c'"
    using c(2) n(2,3) by (auto simp: client_at_def intro: new_commits_later)
  then have "at_prefix base (concat bs @ concat new) pol (client_at trace polled base c0 (bs @ new)) (length (concat bs)) s'"
    using at_prefix_fields [OF at _ _ _ n(1)] fetch_frame [of cfg K F idle s] f by simp
  then show ?thesis using n(4) by auto
qed

text \<open>The generator before its first poll and at its end.\<close>

lemma stream_finally_at:
  assumes "at_prefix base ms pol P j s" "j \<le> length ms" "commits_preserve K base ms P"
  shows "at_prefix base ms pol P j (fst (stream_finally cfg K outcome s))"
proof -
  have "at_prefix base ms pol P j (upd_delivery clear_active_delivery s)"
    using assms(1) by (simp add: at_prefix_def source_inv_def clear_active_delivery_def)
  from commit_at_prefix [OF this assms(2,3), of cfg True] show ?thesis
    by (auto simp: stream_finally_def split: prod.split sum.split)
qed

lemma stream_end_at:
  assumes "at_prefix base ms pol P j s" "j \<le> length ms" "commits_preserve K base ms P"
  shows "at_prefix base ms pol P j (fst (stream_end cfg K outcome s))"
proof (cases outcome)
  case (GenRaised e)
  from commit_at_prefix [OF assms, of cfg True] show ?thesis
    using stream_finally_at assms(2,3) GenRaised by (fastforce simp: stream_end_def split: prod.split sum.split)
qed (use stream_finally_at [OF assms] in \<open>simp_all add: stream_end_def\<close>)

text \<open>The generator starts with no committable offset and, as before, no commit asked for.\<close>

lemma sourceE_frame:
  "source_inv s \<Longrightarrow> source_inv (fst (run_controls f s))"
  "src_cursor (fst (run_controls f s)) = src_cursor s" "src_poison (fst (run_controls f s)) = src_poison s"
  by (auto simp: run_controls_def source_inv_def split: prod.split)

definition quiet :: "(('c, 'k) kafka_source, unit) eff \<Rightarrow> bool" where
  "quiet m \<longleftrightarrow> (\<forall>s. source_inv s \<longrightarrow> source_inv (fst (m s)) \<and> src_poison (fst (m s)) = src_poison s \<and>
     committable_offsets (src_cursor (fst (m s))) = committable_offsets (src_cursor s))"

lemma quiet_thenE: "\<lbrakk>quiet m; quiet n\<rbrakk> \<Longrightarrow> quiet (thenE m n)"
  by (auto simp: quiet_def thenE_def bindE_def split: prod.split sum.split)

lemma quiet_start:
  "quiet (refresh_assignment_state K b)" "quiet (apply_initial_positioning K)" "quiet (run_controls f)"
proof -
  show "quiet (run_controls f)" by (simp add: quiet_def sourceE_frame)
  show "quiet (refresh_assignment_state K b)"
    by (auto simp: quiet_def refresh_assignment_state_def source_inv_def split: option.split prod.split sum.split)
  have poll: "quiet (poll_for_targets K targets c)" for targets c
    by (auto simp: quiet_def poll_for_targets_def source_inv_def split: option.split prod.split sum.split)
  have mark: "committable_offsets (mark_positioning_applied x) = committable_offsets x"
    "pending_commit_count (mark_positioning_applied x) = pending_commit_count x" for x
    by (simp_all add: cursor_defs)
  have seek: "quiet (seek_initial_offsets K targets)" for targets
    by (auto simp: quiet_def seek_initial_offsets_def source_inv_def on_state_changed_def mark cursor_inv_marks cursor_inv_simple
        split: option.split prod.split sum.split)
  show "quiet (apply_initial_positioning K)"
    using quiet_thenE [OF poll seek]
    by (auto simp: quiet_def apply_initial_positioning_def Let_def source_inv_def mark cursor_inv_simple split: option.split)
qed

lemma stream_start_inv:
  assumes "source_inv s"
  shows "source_inv (fst (stream_start K s))" "src_poison (fst (stream_start K s)) = src_poison s"
    "committable_offsets (src_cursor (fst (stream_start K s))) = []"
proof -
  define s1 where "s1 = on_state_changed (upd_cursor reset_for_stream (upd_delivery reset_run_state s))"
  have s1: "source_inv s1" "src_poison s1 = src_poison s" "committable_offsets (src_cursor s1) = []"
    using assms by (simp_all add: s1_def source_inv_def on_state_changed_def cursor_inv_simple reset_run_state_def clear_active_delivery_def)
      (simp_all add: cursor_defs)
  have "quiet (bootstrap_consumer_state K)"
    unfolding bootstrap_consumer_state_def by (intro quiet_thenE quiet_start)
  then have "source_inv (fst (bootstrap_consumer_state K s1)) \<and> src_poison (fst (bootstrap_consumer_state K s1)) = src_poison s \<and>
      committable_offsets (src_cursor (fst (bootstrap_consumer_state K s1))) = []"
    using s1 unfolding quiet_def by metis
  then show "source_inv (fst (stream_start K s))" "src_poison (fst (stream_start K s)) = src_poison s"
    "committable_offsets (src_cursor (fst (stream_start K s))) = []"
    unfolding stream_start_def s1_def by blast+
qed

lemma stream_start_none: "src_consumer s = None \<Longrightarrow> src_consumer (fst (stream_start K s)) = None"
  by (simp add: stream_start_def bootstrap_consumer_state_def thenE_def bindE_def refresh_assignment_state_def
      apply_initial_positioning_def run_controls_def apply_pause_state_def on_state_changed_def)

text \<open>A loop that stops early without an exception has received as many records as wanted.\<close>

lemma drain_record_enough: "snd (drain_record cfg K SO opts n m md record x) = Suspended None \<Longrightarrow> \<not> wants_more opts n"
  by (auto simp: drain_record_def Let_def split: prod.splits sum.splits if_splits)

lemma drain_emit_each_enough:
  "drain_emit_each cfg K SO opts prs out x = (x', out', Suspended None) \<Longrightarrow> \<not> wants_more opts (length out')"
proof (induction prs arbitrary: out x)
  case (Cons pr prs)
  obtain rec bc where pr: "pr = (rec, bc)" by (cases pr)
  obtain x1 st where r: "drain_record cfg K SO opts (Suc (length out)) (bc_message bc) (bc_metadata bc) rec x = (x1, st)" by fastforce
  show ?case
    using Cons drain_record_enough [of cfg K SO opts "Suc (length out)" "bc_message bc" "bc_metadata bc" rec x]
    by (cases st) (auto simp: pr r)
qed simp

lemma drain_each_enough:
  "drain_each cfg K SK f SO opts bcs out (s, q) = (x', out', Suspended None) \<Longrightarrow> \<not> wants_more opts (length out')"
proof (induction bcs arbitrary: out s q)
  case (Cons bc bcs)
  show ?case
  proof (cases "f (bc_message bc) (bc_metadata bc)")
    case (Inl e)
    then show ?thesis using Cons by (auto split: prod.splits sum.splits)
  next
    case (Inr rec)
    obtain s1 q1 st where r: "drain_record cfg K SO opts (Suc (length out)) (bc_message bc) (bc_metadata bc) rec (s, q) = ((s1, q1), st)"
      by (metis prod.collapse)
    show ?thesis
      using Cons drain_record_enough [of cfg K SO opts "Suc (length out)" "bc_message bc" "bc_metadata bc" rec "(s, q)"]
      by (cases st) (auto simp: Inr r)
  qed
qed simp

lemma drain_batch_enough:
  "drain_batch cfg K SK ds SO opts ms out (s, q) = (x', out', Suspended None) \<Longrightarrow> \<not> wants_more opts (length out')"
  by (auto simp: drain_batch_def Let_def step_of_def drain_each_enough drain_emit_each_enough
      split: option.splits sum.splits prod.splits if_splits)

lemma drain_polls_enough:
  "drain_polls cfg K SK ds SO opts F fuel idle out (s, q) = Some (x', out', Suspended None) \<Longrightarrow> \<not> wants_more opts (length out')"
proof (induction fuel arbitrary: idle out s q)
  case (Suc fuel)
  obtain s1 f where f: "fetch cfg K F idle s = (s1, f)" by fastforce
  show ?case
  proof (cases f)
    case (FetchBatch ms)
    obtain s2 q2 out2 st where b: "drain_batch cfg K SK ds SO opts ms out (s1, q) = ((s2, q2), out2, st)" by (metis prod.collapse)
    show ?thesis using Suc drain_batch_enough b f FetchBatch by (cases st) fastforce+
  qed (use Suc f in auto)
qed simp

lemma stream_end_raised: "\<exists>e'. snd (stream_end cfg K (GenRaised e) s) = GenRaised e'"
  by (simp add: stream_end_def stream_finally_def split: prod.split sum.split)

lemma drain_end_run:
  assumes "drain_end cfg K records st (s, q) = ((s', q'), r)"
  shows "q' = q \<and> (s' = fst (stream_finally cfg K GenClosed s) \<or> (\<exists>oc. s' = fst (stream_end cfg K oc s))) \<and>
     (\<forall>out. r = Inr out \<longrightarrow> out = records \<and> (st = Advanced \<or> st = Suspended None))"
proof (cases st)
  case Advanced
  obtain s1 oc where e: "stream_end cfg K Completed s = (s1, oc)" by fastforce
  then show ?thesis using assms Advanced by (cases oc) (auto simp: drain_end_def intro: exI [of _ Completed])
next
  case (GeneratorFailed e)
  obtain s1 oc where r: "stream_end cfg K (GenRaised e) s = (s1, oc)" by fastforce
  then obtain e' where "oc = GenRaised e'" using stream_end_raised [of cfg K e s] by auto
  then show ?thesis using assms GeneratorFailed r by (auto simp: drain_end_def intro: exI [of _ "GenRaised e"])
next
  case (Suspended stopped)
  obtain s1 oc where f: "stream_finally cfg K GenClosed s = (s1, oc)" by fastforce
  have "suppressed (close_stream cfg K) s = (s1, case oc of GenRaised e \<Rightarrow> if runtime_cancelled e then Inl e else Inr () | _ \<Rightarrow> Inr ())"
    by (cases oc) (simp_all add: suppressed_def tryE_def close_stream_def f raiseE_def returnE_def)
  then show ?thesis using assms Suspended f
    by (cases oc) (auto simp: drain_end_def on_source_def thenE_def bindE_def split: if_splits option.splits)
qed

text \<open>A client whose messages run out: \<open>left\<close> goes down with every poll that hands out messages and never up.\<close>

definition drains_dry :: "'c consumer_ops \<Rightarrow> 'c fetch_ops \<Rightarrow> ('c \<Rightarrow> nat) \<Rightarrow> bool" where
  "drains_dry K F left \<longleftrightarrow>
     (\<forall>offsets c. left (fst (co_commit K (Some offsets) c)) \<le> left c) \<and>
     (case fo_getmany F of
        Some getmany \<Rightarrow>
          \<forall>c. left (fst (getmany c)) \<le> left c \<and>
            (\<forall>batches. snd (getmany c) = Inr batches \<and> concat (map snd batches) \<noteq> [] \<longrightarrow> left (fst (getmany c)) < left c)
      | None \<Rightarrow> \<forall>c m. snd (fo_next F c) = Inr m \<longrightarrow> left (fst (fo_next F c)) < left c)"

lemma fetch_drains:
  assumes dry: "drains_dry K F left" and max: "kc_max_idle_polls cfg = Some max_idle" and c: "src_consumer s = Some c"
    and f: "fetch cfg K F idle s = (s', f)"
  shows "case f of
      FetchBatch ms \<Rightarrow> ms \<noteq> [] \<and> (\<exists>c'. src_consumer s' = Some c' \<and> left c' < left c)
    | FetchIdle n \<Rightarrow> n = idle + 1 \<and> n < max_idle \<and> (\<exists>c'. src_consumer s' = Some c' \<and> left c' \<le> left c)
    | _ \<Rightarrow> True"
proof (cases "fo_getmany F")
  case None
  then have "snd (fo_next F c) = Inr m \<Longrightarrow> left (fst (fo_next F c)) < left c" for m
    using dry by (simp add: drains_dry_def)
  then show ?thesis using f c None by (auto simp: fetch_def fetch_failed_def split: prod.splits sum.splits if_splits)
next
  case (Some getmany)
  then have "left (fst (getmany c)) \<le> left c"
    "\<And>batches. snd (getmany c) = Inr batches \<Longrightarrow> concat (map snd batches) \<noteq> [] \<Longrightarrow> left (fst (getmany c)) < left c"
    using dry by (simp_all add: drains_dry_def)
  then show ?thesis using f c Some max
    by (auto simp: fetch_def fetch_failed_def fetched_nothing_def Let_def list_all_iff split: prod.splits sum.splits if_splits) force+
qed

section \<open>Sinks that keep what they are given\<close>

text \<open>
  The contract of a sink.  \<open>durable u q\<close>: the record \<open>u\<close> is stored for good; \<open>pending u q\<close>: it will be with the next
  flush that returns.  Nothing that is durable is lost, whether an operation returns or raises.
\<close>

locale durable_sink =
  fixes SO :: "('u, 'q) base_sink" and ok :: "'q \<Rightarrow> bool" and durable :: "'u \<Rightarrow> 'q \<Rightarrow> bool" and pending :: "'u \<Rightarrow> 'q \<Rightarrow> bool"
  assumes write_keeps: "\<lbrakk>ok q; bs_write SO u q = (q', r)\<rbrakk> \<Longrightarrow> ok q' \<and> (durable v q \<longrightarrow> durable v q')"
    and write_takes: "\<lbrakk>ok q; bs_write SO u q = (q', Inr ())\<rbrakk> \<Longrightarrow> durable u q' \<or> pending u q'"
    and flush_keeps: "\<lbrakk>ok q; bs_flush SO q = (q', r)\<rbrakk> \<Longrightarrow> ok q' \<and> (durable v q \<longrightarrow> durable v q')"
    and flush_settles: "\<lbrakk>ok q; bs_flush SO q = (q', Inr ()); pending v q\<rbrakk> \<Longrightarrow> durable v q'"
begin

definition retains :: "'q \<Rightarrow> 'q \<Rightarrow> bool" where
  "retains q q' \<longleftrightarrow> ok q' \<and> (\<forall>v. durable v q \<longrightarrow> durable v q')"

lemma retains_trans: "\<lbrakk>retains q q1; retains q1 q2\<rbrakk> \<Longrightarrow> retains q q2"
  by (auto simp: retains_def)

lemma written_and_flushed:
  assumes "ok q" "write_through SO True u q = (q', r)"
  shows "retains q q' \<and> (r = Inr () \<longrightarrow> durable u q')"
proof -
  obtain q1 z where w: "bs_write SO u q = (q1, z)" by (cases "bs_write SO u q")
  have W: "retains q q1" using write_keeps [OF assms(1) w] by (simp add: retains_def)
  show ?thesis
  proof (cases z)
    case (Inl e)
    then show ?thesis using assms(2) w W by (auto simp: write_through_def thenE_def bindE_def)
  next
    case (Inr x)
    then have f: "bs_flush SO q1 = (q', r)" using assms(2) w by (simp add: write_through_def thenE_def bindE_def)
    have ok1: "ok q1" using W by (simp add: retains_def)
    have F: "retains q1 q'" using flush_keeps [OF ok1 f] by (simp add: retains_def)
    have "durable u q1 \<or> pending u q1" using write_takes [OF assms(1)] w Inr by simp
    then have "durable u q'" if "r = Inr ()" using F flush_settles [OF ok1] f that by (auto simp: retains_def)
    then show ?thesis using retains_trans [OF W F] by blast
  qed
qed

lemma delivered:
  assumes "ro_flush opts" "\<not> ro_transactional opts" "ok q" "active_hook (src_delivery s) = Some hook"
    and run: "runtime_deliver cfg K SO opts record (s, q) = ((s', q'), r)"
  shows "retains q q' \<and>
     (s' = s \<and> (\<exists>e. r = Inl e) \<or>
      (\<exists>u. outbound_record opts (current_delivery_context (src_delivery s)) record = Inr u \<and> durable u q' \<and>
           s' = fst (ack_hook cfg K hook s)))"
proof (cases "outbound_record opts (current_delivery_context (src_delivery s)) record")
  case (Inl e)
  then have "s' = s \<and> q' = q \<and> r = Inl e" using run by (simp add: runtime_deliver_def)
  then show ?thesis using assms(3) by (simp add: retains_def)
next
  case (Inr u)
  obtain q1 z where w: "write_through SO True u q = (q1, z)" by (cases "write_through SO True u q")
  note W = written_and_flushed [OF assms(3) w]
  show ?thesis
  proof (cases z)
    case z: (Inl e)
    then have "s' = s \<and> q' = q1 \<and> r = Inl e" using run assms(1,2,4) Inr w by (simp add: runtime_deliver_def)
    then show ?thesis using W by simp
  next
    case z: (Inr x)
    then have "s' = fst (ack_hook cfg K hook s) \<and> q' = q1"
      using run assms(1,2,4) Inr w by (auto simp: runtime_deliver_def split: prod.splits sum.splits)
    then show ?thesis using W z Inr by simp
  qed
qed

lemma drained_record:
  assumes opts: "ro_flush opts" "\<not> ro_transactional opts" and ok: "ok q"
    and at: "at_prefix base ms pol P j s" and j: "j < length ms" "commits_preserve K base ms P"
    and run: "drain_record cfg K SO opts n (ms ! j) md record (s, q) = ((s', q'), st)"
  shows "retains q q' \<and> (\<exists>j'. (j' = j \<or> j' = Suc j) \<and> at_prefix base ms pol P j' s' \<and>
     (st = Advanced \<or> st = Suspended None \<longrightarrow> j' = Suc j) \<and>
     (j' = Suc j \<longrightarrow> (\<exists>u. outbound_record opts (Some (delivery_context_from_metadata md)) record = Inr u \<and> durable u q')))"
proof -
  let ?m = "ms ! j"
  define s1 where "s1 = mark_emitted_offset cfg (m_topic ?m) (m_partition ?m) (m_offset ?m) s"
  obtain s2 hook where sd: "start_delivery (m_topic ?m) (m_partition ?m) (m_offset ?m) md s1 = (s2, hook)" by fastforce
  have active: "active_hook (src_delivery s2) = Some hook" "current_delivery_context (src_delivery s2) = Some (delivery_context_from_metadata md)"
    using sd by (auto simp: start_delivery_def Let_def)
  have "at_prefix base ms pol P j s1" unfolding s1_def by (rule mark_emitted_at_prefix [OF at])
  then have h2: "hook_at base ms pol P j hook s2" and hf: "hook_for ?m hook" and fresh: "\<not> was_acked hook s2"
    using start_delivery_hook_at start_delivery_hook_for sd
    by (metis fst_conv snd_conv) (metis start_delivery_hook_for sd snd_conv, use sd \<open>at_prefix base ms pol P j s1\<close> in \<open>auto simp: start_delivery_def was_acked_def at_prefix_def source_inv_def Let_def\<close>)
  obtain s3 q3 r where dl: "runtime_deliver cfg K SO opts record (s2, q) = ((s3, q3), r)" by (metis prod.collapse)
  define s4 where "s4 = upd_delivery clear_active_delivery s3"
  note run = run [unfolded drain_record_def prod.case Let_def s1_def [symmetric] sd dl, folded s4_def]
  note D = delivered [OF opts ok active(1) dl, unfolded active(2)]
  from D consider (kept) e where "s3 = s2" "r = Inl e"
    | (acked) u where "outbound_record opts (Some (delivery_context_from_metadata md)) record = Inr u" "durable u q3"
        "s3 = fst (ack_hook cfg K hook s2)"
    by blast
  then show ?thesis
  proof cases
    case kept
    then have "s' = s2" "q' = q3" "st = Suspended (Some e)" using run by simp_all
    moreover have "at_prefix base ms pol P j s2" using h2 fresh by (simp add: hook_at_def)
    ultimately show ?thesis using D by auto
  next
    case acked
    have h3: "hook_at base ms pol P j hook s3" "was_acked hook s3"
      using ack_hook_at [OF h2 j(1) hf j(2), of cfg] acked(3) by simp_all
    then have h4: "hook_at base ms pol P j hook s4" "was_acked hook s4"
      by (simp_all add: s4_def clear_active_hook_at)
    have "s' = s3 \<or> s' = s4" "q' = q3" using run h4(2) by (auto split: sum.splits if_splits)
    moreover have "at_prefix base ms pol P (Suc j) s3" "at_prefix base ms pol P (Suc j) s4"
      using h3 h4 by (simp_all add: hook_at_def)
    ultimately show ?thesis using D acked by blast
  qed
qed


text \<open>
  What a drain of \<open>bcs\<close> started at prefix \<open>j\<close> may leave: \<open>k\<close> further messages committable, each of them durable unless
  it could not be deserialised and the policy goes on after such a record; the records received are those of these
  messages when no delivery failed.
\<close>

definition stored ::
    "('r, 'u, 'v) runtime_options \<Rightarrow> poison_policy \<Rightarrow> (kafka_message \<Rightarrow> message_metadata \<Rightarrow> 'r result) \<Rightarrow> 'q
     \<Rightarrow> batch_message_context \<Rightarrow> bool" where
  "stored opts pol f q bc \<longleftrightarrow>
     (case f (bc_message bc) (bc_metadata bc) of
        Inl e \<Rightarrow> continues pol
      | Inr r \<Rightarrow> \<exists>u. outbound_record opts (Some (delivery_context_from_metadata (bc_metadata bc))) r = Inr u \<and> durable u q)"

lemma stored_retains: "\<lbrakk>stored opts pol f q bc; retains q q'\<rbrakk> \<Longrightarrow> stored opts pol f q' bc"
  by (auto simp: stored_def retains_def split: sum.splits)

definition stored_upto ::
    "('r, 'u, 'v) runtime_options \<Rightarrow> (topic_partition \<Rightarrow> int option) \<Rightarrow> kafka_message list \<Rightarrow> poison_policy \<Rightarrow> (nat \<Rightarrow> 'c \<Rightarrow> bool) \<Rightarrow> nat
     \<Rightarrow> (kafka_message \<Rightarrow> message_metadata \<Rightarrow> 'r result) \<Rightarrow> batch_message_context list \<Rightarrow> 'r list \<Rightarrow> 'q
     \<Rightarrow> (('c, 'k) kafka_source \<times> 'q) \<times> 'r list \<times> drain_step \<Rightarrow> bool" where
  "stored_upto opts base ms pol P j f bcs out q result \<longleftrightarrow>
     (case result of ((s', q'), out', st) \<Rightarrow>
       retains q q' \<and> (\<exists>k \<le> length bcs. at_prefix base ms pol P (j + k) s' \<and> (st = Advanced \<longrightarrow> k = length bcs) \<and>
         (st = Advanced \<or> st = Suspended None \<longrightarrow> out' = out @ deserialized f (take k bcs)) \<and>
         list_all (stored opts pol f q') (take k bcs)))"

lemma stored_uptoI:
  assumes "retains q q'" "k \<le> length bcs" "at_prefix base ms pol P (j + k) s'" "st = Advanced \<Longrightarrow> k = length bcs"
    "st = Advanced \<or> st = Suspended None \<Longrightarrow> out' = out @ deserialized f (take k bcs)"
    "list_all (stored opts pol f q') (take k bcs)"
  shows "stored_upto opts base ms pol P j f bcs out q ((s', q'), out', st)"
  unfolding stored_upto_def prod.case using assms by blast

lemma stored_upto_Cons:
  assumes "stored_upto opts base ms pol P (Suc j) f bcs (out @ deserialized f [bc]) q1 result" "retains q q1" "stored opts pol f q1 bc"
  shows "stored_upto opts base ms pol P j f (bc # bcs) out q result"
proof -
  obtain s' q' out' st where res: "result = ((s', q'), out', st)" by (metis prod.collapse)
  obtain k where k: "retains q1 q'" "k \<le> length bcs" "at_prefix base ms pol P (Suc j + k) s'"
    "st = Advanced \<longrightarrow> k = length bcs" "list_all (stored opts pol f q') (take k bcs)"
    "st = Advanced \<or> st = Suspended None \<longrightarrow> out' = (out @ deserialized f [bc]) @ deserialized f (take k bcs)"
    using assms(1) unfolding stored_upto_def res prod.case by blast
  show ?thesis unfolding res
    by (rule stored_uptoI [of _ _ "Suc k"])
      (use k assms(2,3) in \<open>auto intro: retains_trans stored_retains simp: deserialized_def\<close>)
qed

lemma drained_upto:
  assumes opts: "ro_flush opts" "\<not> ro_transactional opts" and K: "commits_preserve K base ms P"
    and "ok q" "at_prefix base ms pol P j s" "map bc_message bcs = drop j ms" "j \<le> length ms"
  shows "stored_upto opts base ms pol P j f bcs out q (drain_each cfg K SK f SO opts bcs out (s, q))"
  using assms(4-7)
proof (induction bcs arbitrary: j out s q)
  case Nil
  then show ?case by (auto intro: stored_uptoI [of _ _ 0] simp: retains_def)
next
  case (Cons bc bcs)
  from Cons.prems(3,4) have j: "j < length ms"
    by (cases "j = length ms") auto
  with Cons.prems(3) have m: "bc_message bc = ms ! j" "map bc_message bcs = drop (Suc j) ms"
    by (simp_all add: Cons_nth_drop_Suc [symmetric])
  have g: "retains q q" using Cons.prems(1) by (simp add: retains_def)
  show ?case
  proof (cases "f (bc_message bc) (bc_metadata bc)")
    case bad: (Inl e)
    obtain s' r where run: "handle_single_deserialize_error cfg K SK e (ms ! j) (bc_metadata bc) s = (s', r)"
      by fastforce
    note h = handle_single_at_prefix [OF Cons.prems(2) j K run]
    show ?thesis
    proof (cases r)
      case (Inr _)
      then have "stored_upto opts base ms pol P (Suc j) f bcs (out @ deserialized f [bc]) q (drain_each cfg K SK f SO opts bcs out (s', q))"
        "stored opts pol f q bc"
        using Cons.IH [of q "Suc j" s' out] Cons.prems(1) h m j bad by (simp_all add: stored_def)
      then have "stored_upto opts base ms pol P j f (bc # bcs) out q (drain_each cfg K SK f SO opts bcs out (s', q))"
        using stored_upto_Cons g by blast
      then show ?thesis using Inr bad run m by simp
    next
      case (Inl e')
      from h Inl consider "at_prefix base ms pol P j s'" | "continues pol" "at_prefix base ms pol P (Suc j) s'"
        by auto
      then have "stored_upto opts base ms pol P j f (bc # bcs) out q ((s', q), out, GeneratorFailed e')"
        by cases (auto intro: stored_uptoI [of _ _ 0] stored_uptoI [of _ _ 1] simp: bad g stored_def)
      then show ?thesis
        using Inl run m bad by simp
    qed
  next
    case (Inr rec)
    obtain s' q' st where run: "drain_record cfg K SO opts (Suc (length out)) (ms ! j) (bc_metadata bc) rec (s, q) = ((s', q'), st)"
      by (metis prod.collapse)
    obtain j' where j': "retains q q'" "j' = j \<or> j' = Suc j" "at_prefix base ms pol P j' s'"
      "st = Advanced \<or> st = Suspended None \<longrightarrow> j' = Suc j" "j' = Suc j \<longrightarrow> stored opts pol f q' bc"
      using drained_record [OF opts Cons.prems(1,2) j K run] Inr by (auto simp: stored_def)
    show ?thesis
    proof (cases "st = Advanced")
      case True
      then have "stored_upto opts base ms pol P (Suc j) f bcs (out @ deserialized f [bc]) q' (drain_each cfg K SK f SO opts bcs (out @ [rec]) (s', q'))"
        using Cons.IH [of q' "Suc j" s' "out @ [rec]"] j' m j Inr by (simp add: retains_def)
      then have "stored_upto opts base ms pol P j f (bc # bcs) out q (drain_each cfg K SK f SO opts bcs (out @ [rec]) (s', q'))"
        using stored_upto_Cons j' True by blast
      then show ?thesis using Inr True run m by simp
    next
      case False
      have "stored_upto opts base ms pol P j f (bc # bcs) out q ((s', q'), out @ [rec], st)"
        using j' False Inr by (intro stored_uptoI [of _ _ "j' - j"]) auto
      then show ?thesis
        using Inr False run m by (cases st) simp_all
    qed
  qed
qed

text \<open>A batch, in either way of deserialising.\<close>

definition kept ::
    "('r, 'u, 'v) runtime_options \<Rightarrow> poison_policy \<Rightarrow> kafka_config \<Rightarrow> 'r deserializers \<Rightarrow> 'q \<Rightarrow> kafka_message list \<times> nat \<Rightarrow> bool" where
  "kept opts pol cfg ds q = (\<lambda>(b, i).
     case message_record cfg ds b i of
       None \<Rightarrow> continues pol
     | Some r \<Rightarrow> \<exists>u. outbound_record opts (Some (delivery_context_from_metadata (message_metadata cfg (b ! i) (int (length b)) (int i)))) r = Inr u
           \<and> durable u q)"

lemma kept_retains: "\<lbrakk>list_all (kept opts pol cfg ds q) ps; retains q q'\<rbrakk> \<Longrightarrow> list_all (kept opts pol cfg ds q') ps"
  by (induction ps) (auto simp: kept_def retains_def split: option.splits)

definition batch_kept ::
    "('r, 'u, 'v) runtime_options \<Rightarrow> (topic_partition \<Rightarrow> int option) \<Rightarrow> kafka_message list \<Rightarrow> poison_policy \<Rightarrow> (nat \<Rightarrow> 'c \<Rightarrow> bool)
     \<Rightarrow> kafka_config \<Rightarrow> 'r deserializers \<Rightarrow> 'r list \<Rightarrow> 'q \<Rightarrow> (('c, 'k) kafka_source \<times> 'q) \<times> 'r list \<times> drain_step \<Rightarrow> bool" where
  "batch_kept opts base ms pol P cfg ds out q result \<longleftrightarrow>
     (case result of ((s', q'), out', st) \<Rightarrow>
       retains q q' \<and> (\<exists>k \<le> length ms. at_prefix base ms pol P k s' \<and> (st = Advanced \<longrightarrow> k = length ms) \<and>
         (st = Advanced \<or> st = Suspended None \<longrightarrow> out' = out @ position_records cfg ds (take k (positions [ms]))) \<and>
         list_all (kept opts pol cfg ds q') (take k (positions [ms]))))"

lemma stored_upto_batch:
  assumes up: "stored_upto opts base ms pol P 0 f (build_batch_contexts cfg ms) out q result"
    and f: "\<And>i. i < length ms \<Longrightarrow> message_record cfg ds ms i =
      (case f (ms ! i) (message_metadata cfg (ms ! i) (int (length ms)) (int i)) of Inl _ \<Rightarrow> None | Inr r \<Rightarrow> Some r)"
  shows "batch_kept opts base ms pol P cfg ds out q result"
proof -
  let ?bcs = "build_batch_contexts cfg ms"
  obtain s' q' out' st where res: "result = ((s', q'), out', st)" by (metis prod.collapse)
  obtain k where k: "retains q q'" "k \<le> length ms" "at_prefix base ms pol P k s'" "st = Advanced \<longrightarrow> k = length ms"
    "st = Advanced \<or> st = Suspended None \<longrightarrow> out' = out @ deserialized f (take k ?bcs)"
    "list_all (stored opts pol f q') (take k ?bcs)"
    using up unfolding stored_upto_def res prod.case build_batch_contexts_simps add_0 by blast
  have pos: "take k (positions [ms]) = map (Pair ms) [0..<k]" using k(2) by (simp add: take_map)
  have bcs: "take k ?bcs = map (\<lambda>i. ?bcs ! i) [0..<k]" using k(2) by (simp add: list_eq_iff_nth_eq)
  have "list_all (kept opts pol cfg ds q') (map (Pair ms) [0..<k])"
    using k(2,6) unfolding bcs list_all_iff
    by (auto simp: kept_def stored_def f build_batch_contexts_nth split: sum.splits)
  moreover have "deserialized f (map (\<lambda>i. ?bcs ! i) js) = position_records cfg ds (map (Pair ms) js)" if "set js \<subseteq> {..<length ms}" for js
    using that by (induction js) (auto simp: deserialized_def position_records_def List.map_filter_def f build_batch_contexts_nth split: sum.splits)
  then have "deserialized f (take k ?bcs) = position_records cfg ds (map (Pair ms) [0..<k])"
    unfolding bcs using k(2) by (simp add: atLeast0LessThan)
  ultimately show ?thesis unfolding batch_kept_def res prod.case using k pos by metis
qed

lemma failed_batch:
  assumes "at_prefix base ms pol P 0 s" "ms \<noteq> []" "commits_preserve K base ms P" "ok q"
    "handle_batch_failure cfg K SK e ms bcs stage s = (s', r)" "\<And>i. message_record cfg ds ms i = None"
  shows "batch_kept opts base ms pol P cfg ds out q ((s', q), out, step_of r)"
proof -
  have none: "position_records cfg ds (map (Pair ms) js) = []"
    "list_all (kept opts pol cfg ds q) (map (Pair ms) js) \<longleftrightarrow> js = [] \<or> continues pol" for js
    using assms(6) by (induction js) (auto simp: position_records_def List.map_filter_def kept_def)
  have "\<exists>k. (k = 0 \<or> continues pol \<and> k = length ms) \<and> at_prefix base ms pol P k s' \<and>
      (step_of r = Advanced \<longrightarrow> k = length ms)"
    using handle_batch_failure_at_prefix [OF assms(1-3,5)] by (cases r) (auto simp: step_of_def)
  then obtain k where "k = 0 \<or> continues pol \<and> k = length ms" "at_prefix base ms pol P k s'"
      "step_of r = Advanced \<longrightarrow> k = length ms" by blast
  then show ?thesis
    using assms(4) unfolding batch_kept_def prod.case
    by (intro conjI exI [of _ k]) (auto simp: retains_def take_map none)
qed

lemma drain_emit_each_as_drain_each:
  assumes "\<And>record bc. (record, bc) \<in> set prs \<Longrightarrow> f (bc_message bc) (bc_metadata bc) = Inr record"
  shows "drain_emit_each cfg K SO opts prs out x = drain_each cfg K SK f SO opts (map snd prs) out x"
  using assms
proof (induction prs arbitrary: out x)
  case (Cons pr prs)
  obtain rec bc where pr: "pr = (rec, bc)" by (cases pr)
  obtain s q where x: "x = (s, q)" by (cases x)
  have f: "f (bc_message bc) (bc_metadata bc) = Inr rec" using Cons.prems pr by simp
  show ?case
    using Cons.IH Cons.prems by (simp add: pr x f cong: prod.case_cong drain_step.case_cong)
qed (cases x, simp)

lemma drained_batch:
  assumes opts: "ro_flush opts" "\<not> ro_transactional opts" and K: "commits_preserve K base ms P"
    and ok: "ok q" and at: "at_prefix base ms pol P 0 s" and ms: "ms \<noteq> []"
  shows "batch_kept opts base ms pol P cfg ds out q (drain_batch cfg K SK ds SO opts ms out (s, q))"
proof -
  let ?bcs = "build_batch_contexts cfg ms"
  have each: "stored_upto opts base ms pol P 0 f ?bcs out q (drain_each cfg K SK f SO opts ?bcs out (s, q))" for f
    by (rule drained_upto [OF opts K ok at]) simp_all
  consider "ds_batch ds = None"
    | g e where "ds_batch ds = Some g" "g ms ?bcs = Inl e"
    | g rs where "ds_batch ds = Some g" "g ms ?bcs = Inr rs" "length rs = length ms"
    | g rs where "ds_batch ds = Some g" "g ms ?bcs = Inr rs" "length rs \<noteq> length ms"
    by (metis option.exhaust sum.exhaust)
  then show ?thesis
  proof cases
    case 1
    then show ?thesis
      using stored_upto_batch [OF each [of "ds_single ds"], of ds] by (simp add: drain_batch_def message_record_def)
  next
    case 2
    obtain s' r where h: "handle_batch_deserialize_error cfg K SK ms ?bcs e s = (s', r)" by fastforce
    show ?thesis
      using failed_batch [OF at ms K ok h [unfolded handle_batch_deserialize_error_def], where ds = ds and opts = opts and out = out] 2 h
      by (simp add: drain_batch_def message_record_def)
  next
    case 3
    have "drain_emit_each cfg K SO opts (zip rs ?bcs) out (s, q) = drain_each cfg K SK (nth_record rs) SO opts ?bcs out (s, q)"
      using 3 by (subst drain_emit_each_as_drain_each [where f = "nth_record rs"])
        (auto simp: in_set_zip nth_record_def build_batch_contexts_nth message_metadata_def)
    then show ?thesis
      using stored_upto_batch [OF each [of "nth_record rs"], of ds] 3
      by (simp add: drain_batch_def message_record_def nth_record_def message_metadata_def)
  next
    case 4
    let ?s0 = "upd_delivery clear_active_delivery s"
    obtain s' r where h: "handle_batch_deserializer_count_mismatch cfg K SK ms ?bcs (length rs) ?s0 = (s', r)"
      by fastforce
    have "at_prefix base ms pol P 0 ?s0"
      using at by (simp add: at_prefix_def source_inv_def clear_active_delivery_def)
    then show ?thesis
      using failed_batch [OF _ ms K ok h [unfolded handle_batch_deserializer_count_mismatch_def], where ds = ds and opts = opts and out = out] 4 h
      by (simp add: drain_batch_def message_record_def)
  qed
qed

text \<open>
  All polls.  \<open>drained\<close>: of the batches \<open>bs\<close> handed out since \<open>c0\<close>, the first \<open>k\<close> messages are committable and kept.
\<close>

definition drained ::
    "('r, 'u, 'v) runtime_options \<Rightarrow> poison_policy \<Rightarrow> kafka_config \<Rightarrow> 'r deserializers \<Rightarrow> ('c \<Rightarrow> offset_map list)
     \<Rightarrow> ('c \<Rightarrow> kafka_message list list) \<Rightarrow> (topic_partition \<Rightarrow> int option) \<Rightarrow> 'c \<Rightarrow> kafka_message list list \<Rightarrow> nat
     \<Rightarrow> ('c, 'k) kafka_source \<times> 'q \<Rightarrow> bool" where
  "drained opts pol cfg ds trace polled base c0 bs k x \<longleftrightarrow>
     (case x of (s, q) \<Rightarrow>
       ok q \<and> k \<le> length (concat bs) \<and> at_prefix base (concat bs) pol (client_at trace polled base c0 bs) k s \<and>
       list_all (kept opts pol cfg ds q) (take k (positions bs)))"

lemma drained_another:
  assumes opts: "ro_flush opts" "\<not> ro_transactional opts" and log: "client_log K F trace polled" and b: "b \<noteq> []"
    and all: "list_all (kept opts pol cfg ds q) (positions bs)" and ok: "ok q"
    and at: "at_prefix base (concat (bs @ [b])) pol (client_at trace polled base c0 (bs @ [b])) (length (concat bs)) s"
    and run: "drain_batch cfg K SK ds SO opts b (position_records cfg ds (positions bs)) (s, q) = (x', out', st)"
  shows "\<exists>k. drained opts pol cfg ds trace polled base c0 (bs @ [b]) k x' \<and>
     (st = Advanced \<longrightarrow> k = length (concat (bs @ [b]))) \<and>
     (st = Advanced \<or> st = Suspended None \<longrightarrow> out' = position_records cfg ds (take k (positions (bs @ [b]))))"
proof -
  let ?ms = "concat bs" and ?P = "client_at trace polled base c0 (bs @ [b])"
  obtain s' q' where x': "x' = (s', q')" by (cases x')
  have K: "commits_preserve K (prefix_committable base ?ms (length ?ms)) b (\<lambda>j. ?P (length ?ms + j))"
    by (rule commits_preserve_rebase) (use client_at_preserved [OF log, of base "bs @ [b]" c0] in simp)
  have "at_prefix (prefix_committable base ?ms (length ?ms)) b pol (\<lambda>j. ?P (length ?ms + j)) 0 s"
    by (rule at_prefix_rebase [THEN iffD1]) (use at in simp)
  from drained_batch [OF opts K ok this b, of cfg ds "position_records cfg ds (positions bs)" SK]
  obtain k where k: "retains q q'" "k \<le> length b"
    "at_prefix (prefix_committable base ?ms (length ?ms)) b pol (\<lambda>j. ?P (length ?ms + j)) k s'"
    "st = Advanced \<longrightarrow> k = length b"
    "st = Advanced \<or> st = Suspended None \<longrightarrow>
       out' = position_records cfg ds (positions bs) @ position_records cfg ds (take k (positions [b]))"
    "list_all (kept opts pol cfg ds q') (take k (positions [b]))"
    unfolding run x' batch_kept_def prod.case by blast
  have "at_prefix base (concat (bs @ [b])) pol ?P (length ?ms + k) s'"
    using at_prefix_rebase [THEN iffD2, OF k(3)] by simp
  moreover have "take (length ?ms + k) (positions (bs @ [b])) = positions bs @ take k (positions [b])" by simp
  ultimately show ?thesis
    using k kept_retains [OF all k(1)]
    by (intro exI [of _ "length ?ms + k"]) (auto simp: drained_def x' retains_def simp del: positions_simps)
qed

lemma drained_polls:
  assumes opts: "ro_flush opts" "\<not> ro_transactional opts" and log: "client_log K F trace polled"
  shows "\<lbrakk>drained opts pol cfg ds trace polled base c0 bs (length (concat bs)) x; out = position_records cfg ds (positions bs);
     drain_polls cfg K SK ds SO opts F fuel idle out x = Some (x', out', st)\<rbrakk> \<Longrightarrow>
     \<exists>bs' k. drained opts pol cfg ds trace polled base c0 bs' k x' \<and> (st = Advanced \<longrightarrow> k = length (concat bs')) \<and>
       (st = Advanced \<or> st = Suspended None \<longrightarrow> out' = position_records cfg ds (take k (positions bs')))"
proof (induction fuel arbitrary: bs x idle out)
  case 0
  then show ?case by simp
next
  case (Suc fuel)
  obtain s q where x: "x = (s, q)" by (cases x)
  obtain s1 f where f: "fetch cfg K F idle s = (s1, f)" by (cases "fetch cfg K F idle s")
  let ?P = "client_at trace polled base c0"
  have ok: "ok q" and all: "list_all (kept opts pol cfg ds q) (positions bs)"
    and at: "at_prefix base (concat bs) pol (?P bs) (length (concat bs)) s"
    using Suc.prems(1) by (simp_all add: drained_def x)
  obtain new where n: "at_prefix base (concat (bs @ new)) pol (?P (bs @ new)) (length (concat bs)) s1"
    "case f of FetchBatch ms \<Rightarrow> new = [ms] \<and> ms \<noteq> [] | _ \<Rightarrow> concat new = []"
    using fetch_at [OF log f at] by blast
  have still: "drained opts pol cfg ds trace polled base c0 (bs @ new) (length (concat (bs @ new))) (s1, q)"
    "positions (bs @ new) = positions bs" if "concat new = []"
  proof -
    have pos: "positions (bs @ new) = positions bs" using that by (simp add: positions_def)
    have eq: "concat (bs @ new) = concat bs" using that by (simp only: concat_append append_Nil2)
    show "positions (bs @ new) = positions bs" by (rule pos)
    show "drained opts pol cfg ds trace polled base c0 (bs @ new) (length (concat (bs @ new))) (s1, q)"
      using n(1) ok all unfolding drained_def prod.case eq pos by simp
  qed
  show ?case
  proof (cases f)
    case (FetchRaised e)
    then show ?thesis using Suc.prems(3) f x still n(2) by auto
  next
    case FetchEnded
    then have "x' = (s1, q)" "out' = out" "st = Advanced" "concat new = []" using Suc.prems(3) f x n(2) by auto
    then show ?thesis using still Suc.prems(2)
      by (intro exI [of _ "bs @ new"] exI [of _ "length (concat (bs @ new))"]) simp
  next
    case (FetchIdle m)
    then have "drain_polls cfg K SK ds SO opts F fuel m out (s1, q) = Some (x', out', st)" "concat new = []"
      using Suc.prems(3) f x n(2) by simp_all
    then show ?thesis using Suc.IH still Suc.prems(2) by metis
  next
    case (FetchBatch ms)
    then have new: "new = [ms]" "ms \<noteq> []" using n(2) by simp_all
    obtain x1 out1 st1 where b: "drain_batch cfg K SK ds SO opts ms out (s1, q) = (x1, out1, st1)" by (metis prod.collapse)
    obtain k where k: "drained opts pol cfg ds trace polled base c0 (bs @ [ms]) k x1"
      "st1 = Advanced \<longrightarrow> k = length (concat (bs @ [ms]))"
      "st1 = Advanced \<or> st1 = Suspended None \<longrightarrow> out1 = position_records cfg ds (take k (positions (bs @ [ms])))"
      using drained_another [OF opts log new(2) all ok n(1) [unfolded new(1)] b [unfolded Suc.prems(2)]] by blast
    show ?thesis
    proof (cases "st1 = Advanced")
      case True
      then have "drain_polls cfg K SK ds SO opts F fuel 0 out1 x1 = Some (x', out', st)"
        using Suc.prems(3) f x FetchBatch b by simp
      then show ?thesis using Suc.IH [of "bs @ [ms]" x1 out1 0] k True by simp
    next
      case False
      then have "x' = x1" "out' = out1" "st = st1" using Suc.prems(3) f x FetchBatch b by (cases st1; simp)+
      then show ?thesis using k False by blast
    qed
  qed
qed

lemma drained_end:
  assumes log: "client_log K F trace polled" and d: "drained opts pol cfg ds trace polled base c0 bs k x"
    and e: "drain_end cfg K records st x = (x', r)"
  shows "drained opts pol cfg ds trace polled base c0 bs k x'"
    "r = Inr out \<Longrightarrow> out = records \<and> (st = Advanced \<or> st = Suspended None)"
proof -
  obtain s q where x: "x = (s, q)" by (cases x)
  obtain s' q' where x': "x' = (s', q')" by (cases x')
  have at: "at_prefix base (concat bs) pol (client_at trace polled base c0 bs) k s" and k: "k \<le> length (concat bs)"
    using d by (simp_all add: drained_def x)
  note K = client_at_preserved [OF log, of base bs c0]
  note E = drain_end_run [OF e [unfolded x x']]
  from E show "drained opts pol cfg ds trace polled base c0 bs k x'"
    using d stream_finally_at [OF at k K] stream_end_at [OF at k K] by (auto simp: drained_def x x')
  show "out = records \<and> (st = Advanced \<or> st = Suspended None)" if "r = Inr out"
    using E that by blast
qed

text \<open>
  The whole drain, from the source as it is when the polls begin: reset and positioned, or untouched when no record is
  wanted.
\<close>

lemma drained_to:
  assumes opts: "ro_flush opts" "\<not> ro_transactional opts" and log: "client_log K F trace polled"
    and s: "source_inv s" "ok q" and begins: "begins = (if wants_more opts 0 then fst (stream_start K s) else s)"
    and c0: "src_consumer begins = Some c0" and base: "base = dict_get (committable_offsets (src_cursor begins))"
    and run: "drain_to cfg K SK ds SO opts F fuel (s, q) = Some (x', r)"
  shows "\<exists>bs k. drained opts (poison_record_policy (src_poison s)) cfg ds trace polled base c0 bs k x' \<and>
     (\<forall>records. r = Inr records \<longrightarrow> records = position_records cfg ds (take k (positions bs)) \<and>
        (k = length (concat bs) \<or> \<not> wants_more opts (length records)))"
proof -
  let ?pol = "poison_record_policy (src_poison s)"
  have "source_inv begins" "src_poison begins = src_poison s"
    using s(1) stream_start_inv [OF s(1), of K] by (simp_all add: begins)
  then have d: "drained opts ?pol cfg ds trace polled base c0 [] 0 (begins, q)"
    using c0 base s(2) by (simp add: drained_def at_prefix_def client_at_def new_commits_def)
  show ?thesis
  proof (cases "wants_more opts 0 \<and> src_consumer s \<noteq> None \<and> snd (stream_start K s) = Inr ()")
    case True
    then have b: "stream_start K s = (begins, Inr ())" by (simp add: begins prod_eq_iff)
    then obtain x1 records st where p: "drain_polls cfg K SK ds SO opts F fuel 0 [] (begins, q) = Some (x1, records, st)"
      and e: "drain_end cfg K records st x1 = (x', r)"
      using run True by (auto simp: drain_to_def)
    obtain bs k where k: "drained opts ?pol cfg ds trace polled base c0 bs k x1"
      "st = Advanced \<longrightarrow> k = length (concat bs)"
      "st = Advanced \<or> st = Suspended None \<longrightarrow> records = position_records cfg ds (take k (positions bs))"
      using drained_polls [OF opts log _ _ p, of ?pol base c0 "[]"] d by (auto simp: position_records_def List.map_filter_def)
    note E = drained_end [OF log k(1) e]
    have "st = Suspended None \<Longrightarrow> \<not> wants_more opts (length records)" using drain_polls_enough [of cfg K SK ds SO opts F fuel 0 "[]" begins q x1 records] p by simp
    then show ?thesis using E k(2,3) by blast
  next
    case False
    have none: "src_consumer s = None \<Longrightarrow> \<not> wants_more opts 0"
      using c0 stream_start_none [of s K] by (auto simp: begins)
    have "(\<exists>e. r = Inl e) \<or> r = Inr [] \<and> \<not> wants_more opts 0" "x' = (begins, q)"
      using run False none by (auto simp: drain_to_def begins split: if_splits prod.splits sum.splits)
    then show ?thesis using d
      by (intro exI [of _ "[]"] exI [of _ 0]) (auto simp: position_records_def List.map_filter_def)
  qed
qed

text \<open>The same over the client's record: what it was asked to commit and what it handed out since \<open>c0\<close>.\<close>

lemma drain_settles:
  assumes opts: "ro_flush opts" "\<not> ro_transactional opts" and log: "client_log K F trace polled"
    and s: "source_inv s" "ok q" and begins: "begins = (if wants_more opts 0 then fst (stream_start K s) else s)"
    and c0: "src_consumer begins = Some c0" and base: "base = dict_get (committable_offsets (src_cursor begins))"
    and run: "drain_to cfg K SK ds SO opts F fuel (s, q) = Some ((s', q'), r)"
  shows "\<exists>k c' new batches. src_consumer s' = Some c' \<and> trace c' = trace c0 @ new \<and> polled c' = polled c0 @ batches \<and>
      k \<le> length (concat batches) \<and>
      dict_get (committable_offsets (src_cursor s')) = prefix_committable base (concat batches) k \<and>
      (\<forall>offsets \<in> set new. \<exists>j \<le> k. commits_prefix base (concat batches) j offsets) \<and>
      list_all (kept opts (poison_record_policy (src_poison s)) cfg ds q') (take k (positions batches)) \<and>
      (\<forall>records. r = Inr records \<longrightarrow> records = position_records cfg ds (take k (positions batches)) \<and>
         (k = length (concat batches) \<or> \<not> wants_more opts (length records)))"
proof -
  let ?pol = "poison_record_policy (src_poison s)"
  obtain bs k where d: "drained opts ?pol cfg ds trace polled base c0 bs k (s', q')"
    and r: "\<forall>records. r = Inr records \<longrightarrow> records = position_records cfg ds (take k (positions bs)) \<and>
        (k = length (concat bs) \<or> \<not> wants_more opts (length records))"
    using drained_to [OF opts log s begins c0 base run] by blast
  have at: "at_prefix base (concat bs) ?pol (client_at trace polled base c0 bs) k s'"
    and kept: "k \<le> length (concat bs)" "list_all (kept opts ?pol cfg ds q') (take k (positions bs))"
    using d by (simp_all add: drained_def)
  obtain c' where c': "src_consumer s' = Some c'" "client_at trace polled base c0 bs k c'"
    "dict_get (committable_offsets (src_cursor s')) = prefix_committable base (concat bs) k"
    using at unfolding at_prefix_def by fastforce
  then obtain new where "trace c' = trace c0 @ new" "\<forall>offsets \<in> set new. \<exists>j \<le> k. commits_prefix base (concat bs) j offsets"
    "polled c' = polled c0 @ bs"
    unfolding client_at_def new_commits_def by blast
  with c' kept r show ?thesis by blast
qed

text \<open>
  A drain returns: for a client that runs dry and a source with a limit on idle polls, the fuel that suffices is a
  multiple of what the client has left.
\<close>

lemma drain_polls_return:
  assumes opts: "ro_flush opts" "\<not> ro_transactional opts" and dry: "drains_dry K F left"
    and max: "kc_max_idle_polls cfg = Some max_idle"
  shows "\<lbrakk>ok q; source_inv s; src_consumer s = Some c; left c \<le> n; n * (nat max_idle + 2) + nat (max_idle - idle) < fuel\<rbrakk> \<Longrightarrow>
     drain_polls cfg K SK ds SO opts F fuel idle out (s, q) \<noteq> None"
proof (induction fuel arbitrary: s q c n idle out)
  case 0
  then show ?case by simp
next
  case (Suc fuel)
  obtain s1 f where f: "fetch cfg K F idle s = (s1, f)" by fastforce
  note D = fetch_drains [OF dry max Suc.prems(3) f]
  have inv: "source_inv s1" using fetch_frame [of cfg K F idle s] f Suc.prems(2) by (simp add: source_inv_def)
  show ?case
  proof (cases f)
    case (FetchIdle m)
    then obtain c' where c': "src_consumer s1 = Some c'" "left c' \<le> left c" "m = idle + 1" "m < max_idle" using D by auto
    then have "n * (nat max_idle + 2) + nat (max_idle - m) < fuel" using Suc.prems(5) by linarith
    then show ?thesis using Suc.IH [of q s1 c' n m out] Suc.prems(1,4) inv c' f FetchIdle by simp
  next
    case (FetchBatch ms)
    then obtain c' where c': "ms \<noteq> []" "src_consumer s1 = Some c'" "left c' < left c" using D by auto
    then obtain n' where n': "n = Suc n'" "left c' \<le> n'" using Suc.prems(4) by (cases n) auto
    let ?base = "dict_get (committable_offsets (src_cursor s1))" and ?P = "\<lambda>_ c. left c \<le> n'"
    have K: "commits_preserve K ?base ms ?P"
      using dry unfolding commits_preserve_def drains_dry_def by (meson order_trans)
    have at: "at_prefix ?base ms (poison_record_policy (src_poison s1)) ?P 0 s1"
      using inv c' n' by (simp add: at_prefix_def)
    obtain s2 q2 out2 st where b: "drain_batch cfg K SK ds SO opts ms out (s1, q) = ((s2, q2), out2, st)" by (metis prod.collapse)
    obtain k where k: "retains q q2" "at_prefix ?base ms (poison_record_policy (src_poison s1)) ?P k s2"
      using drained_batch [OF opts K Suc.prems(1) at c'(1), of cfg ds out SK] unfolding b batch_kept_def prod.case by blast
    then obtain c2 where c2: "src_consumer s2 = Some c2" "left c2 \<le> n'" "source_inv s2" "ok q2"
      by (auto simp: at_prefix_def retains_def)
    have "n' * (nat max_idle + 2) + nat (max_idle - 0) < fuel" using Suc.prems(5) n'(1) by simp
    then have "drain_polls cfg K SK ds SO opts F fuel 0 out2 (s2, q2) \<noteq> None"
      using Suc.IH [of q2 s2 c2 n' 0 out2] c2 by simp
    then show ?thesis using f FetchBatch b by (cases st) auto
  qed (use f in auto)
qed

lemma drain_returns:
  assumes opts: "ro_flush opts" "\<not> ro_transactional opts" and dry: "drains_dry K F left"
    and max: "kc_max_idle_polls cfg = Some max_idle" and s: "source_inv s" "ok q"
    and c: "src_consumer (fst (stream_start K s)) = Some c"
    and fuel: "left c * (nat max_idle + 2) + nat max_idle < fuel"
  shows "drain_to cfg K SK ds SO opts F fuel (s, q) \<noteq> None"
proof -
  obtain s0 r where b: "stream_start K s = (s0, r)" by fastforce
  have "drain_polls cfg K SK ds SO opts F fuel 0 [] (s0, q) \<noteq> None"
    using drain_polls_return [OF opts dry max s(2), of s0 c "left c" 0 fuel] stream_start_inv(1) [OF s(1), of K] b c fuel by simp
  then show ?thesis using b by (simp add: drain_to_def del: not_None_eq split: sum.split)
qed

end

section \<open>A client for concrete runs\<close>

text \<open>It hands out the polls of a queue and keeps what it was asked to commit and what it handed out.\<close>

type_synonym queue_client = "polled list \<times> offset_map list \<times> kafka_message list list"

definition queue_consumer :: "queue_client consumer_ops" where
  "queue_consumer =
     \<lparr>co_commit = (\<lambda>offsets (queue, log, handed). ((queue, log @ [case offsets of None \<Rightarrow> [] | Some d \<Rightarrow> d], handed), Inr ())),
      co_getmany = None, co_assignment = None, co_seek = None, co_pause = None, co_resume = None,
      co_seek_to_beginning = None, co_seek_to_end = None, co_assign = None, co_stop = (\<lambda>c. (c, Inr ()))\<rparr>"

definition queue_fetch :: "queue_client fetch_ops" where
  "queue_fetch =
     \<lparr>fo_getmany = Some (\<lambda>(queue, log, handed).
        case queue of
          [] \<Rightarrow> (([], log, handed @ [[]]), Inr [])
        | b # rest \<Rightarrow> ((rest, log, handed @ [concat (map snd b)]), Inr b)),
      fo_next = (\<lambda>c. (c, Inl (RuntimeError ''no iterator'')))\<rparr>"

lemma queue_client_log: "client_log queue_consumer queue_fetch (\<lambda>c. fst (snd c)) (\<lambda>c. snd (snd c))"
  by (auto simp: client_log_def queue_consumer_def queue_fetch_def split: list.split)

lemma queue_drains_dry: "drains_dry queue_consumer queue_fetch (\<lambda>c. length (fst c))"
  by (auto simp: drains_dry_def queue_consumer_def queue_fetch_def split: list.split)

text \<open>Two polls: a good message, then a good one and one of partition 7, which cannot be deserialised.\<close>

definition sample_queue :: "polled list" where
  "sample_queue =
     [[(TopicPartition ''t'' 0, [sample_message 0 4])],
      [(TopicPartition ''t'' 1, [sample_message 1 9]), (TopicPartition ''t'' 7, [sample_message 7 2])]]"

definition sample_batches :: "kafka_message list list" where
  "sample_batches = [[sample_message 0 4], [sample_message 1 9, sample_message 7 2]]"

definition queue_source :: "(queue_client, unit) kafka_source" where
  "queue_source = sample_source FAIL_CLOSED (sample_queue, [], [])"

lemma queue_source_start:
  "source_inv queue_source" "poison_record_policy (src_poison queue_source) = FAIL_CLOSED"
  "src_consumer (fst (stream_start queue_consumer queue_source)) = Some (sample_queue, [], [])"
  "dict_get (committable_offsets (src_cursor (fst (stream_start queue_consumer queue_source)))) = Map.empty"
proof -
  show inv: "source_inv queue_source" by (simp add: queue_source_def source_inv_sample)
  show "poison_record_policy (src_poison queue_source) = FAIL_CLOSED" by code_simp
  show "src_consumer (fst (stream_start queue_consumer queue_source)) = Some (sample_queue, [], [])" by code_simp
  show "dict_get (committable_offsets (src_cursor (fst (stream_start queue_consumer queue_source)))) = Map.empty"
    by (simp add: stream_start_inv(3) [OF inv] fun_eq_iff)
qed

text \<open>Only two of the three messages can have given the offsets of partitions 0 and 1.\<close>

lemma two_of_three:
  assumes "k \<le> 3" "dict_get [(TopicPartition ''t'' 0, 4), (TopicPartition ''t'' 1, 9)] = prefix_committable Map.empty (concat sample_batches) k"
  shows "k = 2"
proof -
  have "k = 0 \<or> k = 1 \<or> k = 2 \<or> k = 3" using assms(1) by arith
  then show ?thesis
    using fun_cong [OF assms(2), of "TopicPartition ''t'' 1"] fun_cong [OF assms(2), of "TopicPartition ''t'' 7"]
    by (auto simp: sample_batches_def prefix_committable_def numeral_3_eq_3 numeral_2_eq_2 msg_pos_def sample_message_def)
qed

text \<open>
  The poll that the positioning makes when a partition of the checkpoint is not assigned drops what it gets, and the
  client goes on after it: here a checkpoint of partition 5 and a client that is assigned partition 0, whose message is
  gone before the stream begins.
\<close>

definition eager_consumer :: "queue_client consumer_ops" where
  "eager_consumer = queue_consumer\<lparr>
     co_getmany := map_option (\<lambda>getmany _ _. getmany) (fo_getmany queue_fetch),
     co_assignment := Some (\<lambda>_. [ItemTuple ''t'' 0])\<rparr>"

lemma positioning_drops_message:
  "(case stream_start eager_consumer (upd_cursor (cursor_prepare_resume [(TopicPartition ''t'' 5, 3)]) queue_source) of
      (s, r) \<Rightarrow> (src_consumer s, r)) = (Some (tl sample_queue, [], [[sample_message 0 4]]), Inr ())"
  by code_simp

end
