(* ===== verification/PG_Identifiers.thy ===== *)
theory PG_Identifiers
  imports Prelude "HOL-Library.Word"
begin

text \<open>
  SQL identifiers of the PostgreSQL plugin (\<^verbatim>\<open>postgres/sinks/_identifiers.py\<close>): validation, splitting of
  paths, quoting and unquoting, the catalog conditions built from them and the advisory-lock key.  The
  lexical rule of PostgreSQL for quoted identifiers is written as a scanner, against which quoting is proved.
\<close>

section \<open>Identifiers\<close>

datatype pg_identifier = Name string | QuotedIdentifier "string list"

abbreviation DQ :: char where "DQ \<equiv> CHR 0x22"
abbreviation DOT :: char where "DOT \<equiv> CHR 0x2E"

abbreviation invalid_identifier :: exn where
  "invalid_identifier \<equiv> ValueError ''Invalid SQL identifier''"

definition validate_raw_quoted_identifier_part :: "string \<Rightarrow> unit result" where
  "validate_raw_quoted_identifier_part part =
     (if part = [] \<or> List.member part (CHR 0x00) then Inl (ValueError ''Invalid SQL identifier part'') else Inr ())"

text \<open>The loop over the parts of \<^verbatim>\<open>QuotedIdentifier.__init__\<close> and of \<open>_identifier_parts\<close>.\<close>

fun validate_parts :: "string list \<Rightarrow> unit result" where
  "validate_parts [] = Inr ()"
| "validate_parts (p # ps) = bindR (validate_raw_quoted_identifier_part p) (\<lambda>_. validate_parts ps)"

definition quoted_identifier_init :: "string list \<Rightarrow> pg_identifier result" where
  "quoted_identifier_init parts =
     (if parts = [] then Inl (ValueError ''QuotedIdentifier requires at least one identifier part.'')
      else bindR (validate_parts parts) (\<lambda>_. Inr (QuotedIdentifier parts)))"

text \<open>\<^verbatim>\<open>part.replace('"', '""')\<close>.\<close>

definition double_quotes :: "string \<Rightarrow> string" where
  "double_quotes part = concat (map (\<lambda>c. if c = DQ then [DQ, DQ] else [c]) part)"

definition quote_raw_identifier_part :: "string \<Rightarrow> string result" where
  "quote_raw_identifier_part part =
     bindR (validate_raw_quoted_identifier_part part) (\<lambda>_. Inr (DQ # double_quotes part @ [DQ]))"

text \<open>\<^verbatim>\<open>str.split(".")\<close>.\<close>

fun split_dots :: "string \<Rightarrow> string \<Rightarrow> string list" where
  "split_dots current [] = [current]"
| "split_dots current (c # cs) = (if c = DOT then current # split_dots [] cs else split_dots (current @ [c]) cs)"

text \<open>The scanning loop of \<open>_split_identifier_path\<close>: the parts and whether a quote is still open.\<close>

fun split_path_loop :: "string list \<Rightarrow> string \<Rightarrow> bool \<Rightarrow> string \<Rightarrow> string list \<times> bool" where
  "split_path_loop parts current in_quote [] = (parts @ [current], in_quote)"
| "split_path_loop parts current in_quote (c # cs) =
     (if c = DQ then
        (if in_quote \<and> cs \<noteq> [] \<and> hd cs = DQ
         then split_path_loop parts (current @ [c, hd cs]) in_quote (tl cs)
         else split_path_loop parts (current @ [c]) (\<not> in_quote) cs)
      else if c = DOT \<and> \<not> in_quote then split_path_loop (parts @ [current]) [] in_quote cs
      else split_path_loop parts (current @ [c]) in_quote cs)"

definition split_identifier_path :: "bool \<Rightarrow> string \<Rightarrow> string list result" where
  "split_identifier_path allow_path identifier =
     (if \<not> allow_path then Inr [identifier]
      else case split_path_loop [] [] False identifier of
        (parts, in_quote) \<Rightarrow> if in_quote then Inl (ValueError ''Unterminated quoted part'') else Inr parts)"

text \<open>The loop of \<open>_unquote_identifier_part\<close> over the text between the outer quotes.\<close>

fun unquote_loop :: "string \<Rightarrow> string result" where
  "unquote_loop [] = Inr []"
| "unquote_loop (c # cs) =
     (if c \<noteq> DQ then bindR (unquote_loop cs) (\<lambda>r. Inr (c # r))
      else case cs of
        [] \<Rightarrow> Inl (ValueError ''Embedded double quotes must be escaped as two double quotes.'')
      | d # ds \<Rightarrow>
          if d = DQ then bindR (unquote_loop ds) (\<lambda>r. Inr (DQ # r))
          else Inl (ValueError ''Embedded double quotes must be escaped as two double quotes.''))"

definition unquote_identifier_part :: "string \<Rightarrow> string result" where
  "unquote_identifier_part part =
     (if \<not> (part \<noteq> [] \<and> hd part = DQ \<and> last part = DQ) \<or> length part < 2
      then Inl (ValueError ''Quoted identifier parts must start and end with a double quote.'')
      else unquote_loop (butlast (tl part)))"

definition is_ident_start :: "char \<Rightarrow> bool" where
  "is_ident_start c \<longleftrightarrow> (CHR ''A'' \<le> c \<and> c \<le> CHR ''Z'') \<or> (CHR ''a'' \<le> c \<and> c \<le> CHR ''z'') \<or> c = CHR ''_''"

text \<open>\<^verbatim>\<open>_IDENTIFIER_RE.fullmatch\<close>.\<close>

definition matches_identifier_re :: "string \<Rightarrow> bool" where
  "matches_identifier_re s \<longleftrightarrow>
     (case s of [] \<Rightarrow> False | c # cs \<Rightarrow> is_ident_start c \<and> list_all (\<lambda>d. is_ident_start d \<or> is_digit d) cs)"

text \<open>One round of the normalising loop; a quoted identifier's parts are taken as they are.\<close>

definition normalize_part :: "bool \<Rightarrow> bool \<Rightarrow> string \<Rightarrow> string result" where
  "normalize_part is_str allow_quoted part =
     (if is_str \<and> part \<noteq> [] \<and> hd part = DQ then
        (if \<not> allow_quoted then Inl (ValueError ''Quoted identifiers require allow_quoted_identifiers=True.'')
         else unquote_identifier_part part)
      else if is_str \<and> part \<noteq> [] \<and> last part = DQ then Inl invalid_identifier
      else if is_str \<and> \<not> matches_identifier_re part then
        Inl (ValueError ''Only letters, numbers, and underscores are allowed'')
      else Inr part)"

fun normalize_parts :: "bool \<Rightarrow> bool \<Rightarrow> string list \<Rightarrow> string list result" where
  "normalize_parts is_str allow_quoted [] = Inr []"
| "normalize_parts is_str allow_quoted (p # ps) =
     bindR (normalize_part is_str allow_quoted p) (\<lambda>q.
     bindR (normalize_parts is_str allow_quoted ps) (\<lambda>qs. Inr (q # qs)))"

definition raw_parts :: "bool \<Rightarrow> bool \<Rightarrow> pg_identifier \<Rightarrow> string list result" where
  "raw_parts allow_path allow_quoted ident =
     (case ident of
        QuotedIdentifier ps \<Rightarrow> Inr ps
      | Name s \<Rightarrow>
          if allow_quoted then split_identifier_path allow_path s
          else Inr (if allow_path then split_dots [] s else [s]))"

definition identifier_parts :: "bool \<Rightarrow> bool \<Rightarrow> pg_identifier \<Rightarrow> string list result" where
  "identifier_parts allow_path allow_quoted ident =
     bindR (raw_parts allow_path allow_quoted ident) (\<lambda>parts.
       if parts = [] \<or> list_ex (\<lambda>p. p = []) parts then Inl invalid_identifier
       else if allow_path \<and> 2 < length parts then
         Inl (ValueError ''Only schema.table paths are supported (max 2 parts).'')
       else if \<not> allow_path \<and> 1 < length parts then Inl invalid_identifier
       else bindR (normalize_parts (case ident of Name _ \<Rightarrow> True | _ \<Rightarrow> False) allow_quoted parts) (\<lambda>normalized.
         bindR (validate_parts normalized) (\<lambda>_. Inr normalized)))"

fun quote_parts :: "string list \<Rightarrow> string list result" where
  "quote_parts [] = Inr []"
| "quote_parts (p # ps) =
     bindR (quote_raw_identifier_part p) (\<lambda>q. bindR (quote_parts ps) (\<lambda>qs. Inr (q # qs)))"

text \<open>\<^verbatim>\<open>sep.join(parts)\<close>.\<close>

fun join :: "string \<Rightarrow> string list \<Rightarrow> string" where
  "join sep [] = []"
| "join sep [p] = p"
| "join sep (p # ps) = p @ sep @ join sep ps"

definition quote_identifier :: "bool \<Rightarrow> bool \<Rightarrow> pg_identifier \<Rightarrow> string result" where
  "quote_identifier allow_path allow_quoted ident =
     bindR (identifier_parts allow_path allow_quoted ident) (\<lambda>parts.
     bindR (quote_parts parts) (\<lambda>qs. Inr (join [DOT] qs)))"

section \<open>Types and conditions\<close>

datatype data_type = STRING | INTEGER | FLOAT | BOOLEAN | TIMESTAMP | JSON | BYTES | NULL

fun postgres_type :: "data_type \<Rightarrow> string" where
  "postgres_type STRING = ''TEXT''"
| "postgres_type INTEGER = ''BIGINT''"
| "postgres_type FLOAT = ''DOUBLE PRECISION''"
| "postgres_type BOOLEAN = ''BOOLEAN''"
| "postgres_type TIMESTAMP = ''TIMESTAMPTZ''"
| "postgres_type JSON = ''JSONB''"
| "postgres_type BYTES = ''BYTEA''"
| "postgres_type NULL = ''TEXT''"

definition table_lookup_condition :: "bool \<Rightarrow> pg_identifier \<Rightarrow> (string \<times> string list) result" where
  "table_lookup_condition allow_quoted table_name =
     bindR (identifier_parts True allow_quoted table_name) (\<lambda>parts.
       Inr (if length parts = 2 then (''table_schema = %s AND table_name = %s'', parts)
            else (''table_schema = ANY(current_schemas(false)) AND table_name = %s'', [hd parts])))"

definition table_catalog_condition :: "string \<Rightarrow> string \<Rightarrow> bool \<Rightarrow> pg_identifier \<Rightarrow> (string \<times> string list) result" where
  "table_catalog_condition namespace_alias table_alias allow_quoted table_name =
     bindR (identifier_parts True allow_quoted table_name) (\<lambda>parts.
       Inr (if length parts = 2 then (namespace_alias @ ''.nspname = %s AND '' @ table_alias @ ''.relname = %s'', parts)
            else (namespace_alias @ ''.nspname = ANY(current_schemas(false)) AND '' @ table_alias @ ''.relname = %s'',
                  [hd parts])))"

text \<open>The 8-byte BLAKE2b digest is a parameter; the mask keeps 63 bits and zero becomes one.\<close>

unbundle bit_operations_syntax

definition schema_advisory_lock_key :: "(string \<Rightarrow> 64 word) \<Rightarrow> bool \<Rightarrow> pg_identifier \<Rightarrow> int result" where
  "schema_advisory_lock_key blake2b allow_quoted table_name =
     bindR (identifier_parts True allow_quoted table_name) (\<lambda>parts.
       let key = uint (blake2b (join [CHR 0x00] parts) AND mask 63)
       in Inr (if key = 0 then 1 else key))"

section \<open>The lexical rule for quoted identifiers\<close>

text \<open>
  PostgreSQL reads a quoted identifier up to the first double quote that is not doubled; a dot after it starts
  the next part of a path.  The result is the parts read and the text after them.
\<close>

fun scan_quoted :: "string \<Rightarrow> (string \<times> string) option" where
  "scan_quoted [] = None"
| "scan_quoted (c # cs) =
     (if c \<noteq> DQ then map_option (\<lambda>(s, rest). (c # s, rest)) (scan_quoted cs)
      else case cs of
        [] \<Rightarrow> Some ([], [])
      | d # ds \<Rightarrow> if d = DQ then map_option (\<lambda>(s, rest). (DQ # s, rest)) (scan_quoted ds) else Some ([], cs))"

fun scan_path :: "nat \<Rightarrow> string \<Rightarrow> (string list \<times> string) option" where
  "scan_path 0 cs = None"
| "scan_path (Suc n) cs =
     (case cs of
        [] \<Rightarrow> None
      | c # ds \<Rightarrow>
          if c \<noteq> DQ then None
          else (case scan_quoted ds of
                  None \<Rightarrow> None
                | Some (p, rest) \<Rightarrow>
                    (case rest of
                       [] \<Rightarrow> Some ([p], [])
                     | d # rest' \<Rightarrow>
                         if d = DOT then map_option (\<lambda>(ps, r). (p # ps, r)) (scan_path n rest')
                         else Some ([p], rest))))"

lemma double_quotes_simps [simp]:
  "double_quotes [] = []"
  "double_quotes (c # cs) = (if c = DQ then DQ # DQ # double_quotes cs else c # double_quotes cs)"
  by (simp_all add: double_quotes_def)

lemma scan_double_quotes:
  "rest = [] \<or> hd rest \<noteq> DQ \<Longrightarrow> scan_quoted (double_quotes p @ DQ # rest) = Some (p, rest)"
  by (induction p) (auto split: list.split)

lemma quote_parts_ok: "quote_parts ps = Inr qs \<longleftrightarrow> validate_parts ps = Inr () \<and> qs = map (\<lambda>p. DQ # double_quotes p @ [DQ]) ps"
  by (induction ps arbitrary: qs) (auto simp: quote_raw_identifier_part_def result_simps)

lemma join_Cons: "ps \<noteq> [] \<Longrightarrow> join sep (p # ps) = p @ sep @ join sep ps"
  by (cases ps) simp_all

lemma scan_quoted_path:
  assumes "rest = [] \<or> (hd rest \<noteq> DQ \<and> hd rest \<noteq> DOT)"
  shows "\<lbrakk>ps \<noteq> []; length ps \<le> n\<rbrakk> \<Longrightarrow>
    scan_path n (join [DOT] (map (\<lambda>p. DQ # double_quotes p @ [DQ]) ps) @ rest) = Some (ps, rest)"
proof (induction ps arbitrary: n)
  case (Cons p ps)
  then obtain m where n: "n = Suc m" "length ps \<le> m" by (cases n) auto
  show ?case
  proof (cases "ps = []")
    case True
    then show ?thesis using n assms scan_double_quotes [of rest p] by (auto split: list.split)
  next
    case False
    let ?tail = "join [DOT] (map (\<lambda>p. DQ # double_quotes p @ [DQ]) ps) @ rest"
    have "scan_path m ?tail = Some (ps, rest)" using Cons.IH False n by simp
    moreover have "scan_quoted (double_quotes p @ DQ # DOT # ?tail) = Some (p, DOT # ?tail)"
      by (rule scan_double_quotes) simp
    ultimately show ?thesis using False n by (simp add: join_Cons)
  qed
qed simp

lemma validate_parts_ok:
  "validate_parts ps = Inr () \<longleftrightarrow> (\<forall>p\<in>set ps. p \<noteq> [] \<and> CHR 0x00 \<notin> set p)"
  by (induction ps) (auto simp: validate_raw_quoted_identifier_part_def result_simps)

lemma normalize_parts_length: "normalize_parts b q ps = Inr qs \<Longrightarrow> length qs = length ps"
  by (induction ps arbitrary: qs) (auto simp: result_simps)

lemma identifier_parts_ok:
  assumes "identifier_parts allow_path allow_quoted ident = Inr ps"
  shows "ps \<noteq> [] \<and> length ps \<le> (if allow_path then 2 else 1) \<and> validate_parts ps = Inr ()"
  using assms
  by (auto simp: identifier_parts_def result_simps split: if_splits dest!: normalize_parts_length)

section \<open>Reading quoted identifiers back\<close>

lemma split_loop_quoted:
  "rest = [] \<or> hd rest \<noteq> DQ \<Longrightarrow>
   split_path_loop parts cur True (double_quotes p @ DQ # rest) =
     split_path_loop parts (cur @ double_quotes p @ [DQ]) False rest"
proof (induction p arbitrary: cur)
  case Nil
  then show ?case by (cases rest) auto
qed auto

lemma split_loop_path:
  "ps \<noteq> [] \<Longrightarrow>
   split_path_loop parts [] False (join [DOT] (map (\<lambda>p. DQ # double_quotes p @ [DQ]) ps)) =
     (parts @ map (\<lambda>p. DQ # double_quotes p @ [DQ]) ps, False)"
proof (induction ps arbitrary: parts)
  case (Cons p ps)
  show ?case
  proof (cases "ps = []")
    case True
    then show ?thesis using split_loop_quoted [of "[]" parts "[DQ]" p] by simp
  next
    case False
    let ?tail = "join [DOT] (map (\<lambda>p. DQ # double_quotes p @ [DQ]) ps)"
    have "split_path_loop parts [] False (DQ # double_quotes p @ DQ # DOT # ?tail) =
        split_path_loop parts (DQ # double_quotes p @ [DQ]) False (DOT # ?tail)"
      using split_loop_quoted [of "DOT # ?tail" parts "[DQ]" p] by simp
    then show ?thesis using Cons.IH [OF False] False by (simp add: join_Cons)
  qed
qed simp

lemma unquote_double_quotes: "unquote_loop (double_quotes p) = Inr p"
  by (induction p) auto

lemma normalize_quoted_parts: "normalize_parts True True (map (\<lambda>p. DQ # double_quotes p @ [DQ]) ps) = Inr ps"
  by (induction ps) (simp_all add: normalize_part_def unquote_identifier_part_def unquote_double_quotes)

section \<open>Properties\<close>

text \<open>
  C38: an identifier cannot leave its quotes.  What \<open>_quote_identifier\<close> returns is, in front of any text that
  does not go on with a quote or a dot, read by PostgreSQL as exactly the path of the validated parts, and the
  text after it is untouched; there are one or two parts, none empty and none with a NUL.  Given back to
  \<open>_identifier_parts\<close> with quoted names allowed, it yields the same parts.
\<close>

theorem quoted_identifier_parses_back:
  assumes "quote_identifier allow_path allow_quoted ident = Inr sql" "rest = [] \<or> (hd rest \<noteq> DQ \<and> hd rest \<noteq> DOT)"
  shows "\<exists>ps. identifier_parts allow_path allow_quoted ident = Inr ps \<and> scan_path 2 (sql @ rest) = Some (ps, rest) \<and>
    length ps \<in> {1, 2} \<and> list_all (\<lambda>p. p \<noteq> [] \<and> CHR 0x00 \<notin> set p) ps \<and>
    identifier_parts True True (Name sql) = Inr ps"
proof -
  obtain ps where ps: "identifier_parts allow_path allow_quoted ident = Inr ps"
    and sql: "sql = join [DOT] (map (\<lambda>p. DQ # double_quotes p @ [DQ]) ps)"
    using assms(1) by (auto simp: quote_identifier_def result_simps quote_parts_ok)
  note ok = identifier_parts_ok [OF ps]
  have len: "length ps \<le> 2" using ok by (auto split: if_splits)
  moreover have "length ps \<noteq> 0" using ok by simp
  ultimately have "length ps = 1 \<or> length ps = 2" by arith
  then have "length ps \<in> {1, 2}" by simp
  moreover have "scan_path 2 (sql @ rest) = Some (ps, rest)"
    unfolding sql using scan_quoted_path [OF assms(2)] ok len by blast
  moreover have "split_path_loop [] [] False sql = (map (\<lambda>p. DQ # double_quotes p @ [DQ]) ps, False)"
    unfolding sql using split_loop_path [of ps "[]"] ok by simp
  then have "identifier_parts True True (Name sql) = Inr ps"
    using ok len normalize_quoted_parts [of ps]
    by (auto simp: identifier_parts_def raw_parts_def split_identifier_path_def list_ex_iff)
  ultimately show ?thesis using ps ok validate_parts_ok [of ps] by (auto simp: list_all_iff)
qed

theorem quoted_identifier_parses_back_witness:
  "\<exists>ps. identifier_parts True False (QuotedIdentifier [''sch\"ema'', ''t; DROP'']) = Inr ps \<and>
    scan_path 2 (''\"sch\"\"ema\".\"t; DROP\"'' @ '' (id)'') = Some (ps, '' (id)'')"
proof -
  have "quote_identifier True False (QuotedIdentifier [''sch\"ema'', ''t; DROP'']) = Inr ''\"sch\"\"ema\".\"t; DROP\"''"
    by code_simp
  from quoted_identifier_parses_back [OF this, of "'' (id)''"] show ?thesis by auto
qed

text \<open>
  The advisory-lock key of a table is a positive 63-bit number, so it fits PostgreSQL's signed \<^verbatim>\<open>bigint\<close>, and
  two spellings of a table with the same parts take the same lock.
\<close>

theorem advisory_lock_key_bounds:
  assumes "schema_advisory_lock_key blake2b q table = Inr key"
  shows "0 < key \<and> key < 2 ^ 63 \<and>
    (identifier_parts True q table = identifier_parts True q' table' \<longrightarrow>
       schema_advisory_lock_key blake2b q' table' = Inr key)"
proof -
  obtain ps where ps: "identifier_parts True q table = Inr ps"
      and key: "key = (let k = uint (blake2b (join [CHR 0x00] ps) AND mask 63) in if k = 0 then 1 else k)"
    using assms by (auto simp: schema_advisory_lock_key_def result_simps Let_def)
  have bound: "0 \<le> uint (w AND mask 63) \<and> uint (w AND mask 63) < 2 ^ 63" for w :: "64 word"
    using take_bit_int_less_exp [of 63 "uint w"] by (simp add: take_bit_eq_mask [symmetric] unsigned_take_bit_eq)
  have "0 < key" "key < 2 ^ 63"
    unfolding key Let_def using bound [of "blake2b (join [CHR 0x00] ps)"] by (simp_all add: order_less_le)
  moreover have "schema_advisory_lock_key blake2b q' table' = Inr key"
    if "identifier_parts True q table = identifier_parts True q' table'"
    unfolding schema_advisory_lock_key_def that [symmetric] ps key by (simp add: Let_def)
  ultimately show ?thesis by blast
qed

theorem advisory_lock_key_bounds_witness:
  "schema_advisory_lock_key (\<lambda>_. 0) True (Name ''public.\"t\"'') = Inr 1 \<and> (0 :: int) < 1 \<and>
   schema_advisory_lock_key (\<lambda>_. 0) False (QuotedIdentifier [''public'', ''t'']) = Inr 1"
proof -
  have key: "schema_advisory_lock_key (\<lambda>_. 0) True (Name ''public.\"t\"'') = Inr 1"
    and same: "identifier_parts True True (Name ''public.\"t\"'') = identifier_parts True False (QuotedIdentifier [''public'', ''t''])"
    by code_simp+
  from advisory_lock_key_bounds [OF key] same key show ?thesis by blast
qed

end
