(* ===== verification/PG_Write.thy ===== *)
theory PG_Write
  imports PG_Identifiers
begin

text \<open>
  What the PostgreSQL sink writes: the SQL of its statements (\<^verbatim>\<open>postgres/sinks/_write_plan.py\<close>), the alignment of
  rows with the target table and their division into statements
  (\<^verbatim>\<open>postgres/sinks/_write_preparation.py\<close>).  A row is a dictionary from column names; values are abstract.
\<close>

section \<open>Statements\<close>

record write_planner =
  wp_table :: pg_identifier
  wp_conflict_keys :: "pg_identifier list"
  wp_upsert :: bool
  wp_allow_quoted :: bool

fun quote_all :: "bool \<Rightarrow> pg_identifier list \<Rightarrow> string list result" where
  "quote_all q [] = Inr []"
| "quote_all q (i # is) =
     bindR (quote_identifier False q i) (\<lambda>s. bindR (quote_all q is) (\<lambda>ss. Inr (s # ss)))"

definition column_list :: "write_planner \<Rightarrow> pg_identifier list \<Rightarrow> string result" where
  "column_list p columns = bindR (quote_all (wp_allow_quoted p) columns) (\<lambda>qs. Inr (join '', '' qs))"

text \<open>\<^verbatim>\<open>column = EXCLUDED.column\<close> for the columns that are not conflict keys.\<close>

definition update_set :: "write_planner \<Rightarrow> pg_identifier list \<Rightarrow> string result" where
  "update_set p columns =
     bindR (quote_all (wp_allow_quoted p) (filter (\<lambda>c. \<not> List.member (wp_conflict_keys p) c) columns)) (\<lambda>qs.
       Inr (join '', '' (map (\<lambda>c. c @ '' = EXCLUDED.'' @ c) qs)))"

text \<open>\<^verbatim>\<open>if self.upsert and update_set\<close>: the conflict clause.\<close>

definition conflict_clause :: "write_planner \<Rightarrow> string \<Rightarrow> string \<Rightarrow> string" where
  "conflict_clause p conflict_cols upd =
     ''ON CONFLICT ('' @ conflict_cols @
     (if wp_upsert p \<and> upd \<noteq> [] then '') DO UPDATE SET '' @ upd else '') DO NOTHING'')"

definition row_placeholder :: "nat \<Rightarrow> string" where
  "row_placeholder columns = ''('' @ join '', '' (replicate columns ''%s'') @ '')''"

definition build_batch_upsert_sql :: "write_planner \<Rightarrow> pg_identifier list \<Rightarrow> nat \<Rightarrow> string result" where
  "build_batch_upsert_sql p columns row_count =
     bindR (quote_identifier True (wp_allow_quoted p) (wp_table p)) (\<lambda>quoted_table.
     bindR (column_list p columns) (\<lambda>col_list.
     let val_list = join '', '' (replicate row_count (row_placeholder (length columns))) in
     bindR (column_list p (wp_conflict_keys p)) (\<lambda>conflict_cols.
     bindR (update_set p columns) (\<lambda>upd.
       Inr (''INSERT INTO '' @ quoted_table @ '' ('' @ col_list @ '') VALUES '' @ val_list @ '' '' @
            conflict_clause p conflict_cols upd)))))"

definition build_upsert_sql :: "write_planner \<Rightarrow> pg_identifier list \<Rightarrow> string result" where
  "build_upsert_sql p columns = build_batch_upsert_sql p columns 1"

definition build_copy_sql_for_table :: "write_planner \<Rightarrow> pg_identifier \<Rightarrow> pg_identifier list \<Rightarrow> string result" where
  "build_copy_sql_for_table p table columns =
     bindR (quote_identifier (case table of Name s \<Rightarrow> List.member s DOT | QuotedIdentifier ps \<Rightarrow> 1 < length ps)
              (wp_allow_quoted p) table) (\<lambda>quoted_table.
     bindR (column_list p columns) (\<lambda>col_list.
       Inr (''COPY '' @ quoted_table @ '' ('' @ col_list @ '') FROM STDIN'')))"

definition build_copy_sql :: "write_planner \<Rightarrow> pg_identifier list \<Rightarrow> string result" where
  "build_copy_sql p columns = build_copy_sql_for_table p (wp_table p) columns"

definition build_copy_merge_sql :: "write_planner \<Rightarrow> pg_identifier list \<Rightarrow> string \<Rightarrow> string result" where
  "build_copy_merge_sql p columns staging_table =
     bindR (quote_identifier True (wp_allow_quoted p) (wp_table p)) (\<lambda>quoted_table.
     bindR (quote_identifier False False (Name staging_table)) (\<lambda>quoted_staging.
     bindR (column_list p columns) (\<lambda>col_list.
     bindR (quote_all (wp_allow_quoted p) columns) (\<lambda>qs.
     let select_list = join '', '' (map (\<lambda>c. quoted_staging @ ''.'' @ c) qs) in
     bindR (column_list p (wp_conflict_keys p)) (\<lambda>conflict_cols.
     bindR (update_set p columns) (\<lambda>upd.
       Inr (''INSERT INTO '' @ quoted_table @ '' ('' @ col_list @ '') SELECT '' @ select_list @ '' FROM '' @
            quoted_staging @ '' '' @ conflict_clause p conflict_cols upd)))))))"

definition build_create_temp_table_sql :: "write_planner \<Rightarrow> string \<Rightarrow> string result" where
  "build_create_temp_table_sql p staging_table =
     bindR (quote_identifier True (wp_allow_quoted p) (wp_table p)) (\<lambda>quoted_table.
     bindR (quote_identifier False False (Name staging_table)) (\<lambda>quoted_staging.
       Inr (''CREATE TEMP TABLE '' @ quoted_staging @ '' (LIKE '' @ quoted_table @
            '' INCLUDING DEFAULTS) ON COMMIT DROP'')))"

section \<open>Errors and counters\<close>

datatype classification = SCHEMA_DRIFT | CONSTRAINT_VIOLATION | TYPE_MISMATCH | UNKNOWN

text \<open>
  An exception of a write: a \<^verbatim>\<open>PostgresSinkWriteError\<close> with its classification and reason, or any other
  exception with the \<^verbatim>\<open>sqlstate\<close> the driver gave it.
\<close>

datatype pg_exn = WriteError classification string | OtherError "string option" exn

type_synonym 'a pg_result = "pg_exn + 'a"

record pg_counters =
  pc_schema_drift_detected :: nat
  pc_schema_drift_aligned :: nat
  pc_poison_record_count :: nat
  pc_poison_classes :: "classification \<Rightarrow> nat"

definition observe_schema_drift_detected :: "nat \<Rightarrow> pg_counters \<Rightarrow> pg_counters" where
  "observe_schema_drift_detected n c = c\<lparr>pc_schema_drift_detected := pc_schema_drift_detected c + n\<rparr>"

definition observe_schema_drift_aligned :: "nat \<Rightarrow> pg_counters \<Rightarrow> pg_counters" where
  "observe_schema_drift_aligned n c = c\<lparr>pc_schema_drift_aligned := pc_schema_drift_aligned c + n\<rparr>"

definition pg_observe_poison_record :: "classification \<Rightarrow> pg_counters \<Rightarrow> pg_counters" where
  "pg_observe_poison_record k c =
     c\<lparr>pc_poison_record_count := Suc (pc_poison_record_count c),
       pc_poison_classes := (pc_poison_classes c)(k := Suc (pc_poison_classes c k))\<rparr>"

text \<open>\<open>make_write_error\<close>: the error is counted when it is made.\<close>

definition make_write_error :: "classification \<Rightarrow> string \<Rightarrow> pg_counters \<Rightarrow> pg_counters \<times> pg_exn" where
  "make_write_error k reason c = (pg_observe_poison_record k c, WriteError k reason)"

section \<open>Alignment\<close>

record target_column =
  tc_name :: string
  tc_nullable :: bool
  tc_has_default :: bool
  tc_writable :: bool

type_synonym 'v row = "(string, 'v) dict"

record 'v prepared_batch =
  pb_columns :: "string list"
  pb_rows :: "'v row list"
  pb_row_indexes :: "nat list"

text \<open>\<^verbatim>\<open>key in target_by_name and target_by_name[key].writable\<close>; of columns with one name the last counts.\<close>

definition is_writable :: "target_column list \<Rightarrow> string \<Rightarrow> bool" where
  "is_writable cols k =
     (case dict_get (rev (map (\<lambda>c. (tc_name c, c)) cols)) k of None \<Rightarrow> False | Some c \<Rightarrow> tc_writable c)"

text \<open>A conflict key that is a \<^verbatim>\<open>QuotedIdentifier\<close> is never a key of a row.\<close>

definition key_in_row :: "pg_identifier \<Rightarrow> 'v row \<Rightarrow> bool" where
  "key_in_row k row = (case k of Name s \<Rightarrow> dict_get row s \<noteq> None | QuotedIdentifier _ \<Rightarrow> False)"

definition normalize_row_to_target ::
    "pg_identifier list \<Rightarrow> 'v row \<Rightarrow> target_column list \<Rightarrow> pg_counters \<Rightarrow> pg_counters \<times> 'v row pg_result" where
  "normalize_row_to_target conflict_keys row cols c =
     (let unknown_columns = filter (\<lambda>k. \<not> is_writable cols k) (dict_keys row);
          c1 = (if unknown_columns \<noteq> []
                then observe_schema_drift_aligned (length unknown_columns) (observe_schema_drift_detected 1 c) else c);
          normalized = filter (\<lambda>e. is_writable cols (fst e)) row
      in if list_ex (\<lambda>k. \<not> key_in_row k normalized) conflict_keys
         then (case make_write_error SCHEMA_DRIFT ''missing_conflict_keys'' c1 of (c2, e) \<Rightarrow> (c2, Inl e))
         else if list_ex (\<lambda>col. tc_writable col \<and> dict_get normalized (tc_name col) = None \<and>
                            \<not> tc_nullable col \<and> \<not> tc_has_default col) cols
         then (case make_write_error SCHEMA_DRIFT ''missing_required_columns'' (observe_schema_drift_detected 1 c1) of
                 (c2, e) \<Rightarrow> (c2, Inl e))
         else if normalized = []
         then (case make_write_error SCHEMA_DRIFT ''no_writable_columns'' c1 of (c2, e) \<Rightarrow> (c2, Inl e))
         else (c1, Inr normalized))"

text \<open>The loop of \<open>align_rows_to_target\<close>: groups by column list, in order of first appearance.\<close>

type_synonym 'v groups = "(string list, (nat \<times> 'v row) list) dict"

definition add_to_group :: "string list \<Rightarrow> nat \<times> 'v row \<Rightarrow> 'v groups \<Rightarrow> 'v groups" where
  "add_to_group columns e g = dict_set columns (dict_getd g columns [] @ [e]) g"

fun align_loop ::
    "pg_identifier list \<Rightarrow> target_column list \<Rightarrow> nat \<Rightarrow> 'v row list \<Rightarrow> 'v groups \<Rightarrow> pg_counters
     \<Rightarrow> pg_counters \<times> 'v groups pg_result" where
  "align_loop keys cols index [] g c = (c, Inr g)"
| "align_loop keys cols index (row # rows) g c =
     (case normalize_row_to_target keys row cols c of
        (c1, Inl e) \<Rightarrow> (c1, Inl e)
      | (c1, Inr normalized) \<Rightarrow>
          let ordered_columns = filter (\<lambda>n. dict_get normalized n \<noteq> None) (map tc_name (filter tc_writable cols))
          in align_loop keys cols (Suc index) rows (add_to_group ordered_columns (index, normalized) g) c1)"

definition batch_of :: "string list \<times> (nat \<times> 'v row) list \<Rightarrow> 'v prepared_batch" where
  "batch_of g = \<lparr>pb_columns = fst g, pb_rows = map snd (snd g), pb_row_indexes = map fst (snd g)\<rparr>"

definition align_rows_to_target ::
    "pg_identifier list \<Rightarrow> 'v row list \<Rightarrow> target_column list \<Rightarrow> pg_counters
     \<Rightarrow> pg_counters \<times> 'v prepared_batch list pg_result" where
  "align_rows_to_target keys rows cols c =
     (case align_loop keys cols 0 rows [] c of
        (c1, Inl e) \<Rightarrow> (c1, Inl e)
      | (c1, Inr g) \<Rightarrow> (c1, Inr (map batch_of g)))"

section \<open>Statement limits\<close>

record write_limits =
  wl_max_rows_per_statement :: "int option"
  wl_max_parameters_per_statement :: int

definition statement_row_limit :: "write_limits \<Rightarrow> int \<Rightarrow> int" where
  "statement_row_limit L column_count =
     (if column_count \<le> 0 then 1
      else let by_params = max 1 (wl_max_parameters_per_statement L div column_count) in
           case wl_max_rows_per_statement L of
             None \<Rightarrow> by_params
           | Some n \<Rightarrow> max 1 (min n by_params))"

text \<open>\<^verbatim>\<open>rows[start : start + chunk_size] for start in range(0, len(rows), chunk_size)\<close>.\<close>

function chunks :: "nat \<Rightarrow> 'a list \<Rightarrow> 'a list list" where
  "chunks n xs = (if xs = [] then [] else take (Suc (n - 1)) xs # chunks n (drop (Suc (n - 1)) xs))"
  by auto
termination by (relation "measure (\<lambda>(_, xs). length xs)") auto

declare chunks.simps [simp del]

definition iter_sql_chunks :: "write_limits \<Rightarrow> 'v row list \<Rightarrow> string list \<Rightarrow> 'v row list list" where
  "iter_sql_chunks L rows columns = chunks (nat (statement_row_limit L (int (length columns)))) rows"

text \<open>The values of a row in the order of the columns; the column sets have to agree.\<close>

fun flatten_rows :: "'v row list \<Rightarrow> string list \<Rightarrow> 'v list result" where
  "flatten_rows [] columns = Inr []"
| "flatten_rows (row # rows) columns =
     (if set (dict_keys row) \<noteq> set columns
      then Inl (ValueError ''PostgresSink rows in the same batch must have identical column sets.'')
      else bindR (flatten_rows rows columns) (\<lambda>ps. Inr (map (\<lambda>c. the (dict_get row c)) columns @ ps)))"

section \<open>Placeholders\<close>

text \<open>
  The placeholders of a statement in the format style of the driver: \<^verbatim>\<open>%s\<close> is one, \<^verbatim>\<open>%%\<close> a percent sign, any
  other use of the percent sign is refused.
\<close>

fun placeholders :: "string \<Rightarrow> nat option" where
  "placeholders [] = Some 0"
| "placeholders (c # cs) =
     (if c \<noteq> CHR ''%'' then placeholders cs
      else case cs of
        [] \<Rightarrow> None
      | d # ds \<Rightarrow>
          if d = CHR ''s'' then map_option Suc (placeholders ds)
          else if d = CHR ''%'' then placeholders ds else None)"

definition no_percent :: "bool \<Rightarrow> pg_identifier \<Rightarrow> bool" where
  "no_percent q i \<longleftrightarrow> (\<forall>b s. quote_identifier b q i = Inr s \<longrightarrow> CHR ''%'' \<notin> set s)"

text \<open>A row reduced to the target, the columns it is written with, and the invariant of the grouping loop.\<close>

definition kept :: "target_column list \<Rightarrow> 'v row \<Rightarrow> 'v row" where
  "kept cols row = filter (\<lambda>e. is_writable cols (fst e)) row"

definition columns_of :: "target_column list \<Rightarrow> 'v row \<Rightarrow> string list" where
  "columns_of cols row = filter (\<lambda>n. dict_get row n \<noteq> None) (map tc_name (filter tc_writable cols))"

definition groups_inv :: "target_column list \<Rightarrow> 'v row list \<Rightarrow> nat \<Rightarrow> 'v groups \<Rightarrow> bool" where
  "groups_inv cols rows n g \<longleftrightarrow>
     dict_wf g \<and>
     (\<forall>k es. dict_get g k = Some es \<longrightarrow> es \<noteq> [] \<and> sorted_wrt (<) (map fst es) \<and>
        (\<forall>j r. (j, r) \<in> set es \<longrightarrow> j < n \<and> r = kept cols (rows ! j) \<and> k = columns_of cols r)) \<and>
     (\<forall>j<n. \<exists>es. dict_get g (columns_of cols (kept cols (rows ! j))) = Some es \<and> (j, kept cols (rows ! j)) \<in> set es)"

lemma placeholders_plain: "CHR ''%'' \<notin> set a \<Longrightarrow> placeholders (a @ b) = placeholders b"
  by (induction a) auto

lemma join_not_in: "\<lbrakk>x \<notin> set sep; \<forall>p\<in>set ps. x \<notin> set p\<rbrakk> \<Longrightarrow> x \<notin> set (join sep ps)"
  by (induction sep ps rule: join.induct) auto

lemma placeholders_join:
  assumes "CHR ''%'' \<notin> set sep" "\<And>rest. placeholders (p @ rest) = map_option ((+) k) (placeholders rest)"
  shows "placeholders (join sep (replicate n p) @ rest) = map_option ((+) (n * k)) (placeholders rest)"
proof (induction n)
  case 0
  then show ?case by (simp add: option.map_ident)
next
  case (Suc n)
  show ?case
  proof (cases n)
    case 0
    then show ?thesis using assms(2) by simp
  next
    case (Suc m)
    then have "join sep (replicate (Suc n) p) = p @ sep @ join sep (replicate n p)" by simp
    then show ?thesis
      using Suc.IH assms(2) [of "sep @ join sep (replicate n p) @ rest"] placeholders_plain [OF assms(1)]
      by (simp add: option.map_comp o_def add.assoc)
  qed
qed

lemma placeholders_row:
  "placeholders (row_placeholder n @ rest) = map_option ((+) n) (placeholders rest)"
proof -
  have "placeholders (''%s'' @ rest) = map_option ((+) 1) (placeholders rest)" for rest
    by (cases "placeholders rest") simp_all
  from placeholders_join [OF _ this, of "'', ''" n "'')'' @ rest"] show ?thesis
    by (simp add: row_placeholder_def)
qed

lemma quote_all_no_percent:
  "\<lbrakk>quote_all q is = Inr qs; \<forall>i\<in>set is. no_percent q i\<rbrakk> \<Longrightarrow> \<forall>s\<in>set qs. CHR ''%'' \<notin> set s"
  by (induction "is" arbitrary: qs) (auto simp: result_simps no_percent_def)

lemma column_list_no_percent:
  assumes "column_list p is = Inr s" "\<forall>i\<in>set is. no_percent (wp_allow_quoted p) i"
  shows "CHR ''%'' \<notin> set s"
proof -
  obtain qs where "quote_all (wp_allow_quoted p) is = Inr qs" "s = join '', '' qs"
    using assms(1) by (auto simp: column_list_def result_simps)
  with quote_all_no_percent [OF this(1) assms(2)] show ?thesis by (simp add: join_not_in)
qed

lemma update_set_no_percent:
  assumes "update_set p is = Inr s" "\<forall>i\<in>set is. no_percent (wp_allow_quoted p) i"
  shows "CHR ''%'' \<notin> set s"
proof -
  obtain qs where qs: "quote_all (wp_allow_quoted p) (filter (\<lambda>c. \<not> List.member (wp_conflict_keys p) c) is) = Inr qs"
      "s = join '', '' (map (\<lambda>c. c @ '' = EXCLUDED.'' @ c) qs)"
    using assms(1) by (auto simp: update_set_def result_simps)
  have "\<forall>s\<in>set qs. CHR ''%'' \<notin> set s" by (rule quote_all_no_percent [OF qs(1)]) (use assms(2) in auto)
  then show ?thesis unfolding qs(2) by (intro join_not_in) auto
qed

lemma upsert_placeholders:
  assumes sql: "build_batch_upsert_sql p columns n = Inr sql"
    and free: "no_percent (wp_allow_quoted p) (wp_table p)" "\<forall>i\<in>set (columns @ wp_conflict_keys p). no_percent (wp_allow_quoted p) i"
  shows "placeholders sql = Some (n * length columns)"
proof -
  obtain t cols keys upd where parts: "quote_identifier True (wp_allow_quoted p) (wp_table p) = Inr t"
      "column_list p columns = Inr cols" "column_list p (wp_conflict_keys p) = Inr keys" "update_set p columns = Inr upd"
      and s: "sql = ''INSERT INTO '' @ t @ '' ('' @ cols @ '') VALUES '' @
        join '', '' (replicate n (row_placeholder (length columns))) @ '' '' @ conflict_clause p keys upd"
    using sql by (auto simp: build_batch_upsert_sql_def result_simps Let_def)
  have "CHR ''%'' \<notin> set t" using parts(1) free(1) by (auto simp: no_percent_def)
  moreover have "CHR ''%'' \<notin> set cols" "CHR ''%'' \<notin> set keys" "CHR ''%'' \<notin> set upd"
    using column_list_no_percent [OF parts(2)] column_list_no_percent [OF parts(3)] update_set_no_percent [OF parts(4)] free(2)
    by auto
  ultimately have head: "CHR ''%'' \<notin> set (''INSERT INTO '' @ t @ '' ('' @ cols @ '') VALUES '')"
      and tail: "CHR ''%'' \<notin> set ('' '' @ conflict_clause p keys upd)"
    by (auto simp: conflict_clause_def)
  have "placeholders sql = placeholders (join '', '' (replicate n (row_placeholder (length columns))) @ '' '' @ conflict_clause p keys upd)"
    unfolding s using placeholders_plain [OF head] by simp
  also have "\<dots> = map_option ((+) (n * length columns)) (placeholders ('' '' @ conflict_clause p keys upd))"
    by (rule placeholders_join) (simp_all add: placeholders_row)
  also have "placeholders ('' '' @ conflict_clause p keys upd) = Some 0"
    using placeholders_plain [OF tail, of "[]"] by simp
  finally show ?thesis by simp
qed

lemma identifier_char_not_percent: "is_ident_start c \<or> is_digit c \<Longrightarrow> c \<noteq> CHR ''%''"
  by (auto simp: is_ident_start_def is_digit_def less_eq_char_def)

lemma no_percentI: "\<lbrakk>quote_identifier True q i = Inr r; quote_identifier False q i = Inr r; CHR ''%'' \<notin> set r\<rbrakk> \<Longrightarrow> no_percent q i"
  unfolding no_percent_def by (metis (full_types) sum.inject(2))

text \<open>A plain name never has a percent sign.\<close>

lemma name_no_percent: "no_percent False (Name s)"
proof -
  have "normalize_parts True False ps = Inr qs \<Longrightarrow> \<forall>q\<in>set qs. CHR ''%'' \<notin> set q" for ps qs
  proof (induction ps arbitrary: qs)
    case (Cons p ps)
    have "CHR ''%'' \<notin> set p" if "normalize_part True False p = Inr r" for r
      using that identifier_char_not_percent [of "CHR ''%''"]
      by (auto simp: normalize_part_def matches_identifier_re_def list_all_iff split: if_splits list.splits)
    with Cons show ?case by (auto simp: result_simps normalize_part_def split: if_splits)
  qed simp
  moreover have "CHR ''%'' \<in> set (double_quotes p) \<Longrightarrow> CHR ''%'' \<in> set p" for p
    by (auto simp: double_quotes_def split: if_splits)
  ultimately have "CHR ''%'' \<notin> set sql" if "quote_identifier b False (Name s) = Inr sql" for b sql
  proof -
    from that obtain ps qs where "normalize_parts True False ps = Inr qs"
        "sql = join [DOT] (map (\<lambda>p. DQ # double_quotes p @ [DQ]) qs)"
      by (auto simp: quote_identifier_def identifier_parts_def result_simps quote_parts_ok split: if_splits)
    with \<open>\<And>ps qs. normalize_parts True False ps = Inr qs \<Longrightarrow> _\<close> \<open>\<And>p. CHR ''%'' \<in> set (double_quotes p) \<Longrightarrow> _\<close>
    have "\<forall>p\<in>set (map (\<lambda>p. DQ # double_quotes p @ [DQ]) qs). CHR ''%'' \<notin> set p" by auto
    then show ?thesis unfolding \<open>sql = _\<close> by (intro join_not_in) simp_all
  qed
  then show ?thesis by (simp add: no_percent_def)
qed

section \<open>Chunks\<close>

lemma chunks_facts:
  "concat (chunks n xs) = xs \<and> (\<forall>c\<in>set (chunks n xs). c \<noteq> [] \<and> length c \<le> max 1 n)"
proof (induction n xs rule: chunks.induct)
  case (1 n xs)
  show ?case
  proof (cases "xs = []")
    case False
    then have "chunks n xs = take (Suc (n - 1)) xs # chunks n (drop (Suc (n - 1)) xs)" by (subst chunks.simps) simp
    with 1 [OF False] False show ?thesis by (auto simp: append_take_drop_id)
  qed (simp add: chunks.simps)
qed

lemma flatten_rows_length: "flatten_rows rows columns = Inr ps \<Longrightarrow> length ps = length rows * length columns"
  by (induction rows arbitrary: ps) (auto simp: result_simps split: if_splits)

lemma statement_row_limit_bounds:
  assumes "0 < n" "n \<le> wl_max_parameters_per_statement L" "case wl_max_rows_per_statement L of None \<Rightarrow> True | Some m \<Rightarrow> 1 \<le> m"
  shows "1 \<le> statement_row_limit L n" "statement_row_limit L n * n \<le> wl_max_parameters_per_statement L"
    "case wl_max_rows_per_statement L of None \<Rightarrow> True | Some m \<Rightarrow> statement_row_limit L n \<le> m"
proof -
  let ?P = "wl_max_parameters_per_statement L"
  have one: "1 \<le> ?P div n" using zdiv_mono1 [OF assms(2,1)] assms(1) by simp
  have "statement_row_limit L n \<le> ?P div n"
    using assms one by (auto simp: statement_row_limit_def Let_def split: option.split)
  then have "statement_row_limit L n * n \<le> ?P div n * n" using assms(1) by (simp add: mult_right_mono)
  also have "\<dots> \<le> ?P" using assms(1) by (simp add: minus_mod_eq_div_mult [symmetric])
  finally show "statement_row_limit L n * n \<le> ?P" .
  show "1 \<le> statement_row_limit L n" "case wl_max_rows_per_statement L of None \<Rightarrow> True | Some m \<Rightarrow> statement_row_limit L n \<le> m"
    using assms one by (auto simp: statement_row_limit_def Let_def split: option.split)
qed

section \<open>Groups\<close>

lemma groups_inv_add:
  assumes "groups_inv cols rows n g" "r = kept cols (rows ! n)"
  shows "groups_inv cols rows (Suc n) (add_to_group (columns_of cols r) (n, r) g)"
proof -
  let ?k = "columns_of cols r"
  let ?old = "dict_getd g ?k []"
  have old: "sorted_wrt (<) (map fst ?old) \<and> (\<forall>j r'. (j, r') \<in> set ?old \<longrightarrow> j < n \<and> r' = kept cols (rows ! j) \<and> ?k = columns_of cols r')"
    using assms(1) by (cases "dict_get g ?k") (auto simp: groups_inv_def dict_getd_def)
  have get: "dict_get (add_to_group ?k (n, r) g) k = (if k = ?k then Some (?old @ [(n, r)]) else dict_get g k)" for k
    by (simp add: add_to_group_def)
  have new: "sorted_wrt (<) (map fst (?old @ [(n, r)]))"
    using old by (auto simp: sorted_wrt_append)
  have cover: "\<exists>es. dict_get (add_to_group ?k (n, r) g) (columns_of cols (kept cols (rows ! j))) = Some es \<and> (j, kept cols (rows ! j)) \<in> set es"
    if "j < Suc n" for j
  proof (cases "j = n")
    case True
    then show ?thesis using assms(2) get by auto
  next
    case False
    then have "j < n" using \<open>j < Suc n\<close> by simp
    then obtain es where "dict_get g (columns_of cols (kept cols (rows ! j))) = Some es" "(j, kept cols (rows ! j)) \<in> set es"
      using assms(1) unfolding groups_inv_def by blast
    then show ?thesis using get by (auto simp: dict_getd_def)
  qed
  have "dict_wf (add_to_group ?k (n, r) g)" using assms(1) by (simp add: groups_inv_def add_to_group_def)
  moreover have "es \<noteq> [] \<and> sorted_wrt (<) (map fst es) \<and>
      (\<forall>j r'. (j, r') \<in> set es \<longrightarrow> j < Suc n \<and> r' = kept cols (rows ! j) \<and> k = columns_of cols r')"
    if "dict_get (add_to_group ?k (n, r) g) k = Some es" for k es
  proof (cases "k = ?k")
    case True
    then have "es = ?old @ [(n, r)]" using that get by simp
    moreover have "j < Suc n \<and> r' = kept cols (rows ! j) \<and> ?k = columns_of cols r'" if "(j, r') \<in> set (?old @ [(n, r)])" for j r'
    proof (cases "(j, r') \<in> set ?old")
      case True
      then show ?thesis using old less_SucI by blast
    next
      case False
      then have "j = n" "r' = r" using that by auto
      then show ?thesis using assms(2) by blast
    qed
    ultimately show ?thesis using True new by blast
  next
    case False
    then have "dict_get g k = Some es" using that get by simp
    with assms(1) have "es \<noteq> []" "sorted_wrt (<) (map fst es)"
        "\<forall>j r'. (j, r') \<in> set es \<longrightarrow> j < n \<and> r' = kept cols (rows ! j) \<and> k = columns_of cols r'"
      unfolding groups_inv_def by blast+
    then show ?thesis using less_SucI by blast
  qed
  ultimately show ?thesis using cover unfolding groups_inv_def by blast
qed

lemma normalize_row_kept: "normalize_row_to_target keys row cols c = (c', Inr r) \<Longrightarrow> r = kept cols row"
  by (auto simp: normalize_row_to_target_def make_write_error_def kept_def Let_def split: if_splits)

lemma align_loop_inv:
  "\<lbrakk>align_loop keys cols n rest g c = (c', Inr g'); groups_inv cols rows n g; rest = drop n rows\<rbrakk> \<Longrightarrow>
   groups_inv cols rows (n + length rest) g'"
proof (induction rest arbitrary: n g c)
  case (Cons row rest)
  then have row: "row = rows ! n" and rest: "rest = drop (Suc n) rows"
    by (metis nth_via_drop, metis drop_Suc list.sel(3) tl_drop)
  from Cons.prems(1) obtain c1 r where r: "normalize_row_to_target keys row cols c = (c1, Inr r)"
      and step: "align_loop keys cols (Suc n) rest (add_to_group (columns_of cols r) (n, r) g) c1 = (c', Inr g')"
    by (auto simp: columns_of_def Let_def split: prod.splits sum.splits)
  have "groups_inv cols rows (Suc n) (add_to_group (columns_of cols r) (n, r) g)"
    using groups_inv_add [OF Cons.prems(2)] normalize_row_kept [OF r] row by simp
  from Cons.IH [OF step this rest] show ?case by simp
qed simp

lemma kept_columns: "set (dict_keys (kept cols row)) = set (columns_of cols (kept cols row))"
proof -
  have "is_writable cols k \<Longrightarrow> k \<in> tc_name ` {c \<in> set cols. tc_writable c}" for k
    by (auto simp: is_writable_def split: option.splits dest!: map_of_SomeD)
  moreover have "dict_get (kept cols row) k \<noteq> None \<longleftrightarrow> k \<in> set (dict_keys (kept cols row))" for k
    by (metis dict_get_None_iff)
  ultimately show ?thesis by (auto simp: columns_of_def kept_def)
qed

lemma flatten_rows_ok: "\<forall>r\<in>set rows. set (dict_keys r) = set columns \<Longrightarrow> \<exists>ps. flatten_rows rows columns = Inr ps"
  by (induction rows) auto

section \<open>Properties\<close>

text \<open>
  Aligning rows with the target table divides them into batches without loss or repetition.  Every row is in
  exactly one batch, reduced to the writable columns of the target, in the order of the input within its batch;
  no two batches have the same columns, and every batch can be flattened to parameters, its rows having exactly
  its columns.
\<close>

lemma aligned_batches_partition_rows:
  assumes "align_rows_to_target keys rows cols c = (c', Inr bs)"
  shows "distinct (map pb_columns bs) \<and>
    (\<forall>b\<in>set bs. pb_rows b = map (\<lambda>i. filter (\<lambda>e. is_writable cols (fst e)) (rows ! i)) (pb_row_indexes b) \<and>
       sorted_wrt (<) (pb_row_indexes b) \<and> pb_rows b \<noteq> [] \<and> (\<exists>ps. flatten_rows (pb_rows b) (pb_columns b) = Inr ps)) \<and>
    (\<forall>i. i < length rows \<longleftrightarrow> (\<exists>!b. b \<in> set bs \<and> i \<in> set (pb_row_indexes b)))"
proof -
  obtain g where loop: "align_loop keys cols 0 rows [] c = (c', Inr g)" and bs: "bs = map batch_of g"
    using assms by (auto simp: align_rows_to_target_def split: prod.splits sum.splits)
  have inv: "groups_inv cols rows (length rows) g"
    using align_loop_inv [OF loop, of rows] by (simp add: groups_inv_def)
  then have wf: "dict_wf g" by (simp add: groups_inv_def)
  have mem: "(k, es) \<in> set g \<longleftrightarrow> dict_get g k = Some es" for k es using dict_get_in_iff [OF wf] by blast
  have entry: "es \<noteq> [] \<and> sorted_wrt (<) (map fst es) \<and>
      (\<forall>j r. (j, r) \<in> set es \<longrightarrow> j < length rows \<and> r = kept cols (rows ! j) \<and> k = columns_of cols r)"
    if "(k, es) \<in> set g" for k es
    using inv that unfolding groups_inv_def mem by blast
  have batch: "pb_rows b = map (\<lambda>i. filter (\<lambda>e. is_writable cols (fst e)) (rows ! i)) (pb_row_indexes b) \<and>
       sorted_wrt (<) (pb_row_indexes b) \<and> pb_rows b \<noteq> [] \<and> (\<exists>ps. flatten_rows (pb_rows b) (pb_columns b) = Inr ps)"
    if "b \<in> set bs" for b
  proof -
    from that bs obtain e where "b = batch_of e" "e \<in> set g" by auto
    then obtain k es where b: "b = batch_of (k, es)" and kes: "(k, es) \<in> set g" by (cases e) blast
    note E = entry [OF kes]
    have "map snd es = map (\<lambda>e. kept cols (rows ! fst e)) es" using E by (auto intro!: map_cong)
    moreover have "\<exists>ps. flatten_rows (map snd es) k = Inr ps"
    proof (rule flatten_rows_ok, rule ballI)
      fix r assume "r \<in> set (map snd es)"
      then obtain j where "(j, r) \<in> set es" by auto
      then have "r = kept cols (rows ! j) \<and> k = columns_of cols r" using E by blast
      then show "set (dict_keys r) = set k" using kept_columns by metis
    qed
    ultimately show ?thesis using E b by (simp add: batch_of_def kept_def o_def)
  qed
  have unique: "(\<exists>!b. b \<in> set bs \<and> i \<in> set (pb_row_indexes b)) \<longleftrightarrow> i < length rows" for i
  proof
    assume "\<exists>!b. b \<in> set bs \<and> i \<in> set (pb_row_indexes b)"
    then obtain k es r where "(k, es) \<in> set g" "(i, r) \<in> set es" using bs by (auto simp: batch_of_def)
    then show "i < length rows" using entry by blast
  next
    assume i: "i < length rows"
    let ?k = "columns_of cols (kept cols (rows ! i))"
    obtain es where es: "(?k, es) \<in> set g" "(i, kept cols (rows ! i)) \<in> set es"
      using inv i unfolding groups_inv_def mem by blast
    show "\<exists>!b. b \<in> set bs \<and> i \<in> set (pb_row_indexes b)"
    proof (rule ex1I [of _ "batch_of (?k, es)"])
      show "batch_of (?k, es) \<in> set bs \<and> i \<in> set (pb_row_indexes (batch_of (?k, es)))"
        using es bs by (force simp: batch_of_def)
    next
      fix b assume "b \<in> set bs \<and> i \<in> set (pb_row_indexes b)"
      then obtain k' es' r where b: "b = batch_of (k', es')" "(k', es') \<in> set g" "(i, r) \<in> set es'"
        using bs by (auto simp: batch_of_def)
      then have "k' = ?k" using entry by blast
      then have "es' = es" using b(2) es(1) mem by simp
      then show "b = batch_of (?k, es)" using b \<open>k' = ?k\<close> by simp
    qed
  qed
  have "distinct (map pb_columns bs)" using wf bs by (simp add: dict_wf_def batch_of_def o_def)
  then show ?thesis using batch unique by blast
qed

lemma sql_chunk_facts:
  assumes "chunk \<in> set (iter_sql_chunks L rows columns)" "columns \<noteq> []"
    "int (length columns) \<le> wl_max_parameters_per_statement L"
    "case wl_max_rows_per_statement L of None \<Rightarrow> True | Some m \<Rightarrow> 1 \<le> m"
  shows "chunk \<noteq> []" "int (length chunk * length columns) \<le> wl_max_parameters_per_statement L"
    "case wl_max_rows_per_statement L of None \<Rightarrow> True | Some m \<Rightarrow> int (length chunk) \<le> m"
proof -
  let ?l = "statement_row_limit L (int (length columns))"
  have pos: "0 < int (length columns)" using assms(2) by simp
  note B = statement_row_limit_bounds [OF pos assms(3,4)]
  have chunk: "chunk \<noteq> [] \<and> length chunk \<le> max 1 (nat ?l)"
    using assms(1) chunks_facts unfolding iter_sql_chunks_def by blast
  then have len: "int (length chunk) \<le> ?l" using B(1) by linarith
  show "chunk \<noteq> []" using chunk by blast
  have "int (length chunk) * int (length columns) \<le> ?l * int (length columns)"
    using len by (simp add: mult_right_mono)
  then show "int (length chunk * length columns) \<le> wl_max_parameters_per_statement L" using B(2) by simp
  show "case wl_max_rows_per_statement L of None \<Rightarrow> True | Some m \<Rightarrow> int (length chunk) \<le> m"
    using B(3) len by (auto split: option.splits)
qed

text \<open>The \<open>j\<close>-th column of the \<open>i\<close>-th row is the parameter \<open>i * n + j\<close> of a statement over \<open>n\<close> columns.\<close>

lemma flatten_rows_nth:
  "\<lbrakk>flatten_rows rows columns = Inr ps; i < length rows; j < length columns\<rbrakk> \<Longrightarrow>
   dict_get (rows ! i) (columns ! j) = Some (ps ! (i * length columns + j))"
proof (induction rows arbitrary: ps i)
  case (Cons row rows)
  obtain qs where qs: "set (dict_keys row) = set columns" "flatten_rows rows columns = Inr qs"
    "ps = map (\<lambda>c. the (dict_get row c)) columns @ qs"
    using Cons.prems(1) by (auto simp: result_simps split: if_splits)
  show ?case
  proof (cases i)
    case 0
    have "columns ! j \<in> set (dict_keys row)" using qs(1) Cons.prems(3) by simp
    then have "dict_get row (columns ! j) \<noteq> None" by (simp add: dict_get_None_iff)
    then show ?thesis using 0 qs(3) Cons.prems(3) by (auto simp: nth_append)
  next
    case (Suc m)
    then show ?thesis using Cons.IH [OF qs(2), of m] Cons.prems(2,3) qs(3) by (simp add: nth_append)
  qed
qed simp

lemma quote_all_each: "quote_all q is = Inr qs \<Longrightarrow> map (quote_identifier False q) is = map Inr qs"
  by (induction "is" arbitrary: qs) (auto simp: result_simps)

lemma upsert_head:
  assumes "build_batch_upsert_sql p columns n = Inr sql"
  shows "\<exists>t qs rest. quote_identifier True (wp_allow_quoted p) (wp_table p) = Inr t \<and>
     map (quote_identifier False (wp_allow_quoted p)) columns = map Inr qs \<and>
     sql = ''INSERT INTO '' @ t @ '' ('' @ join '', '' qs @ '') VALUES '' @ rest"
  using assms by (auto simp: build_batch_upsert_sql_def column_list_def result_simps Let_def dest!: quote_all_each)

text \<open>
  C37: the statements of a batch carry its rows in order, each row once.  A statement names the columns in their order
  after the table and has exactly as many placeholders as parameters, never more than the configured number of
  parameters nor more rows than configured; its parameters are the values of its rows, row by row in the order of the
  columns.  The columns must fit the limit of parameters, and no identifier may have a percent sign: a plain name never
  has one, a quoted one may (\<open>quoted_percent_breaks_placeholders\<close> below).
\<close>

theorem sql_statements_sound:
  assumes "columns \<noteq> []" "int (length columns) \<le> wl_max_parameters_per_statement L"
    "case wl_max_rows_per_statement L of None \<Rightarrow> True | Some m \<Rightarrow> 1 \<le> m"
    "\<forall>i\<in>set (wp_table p # map Name columns @ wp_conflict_keys p). no_percent (wp_allow_quoted p) i"
  shows "concat (iter_sql_chunks L rows columns) = rows \<and>
    (\<forall>chunk sql params. chunk \<in> set (iter_sql_chunks L rows columns) \<longrightarrow>
       build_batch_upsert_sql p (map Name columns) (length chunk) = Inr sql \<longrightarrow>
       flatten_rows chunk columns = Inr params \<longrightarrow>
       (\<exists>t qs rest. quote_identifier True (wp_allow_quoted p) (wp_table p) = Inr t \<and>
          map (quote_identifier False (wp_allow_quoted p)) (map Name columns) = map Inr qs \<and>
          sql = ''INSERT INTO '' @ t @ '' ('' @ join '', '' qs @ '') VALUES '' @ rest) \<and>
       placeholders sql = Some (length params) \<and> length params = length chunk * length columns \<and> 0 < length params \<and>
       (\<forall>i < length chunk. \<forall>j < length columns. dict_get (chunk ! i) (columns ! j) = Some (params ! (i * length columns + j))) \<and>
       int (length params) \<le> wl_max_parameters_per_statement L \<and>
       (case wl_max_rows_per_statement L of None \<Rightarrow> True | Some m \<Rightarrow> int (length chunk) \<le> m))"
proof (intro conjI allI impI)
  show "concat (iter_sql_chunks L rows columns) = rows" 
    using chunks_facts by (metis iter_sql_chunks_def)
next
  fix chunk sql params
  assume c: "chunk \<in> set (iter_sql_chunks L rows columns)"
    and sql: "build_batch_upsert_sql p (map Name columns) (length chunk) = Inr sql"
    and params: "flatten_rows chunk columns = Inr params"
  note F = sql_chunk_facts [OF c assms(1-3)] and len = flatten_rows_length [OF params]
  have "placeholders sql = Some (length chunk * length (map Name columns))"
    by (rule upsert_placeholders [OF sql]) (use assms(4) in auto)
  then show "placeholders sql = Some (length params)" using len by simp
  show "length params = length chunk * length columns" by (rule len)
  show "0 < length params" using F(1) assms(1) len by simp
  show "int (length params) \<le> wl_max_parameters_per_statement L" using F(2) len by simp
  show "case wl_max_rows_per_statement L of None \<Rightarrow> True | Some m \<Rightarrow> int (length chunk) \<le> m" by (rule F(3))
  show "\<exists>t qs rest. quote_identifier True (wp_allow_quoted p) (wp_table p) = Inr t \<and>
      map (quote_identifier False (wp_allow_quoted p)) (map Name columns) = map Inr qs \<and>
      sql = ''INSERT INTO '' @ t @ '' ('' @ join '', '' qs @ '') VALUES '' @ rest"
    by (rule upsert_head [OF sql])
  show "dict_get (chunk ! i) (columns ! j) = Some (params ! (i * length columns + j))"
    if "i < length chunk" "j < length columns" for i j
    by (rule flatten_rows_nth [OF params that])
qed

text \<open>A table with a quoted name, and a chunk of two rows.\<close>

theorem sql_statements_sound_witness:
  "let L = \<lparr>wl_max_rows_per_statement = Some 2, wl_max_parameters_per_statement = 5\<rparr>;
       p = \<lparr>wp_table = QuotedIdentifier [''my t''], wp_conflict_keys = [Name ''id''], wp_upsert = True, wp_allow_quoted = True\<rparr>;
       row = (\<lambda>n::nat. [(''v'', n + 10), (''id'', n)]);
       sql = ''INSERT INTO \"my t\" (\"id\", \"v\") VALUES (%s, %s), (%s, %s) ON CONFLICT (\"id\") DO UPDATE SET \"v\" = EXCLUDED.\"v\"''
   in iter_sql_chunks L [row 1, row 2, row 3] [''id'', ''v''] = [[row 1, row 2], [row 3]] \<and>
      build_batch_upsert_sql p (map Name [''id'', ''v'']) 2 = Inr sql \<and>
      flatten_rows [row 1, row 2] [''id'', ''v''] = Inr [1, 11, 2, 12] \<and> placeholders sql = Some 4"
proof -
  let ?L = "\<lparr>wl_max_rows_per_statement = Some 2, wl_max_parameters_per_statement = 5\<rparr>"
  let ?p = "\<lparr>wp_table = QuotedIdentifier [''my t''], wp_conflict_keys = [Name ''id''], wp_upsert = True, wp_allow_quoted = True\<rparr>"
  let ?row = "\<lambda>n::nat. [(''v'', n + 10), (''id'', n)]"
  let ?sql = "''INSERT INTO \"my t\" (\"id\", \"v\") VALUES (%s, %s), (%s, %s) ON CONFLICT (\"id\") DO UPDATE SET \"v\" = EXCLUDED.\"v\"''"
  have free: "no_percent True (QuotedIdentifier [''my t''])" "no_percent True (Name ''id'')" "no_percent True (Name ''v'')"
    by (rule no_percentI [where r = "''\"my t\"''"] no_percentI [where r = "''\"id\"''"] no_percentI [where r = "''\"v\"''"]; code_simp)+
  have chunks: "iter_sql_chunks ?L [?row 1, ?row 2, ?row 3] [''id'', ''v''] = [[?row 1, ?row 2], [?row 3]]"
    by (simp add: iter_sql_chunks_def statement_row_limit_def chunks.simps)
  have sql: "build_batch_upsert_sql ?p (map Name [''id'', ''v'']) 2 = Inr ?sql" by code_simp
  have params: "flatten_rows [?row 1, ?row 2] [''id'', ''v''] = Inr [1, 11, 2, 12]" by code_simp
  have "placeholders ?sql = Some 4"
    using sql_statements_sound [of "[''id'', ''v'']" ?L ?p "[?row 1, ?row 2, ?row 3]"] chunks sql params free
    by (simp add: insert_commute)
  then show ?thesis unfolding Let_def using chunks sql params by blast
qed

text \<open>
  A quoted identifier may hold a percent sign, which is not doubled in the statement: the driver reads it as the
  beginning of a placeholder.
\<close>

lemma quoted_percent_breaks_placeholders:
  "let p = \<lparr>wp_table = QuotedIdentifier [''t''], wp_conflict_keys = [Name ''id''], wp_upsert = True, wp_allow_quoted = True\<rparr>
   in \<exists>sql. build_batch_upsert_sql p [Name ''id'', QuotedIdentifier [''50%'']] 1 = Inr sql \<and> placeholders sql = None"
  unfolding Let_def by (rule exI [where x = "projr (build_batch_upsert_sql \<lparr>wp_table = QuotedIdentifier [''t''], wp_conflict_keys = [Name ''id''], wp_upsert = True, wp_allow_quoted = True\<rparr> [Name ''id'', QuotedIdentifier [''50%'']] 1)"]) code_simp

text \<open>
  A conflict key given as a quoted identifier is never found in a row: with alignment every row is refused.
\<close>

lemma quoted_conflict_key_refuses_rows:
  "QuotedIdentifier ps \<in> set keys \<Longrightarrow>
   \<exists>c'. normalize_row_to_target keys row cols c = (c', Inl (WriteError SCHEMA_DRIFT ''missing_conflict_keys''))"
proof -
  assume "QuotedIdentifier ps \<in> set keys"
  then have "list_ex (\<lambda>k. \<not> key_in_row k (filter (\<lambda>e. is_writable cols (fst e)) row)) keys"
    by (auto simp: list_ex_iff key_in_row_def intro: bexI [of _ "QuotedIdentifier ps"])
  then show ?thesis by (simp add: normalize_row_to_target_def make_write_error_def Let_def)
qed

end
