(* ===== verification/PG_Sink.thy ===== *)
theory PG_Sink
  imports PG_Write
begin

text \<open>
  The PostgreSQL sink (\<^verbatim>\<open>postgres/sinks/\<close>): the buffer of \<^verbatim>\<open>_write_buffer.py\<close>, the flush of
  \<^verbatim>\<open>_flush_runtime.py\<close> with the strategies of \<^verbatim>\<open>_write_strategies.py\<close>, the classification of errors and the
  dead-letter route of \<^verbatim>\<open>_poison_runtime.py\<close>, opening with the check of the upsert constraint of
  \<^verbatim>\<open>_lifecycle_runtime.py\<close>, and \<^verbatim>\<open>_close_runtime.py\<close>.

  The driver, the dead-letter sink and the pooled connections are the environment: the sink's log records every
  call with its outcome, and the environment decides the outcome of a call from the log so far.  \<^verbatim>\<open>retry_async\<close>
  is a parameter with the law \<open>retry_law\<close>.
\<close>

section \<open>Environment\<close>

record 'v pg_dlq_record =
  pd_pipeline_id :: string
  pd_run_id :: string
  pd_stage :: string
  pd_error_type :: string
  pd_error :: pg_exn
  pd_record :: "'v row"
  pd_processed_record :: "'v row"
  pd_sink :: string
  pd_max_attempts :: "int option"

datatype 'v pg_call =
    ImportPsycopg
  | Connect
  | SelectColumns string "string list"
  | AcquirePooled
  | ReleasePooled bool
  | Execute string "'v list"
  | CopyOpen string
  | CopyRow "'v list"
  | CopyClose
  | Commit
  | Rollback
  | CloseConn
  | ClosePools
  | SelectConstraints string "string list" nat
  | DLQOpen
  | DLQWrite "'v pg_dlq_record list"
  | DLQClose

type_synonym 'v pg_log = "('v pg_call \<times> bool) list"

text \<open>
  \<open>en_outcome\<close> is \<open>None\<close> when the call returns; \<open>en_columns\<close> are the rows of the catalogue query
  (name, \<^verbatim>\<open>is_nullable\<close>, whether there is a default, \<^verbatim>\<open>is_generated\<close>); \<open>en_indexes\<close> the column names of each
  unique index the constraint query finds; \<open>en_uuid\<close> the twelve digits of a fresh staging table.
\<close>

record 'v pg_env =
  en_outcome :: "'v pg_log \<Rightarrow> 'v pg_call \<Rightarrow> pg_exn option"
  en_columns :: "'v pg_log \<Rightarrow> (string \<times> string \<times> bool \<times> string) list"
  en_indexes :: "'v pg_log \<Rightarrow> string list list"
  en_uuid :: "'v pg_log \<Rightarrow> string"
  en_now :: "'v pg_log \<Rightarrow> string"

section \<open>State\<close>

datatype insert_mode = InsertSql | InsertCopy | InsertCopyMerge

record pg_config =
  cf_planner :: write_planner
  cf_limits :: write_limits
  cf_insert_mode :: insert_mode
  cf_align_to_target :: bool
  cf_batch_size :: int
  cf_pool_size :: int
  cf_poison_record_sink :: bool
  cf_poison_record_pipeline_id :: string
  cf_poison_record_max_attempts :: "int option"

record 'v pg_sink =
  sk_buffer :: "'v row list"
  sk_conn :: bool
  sk_psycopg :: bool
  sk_counters :: pg_counters
  sk_write_call_count :: nat
  sk_write_batch_call_count :: nat
  sk_enqueue_count :: nat
  sk_flush_count :: nat
  sk_flushed_row_count :: nat
  sk_retry_count :: nat
  sk_schema_refresh_count :: nat
  sk_last_flush_at :: "string option"
  sk_target_columns_cache :: "target_column list option"
  sk_defer_preflight :: bool
  sk_preflight_complete :: bool
  sk_latencies :: "(string \<times> string) list"
  sk_log :: "'v pg_log"

definition pg_sink_init :: "'v pg_sink" where
  "pg_sink_init =
     \<lparr>sk_buffer = [], sk_conn = False, sk_psycopg = False,
      sk_counters = \<lparr>pc_schema_drift_detected = 0, pc_schema_drift_aligned = 0, pc_poison_record_count = 0,
                     pc_poison_classes = (\<lambda>_. 0)\<rparr>,
      sk_write_call_count = 0, sk_write_batch_call_count = 0, sk_enqueue_count = 0, sk_flush_count = 0,
      sk_flushed_row_count = 0, sk_retry_count = 0, sk_schema_refresh_count = 0, sk_last_flush_at = None,
      sk_target_columns_cache = None, sk_defer_preflight = False, sk_preflight_complete = False, sk_latencies = [], sk_log = []\<rparr>"

type_synonym ('v, 'a) sink_op = "('v pg_sink, pg_exn, 'a) xeff"

text \<open>The checks of the constructor, in their order; \<open>upsert\<close> is the planner's.\<close>

definition check_sink_arguments ::
    "write_planner \<Rightarrow> write_limits \<Rightarrow> string \<Rightarrow> bool \<Rightarrow> int \<Rightarrow> int \<Rightarrow> unit result" where
  "check_sink_arguments p L mode replay_safe batch_size pool_size =
     (if mode \<notin> {''sql'', ''copy'', ''copy_merge''}
      then Inl (ValueError (''insert_mode must be 'sql', 'copy', or 'copy_merge'' @ [CHR 0x27]))
      else if wp_upsert p \<and> mode = ''copy''
      then Inl (ValueError ''insert_mode='copy' is only supported when upsert=False'')
      else if replay_safe \<and> \<not> wp_upsert p
      then Inl (ValueError ''replay_safe_key_contract=True requires upsert=True'')
      else if batch_size < 1 then Inl (ValueError ''batch_size must be >= 1'')
      else if pool_size < 1 then Inl (ValueError ''pool_size must be >= 1'')
      else if (case wl_max_rows_per_statement L of None \<Rightarrow> False | Some n \<Rightarrow> n < 1)
      then Inl (ValueError ''max_rows_per_statement must be >= 1 when provided'')
      else if wl_max_parameters_per_statement L < 1
      then Inl (ValueError ''max_parameters_per_statement must be >= 1'')
      else Inr ())"

definition resolve_write_safety_policy :: "string \<Rightarrow> bool result" where
  "resolve_write_safety_policy value =
     (if value = ''strict'' then Inr False
      else if value = ''align_to_target'' then Inr True
      else Inl (ValueError ''write_safety_policy must be one of: strict, align_to_target.''))"

section \<open>Calls\<close>

definition call :: "'v pg_env \<Rightarrow> 'v pg_call \<Rightarrow> ('v, unit) sink_op" where
  "call E c s =
     (let r = en_outcome E (sk_log s) c
      in (s\<lparr>sk_log := sk_log s @ [(c, r = None)]\<rparr>, case r of None \<Rightarrow> Inr () | Some e \<Rightarrow> Inl e))"

definition lift_result :: "'a result \<Rightarrow> ('v, 'a) sink_op" where
  "lift_result r s = (s, case r of Inl e \<Rightarrow> Inl (OtherError None e) | Inr a \<Rightarrow> Inr a)"

definition observe_latency :: "string \<Rightarrow> string \<Rightarrow> ('v, unit) sink_op" where
  "observe_latency operation outcome = modifyE (\<lambda>s. s\<lparr>sk_latencies := sk_latencies s @ [(operation, outcome)]\<rparr>)"

definition observe_retry :: "'v pg_sink \<Rightarrow> 'v pg_sink" where
  "observe_retry s = s\<lparr>sk_retry_count := Suc (sk_retry_count s)\<rparr>"

definition note_flush_success :: "nat \<Rightarrow> string \<Rightarrow> 'v pg_sink \<Rightarrow> 'v pg_sink" where
  "note_flush_success row_count flushed_at s =
     s\<lparr>sk_flush_count := Suc (sk_flush_count s), sk_flushed_row_count := sk_flushed_row_count s + row_count,
       sk_last_flush_at := Some flushed_at\<rparr>"

definition clear_buffer_prefix :: "nat \<Rightarrow> 'v pg_sink \<Rightarrow> 'v pg_sink" where
  "clear_buffer_prefix row_count s = s\<lparr>sk_buffer := drop row_count (sk_buffer s)\<rparr>"

text \<open>An operation on the counters alone.\<close>

definition with_counters :: "(pg_counters \<Rightarrow> pg_counters \<times> 'a pg_result) \<Rightarrow> ('v, 'a) sink_op" where
  "with_counters f s = (case f (sk_counters s) of (c, r) \<Rightarrow> (s\<lparr>sk_counters := c\<rparr>, r))"

section \<open>Connections\<close>

definition load_psycopg :: "'v pg_env \<Rightarrow> ('v, unit) sink_op" where
  "load_psycopg E s =
     (if sk_psycopg s then returnE () s
      else thenE (call E ImportPsycopg) (modifyE (\<lambda>s. s\<lparr>sk_psycopg := True\<rparr>)) s)"

definition create_connection :: "'v pg_env \<Rightarrow> ('v, unit) sink_op" where
  "create_connection E =
     thenE (load_psycopg E)
     (thenE (tryE (call E Connect) (\<lambda>e. thenE (observe_latency ''connect'' ''error'') (raiseE e)))
            (observe_latency ''connect'' ''success''))"

definition get_conn :: "'v pg_env \<Rightarrow> ('v, unit) sink_op" where
  "get_conn E s =
     (if sk_conn s then returnE () s
      else thenE (create_connection E) (modifyE (\<lambda>s. s\<lparr>sk_conn := True\<rparr>)) s)"

text \<open>\<open>acquire_write_conn\<close> tells whether the connection is pooled.\<close>

definition acquire_write_conn :: "'v pg_env \<Rightarrow> pg_config \<Rightarrow> ('v, bool) sink_op" where
  "acquire_write_conn E cf =
     (if cf_pool_size cf \<le> 1 then thenE (get_conn E) (returnE False)
      else thenE (call E AcquirePooled) (returnE True))"

definition close_connection_best_effort :: "'v pg_env \<Rightarrow> ('v, unit) sink_op" where
  "close_connection_best_effort E = tryE (call E CloseConn) (\<lambda>_. returnE ())"

definition release_write_conn :: "'v pg_env \<Rightarrow> bool \<Rightarrow> bool \<Rightarrow> ('v, unit) sink_op" where
  "release_write_conn E pooled discard =
     (if pooled then call E (ReleasePooled discard)
      else if discard then thenE (close_connection_best_effort E) (modifyE (\<lambda>s. s\<lparr>sk_conn := False\<rparr>))
      else returnE ())"

text \<open>\<^verbatim>\<open>async with self.write_connection()\<close> around a body.\<close>

definition write_connection :: "'v pg_env \<Rightarrow> pg_config \<Rightarrow> ('v, unit) sink_op \<Rightarrow> ('v, unit) sink_op" where
  "write_connection E cf body =
     bindE (tryE (acquire_write_conn E cf) (\<lambda>e. thenE (observe_latency ''pool_acquire'' ''error'') (raiseE e))) (\<lambda>pooled.
     thenE (observe_latency ''pool_acquire'' ''success'')
       (\<lambda>s. case body s of (s1, r) \<Rightarrow> finallyE (\<lambda>s. (s, r)) (release_write_conn E pooled (isl r)) s1))"

section \<open>Opening\<close>

fun first_parts :: "bool \<Rightarrow> pg_identifier list \<Rightarrow> string list result" where
  "first_parts allow_quoted [] = Inr []"
| "first_parts allow_quoted (k # ks) =
     bindR (identifier_parts False allow_quoted k) (\<lambda>ps. bindR (first_parts allow_quoted ks) (\<lambda>rest. Inr (hd ps # rest)))"

text \<open>The text of the catalogue query is fixed but for its condition, which the call carries.\<close>

definition has_matching_upsert_constraint :: "'v pg_env \<Rightarrow> pg_config \<Rightarrow> ('v, bool) sink_op" where
  "has_matching_upsert_constraint E cf =
     bindE (lift_result (table_catalog_condition ''ns'' ''tbl'' (wp_allow_quoted (cf_planner cf)) (wp_table (cf_planner cf)))) (\<lambda>w.
     bindE (lift_result (first_parts (wp_allow_quoted (cf_planner cf)) (wp_conflict_keys (cf_planner cf)))) (\<lambda>keys.
     let expected = sort keys in
     (\<lambda>s. thenE (call E (SelectConstraints (fst w) (snd w) (length expected)))
                (returnE (list_ex (\<lambda>columns. sort columns = expected) (en_indexes E (sk_log s)))) s)))"

definition validate_upsert_constraint :: "'v pg_env \<Rightarrow> pg_config \<Rightarrow> ('v, unit) sink_op" where
  "validate_upsert_constraint E cf s =
     (if \<not> wp_upsert (cf_planner cf) \<or> sk_preflight_complete s then returnE () s
      else thenE (write_connection E cf
                    (bindE (has_matching_upsert_constraint E cf) (\<lambda>has_constraint.
                     thenE (call E Rollback)
                       (if has_constraint then returnE ()
                        else raiseE (OtherError None (ValueError ''PostgresSink upsert requires a PRIMARY KEY or UNIQUE constraint whose key columns exactly match conflict_keys.''))))))
                 (modifyE (\<lambda>s. s\<lparr>sk_preflight_complete := True\<rparr>)) s)"

text \<open>A failure after the dead-letter sink was opened closes it again, and goes on.\<close>

definition pg_open :: "'v pg_env \<Rightarrow> pg_config \<Rightarrow> ('v, unit) sink_op" where
  "pg_open E cf =
     thenE (if cf_poison_record_sink cf then call E DLQOpen else returnE ())
       (tryE (\<lambda>s. if wp_upsert (cf_planner cf) \<and> \<not> sk_defer_preflight s then validate_upsert_constraint E cf s else returnE () s)
          (\<lambda>e. thenE (if cf_poison_record_sink cf then tryE (call E DLQClose) (\<lambda>_. returnE ()) else returnE ()) (raiseE e)))"

definition defer_upsert_constraint_preflight :: "'v pg_sink \<Rightarrow> 'v pg_sink" where
  "defer_upsert_constraint_preflight s = s\<lparr>sk_defer_preflight := True, sk_preflight_complete := False\<rparr>"

definition invalidate_target_columns_cache :: "'v pg_sink \<Rightarrow> 'v pg_sink" where
  "invalidate_target_columns_cache s = s\<lparr>sk_target_columns_cache := None\<rparr>"

section \<open>Errors\<close>

definition classify_sqlstate :: "string option \<Rightarrow> string \<Rightarrow> classification \<times> string" where
  "classify_sqlstate sqlstate name =
     (case sqlstate of
        None \<Rightarrow> (UNKNOWN, name)
      | Some st \<Rightarrow>
          if st = ''42P01'' then (SCHEMA_DRIFT, ''undefined_table'')
          else if st = ''42703'' then (SCHEMA_DRIFT, ''undefined_column'')
          else if st = ''23502'' then (CONSTRAINT_VIOLATION, ''not_null_violation'')
          else if st = ''23505'' then (CONSTRAINT_VIOLATION, ''unique_violation'')
          else if st = ''23503'' then (CONSTRAINT_VIOLATION, ''foreign_key_violation'')
          else if st = ''23514'' then (CONSTRAINT_VIOLATION, ''check_violation'')
          else if st = ''22P02'' then (TYPE_MISMATCH, ''invalid_text_representation'')
          else if st = ''42804'' then (TYPE_MISMATCH, ''datatype_mismatch'')
          else (UNKNOWN, name))"

definition wrap_write_error :: "pg_exn \<Rightarrow> pg_counters \<Rightarrow> pg_counters \<times> pg_exn" where
  "wrap_write_error exc c =
     (case exc of
        WriteError k reason \<Rightarrow> (c, exc)
      | OtherError sqlstate e \<Rightarrow>
          (case classify_sqlstate sqlstate (exn_name e) of
             (k, reason) \<Rightarrow>
               make_write_error k reason (if k = SCHEMA_DRIFT then observe_schema_drift_detected 1 c else c)))"

text \<open>\<^verbatim>\<open>raise self._wrap_write_error(exc, ...) from exc\<close>.\<close>

definition raise_wrapped :: "pg_exn \<Rightarrow> ('v, 'a) sink_op" where
  "raise_wrapped exc = with_counters (\<lambda>c. case wrap_write_error exc c of (c', e) \<Rightarrow> (c', Inl e))"

section \<open>Strategies\<close>

fun execute_chunks :: "'v pg_env \<Rightarrow> pg_config \<Rightarrow> string list \<Rightarrow> 'v row list list \<Rightarrow> ('v, unit) sink_op" where
  "execute_chunks E cf columns [] = returnE ()"
| "execute_chunks E cf columns (chunk # cs) =
     bindE (lift_result (build_batch_upsert_sql (cf_planner cf) (map Name columns) (length chunk))) (\<lambda>sql.
     bindE (lift_result (flatten_rows chunk columns)) (\<lambda>params.
     thenE (call E (Execute sql params)) (execute_chunks E cf columns cs)))"

definition execute_sql_batch :: "'v pg_env \<Rightarrow> pg_config \<Rightarrow> 'v row list \<Rightarrow> string list \<Rightarrow> ('v, unit) sink_op" where
  "execute_sql_batch E cf rows columns = execute_chunks E cf columns (iter_sql_chunks (cf_limits cf) rows columns)"

text \<open>\<^verbatim>\<open>[row[column] for column in columns]\<close>.\<close>

fun row_values :: "'v row \<Rightarrow> string list \<Rightarrow> 'v list result" where
  "row_values row [] = Inr []"
| "row_values row (c # cs) =
     (case dict_get row c of
        None \<Rightarrow> Inl (KeyError c)
      | Some v \<Rightarrow> bindR (row_values row cs) (\<lambda>vs. Inr (v # vs)))"

fun copy_each :: "'v pg_env \<Rightarrow> string list \<Rightarrow> 'v row list \<Rightarrow> ('v, unit) sink_op" where
  "copy_each E columns [] = returnE ()"
| "copy_each E columns (row # rows) =
     bindE (lift_result (row_values row columns)) (\<lambda>vs.
     thenE (call E (CopyRow vs)) (copy_each E columns rows))"

text \<open>\<^verbatim>\<open>async with conn.cursor() as cur, cur.copy(sql) as copy\<close>: leaving the block normally ends the copy.\<close>

definition copy_rows :: "'v pg_env \<Rightarrow> string \<Rightarrow> string list \<Rightarrow> 'v row list \<Rightarrow> ('v, unit) sink_op" where
  "copy_rows E sql columns rows =
     thenE (call E (CopyOpen sql)) (thenE (copy_each E columns rows) (call E CopyClose))"

definition execute_copy_batch :: "'v pg_env \<Rightarrow> pg_config \<Rightarrow> 'v row list \<Rightarrow> string list \<Rightarrow> ('v, unit) sink_op" where
  "execute_copy_batch E cf rows columns =
     bindE (lift_result (build_copy_sql (cf_planner cf) (map Name columns))) (\<lambda>sql. copy_rows E sql columns rows)"

definition build_stage_table_name :: "'v pg_env \<Rightarrow> ('v, string) sink_op" where
  "build_stage_table_name E s = returnE (''agora_stage_'' @ en_uuid E (sk_log s)) s"

text \<open>The three statements of a merge through a staging table.\<close>

definition merge_sqls :: "pg_config \<Rightarrow> string \<Rightarrow> string list \<Rightarrow> (string \<times> string \<times> string) result" where
  "merge_sqls cf staging_table columns =
     bindR (build_create_temp_table_sql (cf_planner cf) staging_table) (\<lambda>create_sql.
     bindR (build_copy_sql_for_table (cf_planner cf) (Name staging_table) (map Name columns)) (\<lambda>copy_sql.
     bindR (build_copy_merge_sql (cf_planner cf) (map Name columns) staging_table) (\<lambda>merge_sql.
       Inr (create_sql, copy_sql, merge_sql))))"

definition execute_merge :: "'v pg_env \<Rightarrow> string \<times> string \<times> string \<Rightarrow> 'v row list \<Rightarrow> string list \<Rightarrow> ('v, unit) sink_op" where
  "execute_merge E sqls rows columns =
     (case sqls of (create_sql, copy_sql, merge_sql) \<Rightarrow>
        thenE (call E (Execute create_sql []))
        (thenE (copy_rows E copy_sql columns rows)
               (call E (Execute merge_sql []))))"

text \<open>\<open>execute_copy_merge_batch\<close> without prepared statements, as the atomic flush calls it.\<close>

definition execute_copy_merge_batch :: "'v pg_env \<Rightarrow> pg_config \<Rightarrow> 'v row list \<Rightarrow> string list \<Rightarrow> ('v, unit) sink_op" where
  "execute_copy_merge_batch E cf rows columns =
     bindE (build_stage_table_name E) (\<lambda>staging_table.
     bindE (lift_result (merge_sqls cf staging_table columns)) (\<lambda>sqls. execute_merge E sqls rows columns))"

definition rollback_best_effort :: "'v pg_env \<Rightarrow> ('v, unit) sink_op" where
  "rollback_best_effort E = tryE (call E Rollback) (\<lambda>_. returnE ())"

text \<open>
  One attempt: a connection, the work, a commit; an exception rolls back and goes on.  The attempts of all
  strategies have this shape.
\<close>

definition attempt :: "'v pg_env \<Rightarrow> pg_config \<Rightarrow> ('v, unit) sink_op \<Rightarrow> ('v, unit) sink_op" where
  "attempt E cf work =
     write_connection E cf
       (tryE (thenE work (call E Commit)) (\<lambda>e. thenE (rollback_best_effort E) (raiseE e)))"

type_synonym 'v retry = "('v, unit) sink_op \<Rightarrow> ('v pg_sink \<Rightarrow> 'v pg_sink) \<Rightarrow> ('v, unit) sink_op"

definition flush_via_sql :: "'v pg_env \<Rightarrow> 'v retry \<Rightarrow> pg_config \<Rightarrow> 'v row list \<Rightarrow> string list \<Rightarrow> ('v, unit) sink_op" where
  "flush_via_sql E retry cf rows columns =
     tryE (retry (attempt E cf (execute_sql_batch E cf rows columns)) observe_retry) raise_wrapped"

definition flush_via_copy :: "'v pg_env \<Rightarrow> pg_config \<Rightarrow> 'v row list \<Rightarrow> string list \<Rightarrow> ('v, unit) sink_op" where
  "flush_via_copy E cf rows columns = tryE (attempt E cf (execute_copy_batch E cf rows columns)) raise_wrapped"

text \<open>The statements of a merge are built once, before the attempts and outside the \<^verbatim>\<open>try\<close>.\<close>

definition flush_via_copy_merge ::
    "'v pg_env \<Rightarrow> 'v retry \<Rightarrow> pg_config \<Rightarrow> 'v row list \<Rightarrow> string list \<Rightarrow> ('v, unit) sink_op" where
  "flush_via_copy_merge E retry cf rows columns =
     bindE (build_stage_table_name E) (\<lambda>staging_table.
     bindE (lift_result (merge_sqls cf staging_table columns)) (\<lambda>sqls.
       tryE (retry (attempt E cf (execute_merge E sqls rows columns)) observe_retry) raise_wrapped))"

section \<open>Flush\<close>

definition target_column_of :: "string \<times> string \<times> bool \<times> string \<Rightarrow> target_column" where
  "target_column_of r =
     (case r of (column_name, is_nullable, has_default, is_generated) \<Rightarrow>
        \<lparr>tc_name = column_name, tc_nullable = (str_lower is_nullable = ''yes''), tc_has_default = has_default,
         tc_writable = (str_lower is_generated = ''never'')\<rparr>)"

text \<open>The catalogue query, and what becomes of its rows.\<close>

definition fetch_columns :: "'v pg_env \<Rightarrow> string \<times> string list \<Rightarrow> ('v, (string \<times> string \<times> bool \<times> string) list) sink_op" where
  "fetch_columns E w s = thenE (call E (SelectColumns (fst w) (snd w))) (returnE (en_columns E (sk_log s))) s"

definition store_target_columns :: "(string \<times> string \<times> bool \<times> string) list \<Rightarrow> ('v, target_column list) sink_op" where
  "store_target_columns rows =
     thenE (modifyE (\<lambda>s. s\<lparr>sk_schema_refresh_count := Suc (sk_schema_refresh_count s)\<rparr>))
       (if rows = []
        then with_counters (\<lambda>c. case make_write_error SCHEMA_DRIFT ''undefined_table'' c of (c', e) \<Rightarrow> (c', Inl e))
        else let cols = map target_column_of rows in
             thenE (modifyE (\<lambda>s. s\<lparr>sk_target_columns_cache := Some cols\<rparr>)) (returnE cols))"

definition load_target_columns :: "'v pg_env \<Rightarrow> pg_config \<Rightarrow> ('v, target_column list) sink_op" where
  "load_target_columns E cf s =
     (case sk_target_columns_cache s of
        Some cols \<Rightarrow> returnE cols s
      | None \<Rightarrow>
          thenE (get_conn E)
          (bindE (lift_result (table_lookup_condition (wp_allow_quoted (cf_planner cf)) (wp_table (cf_planner cf)))) (\<lambda>w.
           bindE (fetch_columns E w) store_target_columns)) s)"

definition prepared_write_batches ::
    "'v pg_env \<Rightarrow> pg_config \<Rightarrow> 'v row list \<Rightarrow> ('v, 'v prepared_batch list) sink_op" where
  "prepared_write_batches E cf rows =
     (if rows = [] then returnE []
      else if \<not> cf_align_to_target cf
      then returnE [\<lparr>pb_columns = dict_keys (hd rows), pb_rows = rows, pb_row_indexes = [0..<length rows]\<rparr>]
      else bindE (load_target_columns E cf) (\<lambda>cols.
             with_counters (align_rows_to_target (wp_conflict_keys (cf_planner cf)) rows cols)))"

definition del_at :: "nat \<Rightarrow> 'a list \<Rightarrow> 'a list" where
  "del_at i xs = (if i < length xs then take i xs @ drop (Suc i) xs else xs)"

text \<open>\<open>discard_buffer_indexes\<close>: from the highest index down.\<close>

definition discard_indexes :: "nat set \<Rightarrow> 'a list \<Rightarrow> 'a list" where
  "discard_indexes is xs = fold del_at (rev (sorted_list_of_set is)) xs"

definition discard_buffer_indexes :: "nat set \<Rightarrow> 'v pg_sink \<Rightarrow> 'v pg_sink" where
  "discard_buffer_indexes is s = s\<lparr>sk_buffer := discard_indexes is (sk_buffer s)\<rparr>"

text \<open>The work of one batch inside an attempt.\<close>

definition execute_batch :: "'v pg_env \<Rightarrow> pg_config \<Rightarrow> 'v prepared_batch \<Rightarrow> ('v, unit) sink_op" where
  "execute_batch E cf b =
     (case cf_insert_mode cf of
        InsertCopy \<Rightarrow> execute_copy_batch E cf (pb_rows b) (pb_columns b)
      | InsertCopyMerge \<Rightarrow> execute_copy_merge_batch E cf (pb_rows b) (pb_columns b)
      | InsertSql \<Rightarrow> execute_sql_batch E cf (pb_rows b) (pb_columns b))"

fun execute_batches :: "'v pg_env \<Rightarrow> pg_config \<Rightarrow> 'v prepared_batch list \<Rightarrow> ('v, unit) sink_op" where
  "execute_batches E cf [] = returnE ()"
| "execute_batches E cf (b # bs) = thenE (execute_batch E cf b) (execute_batches E cf bs)"

definition flush_aligned_batches_atomically ::
    "'v pg_env \<Rightarrow> 'v retry \<Rightarrow> pg_config \<Rightarrow> 'v prepared_batch list \<Rightarrow> ('v, unit) sink_op" where
  "flush_aligned_batches_atomically E retry cf batches =
     (let execute_flush = attempt E cf (execute_batches E cf batches) in
      tryE (if cf_insert_mode cf = InsertCopy then execute_flush else retry execute_flush observe_retry) raise_wrapped)"

definition flush_batch :: "'v pg_env \<Rightarrow> 'v retry \<Rightarrow> pg_config \<Rightarrow> 'v prepared_batch \<Rightarrow> ('v, unit) sink_op" where
  "flush_batch E retry cf b =
     (case cf_insert_mode cf of
        InsertCopy \<Rightarrow> flush_via_copy E cf (pb_rows b) (pb_columns b)
      | InsertCopyMerge \<Rightarrow> flush_via_copy_merge E retry cf (pb_rows b) (pb_columns b)
      | InsertSql \<Rightarrow> flush_via_sql E retry cf (pb_rows b) (pb_columns b))"

text \<open>\<^verbatim>\<open>for batch in batches\<close>: the indexes of the batches that were flushed are kept for the error path.\<close>

fun flush_each ::
    "'v pg_env \<Rightarrow> 'v retry \<Rightarrow> pg_config \<Rightarrow> nat set \<Rightarrow> 'v prepared_batch list \<Rightarrow> 'v pg_sink
     \<Rightarrow> 'v pg_sink \<times> nat set \<times> (pg_exn + unit)" where
  "flush_each E retry cf flushed [] s = (s, flushed, Inr ())"
| "flush_each E retry cf flushed (b # bs) s =
     (case flush_batch E retry cf b s of
        (s1, Inl e) \<Rightarrow> (s1, flushed, Inl e)
      | (s1, Inr _) \<Rightarrow> flush_each E retry cf (flushed \<union> set (pb_row_indexes b)) bs s1)"

definition flush_batches ::
    "'v pg_env \<Rightarrow> 'v retry \<Rightarrow> pg_config \<Rightarrow> 'v prepared_batch list \<Rightarrow> 'v pg_sink
     \<Rightarrow> 'v pg_sink \<times> nat set \<times> (pg_exn + unit)" where
  "flush_batches E retry cf batches s =
     (if cf_align_to_target cf \<and> 1 < length batches
      then (case flush_aligned_batches_atomically E retry cf batches s of (s1, r) \<Rightarrow> (s1, {}, r))
      else flush_each E retry cf {} batches s)"

text \<open>The part of \<open>flush\<close> that follows the preparation.\<close>

definition flush_prepared ::
    "'v pg_env \<Rightarrow> 'v retry \<Rightarrow> pg_config \<Rightarrow> 'v row list \<Rightarrow> 'v prepared_batch list \<Rightarrow> ('v, unit) sink_op" where
  "flush_prepared E retry cf rows batches s =
     (case flush_batches E retry cf batches s of
        (s1, flushed, Inl e) \<Rightarrow>
          thenE (modifyE (discard_buffer_indexes flushed)) (thenE (observe_latency ''flush'' ''error'') (raiseE e)) s1
      | (s1, flushed, Inr _) \<Rightarrow>
          thenE (modifyE (\<lambda>s. note_flush_success (length rows) (en_now E (sk_log s))
                            (discard_buffer_indexes {0..<length rows} s)))
                (observe_latency ''flush'' ''success'') s1)"

definition flush :: "'v pg_env \<Rightarrow> 'v retry \<Rightarrow> pg_config \<Rightarrow> ('v, unit) sink_op" where
  "flush E retry cf s0 =
     (if sk_buffer s0 = [] then returnE () s0
      else thenE (load_psycopg E) (\<lambda>s.
        let rows = sk_buffer s in
        bindE (tryE (prepared_write_batches E cf rows)
                 (\<lambda>e. thenE (observe_latency ''flush'' ''error'') (raise_wrapped e)))
          (flush_prepared E retry cf rows) s) s0)"

section \<open>Writing\<close>

definition dlq_record_of :: "pg_config \<Rightarrow> string \<Rightarrow> pg_exn \<Rightarrow> 'v row \<Rightarrow> 'v pg_dlq_record" where
  "dlq_record_of cf run_id error row =
     \<lparr>pd_pipeline_id = cf_poison_record_pipeline_id cf, pd_run_id = run_id, pd_stage = ''postgres_sink_flush'',
      pd_error_type = ''PostgresSinkWriteError'', pd_error = error, pd_record = row, pd_processed_record = row,
      pd_sink = ''postgres'', pd_max_attempts = cf_poison_record_max_attempts cf\<rparr>"

definition route_failed_buffer_to_dlq :: "'v pg_env \<Rightarrow> pg_config \<Rightarrow> pg_exn \<Rightarrow> ('v, unit) sink_op" where
  "route_failed_buffer_to_dlq E cf error s =
     (let failed_rows = sk_buffer s in
      if \<not> cf_poison_record_sink cf \<or> failed_rows = [] then returnE () s
      else let run_id = ''postgres-flush-'' @ en_now E (sk_log s) in
           thenE (call E (DLQWrite (map (dlq_record_of cf run_id error) failed_rows)))
                 (modifyE (clear_buffer_prefix (length failed_rows))) s)"

text \<open>\<^verbatim>\<open>except PostgresSinkWriteError as exc\<close> of \<open>enqueue_row\<close>.\<close>

definition enqueue_failed :: "'v pg_env \<Rightarrow> pg_config \<Rightarrow> pg_exn \<Rightarrow> ('v, unit) sink_op" where
  "enqueue_failed E cf e =
     (case e of
        OtherError _ _ \<Rightarrow> raiseE e
      | WriteError k _ \<Rightarrow>
          thenE (route_failed_buffer_to_dlq E cf e)
          (thenE (if \<not> cf_poison_record_sink cf \<and> cf_batch_size cf = 1 \<and> k \<noteq> UNKNOWN
                  then modifyE (\<lambda>s. s\<lparr>sk_buffer := []\<rparr>) else returnE ())
                 (raiseE e)))"

definition enqueue_row :: "'v pg_env \<Rightarrow> 'v retry \<Rightarrow> pg_config \<Rightarrow> 'v row \<Rightarrow> ('v, unit) sink_op" where
  "enqueue_row E retry cf row =
     thenE (modifyE (\<lambda>s. s\<lparr>sk_enqueue_count := Suc (sk_enqueue_count s), sk_buffer := sk_buffer s @ [row]\<rparr>))
     (\<lambda>s. if int (length (sk_buffer s)) \<ge> cf_batch_size cf
          then tryE (flush E retry cf) (enqueue_failed E cf) s
          else returnE () s)"

fun enqueue_rows :: "'v pg_env \<Rightarrow> 'v retry \<Rightarrow> pg_config \<Rightarrow> 'v row list \<Rightarrow> ('v, unit) sink_op" where
  "enqueue_rows E retry cf [] = returnE ()"
| "enqueue_rows E retry cf (row # rows) = thenE (enqueue_row E retry cf row) (enqueue_rows E retry cf rows)"

fun normalize_rows :: "pg_identifier list \<Rightarrow> target_column list \<Rightarrow> 'v row list \<Rightarrow> ('v, 'v row list) sink_op" where
  "normalize_rows keys cols [] = returnE []"
| "normalize_rows keys cols (row # rows) =
     bindE (with_counters (normalize_row_to_target keys row cols)) (\<lambda>r.
     bindE (normalize_rows keys cols rows) (\<lambda>rs. returnE (r # rs)))"

text \<open>The rows a sink operation is given are those of the row mapper.\<close>

definition align_before_enqueue :: "'v pg_env \<Rightarrow> pg_config \<Rightarrow> 'v row list \<Rightarrow> ('v, 'v row list) sink_op" where
  "align_before_enqueue E cf rows =
     (if cf_align_to_target cf
      then bindE (load_target_columns E cf) (\<lambda>cols. normalize_rows (wp_conflict_keys (cf_planner cf)) cols rows)
      else returnE rows)"

definition pg_write :: "'v pg_env \<Rightarrow> 'v retry \<Rightarrow> pg_config \<Rightarrow> 'v row \<Rightarrow> ('v, unit) sink_op" where
  "pg_write E retry cf row =
     bindE (align_before_enqueue E cf [row]) (\<lambda>rows.
     thenE (modifyE (\<lambda>s. s\<lparr>sk_write_call_count := Suc (sk_write_call_count s)\<rparr>))
           (enqueue_rows E retry cf rows))"

definition pg_write_batch :: "'v pg_env \<Rightarrow> 'v retry \<Rightarrow> pg_config \<Rightarrow> 'v row list \<Rightarrow> ('v, unit) sink_op" where
  "pg_write_batch E retry cf rows =
     (if rows = [] then returnE ()
      else thenE (modifyE (\<lambda>s. s\<lparr>sk_write_batch_call_count := Suc (sk_write_batch_call_count s)\<rparr>))
           (bindE (align_before_enqueue E cf rows) (enqueue_rows E retry cf)))"

section \<open>Closing\<close>

text \<open>\<open>handle_flush_error\<close> gives the exception that close raises at the end, if any.\<close>

definition handle_flush_error :: "'v pg_env \<Rightarrow> pg_config \<Rightarrow> pg_exn \<Rightarrow> 'v pg_sink \<Rightarrow> 'v pg_sink \<times> pg_exn option" where
  "handle_flush_error E cf exc s =
     (case exc of
        OtherError _ _ \<Rightarrow> (s, Some exc)
      | WriteError _ _ \<Rightarrow>
          if cf_poison_record_sink cf
          then (case route_failed_buffer_to_dlq E cf exc s of
                  (s1, Inl dlq_exc) \<Rightarrow> (s1, Some dlq_exc)
                | (s1, Inr _) \<Rightarrow> (s1, None))
          else (s, Some exc))"

definition pg_close :: "'v pg_env \<Rightarrow> 'v retry \<Rightarrow> pg_config \<Rightarrow> ('v, unit) sink_op" where
  "pg_close E retry cf s =
     (let (s1, flush_error) = (case flush E retry cf s of
                                 (s', Inr _) \<Rightarrow> (s', None)
                               | (s', Inl e) \<Rightarrow> handle_flush_error E cf e s')
      in thenE (\<lambda>s. if sk_conn s then thenE (call E CloseConn) (modifyE (\<lambda>s. s\<lparr>sk_conn := False\<rparr>)) s else returnE () s)
         (thenE (call E ClosePools)
         (thenE (if cf_poison_record_sink cf then call E DLQClose else returnE ())
                (case flush_error of None \<Rightarrow> returnE () | Some e \<Rightarrow> raiseE e))) s1)"

end
