(* ===== verification/PG_Atomicity.thy ===== *)
theory PG_Atomicity
  imports PG_Sink
begin

text \<open>
  What the PostgreSQL sink guarantees about the rows it is given.  The ledger reads the log of calls as the
  transactions that were committed; the frame lemmas say which operations leave it alone; an attempt commits the
  calls of its work as one transaction or nothing, and so does a flush, whatever \<^verbatim>\<open>retry_async\<close> decides.
\<close>

section \<open>The ledger\<close>

text \<open>
  What the log says of the database: the transactions whose commit returned, each as the calls that wrote in it,
  and the calls of the open transaction.
\<close>

definition ledger_step :: "'v pg_call list list \<times> 'v pg_call list \<Rightarrow> 'v pg_call \<times> bool \<Rightarrow> 'v pg_call list list \<times> 'v pg_call list" where
  "ledger_step l e =
     (case fst e of
        Commit \<Rightarrow> (if snd e then (fst l @ [snd l], []) else (fst l, []))
      | Rollback \<Rightarrow> (fst l, [])
      | Execute _ _ \<Rightarrow> (if snd e then (fst l, snd l @ [fst e]) else l)
      | CopyOpen _ \<Rightarrow> (if snd e then (fst l, snd l @ [fst e]) else l)
      | CopyRow _ \<Rightarrow> (if snd e then (fst l, snd l @ [fst e]) else l)
      | CopyClose \<Rightarrow> (if snd e then (fst l, snd l @ [fst e]) else l)
      | _ \<Rightarrow> l)"

definition ledger :: "'v pg_sink \<Rightarrow> 'v pg_call list list \<times> 'v pg_call list" where
  "ledger s = foldl ledger_step ([], []) (sk_log s)"

text \<open>The calls that write a batch, with the name of the staging table where there is one.\<close>

fun chunk_calls :: "pg_config \<Rightarrow> string list \<Rightarrow> 'v row list list \<Rightarrow> 'v pg_call list result" where
  "chunk_calls cf columns [] = Inr []"
| "chunk_calls cf columns (chunk # cs) =
     bindR (build_batch_upsert_sql (cf_planner cf) (map Name columns) (length chunk)) (\<lambda>sql.
     bindR (flatten_rows chunk columns) (\<lambda>params.
     bindR (chunk_calls cf columns cs) (\<lambda>calls. Inr (Execute sql params # calls))))"

fun copy_calls :: "string list \<Rightarrow> 'v row list \<Rightarrow> 'v pg_call list result" where
  "copy_calls columns [] = Inr [CopyClose]"
| "copy_calls columns (row # rows) =
     bindR (row_values row columns) (\<lambda>vs. bindR (copy_calls columns rows) (\<lambda>calls. Inr (CopyRow vs # calls)))"

definition batch_calls :: "pg_config \<Rightarrow> string \<Rightarrow> 'v prepared_batch \<Rightarrow> 'v pg_call list result" where
  "batch_calls cf staging_table b =
     (case cf_insert_mode cf of
        InsertSql \<Rightarrow> chunk_calls cf (pb_columns b) (iter_sql_chunks (cf_limits cf) (pb_rows b) (pb_columns b))
      | InsertCopy \<Rightarrow>
          bindR (build_copy_sql (cf_planner cf) (map Name (pb_columns b))) (\<lambda>sql.
          bindR (copy_calls (pb_columns b) (pb_rows b)) (\<lambda>calls. Inr (CopyOpen sql # calls)))
      | InsertCopyMerge \<Rightarrow>
          bindR (merge_sqls cf staging_table (pb_columns b)) (\<lambda>sqls. case sqls of (create_sql, copy_sql, merge_sql) \<Rightarrow>
          bindR (copy_calls (pb_columns b) (pb_rows b)) (\<lambda>calls.
            Inr (Execute create_sql [] # CopyOpen copy_sql # calls @ [Execute merge_sql []]))))"

text \<open>The batches of the rows: one batch of all rows, or the batches of the alignment with the target columns.\<close>

definition batches_of :: "pg_config \<Rightarrow> target_column list option \<Rightarrow> 'v row list \<Rightarrow> 'v prepared_batch list \<Rightarrow> bool" where
  "batches_of cf cache rows bs \<longleftrightarrow>
     (if cf_align_to_target cf
      then \<exists>cols c c'. cache = Some cols \<and>
             align_rows_to_target (wp_conflict_keys (cf_planner cf)) rows cols c = (c', Inr bs)
      else bs = [\<lparr>pb_columns = dict_keys (hd rows), pb_rows = rows, pb_row_indexes = [0..<length rows]\<rparr>])"

definition written_by :: "pg_config \<Rightarrow> target_column list option \<Rightarrow> 'v row list \<Rightarrow> 'v pg_call list \<Rightarrow> bool" where
  "written_by cf cache rows calls \<longleftrightarrow>
     (\<exists>bs css. batches_of cf cache rows bs \<and> list_all2 (\<lambda>b cs. \<exists>n. batch_calls cf n b = Inr cs) bs css \<and>
        calls = concat css)"

text \<open>A pooled connection that was used without error can be given back.\<close>

definition pooled_release_succeeds :: "'v pg_env \<Rightarrow> bool" where
  "pooled_release_succeeds E \<longleftrightarrow> (\<forall>log. en_outcome E log (ReleasePooled False) = None)"

section \<open>Frames\<close>

text \<open>\<open>framed\<close>: no transaction is committed; \<open>quiet\<close>: nor does the open one change.  Neither touches the buffer.\<close>

definition framed :: "'v pg_sink \<Rightarrow> 'v pg_sink \<Rightarrow> bool" where
  "framed s s' \<longleftrightarrow> sk_buffer s' = sk_buffer s \<and> sk_target_columns_cache s' = sk_target_columns_cache s \<and>
     fst (ledger s') = fst (ledger s)"

definition quiet :: "'v pg_sink \<Rightarrow> 'v pg_sink \<Rightarrow> bool" where
  "quiet s s' \<longleftrightarrow> framed s s' \<and> snd (ledger s') = snd (ledger s)"

lemma frame_orders [simp]: "reflp framed" "transp framed" "reflp quiet" "transp quiet"
  by (auto simp: reflp_def transp_def framed_def quiet_def)

lemma quiet_framed: "preserves quiet m \<Longrightarrow> preserves framed m"
  by (auto simp: preserves_def quiet_def)

lemma ledger_call: "ledger (fst (call E c s)) = ledger_step (ledger s) (c, en_outcome E (sk_log s) c = None)"
  by (simp add: call_def ledger_def Let_def)

lemma call_keeps: "sk_buffer (fst (call E c s)) = sk_buffer s" "sk_target_columns_cache (fst (call E c s)) = sk_target_columns_cache s"
  by (simp_all add: call_def Let_def)

lemma call_framed: "c \<noteq> Commit \<Longrightarrow> preserves framed (call E c)"
  by (cases c) (simp_all add: preserves_def framed_def ledger_call call_keeps ledger_step_def)

lemma call_quiet:
  "c \<in> {ImportPsycopg, Connect, AcquirePooled, CloseConn, ClosePools, DLQClose} \<or> (\<exists>a b. c = SelectColumns a b) \<or>
     (\<exists>b. c = ReleasePooled b) \<or> (\<exists>r. c = DLQWrite r) \<Longrightarrow> preserves quiet (call E c)"
  by (auto simp: preserves_def quiet_def framed_def ledger_call call_keeps ledger_step_def)

lemma update_quiet [intro!]:
  "preserves quiet (observe_latency a b)" "preserves quiet (lift_result r)" "preserves quiet (with_counters f)"
  "preserves quiet (raise_wrapped e)" "preserves quiet (build_stage_table_name E)"
  by (auto simp: preserves_def quiet_def framed_def ledger_def observe_latency_def lift_result_def with_counters_def
      raise_wrapped_def build_stage_table_name_def split: prod.splits)

lemma observe_retry_quiet: "quiet s (observe_retry s)"
  by (simp add: quiet_def framed_def observe_retry_def ledger_def)

lemma load_psycopg_quiet: "preserves quiet (load_psycopg E)"
proof -
  have "preserves quiet (thenE (call E ImportPsycopg) (modifyE (\<lambda>s. s\<lparr>sk_psycopg := True\<rparr>)))"
    by (rule preserves_then) (auto simp: call_quiet quiet_def framed_def ledger_def)
  then show ?thesis by (auto simp: preserves_def load_psycopg_def quiet_def framed_def)
qed

lemma get_conn_quiet: "preserves quiet (get_conn E)"
proof -
  have "preserves quiet (thenE (create_connection E) (modifyE (\<lambda>s. s\<lparr>sk_conn := True\<rparr>)))"
    unfolding create_connection_def
    by (intro preserves_then preserves_try load_psycopg_quiet call_quiet update_quiet preserves_basic frame_orders)
      (auto simp: quiet_def framed_def ledger_def)
  then show ?thesis by (auto simp: preserves_def get_conn_def quiet_def framed_def)
qed

lemma acquire_quiet: "preserves quiet (acquire_write_conn E cf)"
  unfolding acquire_write_conn_def by (auto intro!: preserves_then get_conn_quiet call_quiet)

lemma release_quiet: "preserves quiet (release_write_conn E p d)"
  unfolding release_write_conn_def close_connection_best_effort_def
  by (auto intro!: call_quiet preserves_then preserves_try simp: quiet_def framed_def ledger_def)

section \<open>Attempts\<close>

lemma release_ok:
  assumes "\<not> pooled \<or> pooled_release_succeeds E"
  shows "\<exists>s'. release_write_conn E pooled False s = (s', Inr ()) \<and> quiet s s'"
proof -
  have "\<exists>s'. release_write_conn E pooled False s = (s', Inr ())"
    using assms by (auto simp: release_write_conn_def call_def pooled_release_succeeds_def)
  then show ?thesis using preservesD [OF release_quiet] by blast
qed

lemma acquire_pooled: "acquire_write_conn E cf s = (s', Inr p) \<Longrightarrow> p \<longleftrightarrow> \<not> cf_pool_size cf \<le> 1"
  by (auto simp: acquire_write_conn_def thenE_def bindE_def split: if_splits prod.splits sum.splits)

text \<open>The body of a connection runs in a state that differs quietly from the first one.\<close>

lemma write_connection_cases:
  assumes run: "write_connection E cf body s = (s', r)" and rel: "cf_pool_size cf \<le> 1 \<or> pooled_release_succeeds E"
  shows "(\<exists>e. r = Inl e \<and> quiet s s') \<or>
    (\<exists>s1 s2. quiet s s1 \<and> body s1 = (s2, Inr ()) \<and> r = Inr () \<and> quiet s2 s') \<or>
    (\<exists>s1 s2 e e'. quiet s s1 \<and> body s1 = (s2, Inl e) \<and> r = Inl e' \<and> quiet s2 s')"
proof -
  let ?acq = "tryE (acquire_write_conn E cf) (\<lambda>e. thenE (observe_latency ''pool_acquire'' ''error'') (raiseE e))"
  have q: "preserves quiet ?acq"
    by (intro preserves_try preserves_then acquire_quiet update_quiet preserves_basic frame_orders)
  obtain s1 a where acq: "?acq s = (s1, a)" by (cases "?acq s")
  then have q1: "quiet s s1" using preservesD [OF q] by blast
  show ?thesis
  proof (cases a)
    case (Inl e)
    then show ?thesis using run acq q1 by (auto simp: write_connection_def bindE_def)
  next
    case (Inr pooled)
    then have pooled: "pooled \<longleftrightarrow> \<not> cf_pool_size cf \<le> 1" using acq acquire_pooled
      by (fastforce simp: tryE_def thenE_def bindE_def split: prod.splits sum.splits)
    define s2 where "s2 = s1\<lparr>sk_latencies := sk_latencies s1 @ [(''pool_acquire'', ''success'')]\<rparr>"
    have q2: "quiet s s2" using q1 by (auto simp: s2_def quiet_def framed_def ledger_def)
    obtain s3 b where body: "body s2 = (s3, b)" by (cases "body s2")
    have run': "finallyE (\<lambda>s. (s, b)) (release_write_conn E pooled (isl b)) s3 = (s', r)"
      using run acq Inr body by (simp add: write_connection_def bindE_def observe_latency_def s2_def)
    show ?thesis
    proof (cases b)
      case b: (Inr u)
      with release_ok [of pooled E s3] rel pooled obtain s4 where "release_write_conn E pooled False s3 = (s4, Inr ())" "quiet s3 s4"
        by auto
      with run' b have "s' = s4" "r = Inr ()" by (auto simp: finallyE_def)
      then show ?thesis using q2 body b \<open>quiet s3 s4\<close> by auto
    next
      case (Inl e)
      obtain s4 z where "release_write_conn E pooled True s3 = (s4, z)" by (cases "release_write_conn E pooled True s3")
      moreover from this have "quiet s3 s4" using preservesD [OF release_quiet] by blast
      ultimately have "s' = s4 \<and> isl r" using run' Inl by (cases z) (auto simp: finallyE_def)
      then show ?thesis using q2 body Inl \<open>quiet s3 s4\<close> by (cases r) auto
    qed
  qed
qed

lemma rollback_ledger:
  assumes "rollback_best_effort E s = (s', r)"
  shows "framed s s' \<and> snd (ledger s') = [] \<and> r = Inr ()"
proof -
  obtain s1 z where c: "call E Rollback s = (s1, z)" by (cases "call E Rollback s")
  then have "s' = s1 \<and> r = Inr ()" using assms by (cases z) (auto simp: rollback_best_effort_def tryE_def)
  moreover have "framed s s1" using preservesD [OF call_framed c] by simp
  moreover have "snd (ledger s1) = []" using ledger_call [of E Rollback s] c by (simp add: ledger_step_def)
  ultimately show ?thesis by simp
qed

text \<open>An attempt commits the calls of its work as one transaction, or leaves the ledger as it was.\<close>

definition attempt_outcome :: "('v, unit) sink_op \<Rightarrow> 'v pg_sink \<Rightarrow> 'v pg_sink \<times> (pg_exn + unit) \<Rightarrow> bool" where
  "attempt_outcome work s out \<longleftrightarrow>
     (case out of
        (s', Inl e) \<Rightarrow> quiet s s'
      | (s', Inr _) \<Rightarrow>
          sk_buffer s' = sk_buffer s \<and> sk_target_columns_cache s' = sk_target_columns_cache s \<and>
          (\<exists>s1 s2. quiet s s1 \<and> work s1 = (s2, Inr ()) \<and> ledger s' = (fst (ledger s) @ [snd (ledger s2)], [])))"

lemma attempt_atomic:
  assumes work: "preserves framed work" and idle: "snd (ledger s) = []"
    and rel: "cf_pool_size cf \<le> 1 \<or> pooled_release_succeeds E"
  shows "attempt_outcome work s (attempt E cf work s)"
proof -
  define body where "body = tryE (thenE work (call E Commit)) (\<lambda>e. thenE (rollback_best_effort E) (raiseE e))"
  obtain s' r where run: "attempt E cf work s = (s', r)" by (cases "attempt E cf work s")
  have failed: "quiet s1 s2" if fl: "body s1 = (s2, Inl e)" "snd (ledger s1) = []" for s1 s2 e
  proof -
    obtain s3 z where w: "work s1 = (s3, z)" by (cases "work s1")
    then have f: "framed s1 s3" using preservesD [OF work] by blast
    obtain s4 z4 where "thenE work (call E Commit) s1 = (s4, z4)" by (cases "thenE work (call E Commit) s1")
    then obtain e' where s4: "thenE work (call E Commit) s1 = (s4, Inl e')"
      using fl(1) by (cases z4) (auto simp: body_def tryE_def)
    have "framed s1 s4"
    proof (cases z)
      case Inl
      then show ?thesis using w s4 f by (simp add: thenE_def bindE_def)
    next
      case Inr
      then have c: "call E Commit s3 = (s4, Inl e')" using w s4 by (simp add: thenE_def bindE_def)
      then have "en_outcome E (sk_log s3) Commit \<noteq> None" by (auto simp: call_def Let_def split: option.splits)
      then have "framed s3 s4"
        using ledger_call [of E Commit s3] call_keeps [of E Commit s3] c by (simp add: framed_def ledger_step_def)
      then show ?thesis using f by (auto simp: framed_def)
    qed
    moreover obtain z' where "rollback_best_effort E s4 = (s2, z')"
      using fl(1) s4 rollback_ledger [of E s4]
      by (cases "rollback_best_effort E s4") (auto simp: body_def tryE_def thenE_def bindE_def)
    ultimately show ?thesis using rollback_ledger fl(2) by (fastforce simp: quiet_def framed_def)
  qed
  have committed: "framed s1 s3 \<and> work s1 = (s3, Inr ()) \<and> sk_buffer s2 = sk_buffer s3 \<and>
      sk_target_columns_cache s2 = sk_target_columns_cache s3 \<and> ledger s2 = (fst (ledger s3) @ [snd (ledger s3)], [])"
    if "body s1 = (s2, Inr ())" "work s1 = (s3, z)" for s1 s2 s3 z
  proof -
    have "z = Inr () \<and> call E Commit s3 = (s2, Inr ())"
      using that rollback_ledger
      by (fastforce simp: body_def tryE_def thenE_def bindE_def split: prod.splits sum.splits)
    moreover from this have "en_outcome E (sk_log s3) Commit = None" by (auto simp: call_def Let_def split: option.splits)
    ultimately show ?thesis
      using ledger_call [of E Commit s3] call_keeps [of E Commit s3] preservesD [OF work that(2)] that(2)
      by (simp add: ledger_step_def)
  qed
  from write_connection_cases [OF run [unfolded attempt_def, folded body_def] rel]
  consider (a) e where "r = Inl e" "quiet s s'"
    | (b) s1 s2 where "quiet s s1" "body s1 = (s2, Inr ())" "r = Inr ()" "quiet s2 s'"
    | (c) s1 s2 e e' where "quiet s s1" "body s1 = (s2, Inl e)" "r = Inl e'" "quiet s2 s'" by blast
  then show ?thesis
  proof cases
    case a
    then show ?thesis using run by (simp add: attempt_outcome_def)
  next
    case b
    obtain s3 z where w: "work s1 = (s3, z)" by (cases "work s1")
    note D = committed [OF b(2) w]
    have "ledger s' = (fst (ledger s) @ [snd (ledger s3)], [])"
      using D b by (auto simp: quiet_def framed_def prod_eq_iff)
    then show ?thesis using D b run by (auto simp: attempt_outcome_def quiet_def framed_def)
  next
    case c
    then have "quiet s1 s2" using failed idle by (simp add: quiet_def)
    then show ?thesis using run c by (auto simp: attempt_outcome_def quiet_def framed_def)
  qed
qed

lemma retried_attempt:
  assumes law: "retry_law retry" and work: "preserves framed work" and idle: "snd (ledger s) = []"
    and rel: "cf_pool_size cf \<le> 1 \<or> pooled_release_succeeds E"
  shows "attempt_outcome work s (retry (attempt E cf work) observe_retry s)"
proof -
  have "attempts (attempt E cf work) observe_retry s out \<Longrightarrow> snd (ledger s) = [] \<Longrightarrow> attempt_outcome work s out" for s out
  proof (induction rule: attempts.induct)
    case (last_attempt s)
    then show ?case using attempt_atomic [OF work _ rel] by blast
  next
    case (next_attempt s s1 e out)
    have "quiet s s1" using attempt_atomic [OF work next_attempt.prems rel] next_attempt.hyps(1) by (simp add: attempt_outcome_def)
    then have q: "quiet s (observe_retry s1)" using observe_retry_quiet frame_orders(4) by (metis transpD)
    then have "attempt_outcome work (observe_retry s1) out" using next_attempt by (simp add: quiet_def)
    then show ?case using q by (auto simp: attempt_outcome_def quiet_def framed_def split: prod.splits sum.splits)
  qed
  then show ?thesis using law idle by (simp add: retry_law_def)
qed


section \<open>The work of a batch\<close>

text \<open>\<open>writes m calls\<close>: \<open>m\<close> commits nothing, and when it returns it has added \<open>calls\<close> to the open transaction.\<close>

definition writes :: "('v, unit) sink_op \<Rightarrow> ('v pg_call list \<Rightarrow> bool) \<Rightarrow> bool" where
  "writes m P \<longleftrightarrow> preserves framed m \<and>
     (\<forall>s s'. m s = (s', Inr ()) \<longrightarrow> (\<exists>calls. P calls \<and> snd (ledger s') = snd (ledger s) @ calls))"

lemma writes_return: "writes (returnE ()) (\<lambda>c. c = [])"
  by (auto simp: writes_def)

lemma writes_call:
  assumes "c = CopyClose \<or> (\<exists>x. c = CopyOpen x) \<or> (\<exists>x. c = CopyRow x) \<or> (\<exists>x y. c = Execute x y)"
  shows "writes (call E c) (\<lambda>cs. cs = [c])"
proof -
  have "snd (ledger s') = snd (ledger s) @ [c]" if "call E c s = (s', Inr ())" for s s'
  proof -
    have "en_outcome E (sk_log s) c = None" using that by (auto simp: call_def Let_def split: option.splits)
    then show ?thesis using ledger_call [of E c s] that assms by (auto simp: ledger_step_def)
  qed
  moreover have "c \<noteq> Commit" using assms by auto
  ultimately show ?thesis using call_framed by (auto simp: writes_def)
qed

lemma writes_then:
  assumes "writes m P" "writes n Q"
  shows "writes (thenE m n) (\<lambda>cs. \<exists>a b. P a \<and> Q b \<and> cs = a @ b)"
proof -
  have "\<exists>a b. P a \<and> Q b \<and> snd (ledger s') = snd (ledger s) @ a @ b" if run: "thenE m n s = (s', Inr ())" for s s'
  proof -
    obtain s1 where "m s = (s1, Inr ())" "n s1 = (s', Inr ())"
      using run by (auto simp: thenE_def bindE_def split: prod.splits sum.splits)
    with assms obtain a b where "P a" "snd (ledger s1) = snd (ledger s) @ a" "Q b" "snd (ledger s') = snd (ledger s1) @ b"
      by (metis writes_def)
    then show ?thesis by auto
  qed
  moreover have "preserves framed (thenE m n)" using assms by (auto simp: writes_def)
  ultimately show ?thesis by (fastforce simp: writes_def)
qed

lemma writes_bind_lift:
  assumes "\<And>a. r = Inr a \<Longrightarrow> writes (f a) P"
  shows "writes (bindE (lift_result r) f) P"
proof (cases r)
  case (Inl e)
  then show ?thesis by (auto simp: writes_def preserves_def bindE_def lift_result_def framed_def)
next
  case (Inr a)
  then have "bindE (lift_result r) f = f a" by (auto simp: bindE_def lift_result_def)
  then show ?thesis using assms Inr by simp
qed

lemma writes_mono: "\<lbrakk>writes m P; \<And>c. P c \<Longrightarrow> Q c\<rbrakk> \<Longrightarrow> writes m Q"
  by (fastforce simp: writes_def)

lemma writes_chunks: "writes (execute_chunks E cf columns cs) (\<lambda>calls. chunk_calls cf columns cs = Inr calls)"
proof (induction cs)
  case Nil
  show ?case unfolding execute_chunks.simps by (rule writes_mono [OF writes_return]) simp
next
  case (Cons chunk cs)
  show ?case
    unfolding execute_chunks.simps
    by (intro writes_bind_lift, rule writes_mono [OF writes_then [OF writes_call Cons.IH]]) auto
qed

lemma writes_copy_each:
  "writes (thenE (copy_each E columns rows) (call E CopyClose)) (\<lambda>calls. copy_calls columns rows = Inr calls)"
proof (induction rows)
  case Nil
  show ?case unfolding copy_each.simps
    by (rule writes_mono [OF writes_then [OF writes_return writes_call]]) auto
next
  case (Cons row rows)
  have "thenE (bindE (lift_result (row_values row columns)) (\<lambda>vs. thenE (call E (CopyRow vs)) (copy_each E columns rows))) (call E CopyClose) =
      bindE (lift_result (row_values row columns)) (\<lambda>vs. thenE (call E (CopyRow vs)) (thenE (copy_each E columns rows) (call E CopyClose)))"
    by (rule ext) (auto simp: thenE_def bindE_def split: prod.splits sum.splits)
  then show ?case unfolding copy_each.simps
    by (simp only:) (intro writes_bind_lift, rule writes_mono [OF writes_then [OF writes_call Cons.IH]], auto)
qed

lemma writes_copy_rows:
  "writes (copy_rows E sql columns rows) (\<lambda>calls. \<exists>cs. copy_calls columns rows = Inr cs \<and> calls = CopyOpen sql # cs)"
  unfolding copy_rows_def by (rule writes_mono [OF writes_then [OF writes_call writes_copy_each]]) auto

lemma writes_merge:
  assumes "cf_insert_mode cf = InsertCopyMerge" "merge_sqls cf n columns = Inr sqls"
  shows "writes (execute_merge E sqls rows columns)
    (\<lambda>calls. batch_calls cf n \<lparr>pb_columns = columns, pb_rows = rows, pb_row_indexes = i\<rparr> = Inr calls)"
proof (cases sqls)
  case (fields create_sql copy_sql merge_sql)
  show ?thesis
    unfolding execute_merge_def fields prod.case
    by (rule writes_mono [OF writes_then [OF writes_call writes_then [OF writes_copy_rows writes_call]]])
      (use assms fields in \<open>auto simp: batch_calls_def\<close>)
qed

lemma writes_batch: "writes (execute_batch E cf b) (\<lambda>calls. \<exists>n. batch_calls cf n b = Inr calls)"
proof (cases "cf_insert_mode cf")
  case InsertSql
  then show ?thesis using writes_chunks by (simp add: execute_batch_def execute_sql_batch_def batch_calls_def)
next
  case InsertCopy
  have "writes (execute_copy_batch E cf (pb_rows b) (pb_columns b)) (\<lambda>calls. \<exists>n. batch_calls cf n b = Inr calls)"
    unfolding execute_copy_batch_def
    by (intro writes_bind_lift, rule writes_mono [OF writes_copy_rows]) (use InsertCopy in \<open>auto simp: batch_calls_def\<close>)
  then show ?thesis using InsertCopy by (simp add: execute_batch_def)
next
  case InsertCopyMerge
  have "writes (bindE (lift_result (merge_sqls cf n (pb_columns b))) (\<lambda>sqls. execute_merge E sqls (pb_rows b) (pb_columns b)))
      (\<lambda>calls. \<exists>n. batch_calls cf n b = Inr calls)" for n
    by (intro writes_bind_lift, rule writes_mono [OF writes_merge [OF InsertCopyMerge, where i = "pb_row_indexes b"]], assumption)
      (use InsertCopyMerge in \<open>auto simp: batch_calls_def intro!: exI [of _ n]\<close>)
  then have "writes (execute_copy_merge_batch E cf (pb_rows b) (pb_columns b)) (\<lambda>calls. \<exists>n. batch_calls cf n b = Inr calls)"
    by (auto simp: writes_def preserves_def execute_copy_merge_batch_def bindE_def build_stage_table_name_def)
  then show ?thesis using InsertCopyMerge by (simp add: execute_batch_def)
qed

abbreviation all_batch_calls :: "pg_config \<Rightarrow> 'v prepared_batch list \<Rightarrow> 'v pg_call list list \<Rightarrow> bool" where
  "all_batch_calls cf bs css \<equiv> list_all2 (\<lambda>b cs. \<exists>n. batch_calls cf n b = Inr cs) bs css"

lemma writes_batches: "writes (execute_batches E cf bs) (\<lambda>calls. \<exists>css. all_batch_calls cf bs css \<and> calls = concat css)"
proof (induction bs)
  case Nil
  show ?case unfolding execute_batches.simps by (rule writes_mono [OF writes_return]) simp
next
  case (Cons b bs)
  show ?case unfolding execute_batches.simps
    by (rule writes_mono [OF writes_then [OF writes_batch Cons.IH]]) (metis (mono_tags, lifting) concat.simps(2) list.rel_intros(2))
qed


section \<open>Flushing\<close>

text \<open>A write that is classified on failure keeps the outcome of its attempts.\<close>

lemma wrapped_outcome:
  assumes "attempt_outcome work s (m s)"
  shows "attempt_outcome work s (tryE m raise_wrapped s)"
proof (cases "m s")
  case (Pair s1 r)
  show ?thesis
  proof (cases r)
    case (Inl e)
    obtain s2 z where w: "(raise_wrapped e :: ('a, unit) sink_op) s1 = (s2, z)" by (cases "(raise_wrapped e :: ('a, unit) sink_op) s1")
    then have "quiet s1 s2" "isl z"
      by (auto simp: raise_wrapped_def with_counters_def quiet_def framed_def ledger_def split: prod.splits)
    then show ?thesis using assms Pair Inl w
      by (cases z) (auto simp: attempt_outcome_def tryE_def quiet_def framed_def)
  next
    case (Inr u)
    then show ?thesis using assms Pair by (simp add: tryE_def)
  qed
qed

text \<open>What a flush of rows may do to the ledger: one transaction with the calls \<open>P\<close> accepts, or nothing.\<close>

definition committed_once :: "('v pg_call list \<Rightarrow> bool) \<Rightarrow> 'v pg_sink \<Rightarrow> 'v pg_sink \<times> (pg_exn + unit) \<Rightarrow> bool" where
  "committed_once P s out \<longleftrightarrow>
     (case out of
        (s', Inl e) \<Rightarrow> quiet s s'
      | (s', Inr _) \<Rightarrow>
          sk_buffer s' = sk_buffer s \<and> sk_target_columns_cache s' = sk_target_columns_cache s \<and>
          (\<exists>calls. P calls \<and> ledger s' = (fst (ledger s) @ [calls], [])))"

lemma attempt_committed_once:
  assumes "attempt_outcome work s out" "writes work P" "snd (ledger s) = []"
  shows "committed_once P s out"
proof (cases out)
  case (Pair s' r)
  show ?thesis
  proof (cases r)
    case Inl
    then show ?thesis using assms(1) Pair by (simp add: attempt_outcome_def committed_once_def)
  next
    case (Inr u)
    then obtain s1 s2 where A: "quiet s s1" "work s1 = (s2, Inr ())" "ledger s' = (fst (ledger s) @ [snd (ledger s2)], [])"
      using assms(1) Pair by (auto simp: attempt_outcome_def)
    then obtain calls where "P calls" "snd (ledger s2) = calls" using assms(2,3) by (fastforce simp: writes_def quiet_def)
    then show ?thesis using assms(1) Pair Inr A by (auto simp: attempt_outcome_def committed_once_def)
  qed
qed

lemma flush_batch_once:
  assumes law: "retry_law retry" and idle: "snd (ledger s) = []"
    and rel: "cf_pool_size cf \<le> 1 \<or> pooled_release_succeeds E"
  shows "committed_once (\<lambda>calls. \<exists>n. batch_calls cf n b = Inr calls) s (flush_batch E retry cf b s)"
proof (cases "cf_insert_mode cf")
  case InsertSql
  have w: "writes (execute_sql_batch E cf (pb_rows b) (pb_columns b)) (\<lambda>calls. \<exists>n. batch_calls cf n b = Inr calls)"
    using writes_batch [of E cf b] InsertSql by (simp add: execute_batch_def)
  then have f: "preserves framed (execute_sql_batch E cf (pb_rows b) (pb_columns b))" by (simp add: writes_def)
  show ?thesis
    using attempt_committed_once [OF wrapped_outcome [where m = "retry (attempt E cf (execute_sql_batch E cf (pb_rows b) (pb_columns b))) observe_retry", OF retried_attempt [OF law f idle rel]] w idle] InsertSql
    by (simp add: flush_batch_def flush_via_sql_def)
next
  case InsertCopy
  have w: "writes (execute_copy_batch E cf (pb_rows b) (pb_columns b)) (\<lambda>calls. \<exists>n. batch_calls cf n b = Inr calls)"
    using writes_batch [of E cf b] InsertCopy by (simp add: execute_batch_def)
  then have f: "preserves framed (execute_copy_batch E cf (pb_rows b) (pb_columns b))" by (simp add: writes_def)
  show ?thesis
    using attempt_committed_once [OF wrapped_outcome [where m = "attempt E cf (execute_copy_batch E cf (pb_rows b) (pb_columns b))", OF attempt_atomic [OF f idle rel]] w idle] InsertCopy
    by (simp add: flush_batch_def flush_via_copy_def)
next
  case InsertCopyMerge
  let ?n = "''agora_stage_'' @ en_uuid E (sk_log s)"
  show ?thesis
  proof (cases "merge_sqls cf ?n (pb_columns b)")
    case (Inl e)
    then show ?thesis using InsertCopyMerge
      by (simp add: committed_once_def flush_batch_def flush_via_copy_merge_def build_stage_table_name_def lift_result_def bindE_def
          quiet_def framed_def)
  next
    case (Inr sqls)
    have w: "writes (execute_merge E sqls (pb_rows b) (pb_columns b)) (\<lambda>calls. \<exists>n. batch_calls cf n b = Inr calls)"
      by (rule writes_mono [OF writes_merge [OF InsertCopyMerge Inr, where i = "pb_row_indexes b"]])
        (use InsertCopyMerge Inr in \<open>auto simp: batch_calls_def intro!: exI [of _ ?n]\<close>)
    then have f: "preserves framed (execute_merge E sqls (pb_rows b) (pb_columns b))" by (simp add: writes_def)
    show ?thesis
      using attempt_committed_once [OF wrapped_outcome [where m = "retry (attempt E cf (execute_merge E sqls (pb_rows b) (pb_columns b))) observe_retry", OF retried_attempt [OF law f idle rel]] w idle] InsertCopyMerge Inr
      by (simp add: flush_batch_def flush_via_copy_merge_def build_stage_table_name_def lift_result_def bindE_def)
  qed
qed

lemma flush_aligned_once:
  assumes law: "retry_law retry" and idle: "snd (ledger s) = []"
    and rel: "cf_pool_size cf \<le> 1 \<or> pooled_release_succeeds E"
  shows "committed_once (\<lambda>calls. \<exists>css. all_batch_calls cf bs css \<and> calls = concat css) s
    (flush_aligned_batches_atomically E retry cf bs s)"
proof -
  note w = writes_batches [of E cf bs]
  then have f: "preserves framed (execute_batches E cf bs)" by (simp add: writes_def)
  show ?thesis
    using attempt_committed_once [OF wrapped_outcome [where m = "retry (attempt E cf (execute_batches E cf bs)) observe_retry", OF retried_attempt [OF law f idle rel]] w idle]
      attempt_committed_once [OF wrapped_outcome [where m = "attempt E cf (execute_batches E cf bs)", OF attempt_atomic [OF f idle rel]] w idle]
    by (simp add: flush_aligned_batches_atomically_def Let_def)
qed

text \<open>The batches of a flush are written in one transaction: there is one batch, or they go together.\<close>

lemma flush_batches_once:
  assumes "retry_law retry" "snd (ledger s) = []" "cf_pool_size cf \<le> 1 \<or> pooled_release_succeeds E"
    and one: "length bs = 1 \<or> cf_align_to_target cf \<and> bs \<noteq> []" and run: "flush_batches E retry cf bs s = (s', flushed, r)"
  shows "committed_once (\<lambda>calls. \<exists>css. all_batch_calls cf bs css \<and> calls = concat css) s (s', r)"
    "isl r \<Longrightarrow> flushed = {}"
proof -
  have "committed_once (\<lambda>calls. \<exists>css. all_batch_calls cf bs css \<and> calls = concat css) s (s', r) \<and> (isl r \<longrightarrow> flushed = {})"
  proof (cases "cf_align_to_target cf \<and> 1 < length bs")
    case True
    then show ?thesis using flush_aligned_once [OF assms(1-3), of bs] run
      by (auto simp: flush_batches_def split: prod.splits)
  next
    case False
    then obtain b where b: "bs = [b]" using one by (cases bs) auto
    obtain s1 z where fb: "flush_batch E retry cf b s = (s1, z)" by (cases "flush_batch E retry cf b s")
    have "s' = s1" "r = z" "isl z \<Longrightarrow> flushed = {}"
      using run b fb False by (cases z; auto simp: flush_batches_def)+
    moreover have "(\<exists>n. batch_calls cf n b = Inr calls) \<Longrightarrow> \<exists>css. all_batch_calls cf [b] css \<and> calls = concat css" for calls
      by (rule exI [of _ "[calls]"]) simp
    ultimately show ?thesis using flush_batch_once [OF assms(1-3), of b] fb b
      by (cases z) (simp_all add: committed_once_def, blast)
  qed
  then show "committed_once (\<lambda>calls. \<exists>css. all_batch_calls cf bs css \<and> calls = concat css) s (s', r)" "isl r \<Longrightarrow> flushed = {}"
    by blast+
qed

lemma discard_all: "discard_indexes {0..<length xs} xs = []"
proof -
  have "fold del_at (rev [0..<n]) xs = drop n xs" for n and xs :: "'a list"
  proof (induction n arbitrary: xs)
    case (Suc n)
    have "drop n (del_at n xs) = drop (Suc n) xs" by (auto simp: del_at_def)
    then show ?case using Suc by simp
  qed simp
  then show ?thesis by (simp add: discard_indexes_def)
qed

lemma discard_none: "discard_indexes {} xs = xs"
  by (simp add: discard_indexes_def)


lemma fetch_columns_quiet: "preserves quiet (fetch_columns E w)"
proof -
  have "preserves quiet (thenE (call E (SelectColumns (fst w) (snd w))) (returnE x))" for x :: "(string \<times> string \<times> bool \<times> string) list"
    by (intro preserves_then call_quiet preserves_basic frame_orders) auto
  then show ?thesis unfolding preserves_def fetch_columns_def by blast
qed

lemma store_target_columns_facts:
  assumes "store_target_columns rows s = (s', r)"
  shows "sk_buffer s' = sk_buffer s \<and> ledger s' = ledger s \<and> (\<forall>cols. r = Inr cols \<longrightarrow> sk_target_columns_cache s' = Some cols)"
  using assms
  by (auto simp: store_target_columns_def make_write_error_def with_counters_def ledger_def Let_def split: if_splits)

lemma load_target_columns_facts:
  assumes "load_target_columns E cf s = (s', r)"
  shows "sk_buffer s' = sk_buffer s \<and> ledger s' = ledger s \<and> (\<forall>cols. r = Inr cols \<longrightarrow> sk_target_columns_cache s' = Some cols)"
proof (cases "sk_target_columns_cache s")
  case (Some cols)
  then show ?thesis using assms by (auto simp: load_target_columns_def)
next
  case None
  define pre where "pre = thenE (get_conn E)
      (bindE (lift_result (table_lookup_condition (wp_allow_quoted (cf_planner cf)) (wp_table (cf_planner cf)))) (fetch_columns E))"
  have q: "preserves quiet pre"
    unfolding pre_def by (intro preserves_then preserves_bind get_conn_quiet update_quiet fetch_columns_quiet frame_orders)
  have "bindE pre store_target_columns s = (s', r)"
    using None assms by (simp add: load_target_columns_def pre_def thenE_def bindE_assoc)
  moreover obtain s1 z where p: "pre s = (s1, z)" by (cases "pre s")
  moreover have "sk_buffer s1 = sk_buffer s" "ledger s1 = ledger s"
    using preservesD [OF q p] by (simp_all add: quiet_def framed_def prod_eq_iff)
  ultimately show ?thesis using store_target_columns_facts [of _ s1 s' r] by (cases z) (auto simp: bindE_def)
qed

lemma prepared_batches_facts:
  assumes "prepared_write_batches E cf rows s = (s', r)" "rows \<noteq> []"
  shows "sk_buffer s' = sk_buffer s \<and> ledger s' = ledger s \<and>
    (\<forall>bs. r = Inr bs \<longrightarrow> batches_of cf (sk_target_columns_cache s') rows bs \<and>
       (length bs = 1 \<or> cf_align_to_target cf \<and> bs \<noteq> []))"
proof (cases "cf_align_to_target cf")
  case False
  then show ?thesis using assms by (auto simp: prepared_write_batches_def batches_of_def)
next
  case True
  obtain s1 z where l: "load_target_columns E cf s = (s1, z)" by (cases "load_target_columns E cf s")
  note L = load_target_columns_facts [OF l]
  show ?thesis
  proof (cases z)
    case (Inl e)
    then show ?thesis using assms True l L by (auto simp: prepared_write_batches_def bindE_def)
  next
    case (Inr cols)
    obtain c' q where a: "align_rows_to_target (wp_conflict_keys (cf_planner cf)) rows cols (sk_counters s1) = (c', q)"
      by (cases "align_rows_to_target (wp_conflict_keys (cf_planner cf)) rows cols (sk_counters s1)")
    then have s': "s' = s1\<lparr>sk_counters := c'\<rparr>" "r = q"
      using assms True l Inr by (auto simp: prepared_write_batches_def bindE_def with_counters_def)
    have "bs \<noteq> []" if "q = Inr bs" for bs
    proof -
      have "align_loop keys cols n rows g c = (c', Inr g') \<Longrightarrow> rows \<noteq> [] \<or> g \<noteq> [] \<Longrightarrow> g' \<noteq> []" for keys n rows g c c' and g' :: "'a groups"
      proof (induction keys cols n rows g c arbitrary: c' g' rule: align_loop.induct)
        case (2 keys cols index row rows g c)
        have "add_to_group k e g \<noteq> []" for k e by (cases g) (auto simp: add_to_group_def)
        then show ?case using 2 by (auto simp: Let_def split: prod.splits sum.splits)
      qed auto
      then show ?thesis using a that assms(2) by (fastforce simp: align_rows_to_target_def split: prod.splits sum.splits)
    qed
    then show ?thesis using s' L Inr a True by (auto simp: batches_of_def ledger_def)
  qed
qed

lemma flush_prepared_outcome:
  assumes "retry_law retry" "snd (ledger s) = []" "cf_pool_size cf \<le> 1 \<or> pooled_release_succeeds E"
    and "batches_of cf (sk_target_columns_cache s) (sk_buffer s) bs" "length bs = 1 \<or> cf_align_to_target cf \<and> bs \<noteq> []"
    and "flush_prepared E retry cf (sk_buffer s) bs s = (s', r)"
  shows "case r of
      Inl e \<Rightarrow> sk_buffer s' = sk_buffer s \<and> ledger s' = ledger s
    | Inr _ \<Rightarrow> sk_buffer s' = [] \<and>
        (\<exists>calls. written_by cf (sk_target_columns_cache s') (sk_buffer s) calls \<and> ledger s' = (fst (ledger s) @ [calls], []))"
proof -
  obtain s1 flushed z where f: "flush_batches E retry cf bs s = (s1, flushed, z)" by (cases "flush_batches E retry cf bs s")
  note F = flush_batches_once [OF assms(1-3,5) f]
  show ?thesis
  proof (cases z)
    case (Inl e)
    then show ?thesis using assms(6) f F
      by (auto simp: flush_prepared_def committed_once_def quiet_def framed_def prod_eq_iff discard_buffer_indexes_def
          discard_none thenE_def bindE_def observe_latency_def ledger_def)
  next
    case (Inr u)
    then obtain calls where "\<exists>css. all_batch_calls cf bs css \<and> calls = concat css" "ledger s1 = (fst (ledger s) @ [calls], [])"
        "sk_buffer s1 = sk_buffer s" "sk_target_columns_cache s1 = sk_target_columns_cache s"
      using F(1) by (auto simp: committed_once_def)
    moreover from this have "written_by cf (sk_target_columns_cache s1) (sk_buffer s) calls"
      using assms(4) by (auto simp: written_by_def)
    ultimately show ?thesis using assms(6) f Inr
      by (auto simp: flush_prepared_def thenE_def bindE_def observe_latency_def note_flush_success_def
          discard_buffer_indexes_def ledger_def discard_all)
  qed
qed

lemma prepare_failed:
  assumes "tryE (prepared_write_batches E cf rows) (\<lambda>e. thenE (observe_latency ''flush'' ''error'') (raise_wrapped e)) s = (s', Inl e)"
    "rows \<noteq> []"
  shows "sk_buffer s' = sk_buffer s" "ledger s' = ledger s"
proof -
  obtain s1 z where p: "prepared_write_batches E cf rows s = (s1, z)" by (cases "prepared_write_batches E cf rows s")
  note P = prepared_batches_facts [OF p assms(2)]
  obtain e' where z: "z = Inl e'" using assms(1) p by (cases z) (auto simp: tryE_def)
  have q: "preserves quiet (thenE (observe_latency ''flush'' ''error'') (raise_wrapped e') :: ('a, 'a prepared_batch list) sink_op)"
    by (intro preserves_then update_quiet frame_orders)
  have "quiet s1 s'" using preservesD [OF q, of s1 s'] assms(1) p z by (simp add: tryE_def)
  then show "sk_buffer s' = sk_buffer s" "ledger s' = ledger s" using P by (simp_all add: quiet_def framed_def prod_eq_iff)
qed

lemma flush_outcome:
  assumes "retry_law retry" "snd (ledger s) = []" "cf_pool_size cf \<le> 1 \<or> pooled_release_succeeds E"
    and "flush E retry cf s = (s', r)" "sk_buffer s \<noteq> []"
  shows "case r of
      Inl e \<Rightarrow> sk_buffer s' = sk_buffer s \<and> ledger s' = ledger s
    | Inr _ \<Rightarrow> sk_buffer s' = [] \<and>
        (\<exists>calls. written_by cf (sk_target_columns_cache s') (sk_buffer s) calls \<and> ledger s' = (fst (ledger s) @ [calls], []))"
proof -
  define prep where "prep = tryE (prepared_write_batches E cf (sk_buffer s))
                 (\<lambda>e. thenE (observe_latency ''flush'' ''error'') (raise_wrapped e))"
  obtain s1 z1 where l: "load_psycopg E s = (s1, z1)" by (cases "load_psycopg E s")
  have 1: "sk_buffer s1 = sk_buffer s" "ledger s1 = ledger s"
    using preservesD [OF load_psycopg_quiet l] by (simp_all add: quiet_def framed_def prod_eq_iff)
  show ?thesis
  proof (cases z1)
    case Inl
    then show ?thesis using assms(4,5) l 1 by (auto simp: flush_def thenE_def bindE_def)
  next
    case z1: Inr
    obtain s2 z2 where p: "prep s1 = (s2, z2)" by (cases "prep s1")
    show ?thesis
    proof (cases z2)
      case (Inl e)
      then have "s' = s2" "r = Inl e" using assms(4,5) l z1 p 1 by (auto simp: flush_def thenE_def bindE_def prep_def)
      then show ?thesis using prepare_failed [OF p [unfolded prep_def Inl] assms(5)] 1 by simp
    next
      case (Inr bs)
      then have p': "prepared_write_batches E cf (sk_buffer s) s1 = (s2, Inr bs)"
        using p by (auto simp: prep_def tryE_def thenE_def bindE_def raise_wrapped_def with_counters_def observe_latency_def
            split: prod.splits sum.splits)
      note P = prepared_batches_facts [OF p' assms(5)]
      have "flush_prepared E retry cf (sk_buffer s2) bs s2 = (s', r)"
        using assms(4,5) l z1 p Inr 1 P by (auto simp: flush_def thenE_def bindE_def prep_def)
      from flush_prepared_outcome [OF assms(1) _ assms(3) _ _ this] show ?thesis using P 1 assms(2) by (auto split: sum.splits)
    qed
  qed
qed

text \<open>
  C6: a flush writes all rows of the buffer or none.  When it returns, the buffer is empty and exactly one
  transaction was committed, made of the statements that write the rows; when it raises, no commit returned and
  the buffer is as it was.
\<close>

theorem flush_all_or_nothing:
  assumes "retry_law retry" "snd (ledger s) = []" "cf_pool_size cf \<le> 1 \<or> pooled_release_succeeds E"
    and "flush E retry cf s = (s', r)"
  shows "case r of
      Inl e \<Rightarrow> sk_buffer s' = sk_buffer s \<and> ledger s' = ledger s
    | Inr _ \<Rightarrow> sk_buffer s' = [] \<and>
        (if sk_buffer s = [] then s' = s
         else \<exists>calls. written_by cf (sk_target_columns_cache s') (sk_buffer s) calls \<and>
                ledger s' = (fst (ledger s) @ [calls], []))"
proof (cases "sk_buffer s = []")
  case True
  then show ?thesis using assms(4) by (auto simp: flush_def)
next
  case False
  then show ?thesis using flush_outcome [OF assms False] by simp
qed

text \<open>The dead-letter route: all rows of the buffer in one write, or the buffer stays.\<close>

lemma route_outcome:
  assumes "route_failed_buffer_to_dlq E cf e s = (s', r)" "cf_poison_record_sink cf" "sk_buffer s \<noteq> []"
  shows "ledger s' = ledger s" "isl r \<Longrightarrow> sk_buffer s' = sk_buffer s"
    "r = Inr () \<Longrightarrow> sk_buffer s' = [] \<and> (\<exists>recs. last (sk_log s') = (DLQWrite recs, True) \<and> map pd_record recs = sk_buffer s)"
proof -
  let ?recs = "map (dlq_record_of cf (''postgres-flush-'' @ en_now E (sk_log s)) e) (sk_buffer s)"
  have recs: "map pd_record ?recs = sk_buffer s" by (simp add: o_def dlq_record_of_def)
  obtain s1 z where c: "call E (DLQWrite ?recs) s = (s1, z)" by (cases "call E (DLQWrite ?recs) s")
  have l: "ledger s1 = ledger s" "sk_buffer s1 = sk_buffer s"
    using ledger_call [of E "DLQWrite ?recs" s] call_keeps [of E "DLQWrite ?recs" s] c by (simp_all add: ledger_step_def)
  have s': "(s', r) = (case z of Inl x \<Rightarrow> (s1, Inl x) | Inr _ \<Rightarrow> (clear_buffer_prefix (length (sk_buffer s)) s1, Inr ()))"
    using assms c by (auto simp: route_failed_buffer_to_dlq_def thenE_def bindE_def Let_def split: sum.splits)
  then show "ledger s' = ledger s" "isl r \<Longrightarrow> sk_buffer s' = sk_buffer s"
    using l by (auto simp: clear_buffer_prefix_def ledger_def split: sum.splits)
  assume "r = Inr ()"
  then have "z = Inr ()" "s' = clear_buffer_prefix (length (sk_buffer s)) s1" using s' by (auto split: sum.splits)
  moreover from this have "last (sk_log s1) = (DLQWrite ?recs, True)" using c by (auto simp: call_def Let_def split: option.splits)
  ultimately show "sk_buffer s' = [] \<and> (\<exists>recs. last (sk_log s') = (DLQWrite recs, True) \<and> map pd_record recs = sk_buffer s)"
    using l recs by (auto simp: clear_buffer_prefix_def)
qed

lemma route_log:
  assumes "route_failed_buffer_to_dlq E cf e s = (s', r)" "cf_poison_record_sink cf" "sk_buffer s \<noteq> []"
  shows "sk_log s' \<noteq> []"
  using assms by (auto simp: route_failed_buffer_to_dlq_def thenE_def bindE_def Let_def call_def clear_buffer_prefix_def split: option.splits)

lemma enqueue_failed_outcome:
  assumes "enqueue_failed E cf e s = (s', r)"
  shows "isl r \<and> ledger s' = ledger s \<and>
    (sk_buffer s' = sk_buffer s \<or>
     (sk_buffer s' = [] \<and> (\<exists>recs. last (sk_log s') = (DLQWrite recs, True) \<and> map pd_record recs = sk_buffer s)) \<or>
     (sk_buffer s' = [] \<and> \<not> cf_poison_record_sink cf \<and> cf_batch_size cf = 1 \<and>
       (\<exists>k reason. r = Inl (WriteError k reason) \<and> k \<noteq> UNKNOWN)))"
proof (cases e)
  case OtherError
  then show ?thesis using assms by (auto simp: enqueue_failed_def)
next
  case (WriteError k reason)
  show ?thesis
  proof (cases "cf_poison_record_sink cf \<and> sk_buffer s \<noteq> []")
    case False
    then show ?thesis using assms WriteError
      by (cases "\<not> cf_poison_record_sink cf \<and> cf_batch_size cf = 1 \<and> k \<noteq> UNKNOWN")
        (auto simp: enqueue_failed_def route_failed_buffer_to_dlq_def thenE_def bindE_def ledger_def)
  next
    case True
    obtain s1 z where route: "route_failed_buffer_to_dlq E cf e s = (s1, z)" by (cases "route_failed_buffer_to_dlq E cf e s")
    then have "s' = s1 \<and> isl r" using assms WriteError True
      by (cases z) (auto simp: enqueue_failed_def thenE_def bindE_def)
    then show ?thesis using route_outcome [OF route] True by (cases z) auto
  qed
qed

lemma enqueue_outcome:
  assumes "retry_law retry" "snd (ledger s) = []" "cf_pool_size cf \<le> 1 \<or> pooled_release_succeeds E"
    and run: "enqueue_row E retry cf row s = (s', r)"
  shows "(case r of
      Inr _ \<Rightarrow>
        (sk_buffer s' = sk_buffer s @ [row] \<and> int (length (sk_buffer s')) < cf_batch_size cf \<and> ledger s' = ledger s) \<or>
        (sk_buffer s' = [] \<and> (\<exists>calls. written_by cf (sk_target_columns_cache s') (sk_buffer s @ [row]) calls \<and>
           ledger s' = (fst (ledger s) @ [calls], [])))
    | Inl e \<Rightarrow> ledger s' = ledger s \<and>
        (sk_buffer s' = sk_buffer s @ [row] \<or>
         (sk_buffer s' = [] \<and> (\<exists>recs. last (sk_log s') = (DLQWrite recs, True) \<and> map pd_record recs = sk_buffer s @ [row])) \<or>
         (sk_buffer s' = [] \<and> \<not> cf_poison_record_sink cf \<and> cf_batch_size cf = 1 \<and>
           (\<exists>k reason. e = WriteError k reason \<and> k \<noteq> UNKNOWN))))"
proof -
  define s1 where "s1 = s\<lparr>sk_enqueue_count := Suc (sk_enqueue_count s), sk_buffer := sk_buffer s @ [row]\<rparr>"
  have s1: "sk_buffer s1 = sk_buffer s @ [row]" "ledger s1 = ledger s" by (simp_all add: s1_def ledger_def)
  show ?thesis
  proof (cases "int (length (sk_buffer s1)) \<ge> cf_batch_size cf")
    case False
    then show ?thesis using run s1 by (auto simp: enqueue_row_def s1_def ledger_def)
  next
    case True
    then have run': "tryE (flush E retry cf) (enqueue_failed E cf) s1 = (s', r)"
      using run by (simp add: enqueue_row_def s1_def)
    obtain s2 z where f: "flush E retry cf s1 = (s2, z)" by (cases "flush E retry cf s1")
    note F = flush_outcome [OF assms(1) _ assms(3) f]
    show ?thesis
    proof (cases z)
      case (Inr u)
      then show ?thesis using run' f F s1 assms(2) by (auto simp: tryE_def)
    next
      case (Inl e)
      then have "enqueue_failed E cf e s2 = (s', r)" using run' f by (simp add: tryE_def)
      from enqueue_failed_outcome [OF this] show ?thesis using Inl F s1 assms(2) by (cases r) auto
    qed
  qed
qed

text \<open>
  C19: a row given to the sink leaves its buffer only into a committed transaction, into the dead-letter sink, or,
  for a sink with batches of one row and no dead-letter sink, with a classified error that is raised; in this last
  case the rows kept from earlier failures go with it.
\<close>

theorem enqueued_row_accounted:
  assumes "retry_law retry" "snd (ledger s) = []" "cf_pool_size cf \<le> 1 \<or> pooled_release_succeeds E"
    and run: "enqueue_row E retry cf row s = (s', r)"
  shows "(case r of
      Inr _ \<Rightarrow>
        (sk_buffer s' = sk_buffer s @ [row] \<and> int (length (sk_buffer s')) < cf_batch_size cf \<and> ledger s' = ledger s) \<or>
        (sk_buffer s' = [] \<and> (\<exists>calls. written_by cf (sk_target_columns_cache s') (sk_buffer s @ [row]) calls \<and>
           ledger s' = (fst (ledger s) @ [calls], [])))
    | Inl e \<Rightarrow> ledger s' = ledger s \<and>
        (sk_buffer s' = sk_buffer s @ [row] \<or>
         (sk_buffer s' = [] \<and> (\<exists>recs. last (sk_log s') = (DLQWrite recs, True) \<and> map pd_record recs = sk_buffer s @ [row])) \<or>
         (sk_buffer s' = [] \<and> \<not> cf_poison_record_sink cf \<and> cf_batch_size cf = 1 \<and>
           (\<exists>k reason. e = WriteError k reason \<and> k \<noteq> UNKNOWN))))"
  by (rule enqueue_outcome [OF assms])

text \<open>
  C39: a sink does not close silently over rows it has not written: when \<open>close\<close> returns normally, its buffer is
  empty, the rows having been committed or given to the dead-letter sink.
\<close>

theorem close_reports_unwritten_rows:
  assumes "retry_law retry" "snd (ledger s) = []" "cf_pool_size cf \<le> 1 \<or> pooled_release_succeeds E"
    and "pg_close E retry cf s = (s', Inr u)" "sk_buffer s \<noteq> []"
  shows "sk_buffer s' = [] \<and>
    ((\<exists>calls. written_by cf (sk_target_columns_cache s') (sk_buffer s) calls \<and> ledger s' = (fst (ledger s) @ [calls], [])) \<or>
     (ledger s' = ledger s \<and> (\<exists>recs. (DLQWrite recs, True) \<in> set (sk_log s') \<and> map pd_record recs = sk_buffer s)))"
proof -
  define R where "R = (\<lambda>s s' :: 'a pg_sink. quiet s s' \<and> set (sk_log s) \<subseteq> set (sk_log s'))"
  have order: "reflp R" "transp R" by (auto simp: R_def reflp_def transp_def quiet_def framed_def)
  define cleanup where "cleanup = (\<lambda>err. thenE (\<lambda>s. if sk_conn s then thenE (call E CloseConn) (modifyE (\<lambda>s. s\<lparr>sk_conn := False\<rparr>)) s else returnE () s)
         (thenE (call E ClosePools)
         (thenE (if cf_poison_record_sink cf then call E DLQClose else returnE ())
                (case err of None \<Rightarrow> returnE () | Some e \<Rightarrow> raiseE e))) :: ('a, unit) sink_op)"
  have calls: "preserves R (call E c)" if "c \<in> {CloseConn, ClosePools, DLQClose}" for c
    using call_quiet [of c E] that by (auto simp: R_def preserves_def call_def Let_def)
  have conn: "preserves R (thenE (call E CloseConn) (modifyE (\<lambda>s. s\<lparr>sk_conn := False\<rparr>)))"
    by (intro preserves_then order calls preserves_basic) (auto simp: R_def quiet_def framed_def ledger_def)
  have first: "preserves R (\<lambda>s. if sk_conn s then thenE (call E CloseConn) (modifyE (\<lambda>s. s\<lparr>sk_conn := False\<rparr>)) s else returnE () s)"
    using conn order(1) by (auto simp: preserves_def reflp_def)
  have cleanup: "preserves R (cleanup err)" for err
    unfolding cleanup_def by (intro preserves_then order first calls) (auto split: option.split intro!: calls order)
  have raises: "isl (snd (cleanup (Some e) s))" for e s
    by (auto simp: cleanup_def thenE_def bindE_def split: prod.splits sum.splits)
  obtain s1 z where f: "flush E retry cf s = (s1, z)" by (cases "flush E retry cf s")
  note F = flush_outcome [OF assms(1-3) f assms(5)]
  show ?thesis
  proof (cases z)
    case (Inr v)
    then have "cleanup None s1 = (s', Inr u)" using assms(4) f by (simp add: pg_close_def cleanup_def)
    then have "R s1 s'" using preservesD [OF cleanup] by blast
    then show ?thesis using F Inr by (auto simp: R_def quiet_def framed_def prod_eq_iff)
  next
    case (Inl e)
    obtain s2 err where h: "handle_flush_error E cf e s1 = (s2, err)" by (cases "handle_flush_error E cf e s1")
    then have c: "cleanup err s2 = (s', Inr u)" using assms(4) f Inl by (simp add: pg_close_def cleanup_def)
    then have "err = None" using raises by (cases err) (auto, metis isl_def snd_conv sum.disc(2))
    then obtain k reason where e: "e = WriteError k reason" "cf_poison_record_sink cf"
        and route: "route_failed_buffer_to_dlq E cf e s1 = (s2, Inr ())"
      using h by (auto simp: handle_flush_error_def split: pg_exn.splits if_splits prod.splits sum.splits)
    have "R s2 s'" using preservesD [OF cleanup c] .
    moreover have "sk_buffer s2 = [] \<and> ledger s2 = ledger s1 \<and>
        (\<exists>recs. (DLQWrite recs, True) \<in> set (sk_log s2) \<and> map pd_record recs = sk_buffer s1)"
    proof -
      have "sk_buffer s1 \<noteq> []" using F Inl assms(5) by simp
      note O = route_outcome [OF route e(2) this]
      moreover have "sk_log s2 \<noteq> []" using O(3) route_log [OF route e(2) \<open>sk_buffer s1 \<noteq> []\<close>] by simp
      ultimately show ?thesis by (metis last_in_set)
    qed
    ultimately show ?thesis using F Inl by (auto simp: R_def quiet_def framed_def prod_eq_iff)
  qed
qed

section \<open>Instances\<close>

text \<open>Two attempts, a database whose first commit is lost, one that refuses every statement, and a small sink.\<close>

definition first_commit_lost :: "nat pg_env" where
  "first_commit_lost =
     \<lparr>en_outcome = (\<lambda>log c. if c = Commit \<and> \<not> list_ex (\<lambda>e. fst e = Commit) log
                            then Some (OtherError (Some ''08006'') (Exn ''OperationalError'' [] ''lost'')) else None),
      en_columns = (\<lambda>_. []), en_indexes = (\<lambda>_. [[''id'']]), en_uuid = (\<lambda>_. ''0''), en_now = (\<lambda>_. ''now'')\<rparr>"

definition unique_violated :: "nat pg_env" where
  "unique_violated = first_commit_lost
     \<lparr>en_outcome := (\<lambda>log c. case c of Execute _ _ \<Rightarrow> Some (OtherError (Some ''23505'') (Exn ''UniqueViolation'' [] ''id'')) | _ \<Rightarrow> None)\<rparr>"

definition small_config :: "bool \<Rightarrow> pg_config" where
  "small_config poison =
     \<lparr>cf_planner = \<lparr>wp_table = Name ''t'', wp_conflict_keys = [Name ''id''], wp_upsert = True, wp_allow_quoted = False\<rparr>,
      cf_limits = \<lparr>wl_max_rows_per_statement = None, wl_max_parameters_per_statement = 32000\<rparr>,
      cf_insert_mode = InsertSql, cf_align_to_target = False, cf_batch_size = 2, cf_pool_size = 1,
      cf_poison_record_sink = poison, cf_poison_record_pipeline_id = ''p'', cf_poison_record_max_attempts = None\<rparr>"

definition one_row :: "nat pg_sink" where
  "one_row = pg_sink_init\<lparr>sk_buffer := [[(''id'', 1)]]\<rparr>"

lemma small_sink_idle: "snd (ledger one_row) = []" "cf_pool_size (small_config b) \<le> 1"
  by (simp_all add: one_row_def pg_sink_init_def ledger_def small_config_def)

lemmas run_simps = flush_def flush_prepared_def flush_batches_def flush_batch_def flush_via_sql_def attempt_def
  write_connection_def acquire_write_conn_def release_write_conn_def close_connection_best_effort_def get_conn_def
  create_connection_def load_psycopg_def prepared_write_batches_def execute_sql_batch_def rollback_best_effort_def
  observe_latency_def observe_retry_def note_flush_success_def discard_buffer_indexes_def call_def lift_result_def
  raise_wrapped_def wrap_write_error_def with_counters_def classify_sqlstate_def make_write_error_def
  pg_observe_poison_record_def two_attempts_def thenE_def bindE_def tryE_def finallyE_def

lemma small_insert: "\<exists>sql. build_batch_upsert_sql (cf_planner (small_config b)) [Name ''id''] n = Inr sql"
proof -
  have "quote_identifier True False (Name ''t'') = Inr ''\"t\"''" "quote_identifier False False (Name ''id'') = Inr ''\"id\"''"
    by code_simp+
  then show ?thesis by (simp add: small_config_def build_batch_upsert_sql_def column_list_def update_set_def)
qed

lemma small_config_simps:
  "iter_sql_chunks (cf_limits (small_config b)) [[(''id'', n)]] [''id''] = [[[(''id'', n)]]]"
  "iter_sql_chunks (cf_limits (small_config b)) [[(''id'', n)], [(''id'', m)]] [''id''] = [[[(''id'', n)], [(''id'', m)]]]"
  "\<not> cf_align_to_target (small_config b)" "cf_insert_mode (small_config b) = InsertSql" "cf_pool_size (small_config b) = 1"
  "cf_batch_size (small_config b) = 2" "cf_poison_record_sink (small_config b) = b"
  by (simp_all add: small_config_def iter_sql_chunks_def statement_row_limit_def chunks.simps)

lemmas instance_simps = run_simps small_config_simps one_row_def pg_sink_init_def first_commit_lost_def unique_violated_def

lemma lost_commit_run:
  "case flush first_commit_lost two_attempts (small_config False) one_row of
     (s, r) \<Rightarrow> r = Inr () \<and> sk_retry_count s = 1 \<and> map length (fst (ledger s)) = [1]"
proof -
  obtain sql where "build_batch_upsert_sql (cf_planner (small_config False)) [Name ''id''] (Suc 0) = Inr sql"
    using small_insert by blast
  then show ?thesis by (simp add: instance_simps ledger_def ledger_step_def)
qed

lemma violation_run:
  "case enqueue_row unique_violated two_attempts (small_config True) [(''id'', 2)] one_row of
     (s, r) \<Rightarrow> r = Inl (WriteError CONSTRAINT_VIOLATION ''unique_violation'') \<and> sk_buffer s = []"
proof -
  obtain sql where "build_batch_upsert_sql (cf_planner (small_config True)) [Name ''id''] (Suc (Suc 0)) = Inr sql"
    using small_insert by blast
  then show ?thesis
    by (simp add: instance_simps enqueue_row_def enqueue_failed_def route_failed_buffer_to_dlq_def clear_buffer_prefix_def discard_none Let_def)
qed

lemma violation_close:
  "case pg_close unique_violated two_attempts (small_config True) one_row of
     (s, r) \<Rightarrow> r = Inr () \<and> sk_flush_count s = 0 \<and> ledger s = ([], [])"
proof -
  obtain sql where "build_batch_upsert_sql (cf_planner (small_config True)) [Name ''id''] (Suc 0) = Inr sql"
    using small_insert by blast
  then show ?thesis
    by (simp add: instance_simps pg_close_def handle_flush_error_def route_failed_buffer_to_dlq_def clear_buffer_prefix_def
        discard_none ledger_def ledger_step_def Let_def)
qed

lemma first_open_returns: "snd (pg_open first_commit_lost (small_config True) one_row) = Inr ()"
proof -
  have "table_catalog_condition ''ns'' ''tbl'' False (Name ''t'') =
      Inr (''ns.nspname = ANY(current_schemas(false)) AND tbl.relname = %s'', [''t''])"
    "identifier_parts False False (Name ''id'') = Inr [''id'']"
    by code_simp+
  then show ?thesis
    by (simp add: pg_open_def validate_upsert_constraint_def has_matching_upsert_constraint_def small_config_def
        run_simps one_row_def pg_sink_init_def first_commit_lost_def Let_def)
qed

theorem flush_all_or_nothing_witness:
  "case flush first_commit_lost two_attempts (small_config False) one_row of
     (s, r) \<Rightarrow> r = Inr () \<and> sk_buffer s = [] \<and> sk_retry_count s = 1 \<and> map length (fst (ledger s)) = [1]"
proof -
  obtain s r where out: "flush first_commit_lost two_attempts (small_config False) one_row = (s, r)"
    by (cases "flush first_commit_lost two_attempts (small_config False) one_row")
  with lost_commit_run have "r = Inr () \<and> sk_retry_count s = 1 \<and> map length (fst (ledger s)) = [1]" by simp
  then show ?thesis using flush_all_or_nothing [OF two_attempts_law small_sink_idle(1) disjI1 [OF small_sink_idle(2)] out] out by simp
qed

theorem enqueued_row_accounted_witness:
  "case enqueue_row unique_violated two_attempts (small_config True) [(''id'', 2)] one_row of
     (s, r) \<Rightarrow> r = Inl (WriteError CONSTRAINT_VIOLATION ''unique_violation'') \<and> sk_buffer s = [] \<and>
       (\<exists>recs. last (sk_log s) = (DLQWrite recs, True) \<and> map pd_record recs = [[(''id'', 1)], [(''id'', 2)]])"
proof -
  obtain s r where out: "enqueue_row unique_violated two_attempts (small_config True) [(''id'', 2)] one_row = (s, r)"
    by (cases "enqueue_row unique_violated two_attempts (small_config True) [(''id'', 2)] one_row")
  with violation_run have "r = Inl (WriteError CONSTRAINT_VIOLATION ''unique_violation'') \<and> sk_buffer s = []" by simp
  then show ?thesis
    using enqueued_row_accounted [OF two_attempts_law small_sink_idle(1) disjI1 [OF small_sink_idle(2)] out] out
    by (auto simp: small_config_simps one_row_def)
qed

theorem close_reports_unwritten_rows_witness:
  "case pg_close unique_violated two_attempts (small_config True) one_row of
     (s, r) \<Rightarrow> r = Inr () \<and> sk_buffer s = [] \<and> sk_flush_count s = 0 \<and> ledger s = ([], []) \<and>
       (\<exists>recs. (DLQWrite recs, True) \<in> set (sk_log s) \<and> map pd_record recs = [[(''id'', 1)]])"
proof -
  obtain s r where out: "pg_close unique_violated two_attempts (small_config True) one_row = (s, r)"
    by (cases "pg_close unique_violated two_attempts (small_config True) one_row")
  with violation_close have run: "r = Inr ()" "sk_flush_count s = 0" "ledger s = ([], [])" by simp_all
  have "sk_buffer one_row \<noteq> []" by (simp add: one_row_def)
  from close_reports_unwritten_rows [OF two_attempts_law small_sink_idle(1) disjI1 [OF small_sink_idle(2)] out [unfolded run(1)] this]
  show ?thesis using out run by (auto simp: one_row_def)
qed

text \<open>The log only grows.\<close>

definition grows :: "'v pg_sink \<Rightarrow> 'v pg_sink \<Rightarrow> bool" where
  "grows s s' \<longleftrightarrow> prefix (sk_log s) (sk_log s')"

lemma grows_orders [simp]: "reflp grows" "transp grows"
  by (auto simp: grows_def reflp_def transp_def)

lemma call_grows: "preserves grows (call E c)"
  by (simp add: preserves_def grows_def call_def Let_def)

lemma release_grows: "preserves grows (release_write_conn E p d)"
  unfolding release_write_conn_def close_connection_best_effort_def
  by (auto intro!: call_grows preserves_then preserves_try simp: grows_def)

lemma write_connection_Inr:
  assumes "write_connection E cf body s = (s', Inr u)"
  shows "\<exists>s1 s2. body s1 = (s2, Inr ()) \<and> grows s2 s'"
proof -
  from assms obtain s1 pooled where f: "(case body s1 of (s2, r) \<Rightarrow> finallyE (\<lambda>s. (s, r)) (release_write_conn E pooled (isl r)) s2) = (s', Inr u)"
    unfolding write_connection_def bindE_Inr thenE_Inr by blast
  obtain s2 r where body: "body s1 = (s2, r)" by (cases "body s1")
  obtain s3 z where rel: "release_write_conn E pooled (isl r) s2 = (s3, z)" by (cases "release_write_conn E pooled (isl r) s2")
  from body f rel have "r = Inr ()" "s' = s3" by (auto simp: finallyE_def split: sum.split_asm)
  then show ?thesis using body preservesD [OF release_grows rel] by blast
qed

lemma lift_result_Inr: "lift_result r s = (s', Inr a) \<longleftrightarrow> r = Inr a \<and> s' = s"
  by (auto simp: lift_result_def split: sum.splits)

text \<open>The log shows a query of the constraints that answered with an index on exactly the conflict keys.\<close>

definition upsert_key_found :: "'v pg_env \<Rightarrow> pg_config \<Rightarrow> 'v pg_sink \<Rightarrow> bool" where
  "upsert_key_found E cf s \<longleftrightarrow>
     (\<exists>keys log w n cols. first_parts (wp_allow_quoted (cf_planner cf)) (wp_conflict_keys (cf_planner cf)) = Inr keys \<and>
        prefix (log @ [(SelectConstraints (fst w) (snd w) n, True)]) (sk_log s) \<and>
        cols \<in> set (en_indexes E log) \<and> mset cols = mset keys)"

lemma matching_constraint_found:
  assumes "has_matching_upsert_constraint E cf s = (s', Inr True)"
  shows "upsert_key_found E cf s'"
proof -
  from assms obtain w keys s1 where k: "first_parts (wp_allow_quoted (cf_planner cf)) (wp_conflict_keys (cf_planner cf)) = Inr keys"
      and c: "thenE (call E (SelectConstraints (fst w) (snd w) (length (sort keys))))
        (returnE (list_ex (\<lambda>columns. sort columns = sort keys) (en_indexes E (sk_log s1)))) s1 = (s', Inr True)"
    unfolding has_matching_upsert_constraint_def bindE_Inr lift_result_Inr Let_def by blast
  then have call: "call E (SelectConstraints (fst w) (snd w) (length (sort keys))) s1 = (s', Inr ())"
      and "list_ex (\<lambda>columns. sort columns = sort keys) (en_indexes E (sk_log s1))"
    unfolding thenE_Inr by auto
  then obtain cols where cols: "cols \<in> set (en_indexes E (sk_log s1))" "sort cols = sort keys" by (auto simp: list_ex_iff)
  from cols(2) have "mset cols = mset keys" by (metis mset_sort)
  moreover from call have "sk_log s' = sk_log s1 @ [(SelectConstraints (fst w) (snd w) (length (sort keys)), True)]"
    by (auto simp: call_def Let_def split: option.splits)
  ultimately show ?thesis unfolding upsert_key_found_def using k cols(1) by (metis prefix_order.refl)
qed

lemma upsert_key_found_grows: "\<lbrakk>upsert_key_found E cf s; grows s s'\<rbrakk> \<Longrightarrow> upsert_key_found E cf s'"
  unfolding upsert_key_found_def grows_def by (meson prefix_order.trans)

lemma validated_upsert:
  assumes "validate_upsert_constraint E cf s = (s', Inr u)" "wp_upsert (cf_planner cf)" "\<not> sk_preflight_complete s"
  shows "sk_preflight_complete s' \<and> upsert_key_found E cf s'"
proof -
  from assms obtain s1 where w: "write_connection E cf
      (bindE (has_matching_upsert_constraint E cf) (\<lambda>has_constraint. thenE (call E Rollback)
        (if has_constraint then returnE ()
         else raiseE (OtherError None (ValueError ''PostgresSink upsert requires a PRIMARY KEY or UNIQUE constraint whose key columns exactly match conflict_keys.'')))))
      s = (s1, Inr ())" and s': "s' = s1\<lparr>sk_preflight_complete := True\<rparr>"
    by (auto simp: validate_upsert_constraint_def thenE_Inr)
  from write_connection_Inr [OF w] obtain s2 s3 s4 where h: "has_matching_upsert_constraint E cf s2 = (s3, Inr True)"
      and c: "call E Rollback s3 = (s4, Inr ())" and g: "grows s4 s1"
    by (auto simp: bindE_Inr thenE_Inr split: if_splits)
  have "upsert_key_found E cf s1"
    using matching_constraint_found [OF h] preservesD [OF call_grows c] g upsert_key_found_grows by blast
  then show ?thesis by (simp add: s' upsert_key_found_def)
qed

text \<open>
  C40: a sink that opens for upserts has found a unique index on exactly its conflict keys; a sink that fails to open
  has closed the dead-letter sink it had opened.  The check is made by the first opening of a sink whose preflight is
  not deferred: under a schema adapter, which applies the schema after the opening and then makes the check itself, the
  sink opens without it, as one does that has passed it before.
\<close>

theorem open_checks_upsert_key:
  assumes "pg_open E cf s = (s', r)" "wp_upsert (cf_planner cf)" "\<not> sk_defer_preflight s" "\<not> sk_preflight_complete s"
  shows "case r of
      Inr _ \<Rightarrow> sk_preflight_complete s' \<and> upsert_key_found E cf s'
    | Inl e \<Rightarrow> cf_poison_record_sink cf \<longrightarrow> (fst (last (sk_log s')) = DLQClose \<or> last (sk_log s') = (DLQOpen, False))"
proof -
  let ?defer = "\<lambda>s. if wp_upsert (cf_planner cf) \<and> \<not> sk_defer_preflight s then validate_upsert_constraint E cf s else returnE () s"
  let ?cleanup = "\<lambda>e. thenE (if cf_poison_record_sink cf then tryE (call E DLQClose) (\<lambda>_. returnE ()) else returnE ()) (raiseE e)"
  obtain s1 z where first: "(if cf_poison_record_sink cf then call E DLQOpen else returnE ()) s = (s1, z)"
    by (cases "(if cf_poison_record_sink cf then call E DLQOpen else returnE ()) s")
  have s1: "sk_defer_preflight s1 = sk_defer_preflight s" "sk_preflight_complete s1 = sk_preflight_complete s"
    using first by (auto simp: call_def Let_def split: if_splits)
  show ?thesis
  proof (cases z)
    case (Inl e)
    then have "s' = s1" "r = Inl e" using assms(1) first by (auto simp: pg_open_def thenE_def bindE_def)
    then show ?thesis using first Inl by (auto simp: call_def Let_def split: if_splits option.splits)
  next
    case (Inr u)
    then have run: "tryE ?defer ?cleanup s1 = (s', r)" using assms(1) first by (simp add: pg_open_def thenE_def bindE_def)
    obtain s2 z2 where v: "validate_upsert_constraint E cf s1 = (s2, z2)" by (cases "validate_upsert_constraint E cf s1")
    have d: "?defer s1 = (s2, z2)" using v assms(2,3) s1 by simp
    show ?thesis
    proof (cases z2)
      case (Inl e)
      then have "?cleanup e s2 = (s', r)" using run d by (simp add: tryE_def)
      then show ?thesis
        by (auto simp: thenE_def bindE_def tryE_def call_def Let_def split: if_splits option.splits)
    next
      case (Inr u)
      then have "s' = s2" "r = Inr ()" using run d by (simp_all add: tryE_def)
      then show ?thesis using validated_upsert [OF v [unfolded Inr]] assms(2,4) s1 by auto
    qed
  qed
qed

theorem open_checks_upsert_key_witness:
  "case pg_open first_commit_lost (small_config True) one_row of
     (s, r) \<Rightarrow> r = Inr () \<and> sk_preflight_complete s"
proof -
  obtain s r where out: "pg_open first_commit_lost (small_config True) one_row = (s, r)"
    by (cases "pg_open first_commit_lost (small_config True) one_row")
  have "wp_upsert (cf_planner (small_config True))" by (simp add: small_config_def)
  moreover have "\<not> sk_defer_preflight one_row" "\<not> sk_preflight_complete one_row" by (simp_all add: one_row_def pg_sink_init_def)
  moreover have "r = Inr ()" using out first_open_returns by simp
  ultimately show ?thesis using open_checks_upsert_key [OF out] out by simp
qed

text \<open>
  With batches of one row, a row kept after an unclassified failure is dropped when a later row is rejected with a
  classified error.
\<close>

lemma kept_row_dropped:
  assumes "flush E retry cf (s\<lparr>sk_enqueue_count := Suc (sk_enqueue_count s), sk_buffer := sk_buffer s @ [row]\<rparr>) =
      (s', Inl (WriteError k reason))"
    "k \<noteq> UNKNOWN" "cf_batch_size cf = 1" "\<not> cf_poison_record_sink cf"
  shows "sk_buffer (fst (enqueue_row E retry cf row s)) = []"
  using assms by (simp add: enqueue_row_def tryE_def enqueue_failed_def route_failed_buffer_to_dlq_def thenE_def bindE_def)

text \<open>Copying a row writes the columns of the first row and drops the others; an insert of such rows is refused.\<close>

lemma copy_drops_extra_columns:
  "row_values [(''id'', 1 :: nat), (''v'', 2)] [''id''] = Inr [1]"
  "isl (flatten_rows [[(''id'', 0)], [(''id'', 1 :: nat), (''v'', 2)]] [''id''])"
  by simp_all

end
