(* ===== verification/Kafka_Postgres.thy ===== *)
theory Kafka_Postgres
  imports Kafka_Durability PG_Atomicity
begin

text \<open>
  Kafka to PostgreSQL (\<^verbatim>\<open>postgres/kafka.py\<close>): the delivery fields a row takes from its record, the sink and the runtime
  that are built from one delivery contract, and the composition of the Kafka source, the runtime and the
  PostgreSQL sink: no offset may be committed before the row of its message is in a committed transaction.
\<close>

section \<open>Delivery fields\<close>

record kafka_postgres_delivery =
  kd_key_field :: string
  kd_metadata_field :: "string option"

definition default_kafka_postgres_delivery :: kafka_postgres_delivery where
  "default_kafka_postgres_delivery = \<lparr>kd_key_field = ''kafka_delivery_key'', kd_metadata_field = Some ''kafka_metadata''\<rparr>"

text \<open>\<open>is_none\<close> tells the value \<^verbatim>\<open>None\<close> from the others.\<close>

definition keep_delivery_field :: "('v \<Rightarrow> bool) \<Rightarrow> string \<Rightarrow> (string, 'v) dict \<Rightarrow> 'v row \<Rightarrow> 'v row" where
  "keep_delivery_field is_none field record row =
     (case dict_get record field of
        None \<Rightarrow> row
      | Some v \<Rightarrow> if \<not> is_none v \<and> field \<notin> set (dict_keys row) then dict_set field v row else row)"

definition with_kafka_delivery_fields ::
    "('v \<Rightarrow> bool) \<Rightarrow> kafka_postgres_delivery \<Rightarrow> ((string, 'v) dict \<Rightarrow> 'v row result) \<Rightarrow> (string, 'v) dict \<Rightarrow> 'v row result" where
  "with_kafka_delivery_fields is_none D row_mapper rec =
     bindR (row_mapper rec) (\<lambda>mapped.
       let row = keep_delivery_field is_none (kd_key_field D) rec mapped
       in Inr (case kd_metadata_field D of None \<Rightarrow> row | Some field \<Rightarrow> keep_delivery_field is_none field rec row))"

section \<open>The sink and the runtime\<close>

text \<open>The arguments of \<open>build_kafka_postgres_sink\<close>; an absent conflict key, like an empty one, is the empty list.\<close>

record kafka_postgres_sink_args =
  ka_table :: pg_identifier
  ka_conflict_key :: "pg_identifier list"
  ka_batch_size :: int
  ka_upsert :: bool
  ka_insert_mode :: string
  ka_pool_size :: int
  ka_max_rows_per_statement :: "int option"
  ka_max_parameters_per_statement :: int
  ka_delivery :: kafka_postgres_delivery

definition insert_mode_of :: "string \<Rightarrow> insert_mode" where
  "insert_mode_of mode = (if mode = ''copy'' then InsertCopy else if mode = ''copy_merge'' then InsertCopyMerge else InsertSql)"

definition pg_identifier_text :: "pg_identifier \<Rightarrow> string" where
  "pg_identifier_text k = (case k of Name s \<Rightarrow> s | QuotedIdentifier parts \<Rightarrow> join [DOT] parts)"

text \<open>The configuration of the sink, and whether it promises that replays are harmless.\<close>

definition build_kafka_postgres_sink :: "kafka_postgres_sink_args \<Rightarrow> (pg_config \<times> bool) result" where
  "build_kafka_postgres_sink A =
     (let conflict_keys = (if ka_conflict_key A = [] then [Name (kd_key_field (ka_delivery A))] else ka_conflict_key A);
          replay_safe = (ka_upsert A \<and> Name (kd_key_field (ka_delivery A)) \<in> set conflict_keys);
          p = \<lparr>wp_table = ka_table A, wp_conflict_keys = conflict_keys, wp_upsert = ka_upsert A, wp_allow_quoted = False\<rparr>;
          L = \<lparr>wl_max_rows_per_statement = ka_max_rows_per_statement A,
               wl_max_parameters_per_statement = ka_max_parameters_per_statement A\<rparr>
      in bindR (check_sink_arguments p L (ka_insert_mode A) replay_safe (ka_batch_size A) (ka_pool_size A)) (\<lambda>_.
         bindR (resolve_write_safety_policy ''strict'') (\<lambda>align.
           Inr (\<lparr>cf_planner = p, cf_limits = L, cf_insert_mode = insert_mode_of (ka_insert_mode A), cf_align_to_target = align,
                 cf_batch_size = ka_batch_size A, cf_pool_size = ka_pool_size A, cf_poison_record_sink = False,
                 cf_poison_record_pipeline_id = ''postgres:'' @ pg_identifier_text (ka_table A),
                 cf_poison_record_max_attempts = None\<rparr>, replay_safe))))"

text \<open>The options \<^verbatim>\<open>KafkaPostgresRuntime\<close> drains with; the records are dictionaries.\<close>

definition kafka_postgres_options ::
    "('r \<Rightarrow> (string, 'v) dict result) \<Rightarrow> bool \<Rightarrow> kafka_postgres_delivery \<Rightarrow> (delivery_context \<Rightarrow> 'v) \<Rightarrow> (string \<Rightarrow> 'v) \<Rightarrow> int option
     \<Rightarrow> ('r, (string, 'v) dict, 'v) runtime_options" where
  "kafka_postgres_options transform flush_each_record D context_value key_value max_records =
     \<lparr>ro_transform = transform, ro_flush = flush_each_record, ro_metadata_field = kd_metadata_field D,
      ro_key_field = Some (kd_key_field D), ro_transactional = False, ro_max_records = max_records,
      ro_mapping = Some, ro_of_mapping = id, ro_context_value = context_value, ro_key_value = key_value\<rparr>"

text \<open>The PostgreSQL sink as the runtime sees it: its methods, with the exceptions they raise.\<close>

definition exn_of_pg :: "pg_exn \<Rightarrow> exn" where
  "exn_of_pg e = (case e of WriteError k reason \<Rightarrow> Exn ''PostgresSinkWriteError'' [''RuntimeError'', ''Exception''] reason
                          | OtherError _ x \<Rightarrow> x)"

definition pg_method :: "('v, 'a) sink_op \<Rightarrow> ('v pg_sink, 'a) eff" where
  "pg_method m q = (case m q of (q', Inl e) \<Rightarrow> (q', Inl (exn_of_pg e)) | (q', Inr a) \<Rightarrow> (q', Inr a))"

definition postgres_base_sink ::
    "'v pg_env \<Rightarrow> 'v retry \<Rightarrow> pg_config \<Rightarrow> ('u \<Rightarrow> 'v row result) \<Rightarrow> ('u, 'v pg_sink) base_sink" where
  "postgres_base_sink E retry cf row_mapper =
     \<lparr>bs_open = pg_method (pg_open E cf),
      bs_write = (\<lambda>u. case row_mapper u of Inl e \<Rightarrow> raiseE e | Inr row \<Rightarrow> pg_method (pg_write E retry cf row)),
      bs_flush = pg_method (flush E retry cf),
      bs_close = pg_method (pg_close E retry cf),
      bs_wait_for_pending_acks = None,
      bs_transaction = None\<rparr>"

lemma built_config:
  assumes "build_kafka_postgres_sink A = Inr (cf, replay_safe)"
  shows "cf_pool_size cf = ka_pool_size A" "\<not> cf_align_to_target cf"
  using assms by (auto simp: build_kafka_postgres_sink_def resolve_write_safety_policy_def Let_def bindR_Inr_iff)

section \<open>The contract of the sink\<close>

text \<open>A row is committed when it is one of the rows that a committed transaction wrote.\<close>

definition row_committed :: "pg_config \<Rightarrow> 'v row \<Rightarrow> 'v pg_sink \<Rightarrow> bool" where
  "row_committed cf row q \<longleftrightarrow> (\<exists>calls \<in> set (fst (ledger q)). \<exists>rows. row \<in> set rows \<and> written_by cf None rows calls)"

definition safe_environment :: "'v pg_env \<Rightarrow> 'v retry \<Rightarrow> pg_config \<Rightarrow> bool" where
  "safe_environment E retry cf \<longleftrightarrow>
     retry_law retry \<and> (cf_pool_size cf \<le> 1 \<or> pooled_release_succeeds E) \<and> \<not> cf_align_to_target cf"

lemma written_unaligned: "\<not> cf_align_to_target cf \<Longrightarrow> written_by cf cache rows calls = written_by cf None rows calls"
  by (simp add: written_by_def batches_of_def)

definition extends_ledger :: "'v pg_sink \<Rightarrow> 'v pg_sink \<Rightarrow> bool" where
  "extends_ledger q q' \<longleftrightarrow> (\<exists>new. ledger q' = (fst (ledger q) @ new, []))"

lemma extends_same: "\<lbrakk>snd (ledger q) = []; ledger q' = ledger q\<rbrakk> \<Longrightarrow> extends_ledger q q'"
  unfolding extends_ledger_def by (intro exI [of _ "[]"]) (simp add: prod_eq_iff)

lemma extends_one: "ledger q' = (fst (ledger q) @ [calls], []) \<Longrightarrow> extends_ledger q q'"
  by (auto simp: extends_ledger_def)

lemma extendsD:
  assumes "extends_ledger q q'"
  shows "snd (ledger q') = []" "row_committed cf row q \<Longrightarrow> row_committed cf row q'"
  using assms by (auto simp: extends_ledger_def row_committed_def)

lemma flush_steps:
  assumes "safe_environment E retry cf" "snd (ledger q) = []" "flush E retry cf q = (q', r)"
  shows "extends_ledger q q'" "\<lbrakk>r = Inr (); row \<in> set (sk_buffer q)\<rbrakk> \<Longrightarrow> row_committed cf row q'"
proof -
  have env: "retry_law retry" "cf_pool_size cf \<le> 1 \<or> pooled_release_succeeds E" "\<not> cf_align_to_target cf"
    using assms(1) by (simp_all add: safe_environment_def)
  have "extends_ledger q q' \<and> (r = Inr () \<longrightarrow> row \<in> set (sk_buffer q) \<longrightarrow> row_committed cf row q')"
  proof (cases "sk_buffer q = []")
    case True
    then show ?thesis using assms(2,3) by (auto simp: flush_def extends_same)
  next
    case False
    note F = flush_outcome [OF env(1) assms(2) env(2) assms(3) False]
    show ?thesis
    proof (cases r)
      case (Inl e)
      then have "ledger q' = ledger q" using F by simp
      then show ?thesis using Inl assms(2) extends_same by simp
    next
      case (Inr u)
      then obtain calls where "written_by cf None (sk_buffer q) calls" "ledger q' = (fst (ledger q) @ [calls], [])"
        using F written_unaligned [OF env(3)] by auto
      then show ?thesis using extends_one by (auto simp: row_committed_def)
    qed
  qed
  then show "extends_ledger q q'"
    "\<lbrakk>r = Inr (); row \<in> set (sk_buffer q)\<rbrakk> \<Longrightarrow> row_committed cf row q'" by auto
qed

lemma write_steps:
  assumes "safe_environment E retry cf" "snd (ledger q) = []" "pg_write E retry cf row q = (q', r)"
  shows "extends_ledger q q'" "r = Inr () \<Longrightarrow> row_committed cf row q' \<or> row \<in> set (sk_buffer q')"
proof -
  have env: "retry_law retry" "cf_pool_size cf \<le> 1 \<or> pooled_release_succeeds E" "\<not> cf_align_to_target cf"
    using assms(1) by (simp_all add: safe_environment_def)
  define q1 where "q1 = q\<lparr>sk_write_call_count := Suc (sk_write_call_count q)\<rparr>"
  have q1: "ledger q1 = ledger q" by (simp add: q1_def ledger_def)
  obtain q2 z where e: "enqueue_row E retry cf row q1 = (q2, z)" by (cases "enqueue_row E retry cf row q1")
  have run: "q' = q2 \<and> r = z"
    using assms(3) env(3) e by (auto simp: pg_write_def align_before_enqueue_def q1_def thenE_def bindE_def split: sum.splits)
  have O: "case z of Inr _ \<Rightarrow> (sk_buffer q2 = sk_buffer q1 @ [row] \<and> ledger q2 = ledger q) \<or>
      (\<exists>calls. written_by cf None (sk_buffer q1 @ [row]) calls \<and> ledger q2 = (fst (ledger q) @ [calls], []))
    | Inl e \<Rightarrow> ledger q2 = ledger q"
    using enqueue_outcome [OF env(1) _ env(2) e] q1 assms(2) written_unaligned [OF env(3)] by (auto split: sum.splits)
  have "extends_ledger q q2 \<and> (z = Inr () \<longrightarrow> row_committed cf row q2 \<or> row \<in> set (sk_buffer q2))"
  proof (cases z)
    case (Inl e)
    then show ?thesis using Inl O q1 assms(2) extends_same [of q q2] by simp
  next
    case (Inr u)
    from O Inr consider "sk_buffer q2 = sk_buffer q1 @ [row]" "ledger q2 = ledger q"
      | calls where "written_by cf None (sk_buffer q1 @ [row]) calls" "ledger q2 = (fst (ledger q) @ [calls], [])" by auto
    then show ?thesis
    proof cases
      case 1
      then show ?thesis using assms(2) extends_same [of q q2] by simp
    next
      case (2 calls)
      then have "row_committed cf row q2" by (auto simp: row_committed_def)
      then show ?thesis using 2 extends_one by auto
    qed
  qed
  then show "extends_ledger q q'" "r = Inr () \<Longrightarrow> row_committed cf row q' \<or> row \<in> set (sk_buffer q')"
    using run by auto
qed


definition sink_ready :: "'v pg_env \<Rightarrow> 'v retry \<Rightarrow> pg_config \<Rightarrow> 'v pg_sink \<Rightarrow> bool" where
  "sink_ready E retry cf q \<longleftrightarrow> safe_environment E retry cf \<and> snd (ledger q) = []"

definition mapped_committed :: "pg_config \<Rightarrow> ('u \<Rightarrow> 'v row result) \<Rightarrow> 'u \<Rightarrow> 'v pg_sink \<Rightarrow> bool" where
  "mapped_committed cf row_mapper u q \<longleftrightarrow> (\<exists>row. row_mapper u = Inr row \<and> row_committed cf row q)"

definition mapped_buffered :: "('u \<Rightarrow> 'v row result) \<Rightarrow> 'u \<Rightarrow> 'v pg_sink \<Rightarrow> bool" where
  "mapped_buffered row_mapper u q \<longleftrightarrow> (\<exists>row. row_mapper u = Inr row \<and> row \<in> set (sk_buffer q))"

lemma pg_method_run: "pg_method m q = (q', r) \<Longrightarrow> \<exists>z. m q = (q', z) \<and> (r = Inr () \<longrightarrow> z = Inr ())"
  by (auto simp: pg_method_def split: prod.splits sum.splits)

lemma sink_ready_extends:
  assumes "sink_ready E retry cf q" "extends_ledger q q'"
  shows "sink_ready E retry cf q' \<and> (mapped_committed cf f v q \<longrightarrow> mapped_committed cf f v q')"
  using assms extendsD [OF assms(2)] by (auto simp: sink_ready_def mapped_committed_def)

lemma sink_write_steps:
  assumes "sink_ready E retry cf q" "bs_write (postgres_base_sink E retry cf row_mapper) u q = (q', r)"
  shows "extends_ledger q q'" "r = Inr () \<Longrightarrow> mapped_committed cf row_mapper u q' \<or> mapped_buffered row_mapper u q'"
proof -
  have env: "safe_environment E retry cf" "snd (ledger q) = []" using assms(1) by (simp_all add: sink_ready_def)
  have "extends_ledger q q' \<and> (r = Inr () \<longrightarrow> mapped_committed cf row_mapper u q' \<or> mapped_buffered row_mapper u q')"
  proof (cases "row_mapper u")
    case (Inl e)
    then show ?thesis using assms(2) env extends_same [of q q] by (auto simp: postgres_base_sink_def)
  next
    case (Inr row)
    then obtain z where "pg_write E retry cf row q = (q', z)" "r = Inr () \<longrightarrow> z = Inr ()"
      using assms(2) pg_method_run by (fastforce simp: postgres_base_sink_def)
    then show ?thesis
      using write_steps [OF env, of row q' z] Inr by (auto simp: mapped_committed_def mapped_buffered_def)
  qed
  then show "extends_ledger q q'" "r = Inr () \<Longrightarrow> mapped_committed cf row_mapper u q' \<or> mapped_buffered row_mapper u q'"
    by blast+
qed

lemma sink_flush_steps:
  assumes "sink_ready E retry cf q" "bs_flush (postgres_base_sink E retry cf row_mapper) q = (q', r)"
  shows "extends_ledger q q'" "\<lbrakk>r = Inr (); mapped_buffered row_mapper v q\<rbrakk> \<Longrightarrow> mapped_committed cf row_mapper v q'"
proof -
  have env: "safe_environment E retry cf" "snd (ledger q) = []" using assms(1) by (simp_all add: sink_ready_def)
  obtain z where z: "flush E retry cf q = (q', z)" "r = Inr () \<longrightarrow> z = Inr ()"
    using assms(2) pg_method_run by (fastforce simp: postgres_base_sink_def)
  note F = flush_steps [OF env z(1)]
  show "extends_ledger q q'" by (rule F(1))
  show "mapped_committed cf row_mapper v q'" if "r = Inr ()" "mapped_buffered row_mapper v q"
    using F(2) that z(2) by (auto simp: mapped_committed_def mapped_buffered_def)
qed

interpretation pg_durable: durable_sink "postgres_base_sink E retry cf row_mapper" "sink_ready E retry cf"
    "mapped_committed cf row_mapper" "mapped_buffered row_mapper"
  for E :: "'v pg_env" and retry cf and row_mapper :: "'u \<Rightarrow> 'v row result"
proof (unfold_locales, goal_cases)
  case 1
  show ?case by (rule sink_ready_extends [OF 1(1) sink_write_steps(1) [OF 1]])
next
  case 2
  show ?case by (rule sink_write_steps(2) [OF 2 refl])
next
  case 3
  show ?case by (rule sink_ready_extends [OF 3(1) sink_flush_steps(1) [OF 3]])
next
  case 4
  show ?case by (rule sink_flush_steps(2) [OF 4(1,2) refl 4(3)])
qed

section \<open>Source, runtime and sink together\<close>

text \<open>The record of a message has its row committed, or it cannot be deserialised and the policy goes on.\<close>

definition message_settled ::
    "kafka_config \<Rightarrow> 'r deserializers \<Rightarrow> ('r, 'u, 'v) runtime_options \<Rightarrow> poison_policy \<Rightarrow> pg_config
     \<Rightarrow> ('u \<Rightarrow> 'w row result) \<Rightarrow> 'w pg_sink \<Rightarrow> kafka_message list \<times> nat \<Rightarrow> bool" where
  "message_settled cfg ds opts pol cf row_mapper q = (\<lambda>(b, i).
     case message_record cfg ds b i of
       None \<Rightarrow> continues pol
     | Some r \<Rightarrow>
         let md = message_metadata cfg (b ! i) (int (length b)) (int i)
         in \<exists>u row. outbound_record opts (Some (delivery_context_from_metadata md)) r = Inr u \<and>
              row_mapper u = Inr row \<and> row_committed cf row q)"

lemma kept_settled: "pg_durable.kept cf row_mapper opts pol cfg ds q = message_settled cfg ds opts pol cf row_mapper q"
  by (auto simp: pg_durable.kept_def message_settled_def mapped_committed_def fun_eq_iff split: option.split)

text \<open>
  C2: the offsets a Kafka to PostgreSQL runtime may commit are those of messages whose rows are in committed
  transactions.  The sink is that of \<open>build_kafka_postgres_sink\<close>, with no transaction open, at most one connection or
  a pool whose connections can be released, and a retry that keeps the law of \<open>retry_law\<close>; the drain is a whole run of
  \<^verbatim>\<open>drain_to\<close> that flushes each record, from the start of the generator through all its polls, with single or batch
  deserialiser, to the closing of the generator, whether it returns or raises; while it runs no partition is revoked and no
  operator call is made.  Let \<open>batches\<close> be what the polls of the loop handed out
  (a poll made by the start drops what it gets: \<open>positioning_drops_message\<close>).  Then there is a \<open>k\<close> such that the committable
  offsets are those of the first \<open>k\<close> messages of all batches, every commit sent to the broker covers a prefix of at most
  \<open>k\<close> of them, and each of the first \<open>k\<close> messages has its row in a transaction whose commit returned, unless it could
  not be deserialised and the policy goes on after such a message.  A drain that returns has received the records of
  these \<open>k\<close> messages, which are all messages handed out unless as many records as wanted were received.
\<close>

theorem committable_offsets_have_rows:
  assumes built: "build_kafka_postgres_sink A = Inr (cf, replay_safe)"
    and env: "retry_law retry" "cf_pool_size cf \<le> 1 \<or> pooled_release_succeeds E" "snd (ledger q) = []"
    and source: "source_inv s" "begins = (if wants_more opts 0 then fst (stream_start K s) else s)" "src_consumer begins = Some c"
    and log: "client_log K F trace polled"
    and opts: "opts = kafka_postgres_options transform True (ka_delivery A) context_value key_value max_records"
    and rm: "row_mapper = with_kafka_delivery_fields is_none (ka_delivery A) mapper"
    and base: "base = dict_get (committable_offsets (src_cursor begins))"
    and run: "drain_to cfg K SK ds (postgres_base_sink E retry cf row_mapper) opts F fuel (s, q) = Some ((s', q'), r)"
  shows "\<exists>k c' new batches. src_consumer s' = Some c' \<and> trace c' = trace c @ new \<and> polled c' = polled c @ batches \<and>
      k \<le> length (concat batches) \<and>
      dict_get (committable_offsets (src_cursor s')) = prefix_committable base (concat batches) k \<and>
      (\<forall>offsets \<in> set new. \<exists>j \<le> k. commits_prefix base (concat batches) j offsets) \<and>
      list_all (message_settled cfg ds opts (poison_record_policy (src_poison s)) cf row_mapper q') (take k (positions batches)) \<and>
      (\<forall>records. r = Inr records \<longrightarrow> records = position_records cfg ds (take k (positions batches)) \<and>
         (k = length (concat batches) \<or> \<not> wants_more opts (length records)))"
proof -
  have ok: "sink_ready E retry cf q"
    using built_config(2) [OF built] env by (simp add: sink_ready_def safe_environment_def)
  have flush: "ro_flush opts" "\<not> ro_transactional opts" using opts by (simp_all add: kafka_postgres_options_def)
  show ?thesis
    by (rule pg_durable.drain_settles [OF flush log source(1) ok source(2,3) base run, unfolded kept_settled])
qed


text \<open>
  The runtime also takes \<^verbatim>\<open>flush_each_record=False\<close>, which the Redis to PostgreSQL runtime refuses: the sink then
  only buffers the row, nothing is committed in PostgreSQL, and the record is acknowledged.
\<close>

lemma unflushed_row_acknowledged:
  assumes "\<not> cf_align_to_target cf" "int (Suc (length (sk_buffer q))) < cf_batch_size cf"
    and "outbound_record opts (current_delivery_context (src_delivery s)) record = Inr u" "row_mapper u = Inr row"
    and "active_hook (src_delivery s) = Some hook" "\<not> ro_flush opts" "\<not> ro_transactional opts"
    and "runtime_deliver cfg K (postgres_base_sink E retry cf row_mapper) opts record (s, q) = ((s', q'), r)"
  shows "s' = fst (ack_hook cfg K hook s) \<and> sk_buffer q' = sk_buffer q @ [row] \<and> ledger q' = ledger q"
proof -
  have "write_through (postgres_base_sink E retry cf row_mapper) False u q =
      (q\<lparr>sk_write_call_count := Suc (sk_write_call_count q), sk_enqueue_count := Suc (sk_enqueue_count q),
         sk_buffer := sk_buffer q @ [row]\<rparr>, Inr ())"
    using assms(1,2,4) by (simp add: write_through_def postgres_base_sink_def pg_method_def pg_write_def
        align_before_enqueue_def enqueue_row_def thenE_def bindE_def)
  then show ?thesis
    using assms(3,5-8) by (auto simp: runtime_deliver_def ledger_def split: prod.splits sum.splits)
qed

text \<open>Two rows into a database that loses the first commit; the third message cannot be deserialised.\<close>

definition sample_args :: kafka_postgres_sink_args where
  "sample_args =
     \<lparr>ka_table = Name ''t'', ka_conflict_key = [], ka_batch_size = 2, ka_upsert = True, ka_insert_mode = ''sql'',
      ka_pool_size = 1, ka_max_rows_per_statement = None, ka_max_parameters_per_statement = 32000,
      ka_delivery = default_kafka_postgres_delivery\<rparr>"

definition sample_pg_config :: pg_config where
  "sample_pg_config = fst (projr (build_kafka_postgres_sink sample_args))"

lemma sample_built: "build_kafka_postgres_sink sample_args = Inr (sample_pg_config, True)"
  by (simp add: sample_pg_config_def build_kafka_postgres_sink_def sample_args_def default_kafka_postgres_delivery_def
      check_sink_arguments_def resolve_write_safety_policy_def Let_def)

definition sample_row :: "kafka_message \<Rightarrow> message_metadata \<Rightarrow> (string, nat) dict result" where
  "sample_row m md = (if m_partition m = 7 then Inl (ValueError ''bad payload'') else Inr [(''id'', nat (m_offset m))])"

definition sample_options :: "((string, nat) dict, (string, nat) dict, nat) runtime_options" where
  "sample_options = kafka_postgres_options Inr True default_kafka_postgres_delivery (\<lambda>_. 0) length None"

definition sample_deserialize :: "(string, nat) dict deserializers" where
  "sample_deserialize = \<lparr>ds_single = sample_row, ds_batch = None\<rparr>"

abbreviation sample_pg_sink :: "((string, nat) dict, nat pg_sink) base_sink" where
  "sample_pg_sink \<equiv> postgres_base_sink first_commit_lost two_attempts sample_pg_config
     (with_kafka_delivery_fields (\<lambda>_. False) default_kafka_postgres_delivery Inr)"

lemma sample_drained:
  "map_option (\<lambda>((s, q), r). (committable_offsets (src_cursor s), src_consumer s, r))
     (drain_to sample_config queue_consumer sample_sink sample_deserialize sample_pg_sink sample_options queue_fetch 10
        (queue_source, pg_sink_init)) =
   Some ([(TopicPartition ''t'' 0, 4), (TopicPartition ''t'' 1, 9)],
     Some ([], [[(TopicPartition ''t'' 0, 5)], [(TopicPartition ''t'' 0, 5), (TopicPartition ''t'' 1, 10)]], sample_batches),
     Inl (Exn ''SourceRecordError'' [''Exception''] ''bad payload''))"
  by code_simp

theorem committable_offsets_have_rows_witness:
  "\<exists>s' q' e.
     drain_to sample_config queue_consumer sample_sink sample_deserialize sample_pg_sink sample_options queue_fetch 10
       (queue_source, pg_sink_init) = Some ((s', q'), Inl e) \<and>
     committable_offsets (src_cursor s') = [(TopicPartition ''t'' 0, 4), (TopicPartition ''t'' 1, 9)] \<and>
     list_all (message_settled sample_config sample_deserialize sample_options FAIL_CLOSED sample_pg_config
         (with_kafka_delivery_fields (\<lambda>_. False) default_kafka_postgres_delivery Inr) q')
       [([sample_message 0 4], 0), ([sample_message 1 9, sample_message 7 2], 0)]"
proof -
  let ?rm = "with_kafka_delivery_fields (\<lambda>_ :: nat. False) default_kafka_postgres_delivery Inr"
  obtain s' q' e where run: "drain_to sample_config queue_consumer sample_sink sample_deserialize sample_pg_sink sample_options queue_fetch 10
       (queue_source, pg_sink_init) = Some ((s', q'), Inl e)"
    and off: "committable_offsets (src_cursor s') = [(TopicPartition ''t'' 0, 4), (TopicPartition ''t'' 1, 9)]"
    and c: "src_consumer s' = Some ([], [[(TopicPartition ''t'' 0, 5)], [(TopicPartition ''t'' 0, 5), (TopicPartition ''t'' 1, 10)]], sample_batches)"
    using sample_drained by auto
  have D: "default_kafka_postgres_delivery = ka_delivery sample_args" by (simp add: sample_args_def)
  have pool: "cf_pool_size sample_pg_config \<le> 1 \<or> pooled_release_succeeds first_commit_lost"
    using built_config(1) [OF sample_built] by (simp add: sample_args_def)
  have idle: "snd (ledger (pg_sink_init :: nat pg_sink)) = []" by (simp add: ledger_def pg_sink_init_def)
  have begins: "fst (stream_start queue_consumer queue_source) =
      (if wants_more sample_options 0 then fst (stream_start queue_consumer queue_source) else queue_source)"
    by (simp add: wants_more_def sample_options_def kafka_postgres_options_def)
  obtain k batches where k: "sample_batches = batches" "k \<le> length (concat batches)"
    "dict_get (committable_offsets (src_cursor s')) = prefix_committable Map.empty (concat batches) k"
    "list_all (message_settled sample_config sample_deserialize sample_options FAIL_CLOSED sample_pg_config ?rm q') (take k (positions batches))"
    using committable_offsets_have_rows [OF sample_built two_attempts_law pool idle queue_source_start(1) begins queue_source_start(3)
        queue_client_log sample_options_def [unfolded D] refl refl run [unfolded D]] c
    by (auto simp: queue_source_start(2,4) D)
  have "k \<le> 3" using k(2) [folded k(1)] by (simp add: sample_batches_def)
  then have "k = 2" by (rule two_of_three [OF _ k(3) [unfolded off, folded k(1)]])
  then show ?thesis using run off k(1,4) by (auto simp: sample_batches_def numeral_2_eq_2)
qed

end
