(* ===== verification/Lease_Store.thy ===== *)
theory Lease_Store
  imports Prelude Complex_Main
begin

text \<open>
  Leases on one Redis server: the state of the lease manager, the Lua scripts and operations of
  \<^verbatim>\<open>distributed/primary_lease_store.py\<close>, the payload checks of \<^verbatim>\<open>_shared.py\<close> and the runtime state of
  \<^verbatim>\<open>lease_runtime.py\<close>.

  Redis is a parameter (\<open>redis_ops\<close>): the commands the scripts and the client use, over a server state
  of any type, with the transport faults of a client call.  What the proofs need of it is
  \<open>redis_laws\<close>, the documented behaviour of the commands.  The Lua scripts themselves are part of the
  source and are translated command by command; a script runs without interruption.  Arguments that
  the client renders with \<^verbatim>\<open>str\<close> and a script reads back with \<^verbatim>\<open>tonumber\<close> are passed as integers.
\<close>

section \<open>Redis\<close>

text \<open>The table the acquire scripts encode.\<close>

record lease_payload =
  lp_worker_id :: string
  lp_acquired_at :: string
  lp_pipeline_id :: string
  lp_run_number :: int
  lp_fencing_token :: int

record 'r redis_ops =
  rd_get :: "string \<Rightarrow> 'r \<Rightarrow> string option"
  rd_set_nx_ex :: "string \<Rightarrow> string \<Rightarrow> int \<Rightarrow> 'r \<Rightarrow> 'r \<times> bool"
  rd_incr :: "string \<Rightarrow> 'r \<Rightarrow> 'r \<times> int"
  rd_expire :: "string \<Rightarrow> int \<Rightarrow> 'r \<Rightarrow> 'r"
  rd_del :: "string \<Rightarrow> 'r \<Rightarrow> 'r"
  rd_fault :: "'r \<Rightarrow> 'r \<times> call_fault"
  rd_counter :: "string \<Rightarrow> 'r \<Rightarrow> int" \<comment> \<open>the integer stored under a key, 0 if absent\<close>
  cjson_encode :: "lease_payload \<Rightarrow> string"
  cjson_decode :: "string \<Rightarrow> pyval option"
  lua_tostring :: "pyval option \<Rightarrow> string"
  json_loads :: "string \<Rightarrow> pyval option"
  py_repr :: "pyval \<Rightarrow> string"

text \<open>
  A command or script sent by the client: it runs and its reply arrives, or the connection fails
  before or after it ran.
\<close>

definition redis_call :: "'r redis_ops \<Rightarrow> ('r \<Rightarrow> 'r \<times> 'a) \<Rightarrow> ('r, 'a) eff" where
  "redis_call RO cmd r =
     (case rd_fault RO r of
        (r', NoFault) \<Rightarrow> (case cmd r' of (r'', a) \<Rightarrow> (r'', Inr a))
      | (r', LostRequest e) \<Rightarrow> (r', Inl e)
      | (r', LostReply e) \<Rightarrow> (fst (cmd r'), Inl e))"

section \<open>The Lua scripts\<close>

text \<open>\<^verbatim>\<open>data[name]\<close> in Lua: \<^verbatim>\<open>nil\<close> for an absent field and for indexing a list; other values raise.\<close>

fun lua_index :: "pyval \<Rightarrow> string \<Rightarrow> pyval option option" where
  "lua_index (PDict d) k = Some (dict_get d k)"
| "lua_index (PList _) k = Some None"
| "lua_index (PStr _) k = Some None"
| "lua_index _ k = None"

text \<open>
  The condition of the release and renew scripts.  Indexing a number, boolean or \<^verbatim>\<open>null\<close> aborts the
  script, which leaves the keys as they are; \<open>None\<close> is that error.
\<close>

definition lua_owner :: "'r redis_ops \<Rightarrow> string \<Rightarrow> string \<Rightarrow> int \<Rightarrow> bool option" where
  "lua_owner RO val worker_id fencing_token =
     (case cjson_decode RO val of
        None \<Rightarrow> Some False
      | Some data \<Rightarrow>
          (case (lua_index data ''worker_id'', lua_index data ''fencing_token'') of
             (Some w, Some t) \<Rightarrow>
               Some (w = Some (PStr worker_id) \<and> lua_tostring RO t = str_of_int fencing_token)
           | _ \<Rightarrow> None))"

definition script_error :: exn where
  "script_error = Exn ''ResponseError'' [''RedisError'', ''Exception''] ''Error running script''"

definition RELEASE_SCRIPT ::
    "'r redis_ops \<Rightarrow> string \<Rightarrow> string \<Rightarrow> int \<Rightarrow> 'r \<Rightarrow> 'r \<times> int result" where
  "RELEASE_SCRIPT RO key worker_id fencing_token r =
     (case rd_get RO key r of
        None \<Rightarrow> (r, Inr 0)
      | Some val \<Rightarrow>
          (case lua_owner RO val worker_id fencing_token of
             None \<Rightarrow> (r, Inl script_error)
           | Some True \<Rightarrow> (rd_del RO key r, Inr 1)
           | Some False \<Rightarrow> (r, Inr 0)))"

definition RENEW_SCRIPT ::
    "'r redis_ops \<Rightarrow> string \<Rightarrow> string \<Rightarrow> int \<Rightarrow> int \<Rightarrow> 'r \<Rightarrow> 'r \<times> int result" where
  "RENEW_SCRIPT RO key worker_id fencing_token ttl r =
     (case rd_get RO key r of
        None \<Rightarrow> (r, Inr 0)
      | Some val \<Rightarrow>
          (case lua_owner RO val worker_id fencing_token of
             None \<Rightarrow> (r, Inl script_error)
           | Some True \<Rightarrow> (rd_expire RO key ttl r, Inr 1)
           | Some False \<Rightarrow> (r, Inr 0)))"

text \<open>\<open>Some token\<close> is the reply \<^verbatim>\<open>{1, token}\<close>, \<open>None\<close> is \<^verbatim>\<open>{0, false}\<close>.\<close>

definition ACQUIRE_SCRIPT ::
    "'r redis_ops \<Rightarrow> string \<Rightarrow> string \<Rightarrow> string \<Rightarrow> string \<Rightarrow> string \<Rightarrow> int \<Rightarrow> int \<Rightarrow> int \<Rightarrow> 'r
     \<Rightarrow> 'r \<times> int option" where
  "ACQUIRE_SCRIPT RO lease_key fencing_key worker_id acquired_at pipeline_id run_number ttl fencing_ttl r =
     (case rd_get RO lease_key r of
        Some _ \<Rightarrow> (r, None)
      | None \<Rightarrow>
          (case rd_incr RO fencing_key r of (r1, fencing_token) \<Rightarrow>
             let r2 = (if 0 < fencing_ttl then rd_expire RO fencing_key fencing_ttl r1 else r1);
                 val = cjson_encode RO \<lparr>lp_worker_id = worker_id, lp_acquired_at = acquired_at,
                         lp_pipeline_id = pipeline_id, lp_run_number = run_number,
                         lp_fencing_token = fencing_token\<rparr>
             in (case rd_set_nx_ex RO lease_key val ttl r2 of
                   (r3, ok) \<Rightarrow> (r3, if ok then Some fencing_token else None))))"

section \<open>Payload checks\<close>

definition programming_error_types :: "string list" where
  "programming_error_types =
     [''AssertionError'', ''AttributeError'', ''KeyError'', ''TypeError'', ''ValueError'']"

definition raise_if_programming_error :: "exn \<Rightarrow> unit result" where
  "raise_if_programming_error e =
     (if list_ex (isinstance_exn e) programming_error_types then Inl e else Inr ())"

text \<open>\<^verbatim>\<open>str(data.get(name))\<close>.\<close>

definition str_of_field :: "'r redis_ops \<Rightarrow> (string, pyval) dict \<Rightarrow> string \<Rightarrow> string" where
  "str_of_field RO d k = py_str (py_repr RO) (dict_getd d k PNone)"

definition attribute_error_get :: exn where
  "attribute_error_get = Exn ''AttributeError'' [''Exception''] ''object has no attribute get''"

definition lease_payload_matches ::
    "'r redis_ops \<Rightarrow> string option \<Rightarrow> string \<Rightarrow> int \<Rightarrow> bool result" where
  "lease_payload_matches RO raw worker_id fencing_token =
     (case raw of
        None \<Rightarrow> Inr False
      | Some text \<Rightarrow>
          (case json_loads RO text of
             None \<Rightarrow> Inr False
           | Some (PDict d) \<Rightarrow>
               Inr (dict_get d ''worker_id'' = Some (PStr worker_id) \<and>
                    str_of_field RO d ''fencing_token'' = str_of_int fencing_token)
           | Some _ \<Rightarrow> Inl attribute_error_get))"

definition lease_payload_matches_redlock ::
    "'r redis_ops \<Rightarrow> string option \<Rightarrow> string \<Rightarrow> string \<Rightarrow> int \<Rightarrow> bool result" where
  "lease_payload_matches_redlock RO raw worker_id acquired_at fencing_token =
     (case raw of
        None \<Rightarrow> Inr False
      | Some text \<Rightarrow>
          (case json_loads RO text of
             None \<Rightarrow> Inr False
           | Some (PDict d) \<Rightarrow>
               Inr (dict_get d ''worker_id'' = Some (PStr worker_id) \<and>
                    str_of_field RO d ''acquired_at'' = acquired_at \<and>
                    str_of_field RO d ''fencing_token'' = str_of_int fencing_token)
           | Some _ \<Rightarrow> Inl attribute_error_get))"

section \<open>State of the lease manager\<close>

record lease_state =
  ls_pipeline_id :: string
  ls_run_number :: int
  ls_worker_id :: string
  ls_fencing_token :: int
  ls_acquired_at :: string
  ls_renewed_at :: "string option"

record lease_config =
  lc_key_prefix :: string
  lc_lease_ttl :: int
  lc_fencing_key_ttl_seconds :: int
  lc_redlock_redis_urls :: "string list"
  lc_clock_drift_factor :: rat
  lc_now :: "nat \<Rightarrow> string" \<comment> \<open>the n-th result of \<^verbatim>\<open>now_fn()\<close>\<close>
  lc_monotonic :: "nat \<Rightarrow> rat" \<comment> \<open>the n-th reading of \<^verbatim>\<open>time.monotonic()\<close>\<close>

text \<open>
  The objects behind a \<^verbatim>\<open>RedisLeaseManager\<close>: the primary store (active leases, local fencing tokens,
  which scripts are registered), the Redlock node indices per lease, the lost-lease callback with the
  calls made to it, and the servers they talk to.  The callback is user code; it is only recorded.
\<close>

record 'r lease_world =
  lease_tokens :: "(string, lease_state) dict"
  local_fencing_tokens :: "(string, int) dict"
  acquire_script :: bool
  release_script :: bool
  renew_script :: bool
  lease_nodes :: "(string, nat set) dict"
  lease_lost_callback :: bool
  lost_calls :: "string list"
  now_reads :: nat
  monotonic_reads :: nat
  primary :: 'r
  redis_nodes :: "'r list"

definition lease_world_init :: "'r \<Rightarrow> 'r lease_world" where
  "lease_world_init r =
     \<lparr>lease_tokens = [], local_fencing_tokens = [], acquire_script = False, release_script = False,
      renew_script = False, lease_nodes = [], lease_lost_callback = False, lost_calls = [],
      now_reads = 0, monotonic_reads = 0, primary = r, redis_nodes = []\<rparr>"

definition lease_key :: "lease_config \<Rightarrow> string \<Rightarrow> string" where
  "lease_key C pipeline_id = lc_key_prefix C @ ''lease:'' @ pipeline_id"

definition fencing_key :: "lease_config \<Rightarrow> string \<Rightarrow> string" where
  "fencing_key C pipeline_id = lc_key_prefix C @ ''fence:'' @ pipeline_id"

definition current_lease :: "string \<Rightarrow> 'r lease_world \<Rightarrow> lease_state option" where
  "current_lease pipeline_id w = dict_get (lease_tokens w) pipeline_id"

definition clear_active_leases :: "'r lease_world \<Rightarrow> 'r lease_world" where
  "clear_active_leases w = w\<lparr>lease_tokens := []\<rparr>"

definition pop_lease :: "string \<Rightarrow> 'r lease_world \<Rightarrow> 'r lease_world" where
  "pop_lease pipeline_id w = w\<lparr>lease_tokens := dict_pop pipeline_id (lease_tokens w)\<rparr>"

definition register_scripts :: "'r lease_world \<Rightarrow> 'r lease_world" where
  "register_scripts w = w\<lparr>release_script := True, renew_script := True, acquire_script := True\<rparr>"

text \<open>\<^verbatim>\<open>RedisLeaseRuntime\<close>.\<close>

definition active_pipeline_ids :: "'r lease_world \<Rightarrow> string list" where
  "active_pipeline_ids w = dict_keys (lease_tokens w)"

definition active_leases :: "'r lease_world \<Rightarrow> (string \<times> lease_state) list" where
  "active_leases w = lease_tokens w"

definition runtime_clear :: "'r lease_world \<Rightarrow> 'r lease_world" where
  "runtime_clear w = (clear_active_leases w)\<lparr>lease_nodes := []\<rparr>"

definition discard_redlock_nodes :: "string \<Rightarrow> 'r lease_world \<Rightarrow> 'r lease_world" where
  "discard_redlock_nodes pipeline_id w = w\<lparr>lease_nodes := dict_pop pipeline_id (lease_nodes w)\<rparr>"

definition discard_lease :: "string \<Rightarrow> 'r lease_world \<Rightarrow> 'r lease_world \<times> lease_state option" where
  "discard_lease pipeline_id w =
     (discard_redlock_nodes pipeline_id (pop_lease pipeline_id w), current_lease pipeline_id w)"

text \<open>\<^verbatim>\<open>self._now()\<close> and \<^verbatim>\<open>time.monotonic()\<close>.\<close>

definition read_now :: "lease_config \<Rightarrow> 'r lease_world \<Rightarrow> 'r lease_world \<times> string" where
  "read_now C w = (w\<lparr>now_reads := Suc (now_reads w)\<rparr>, lc_now C (now_reads w))"

definition read_monotonic :: "lease_config \<Rightarrow> 'r lease_world \<Rightarrow> 'r lease_world \<times> rat" where
  "read_monotonic C w = (w\<lparr>monotonic_reads := Suc (monotonic_reads w)\<rparr>, lc_monotonic C (monotonic_reads w))"

definition call_primary :: "'r redis_ops \<Rightarrow> ('r \<Rightarrow> 'r \<times> 'a) \<Rightarrow> ('r lease_world, 'a) eff" where
  "call_primary RO cmd w = (case redis_call RO cmd (primary w) of (r, x) \<Rightarrow> (w\<lparr>primary := r\<rparr>, x))"

text \<open>A script that aborts raises at the client.\<close>

definition call_primary_script ::
    "'r redis_ops \<Rightarrow> ('r \<Rightarrow> 'r \<times> 'a result) \<Rightarrow> ('r lease_world, 'a) eff" where
  "call_primary_script RO script =
     bindE (call_primary RO script) (\<lambda>x w. (w, x))"

text \<open>\<^verbatim>\<open>except Exception as exc: raise_if_programming_error(exc); return d\<close>.\<close>

definition handle_call_error :: "exn \<Rightarrow> 'a \<Rightarrow> ('r lease_world, 'a) eff" where
  "handle_call_error e d w =
     (w, case raise_if_programming_error e of Inl e' \<Rightarrow> Inl e' | Inr _ \<Rightarrow> Inr d)"

section \<open>Operations of the primary store\<close>

definition new_lease :: "string \<Rightarrow> int \<Rightarrow> string \<Rightarrow> int \<Rightarrow> string \<Rightarrow> lease_state" where
  "new_lease pipeline_id run_number worker_id fencing_token acquired_at =
     \<lparr>ls_pipeline_id = pipeline_id, ls_run_number = run_number, ls_worker_id = worker_id,
      ls_fencing_token = fencing_token, ls_acquired_at = acquired_at, ls_renewed_at = None\<rparr>"

definition set_lease :: "string \<Rightarrow> lease_state \<Rightarrow> 'r lease_world \<Rightarrow> 'r lease_world" where
  "set_lease pipeline_id lease w = w\<lparr>lease_tokens := dict_set pipeline_id lease (lease_tokens w)\<rparr>"

definition primary_try_acquire ::
    "lease_config \<Rightarrow> 'r redis_ops \<Rightarrow> string \<Rightarrow> string \<Rightarrow> int \<Rightarrow> ('r lease_world, bool) eff" where
  "primary_try_acquire C RO worker_id pipeline_id run_number w =
     (if \<not> acquire_script w then (w, Inr False)
      else case read_now C w of (w1, acquired_at) \<Rightarrow>
        (case call_primary RO (ACQUIRE_SCRIPT RO (lease_key C pipeline_id) (fencing_key C pipeline_id)
                worker_id acquired_at pipeline_id run_number (lc_lease_ttl C)
                (lc_fencing_key_ttl_seconds C)) w1 of
           (w2, Inl e) \<Rightarrow> handle_call_error e False w2
         | (w2, Inr None) \<Rightarrow> (w2, Inr False)
         | (w2, Inr (Some fencing_token)) \<Rightarrow>
             (set_lease pipeline_id
                (new_lease pipeline_id run_number worker_id fencing_token acquired_at) w2, Inr True)))"

definition primary_release ::
    "lease_config \<Rightarrow> 'r redis_ops \<Rightarrow> string \<Rightarrow> string \<Rightarrow> lease_state \<Rightarrow> ('r lease_world, unit) eff" where
  "primary_release C RO worker_id pipeline_id lease w =
     (if \<not> release_script w then (w, Inr ())
      else case call_primary_script RO
                  (RELEASE_SCRIPT RO (lease_key C pipeline_id) worker_id (ls_fencing_token lease)) w of
             (w1, Inl e) \<Rightarrow> handle_call_error e () w1
           | (w1, Inr _) \<Rightarrow> (w1, Inr ()))"

definition primary_validate ::
    "lease_config \<Rightarrow> 'r redis_ops \<Rightarrow> string \<Rightarrow> string \<Rightarrow> int \<Rightarrow> ('r lease_world, bool) eff" where
  "primary_validate C RO worker_id pipeline_id fencing_token w =
     (case call_primary RO (\<lambda>r. (r, rd_get RO (lease_key C pipeline_id) r)) w of
        (w1, Inl e) \<Rightarrow> handle_call_error e False w1
      | (w1, Inr None) \<Rightarrow> (pop_lease pipeline_id w1, Inr False)
      | (w1, Inr (Some raw)) \<Rightarrow>
          (case lease_payload_matches RO (Some raw) worker_id fencing_token of
             Inl e \<Rightarrow> (w1, Inl e)
           | Inr valid \<Rightarrow> (if valid then w1 else pop_lease pipeline_id w1, Inr valid)))"

text \<open>The renewed copy of a lease.\<close>

definition renewed :: "lease_state \<Rightarrow> string \<Rightarrow> lease_state" where
  "renewed lease t =
     \<lparr>ls_pipeline_id = ls_pipeline_id lease, ls_run_number = ls_run_number lease,
      ls_worker_id = ls_worker_id lease, ls_fencing_token = ls_fencing_token lease,
      ls_acquired_at = ls_acquired_at lease, ls_renewed_at = Some t\<rparr>"

type_synonym 'r mark_lost = "string \<Rightarrow> lease_state \<Rightarrow> string \<Rightarrow> ('r lease_world, unit) eff"

definition primary_renew ::
    "lease_config \<Rightarrow> 'r redis_ops \<Rightarrow> 'r mark_lost \<Rightarrow> string \<Rightarrow> string \<Rightarrow> ('r lease_world, bool) eff" where
  "primary_renew C RO mark_lease_lost worker_id pipeline_id w =
     (if \<not> renew_script w then (w, Inr False)
      else case current_lease pipeline_id w of
        None \<Rightarrow> (w, Inr False)
      | Some lease \<Rightarrow>
          (case call_primary_script RO
                  (RENEW_SCRIPT RO (lease_key C pipeline_id) worker_id (ls_fencing_token lease)
                    (lc_lease_ttl C)) w of
             (w1, Inl e) \<Rightarrow> handle_call_error e False w1
           | (w1, Inr n) \<Rightarrow>
               if n \<noteq> 1 then
                 bindE (mark_lease_lost pipeline_id lease ''renew_failed'') (\<lambda>_. returnE False) w1
               else case read_now C w1 of (w2, t) \<Rightarrow>
                 (set_lease pipeline_id (renewed lease t) w2, Inr True)))"

definition acquire_local_fallback_lease ::
    "lease_config \<Rightarrow> string \<Rightarrow> string \<Rightarrow> int \<Rightarrow> bool \<Rightarrow> ('r lease_world, bool) eff" where
  "acquire_local_fallback_lease C worker_id pipeline_id run_number fallback_to_local w =
     (if \<not> fallback_to_local \<or> current_lease pipeline_id w \<noteq> None then (w, Inr False)
      else
        let fencing_token = dict_getd (local_fencing_tokens w) pipeline_id 0 + 1;
            w1 = w\<lparr>local_fencing_tokens := dict_set pipeline_id fencing_token (local_fencing_tokens w)\<rparr>
        in (case read_now C w1 of (w2, t) \<Rightarrow>
              (set_lease pipeline_id (new_lease pipeline_id run_number worker_id fencing_token t) w2,
               Inr True)))"

definition renew_local_fallback_lease ::
    "lease_config \<Rightarrow> string \<Rightarrow> bool \<Rightarrow> ('r lease_world, bool) eff" where
  "renew_local_fallback_lease C pipeline_id fallback_to_local w =
     (if \<not> fallback_to_local then (w, Inr False)
      else case current_lease pipeline_id w of
        None \<Rightarrow> (w, Inr False)
      | Some lease \<Rightarrow> (case read_now C w of (w1, t) \<Rightarrow> (set_lease pipeline_id (renewed lease t) w1, Inr True)))"

end
