(* ===== verification/Lease_Redlock.thy ===== *)
theory Lease_Redlock
  imports Lease_Store
begin

text \<open>
  Leases on a quorum of independent Redis nodes (\<^verbatim>\<open>distributed/redlock_quorum.py\<close>, \<^verbatim>\<open>redlock_scripts.py\<close>,
  \<^verbatim>\<open>redlock_nodes.py\<close>).  The calls to the nodes run concurrently, each on its own server, and are
  collected in the order of the indices; so the model runs them in that order.  Seconds are exact
  rationals, where the code uses floats.
\<close>

section \<open>The Lua scripts\<close>

definition redlock_owner ::
    "'r redis_ops \<Rightarrow> string \<Rightarrow> string \<Rightarrow> string \<Rightarrow> int \<Rightarrow> bool option" where
  "redlock_owner RO val worker_id acquired_at fencing_token =
     (case cjson_decode RO val of
        None \<Rightarrow> Some False
      | Some data \<Rightarrow>
          (case (lua_index data ''worker_id'', lua_index data ''acquired_at'', lua_index data ''fencing_token'') of
             (Some w, Some a, Some t) \<Rightarrow>
               Some (w = Some (PStr worker_id) \<and> lua_tostring RO a = acquired_at \<and>
                     lua_tostring RO t = str_of_int fencing_token)
           | _ \<Rightarrow> None))"

definition REDLOCK_ACQUIRE_SCRIPT ::
    "'r redis_ops \<Rightarrow> string \<Rightarrow> string \<Rightarrow> string \<Rightarrow> string \<Rightarrow> int \<Rightarrow> int \<Rightarrow> int \<Rightarrow> 'r \<Rightarrow> 'r \<times> int option" where
  "REDLOCK_ACQUIRE_SCRIPT RO key worker_id acquired_at pipeline_id run_number ttl fencing_token r =
     (case rd_get RO key r of
        Some _ \<Rightarrow> (r, None)
      | None \<Rightarrow>
          let val = cjson_encode RO \<lparr>lp_worker_id = worker_id, lp_acquired_at = acquired_at,
                      lp_pipeline_id = pipeline_id, lp_run_number = run_number,
                      lp_fencing_token = fencing_token\<rparr>
          in (case rd_set_nx_ex RO key val ttl r of
                (r', ok) \<Rightarrow> (r', if ok then Some fencing_token else None)))"

definition REDLOCK_RELEASE_SCRIPT ::
    "'r redis_ops \<Rightarrow> string \<Rightarrow> string \<Rightarrow> string \<Rightarrow> int \<Rightarrow> 'r \<Rightarrow> 'r \<times> int result" where
  "REDLOCK_RELEASE_SCRIPT RO key worker_id acquired_at fencing_token r =
     (case rd_get RO key r of
        None \<Rightarrow> (r, Inr 0)
      | Some val \<Rightarrow>
          (case redlock_owner RO val worker_id acquired_at fencing_token of
             None \<Rightarrow> (r, Inl script_error)
           | Some True \<Rightarrow> (rd_del RO key r, Inr 1)
           | Some False \<Rightarrow> (r, Inr 0)))"

definition REDLOCK_RENEW_SCRIPT ::
    "'r redis_ops \<Rightarrow> string \<Rightarrow> string \<Rightarrow> string \<Rightarrow> int \<Rightarrow> int \<Rightarrow> 'r \<Rightarrow> 'r \<times> int result" where
  "REDLOCK_RENEW_SCRIPT RO key worker_id acquired_at fencing_token ttl r =
     (case rd_get RO key r of
        None \<Rightarrow> (r, Inr 0)
      | Some val \<Rightarrow>
          (case redlock_owner RO val worker_id acquired_at fencing_token of
             None \<Rightarrow> (r, Inl script_error)
           | Some True \<Rightarrow> (rd_expire RO key ttl r, Inr 1)
           | Some False \<Rightarrow> (r, Inr 0)))"

section \<open>Calls to the nodes\<close>

text \<open>\<open>join_result\<close>: a script that aborts on the server raises at the client like a failed call.\<close>

definition join_result :: "'a result result \<Rightarrow> 'a result" where
  "join_result x = bindR x (\<lambda>y. y)"

text \<open>The nodes after the calls, and per index what the call returned or raised.\<close>

fun gather_calls ::
    "'r redis_ops \<Rightarrow> ('r \<Rightarrow> 'r \<times> 'a result) \<Rightarrow> nat list \<Rightarrow> 'r list \<Rightarrow> 'r list \<times> (nat \<times> 'a result) list" where
  "gather_calls RO cmd [] nodes = (nodes, [])"
| "gather_calls RO cmd (i # is) nodes =
     (if length nodes \<le> i then gather_calls RO cmd is nodes
      else case redis_call RO cmd (nodes ! i) of (r, x) \<Rightarrow>
        (case gather_calls RO cmd is (nodes[i := r]) of
           (nodes', results) \<Rightarrow> (nodes', (i, join_result x) # results)))"

text \<open>The loop over the gathered results: a programming error is raised, other errors are logged and skipped.\<close>

fun collect_successes :: "(nat \<times> 'a result) list \<Rightarrow> (nat \<times> 'a) list result" where
  "collect_successes [] = Inr []"
| "collect_successes ((i, Inl e) # rest) =
     bindR (raise_if_programming_error e) (\<lambda>_. collect_successes rest)"
| "collect_successes ((i, Inr a) # rest) =
     bindR (collect_successes rest) (\<lambda>successes. Inr ((i, a) # successes))"

definition run_node_calls ::
    "'r redis_ops \<Rightarrow> ('r \<Rightarrow> 'r \<times> 'a result) \<Rightarrow> nat list \<Rightarrow> ('r lease_world, (nat \<times> 'a) list) eff" where
  "run_node_calls RO cmd indices w =
     (case gather_calls RO cmd indices (redis_nodes w) of
        (nodes, results) \<Rightarrow> (w\<lparr>redis_nodes := nodes\<rparr>, collect_successes results))"

section \<open>Quorum and validity\<close>

definition redlock_enabled :: "lease_config \<Rightarrow> bool" where
  "redlock_enabled C \<longleftrightarrow> lc_redlock_redis_urls C \<noteq> []"

definition quorum :: "'r lease_world \<Rightarrow> nat" where
  "quorum w = length (redis_nodes w) div 2 + 1"

definition validity_s :: "lease_config \<Rightarrow> rat \<Rightarrow> rat" where
  "validity_s C elapsed_s =
     of_int (lc_lease_ttl C) - elapsed_s - (of_int (lc_lease_ttl C) * lc_clock_drift_factor C + 2 / 1000)"

definition reserve_fencing_token ::
    "lease_config \<Rightarrow> 'r redis_ops \<Rightarrow> string \<Rightarrow> ('r lease_world, int) eff" where
  "reserve_fencing_token C RO key =
     bindE (call_primary RO (rd_incr RO key)) (\<lambda>token.
       if 0 < lc_fencing_key_ttl_seconds C
       then bindE (call_primary RO (\<lambda>r. (rd_expire RO key (lc_fencing_key_ttl_seconds C) r, ())))
              (\<lambda>_. returnE token)
       else returnE token)"

section \<open>Operations\<close>

definition release_indices ::
    "lease_config \<Rightarrow> 'r redis_ops \<Rightarrow> string \<Rightarrow> string \<Rightarrow> string \<Rightarrow> int \<Rightarrow> nat list \<Rightarrow> ('r lease_world, unit) eff" where
  "release_indices C RO pipeline_id worker_id acquired_at fencing_token indices =
     bindE (run_node_calls RO
              (REDLOCK_RELEASE_SCRIPT RO (lease_key C pipeline_id) worker_id acquired_at fencing_token) indices)
       (\<lambda>_. returnE ())"

definition release_all_nodes ::
    "lease_config \<Rightarrow> 'r redis_ops \<Rightarrow> string \<Rightarrow> string \<Rightarrow> string \<Rightarrow> int \<Rightarrow> ('r lease_world, unit) eff" where
  "release_all_nodes C RO pipeline_id worker_id acquired_at fencing_token w =
     release_indices C RO pipeline_id worker_id acquired_at fencing_token [0..<length (redis_nodes w)] w"

definition acquire_on_nodes ::
    "lease_config \<Rightarrow> 'r redis_ops \<Rightarrow> string \<Rightarrow> string \<Rightarrow> int \<Rightarrow> string \<Rightarrow> int
     \<Rightarrow> ('r lease_world, (nat \<times> int option) list) eff" where
  "acquire_on_nodes C RO worker_id pipeline_id run_number acquired_at fencing_token w =
     run_node_calls RO
       (\<lambda>r. case REDLOCK_ACQUIRE_SCRIPT RO (lease_key C pipeline_id) worker_id acquired_at
               pipeline_id run_number (lc_lease_ttl C) fencing_token r of (r', x) \<Rightarrow> (r', Inr x))
       [0..<length (redis_nodes w)] w"

text \<open>The part of \<open>try_acquire\<close> after the nodes have answered.\<close>

definition redlock_conclude_acquire ::
    "lease_config \<Rightarrow> 'r redis_ops \<Rightarrow> string \<Rightarrow> string \<Rightarrow> int \<Rightarrow> string \<Rightarrow> int \<Rightarrow> rat \<Rightarrow> (nat \<times> int option) list
     \<Rightarrow> ('r lease_world, bool) eff" where
  "redlock_conclude_acquire C RO worker_id pipeline_id run_number acquired_at fencing_token started
       acquire_results w =
     (let acquired_indices = map fst (filter (\<lambda>(_, x). x \<noteq> None) acquire_results) in
      case read_monotonic C w of (w1, t) \<Rightarrow>
        if quorum w1 \<le> length acquired_indices \<and> 0 < validity_s C (t - started)
        then ((set_lease pipeline_id
                 (new_lease pipeline_id run_number worker_id fencing_token acquired_at) w1)
               \<lparr>lease_nodes := dict_set pipeline_id (set acquired_indices) (lease_nodes w1)\<rparr>, Inr True)
        else bindE (release_indices C RO pipeline_id worker_id acquired_at fencing_token
                      acquired_indices) (\<lambda>_. returnE False) w1)"

definition redlock_try_acquire ::
    "lease_config \<Rightarrow> 'r redis_ops \<Rightarrow> string \<Rightarrow> string \<Rightarrow> int \<Rightarrow> ('r lease_world, bool) eff" where
  "redlock_try_acquire C RO worker_id pipeline_id run_number w =
     (if redis_nodes w = [] then (w, Inr False)
      else case read_now C w of (w1, acquired_at) \<Rightarrow>
        bindE (reserve_fencing_token C RO (fencing_key C pipeline_id)) (\<lambda>fencing_token w2.
          case read_monotonic C w2 of (w3, started) \<Rightarrow>
            bindE (acquire_on_nodes C RO worker_id pipeline_id run_number acquired_at fencing_token)
              (redlock_conclude_acquire C RO worker_id pipeline_id run_number acquired_at fencing_token
                 started) w3) w1)"

text \<open>\<^verbatim>\<open>lease_payload_matches_redlock\<close> over the collected values; it may raise on a malformed payload.\<close>

fun count_matching ::
    "'r redis_ops \<Rightarrow> string \<Rightarrow> string \<Rightarrow> int \<Rightarrow> string option list \<Rightarrow> nat result" where
  "count_matching RO worker_id acquired_at fencing_token [] = Inr 0"
| "count_matching RO worker_id acquired_at fencing_token (raw # raws) =
     bindR (lease_payload_matches_redlock RO raw worker_id acquired_at fencing_token) (\<lambda>m.
       bindR (count_matching RO worker_id acquired_at fencing_token raws) (\<lambda>n.
         Inr (if m then Suc n else n)))"

definition redlock_validate ::
    "lease_config \<Rightarrow> 'r redis_ops \<Rightarrow> string \<Rightarrow> string \<Rightarrow> int \<Rightarrow> ('r lease_world, bool) eff" where
  "redlock_validate C RO worker_id pipeline_id fencing_token w =
     (case current_lease pipeline_id w of
        None \<Rightarrow> (w, Inr False)
      | Some lease \<Rightarrow>
          if ls_fencing_token lease \<noteq> fencing_token then (w, Inr False)
          else bindE (run_node_calls RO (\<lambda>r. (r, Inr (rd_get RO (lease_key C pipeline_id) r)))
                        [0..<length (redis_nodes w)])
            (\<lambda>validate_results w1.
               case count_matching RO worker_id (ls_acquired_at lease) (ls_fencing_token lease)
                      (map snd validate_results) of
                 Inl e \<Rightarrow> (w1, Inl e)
               | Inr matching_nodes \<Rightarrow>
                   if quorum w1 \<le> matching_nodes then (w1, Inr True)
                   else (discard_redlock_nodes pipeline_id (pop_lease pipeline_id w1), Inr False)) w)"

text \<open>The part of \<open>renew\<close> after the nodes have answered.\<close>

definition redlock_conclude_renew ::
    "lease_config \<Rightarrow> 'r redis_ops \<Rightarrow> 'r mark_lost \<Rightarrow> string \<Rightarrow> string \<Rightarrow> lease_state \<Rightarrow> rat \<Rightarrow> (nat \<times> int) list
     \<Rightarrow> ('r lease_world, bool) eff" where
  "redlock_conclude_renew C RO mark_lease_lost worker_id pipeline_id lease started renew_results w =
     (let renewed_indices = map fst (filter (\<lambda>(_, n). n = 1) renew_results) in
      case read_monotonic C w of (w1, t) \<Rightarrow>
        if quorum w1 \<le> length renewed_indices \<and> 0 < validity_s C (t - started)
        then (case read_now C (w1\<lparr>lease_nodes :=
                    dict_set pipeline_id (set renewed_indices) (lease_nodes w1)\<rparr>) of
                (w2, now) \<Rightarrow> (set_lease pipeline_id (renewed lease now) w2, Inr True))
        else bindE (release_indices C RO pipeline_id worker_id (ls_acquired_at lease)
                      (ls_fencing_token lease) renewed_indices) (\<lambda>_.
               bindE (mark_lease_lost pipeline_id lease ''redlock_renew_quorum_failed'') (\<lambda>_ w2.
                 (discard_redlock_nodes pipeline_id w2, Inr False))) w1)"

definition redlock_renew ::
    "lease_config \<Rightarrow> 'r redis_ops \<Rightarrow> 'r mark_lost \<Rightarrow> string \<Rightarrow> string \<Rightarrow> ('r lease_world, bool) eff" where
  "redlock_renew C RO mark_lease_lost worker_id pipeline_id w =
     (case current_lease pipeline_id w of
        None \<Rightarrow> (w, Inr False)
      | Some lease \<Rightarrow>
          let candidate_indices = sorted_list_of_set
                (dict_getd (lease_nodes w) pipeline_id {0..<length (redis_nodes w)})
          in case read_monotonic C w of (w1, started) \<Rightarrow>
            bindE (run_node_calls RO
                (REDLOCK_RENEW_SCRIPT RO (lease_key C pipeline_id) worker_id (ls_acquired_at lease)
                   (ls_fencing_token lease) (lc_lease_ttl C)) candidate_indices)
              (redlock_conclude_renew C RO mark_lease_lost worker_id pipeline_id lease started) w1)"

text \<open>\<^verbatim>\<open>RedisRedlockNodeSet\<close>: the servers in \<open>urls\<close> that answer are connected until one does not.\<close>

fun connect_nodes :: "(string \<Rightarrow> 'r result) \<Rightarrow> string list \<Rightarrow> ('r lease_world, unit) eff" where
  "connect_nodes connect [] w = (w, Inr ())"
| "connect_nodes connect (url # urls) w =
     (case connect url of
        Inl e \<Rightarrow> (w, Inl e)
      | Inr node \<Rightarrow> connect_nodes connect urls (w\<lparr>redis_nodes := redis_nodes w @ [node]\<rparr>))"

definition start_nodes :: "lease_config \<Rightarrow> (string \<Rightarrow> 'r result) \<Rightarrow> ('r lease_world, unit) eff" where
  "start_nodes C connect w =
     (if lc_redlock_redis_urls C = [] then (w, Inr ())
      else connect_nodes connect (lc_redlock_redis_urls C) w)"

definition close_nodes :: "'r lease_world \<Rightarrow> 'r lease_world" where
  "close_nodes w = w\<lparr>redis_nodes := [], lease_nodes := []\<rparr>"

end
