(* ===== verification/Worker_Registry.thy ===== *)
theory Worker_Registry
  imports Lease_Store
begin

text \<open>
  The worker registry (\<^verbatim>\<open>distributed/worker_registry.py\<close>, \<open>worker_info_from_raw\<close> of \<^verbatim>\<open>_shared.py\<close>): a worker
  writes itself under a key with a time to live, and the list of workers is read back with SCAN and
  MGET in batches.  Redis, the JSON encoder, host name and process id are parameters.
\<close>

section \<open>Worker entries\<close>

record worker_info =
  wi_worker_id :: string
  wi_hostname :: string
  wi_pid :: int
  wi_status :: string
  wi_assigned_pipelines :: "string list"
  wi_last_heartbeat_at :: string

record registry_config =
  rc_key_prefix :: string
  rc_heartbeat_interval :: int
  rc_fetch_batch_size :: int
  rc_scan_count :: int
  rc_hostname :: string
  rc_pid :: int

record 'r registry_ops =
  rg_set_ex :: "string \<Rightarrow> string \<Rightarrow> int \<Rightarrow> 'r \<Rightarrow> 'r"
  rg_delete :: "string \<Rightarrow> 'r \<Rightarrow> 'r"
  rg_scan :: "int \<Rightarrow> string \<Rightarrow> int \<Rightarrow> 'r \<Rightarrow> (int \<times> string list) result"
  rg_mget :: "string list \<Rightarrow> 'r \<Rightarrow> string option list result"
  json_dumps :: "pyval \<Rightarrow> string"

definition worker_key :: "registry_config \<Rightarrow> string \<Rightarrow> string" where
  "worker_key G worker_id = rc_key_prefix G @ ''workers:'' @ worker_id"

definition worker_entry :: "registry_config \<Rightarrow> string \<Rightarrow> string list \<Rightarrow> string \<Rightarrow> string \<Rightarrow> pyval" where
  "worker_entry G worker_id pipeline_ids status now =
     PDict [(''worker_id'', PStr worker_id), (''hostname'', PStr (rc_hostname G)), (''pid'', PInt (rc_pid G)),
            (''status'', PStr status), (''assigned_pipelines'', PList (map PStr pipeline_ids)),
            (''last_heartbeat_at'', PStr now)]"

text \<open>The text \<open>register\<close> stores and its time to live.\<close>

definition register_worker ::
    "registry_config \<Rightarrow> 'r registry_ops \<Rightarrow> string \<Rightarrow> string list \<Rightarrow> string \<Rightarrow> string \<Rightarrow> 'r \<Rightarrow> 'r" where
  "register_worker G RG worker_id pipeline_ids status now r =
     rg_set_ex RG (worker_key G worker_id) (json_dumps RG (worker_entry G worker_id pipeline_ids status now))
       (rc_heartbeat_interval G * 3) r"

definition field_str :: "(pyval \<Rightarrow> string) \<Rightarrow> (string, pyval) dict \<Rightarrow> string \<Rightarrow> string \<Rightarrow> string" where
  "field_str R d k dflt = (case dict_get d k of None \<Rightarrow> dflt | Some v \<Rightarrow> py_str R v)"

text \<open>Text that is not JSON, not an object, or has an unusable \<^verbatim>\<open>pid\<close> gives no worker.\<close>

definition worker_info_from_raw ::
    "(string \<Rightarrow> pyval option) \<Rightarrow> (pyval \<Rightarrow> string) \<Rightarrow> string option \<Rightarrow> worker_info option" where
  "worker_info_from_raw loads R raw =
     (case raw of
        None \<Rightarrow> None
      | Some text \<Rightarrow>
          (case loads text of
             Some (PDict d) \<Rightarrow>
               let assigned = (case dict_get d ''assigned_pipelines'' of Some (PList xs) \<Rightarrow> xs | _ \<Rightarrow> []) in
               (case py_int (dict_getd d ''pid'' (PInt 0)) of
                  Inl _ \<Rightarrow> None
                | Inr pid \<Rightarrow>
                    Some \<lparr>wi_worker_id = field_str R d ''worker_id'' [],
                          wi_hostname = field_str R d ''hostname'' [],
                          wi_pid = pid,
                          wi_status = field_str R d ''status'' ''unknown'',
                          wi_assigned_pipelines = map (py_str R) assigned,
                          wi_last_heartbeat_at = field_str R d ''last_heartbeat_at'' []\<rparr>)
           | _ \<Rightarrow> None))"

section \<open>Listing the workers\<close>

definition fetch_worker_batch ::
    "(string option \<Rightarrow> worker_info option) \<Rightarrow> 'r registry_ops \<Rightarrow> 'r \<Rightarrow> string list \<Rightarrow> worker_info list result" where
  "fetch_worker_batch parse RG r keys =
     (if keys = [] then Inr []
      else bindR (rg_mget RG keys r) (\<lambda>raw_values. Inr (List.map_filter parse raw_values)))"

type_synonym listing = "string set \<times> string list \<times> worker_info list"

text \<open>The loop over the keys of one SCAN reply: seen keys, pending keys, workers so far.\<close>

fun add_keys ::
    "(string option \<Rightarrow> worker_info option) \<Rightarrow> 'r registry_ops \<Rightarrow> 'r \<Rightarrow> int \<Rightarrow> string list \<Rightarrow> listing
     \<Rightarrow> listing result" where
  "add_keys parse RG r batch_size [] st = Inr st"
| "add_keys parse RG r batch_size (key # keys) (seen, pending, workers) =
     (if key \<in> seen then add_keys parse RG r batch_size keys (seen, pending, workers)
      else if batch_size \<le> int (length (pending @ [key])) then
        bindR (fetch_worker_batch parse RG r (pending @ [key])) (\<lambda>ws.
          add_keys parse RG r batch_size keys (insert key seen, [], workers @ ws))
      else add_keys parse RG r batch_size keys (insert key seen, pending @ [key], workers))"

text \<open>The SCAN loop, with fuel: one unit per SCAN call.\<close>

fun scan_loop ::
    "registry_config \<Rightarrow> (string option \<Rightarrow> worker_info option) \<Rightarrow> 'r registry_ops \<Rightarrow> 'r \<Rightarrow> nat \<Rightarrow> int \<Rightarrow> listing
     \<Rightarrow> listing result option" where
  "scan_loop G parse RG r 0 cursor st = None"
| "scan_loop G parse RG r (Suc fuel) cursor st =
     (case rg_scan RG cursor (rc_key_prefix G @ ''workers:*'') (rc_scan_count G) r of
        Inl e \<Rightarrow> Some (Inl e)
      | Inr (cursor', keys) \<Rightarrow>
          (case add_keys parse RG r (rc_fetch_batch_size G) keys st of
             Inl e \<Rightarrow> Some (Inl e)
           | Inr st' \<Rightarrow>
               if cursor' = 0 then Some (Inr st') else scan_loop G parse RG r fuel cursor' st'))"

definition list_workers ::
    "registry_config \<Rightarrow> (string option \<Rightarrow> worker_info option) \<Rightarrow> 'r registry_ops \<Rightarrow> nat \<Rightarrow> 'r option
     \<Rightarrow> worker_info list result option" where
  "list_workers G parse RG fuel redis =
     (case redis of
        None \<Rightarrow> Some (Inr [])
      | Some r \<Rightarrow>
          (case scan_loop G parse RG r fuel 0 ({}, [], []) of
             None \<Rightarrow> None
           | Some (Inl e) \<Rightarrow> Some (Inl e)
           | Some (Inr (seen, pending, workers)) \<Rightarrow>
               Some (if pending \<noteq> []
                     then bindR (fetch_worker_batch parse RG r pending) (\<lambda>ws. Inr (workers @ ws))
                     else Inr workers)))"

section \<open>Batching does not matter\<close>

text \<open>The distinct keys of a sequence, in the order of their first occurrence.\<close>

fun fresh_keys :: "string set \<Rightarrow> string list \<Rightarrow> string list" where
  "fresh_keys seen [] = []"
| "fresh_keys seen (k # ks) =
     (if k \<in> seen then fresh_keys seen ks else k # fresh_keys (insert k seen) ks)"

lemma fresh_keys_append:
  "fresh_keys seen (ks @ ks') = fresh_keys seen ks @ fresh_keys (seen \<union> set ks) ks'"
  by (induction ks arbitrary: seen) (auto simp: insert_absorb)

lemma fresh_keys_distinct: "distinct (fresh_keys seen ks)" "set (fresh_keys seen ks) = set ks - seen"
proof (induction ks arbitrary: seen)
  case (Cons k ks)
  { case 1 show ?case using Cons [of seen] Cons [of "insert k seen"] by auto }
  { case 2 show ?case using Cons [of seen] Cons [of "insert k seen"] by auto }
qed simp_all

text \<open>MGET returns the stored texts in the order of the keys.\<close>

definition mget_reads :: "'r registry_ops \<Rightarrow> 'r \<Rightarrow> (string \<Rightarrow> string option) \<Rightarrow> bool" where
  "mget_reads RG r stored \<longleftrightarrow> (\<forall>keys. rg_mget RG keys r = Inr (map stored keys))"

abbreviation workers_of ::
    "(string option \<Rightarrow> worker_info option) \<Rightarrow> (string \<Rightarrow> string option) \<Rightarrow> string list \<Rightarrow> worker_info list" where
  "workers_of parse stored keys \<equiv> List.map_filter parse (map stored keys)"

lemma fetch_worker_batch_reads:
  "mget_reads RG r stored \<Longrightarrow> fetch_worker_batch parse RG r keys = Inr (workers_of parse stored keys)"
  by (simp add: fetch_worker_batch_def mget_reads_def map_filter_def)

text \<open>What a listing stands for: the keys seen, and their workers once the pending keys are fetched.\<close>

definition listing_of ::
    "(string option \<Rightarrow> worker_info option) \<Rightarrow> (string \<Rightarrow> string option) \<Rightarrow> string list \<Rightarrow> listing \<Rightarrow> bool" where
  "listing_of parse stored keys st \<longleftrightarrow>
     (case st of (seen, pending, workers) \<Rightarrow>
        seen = set keys \<and> workers @ workers_of parse stored pending = workers_of parse stored (fresh_keys {} keys))"

lemma add_keys_listing:
  assumes "mget_reads RG r stored" "listing_of parse stored keys0 st"
  shows "\<exists>st'. add_keys parse RG r batch_size keys st = Inr st' \<and> listing_of parse stored (keys0 @ keys) st'"
  using assms(2)
proof (induction keys arbitrary: keys0 st)
  case (Cons key keys)
  obtain seen pending workers where st: "st = (seen, pending, workers)" by (cases st)
  have seen: "seen = set keys0"
    and ws: "workers @ workers_of parse stored pending = workers_of parse stored (fresh_keys {} keys0)"
    using Cons.prems st by (simp_all add: listing_of_def)
  have step: "listing_of parse stored (keys0 @ [key]) st'" if
    "st' = (if key \<in> seen then (seen, pending, workers)
       else if batch_size \<le> int (length (pending @ [key]))
       then (insert key seen, [], workers @ workers_of parse stored (pending @ [key]))
       else (insert key seen, pending @ [key], workers))" for st'
    using that seen ws
    by (auto simp: listing_of_def fresh_keys_append map_filter_append insert_absorb
        simp flip: append_assoc)
  show ?case
    using Cons.IH [OF step [OF refl]] seen ws
    by (auto simp: st fetch_worker_batch_reads [OF assms(1)] map_filter_append split: if_splits)
qed (auto)


text \<open>The keys of the SCAN replies from a cursor on, when the iteration ends within \<open>n\<close> calls.\<close>

fun scan_pages ::
    "registry_config \<Rightarrow> 'r registry_ops \<Rightarrow> 'r \<Rightarrow> nat \<Rightarrow> int \<Rightarrow> string list option" where
  "scan_pages G RG r 0 cursor = None"
| "scan_pages G RG r (Suc n) cursor =
     (case rg_scan RG cursor (rc_key_prefix G @ ''workers:*'') (rc_scan_count G) r of
        Inl e \<Rightarrow> None
      | Inr (cursor', keys) \<Rightarrow>
          if cursor' = 0 then Some keys else map_option ((@) keys) (scan_pages G RG r n cursor'))"

lemma scan_loop_listing:
  assumes "mget_reads RG r stored" "listing_of parse stored keys0 st"
    "scan_pages G RG r n cursor = Some keys" "n \<le> fuel"
  shows "\<exists>st'. scan_loop G parse RG r fuel cursor st = Some (Inr st') \<and> listing_of parse stored (keys0 @ keys) st'"
  using assms(2-4)
proof (induction n arbitrary: fuel cursor keys0 keys st)
  case (Suc n)
  then obtain fuel' where fuel: "fuel = Suc fuel'" "n \<le> fuel'" by (cases fuel) auto
  obtain cursor' page where page: "rg_scan RG cursor (rc_key_prefix G @ ''workers:*'') (rc_scan_count G) r = Inr (cursor', page)"
    using Suc.prems(2) by (auto split: sum.splits)
  obtain st1 where st1: "add_keys parse RG r (rc_fetch_batch_size G) page st = Inr st1"
    "listing_of parse stored (keys0 @ page) st1"
    using add_keys_listing [OF assms(1) Suc.prems(1)] by blast
  show ?case
  proof (cases "cursor' = 0")
    case True
    with Suc.prems(2) page st1 fuel show ?thesis by simp
  next
    case False
    with Suc.prems(2) page obtain rest where "scan_pages G RG r n cursor' = Some rest" "keys = page @ rest"
      by auto
    with Suc.IH [OF st1(2) this(1) fuel(2)] False page st1(1) fuel show ?thesis by auto
  qed
qed simp

section \<open>Properties\<close>

text \<open>
  C28: the list of workers has one entry per registered key that holds a readable worker, in the order
  SCAN reports the keys, although SCAN may report a key several times; it does not depend on how the
  keys are split into MGET batches, and the loop ends when the SCAN iteration does.
\<close>

theorem list_workers_once_per_key:
  assumes "mget_reads RG r stored" "scan_pages G RG r n 0 = Some keys" "n \<le> fuel"
  shows "list_workers G parse RG fuel (Some r) = Some (Inr (workers_of parse stored (fresh_keys {} keys))) \<and>
    distinct (fresh_keys {} keys) \<and> set (fresh_keys {} keys) = set keys"
proof -
  have "listing_of parse stored [] ({}, [], [])"
    by (simp add: listing_of_def map_filter_def)
  from scan_loop_listing [OF assms(1) this assms(2,3)]
  obtain seen pending workers where "scan_loop G parse RG r fuel 0 ({}, [], []) = Some (Inr (seen, pending, workers))"
    "workers @ workers_of parse stored pending = workers_of parse stored (fresh_keys {} keys)"
    by (auto simp: listing_of_def)
  then show ?thesis
    using fresh_keys_distinct [of "{}" keys]
    by (auto simp: list_workers_def fetch_worker_batch_reads [OF assms(1)] map_filter_def)
qed

text \<open>Three keys in two SCAN replies, one of them reported twice, fetched two at a time.\<close>

definition sample_registry :: "registry_config" where
  "sample_registry =
     \<lparr>rc_key_prefix = ''p:'', rc_heartbeat_interval = 30, rc_fetch_batch_size = 2, rc_scan_count = 100,
      rc_hostname = ''h'', rc_pid = 1\<rparr>"

definition sample_registry_ops :: "unit registry_ops" where
  "sample_registry_ops =
     \<lparr>rg_set_ex = (\<lambda>_ _ _ r. r), rg_delete = (\<lambda>_ r. r),
      rg_scan = (\<lambda>cursor _ _ _. Inr (if cursor = 0 then (7, [''a'', ''b'', ''a'']) else (0, [''b'', ''c'']))),
      rg_mget = (\<lambda>keys _. Inr (map Some keys)), json_dumps = (\<lambda>_. [])\<rparr>"

theorem list_workers_once_per_key_witness:
  "list_workers sample_registry
     (worker_info_from_raw (\<lambda>text. Some (PDict [(''worker_id'', PStr text)])) (\<lambda>_. [])) sample_registry_ops 5 (Some ()) =
   Some (Inr (workers_of (worker_info_from_raw (\<lambda>text. Some (PDict [(''worker_id'', PStr text)])) (\<lambda>_. []))
     Some [''a'', ''b'', ''c'']))"
proof -
  have "mget_reads sample_registry_ops () Some"
    by (simp add: mget_reads_def sample_registry_ops_def)
  moreover have "scan_pages sample_registry sample_registry_ops () 2 0 = Some [''a'', ''b'', ''a'', ''b'', ''c'']"
    by (simp add: sample_registry_ops_def numeral_2_eq_2)
  ultimately show ?thesis
    using list_workers_once_per_key [of sample_registry_ops "()" Some sample_registry 2] by fastforce
qed

end
