(* ===== verification/Lease_Control.thy ===== *)
theory Lease_Control
  imports Lease_Redlock Worker_Registry
begin

text \<open>
  The lease operations and their control (\<^verbatim>\<open>distributed/lease_operations.py\<close>, \<^verbatim>\<open>lease_manager.py\<close>,
  \<^verbatim>\<open>lease_controller.py\<close>), the worker session (\<^verbatim>\<open>worker_session.py\<close>), the lifecycle
  (\<^verbatim>\<open>coordinator_lifecycle.py\<close>) and the coordinator (\<^verbatim>\<open>coordinator.py\<close>).  \<open>redis_open\<close> says whether the
  session holds a connection; without one the operations fall back to local leases when configured.
\<close>

section \<open>Lease operations\<close>

definition ops_try_acquire ::
    "lease_config \<Rightarrow> 'r redis_ops \<Rightarrow> bool \<Rightarrow> bool \<Rightarrow> string \<Rightarrow> string \<Rightarrow> int \<Rightarrow> ('r lease_world, bool) eff" where
  "ops_try_acquire C RO redis_open fallback_to_local worker_id pipeline_id run_number =
     (if \<not> redis_open then acquire_local_fallback_lease C worker_id pipeline_id run_number fallback_to_local
      else if redlock_enabled C then redlock_try_acquire C RO worker_id pipeline_id run_number
      else primary_try_acquire C RO worker_id pipeline_id run_number)"

definition ops_release ::
    "lease_config \<Rightarrow> 'r redis_ops \<Rightarrow> bool \<Rightarrow> string \<Rightarrow> string \<Rightarrow> ('r lease_world, unit) eff" where
  "ops_release C RO redis_open worker_id pipeline_id w =
     (if \<not> redis_open then (fst (discard_lease pipeline_id w), Inr ())
      else if \<not> release_script w then (w, Inr ())
      else case discard_lease pipeline_id w of
        (w1, None) \<Rightarrow> (w1, Inr ())
      | (w1, Some lease) \<Rightarrow>
          if redlock_enabled C
          then release_all_nodes C RO pipeline_id worker_id (ls_acquired_at lease) (ls_fencing_token lease) w1
          else primary_release C RO worker_id pipeline_id lease w1)"

text \<open>\<open>fallback_validate\<close> is the base class's \<^verbatim>\<open>validate_lease\<close>, a parameter.\<close>

definition ops_validate ::
    "lease_config \<Rightarrow> 'r redis_ops \<Rightarrow> bool \<Rightarrow> bool \<Rightarrow> (string \<Rightarrow> int \<Rightarrow> ('r lease_world, bool) eff)
     \<Rightarrow> string \<Rightarrow> string \<Rightarrow> int \<Rightarrow> ('r lease_world, bool) eff" where
  "ops_validate C RO redis_open fallback_to_local fallback_validate worker_id pipeline_id fencing_token =
     (if \<not> redis_open then
        (if \<not> fallback_to_local then returnE False else fallback_validate pipeline_id fencing_token)
      else if redlock_enabled C then redlock_validate C RO worker_id pipeline_id fencing_token
      else primary_validate C RO worker_id pipeline_id fencing_token)"

definition ops_renew ::
    "lease_config \<Rightarrow> 'r redis_ops \<Rightarrow> 'r mark_lost \<Rightarrow> bool \<Rightarrow> bool \<Rightarrow> string \<Rightarrow> string
     \<Rightarrow> ('r lease_world, bool) eff" where
  "ops_renew C RO mark_lease_lost redis_open fallback_to_local worker_id pipeline_id =
     (if \<not> redis_open then renew_local_fallback_lease C pipeline_id fallback_to_local
      else if redlock_enabled C then redlock_renew C RO mark_lease_lost worker_id pipeline_id
      else primary_renew C RO mark_lease_lost worker_id pipeline_id)"

section \<open>The lease controller\<close>

text \<open>An exception of the callback is logged.\<close>

definition mark_lease_lost :: "'r mark_lost" where
  "mark_lease_lost pipeline_id lease reason w =
     (let w1 = fst (discard_lease pipeline_id w)
      in (if lease_lost_callback w1 then w1\<lparr>lost_calls := lost_calls w1 @ [pipeline_id]\<rparr> else w1, Inr ()))"

definition set_lease_lost_callback :: "bool \<Rightarrow> 'r lease_world \<Rightarrow> 'r lease_world" where
  "set_lease_lost_callback present w = w\<lparr>lease_lost_callback := present\<rparr>"

definition controller_renew ::
    "lease_config \<Rightarrow> 'r redis_ops \<Rightarrow> bool \<Rightarrow> bool \<Rightarrow> string \<Rightarrow> string \<Rightarrow> ('r lease_world, bool) eff" where
  "controller_renew C RO redis_open fallback_to_local worker_id pipeline_id =
     ops_renew C RO mark_lease_lost redis_open fallback_to_local worker_id pipeline_id"

fun mark_each_lost :: "string \<Rightarrow> (string \<times> lease_state) list \<Rightarrow> ('r lease_world, unit) eff" where
  "mark_each_lost reason [] = returnE ()"
| "mark_each_lost reason ((pipeline_id, lease) # rest) =
     thenE (mark_lease_lost pipeline_id lease reason) (mark_each_lost reason rest)"

definition mark_all_leases_lost :: "string \<Rightarrow> ('r lease_world, unit) eff" where
  "mark_all_leases_lost reason w = mark_each_lost reason (active_leases w) w"

fun renew_each ::
    "lease_config \<Rightarrow> 'r redis_ops \<Rightarrow> bool \<Rightarrow> bool \<Rightarrow> string \<Rightarrow> string list \<Rightarrow> ('r lease_world, unit) eff" where
  "renew_each C RO redis_open fallback worker_id [] = returnE ()"
| "renew_each C RO redis_open fallback worker_id (pipeline_id # rest) =
     thenE (controller_renew C RO redis_open fallback worker_id pipeline_id)
       (renew_each C RO redis_open fallback worker_id rest)"

text \<open>
  One renewal cycle.  \<open>deadline\<close> is the number of renewals that completed when the cycle's deadline
  expired, if it did; the renewal in progress is cancelled while it waits for Redis.
\<close>

definition renew_leases_once ::
    "lease_config \<Rightarrow> 'r redis_ops \<Rightarrow> bool \<Rightarrow> bool \<Rightarrow> string \<Rightarrow> nat option \<Rightarrow> ('r lease_world, unit) eff" where
  "renew_leases_once C RO redis_open fallback worker_id deadline w =
     (case deadline of
        None \<Rightarrow> renew_each C RO redis_open fallback worker_id (active_pipeline_ids w) w
      | Some n \<Rightarrow>
          thenE (renew_each C RO redis_open fallback worker_id (take n (active_pipeline_ids w)))
            (mark_all_leases_lost ''renew_cycle_deadline_exceeded'') w)"

definition renewal_cycle_deadline_s :: "rat option \<Rightarrow> int \<Rightarrow> rat" where
  "renewal_cycle_deadline_s configured lease_ttl =
     (case configured of Some d \<Rightarrow> d | None \<Rightarrow> max (1 / 10) (of_int lease_ttl * (1 / 2)))"

text \<open>The pause between two renewal cycles (\<^verbatim>\<open>_lease_renew_loop\<close>).\<close>

definition renewal_interval_s :: "int \<Rightarrow> int \<Rightarrow> rat" where
  "renewal_interval_s heartbeat_interval lease_ttl =
     max 1 (min (of_int heartbeat_interval) (of_int lease_ttl / 3))"

section \<open>The coordinator\<close>

record coordinator_args =
  ca_redis_url :: string
  ca_lease_ttl_seconds :: int
  ca_heartbeat_interval :: int
  ca_key_prefix :: string
  ca_fallback_to_local :: bool
  ca_fencing_key_ttl_seconds :: "int option"
  ca_lease_renewal_deadline_seconds :: "rat option"
  ca_redlock_redis_urls :: "string list option"
  ca_redlock_clock_drift_factor :: rat
  ca_worker_list_fetch_batch_size :: int

record 'r coordinator =
  cd_leases :: "'r lease_world"
  cd_redis_open :: bool
  cd_worker_id :: string
  cd_pipeline_ids :: "string list"
  cd_heartbeat_running :: bool
  cd_renewal_running :: bool

text \<open>\<^verbatim>\<open>RedisWorkerCoordinator.__init__\<close>: its checks in order, then the configuration of the collaborators.\<close>

definition coordinator_init_config ::
    "coordinator_args \<Rightarrow> (nat \<Rightarrow> string) \<Rightarrow> (nat \<Rightarrow> rat) \<Rightarrow> lease_config result" where
  "coordinator_init_config a now monotonic =
     (if ca_lease_ttl_seconds a \<le> 0 then Inl (ValueError ''lease_ttl_seconds must be > 0'')
      else if ca_heartbeat_interval a \<le> 0 then Inl (ValueError ''heartbeat_interval must be > 0'')
      else if ca_lease_ttl_seconds a \<le> ca_heartbeat_interval a
      then Inl (ValueError (''heartbeat_interval ('' @ str_of_int (ca_heartbeat_interval a) @
             ''s) must be less than lease_ttl_seconds ('' @ str_of_int (ca_lease_ttl_seconds a) @ ''s)''))
      else if (case ca_fencing_key_ttl_seconds a of None \<Rightarrow> False | Some t \<Rightarrow> t \<le> 0)
      then Inl (ValueError ''fencing_key_ttl_seconds must be > 0 when provided'')
      else if (case ca_lease_renewal_deadline_seconds a of None \<Rightarrow> False | Some t \<Rightarrow> t \<le> 0)
      then Inl (ValueError ''lease_renewal_deadline_seconds must be > 0 when provided'')
      else if (case ca_redlock_redis_urls a of None \<Rightarrow> False | Some urls \<Rightarrow> length urls < 3)
      then Inl (ValueError ''redlock_redis_urls requires at least 3 independent Redis URLs'')
      else if ca_redlock_clock_drift_factor a < 0
      then Inl (ValueError ''redlock_clock_drift_factor must be >= 0'')
      else if ca_worker_list_fetch_batch_size a \<le> 0
      then Inl (ValueError ''worker_list_fetch_batch_size must be > 0'')
      else Inr \<lparr>lc_key_prefix = ca_key_prefix a, lc_lease_ttl = ca_lease_ttl_seconds a,
                lc_fencing_key_ttl_seconds =
                  (case ca_fencing_key_ttl_seconds a of None \<Rightarrow> 0 | Some t \<Rightarrow> t),
                lc_redlock_redis_urls =
                  (case ca_redlock_redis_urls a of None \<Rightarrow> [] | Some urls \<Rightarrow> urls),
                lc_clock_drift_factor = ca_redlock_clock_drift_factor a,
                lc_now = now, lc_monotonic = monotonic\<rparr>)"

text \<open>
  Everything a coordinator is given: its configuration, the servers' operations, the outcome of
  connecting to each URL and of closing the primary connection.
\<close>

record 'r coordinator_env =
  ce_config :: lease_config
  ce_registry :: registry_config
  ce_redis :: "'r redis_ops"
  ce_registry_ops :: "'r registry_ops"
  ce_fallback_to_local :: bool
  ce_connect_primary :: "'r result"
  ce_connect_node :: "string \<Rightarrow> 'r result"
  ce_aclose :: "unit result"
  ce_base_validate :: "string \<Rightarrow> int \<Rightarrow> ('r lease_world, bool) eff"

abbreviation upd_leases ::
    "('r lease_world \<Rightarrow> 'r lease_world) \<Rightarrow> 'r coordinator \<Rightarrow> 'r coordinator" where
  "upd_leases f s \<equiv> s\<lparr>cd_leases := f (cd_leases s)\<rparr>"

definition on_leases :: "('r lease_world, 'a) eff \<Rightarrow> ('r coordinator, 'a) eff" where
  "on_leases m s = (case m (cd_leases s) of (w, x) \<Rightarrow> (s\<lparr>cd_leases := w\<rparr>, x))"

definition try_acquire_lease ::
    "'r coordinator_env \<Rightarrow> string \<Rightarrow> int \<Rightarrow> ('r coordinator, bool) eff" where
  "try_acquire_lease E pipeline_id run_number s =
     on_leases (ops_try_acquire (ce_config E) (ce_redis E) (cd_redis_open s) (ce_fallback_to_local E)
       (cd_worker_id s) pipeline_id run_number) s"

definition release_lease :: "'r coordinator_env \<Rightarrow> string \<Rightarrow> ('r coordinator, unit) eff" where
  "release_lease E pipeline_id s =
     on_leases (ops_release (ce_config E) (ce_redis E) (cd_redis_open s) (cd_worker_id s) pipeline_id) s"

definition validate_lease :: "'r coordinator_env \<Rightarrow> string \<Rightarrow> int \<Rightarrow> ('r coordinator, bool) eff" where
  "validate_lease E pipeline_id fencing_token s =
     on_leases (ops_validate (ce_config E) (ce_redis E) (cd_redis_open s) (ce_fallback_to_local E)
       (ce_base_validate E) (cd_worker_id s) pipeline_id fencing_token) s"

definition renew_lease :: "'r coordinator_env \<Rightarrow> string \<Rightarrow> ('r coordinator, bool) eff" where
  "renew_lease E pipeline_id s =
     on_leases (controller_renew (ce_config E) (ce_redis E) (cd_redis_open s) (ce_fallback_to_local E)
       (cd_worker_id s) pipeline_id) s"

section \<open>The worker session\<close>

definition session_register :: "'r coordinator_env \<Rightarrow> string \<Rightarrow> ('r coordinator, unit) eff" where
  "session_register E status s =
     (if \<not> cd_redis_open s then (s, Inr ())
      else on_leases (\<lambda>w. case read_now (ce_config E) w of (w1, now) \<Rightarrow>
             call_primary (ce_redis E) (\<lambda>r.
               (register_worker (ce_registry E) (ce_registry_ops E) (cd_worker_id s) (cd_pipeline_ids s)
                  status now r, ())) w1) s)"

text \<open>A failure of the primary or of any Redlock node closes everything again.\<close>

definition session_open_failed :: "'r coordinator_env \<Rightarrow> exn \<Rightarrow> ('r coordinator, unit) eff" where
  "session_open_failed E e s =
     (let s1 = (upd_leases close_nodes s)\<lparr>cd_redis_open := False\<rparr>
      in if ce_fallback_to_local E then (s1, Inr ())
         else (s1, Inl (RuntimeError (''agora-etl-plugins distributed coordinator cannot connect to Redis: '' @ exn_msg e))))"

definition session_open ::
    "'r coordinator_env \<Rightarrow> string \<Rightarrow> string list \<Rightarrow> ('r coordinator, unit) eff" where
  "session_open E worker_id pipeline_ids s =
     (let s1 = s\<lparr>cd_worker_id := worker_id, cd_pipeline_ids := pipeline_ids\<rparr> in
      case ce_connect_primary E of
        Inl e \<Rightarrow> session_open_failed E e s1
      | Inr r \<Rightarrow>
          (case on_leases (start_nodes (ce_config E) (ce_connect_node E))
                  ((upd_leases (\<lambda>w. w\<lparr>primary := r\<rparr>) s1)\<lparr>cd_redis_open := True\<rparr>) of
             (s2, Inl e) \<Rightarrow> session_open_failed E e s2
           | (s2, Inr _) \<Rightarrow> (s2, Inr ())))"

definition session_activate :: "'r coordinator_env \<Rightarrow> ('r coordinator, unit) eff" where
  "session_activate E =
     bindE (session_register E ''running'') (\<lambda>_ s. (s\<lparr>cd_heartbeat_running := True\<rparr>, Inr ()))"

definition session_stop :: "'r coordinator_env \<Rightarrow> ('r coordinator, unit) eff" where
  "session_stop E s =
     (if \<not> cd_redis_open s then (s, Inr ())
      else bindE (session_register E ''draining'') (\<lambda>_ s1.
        let s2 = s1\<lparr>cd_heartbeat_running := False\<rparr>;
            s3 = fst (on_leases (call_primary (ce_redis E) (\<lambda>r.
                   (rg_delete (ce_registry_ops E) (worker_key (ce_registry E) (cd_worker_id s2)) r, ()))) s2)
        in (case ce_aclose E of
              Inl e \<Rightarrow> (s3, Inl e)
            | Inr _ \<Rightarrow> ((upd_leases close_nodes s3)\<lparr>cd_redis_open := False\<rparr>, Inr ()))) s)"

definition session_connect :: "'r coordinator_env \<Rightarrow> ('r coordinator, unit) eff" where
  "session_connect E s =
     (if cd_redis_open s then (s, Inr ())
      else case ce_connect_primary E of
        Inl e \<Rightarrow> (s\<lparr>cd_redis_open := True\<rparr>, Inl e)
      | Inr r \<Rightarrow> ((upd_leases (\<lambda>w. w\<lparr>primary := r\<rparr>) s)\<lparr>cd_redis_open := True\<rparr>, Inr ()))"

definition coordinator_session_close :: "'r coordinator_env \<Rightarrow> ('r coordinator, unit) eff" where
  "coordinator_session_close E s =
     (let s1 = s\<lparr>cd_heartbeat_running := False\<rparr> in
      if cd_redis_open s1 then
        (case ce_aclose E of
           Inl e \<Rightarrow> (s1, Inl e)
         | Inr _ \<Rightarrow> ((upd_leases close_nodes s1)\<lparr>cd_redis_open := False\<rparr>, Inr ()))
      else (upd_leases close_nodes s1, Inr ()))"

section \<open>The lifecycle\<close>

definition lifecycle_start ::
    "'r coordinator_env \<Rightarrow> string \<Rightarrow> string list \<Rightarrow> ('r coordinator, unit) eff" where
  "lifecycle_start E worker_id pipeline_ids =
     bindE (session_open E worker_id pipeline_ids) (\<lambda>_ s.
       if \<not> cd_redis_open s then (s, Inr ())
       else bindE (session_activate E) (\<lambda>_ s1. (s1\<lparr>cd_renewal_running := True\<rparr>, Inr ()))
              (upd_leases register_scripts s))"

text \<open>The release loop of \<open>stop\<close>: an exception is logged and the loop goes on.\<close>

fun release_each :: "'r coordinator_env \<Rightarrow> string list \<Rightarrow> 'r coordinator \<Rightarrow> 'r coordinator" where
  "release_each E [] s = s"
| "release_each E (pipeline_id # rest) s = release_each E rest (fst (release_lease E pipeline_id s))"

definition lifecycle_stop :: "'r coordinator_env \<Rightarrow> ('r coordinator, unit) eff" where
  "lifecycle_stop E s =
     (if \<not> cd_redis_open s then (upd_leases runtime_clear s, Inr ())
      else
        let s1 = s\<lparr>cd_renewal_running := False\<rparr>;
            s2 = release_each E (active_pipeline_ids (cd_leases s1)) s1
        in bindE (session_stop E) (\<lambda>_ s3. (upd_leases runtime_clear s3, Inr ())) s2)"

end
