(* ===== verification/Lease_Safety.thy ===== *)
theory Lease_Safety
  imports Lease_Control
begin

text \<open>
  Fencing of leases on one Redis server.  The documented behaviour of Redis the proofs rely on is
  stated first (\<open>redis_laws\<close>); then what each script does to the counter and the stored lease of a
  pipeline (\<open>fence\<close>), each operation of the primary store, and any interleaving of operations of any
  number of workers (\<open>cluster_step\<close>).  \<open>sample_redis\<close> is a server that satisfies the laws, for
  concrete runs.
\<close>

section \<open>Documented behaviour of Redis\<close>

text \<open>Integers of less than fifteen digits survive the number format of Lua's JSON encoder.\<close>

definition lua_exact :: "int \<Rightarrow> bool" where
  "lua_exact n \<longleftrightarrow> \<bar>n\<bar> < 10 ^ 14"

text \<open>While time passes a key may expire, unless it is one that has no time to live.\<close>

definition time_passes :: "'r redis_ops \<Rightarrow> (string \<Rightarrow> bool) \<Rightarrow> 'r \<Rightarrow> 'r \<Rightarrow> bool" where
  "time_passes RO persistent r r' \<longleftrightarrow>
     (\<forall>k. rd_get RO k r' = rd_get RO k r \<or> rd_get RO k r' = None) \<and>
     (\<forall>k. persistent k \<longrightarrow> rd_counter RO k r' = rd_counter RO k r)"

definition payload_fields :: "lease_payload \<Rightarrow> (string, pyval) dict \<Rightarrow> bool" where
  "payload_fields p d \<longleftrightarrow>
     dict_get d ''worker_id'' = Some (PStr (lp_worker_id p)) \<and>
     dict_get d ''acquired_at'' = Some (PStr (lp_acquired_at p)) \<and>
     dict_get d ''fencing_token'' = Some (PInt (lp_fencing_token p))"

definition set_nx_ok :: "'r redis_ops \<Rightarrow> bool" where
  "set_nx_ok RO \<longleftrightarrow>
     (\<forall>k v t r k'. (snd (rd_set_nx_ex RO k v t r) \<longleftrightarrow> rd_get RO k r = None) \<and>
        rd_get RO k' (fst (rd_set_nx_ex RO k v t r)) =
          (if k' = k \<and> rd_get RO k r = None then Some v else rd_get RO k' r) \<and>
        (k' \<noteq> k \<longrightarrow> rd_counter RO k' (fst (rd_set_nx_ex RO k v t r)) = rd_counter RO k' r))"

definition incr_ok :: "'r redis_ops \<Rightarrow> bool" where
  "incr_ok RO \<longleftrightarrow>
     (\<forall>k r k'. snd (rd_incr RO k r) = rd_counter RO k r + 1 \<and>
        rd_counter RO k' (fst (rd_incr RO k r)) = rd_counter RO k' r + (if k' = k then 1 else 0) \<and>
        (k' \<noteq> k \<longrightarrow> rd_get RO k' (fst (rd_incr RO k r)) = rd_get RO k' r))"

definition expire_ok :: "'r redis_ops \<Rightarrow> bool" where
  "expire_ok RO \<longleftrightarrow>
     (\<forall>k t r k'. rd_get RO k' (rd_expire RO k t r) = rd_get RO k' r \<and>
        rd_counter RO k' (rd_expire RO k t r) = rd_counter RO k' r)"

definition del_ok :: "'r redis_ops \<Rightarrow> bool" where
  "del_ok RO \<longleftrightarrow>
     (\<forall>k r k'. rd_get RO k' (rd_del RO k r) = (if k' = k then None else rd_get RO k' r) \<and>
        (k' \<noteq> k \<longrightarrow> rd_counter RO k' (rd_del RO k r) = rd_counter RO k' r))"

definition redis_commands_ok :: "'r redis_ops \<Rightarrow> bool" where
  "redis_commands_ok RO \<longleftrightarrow> set_nx_ok RO \<and> incr_ok RO \<and> expire_ok RO \<and> del_ok RO"

definition codecs_ok :: "'r redis_ops \<Rightarrow> bool" where
  "codecs_ok RO \<longleftrightarrow>
     (\<forall>p. lua_exact (lp_fencing_token p) \<longrightarrow>
        (\<exists>d. json_loads RO (cjson_encode RO p) = Some (PDict d) \<and> payload_fields p d) \<and>
        (\<exists>d. cjson_decode RO (cjson_encode RO p) = Some (PDict d) \<and> payload_fields p d)) \<and>
     (\<forall>n. lua_exact n \<longrightarrow> lua_tostring RO (Some (PInt n)) = str_of_int n) \<and>
     (\<forall>s. lua_tostring RO (Some (PStr s)) = s)"

definition redis_laws :: "'r redis_ops \<Rightarrow> (string \<Rightarrow> bool) \<Rightarrow> bool" where
  "redis_laws RO persistent \<longleftrightarrow>
     redis_commands_ok RO \<and> codecs_ok RO \<and> (\<forall>r. time_passes RO persistent r (fst (rd_fault RO r)))"

lemma set_nx_law:
  assumes "redis_commands_ok RO" "rd_set_nx_ex RO k v t r = (r', ok)"
  shows "ok \<longleftrightarrow> rd_get RO k r = None"
    "rd_get RO k' r' = (if k' = k \<and> ok then Some v else rd_get RO k' r)"
    "k' \<noteq> k \<Longrightarrow> rd_counter RO k' r' = rd_counter RO k' r"
proof -
  have "set_nx_ok RO" using assms(1) by (simp add: redis_commands_ok_def)
  note law = this [unfolded set_nx_ok_def, rule_format, of k v t r k', unfolded assms(2) fst_conv snd_conv]
  from law show "ok \<longleftrightarrow> rd_get RO k r = None"
    "rd_get RO k' r' = (if k' = k \<and> ok then Some v else rd_get RO k' r)"
    "k' \<noteq> k \<Longrightarrow> rd_counter RO k' r' = rd_counter RO k' r" by simp_all
qed

lemma incr_law:
  assumes "redis_commands_ok RO" "rd_incr RO k r = (r', n)"
  shows "n = rd_counter RO k r + 1"
    "rd_counter RO k' r' = rd_counter RO k' r + (if k' = k then 1 else 0)"
    "k' \<noteq> k \<Longrightarrow> rd_get RO k' r' = rd_get RO k' r"
proof -
  have "incr_ok RO" using assms(1) by (simp add: redis_commands_ok_def)
  note law = this [unfolded incr_ok_def, rule_format, of k r k', unfolded assms(2) fst_conv snd_conv]
  from law show "n = rd_counter RO k r + 1"
    "rd_counter RO k' r' = rd_counter RO k' r + (if k' = k then 1 else 0)"
    "k' \<noteq> k \<Longrightarrow> rd_get RO k' r' = rd_get RO k' r" by simp_all
qed

lemma expire_law:
  assumes "redis_commands_ok RO"
  shows "rd_get RO k' (rd_expire RO k t r) = rd_get RO k' r"
    "rd_counter RO k' (rd_expire RO k t r) = rd_counter RO k' r"
  using assms by (simp_all add: redis_commands_ok_def expire_ok_def)

lemma del_law:
  assumes "redis_commands_ok RO"
  shows "rd_get RO k' (rd_del RO k r) = (if k' = k then None else rd_get RO k' r)"
    "k' \<noteq> k \<Longrightarrow> rd_counter RO k' (rd_del RO k r) = rd_counter RO k' r"
  using assms by (simp_all add: redis_commands_ok_def del_ok_def)

section \<open>Keys and numbers\<close>

lemma lease_key_inj [simp]: "lease_key C p = lease_key C q \<longleftrightarrow> p = q"
  by (simp add: lease_key_def)

lemma fencing_key_inj [simp]: "fencing_key C p = fencing_key C q \<longleftrightarrow> p = q"
  by (simp add: fencing_key_def)

lemma lease_fencing_keys [simp]: "lease_key C p \<noteq> fencing_key C q" "fencing_key C q \<noteq> lease_key C p"
  by (simp_all add: lease_key_def fencing_key_def)

definition digits_value :: "string \<Rightarrow> nat" where
  "digits_value s = foldl (\<lambda>n c. 10 * n + (of_char c - 48)) 0 s"

lemma digits_value_of [simp]: "digits_value (digits_of n) = n"
proof (induction n rule: digits_of.induct)
  case (1 n)
  show ?case
  proof (cases "n < 10")
    case True
    then show ?thesis by (subst digits_of.simps) (simp add: digits_value_def of_char_of)
  next
    case False
    then show ?thesis
      using 1 by (subst digits_of.simps) (simp add: digits_value_def of_char_of)
  qed
qed

lemma digits_of_hd: "\<exists>c cs. digits_of n = c # cs \<and> c \<noteq> CHR ''-''"
proof (induction n rule: digits_of.induct)
  case (1 n)
  show ?case
  proof (cases "n < 10")
    case True
    have "(char_of (48 + n) :: char) \<noteq> CHR ''-''"
    proof
      assume "(char_of (48 + n) :: char) = CHR ''-''"
      then have "of_char (char_of (48 + n) :: char) = (of_char CHR ''-'' :: nat)" by simp
      with True show False by (simp add: of_char_of)
    qed
    with True show ?thesis by (subst digits_of.simps) simp
  next
    case False
    with 1 show ?thesis by (subst digits_of.simps) auto
  qed
qed

lemma str_of_int_inj [simp]: "str_of_int a = str_of_int b \<longleftrightarrow> a = b"
proof
  assume eq: "str_of_int a = str_of_int b"
  have inj: "digits_of m = digits_of n \<Longrightarrow> m = n" for m n by (metis digits_value_of)
  have "(a < 0) = (b < 0)"
    using eq digits_of_hd [of "nat a"] digits_of_hd [of "nat b"]
    by (auto simp: str_of_int_def split: if_splits)
  with eq show "a = b"
    by (auto simp: str_of_int_def split: if_splits dest!: inj)
qed simp


section \<open>The fence\<close>

text \<open>
  The server has issued token \<open>t\<close> for a pipeline: its counter is at least \<open>t\<close>, and a stored lease, if
  any, was issued with a token from \<open>t\<close> on.
\<close>

definition fence :: "lease_config \<Rightarrow> 'r redis_ops \<Rightarrow> string \<Rightarrow> int \<Rightarrow> 'r \<Rightarrow> bool" where
  "fence C RO p t r \<longleftrightarrow>
     t \<le> rd_counter RO (fencing_key C p) r \<and>
     (\<forall>v. rd_get RO (lease_key C p) r = Some v \<longrightarrow>
        (\<exists>pl. v = cjson_encode RO pl \<and> t \<le> lp_fencing_token pl \<and>
           lp_fencing_token pl \<le> rd_counter RO (fencing_key C p) r))"

lemma fence_time_passes:
  assumes "time_passes RO persistent r r'" "persistent (fencing_key C p)" "fence C RO p t r"
  shows "fence C RO p t r'"
  using assms unfolding fence_def time_passes_def by (metis option.distinct(1))

lemma fence_unchanged:
  assumes "fence C RO p t r" "rd_get RO (lease_key C p) r' \<in> {None, rd_get RO (lease_key C p) r}"
    "rd_counter RO (fencing_key C p) r' = rd_counter RO (fencing_key C p) r"
  shows "fence C RO p t r'"
  using assms unfolding fence_def by auto

lemma fence_release:
  assumes "redis_commands_ok RO" "fence C RO p t r"
  shows "fence C RO p t (fst (RELEASE_SCRIPT RO (lease_key C q) w tok r))"
  using assms(2)
  by (rule fence_unchanged)
    (auto simp: RELEASE_SCRIPT_def del_law [OF assms(1)] split: option.split bool.split)

lemma fence_renew:
  assumes "redis_commands_ok RO" "fence C RO p t r"
  shows "fence C RO p t (fst (RENEW_SCRIPT RO (lease_key C q) w tok ttl r))"
  using assms(2)
  by (rule fence_unchanged)
    (auto simp: RENEW_SCRIPT_def expire_law [OF assms(1)] split: option.split bool.split)

text \<open>What the acquire script does when the lease is free.\<close>

lemma acquire_script_free:
  assumes ok: "redis_commands_ok RO" and free: "rd_get RO (lease_key C q) r = None"
    and run: "ACQUIRE_SCRIPT RO (lease_key C q) (fencing_key C q) w at0 pid n ttl fttl r = (r', x)"
  defines "tok \<equiv> rd_counter RO (fencing_key C q) r + 1"
  shows "x = Some tok"
    "rd_get RO (lease_key C p) r' = (if p = q then Some (cjson_encode RO \<lparr>lp_worker_id = w, lp_acquired_at = at0,
       lp_pipeline_id = pid, lp_run_number = n, lp_fencing_token = tok\<rparr>) else rd_get RO (lease_key C p) r)"
    "rd_counter RO (fencing_key C p) r' = rd_counter RO (fencing_key C p) r + (if p = q then 1 else 0)"
proof -
  obtain r1 tok1 where incr: "rd_incr RO (fencing_key C q) r = (r1, tok1)" by fastforce
  define r2 where "r2 = (if 0 < fttl then rd_expire RO (fencing_key C q) fttl r1 else r1)"
  let ?v = "cjson_encode RO \<lparr>lp_worker_id = w, lp_acquired_at = at0, lp_pipeline_id = pid,
      lp_run_number = n, lp_fencing_token = tok1\<rparr>"
  obtain r3 ok3 where set: "rd_set_nx_ex RO (lease_key C q) ?v ttl r2 = (r3, ok3)" by fastforce
  have res: "r' = r3" "x = (if ok3 then Some tok1 else None)"
    using run free by (simp_all add: ACQUIRE_SCRIPT_def incr r2_def [symmetric] set)
  note incr' = incr_law [OF ok incr] and set' = set_nx_law [OF ok set]
  have get2: "rd_get RO (lease_key C p') r2 = rd_get RO (lease_key C p') r" for p'
    by (simp add: r2_def expire_law [OF ok] incr'(3))
  have tok1: "tok1 = tok" using incr'(1) by (simp add: tok_def)
  have ok3 using set'(1) get2 free by simp
  then show "x = Some tok" using res tok1 by simp
  show "rd_get RO (lease_key C p) r' = (if p = q then Some (cjson_encode RO \<lparr>lp_worker_id = w, lp_acquired_at = at0,
       lp_pipeline_id = pid, lp_run_number = n, lp_fencing_token = tok\<rparr>) else rd_get RO (lease_key C p) r)"
    using set'(2) get2 \<open>ok3\<close> res(1) tok1 by simp
  show "rd_counter RO (fencing_key C p) r' = rd_counter RO (fencing_key C p) r + (if p = q then 1 else 0)"
    using set'(3) incr'(2) res(1) by (simp add: r2_def expire_law [OF ok])
qed

lemma fence_acquire:
  assumes ok: "redis_commands_ok RO" and f: "fence C RO p t r"
  shows "fence C RO p t (fst (ACQUIRE_SCRIPT RO (lease_key C q) (fencing_key C q) w at0 pid n ttl fttl r))"
proof (cases "rd_get RO (lease_key C q) r")
  case None
  obtain r' x where run: "ACQUIRE_SCRIPT RO (lease_key C q) (fencing_key C q) w at0 pid n ttl fttl r = (r', x)"
    by fastforce
  note eff = acquire_script_free [OF ok None run]
  show ?thesis
  proof (cases "p = q")
    case True
    with f eff(2,3) [of p] show ?thesis by (auto simp: run fence_def)
  next
    case False
    with eff(2,3) [of p] show ?thesis by (intro fence_unchanged [OF f]) (simp_all add: run)
  qed
next
  case (Some v)
  with f show ?thesis by (simp add: ACQUIRE_SCRIPT_def)
qed


section \<open>Operations and the fence\<close>

lemma redis_call_inv:
  assumes "\<And>r. I r \<Longrightarrow> I (fst (rd_fault RO r))" "\<And>r. I r \<Longrightarrow> I (fst (cmd r))" "I r"
  shows "I (fst (redis_call RO cmd r))"
  using assms(1) [OF assms(3)] assms(2) [OF assms(1) [OF assms(3)]]
  by (auto simp: redis_call_def split: prod.splits call_fault.splits)

lemma world_primary [simp]:
  "primary (set_lease p l w) = primary w" "primary (pop_lease p w) = primary w"
  "primary (fst (read_now C w)) = primary w" "primary (fst (handle_call_error e d w)) = primary w"
  "primary (fst (discard_lease p w)) = primary w" "primary (fst (mark_lease_lost p l reason w)) = primary w"
  "primary (discard_redlock_nodes p w) = primary w"
  by (simp_all add: set_lease_def pop_lease_def read_now_def handle_call_error_def discard_lease_def
      mark_lease_lost_def discard_redlock_nodes_def Let_def)

lemma mark_lease_lost_bind [simp]:
  "bindE (mark_lease_lost p lease reason) f w = f () (fst (mark_lease_lost p lease reason w))"
  by (simp add: bindE_def mark_lease_lost_def Let_def)

lemma call_primary_state:
  "fst (call_primary RO cmd w) = w\<lparr>primary := fst (redis_call RO cmd (primary w))\<rparr>"
  by (simp add: call_primary_def split: prod.split)

lemma call_primary_script_state:
  "fst (call_primary_script RO cmd w) = w\<lparr>primary := fst (redis_call RO cmd (primary w))\<rparr>"
  by (simp add: call_primary_script_def bindE_def call_primary_def split: prod.split sum.split)

lemma primary_release_server:
  "primary (fst (primary_release C RO wid p lease w)) =
     (if release_script w
      then fst (redis_call RO (RELEASE_SCRIPT RO (lease_key C p) wid (ls_fencing_token lease)) (primary w))
      else primary w)"
  using call_primary_script_state [of RO "RELEASE_SCRIPT RO (lease_key C p) wid (ls_fencing_token lease)" w]
  by (cases "call_primary_script RO (RELEASE_SCRIPT RO (lease_key C p) wid (ls_fencing_token lease)) w")
    (simp add: primary_release_def split: sum.split)

lemma primary_validate_server:
  "primary (fst (primary_validate C RO wid p tok w)) =
     fst (redis_call RO (\<lambda>r. (r, rd_get RO (lease_key C p) r)) (primary w))"
  using call_primary_state [of RO "\<lambda>r. (r, rd_get RO (lease_key C p) r)" w]
  by (cases "call_primary RO (\<lambda>r. (r, rd_get RO (lease_key C p) r)) w")
    (simp add: primary_validate_def split: sum.split option.split)

lemma primary_renew_server:
  "primary (fst (primary_renew C RO mark_lease_lost wid p w)) =
     (case current_lease p w of
        None \<Rightarrow> primary w
      | Some lease \<Rightarrow>
          if renew_script w
          then fst (redis_call RO (RENEW_SCRIPT RO (lease_key C p) wid (ls_fencing_token lease)
                 (lc_lease_ttl C)) (primary w))
          else primary w)"
proof (cases "current_lease p w")
  case (Some lease)
  let ?cmd = "RENEW_SCRIPT RO (lease_key C p) wid (ls_fencing_token lease) (lc_lease_ttl C)"
  show ?thesis
    using call_primary_script_state [of RO ?cmd w] Some
    by (cases "call_primary_script RO ?cmd w") (simp add: primary_renew_def read_now_def split: sum.split)
qed (simp add: primary_renew_def)

lemma primary_try_acquire_server:
  "primary (fst (primary_try_acquire C RO wid p n w)) =
     (if acquire_script w
      then fst (redis_call RO (ACQUIRE_SCRIPT RO (lease_key C p) (fencing_key C p) wid (lc_now C (now_reads w)) p n
             (lc_lease_ttl C) (lc_fencing_key_ttl_seconds C)) (primary w))
      else primary w)"
proof -
  let ?w = "w\<lparr>now_reads := Suc (now_reads w)\<rparr>"
  let ?cmd = "ACQUIRE_SCRIPT RO (lease_key C p) (fencing_key C p) wid (lc_now C (now_reads w)) p n
      (lc_lease_ttl C) (lc_fencing_key_ttl_seconds C)"
  show ?thesis
    using call_primary_state [of RO ?cmd ?w]
    by (cases "call_primary RO ?cmd ?w")
      (simp add: primary_try_acquire_def read_now_def split: sum.split option.split)
qed


section \<open>Several workers on one server\<close>

datatype lease_op =
    AcquireLease string int
  | ReleaseLease string
  | ValidateLease string int
  | RenewLease string

text \<open>An operation of a worker whose session is open.\<close>

fun worker_op :: "lease_config \<Rightarrow> 'r redis_ops \<Rightarrow> string \<Rightarrow> lease_op \<Rightarrow> ('r lease_world, bool) eff" where
  "worker_op C RO wid (AcquireLease p n) = ops_try_acquire C RO True False wid p n"
| "worker_op C RO wid (ReleaseLease p) = bindE (ops_release C RO True wid p) (\<lambda>_. returnE True)"
| "worker_op C RO wid (ValidateLease p tok) = ops_validate C RO True False (\<lambda>_ _. returnE False) wid p tok"
| "worker_op C RO wid (RenewLease p) = controller_renew C RO True False wid p"

type_synonym 'r cluster = "(string \<Rightarrow> 'r lease_world) \<times> 'r"

definition cluster_op ::
    "lease_config \<Rightarrow> 'r redis_ops \<Rightarrow> string \<Rightarrow> lease_op \<Rightarrow> ('r cluster, bool) eff" where
  "cluster_op C RO wid op cl =
     (case worker_op C RO wid op ((fst cl wid)\<lparr>primary := snd cl\<rparr>) of
        (w, x) \<Rightarrow> (((fst cl)(wid := w), primary w), x))"

text \<open>Workers' operations in any order, with time passing in between.\<close>

inductive cluster_step ::
    "lease_config \<Rightarrow> 'r redis_ops \<Rightarrow> (string \<Rightarrow> bool) \<Rightarrow> 'r cluster \<Rightarrow> 'r cluster \<Rightarrow> bool"
  for C RO persistent where
  operation: "cluster_step C RO persistent cl (fst (cluster_op C RO wid op cl))"
| passing: "time_passes RO persistent r r' \<Longrightarrow> cluster_step C RO persistent (ws, r) (ws, r')"

inductive cluster_reach ::
    "lease_config \<Rightarrow> 'r redis_ops \<Rightarrow> (string \<Rightarrow> bool) \<Rightarrow> 'r cluster \<Rightarrow> 'r cluster \<Rightarrow> bool"
  for C RO persistent where
  here: "cluster_reach C RO persistent cl cl"
| further: "cluster_reach C RO persistent cl cl' \<Longrightarrow> cluster_step C RO persistent cl' cl'' \<Longrightarrow>
    cluster_reach C RO persistent cl cl''"

inductive_cases cluster_stepE: "cluster_step C RO persistent cl cl'"

lemma redis_call_fence:
  assumes "redis_laws RO persistent" "persistent (fencing_key C p)" "fence C RO p t r"
    "\<And>r. fence C RO p t r \<Longrightarrow> fence C RO p t (fst (cmd r))"
  shows "fence C RO p t (fst (redis_call RO cmd r))"
proof (rule redis_call_inv [where I = "fence C RO p t"])
  show "fence C RO p t (fst (rd_fault RO r))" if "fence C RO p t r" for r
    using assms(1) by (intro fence_time_passes [of RO persistent, OF _ assms(2) that]) (simp add: redis_laws_def)
qed (use assms in auto)

lemma worker_op_fence:
  assumes laws: "redis_laws RO persistent" and per: "persistent (fencing_key C p)"
    and single: "\<not> redlock_enabled C" and f: "fence C RO p t (primary w)"
  shows "fence C RO p t (primary (fst (worker_op C RO wid op w)))"
proof -
  note ok = laws [unfolded redis_laws_def, THEN conjunct1]
  note call = redis_call_fence [OF laws per]
  show ?thesis
  proof (cases op)
    case (AcquireLease q n)
    with single f show ?thesis
      by (simp add: ops_try_acquire_def primary_try_acquire_server call fence_acquire [OF ok])
  next
    case (ReleaseLease q)
    let ?w = "fst (discard_lease q w)"
    have "fence C RO p t (primary (fst (primary_release C RO wid q lease ?w)))" for lease
      using f by (simp add: primary_release_server call fence_release [OF ok])
    with ReleaseLease single f show ?thesis
      by (auto simp: ops_release_def bindE_def discard_lease_def split: prod.splits sum.splits option.splits)
        (metis fst_conv)+
  next
    case (ValidateLease q tok)
    with single f show ?thesis
      by (simp add: ops_validate_def primary_validate_server call)
  next
    case (RenewLease q)
    with single f show ?thesis
      by (simp add: controller_renew_def ops_renew_def primary_renew_server call fence_renew [OF ok]
          split: option.split)
  qed
qed

lemma cluster_fence:
  assumes "redis_laws RO persistent" "persistent (fencing_key C p)" "\<not> redlock_enabled C"
    "cluster_reach C RO persistent cl cl'" "fence C RO p t (snd cl)"
  shows "fence C RO p t (snd cl')"
  using assms(4,5)
proof induction
  case (further cl cl' cl'')
  from further(2) show ?case
  proof cases
    case (operation wid op)
    with worker_op_fence [OF assms(1-3), of t "(fst cl' wid)\<lparr>primary := snd cl'\<rparr>" wid op] further
    show ?thesis by (simp add: cluster_op_def split: prod.split) (metis fst_conv)
  next
    case (passing r r' ws)
    with further show ?thesis using fence_time_passes [of RO persistent r r', OF _ assms(2)] by simp
  qed
qed simp


section \<open>Fencing\<close>

text \<open>A worker that acquired a lease holds the token the server issued last.\<close>

lemma acquired_fence:
  assumes laws: "redis_laws RO persistent" and per: "persistent (fencing_key C p)"
    and single: "\<not> redlock_enabled C"
    and acq: "cluster_op C RO wid (AcquireLease p n) cl = (cl1, Inr True)"
  shows "\<exists>lease. current_lease p (fst cl1 wid) = Some lease \<and>
      ls_fencing_token lease = rd_counter RO (fencing_key C p) (snd cl) + 1 \<and>
      fence C RO p (ls_fencing_token lease) (snd cl1)"
proof -
  let ?w = "(fst cl wid)\<lparr>primary := snd cl\<rparr>"
  let ?at = "lc_now C (now_reads ?w)"
  let ?script = "ACQUIRE_SCRIPT RO (lease_key C p) (fencing_key C p) wid ?at p n
      (lc_lease_ttl C) (lc_fencing_key_ttl_seconds C)"
  obtain r0 fault where fault: "rd_fault RO (snd cl) = (r0, fault)" by fastforce
  obtain r1 x where run: "?script r0 = (r1, x)" by fastforce
  have ok: "redis_commands_ok RO" using laws by (simp add: redis_laws_def)
  have passes: "time_passes RO persistent (snd cl) r0"
    using laws fault by (metis fst_conv redis_laws_def)
  have run': "primary_try_acquire C RO wid p n ?w = (fst cl1 wid, Inr True)" "primary (fst cl1 wid) = snd cl1"
    using acq single by (auto simp: cluster_op_def ops_try_acquire_def split: prod.splits)
  then obtain tok where tok: "fault = NoFault" "x = Some tok"
    "fst cl1 wid = set_lease p (new_lease p n wid tok ?at) (?w\<lparr>now_reads := Suc (now_reads ?w), primary := r1\<rparr>)"
    using fault run
    by (auto simp: primary_try_acquire_def read_now_def call_primary_def redis_call_def handle_call_error_def
        split: if_splits call_fault.splits option.splits sum.splits)
  have free: "rd_get RO (lease_key C p) r0 = None"
    using run tok(2) by (auto simp: ACQUIRE_SCRIPT_def split: option.splits)
  note eff = acquire_script_free [OF ok free run]
  have counter: "rd_counter RO (fencing_key C p) r0 = rd_counter RO (fencing_key C p) (snd cl)"
    using passes per by (simp add: time_passes_def)
  have snd1: "snd cl1 = r1" using run'(2) tok(3) by simp
  have "tok = rd_counter RO (fencing_key C p) (snd cl) + 1"
    using eff(1) tok(2) counter by simp
  moreover have "fence C RO p tok r1"
    using eff(1) eff(2,3) [of p] tok(2) by (auto simp: fence_def)
  ultimately show ?thesis
    using tok(3) snd1 by (simp add: set_lease_def current_lease_def new_lease_def)
qed

text \<open>Validation succeeds only for the token in the stored lease.\<close>

lemma validate_token:
  assumes laws: "redis_laws RO persistent" and per: "persistent (fencing_key C p)"
    and single: "\<not> redlock_enabled C" and f: "fence C RO p t (snd cl)" and t: "0 \<le> t"
    and bound: "rd_counter RO (fencing_key C p) (snd cl) < 10 ^ 14"
    and val: "snd (cluster_op C RO wid (ValidateLease p tok) cl) = Inr True"
  shows "t \<le> tok"
proof -
  obtain r0 fault where fault: "rd_fault RO (snd cl) = (r0, fault)" by fastforce
  have passes: "time_passes RO persistent (snd cl) r0"
    using laws fault by (metis fst_conv redis_laws_def)
  have f0: "fence C RO p t r0" by (rule fence_time_passes [OF passes per f])
  obtain raw where raw: "rd_get RO (lease_key C p) r0 = Some raw" "lease_payload_matches RO (Some raw) wid tok = Inr True"
    using val single fault
    by (auto simp: cluster_op_def ops_validate_def primary_validate_def call_primary_def redis_call_def
        handle_call_error_def split: prod.splits call_fault.splits option.splits sum.splits if_splits)
  obtain pl where pl: "raw = cjson_encode RO pl" "t \<le> lp_fencing_token pl"
    "lp_fencing_token pl \<le> rd_counter RO (fencing_key C p) r0"
    using f0 raw(1) unfolding fence_def by blast
  have "rd_counter RO (fencing_key C p) r0 = rd_counter RO (fencing_key C p) (snd cl)"
    using passes per by (simp add: time_passes_def)
  then have "lua_exact (lp_fencing_token pl)"
    using pl(2,3) bound t by (simp add: lua_exact_def)
  then obtain d where "json_loads RO raw = Some (PDict d)" "payload_fields pl d"
    using laws pl(1) by (auto simp: redis_laws_def codecs_ok_def)
  with raw(2) have "lp_fencing_token pl = tok"
    by (simp add: lease_payload_matches_def payload_fields_def str_of_field_def dict_getd_def)
  with pl(2) show ?thesis by simp
qed


section \<open>A server for concrete runs\<close>

text \<open>
  Keys in one association list, counters in another, no faults; three payload fields written one
  after the other, each character escaped and each field ended by a full stop.
\<close>

definition enc_field :: "string \<Rightarrow> string" where
  "enc_field s = concat (map (\<lambda>c. [CHR ''x'', c]) s) @ ''.''"

fun dec_field :: "string \<Rightarrow> string \<times> string" where
  "dec_field (a # b # cs) =
     (if a = CHR ''x'' then (case dec_field cs of (s, rest) \<Rightarrow> (b # s, rest)) else ([], b # cs))"
| "dec_field _ = ([], [])"

definition dec_int :: "string \<Rightarrow> int" where
  "dec_int s = (case s of [] \<Rightarrow> 0 | c # cs \<Rightarrow> if c = CHR ''-'' then - int (digits_value cs) else int (digits_value s))"

definition sample_encode :: "lease_payload \<Rightarrow> string" where
  "sample_encode p =
     enc_field (lp_worker_id p) @ enc_field (lp_acquired_at p) @ enc_field (str_of_int (lp_fencing_token p)) @ ''!''"

definition sample_decode :: "string \<Rightarrow> pyval option" where
  "sample_decode s =
     (case dec_field s of (w, s1) \<Rightarrow> case dec_field s1 of (a, s2) \<Rightarrow> case dec_field s2 of (t, _) \<Rightarrow>
        Some (PDict [(''worker_id'', PStr w), (''acquired_at'', PStr a), (''fencing_token'', PInt (dec_int t))]))"

fun sample_tostring :: "pyval option \<Rightarrow> string" where
  "sample_tostring (Some (PInt n)) = str_of_int n"
| "sample_tostring (Some (PStr s)) = s"
| "sample_tostring _ = ''nil''"

type_synonym sample_server = "(string, string) dict \<times> (string, int) dict"

definition sample_redis :: "sample_server redis_ops" where
  "sample_redis =
     \<lparr>rd_get = (\<lambda>k r. dict_get (fst r) k),
      rd_set_nx_ex = (\<lambda>k v _ r. if dict_get (fst r) k = None then ((dict_set k v (fst r), snd r), True) else (r, False)),
      rd_incr = (\<lambda>k r. let n = dict_getd (snd r) k 0 + 1 in ((fst r, dict_set k n (snd r)), n)),
      rd_expire = (\<lambda>_ _ r. r), rd_del = (\<lambda>k r. (dict_pop k (fst r), snd r)), rd_fault = (\<lambda>r. (r, NoFault)),
      rd_counter = (\<lambda>k r. dict_getd (snd r) k 0), cjson_encode = sample_encode, cjson_decode = sample_decode,
      lua_tostring = sample_tostring, json_loads = sample_decode, py_repr = (\<lambda>_. [])\<rparr>"

lemma dec_enc_field: "rest \<noteq> [] \<Longrightarrow> dec_field (enc_field s @ rest) = (s, rest)"
proof (induction s)
  case Nil
  then show ?case by (cases rest) (simp_all add: enc_field_def)
qed (simp add: enc_field_def)

lemma dec_int_str [simp]: "dec_int (str_of_int n) = n"
proof (cases "n < 0")
  case False
  with digits_of_hd [of "nat n"] show ?thesis
    by (auto simp: str_of_int_def dec_int_def split: list.splits) (metis digits_value_of int_nat_eq not_less)
qed (simp add: str_of_int_def dec_int_def)

lemma sample_decode_encode [simp]:
  "sample_decode (sample_encode p) =
     Some (PDict [(''worker_id'', PStr (lp_worker_id p)), (''acquired_at'', PStr (lp_acquired_at p)),
                  (''fencing_token'', PInt (lp_fencing_token p))])"
proof -
  have nonempty: "enc_field s @ rest \<noteq> []" for s rest by (simp add: enc_field_def)
  show ?thesis
    by (simp add: sample_decode_def sample_encode_def dec_enc_field nonempty del: append_assoc append_is_Nil_conv
        flip: append_assoc) (simp add: dec_enc_field nonempty)
qed

lemma sample_redis_laws: "redis_laws sample_redis (\<lambda>_. True)"
proof -
  have "set_nx_ok sample_redis" "incr_ok sample_redis" "expire_ok sample_redis" "del_ok sample_redis"
    by (auto simp: set_nx_ok_def incr_ok_def expire_ok_def del_ok_def sample_redis_def dict_getd_def Let_def
        split: option.split)
  moreover have "codecs_ok sample_redis"
    by (simp add: codecs_ok_def sample_redis_def payload_fields_def)
  ultimately show ?thesis
    by (simp add: redis_laws_def redis_commands_ok_def time_passes_def sample_redis_def)
qed


section \<open>Properties of leases on one server\<close>

text \<open>
  C4: a fenced-off worker is rejected.  After a worker acquired a lease with some token, no worker can
  validate a smaller token for that pipeline any more, whatever operations any workers perform and
  whatever keys expire in between, lost requests and lost replies included.  The fencing counter must
  not expire and stays below \<open>10 ^ 14\<close>, where Lua numbers are printed exactly.
\<close>

theorem stale_lease_rejected:
  assumes laws: "redis_laws RO persistent" and per: "persistent (fencing_key C p)"
    and single: "\<not> redlock_enabled C"
    and acquired: "cluster_op C RO wid (AcquireLease p n) cl = (cl1, Inr True)"
    and lease: "current_lease p (fst cl1 wid) = Some lease"
    and later: "cluster_reach C RO persistent cl1 cl2"
    and stale: "tok < ls_fencing_token lease"
    and bounds: "0 \<le> rd_counter RO (fencing_key C p) (snd cl)"
      "rd_counter RO (fencing_key C p) (snd cl2) < 10 ^ 14"
  shows "snd (cluster_op C RO wid' (ValidateLease p tok) cl2) \<noteq> Inr True"
proof
  assume val: "snd (cluster_op C RO wid' (ValidateLease p tok) cl2) = Inr True"
  have f1: "fence C RO p (ls_fencing_token lease) (snd cl1)" and pos: "0 \<le> ls_fencing_token lease"
    using acquired_fence [OF laws per single acquired] lease bounds(1) by auto
  have "fence C RO p (ls_fencing_token lease) (snd cl2)"
    by (rule cluster_fence [OF laws per single later f1])
  from validate_token [OF laws per single this pos bounds(2) val] stale show False by simp
qed

definition sample_lease_config :: lease_config where
  "sample_lease_config =
     \<lparr>lc_key_prefix = ''a:'', lc_lease_ttl = 300, lc_fencing_key_ttl_seconds = 0, lc_redlock_redis_urls = [],
      lc_clock_drift_factor = 1 / 100, lc_now = (\<lambda>n. ''t'' @ str_of_int (int n)), lc_monotonic = (\<lambda>n. of_nat n)\<rparr>"

definition sample_cluster :: "sample_server cluster" where
  "sample_cluster = ((\<lambda>_. register_scripts (lease_world_init ([], []))), ([], []))"

text \<open>Worker \<open>a\<close> holds token 1; its key expires and worker \<open>b\<close> acquires the lease with token 2.\<close>

definition sample_expired :: "sample_server cluster" where
  "sample_expired =
     (case fst (cluster_op sample_lease_config sample_redis ''a'' (AcquireLease ''p'' 1) sample_cluster) of
        (ws, r) \<Rightarrow> (ws, ([], snd r)))"

definition sample_second :: "sample_server cluster" where
  "sample_second = fst (cluster_op sample_lease_config sample_redis ''b'' (AcquireLease ''p'' 2) sample_expired)"

lemma sample_second_acquired:
  "cluster_op sample_lease_config sample_redis ''b'' (AcquireLease ''p'' 2) sample_expired = (sample_second, Inr True)"
proof -
  have "snd (cluster_op sample_lease_config sample_redis ''b'' (AcquireLease ''p'' 2) sample_expired) = Inr True"
    by code_simp
  then show ?thesis unfolding sample_second_def by (metis prod.collapse)
qed

lemma sample_second_lease:
  "current_lease ''p'' (fst sample_second ''b'') = Some (new_lease ''p'' 2 ''b'' 2 ''t0'')"
  by code_simp

lemma sample_bounds:
  "rd_counter sample_redis (fencing_key sample_lease_config ''p'') (snd sample_expired) = 1"
  "rd_counter sample_redis (fencing_key sample_lease_config ''p'') (snd sample_second) = 2"
  by code_simp+

theorem stale_lease_rejected_witness:
  "snd (cluster_op sample_lease_config sample_redis ''a'' (ValidateLease ''p'' 1) sample_second) \<noteq> Inr True \<and>
   snd (cluster_op sample_lease_config sample_redis ''b'' (ValidateLease ''p'' 2) sample_second) = Inr True"
proof
  show "snd (cluster_op sample_lease_config sample_redis ''a'' (ValidateLease ''p'' 1) sample_second) \<noteq> Inr True"
  proof (rule stale_lease_rejected [OF sample_redis_laws _ _ sample_second_acquired sample_second_lease here])
    show "\<not> redlock_enabled sample_lease_config" by code_simp
  qed (simp_all add: sample_bounds new_lease_def)
  show "snd (cluster_op sample_lease_config sample_redis ''b'' (ValidateLease ''p'' 2) sample_second) = Inr True"
    by code_simp
qed

text \<open>
  C5: fencing tokens strictly increase.  On a single Redis server (no Redlock) and with a fencing key that never
  expires (\<open>persistent\<close>, which needs \<^verbatim>\<open>fencing_key_ttl_seconds\<close> to be unset), of two successful acquisitions of the
  same pipeline, by the same or by different workers and with any operations, expired leases and lost calls in between,
  the later one gets the larger token.  With a configured \<^verbatim>\<open>fencing_key_ttl_seconds\<close> the counter may expire and start
  again, as \<^verbatim>\<open>release-notes/0.4.2.md\<close> says; that case is not covered.
\<close>

theorem fencing_tokens_increase:
  assumes laws: "redis_laws RO persistent" and per: "persistent (fencing_key C p)"
    and single: "\<not> redlock_enabled C"
    and first: "cluster_op C RO wid (AcquireLease p n) cl = (cl1, Inr True)"
      "current_lease p (fst cl1 wid) = Some lease"
    and later: "cluster_reach C RO persistent cl1 cl2"
    and second: "cluster_op C RO wid' (AcquireLease p n') cl2 = (cl3, Inr True)"
      "current_lease p (fst cl3 wid') = Some lease'"
  shows "ls_fencing_token lease < ls_fencing_token lease'"
proof -
  have "fence C RO p (ls_fencing_token lease) (snd cl2)"
    using cluster_fence [OF laws per single later] acquired_fence [OF laws per single first(1)] first(2) by auto
  then have "ls_fencing_token lease \<le> rd_counter RO (fencing_key C p) (snd cl2)"
    by (simp add: fence_def)
  then show ?thesis
    using acquired_fence [OF laws per single second(1)] second(2) by auto
qed

lemma sample_first_acquired:
  "cluster_op sample_lease_config sample_redis ''a'' (AcquireLease ''p'' 1) sample_cluster =
     (fst (cluster_op sample_lease_config sample_redis ''a'' (AcquireLease ''p'' 1) sample_cluster), Inr True)"
proof -
  have "snd (cluster_op sample_lease_config sample_redis ''a'' (AcquireLease ''p'' 1) sample_cluster) = Inr True"
    by code_simp
  then show ?thesis by (metis prod.collapse)
qed

lemma sample_first_lease:
  "current_lease ''p'' (fst (fst (cluster_op sample_lease_config sample_redis ''a'' (AcquireLease ''p'' 1) sample_cluster)) ''a'') =
     Some (new_lease ''p'' 1 ''a'' 1 ''t0'')"
  by code_simp

lemma sample_expiry:
  "cluster_reach sample_lease_config sample_redis (\<lambda>_. True)
     (fst (cluster_op sample_lease_config sample_redis ''a'' (AcquireLease ''p'' 1) sample_cluster)) sample_expired"
proof -
  obtain ws r where eq: "fst (cluster_op sample_lease_config sample_redis ''a'' (AcquireLease ''p'' 1) sample_cluster) = (ws, r)"
    using prod.exhaust by blast
  have "time_passes sample_redis (\<lambda>_. True) r ([], snd r)"
    by (simp add: time_passes_def sample_redis_def)
  then show ?thesis
    unfolding sample_expired_def eq prod.case by (intro further [OF here] passing)
qed

theorem fencing_tokens_increase_witness:
  "ls_fencing_token (new_lease ''p'' 1 ''a'' 1 ''t0'') < ls_fencing_token (new_lease ''p'' 2 ''b'' 2 ''t0'')"
proof (rule fencing_tokens_increase [OF sample_redis_laws TrueI _ sample_first_acquired sample_first_lease
      sample_expiry sample_second_acquired sample_second_lease])
  show "\<not> redlock_enabled sample_lease_config" by code_simp
qed

end
