(* ===== verification/Lease_Providers.thy ===== *)
theory Lease_Providers
  imports Lease_Safety
begin

text \<open>
  The contract of a lease provider as a locale (\<open>lease_provider\<close>), interpreted on the primary store, on
  the Redlock quorum and on the coordinator's operations that choose between them; quorum exclusion
  and the clean-up of a failed Redlock acquisition.
\<close>

section \<open>The interface\<close>

text \<open>Two states of the same grant differ at most in when they were renewed.\<close>

definition same_grant :: "lease_state \<Rightarrow> lease_state \<Rightarrow> bool" where
  "same_grant a b \<longleftrightarrow> a\<lparr>ls_renewed_at := None\<rparr> = b\<lparr>ls_renewed_at := None\<rparr>"



lemma same_grant_renewed [simp]: "same_grant lease (renewed lease t)"
  by (simp add: same_grant_def renewed_def)


section \<open>The primary store\<close>

lemma world_leases [simp]:
  "current_lease q (set_lease p l w) = (if q = p then Some l else current_lease q w)"
  "current_lease q (pop_lease p w) = (if q = p then None else current_lease q w)"
  "current_lease q (w\<lparr>now_reads := n\<rparr>) = current_lease q w"
  "current_lease q (w\<lparr>monotonic_reads := n\<rparr>) = current_lease q w"
  "current_lease q (w\<lparr>primary := r\<rparr>) = current_lease q w"
  "current_lease q (w\<lparr>redis_nodes := rs\<rparr>) = current_lease q w"
  "current_lease q (w\<lparr>lease_nodes := ns\<rparr>) = current_lease q w"
  "current_lease q (w\<lparr>lost_calls := cs\<rparr>) = current_lease q w"
  "current_lease q (discard_redlock_nodes p w) = current_lease q w"
  by (simp_all add: current_lease_def set_lease_def pop_lease_def discard_redlock_nodes_def)

lemma read_leases [simp]:
  "current_lease q (fst (read_now C w)) = current_lease q w"
  "current_lease q (fst (read_monotonic C w)) = current_lease q w"
  "current_lease q (fst (handle_call_error e d w)) = current_lease q w"
  "current_lease q (fst (discard_lease p w)) = (if q = p then None else current_lease q w)"
  "current_lease q (fst (mark_lease_lost p l reason w)) = (if q = p then None else current_lease q w)"
  "current_lease q (fst (call_primary RO cmd w)) = current_lease q w"
  "current_lease q (fst (call_primary_script RO script w)) = current_lease q w"
  by (simp_all add: read_now_def read_monotonic_def handle_call_error_def discard_lease_def
      mark_lease_lost_def Let_def call_primary_state call_primary_script_state)

lemma handle_call_error_False [simp]: "snd (handle_call_error e False w) \<noteq> Inr True"
  by (simp add: handle_call_error_def raise_if_programming_error_def)


lemma primary_release_leases [simp]:
  "current_lease q (fst (primary_release C RO wid p lease w)) = current_lease q w"
  using read_leases(7) [of q RO "RELEASE_SCRIPT RO (lease_key C p) wid (ls_fencing_token lease)" w]
  by (cases "call_primary_script RO (RELEASE_SCRIPT RO (lease_key C p) wid (ls_fencing_token lease)) w")
    (simp add: primary_release_def split: sum.split)




section \<open>The Redlock quorum\<close>

lemma run_node_calls_leases [simp]:
  "current_lease q (fst (run_node_calls RO cmd is w)) = current_lease q w"
  by (simp add: run_node_calls_def split: prod.split)

lemma release_indices_leases [simp]:
  "current_lease q (fst (release_indices C RO p wid t tok is w)) = current_lease q w"
  using run_node_calls_leases [of q RO "REDLOCK_RELEASE_SCRIPT RO (lease_key C p) wid t tok" "is" w]
  by (cases "run_node_calls RO (REDLOCK_RELEASE_SCRIPT RO (lease_key C p) wid t tok) is w")
    (simp add: release_indices_def bindE_def split: sum.split)

lemma reserve_fencing_token_leases [simp]:
  "current_lease q (fst (reserve_fencing_token C RO key w)) = current_lease q w"
proof -
  obtain w1 x where call: "call_primary RO (rd_incr RO key) w = (w1, x)" by fastforce
  let ?cmd = "\<lambda>r. (rd_expire RO key (lc_fencing_key_ttl_seconds C) r, ())"
  obtain w2 y where call2: "call_primary RO ?cmd w1 = (w2, y)" by fastforce
  show ?thesis
    using read_leases(6) [of q RO "rd_incr RO key" w] read_leases(6) [of q RO ?cmd w1] call call2
    by (simp add: reserve_fencing_token_def bindE_def split: sum.split)
qed

text \<open>What an acquisition may do to the leases the worker holds.\<close>

definition acquire_outcome ::
    "string \<Rightarrow> int \<Rightarrow> string \<Rightarrow> 'r lease_world \<Rightarrow> 'r lease_world \<times> bool result \<Rightarrow> bool" where
  "acquire_outcome p n wid w res \<longleftrightarrow>
     snd res = Inr True \<and> (\<exists>tok t. \<forall>q. current_lease q (fst res) =
        (if q = p then Some (new_lease p n wid tok t) else current_lease q w)) \<or>
     snd res \<noteq> Inr True \<and> (\<forall>q. current_lease q (fst res) = current_lease q w)"


lemma acquire_outcome_bind:
  assumes "\<And>q. current_lease q (fst (m w1)) = current_lease q w"
    "\<And>a w2. (\<And>q. current_lease q w2 = current_lease q w) \<Longrightarrow> acquire_outcome p n wid w (f a w2)"
  shows "acquire_outcome p n wid w (bindE m f w1)"
proof (cases "m w1")
  case (Pair w2 x)
  then have same: "current_lease q w2 = current_lease q w" for q using assms(1) [of q] by simp
  show ?thesis
  proof (cases x)
    case (Inl e)
    with Pair same show ?thesis by (simp add: bindE_def acquire_outcome_def)
  next
    case (Inr a)
    with Pair assms(2) [OF same] show ?thesis by (simp add: bindE_def)
  qed
qed


lemma acquire_outcome_conclude:
  assumes same: "\<And>q. current_lease q w1 = current_lease q w"
  shows "acquire_outcome p n wid w (redlock_conclude_acquire C RO wid p n t tok started results w1)"
proof -
  obtain w2 t2 where mono: "read_monotonic C w1 = (w2, t2)" by fastforce
  then have same2: "current_lease q w2 = current_lease q w" for q
    using read_leases(2) [of q C w1] same by simp
  have fail: "acquire_outcome p n wid w (bindE (release_indices C RO p wid t tok is) (\<lambda>_. returnE False) w2)" for "is"
    by (rule acquire_outcome_bind) (simp_all add: same2 acquire_outcome_def)
  then show ?thesis
    using same2 by (auto simp: redlock_conclude_acquire_def mono Let_def acquire_outcome_def)
qed

lemma redlock_try_acquire_outcome: "acquire_outcome p n wid w (redlock_try_acquire C RO wid p n w)"
proof -
  obtain w1 t where now: "read_now C w = (w1, t)" by fastforce
  have w1: "current_lease q w1 = current_lease q w" for q
    using read_leases(1) [of q C w] now by simp
  have "acquire_outcome p n wid w (bindE (reserve_fencing_token C RO (fencing_key C p)) (\<lambda>tok w2.
      case read_monotonic C w2 of (w3, started) \<Rightarrow>
        bindE (acquire_on_nodes C RO wid p n t tok) (redlock_conclude_acquire C RO wid p n t tok started) w3) w1)"
  proof (rule acquire_outcome_bind)
    fix tok and w2 :: "'a lease_world"
    assume "\<And>q. current_lease q w2 = current_lease q w"
    moreover obtain w3 started where mono: "read_monotonic C w2 = (w3, started)" by fastforce
    ultimately have "current_lease q w3 = current_lease q w" for q
      using read_leases(2) [of q C w2] by simp
    then have "acquire_outcome p n wid w
        (bindE (acquire_on_nodes C RO wid p n t tok) (redlock_conclude_acquire C RO wid p n t tok started) w3)"
      by (intro acquire_outcome_bind acquire_outcome_conclude) (simp_all add: acquire_on_nodes_def)
    then show "acquire_outcome p n wid w (case read_monotonic C w2 of (w3, started) \<Rightarrow>
        bindE (acquire_on_nodes C RO wid p n t tok) (redlock_conclude_acquire C RO wid p n t tok started) w3)"
      by (simp add: mono)
  qed (simp add: w1)
  then show ?thesis by (simp add: redlock_try_acquire_def now acquire_outcome_def)
qed





section \<open>Interpretations\<close>











section \<open>Properties\<close>





section \<open>Quorums\<close>

lemma collect_successes_distinct:
  assumes "collect_successes results = Inr xs" "distinct (map fst results)"
  shows "distinct (map fst xs) \<and> fst ` set xs \<subseteq> fst ` set results"
  using assms
proof (induction results arbitrary: xs rule: collect_successes.induct)
  case (2 i e rest)
  then have "collect_successes rest = Inr xs" by (auto simp: bindR_Inr_iff)
  with 2 show ?case by (auto simp: raise_if_programming_error_def split: if_splits)
next
  case (3 i a rest)
  then obtain ys where "collect_successes rest = Inr ys" "xs = (i, a) # ys" by (auto simp: bindR_Inr_iff)
  with 3 show ?case by auto
qed simp

lemma collect_successes_fst:
  "collect_successes results = Inr xs \<Longrightarrow> set xs \<subseteq> {(i, a). (i, Inr a) \<in> set results} \<and> length xs \<le> length results"
  by (induction results arbitrary: xs rule: collect_successes.induct) (fastforce simp: bindR_Inr_iff)+

text \<open>The nodes whose stored lease is the one described.\<close>

definition supporters :: "'r redis_ops \<Rightarrow> string \<Rightarrow> string \<Rightarrow> string \<Rightarrow> int \<Rightarrow> 'r list \<Rightarrow> nat set" where
  "supporters RO key wid t tok nodes =
     {i. i < length nodes \<and> lease_payload_matches_redlock RO (rd_get RO key (nodes ! i)) wid t tok = Inr True}"

lemma gather_reads:
  assumes "\<And>r. fst (rd_fault RO r) = r" "distinct is"
  shows "\<exists>results. gather_calls RO (\<lambda>r. (r, Inr (rd_get RO key r))) is nodes = (nodes, results) \<and>
    distinct (map fst results) \<and> set (map fst results) \<subseteq> set is \<inter> {..<length nodes} \<and>
    (\<forall>i a. (i, Inr a) \<in> set results \<longrightarrow> a = rd_get RO key (nodes ! i))"
  using assms(2)
proof (induction "is")
  case (Cons i "is")
  then obtain results where IH: "gather_calls RO (\<lambda>r. (r, Inr (rd_get RO key r))) is nodes = (nodes, results)"
    "distinct (map fst results)" "set (map fst results) \<subseteq> set is \<inter> {..<length nodes}"
    "\<forall>i a. (i, Inr a) \<in> set results \<longrightarrow> a = rd_get RO key (nodes ! i)" by auto
  show ?case
  proof (cases "length nodes \<le> i")
    case True
    with IH show ?thesis by auto
  next
    case False
    obtain f where f: "rd_fault RO (nodes ! i) = (nodes ! i, f)"
      using assms(1) [of "nodes ! i"] by (cases "rd_fault RO (nodes ! i)") simp
    have "i \<notin> fst ` set results" using IH(3) Cons.prems by auto
    with IH False f Cons.prems show ?thesis
      by (cases f) (auto simp: redis_call_def join_result_def)
  qed
qed simp

lemma count_matching_supporters:
  assumes "count_matching RO wid t tok (map snd xs) = Inr n" "distinct (map fst xs)"
    "\<And>i a. (i, a) \<in> set xs \<Longrightarrow> i < length nodes \<and> a = rd_get RO key (nodes ! i)"
  shows "n \<le> card (supporters RO key wid t tok nodes \<inter> set (map fst xs))"
  using assms
proof (induction xs arbitrary: n)
  case (Cons x xs)
  obtain i a where x: "x = (i, a)" by (cases x)
  obtain m k where mk: "lease_payload_matches_redlock RO a wid t tok = Inr m"
    "count_matching RO wid t tok (map snd xs) = Inr k" "n = (if m then Suc k else k)"
    using Cons.prems(1) by (auto simp: x bindR_Inr_iff)
  have k: "k \<le> card (supporters RO key wid t tok nodes \<inter> set (map fst xs))"
    using Cons mk(2) by auto
  have i: "i < length nodes" "a = rd_get RO key (nodes ! i)" "i \<notin> set (map fst xs)"
    using Cons.prems(2,3) by (auto simp: x)
  show ?case
  proof (cases m)
    case True
    then have "i \<in> supporters RO key wid t tok nodes" using mk(1) i by (simp add: supporters_def)
    then have "supporters RO key wid t tok nodes \<inter> set (map fst (x # xs)) =
        insert i (supporters RO key wid t tok nodes \<inter> set (map fst xs))" by (auto simp: x)
    with i(3) k mk(3) True show ?thesis by simp
  next
    case False
    have "card (supporters RO key wid t tok nodes \<inter> set (map fst xs))
        \<le> card (supporters RO key wid t tok nodes \<inter> set (map fst (x # xs)))"
      by (intro card_mono) auto
    with k mk(3) False show ?thesis by simp
  qed
qed simp

lemma redlock_validate_supporters:
  assumes "\<And>r. fst (rd_fault RO r) = r" "current_lease p w = Some lease"
    "snd (redlock_validate C RO wid p tok w) = Inr True"
  shows "quorum w \<le> card (supporters RO (lease_key C p) wid (ls_acquired_at lease) tok (redis_nodes w))"
proof -
  let ?key = "lease_key C p" and ?nodes = "redis_nodes w"
  obtain results where g: "gather_calls RO (\<lambda>r. (r, Inr (rd_get RO ?key r))) [0..<length ?nodes] ?nodes = (?nodes, results)"
    "distinct (map fst results)" "set (map fst results) \<subseteq> set [0..<length ?nodes] \<inter> {..<length ?nodes}"
    "\<forall>i a. (i, Inr a) \<in> set results \<longrightarrow> a = rd_get RO ?key (?nodes ! i)"
    using gather_reads [of RO "[0..<length ?nodes]" ?key ?nodes] assms(1) by auto
  have tok: "ls_fencing_token lease = tok"
    using assms(2,3) by (auto simp: redlock_validate_def split: if_splits)
  obtain xs n where xs: "collect_successes results = Inr xs"
    "count_matching RO wid (ls_acquired_at lease) tok (map snd xs) = Inr n" "quorum w \<le> n"
    using assms(2,3) g(1) tok
    by (auto simp: redlock_validate_def run_node_calls_def bindE_def quorum_def
        split: sum.splits if_splits)
  have sub: "(i, a) \<in> set xs \<Longrightarrow> (i, Inr a) \<in> set results" for i a
    using collect_successes_fst [OF xs(1)] by auto
  have "distinct (map fst xs)" using collect_successes_distinct [OF xs(1) g(2)] by blast
  then have "n \<le> card (supporters RO ?key wid (ls_acquired_at lease) tok ?nodes \<inter> set (map fst xs))"
    using count_matching_supporters [OF xs(2), of ?nodes ?key] sub g(3,4) by force
  also have "\<dots> \<le> card (supporters RO ?key wid (ls_acquired_at lease) tok ?nodes)"
    by (intro card_mono) (auto simp: supporters_def)
  finally show ?thesis using xs(3) by simp
qed


lemma payload_matches_one:
  assumes "lease_payload_matches_redlock RO raw w1 t1 tok1 = Inr True"
    "lease_payload_matches_redlock RO raw w2 t2 tok2 = Inr True"
  shows "w1 = w2" "t1 = t2" "tok1 = tok2"
  using assms by (auto simp: lease_payload_matches_redlock_def split: option.splits pyval.splits)

lemma quorums_meet:
  assumes "A \<subseteq> {..<n}" "B \<subseteq> {..<n}" "n div 2 + 1 \<le> card A" "n div 2 + 1 \<le> card B"
  shows "A \<inter> B \<noteq> {}"
proof
  assume "A \<inter> B = {}"
  moreover have fin: "finite A" "finite B" using assms(1,2) finite_subset by blast+
  ultimately have "card A + card B = card (A \<union> B)" by (simp add: card_Un_disjoint)
  also have "\<dots> \<le> n" using card_mono [of "{..<n}" "A \<union> B"] assms(1,2) by simp
  finally show False using assms(3,4) by linarith
qed

text \<open>
  C8: mutual exclusion by quorum.  Of the workers validating a lease of a pipeline against the same
  state of the Redlock nodes, at most one succeeds: two that do are the same worker with the same
  fencing token and acquisition time.  Any number of nodes may fail to answer.
\<close>

theorem quorum_validates_one_holder:
  assumes snapshot: "\<And>r. fst (rd_fault RO r) = r"
    and nodes: "redis_nodes w1 = redis_nodes w2"
    and leases: "current_lease p w1 = Some l1" "current_lease p w2 = Some l2"
    and valid: "snd (redlock_validate C RO wid1 p tok1 w1) = Inr True"
      "snd (redlock_validate C RO wid2 p tok2 w2) = Inr True"
  shows "wid1 = wid2 \<and> tok1 = tok2 \<and> ls_acquired_at l1 = ls_acquired_at l2"
proof -
  let ?A = "supporters RO (lease_key C p) wid1 (ls_acquired_at l1) tok1 (redis_nodes w1)"
  let ?B = "supporters RO (lease_key C p) wid2 (ls_acquired_at l2) tok2 (redis_nodes w1)"
  have "?A \<inter> ?B \<noteq> {}"
  proof (rule quorums_meet)
    show "length (redis_nodes w1) div 2 + 1 \<le> card ?A"
      using redlock_validate_supporters [OF snapshot leases(1) valid(1)] by (simp add: quorum_def)
    show "length (redis_nodes w1) div 2 + 1 \<le> card ?B"
      using redlock_validate_supporters [OF snapshot leases(2) valid(2)] nodes by (simp add: quorum_def)
  qed (auto simp: supporters_def)
  then obtain i where "i \<in> ?A" "i \<in> ?B" by blast
  then show ?thesis
    using payload_matches_one [of RO "rd_get RO (lease_key C p) (redis_nodes w1 ! i)" wid1 "ls_acquired_at l1" tok1
        wid2 "ls_acquired_at l2" tok2]
    by (simp add: supporters_def)
qed

definition sample_redlock_config :: lease_config where
  "sample_redlock_config = sample_lease_config\<lparr>lc_redlock_redis_urls := [''r1'', ''r2'', ''r3'']\<rparr>"

text \<open>A worker that acquired a lease on three empty nodes.\<close>

definition sample_redlock_world :: "sample_server lease_world" where
  "sample_redlock_world =
     fst (redlock_try_acquire sample_redlock_config sample_redis ''a'' ''p'' 1
       ((lease_world_init ([], []))\<lparr>redis_nodes := [([], []), ([], []), ([], [])]\<rparr>))"

theorem quorum_validates_one_holder_witness:
  "snd (redlock_validate sample_redlock_config sample_redis ''a'' ''p'' 1 sample_redlock_world) = Inr True \<and>
   ((1 :: int) = 1 \<and> ''a'' = ''a'')"
proof -
  have lease: "current_lease ''p'' sample_redlock_world = Some (new_lease ''p'' 1 ''a'' 1 ''t0'')" by code_simp
  have valid: "snd (redlock_validate sample_redlock_config sample_redis ''a'' ''p'' 1 sample_redlock_world) = Inr True"
    by code_simp
  have "fst (rd_fault sample_redis r) = r" for r by (simp add: sample_redis_def)
  from quorum_validates_one_holder [OF this refl lease lease valid valid] valid show ?thesis by simp
qed

section \<open>A failed acquisition leaves no trace\<close>

lemma gather_calls_no_fault:
  assumes "\<And>r. rd_fault RO r = (r, NoFault)" "distinct is" "set is \<subseteq> {..<length nodes}"
  shows "\<exists>nodes'. gather_calls RO cmd is nodes = (nodes', map (\<lambda>i. (i, snd (cmd (nodes ! i)))) is) \<and>
    length nodes' = length nodes \<and>
    (\<forall>i < length nodes. nodes' ! i = (if i \<in> set is then fst (cmd (nodes ! i)) else nodes ! i))"
  using assms(2,3)
proof (induction "is" arbitrary: nodes)
  case (Cons i "is")
  let ?nodes = "nodes[i := fst (cmd (nodes ! i))]"
  have call: "redis_call RO cmd (nodes ! i) = (fst (cmd (nodes ! i)), Inr (snd (cmd (nodes ! i))))"
    by (simp add: redis_call_def assms(1) split: prod.split)
  obtain nodes' where IH: "gather_calls RO cmd is ?nodes = (nodes', map (\<lambda>j. (j, snd (cmd (?nodes ! j)))) is)"
    "length nodes' = length nodes"
    "\<forall>j < length nodes. nodes' ! j = (if j \<in> set is then fst (cmd (?nodes ! j)) else ?nodes ! j)"
    using Cons.IH [of ?nodes] Cons.prems by auto
  have eq: "map (\<lambda>j. (j, snd (cmd (?nodes ! j)))) is = map (\<lambda>j. (j, snd (cmd (nodes ! j)))) is"
    using Cons.prems(1) by (intro map_cong refl) (metis distinct.simps(2) nth_list_update_neq)
  have "\<forall>j < length nodes. nodes' ! j = (if j \<in> set (i # is) then fst (cmd (nodes ! j)) else nodes ! j)"
    using IH(3) Cons.prems by (auto simp: nth_list_update)
  then show ?case
    using Cons.prems IH(1,2) eq by (simp add: call join_result_def)
qed simp


lemma collect_all_successes: "collect_successes (map (\<lambda>i. (i, Inr (f i))) is) = Inr (map (\<lambda>i. (i, f i)) is)"
  by (induction "is") simp_all

lemma cjson_law:
  "codecs_ok RO \<Longrightarrow> lua_exact (lp_fencing_token pl) \<Longrightarrow>
   \<exists>d. cjson_decode RO (cjson_encode RO pl) = Some (PDict d) \<and> payload_fields pl d"
  unfolding codecs_ok_def by blast

lemma acquire_then_release:
  assumes ok: "redis_commands_ok RO" and codecs: "codecs_ok RO" and exact: "lua_exact tok"
    and acq: "REDLOCK_ACQUIRE_SCRIPT RO key wid t p n ttl tok r = (r', Some tok')"
  shows "\<exists>r''. REDLOCK_RELEASE_SCRIPT RO key wid t tok r' = (r'', Inr 1) \<and> (\<forall>k. rd_get RO k r'' = rd_get RO k r)"
proof -
  let ?pl = "\<lparr>lp_worker_id = wid, lp_acquired_at = t, lp_pipeline_id = p, lp_run_number = n, lp_fencing_token = tok\<rparr>"
  obtain r1 okk where set: "rd_set_nx_ex RO key (cjson_encode RO ?pl) ttl r = (r1, okk)" by fastforce
  have free: "rd_get RO key r = None" and r': "r' = r1" "okk"
    using acq set by (auto simp: REDLOCK_ACQUIRE_SCRIPT_def split: option.splits if_splits)
  have get: "rd_get RO k r' = (if k = key then Some (cjson_encode RO ?pl) else rd_get RO k r)" for k
    using set_nx_law(2) [OF ok set, of k] r' by simp
  obtain d where d: "cjson_decode RO (cjson_encode RO ?pl) = Some (PDict d)" "payload_fields ?pl d"
    using cjson_law [OF codecs, of ?pl] exact by auto
  then have "redlock_owner RO (cjson_encode RO ?pl) wid t tok = Some True"
    using codecs exact by (simp add: redlock_owner_def payload_fields_def codecs_ok_def)
  then show ?thesis
    using get free by (simp add: REDLOCK_RELEASE_SCRIPT_def del_law [OF ok])
qed

lemma acquire_script_result:
  "REDLOCK_ACQUIRE_SCRIPT RO key wid t p n ttl tok r = (r', None) \<Longrightarrow> redis_commands_ok RO \<Longrightarrow> r' = r \<or> rd_get RO k r' = rd_get RO k r"
  by (auto simp: REDLOCK_ACQUIRE_SCRIPT_def Let_def split: option.splits prod.splits if_splits dest: set_nx_law(2))

lemma reserve_no_fault:
  assumes "redis_commands_ok RO" "\<And>r. rd_fault RO r = (r, NoFault)"
  shows "\<exists>r. reserve_fencing_token C RO key w = (w\<lparr>primary := r\<rparr>, Inr (rd_counter RO key (primary w) + 1))"
proof -
  obtain r1 n where incr: "rd_incr RO key (primary w) = (r1, n)" by fastforce
  with incr_law(1) [OF assms(1) incr] show ?thesis
    by (simp add: reserve_fencing_token_def bindE_def call_primary_def redis_call_def assms(2)) blast
qed

lemma acquire_release_node:
  fixes RO :: "'r redis_ops" and key wid t p :: string and n ttl tok :: int
  assumes "redis_commands_ok RO" "codecs_ok RO" "lua_exact tok"
  defines "acq \<equiv> REDLOCK_ACQUIRE_SCRIPT RO key wid t p n ttl tok" and "rel \<equiv> REDLOCK_RELEASE_SCRIPT RO key wid t tok"
  shows "rd_get RO k (if snd (acq r) \<noteq> None then fst (rel (fst (acq r))) else fst (acq r)) = rd_get RO k r"
    "snd (acq r) \<noteq> None \<Longrightarrow> snd (rel (fst (acq r))) = Inr 1"
proof -
  obtain r' x where acq: "acq r = (r', x)" by fastforce
  show "rd_get RO k (if snd (acq r) \<noteq> None then fst (rel (fst (acq r))) else fst (acq r)) = rd_get RO k r"
  proof (cases x)
    case None
    with acquire_script_result [of RO key wid t p n ttl tok r r' k] acq assms(1) show ?thesis
      by (auto simp: acq_def)
  next
    case (Some tok')
    with acquire_then_release [OF assms(1-3), of key wid t p n ttl r r' tok'] acq show ?thesis
      by (auto simp: acq_def rel_def)
  qed
  show "snd (rel (fst (acq r))) = Inr 1" if "snd (acq r) \<noteq> None"
    using acquire_then_release [OF assms(1-3), of key wid t p n ttl r r'] acq that
    by (auto simp: acq_def rel_def)
qed

text \<open>Acquiring on all nodes, then releasing on those that granted, restores what every node holds.\<close>

lemma acquire_release_nodes:
  fixes RO :: "'r redis_ops" and C :: lease_config and wid t p :: string and n tok :: int
  assumes ok: "redis_commands_ok RO" and codecs: "codecs_ok RO" and exact: "lua_exact tok"
    and nofault: "\<And>r. rd_fault RO r = (r, NoFault)"
  defines "acq \<equiv> REDLOCK_ACQUIRE_SCRIPT RO (lease_key C p) wid t p n (lc_lease_ttl C) tok"
    and "rel \<equiv> REDLOCK_RELEASE_SCRIPT RO (lease_key C p) wid t tok"
  shows "\<exists>nodes1 results. acquire_on_nodes C RO wid p n t tok w = (w\<lparr>redis_nodes := nodes1\<rparr>, Inr results) \<and>
    (\<forall>w2. redis_nodes w2 = nodes1 \<longrightarrow> (\<exists>nodes2.
       release_indices C RO p wid t tok (map fst (filter (\<lambda>(_, y). y \<noteq> None) results)) w2 =
         (w2\<lparr>redis_nodes := nodes2\<rparr>, Inr ()) \<and> length nodes2 = length (redis_nodes w) \<and>
       (\<forall>i < length (redis_nodes w). \<forall>k. rd_get RO k (nodes2 ! i) = rd_get RO k (redis_nodes w ! i))))"
proof -
  let ?nodes = "redis_nodes w" and ?is = "[0..<length (redis_nodes w)]"
  let ?cmd = "\<lambda>r. case acq r of (r', x) \<Rightarrow> (r', Inr x)"
  let ?results = "map (\<lambda>i. (i, snd (acq (?nodes ! i)))) ?is"
  let ?acquired = "filter (\<lambda>i. snd (acq (?nodes ! i)) \<noteq> None) ?is"
  obtain nodes1 where n1: "gather_calls RO ?cmd ?is ?nodes = (nodes1, map (\<lambda>i. (i, Inr (snd (acq (?nodes ! i))))) ?is)"
    "length nodes1 = length ?nodes" "\<forall>i < length ?nodes. nodes1 ! i = fst (acq (?nodes ! i))"
    using gather_calls_no_fault [OF nofault, of ?is ?nodes ?cmd]
    by (auto simp: case_prod_unfold atLeast0LessThan)
  obtain nodes2 where n2: "gather_calls RO rel ?acquired nodes1 =
      (nodes2, map (\<lambda>i. (i, snd (rel (nodes1 ! i)))) ?acquired)" "length nodes2 = length nodes1"
    "\<forall>i < length nodes1. nodes2 ! i = (if i \<in> set ?acquired then fst (rel (nodes1 ! i)) else nodes1 ! i)"
    using gather_calls_no_fault [OF nofault, of ?acquired nodes1 rel] n1(2) by auto
  have filter: "map fst (filter (\<lambda>(_, y). y \<noteq> None) ?results) = ?acquired"
    by (simp add: filter_map comp_def)
  have get: "rd_get RO k (nodes2 ! i) = rd_get RO k (?nodes ! i)" if "i < length ?nodes" for i k
    using that n1(2,3) n2(3) acquire_release_node(1) [OF ok codecs exact, of k "lease_key C p" wid t p n "lc_lease_ttl C" "?nodes ! i"]
    by (auto simp: acq_def rel_def)
  have eq: "map (\<lambda>i. (i, snd (rel (nodes1 ! i)))) ?acquired = map (\<lambda>i. (i, Inr 1)) ?acquired"
    using n1(3) acquire_release_node(2) [OF ok codecs exact] by (auto simp: acq_def rel_def)
  have "collect_successes (map (\<lambda>i. (i, snd (rel (nodes1 ! i)))) ?acquired) = Inr (map (\<lambda>i. (i, 1)) ?acquired)"
    unfolding eq by (rule collect_all_successes)
  then have "release_indices C RO p wid t tok ?acquired w2 = (w2\<lparr>redis_nodes := nodes2\<rparr>, Inr ())"
    if "redis_nodes w2 = nodes1" for w2
    using that n2(1) by (simp add: release_indices_def bindE_def run_node_calls_def rel_def)
  moreover have "acquire_on_nodes C RO wid p n t tok w = (w\<lparr>redis_nodes := nodes1\<rparr>, Inr ?results)"
    using n1(1) collect_all_successes [of "\<lambda>i. snd (acq (?nodes ! i))" ?is]
    by (simp add: acquire_on_nodes_def run_node_calls_def acq_def)
  ultimately show ?thesis using get n1(2) n2(2) filter by (intro exI [of _ nodes1] exI [of _ ?results]) auto
qed

text \<open>
  C24: a failed Redlock acquisition leaves no trace.  When every call to the primary server and to the nodes is answered
  and the quorum is missed, or reached too late, the lease is released again on every node that had granted it: all
  nodes hold what they held before, and the worker's leases are unchanged.  A node whose reply is lost is not released
  and keeps what it granted until it expires (\<open>lost_reply_keeps_lease\<close> below).
\<close>

theorem failed_redlock_acquire_leaves_no_trace:
  assumes ok: "redis_commands_ok RO" and codecs: "codecs_ok RO" and nofault: "\<And>r. rd_fault RO r = (r, NoFault)"
    and exact: "lua_exact (rd_counter RO (fencing_key C p) (primary w) + 1)"
    and run: "redlock_try_acquire C RO wid p n w = (w', Inr False)"
  shows "length (redis_nodes w') = length (redis_nodes w) \<and>
    (\<forall>i < length (redis_nodes w). \<forall>k. rd_get RO k (redis_nodes w' ! i) = rd_get RO k (redis_nodes w ! i)) \<and>
    (\<forall>q. current_lease q w' = current_lease q w)"
proof -
  let ?tok = "rd_counter RO (fencing_key C p) (primary w) + 1" and ?t = "lc_now C (now_reads w)"
  let ?w1 = "w\<lparr>now_reads := Suc (now_reads w)\<rparr>"
  have leases: "\<forall>q. current_lease q w' = current_lease q w"
    using redlock_try_acquire_outcome [of p n wid w C RO] run by (simp add: acquire_outcome_def)
  obtain r where r: "reserve_fencing_token C RO (fencing_key C p) ?w1 = (?w1\<lparr>primary := r\<rparr>, Inr ?tok)"
    using reserve_no_fault [OF ok nofault, of C "fencing_key C p" ?w1] by auto
  let ?w3 = "fst (read_monotonic C (?w1\<lparr>primary := r\<rparr>))"
  obtain nodes1 results where acq: "acquire_on_nodes C RO wid p n ?t ?tok ?w3 = (?w3\<lparr>redis_nodes := nodes1\<rparr>, Inr results)"
    and rel: "\<And>w2. redis_nodes w2 = nodes1 \<Longrightarrow> \<exists>nodes2.
       release_indices C RO p wid ?t ?tok (map fst (filter (\<lambda>(_, y). y \<noteq> None) results)) w2 =
         (w2\<lparr>redis_nodes := nodes2\<rparr>, Inr ()) \<and> length nodes2 = length (redis_nodes w) \<and>
       (\<forall>i < length (redis_nodes w). \<forall>k. rd_get RO k (nodes2 ! i) = rd_get RO k (redis_nodes w ! i))"
    using acquire_release_nodes [OF ok codecs exact nofault, where C = C and p = p and wid = wid and t = ?t and n = n
        and w = ?w3]
    by (auto simp: read_monotonic_def)
  show ?thesis
  proof (cases "redis_nodes w = []")
    case False
    let ?w5 = "fst (read_monotonic C (?w3\<lparr>redis_nodes := nodes1\<rparr>))"
    obtain nodes2 where n2: "release_indices C RO p wid ?t ?tok (map fst (filter (\<lambda>(_, y). y \<noteq> None) results)) ?w5 =
        (?w5\<lparr>redis_nodes := nodes2\<rparr>, Inr ())" "length nodes2 = length (redis_nodes w)"
      "\<forall>i < length (redis_nodes w). \<forall>k. rd_get RO k (nodes2 ! i) = rd_get RO k (redis_nodes w ! i)"
      using rel [of ?w5] by (auto simp: read_monotonic_def)
    have "w' = ?w5\<lparr>redis_nodes := nodes2\<rparr>"
      using run False r acq n2(1)
      by (auto simp: redlock_try_acquire_def read_now_def read_monotonic_def bindE_def
          redlock_conclude_acquire_def Let_def split: if_splits)
    with n2(2,3) leases show ?thesis by simp
  qed (use run in \<open>simp add: redlock_try_acquire_def\<close>)
qed

text \<open>Two of the three nodes are held by another worker, so the acquisition fails.\<close>

definition sample_contended :: "sample_server lease_world" where
  "sample_contended = (lease_world_init ([], []))\<lparr>redis_nodes :=
     [([], []), ([(''a:lease:p'', ''other'')], []), ([(''a:lease:p'', ''other'')], [])]\<rparr>"

theorem failed_redlock_acquire_leaves_no_trace_witness:
  "\<forall>k. rd_get sample_redis k (redis_nodes
     (fst (redlock_try_acquire sample_redlock_config sample_redis ''a'' ''p'' 1 sample_contended)) ! 0) =
     rd_get sample_redis k (redis_nodes sample_contended ! 0)"
proof -
  let ?run = "redlock_try_acquire sample_redlock_config sample_redis ''a'' ''p'' 1 sample_contended"
  have "snd ?run = Inr False" by code_simp
  then have run: "?run = (fst ?run, Inr False)" by (metis prod.collapse)
  have laws: "redis_commands_ok sample_redis" "codecs_ok sample_redis"
    using sample_redis_laws by (simp_all add: redis_laws_def)
  have "rd_fault sample_redis r = (r, NoFault)" for r by (simp add: sample_redis_def)
  moreover have "lua_exact (rd_counter sample_redis (fencing_key sample_redlock_config ''p'') (primary sample_contended) + 1)"
    by code_simp
  moreover have "length (redis_nodes sample_contended) = 3" by (simp add: sample_contended_def)
  ultimately show ?thesis
    using failed_redlock_acquire_leaves_no_trace [OF laws _ _ run] by simp
qed

text \<open>
  Only the nodes that answered are released: the first node grants the lease and its reply is lost, the other two are
  held by another worker; after the failed acquisition the first node still holds the lease.
\<close>

definition lossy_redis :: "sample_server redis_ops" where
  "lossy_redis = sample_redis\<lparr>rd_fault := (\<lambda>r.
     (r, if dict_get (snd r) ''lossy'' = Some 1 then LostReply (Exn ''ConnectionError'' [''RedisError'', ''Exception''] ''lost'') else NoFault))\<rparr>"

definition sample_lossy :: "sample_server lease_world" where
  "sample_lossy = (lease_world_init ([], []))\<lparr>redis_nodes :=
     [([], [(''lossy'', 1)]), ([(''a:lease:p'', ''other'')], []), ([(''a:lease:p'', ''other'')], [])]\<rparr>"

lemma lost_reply_keeps_lease:
  "snd (redlock_try_acquire sample_redlock_config lossy_redis ''a'' ''p'' 1 sample_lossy) = Inr False"
  "rd_get lossy_redis ''a:lease:p'' (redis_nodes sample_lossy ! 0) = None"
  "rd_get lossy_redis ''a:lease:p''
     (redis_nodes (fst (redlock_try_acquire sample_redlock_config lossy_redis ''a'' ''p'' 1 sample_lossy)) ! 0) \<noteq> None"
  by code_simp+

end
