(* ===== verification/Lease_Coordinator.thy ===== *)
theory Lease_Coordinator
  imports Lease_Providers
begin

text \<open>
  Properties of the coordinator as a whole: accepted configurations, the renewal deadline, shutdown,
  and the dependence of Redlock on the primary server.
\<close>

section \<open>Configuration\<close>

text \<open>
  An accepted coordinator configuration is sound: the heartbeat is shorter than the lease, Redlock
  has no nodes or at least three, so that a quorum survives the loss of a node; and, with the default
  deadline and leases of at least three seconds, the pause before a renewal cycle together with the
  cycle's deadline is shorter than the lease, so a cycle that starts in time loses no lease unnoticed.
\<close>

lemma accepted_config_sound:
  assumes "coordinator_init_config a now monotonic = Inr C"
  shows "0 < ca_heartbeat_interval a \<and> ca_heartbeat_interval a < lc_lease_ttl C \<and> 0 \<le> lc_clock_drift_factor C \<and>
    0 \<le> lc_fencing_key_ttl_seconds C \<and>
    (redlock_enabled C \<longrightarrow> 3 \<le> length (lc_redlock_redis_urls C) \<and>
       length (lc_redlock_redis_urls C) div 2 + 1 < length (lc_redlock_redis_urls C)) \<and>
    (ca_lease_renewal_deadline_seconds a = None \<and> 3 \<le> lc_lease_ttl C \<longrightarrow>
       renewal_interval_s (ca_heartbeat_interval a) (lc_lease_ttl C) +
         renewal_cycle_deadline_s (ca_lease_renewal_deadline_seconds a) (lc_lease_ttl C) < of_int (lc_lease_ttl C))"
proof -
  have bounds: "0 < ca_heartbeat_interval a" "ca_heartbeat_interval a < lc_lease_ttl C"
    "0 \<le> lc_clock_drift_factor C" "0 \<le> lc_fencing_key_ttl_seconds C"
    "redlock_enabled C \<longrightarrow> 3 \<le> length (lc_redlock_redis_urls C)"
    using assms by (auto simp: coordinator_init_config_def redlock_enabled_def split: if_splits option.splits)
  have "renewal_interval_s (ca_heartbeat_interval a) (lc_lease_ttl C) +
      renewal_cycle_deadline_s None (lc_lease_ttl C) < of_int (lc_lease_ttl C)" if "3 \<le> lc_lease_ttl C"
  proof -
    have ttl: "(3 :: rat) \<le> of_int (lc_lease_ttl C)" using that by (metis of_int_le_iff of_int_numeral)
    then have "renewal_interval_s (ca_heartbeat_interval a) (lc_lease_ttl C) \<le> of_int (lc_lease_ttl C) / 3"
      by (simp add: renewal_interval_s_def)
    moreover have "renewal_cycle_deadline_s None (lc_lease_ttl C) = of_int (lc_lease_ttl C) / 2"
      using ttl by (simp add: renewal_cycle_deadline_s_def)
    ultimately show ?thesis using ttl by simp
  qed
  with bounds show ?thesis by auto
qed

definition default_args :: coordinator_args where
  "default_args =
     \<lparr>ca_redis_url = ''redis://localhost:6379'', ca_lease_ttl_seconds = 300, ca_heartbeat_interval = 30,
      ca_key_prefix = ''agora:distributed:'', ca_fallback_to_local = False, ca_fencing_key_ttl_seconds = None,
      ca_lease_renewal_deadline_seconds = None, ca_redlock_redis_urls = Some [''r1'', ''r2'', ''r3''],
      ca_redlock_clock_drift_factor = 1 / 100, ca_worker_list_fetch_batch_size = 128\<rparr>"

section \<open>Renewal\<close>

lemma mark_each_lost_all:
  "\<exists>w'. mark_each_lost reason ls w = (w', Inr ()) \<and> lease_tokens w' = filter (\<lambda>(p, _). p \<notin> fst ` set ls) (lease_tokens w) \<and>
     lost_calls w' = lost_calls w @ (if lease_lost_callback w then map fst ls else []) \<and>
     lease_lost_callback w' = lease_lost_callback w"
proof (induction ls arbitrary: w)
  case (Cons l ls)
  obtain p lease where l: "l = (p, lease)" by (cases l)
  let ?w1 = "fst (mark_lease_lost p lease reason w)"
  have w1: "lease_tokens ?w1 = filter (\<lambda>(q, _). q \<noteq> p) (lease_tokens w)"
    "lost_calls ?w1 = lost_calls w @ (if lease_lost_callback w then [p] else [])"
    "lease_lost_callback ?w1 = lease_lost_callback w"
    by (simp_all add: mark_lease_lost_def discard_lease_def pop_lease_def discard_redlock_nodes_def Let_def
        AList.delete_eq comp_def case_prod_unfold eq_commute)
  obtain w' where "mark_each_lost reason ls ?w1 = (w', Inr ())"
    "lease_tokens w' = filter (\<lambda>(p, _). p \<notin> fst ` set ls) (lease_tokens ?w1)"
    "lost_calls w' = lost_calls ?w1 @ (if lease_lost_callback ?w1 then map fst ls else [])"
    "lease_lost_callback w' = lease_lost_callback ?w1"
    using Cons.IH by blast
  then show ?case
    by (auto simp: l thenE_def w1 filter_filter case_prod_unfold intro: filter_cong)
qed (simp add: thenE_def)

text \<open>
  A renewal cycle that exceeds its deadline gives up every lease still held: none is left, and the
  lost-lease callback, if set, was called once for each of them, in order.
\<close>

lemma deadline_gives_up_all_leases:
  assumes "renew_each C RO redis_open fallback wid (take n (active_pipeline_ids w)) w = (w1, Inr ())"
  shows "\<exists>w'. renew_leases_once C RO redis_open fallback wid (Some n) w = (w', Inr ()) \<and> lease_tokens w' = [] \<and>
    lost_calls w' = lost_calls w1 @ (if lease_lost_callback w1 then active_pipeline_ids w1 else [])"
proof -
  obtain w' where w': "mark_each_lost ''renew_cycle_deadline_exceeded'' (lease_tokens w1) w1 = (w', Inr ())"
    "lease_tokens w' = filter (\<lambda>(p, _). p \<notin> fst ` set (lease_tokens w1)) (lease_tokens w1)"
    "lost_calls w' = lost_calls w1 @ (if lease_lost_callback w1 then map fst (lease_tokens w1) else [])"
    using mark_each_lost_all by blast
  then have "lease_tokens w' = []" by (force simp: filter_empty_conv)
  with w' assms show ?thesis
    by (simp add: renew_leases_once_def thenE_def bindE_def mark_all_leases_lost_def active_leases_def
        active_pipeline_ids_def)
qed

section \<open>Shutdown\<close>

text \<open>The server still holds a lease of this worker with this token.\<close>

definition owns :: "lease_config \<Rightarrow> 'r redis_ops \<Rightarrow> string \<Rightarrow> string \<Rightarrow> int \<Rightarrow> 'r \<Rightarrow> bool" where
  "owns C RO wid p tok r \<longleftrightarrow>
     (\<exists>v. rd_get RO (lease_key C p) r = Some v \<and> lua_owner RO v wid tok = Some True)"

lemma release_script_gets:
  assumes "redis_commands_ok RO"
  shows "rd_get RO k (fst (RELEASE_SCRIPT RO key wid tok r)) \<in> {None, rd_get RO k r}"
    "\<not> owns C RO wid p tok (fst (RELEASE_SCRIPT RO (lease_key C p) wid tok r))"
  using del_law [OF assms]
  by (auto simp: RELEASE_SCRIPT_def owns_def split: option.splits bool.splits)

lemma not_owns_mono:
  "\<not> owns C RO wid p tok r \<Longrightarrow> (\<And>k. rd_get RO k r' = rd_get RO k r \<or> rd_get RO k r' = None) \<Longrightarrow> \<not> owns C RO wid p tok r'"
  by (metis option.distinct(1) owns_def)

lemma primary_release_state:
  assumes "\<And>r. rd_fault RO r = (r, NoFault)" "release_script w"
  shows "fst (primary_release C RO wid p l w) =
    w\<lparr>primary := fst (RELEASE_SCRIPT RO (lease_key C p) wid (ls_fencing_token l) (primary w))\<rparr>"
proof -
  let ?script = "RELEASE_SCRIPT RO (lease_key C p) wid (ls_fencing_token l)"
  obtain r x where run: "?script (primary w) = (r, x)" by fastforce
  have "call_primary_script RO ?script w = (w\<lparr>primary := r\<rparr>, x)"
    by (simp add: call_primary_script_def bindE_def call_primary_def redis_call_def assms(1) run)
  then show ?thesis
    using assms(2) by (simp add: primary_release_def handle_call_error_def run split: sum.split)
qed

text \<open>The effect of releasing one lease of an open session on a server without faults.\<close>

lemma release_lease_effect:
  assumes ok: "redis_commands_ok RO" and nofault: "\<And>r. rd_fault RO r = (r, NoFault)"
    and single: "\<not> redlock_enabled C" and script: "release_script w"
  shows "lease_tokens (fst (ops_release C RO True wid p w)) = dict_pop p (lease_tokens w)"
    "release_script (fst (ops_release C RO True wid p w))"
    "rd_get RO k (primary (fst (ops_release C RO True wid p w))) \<in> {None, rd_get RO k (primary w)}"
    "current_lease p w = Some lease \<Longrightarrow>
       \<not> owns C RO wid p (ls_fencing_token lease) (primary (fst (ops_release C RO True wid p w)))"
proof -
  obtain w1 where w1: "discard_lease p w = (w1, current_lease p w)" by (simp add: discard_lease_def)
  have w1': "lease_tokens w1 = dict_pop p (lease_tokens w)" "release_script w1" "primary w1 = primary w"
    using script w1 by (auto simp: discard_lease_def pop_lease_def discard_redlock_nodes_def)
  have rel: "fst (primary_release C RO wid p l w1) =
      w1\<lparr>primary := fst (RELEASE_SCRIPT RO (lease_key C p) wid (ls_fencing_token l) (primary w))\<rparr>" for l
    using primary_release_state [OF nofault w1'(2)] w1'(3) by simp
  have cases: "fst (ops_release C RO True wid p w) =
      (case current_lease p w of None \<Rightarrow> w1 | Some l \<Rightarrow> fst (primary_release C RO wid p l w1))"
    using script single by (simp add: ops_release_def w1 split: option.split)
  show "lease_tokens (fst (ops_release C RO True wid p w)) = dict_pop p (lease_tokens w)"
    "release_script (fst (ops_release C RO True wid p w))"
    using w1' by (simp_all add: cases rel split: option.split)
  show "rd_get RO k (primary (fst (ops_release C RO True wid p w))) \<in> {None, rd_get RO k (primary w)}"
    using w1' release_script_gets(1) [OF ok] by (simp add: cases rel split: option.split)
  show "\<not> owns C RO wid p (ls_fencing_token lease) (primary (fst (ops_release C RO True wid p w)))"
    if "current_lease p w = Some lease"
    using release_script_gets(2) [OF ok] that by (simp add: cases rel)
qed

text \<open>The registry writes only worker keys.\<close>

definition registry_ok :: "'r redis_ops \<Rightarrow> 'r registry_ops \<Rightarrow> bool" where
  "registry_ok RO RG \<longleftrightarrow>
     (\<forall>k v t r k'. k' \<noteq> k \<longrightarrow> rd_get RO k' (rg_set_ex RG k v t r) = rd_get RO k' r) \<and>
     (\<forall>k r k'. k' \<noteq> k \<longrightarrow> rd_get RO k' (rg_delete RG k r) = rd_get RO k' r)"

lemma worker_key_not_lease: "rc_key_prefix G = lc_key_prefix C \<Longrightarrow> lease_key C p \<noteq> worker_key G wid"
  by (simp add: lease_key_def worker_key_def)

lemma release_each_effect:
  assumes ok: "redis_commands_ok (ce_redis E)" and nofault: "\<And>r. rd_fault (ce_redis E) r = (r, NoFault)"
    and single: "\<not> redlock_enabled (ce_config E)" and "cd_redis_open s" "release_script (cd_leases s)"
  shows "cd_redis_open (release_each E ps s) \<and> cd_worker_id (release_each E ps s) = cd_worker_id s \<and>
    cd_renewal_running (release_each E ps s) = cd_renewal_running s \<and>
    (\<forall>k. rd_get (ce_redis E) k (primary (cd_leases (release_each E ps s))) \<in>
       {None, rd_get (ce_redis E) k (primary (cd_leases s))}) \<and>
    (\<forall>p \<in> set ps. \<forall>lease. current_lease p (cd_leases s) = Some lease \<longrightarrow>
       \<not> owns (ce_config E) (ce_redis E) (cd_worker_id s) p (ls_fencing_token lease)
          (primary (cd_leases (release_each E ps s))))"
  using assms(4,5)
proof (induction ps arbitrary: s)
  case (Cons p ps)
  let ?s1 = "fst (release_lease E p s)"
  have s1: "cd_leases ?s1 = fst (ops_release (ce_config E) (ce_redis E) True (cd_worker_id s) p (cd_leases s))"
    "cd_redis_open ?s1" "cd_worker_id ?s1 = cd_worker_id s" "cd_renewal_running ?s1 = cd_renewal_running s"
    using Cons.prems(1) by (simp_all add: release_lease_def on_leases_def split: prod.split)
  note eff = release_lease_effect [OF ok nofault single Cons.prems(2), where wid = "cd_worker_id s" and p = p]
  have other: "current_lease q (cd_leases ?s1) = current_lease q (cd_leases s)" if "q \<noteq> p" for q
    using that eff(1) by (simp add: s1(1) current_lease_def)
  note IH = Cons.IH [OF s1(2), unfolded s1(1), OF eff(2), folded s1(1)]
  have get1: "rd_get (ce_redis E) k (primary (cd_leases (release_each E ps ?s1))) = rd_get (ce_redis E) k (primary (cd_leases ?s1)) \<or>
      rd_get (ce_redis E) k (primary (cd_leases (release_each E ps ?s1))) = None" for k
    using IH by (metis insertE singletonD)
  have gone: "\<not> owns (ce_config E) (ce_redis E) (cd_worker_id s) p (ls_fencing_token lease)
      (primary (cd_leases (release_each E ps ?s1)))" if "current_lease p (cd_leases s) = Some lease" for lease
    using get1 by (rule not_owns_mono [OF eff(4) [OF that, folded s1(1)]])
  have old: "\<not> owns (ce_config E) (ce_redis E) (cd_worker_id s) q (ls_fencing_token lease)
      (primary (cd_leases (release_each E ps ?s1)))"
    if "q \<in> set ps" "q \<noteq> p" "current_lease q (cd_leases s) = Some lease" for q lease
    using IH that other [of q] s1(3) by auto
  have "rd_get (ce_redis E) k (primary (cd_leases (release_each E ps ?s1))) \<in>
      {None, rd_get (ce_redis E) k (primary (cd_leases s))}" for k
    using get1 [of k] eff(3) [of k] unfolding s1(1) by auto
  with gone old IH s1 show ?case by auto
qed simp

text \<open>Stopping an open session whose connection works.\<close>

lemma session_stop_effect:
  assumes reg: "registry_ok (ce_redis E) (ce_registry_ops E)" "rc_key_prefix (ce_registry E) = lc_key_prefix (ce_config E)"
    and nofault: "\<And>r. rd_fault (ce_redis E) r = (r, NoFault)" and "cd_redis_open s" "ce_aclose E = Inr ()"
  shows "\<exists>s'. session_stop E s = (s', Inr ()) \<and> \<not> cd_redis_open s' \<and> \<not> cd_heartbeat_running s' \<and>
    cd_renewal_running s' = cd_renewal_running s \<and>
    (\<forall>p. rd_get (ce_redis E) (lease_key (ce_config E) p) (primary (cd_leases s')) =
       rd_get (ce_redis E) (lease_key (ce_config E) p) (primary (cd_leases s)))"
proof -
  have call: "call_primary (ce_redis E) (\<lambda>r. (f r, ())) w = (w\<lparr>primary := f (primary w)\<rparr>, Inr ())" for f w
    by (simp add: call_primary_def redis_call_def nofault)
  have keys: "rd_get (ce_redis E) (lease_key (ce_config E) p)
        (register_worker (ce_registry E) (ce_registry_ops E) wid ps st now r) =
      rd_get (ce_redis E) (lease_key (ce_config E) p) r"
    "rd_get (ce_redis E) (lease_key (ce_config E) p) (rg_delete (ce_registry_ops E) (worker_key (ce_registry E) wid) r) =
      rd_get (ce_redis E) (lease_key (ce_config E) p) r" for p wid ps st now r
    using reg(1) worker_key_not_lease [OF reg(2)] by (simp_all add: registry_ok_def register_worker_def)
  show ?thesis
    using assms(4,5)
    by (simp add: session_stop_def session_register_def on_leases_def read_now_def call bindE_def Let_def
        close_nodes_def keys)
qed

text \<open>
  C27: a graceful stop releases everything the worker holds.  On a single Redis server (no Redlock) that answers every
  call and whose connection closes, stopping a started coordinator leaves no local lease, none of the leases it held locally on the server under its
  token, no open session and no running heartbeat or renewal loop.  A lease that the server granted and whose reply was
  lost is not among those held locally; it stays on the server until it expires.
\<close>

theorem stop_releases_all_leases:
  assumes ok: "redis_commands_ok (ce_redis E)" and nofault: "\<And>r. rd_fault (ce_redis E) r = (r, NoFault)"
    and single: "\<not> redlock_enabled (ce_config E)"
    and reg: "registry_ok (ce_redis E) (ce_registry_ops E)" "rc_key_prefix (ce_registry E) = lc_key_prefix (ce_config E)"
    and started: "cd_redis_open s" "release_script (cd_leases s)" and aclose: "ce_aclose E = Inr ()"
  shows "\<exists>s'. lifecycle_stop E s = (s', Inr ()) \<and> lease_tokens (cd_leases s') = [] \<and> \<not> cd_redis_open s' \<and>
    \<not> cd_heartbeat_running s' \<and> \<not> cd_renewal_running s' \<and>
    (\<forall>p lease. current_lease p (cd_leases s) = Some lease \<longrightarrow>
       \<not> owns (ce_config E) (ce_redis E) (cd_worker_id s) p (ls_fencing_token lease) (primary (cd_leases s')))"
proof -
  let ?s1 = "s\<lparr>cd_renewal_running := False\<rparr>" and ?ps = "active_pipeline_ids (cd_leases s)"
  let ?s2 = "release_each E ?ps ?s1"
  have "cd_redis_open ?s1" "release_script (cd_leases ?s1)" using started by simp_all
  note rel = release_each_effect [OF ok nofault single this, of ?ps]
  have open2: "cd_redis_open ?s2" using rel by blast
  obtain s3 where s3: "session_stop E ?s2 = (s3, Inr ())" "\<not> cd_redis_open s3" "\<not> cd_heartbeat_running s3"
    "cd_renewal_running s3 = cd_renewal_running ?s2"
    "\<forall>p. rd_get (ce_redis E) (lease_key (ce_config E) p) (primary (cd_leases s3)) =
       rd_get (ce_redis E) (lease_key (ce_config E) p) (primary (cd_leases ?s2))"
    using session_stop_effect [OF reg nofault open2 aclose] by blast
  have owns: "\<not> owns (ce_config E) (ce_redis E) (cd_worker_id s) p (ls_fencing_token lease) (primary (cd_leases s3))"
    if "current_lease p (cd_leases s) = Some lease" for p lease
  proof -
    have "p \<in> set ?ps" using that by (force simp: current_lease_def active_pipeline_ids_def dest: map_of_SomeD)
    with rel that s3(5) show ?thesis by (auto simp: owns_def)
  qed
  have "lifecycle_stop E s = (upd_leases runtime_clear s3, Inr ())"
    using started s3(1) by (simp add: lifecycle_stop_def bindE_def)
  then show ?thesis
    using s3(2-4) rel owns by (simp add: runtime_clear_def clear_active_leases_def)
qed

text \<open>Worker \<open>b\<close> of the sample cluster, with everything running.\<close>

definition sample_env :: "sample_server redis_ops \<Rightarrow> sample_server coordinator_env" where
  "sample_env RO =
     \<lparr>ce_config = sample_lease_config, ce_registry = sample_registry\<lparr>rc_key_prefix := ''a:''\<rparr>, ce_redis = RO,
      ce_registry_ops =
        \<lparr>rg_set_ex = (\<lambda>k v _ r. (dict_set k v (fst r), snd r)), rg_delete = (\<lambda>k r. (dict_pop k (fst r), snd r)),
         rg_scan = (\<lambda>_ _ _ _. Inr (0, [])), rg_mget = (\<lambda>keys r. Inr (map (dict_get (fst r)) keys)),
         json_dumps = (\<lambda>_. ''{}'')\<rparr>,
      ce_fallback_to_local = False, ce_connect_primary = Inr ([], []), ce_connect_node = (\<lambda>_. Inr ([], [])),
      ce_aclose = Inr (), ce_base_validate = (\<lambda>_ _. returnE False)\<rparr>"

definition sample_running :: "sample_server coordinator" where
  "sample_running =
     \<lparr>cd_leases = (fst sample_second ''b'')\<lparr>primary := snd sample_second\<rparr>, cd_redis_open = True,
      cd_worker_id = ''b'', cd_pipeline_ids = [''p''], cd_heartbeat_running = True, cd_renewal_running = True\<rparr>"

theorem stop_releases_all_leases_witness:
  "\<exists>s'. lifecycle_stop (sample_env sample_redis) sample_running = (s', Inr ()) \<and> lease_tokens (cd_leases s') = [] \<and>
     \<not> owns sample_lease_config sample_redis ''b'' ''p'' 2 (primary (cd_leases s'))"
proof -
  let ?E = "sample_env sample_redis"
  have ok: "redis_commands_ok (ce_redis ?E)"
    using sample_redis_laws by (simp add: redis_laws_def sample_env_def)
  have nofault: "rd_fault (ce_redis ?E) r = (r, NoFault)" for r by (simp add: sample_env_def sample_redis_def)
  have reg: "registry_ok (ce_redis ?E) (ce_registry_ops ?E)" "rc_key_prefix (ce_registry ?E) = lc_key_prefix (ce_config ?E)"
    by (simp_all add: registry_ok_def sample_env_def sample_redis_def sample_lease_config_def)
  have single: "\<not> redlock_enabled (ce_config ?E)" by (simp add: sample_env_def redlock_enabled_def sample_lease_config_def)
  have running: "cd_redis_open sample_running" "release_script (cd_leases sample_running)"
    "current_lease ''p'' (cd_leases sample_running) = Some (new_lease ''p'' 2 ''b'' 2 ''t0'')"
    by code_simp+
  have "ce_aclose ?E = Inr ()" by (simp add: sample_env_def)
  then obtain s' where s': "lifecycle_stop ?E sample_running = (s', Inr ())" "lease_tokens (cd_leases s') = []"
    "\<forall>p lease. current_lease p (cd_leases sample_running) = Some lease \<longrightarrow>
       \<not> owns (ce_config ?E) (ce_redis ?E) (cd_worker_id sample_running) p (ls_fencing_token lease) (primary (cd_leases s'))"
    using stop_releases_all_leases [OF ok nofault single reg running(1,2)] by blast
  with s'(3) [rule_format, OF running(3)] show ?thesis
    by (simp add: sample_env_def sample_running_def new_lease_def)
qed

text \<open>
  A stop that cannot announce itself does not stop.  When writing the draining status fails, the
  exception escapes although leases were released: the session stays open and the heartbeat keeps
  running, because the registration comes before the heartbeat is stopped and is not guarded.
\<close>

lemma failed_drain_keeps_session:
  assumes "cd_redis_open s" "cd_heartbeat_running s"
    and "session_register E ''draining'' s = (s', Inl e)"
  shows "session_stop E s = (s', Inl e) \<and> cd_redis_open s' \<and> cd_heartbeat_running s'"
proof -
  have "cd_redis_open s' = cd_redis_open s \<and> cd_heartbeat_running s' = cd_heartbeat_running s"
    using assms(1,3) by (auto simp: session_register_def on_leases_def split: prod.splits)
  with assms show ?thesis by (simp add: session_stop_def bindE_def)
qed

section \<open>Redlock without the primary\<close>

text \<open>
  Redlock still depends on the primary server.  When the connection to the primary fails, a
  Redlock acquisition raises the connection error to the caller, even with every node available,
  whereas the single-server acquisition under the same fault reports that the lease was not acquired.
\<close>

lemma redlock_acquire_raises_without_primary:
  assumes "redis_nodes w \<noteq> []" "rd_fault RO (primary w) = (r, LostRequest e)"
    and "raise_if_programming_error e = Inr ()"
  shows "snd (redlock_try_acquire C RO wid p n w) = Inl e \<and> snd (primary_try_acquire C RO wid p n w) = Inr False"
  using assms
  by (simp add: redlock_try_acquire_def primary_try_acquire_def read_now_def reserve_fencing_token_def bindE_def
      call_primary_def redis_call_def handle_call_error_def)

end
