(* ===== verification/DLQ_Policy.thy ===== *)
theory DLQ_Policy
  imports Prelude
begin

text \<open>
  The payload policy of the dead-letter queue (\<^verbatim>\<open>dlq_policy.py\<close>): redaction of sensitive fields and
  headers in a payload, and encryption of a whole payload.  Payloads are the JSON values of the
  prelude.  The user's cipher is a parameter; the JSON and base64 codecs of the standard library
  enter as one pair of functions each.
\<close>

section \<open>Policy\<close>

text \<open>What an encryptor returns: bytes, text, or something else.\<close>

datatype cipher_output = CipherBytes string | CipherText string | CipherOther

record cipher =
  ci_encrypt :: "string \<Rightarrow> cipher_output"
  ci_decrypt :: "string \<Rightarrow> string"

record codec =
  cd_json_dumps :: "pyval \<Rightarrow> string"
  cd_json_loads :: "string \<Rightarrow> pyval result"
  cd_b64encode :: "string \<Rightarrow> string"
  cd_b64decode :: "string \<Rightarrow> string result"
  cd_repr :: "pyval \<Rightarrow> string"

record dlq_policy =
  dp_mode :: string
  dp_redact_fields :: "string list"
  dp_redact_headers :: "string list"
  dp_redacted_value :: string
  dp_include_common_sensitive_names :: bool
  dp_encryptor :: "cipher option"
  dp_decryptor :: "cipher option"
  dp_encryption_algorithm :: string
  dp_encryption_key_id :: "string option"

definition COMMON_SENSITIVE_FIELDS :: "string list" where
  "COMMON_SENSITIVE_FIELDS =
     [''access_token'', ''api_key'', ''authorization'', ''client_secret'', ''cookie'', ''password'',
      ''private_key'', ''refresh_token'', ''secret'', ''set-cookie'', ''token'', ''x-api-key'', ''x_api_key'']"

definition COMMON_SENSITIVE_HEADERS :: "string list" where
  "COMMON_SENSITIVE_HEADERS =
     [''api-key'', ''authorization'', ''cookie'', ''proxy-authorization'', ''set-cookie'', ''x-api-key'',
      ''x-auth-token'']"

definition normalize_sensitive_name :: "string \<Rightarrow> string" where
  "normalize_sensitive_name name = str_lower (str_strip name)"

text \<open>\<^verbatim>\<open>__post_init__\<close>.\<close>

definition policy_init :: "dlq_policy \<Rightarrow> dlq_policy result" where
  "policy_init p =
     (if dp_mode p \<notin> {''raw'', ''redacted'', ''encrypted''}
      then Inl (ValueError ''DLQPayloadPolicy mode must be 'raw', 'redacted', or 'encrypted'.'')
      else if dp_mode p = ''encrypted'' \<and> dp_encryptor p = None
      then Inl (ValueError ''DLQPayloadPolicy mode='encrypted' requires an encryptor.'')
      else Inr (p\<lparr>dp_redact_fields := map normalize_sensitive_name (dp_redact_fields p),
                  dp_redact_headers := map normalize_sensitive_name (dp_redact_headers p)\<rparr>))"

section \<open>Redaction\<close>

definition redacted_header_value :: "string \<Rightarrow> pyval" where
  "redacted_header_value redacted_value = PDict [(''encoding'', PStr ''redacted''), (''data'', PStr redacted_value)]"

lemma size_dict_entry: "e \<in> set d \<Longrightarrow> size (snd e) < Suc (size_list (size_prod (\<lambda>_. 0) size) d)"
  by (induction d) auto

lemma size_list_item: "x \<in> set xs \<Longrightarrow> size x < Suc (size_list size xs)"
  by (induction xs) auto

text \<open>
  \<open>_redact_value\<close>, with the two uses of \<open>_redact_header\<close> inlined as \<open>redact_header\<close>; \<open>R\<close> is the text of
  floats and containers, which a header key is unlikely to be.
\<close>

function (sequential) redact_value ::
    "(pyval \<Rightarrow> string) \<Rightarrow> string set \<Rightarrow> string set \<Rightarrow> string \<Rightarrow> string option \<Rightarrow> pyval \<Rightarrow> pyval"
  and redact_header :: "(pyval \<Rightarrow> string) \<Rightarrow> string set \<Rightarrow> string \<Rightarrow> pyval \<Rightarrow> pyval" where
  "redact_value R field_names header_names rv parent_key (PDict d) =
     PDict (map (\<lambda>e. (fst e,
        if normalize_sensitive_name (fst e) \<in> field_names then PStr rv
        else redact_value R field_names header_names rv (Some (normalize_sensitive_name (fst e))) (snd e))) d)"
| "redact_value R field_names header_names rv parent_key (PList items) =
     (if parent_key = Some ''headers''
      then PList (map (redact_header R header_names rv) items)
      else PList (map (redact_value R field_names header_names rv parent_key) items))"
| "redact_value R field_names header_names rv parent_key v = v"
| "redact_header R header_names rv (PDict item) =
     (if normalize_sensitive_name (py_str R (dict_getd item ''key'' (PStr []))) \<notin> header_names
      then PDict (map (\<lambda>e. (fst e,
             redact_value R {} header_names rv (Some (normalize_sensitive_name (fst e))) (snd e))) item)
      else PDict (dict_set ''value'' (redacted_header_value rv) item))"
| "redact_header R header_names rv v = v"
  by pat_completeness auto

termination
  by (relation "measure (\<lambda>x. case x of Inl (_, _, _, _, _, v) \<Rightarrow> size v | Inr (_, _, _, v) \<Rightarrow> size v)")
    (auto simp: size_dict_entry size_list_item)

definition policy_field_names :: "dlq_policy \<Rightarrow> string set" where
  "policy_field_names p =
     set (dp_redact_fields p) \<union> (if dp_include_common_sensitive_names p then set COMMON_SENSITIVE_FIELDS else {})"

definition policy_header_names :: "dlq_policy \<Rightarrow> string set" where
  "policy_header_names p =
     set (dp_redact_headers p) \<union> (if dp_include_common_sensitive_names p then set COMMON_SENSITIVE_HEADERS else {})"

definition policy_apply :: "(pyval \<Rightarrow> string) \<Rightarrow> dlq_policy \<Rightarrow> pyval \<Rightarrow> pyval" where
  "policy_apply R p payload =
     (if dp_mode p = ''raw'' \<or> dp_mode p = ''encrypted'' then payload
      else redact_value R (policy_field_names p) (policy_header_names p) (dp_redacted_value p) None payload)"

section \<open>Encryption\<close>

definition encrypt_payload :: "codec \<Rightarrow> dlq_policy \<Rightarrow> pyval \<Rightarrow> (string, pyval) dict result" where
  "encrypt_payload J p payload =
     (if dp_mode p \<noteq> ''encrypted''
      then Inl (ValueError ''DLQPayloadPolicy.encrypt_payload requires mode='encrypted'.'')
      else case dp_encryptor p of
        None \<Rightarrow> Inl (ValueError ''DLQPayloadPolicy mode='encrypted' requires an encryptor.'')
      | Some c \<Rightarrow>
          bindR (case ci_encrypt c (cd_json_dumps J payload) of
                   CipherBytes b \<Rightarrow> Inr b
                 | CipherText t \<Rightarrow> Inr t
                 | CipherOther \<Rightarrow> Inl (TypeError ''DLQ payload encryptor must return bytes or str.''))
            (\<lambda>encrypted.
               Inr ([(''payload_encoding'', PStr ''encrypted''),
                     (''payload_algorithm'', PStr (dp_encryption_algorithm p)),
                     (''payload_ciphertext'', PStr (cd_b64encode J encrypted))] @
                    (case dp_encryption_key_id p of None \<Rightarrow> [] | Some k \<Rightarrow> [(''payload_key_id'', PStr k)]))))"

definition decrypt_payload :: "codec \<Rightarrow> dlq_policy \<Rightarrow> (string, pyval) dict \<Rightarrow> pyval result" where
  "decrypt_payload J p encrypted_payload =
     (if dp_mode p \<noteq> ''encrypted''
      then Inl (ValueError ''Encrypted DLQ payload requires mode='encrypted' policy.'')
      else case (case dp_decryptor p of Some c \<Rightarrow> Some c | None \<Rightarrow> dp_encryptor p) of
        None \<Rightarrow> Inl (ValueError ''Encrypted DLQ payload requires a decryptor.'')
      | Some c \<Rightarrow>
          (case dict_get encrypted_payload ''payload_ciphertext'' of
             None \<Rightarrow> Inl (KeyError ''payload_ciphertext'')
           | Some t \<Rightarrow>
               bindR (cd_b64decode J (py_str (cd_repr J) t)) (\<lambda>ciphertext.
                 cd_json_loads J (ci_decrypt c ciphertext))))"

section \<open>Paths\<close>

datatype path_step = Key string | Index nat

fun lookup :: "pyval \<Rightarrow> path_step list \<Rightarrow> pyval option" where
  "lookup v [] = Some v"
| "lookup (PDict d) (Key k # ps) = (case dict_get d k of None \<Rightarrow> None | Some v \<Rightarrow> lookup v ps)"
| "lookup (PList xs) (Index i # ps) = (if i < length xs then lookup (xs ! i) ps else None)"
| "lookup _ _ = None"

text \<open>The path does not enter an element of a list of headers.\<close>

fun avoids_headers :: "string option \<Rightarrow> path_step list \<Rightarrow> bool" where
  "avoids_headers parent [] = True"
| "avoids_headers parent (Key k # ps) = avoids_headers (Some (normalize_sensitive_name k)) ps"
| "avoids_headers parent (Index i # ps) = (parent \<noteq> Some ''headers'' \<and> avoids_headers parent ps)"

lemma lookup_scalar [simp]:
  "lookup (PStr s) ps = (if ps = [] then Some (PStr s) else None)"
  by (cases ps) auto

lemma dict_get_map_entries: "dict_get (map (\<lambda>e. (fst e, f (fst e) (snd e))) d) k = map_option (f k) (dict_get d k)"
  by (induction d) auto

lemma redact_dict_get:
  "dict_get (map (\<lambda>e. (fst e, if N (fst e) \<in> F then PStr rv else g (N (fst e)) (snd e))) d) k =
     map_option (\<lambda>v. if N k \<in> F then PStr rv else g (N k) v) (dict_get d k)"
  by (induction d) auto

lemma lookup_redact_Key:
  "lookup (redact_value R F H rv par v) (Key k # ps) =
     (case v of PDict d \<Rightarrow>
        (case dict_get d k of None \<Rightarrow> None
         | Some x \<Rightarrow> if normalize_sensitive_name k \<in> F then (if ps = [] then Some (PStr rv) else None)
                     else lookup (redact_value R F H rv (Some (normalize_sensitive_name k)) x) ps)
      | _ \<Rightarrow> None)"
proof (cases v)
  case (PDict d)
  then show ?thesis
    using redact_dict_get [of normalize_sensitive_name F rv "\<lambda>n. redact_value R F H rv (Some n)" d k]
    by (simp split: option.split)
next
  case (PList items)
  then show ?thesis by (cases "par = Some ''headers''") simp_all
qed simp_all

lemma lookup_redact_Index:
  "par \<noteq> Some ''headers'' \<Longrightarrow>
   lookup (redact_value R F H rv par v) (Index i # ps) =
     (case v of PList xs \<Rightarrow> if i < length xs then lookup (redact_value R F H rv par (xs ! i)) ps else None | _ \<Rightarrow> None)"
  by (cases v) simp_all

lemma lookup_redact_headers:
  "lookup (redact_value R F H rv (Some ''headers'') v) (Index i # ps) =
     (case v of PList xs \<Rightarrow> if i < length xs then lookup (redact_header R H rv (xs ! i)) ps else None | _ \<Rightarrow> None)"
  by (cases v) simp_all

lemma redact_value_scalar:
  "redact_value R F H rv par v = PStr s \<longleftrightarrow> v = PStr s"
  by (cases v) simp_all

lemma redact_header_sensitive:
  assumes "redact_header R H rv v = PDict item" "dict_get item ''key'' = Some (PStr name)"
    "normalize_sensitive_name name \<in> H"
  shows "dict_get item ''value'' = Some (redacted_header_value rv)"
proof (cases v)
  case (PDict it)
  let ?key = "dict_getd it ''key'' (PStr [])"
  show ?thesis
  proof (cases "normalize_sensitive_name (py_str R ?key) \<in> H")
    case True
    with PDict assms(1) show ?thesis by auto
  next
    case False
    then have "item = map (\<lambda>e. (fst e, redact_value R {} H rv (Some (normalize_sensitive_name (fst e))) (snd e))) it"
      using PDict assms(1) by simp
    then have "map_option (redact_value R {} H rv (Some (normalize_sensitive_name ''key''))) (dict_get it ''key'') = Some (PStr name)"
      using assms(2) dict_get_map_entries [of "\<lambda>k. redact_value R {} H rv (Some (normalize_sensitive_name k))" it "''key''"]
      by simp
    then have "?key = PStr name" by (auto simp: redact_value_scalar dict_getd_def)
    with False assms(3) show ?thesis by simp
  qed
qed (use assms in simp_all)

lemma redacted_field:
  assumes "lookup (redact_value R F H rv par v) (ps @ [Key k]) = Some x" "normalize_sensitive_name k \<in> F"
    "avoids_headers par ps"
  shows "x = PStr rv"
  using assms
proof (induction ps arbitrary: v par)
  case Nil
  then show ?case by (auto simp: lookup_redact_Key split: pyval.splits option.splits)
next
  case (Cons s ps)
  show ?case
  proof (cases s)
    case (Key k')
    with Cons show ?thesis by (auto simp: lookup_redact_Key split: pyval.splits option.splits if_splits)
  next
    case (Index i)
    with Cons show ?thesis by (auto simp: lookup_redact_Index split: pyval.splits if_splits)
  qed
qed

lemma redacted_header:
  assumes "lookup (redact_value R F H rv par v) (ps @ [Key h, Index i]) = Some (PDict item)"
    "normalize_sensitive_name h = ''headers''" "avoids_headers par ps" "''headers'' \<notin> F"
    "dict_get item ''key'' = Some (PStr name)" "normalize_sensitive_name name \<in> H"
  shows "dict_get item ''value'' = Some (redacted_header_value rv)"
  using assms(1,3)
proof (induction ps arbitrary: v par)
  case Nil
  then obtain xs where "i < length xs" "redact_header R H rv (xs ! i) = PDict item"
    using assms(2,4) by (auto simp: lookup_redact_Key lookup_redact_headers split: pyval.splits option.splits if_splits)
  then show ?case
    using redact_header_sensitive assms(5,6) by blast
next
  case (Cons s ps)
  show ?case
  proof (cases s)
    case (Key k')
    with Cons show ?thesis by (auto simp: lookup_redact_Key split: pyval.splits option.splits if_splits)
  next
    case (Index j)
    with Cons show ?thesis by (auto simp: lookup_redact_Index split: pyval.splits if_splits)
  qed
qed

section \<open>Redacting twice\<close>

text \<open>
  The text of a float or container is never one of the header names, so that what \<^verbatim>\<open>str\<close> makes of an
  odd header key does not matter.
\<close>

definition plain_names :: "(pyval \<Rightarrow> string) \<Rightarrow> string set \<Rightarrow> bool" where
  "plain_names R H \<longleftrightarrow> (\<forall>v. normalize_sensitive_name (R v) \<notin> H)"

lemma dict_set_twice: "dict_set k v (dict_set k v d) = dict_set k v d"
  by (induction d) auto

lemma redacted_key_sensitive:
  assumes "plain_names R H" "normalize_sensitive_name (py_str R v) \<notin> H"
  shows "normalize_sensitive_name (py_str R (redact_value R F H rv par v)) \<notin> H"
  using assms by (cases v) (auto simp: plain_names_def)

lemma redact_idem:
  "plain_names R H \<Longrightarrow> redact_value R F H rv par (redact_value R F H rv par v) = redact_value R F H rv par v"
  "plain_names R H \<Longrightarrow> redact_header R H rv (redact_header R H rv v') = redact_header R H rv v'"
proof (induction R F H rv par v and R H rv v' rule: redact_value_redact_header.induct)
  case (1 R F H rv par d)
  then show ?case by auto
next
  case (2 R F H rv par items)
  then show ?case by auto
next
  case (4 R H rv item)
  let ?key = "\<lambda>it. normalize_sensitive_name (py_str R (dict_getd it ''key'' (PStr [])))"
  let ?f = "\<lambda>k. redact_value R {} H rv (Some (normalize_sensitive_name k))"
  show ?case
  proof (cases "?key item \<in> H")
    case True
    have "?key (dict_set ''value'' (redacted_header_value rv) item) = ?key item"
      by (simp add: dict_getd_def)
    with True show ?thesis by (simp add: dict_set_twice)
  next
    case False
    let ?item = "map (\<lambda>e. (fst e, ?f (fst e) (snd e))) item"
    have "?key ?item \<notin> H"
      using False redacted_key_sensitive [OF 4(2), of _ "{}" rv "Some (normalize_sensitive_name ''key'')"]
        dict_get_map_entries [of ?f item "''key''"]
      by (cases "dict_get item ''key''") (simp_all add: dict_getd_def)
    then show ?thesis using False 4 by auto
  qed
qed simp_all

section \<open>Properties\<close>

text \<open>
  C34: a redacting policy leaves no sensitive value behind.  In what \<open>apply\<close> returns, every field whose
  normalised name is to be redacted holds the redaction marker, at any depth outside header lists, and
  every header item whose normalised name is to be redacted holds the marker as its value.
\<close>

theorem redacted_payload_has_no_secret:
  assumes mode: "dp_mode p = ''redacted''" and out: "avoids_headers None ps"
  shows "(normalize_sensitive_name k \<in> policy_field_names p \<and>
      lookup (policy_apply R p payload) (ps @ [Key k]) = Some x \<longrightarrow> x = PStr (dp_redacted_value p)) \<and>
    (normalize_sensitive_name h = ''headers'' \<and> ''headers'' \<notin> policy_field_names p \<and>
      lookup (policy_apply R p payload) (ps @ [Key h, Index i]) = Some (PDict item) \<and>
      dict_get item ''key'' = Some (PStr name) \<and> normalize_sensitive_name name \<in> policy_header_names p \<longrightarrow>
      dict_get item ''value'' = Some (redacted_header_value (dp_redacted_value p)))"
  using redacted_field [of R "policy_field_names p" "policy_header_names p" "dp_redacted_value p" None payload ps k x]
    redacted_header [of R "policy_field_names p" "policy_header_names p" "dp_redacted_value p" None payload ps h i item name]
    mode out
  by (auto simp: policy_apply_def)

definition sample_policy :: dlq_policy where
  "sample_policy =
     \<lparr>dp_mode = ''redacted'', dp_redact_fields = [], dp_redact_headers = [], dp_redacted_value = ''[REDACTED]'',
      dp_include_common_sensitive_names = True, dp_encryptor = None, dp_decryptor = None,
      dp_encryption_algorithm = ''user'', dp_encryption_key_id = None\<rparr>"

definition sample_payload :: pyval where
  "sample_payload = PDict [(''record'', PDict [(''user'', PStr ''u''), ('' Password '', PStr ''hunter2'')])]"

theorem redacted_payload_has_no_secret_witness:
  "lookup (policy_apply (\<lambda>_. ''{}'') sample_policy sample_payload) ([Key ''record''] @ [Key '' Password '']) =
     Some (PStr (dp_redacted_value sample_policy))"
proof -
  have x: "lookup (policy_apply (\<lambda>_. ''{}'') sample_policy sample_payload) ([Key ''record''] @ [Key '' Password '']) =
      Some (PStr ''[REDACTED]'')"
    by code_simp
  have "normalize_sensitive_name '' Password '' \<in> policy_field_names sample_policy" by code_simp
  moreover have "dp_mode sample_policy = ''redacted''" "avoids_headers None [Key ''record'']"
    by (simp_all add: sample_policy_def)
  ultimately have "PStr ''[REDACTED]'' = PStr (dp_redacted_value sample_policy)"
    using redacted_payload_has_no_secret [of sample_policy "[Key ''record'']" "'' Password ''"] x by blast
  with x show ?thesis by simp
qed

text \<open>
  Applying a policy twice is the same as applying it once; the compaction of the queue does so when
  it spills a redacted record.
\<close>

theorem policy_apply_idempotent:
  assumes "plain_names R (policy_header_names p)"
  shows "policy_apply R p (policy_apply R p payload) = policy_apply R p payload"
  using redact_idem(1) [OF assms] by (simp add: policy_apply_def)

theorem policy_apply_idempotent_witness:
  "policy_apply (\<lambda>_. ''{}'') sample_policy (policy_apply (\<lambda>_. ''{}'') sample_policy sample_payload) =
     policy_apply (\<lambda>_. ''{}'') sample_policy sample_payload"
proof (rule policy_apply_idempotent)
  have "normalize_sensitive_name ''{}'' \<notin> policy_header_names sample_policy" by code_simp
  then show "plain_names (\<lambda>_. ''{}'') (policy_header_names sample_policy)" by (simp add: plain_names_def)
qed

text \<open>
  An encrypted payload decrypts to what its JSON text denotes, whether the cipher returns bytes or
  text, when the decrypting cipher inverts the encrypting one; and a policy that is not an encrypting one
  refuses both directions.
\<close>

lemma encrypt_decrypt_roundtrip:
  assumes "dp_encryptor p = Some enc" "(case dp_decryptor p of Some c \<Rightarrow> c | None \<Rightarrow> enc) = dec"
    and inverse: "\<And>t b. ci_encrypt enc t = CipherBytes b \<or> ci_encrypt enc t = CipherText b \<Longrightarrow> ci_decrypt dec b = t"
    and b64: "\<And>b. cd_b64decode J (cd_b64encode J b) = Inr b"
  shows "(dp_mode p = ''encrypted'' \<longrightarrow>
      (case encrypt_payload J p payload of
         Inl e \<Rightarrow> ci_encrypt enc (cd_json_dumps J payload) = CipherOther \<and> exn_name e = ''TypeError''
       | Inr env \<Rightarrow> decrypt_payload J p env = cd_json_loads J (cd_json_dumps J payload) \<and>
           dict_get env ''payload_encoding'' = Some (PStr ''encrypted''))) \<and>
    (dp_mode p \<noteq> ''encrypted'' \<longrightarrow> isl (encrypt_payload J p payload) \<and> isl (decrypt_payload J p env'))"
proof -
  have dec: "(case dp_decryptor p of Some c \<Rightarrow> Some c | None \<Rightarrow> dp_encryptor p) = Some dec"
    using assms(1,2) by (auto split: option.splits)
  show ?thesis
    using assms(1) inverse [of "cd_json_dumps J payload"] b64
    by (cases "ci_encrypt enc (cd_json_dumps J payload)")
      (auto simp: encrypt_payload_def decrypt_payload_def dec split: option.split)
qed

definition reversing_cipher :: cipher where
  "reversing_cipher = \<lparr>ci_encrypt = (\<lambda>t. CipherText (rev t)), ci_decrypt = rev\<rparr>"

end
