(* ===== verification/DLQ_Records.thy ===== *)
theory DLQ_Records
  imports DLQ_Policy
begin

text \<open>
  Dead-letter records and their stored forms (\<^verbatim>\<open>kafka/_dlq_payloads.py\<close>): the payload dictionary of a
  record, the envelope written to the topic, and reading both back.  The contents of a record are
  JSON values, on which \<open>serialize_json\<close> (dump, then load) is the identity; a datetime is its ISO
  text, and \<^verbatim>\<open>datetime.fromisoformat\<close>, SHA-256, the compact JSON text and UUIDs are parameters.
\<close>

section \<open>Records\<close>

record dlq_record =
  q_pipeline_id :: string
  q_run_id :: string
  q_stage :: string
  q_error_type :: string
  q_error_message :: string
  q_record :: pyval
  q_original_record :: pyval
  q_processed_record :: pyval
  q_source :: "string option"
  q_checkpoint :: pyval
  q_details :: pyval
  q_middleware :: "string option"
  q_sink :: "string option"
  q_created_at :: string
  q_attempt :: int
  q_max_attempts :: "int option"
  q_storage_id :: "string option"

record dlq_codec = codec +
  qc_fromisoformat :: "string \<Rightarrow> string result"
  qc_sha256_hex :: "string \<Rightarrow> string"
  qc_canonical_json :: "pyval \<Rightarrow> string"

abbreviation codec_of :: "dlq_codec \<Rightarrow> codec" where
  "codec_of J \<equiv> codec.truncate J"

definition optional_str :: "string option \<Rightarrow> pyval" where
  "optional_str s = (case s of None \<Rightarrow> PNone | Some t \<Rightarrow> PStr t)"

definition optional_int :: "int option \<Rightarrow> pyval" where
  "optional_int n = (case n of None \<Rightarrow> PNone | Some i \<Rightarrow> PInt i)"

definition raw_payload :: "dlq_record \<Rightarrow> (string, pyval) dict" where
  "raw_payload r =
     [(''pipeline_id'', PStr (q_pipeline_id r)), (''run_id'', PStr (q_run_id r)), (''stage'', PStr (q_stage r)),
      (''error_type'', PStr (q_error_type r)), (''error_message'', PStr (q_error_message r)),
      (''record'', q_record r), (''original_record'', q_original_record r),
      (''processed_record'', q_processed_record r), (''source'', optional_str (q_source r)),
      (''checkpoint'', q_checkpoint r), (''details'', q_details r),
      (''middleware'', optional_str (q_middleware r)), (''sink'', optional_str (q_sink r)),
      (''created_at'', PStr (q_created_at r)), (''attempt'', PInt (q_attempt r)),
      (''max_attempts'', optional_int (q_max_attempts r))]"

definition dict_of :: "pyval \<Rightarrow> (string, pyval) dict" where
  "dict_of v = (case v of PDict d \<Rightarrow> d | _ \<Rightarrow> [])"

definition record_to_payload ::
    "(pyval \<Rightarrow> string) \<Rightarrow> dlq_policy option \<Rightarrow> dlq_record \<Rightarrow> (string, pyval) dict" where
  "record_to_payload R policy r =
     (case policy of
        None \<Rightarrow> raw_payload r
      | Some p \<Rightarrow> dict_of (policy_apply R p (PDict (raw_payload r))))"

text \<open>\<^verbatim>\<open>payload[name]\<close>.\<close>

definition payload_item :: "(string, pyval) dict \<Rightarrow> string \<Rightarrow> pyval result" where
  "payload_item d k = (case dict_get d k of None \<Rightarrow> Inl (KeyError k) | Some v \<Rightarrow> Inr v)"

definition payload_str :: "(pyval \<Rightarrow> string) \<Rightarrow> (string, pyval) dict \<Rightarrow> string \<Rightarrow> string result" where
  "payload_str R d k = bindR (payload_item d k) (\<lambda>v. Inr (py_str R v))"

text \<open>\<^verbatim>\<open>str(payload[name]) if payload.get(name) is not None else None\<close>, and the same with \<^verbatim>\<open>int\<close>.\<close>

definition payload_optional_str :: "(pyval \<Rightarrow> string) \<Rightarrow> (string, pyval) dict \<Rightarrow> string \<Rightarrow> string option" where
  "payload_optional_str R d k =
     (case dict_getd d k PNone of PNone \<Rightarrow> None | v \<Rightarrow> Some (py_str R v))"

definition payload_optional_int :: "(string, pyval) dict \<Rightarrow> string \<Rightarrow> int option result" where
  "payload_optional_int d k =
     (case dict_getd d k PNone of PNone \<Rightarrow> Inr None | v \<Rightarrow> bindR (py_int v) (\<lambda>i. Inr (Some i)))"

definition payload_to_record :: "dlq_codec \<Rightarrow> (string, pyval) dict \<Rightarrow> dlq_record result" where
  "payload_to_record J d =
     (let R = cd_repr J in
      bindR (payload_str R d ''pipeline_id'') (\<lambda>pipeline_id.
      bindR (payload_str R d ''run_id'') (\<lambda>run_id.
      bindR (payload_str R d ''stage'') (\<lambda>stage.
      bindR (payload_str R d ''error_type'') (\<lambda>error_type.
      bindR (payload_str R d ''error_message'') (\<lambda>error_message.
      bindR (bindR (payload_str R d ''created_at'') (qc_fromisoformat J)) (\<lambda>created_at.
      bindR (py_int (dict_getd d ''attempt'' (PInt 0))) (\<lambda>attempt.
      bindR (payload_optional_int d ''max_attempts'') (\<lambda>max_attempts.
        Inr \<lparr>q_pipeline_id = pipeline_id, q_run_id = run_id, q_stage = stage, q_error_type = error_type,
             q_error_message = error_message, q_record = dict_getd d ''record'' PNone,
             q_original_record = dict_getd d ''original_record'' PNone,
             q_processed_record = dict_getd d ''processed_record'' PNone,
             q_source = payload_optional_str R d ''source'', q_checkpoint = dict_getd d ''checkpoint'' PNone,
             q_details = dict_getd d ''details'' PNone, q_middleware = payload_optional_str R d ''middleware'',
             q_sink = payload_optional_str R d ''sink'', q_created_at = created_at, q_attempt = attempt,
             q_max_attempts = max_attempts, q_storage_id = None\<rparr>)))))))))"

section \<open>Storage keys\<close>

text \<open>A key is text, or bytes with their UTF-8 decoding if there is one and their hexadecimal form.\<close>

datatype storage_value = KeyText string | KeyBytes "string option" string

fun storage_key_from_value :: "storage_value \<Rightarrow> string" where
  "storage_key_from_value (KeyText s) = s"
| "storage_key_from_value (KeyBytes (Some s) _) = s"
| "storage_key_from_value (KeyBytes None hex) = hex"

definition key_prefix_of :: "dlq_record \<Rightarrow> string" where
  "key_prefix_of r =
     q_pipeline_id r @ '':'' @ q_run_id r @ '':'' @ q_stage r @ '':'' @ q_created_at r @ '':''"

definition default_storage_key :: "string \<Rightarrow> dlq_record \<Rightarrow> string" where
  "default_storage_key uuid r = key_prefix_of r @ uuid"

definition legacy_storage_key :: "dlq_codec \<Rightarrow> dlq_record \<Rightarrow> string" where
  "legacy_storage_key J r = key_prefix_of r @ qc_sha256_hex J (qc_canonical_json J (PDict (raw_payload r)))"

definition record_storage_key ::
    "string \<Rightarrow> (dlq_record \<Rightarrow> storage_value) option \<Rightarrow> dlq_record \<Rightarrow> string" where
  "record_storage_key uuid key_fn r =
     (case q_storage_id r of
        Some s \<Rightarrow>
          if s \<noteq> [] then s
          else (case key_fn of None \<Rightarrow> default_storage_key uuid r | Some f \<Rightarrow> storage_key_from_value (f r))
      | None \<Rightarrow> (case key_fn of None \<Rightarrow> default_storage_key uuid r | Some f \<Rightarrow> storage_key_from_value (f r)))"

definition record_headers :: "string \<Rightarrow> dlq_record option \<Rightarrow> string \<Rightarrow> (string \<times> string) list" where
  "record_headers storage_key r operation =
     [(''dlq_operation'', operation), (''dlq_storage_key'', storage_key)] @
     (case r of
        None \<Rightarrow> []
      | Some q \<Rightarrow> [(''pipeline_id'', q_pipeline_id q), (''stage'', q_stage q), (''error_type'', q_error_type q)])"

section \<open>Envelopes\<close>

text \<open>\<^verbatim>\<open>envelope.update(...)\<close>.\<close>

definition dict_update :: "('k, 'v) dict \<Rightarrow> ('k, 'v) dict \<Rightarrow> ('k, 'v) dict" where
  "dict_update d e = fold (\<lambda>(k, v). dict_set k v) e d"

definition encode_dlq_envelope ::
    "dlq_codec \<Rightarrow> string \<Rightarrow> string \<Rightarrow> dlq_record option \<Rightarrow> dlq_policy option \<Rightarrow> (string, pyval) dict result" where
  "encode_dlq_envelope J storage_key operation r policy =
     (let envelope = [(''op'', PStr operation), (''storage_key'', PStr storage_key)] in
      case r of
        None \<Rightarrow> Inr envelope
      | Some q \<Rightarrow>
          let payload = record_to_payload (cd_repr J) policy q in
          (case policy of
             Some p \<Rightarrow>
               if dp_mode p = ''encrypted''
               then bindR (encrypt_payload (codec_of J) p (PDict payload)) (\<lambda>e. Inr (dict_update envelope e))
               else Inr (dict_set ''payload'' (PDict payload) envelope)
           | None \<Rightarrow> Inr (dict_set ''payload'' (PDict payload) envelope)))"

text \<open>
  A stored payload that is not an object is used as one in the code and fails at its first lookup;
  that is the \<^verbatim>\<open>TypeError\<close> here.
\<close>

definition as_dict :: "pyval \<Rightarrow> (string, pyval) dict result" where
  "as_dict v = (case v of PDict d \<Rightarrow> Inr d | _ \<Rightarrow> Inl (TypeError ''payload is not an object''))"

definition decode_stored_payload ::
    "dlq_codec \<Rightarrow> dlq_policy option \<Rightarrow> (string, pyval) dict \<Rightarrow> (string, pyval) dict option result" where
  "decode_stored_payload J policy d =
     (case dict_get d ''payload'' of
        Some PNone \<Rightarrow> Inr None
      | Some v \<Rightarrow> bindR (as_dict v) (\<lambda>p. Inr (Some p))
      | None \<Rightarrow>
          if dict_get d ''payload_encoding'' = Some (PStr ''encrypted'') then
            (case policy of
               None \<Rightarrow> Inl (ValueError ''Encrypted Kafka DLQ payload requires a DLQPayloadPolicy.'')
             | Some p \<Rightarrow> bindR (bindR (decrypt_payload (codec_of J) p d) as_dict) (\<lambda>x. Inr (Some x)))
          else Inr None)"

text \<open>\<open>decode_dlq_envelope\<close> on the object the message's JSON text denotes.\<close>

definition decode_dlq_envelope ::
    "dlq_codec \<Rightarrow> dlq_policy option \<Rightarrow> (string, pyval) dict \<Rightarrow> (string \<times> string \<times> dlq_record option) result" where
  "decode_dlq_envelope J policy decoded =
     (case dict_get decoded ''op'' of
        Some op \<Rightarrow>
          let operation = py_str (cd_repr J) op in
          bindR (payload_str (cd_repr J) decoded ''storage_key'') (\<lambda>storage_key.
          bindR (decode_stored_payload J policy decoded) (\<lambda>stored.
            case stored of
              None \<Rightarrow> Inr (operation, storage_key, None)
            | Some d \<Rightarrow>
                bindR (payload_to_record J d) (\<lambda>q.
                  Inr (operation, storage_key, Some (q\<lparr>q_storage_id := Some storage_key\<rparr>)))))
      | None \<Rightarrow>
          bindR (payload_to_record J decoded) (\<lambda>q.
            let storage_key = legacy_storage_key J q
            in Inr (''put'', storage_key, Some (q\<lparr>q_storage_id := Some storage_key\<rparr>))))"

section \<open>Round trips\<close>

text \<open>The creation time is the text of a datetime.\<close>

definition wf_record :: "dlq_codec \<Rightarrow> dlq_record \<Rightarrow> bool" where
  "wf_record J q \<longleftrightarrow> qc_fromisoformat J (q_created_at q) = Inr (q_created_at q)"

lemma payload_to_record_raw:
  assumes "wf_record J q"
  shows "payload_to_record J (raw_payload q) = Inr (q\<lparr>q_storage_id := None\<rparr>)"
  using assms
  by (cases "q_source q"; cases "q_middleware q"; cases "q_sink q"; cases "q_max_attempts q")
    (simp_all add: payload_to_record_def raw_payload_def payload_str_def payload_item_def wf_record_def
      payload_optional_str_def payload_optional_int_def dict_getd_def optional_str_def optional_int_def)

text \<open>
  What a policy leaves of a record: nothing changes unless it redacts; otherwise every field named by the
  policy holds the marker and the contents of the others are redacted.
\<close>

definition stored_str :: "dlq_policy \<Rightarrow> string \<Rightarrow> string \<Rightarrow> string" where
  "stored_str p k s = (if k \<in> policy_field_names p then dp_redacted_value p else s)"

definition stored_optional :: "dlq_policy \<Rightarrow> string \<Rightarrow> string option \<Rightarrow> string option" where
  "stored_optional p k s = (if k \<in> policy_field_names p then Some (dp_redacted_value p) else s)"

definition stored_field :: "(pyval \<Rightarrow> string) \<Rightarrow> dlq_policy \<Rightarrow> string \<Rightarrow> pyval \<Rightarrow> pyval" where
  "stored_field R p k v =
     (if k \<in> policy_field_names p then PStr (dp_redacted_value p)
      else redact_value R (policy_field_names p) (policy_header_names p) (dp_redacted_value p) (Some k) v)"

definition redacts :: "dlq_policy option \<Rightarrow> bool" where
  "redacts policy \<longleftrightarrow> (case policy of None \<Rightarrow> False | Some p \<Rightarrow> dp_mode p \<noteq> ''raw'' \<and> dp_mode p \<noteq> ''encrypted'')"

definition redact_record :: "(pyval \<Rightarrow> string) \<Rightarrow> dlq_policy \<Rightarrow> dlq_record \<Rightarrow> dlq_record" where
  "redact_record R p q =
     \<lparr>q_pipeline_id = stored_str p ''pipeline_id'' (q_pipeline_id q), q_run_id = stored_str p ''run_id'' (q_run_id q),
      q_stage = stored_str p ''stage'' (q_stage q), q_error_type = stored_str p ''error_type'' (q_error_type q),
      q_error_message = stored_str p ''error_message'' (q_error_message q),
      q_record = stored_field R p ''record'' (q_record q),
      q_original_record = stored_field R p ''original_record'' (q_original_record q),
      q_processed_record = stored_field R p ''processed_record'' (q_processed_record q),
      q_source = stored_optional p ''source'' (q_source q), q_checkpoint = stored_field R p ''checkpoint'' (q_checkpoint q),
      q_details = stored_field R p ''details'' (q_details q),
      q_middleware = stored_optional p ''middleware'' (q_middleware q), q_sink = stored_optional p ''sink'' (q_sink q),
      q_created_at = q_created_at q, q_attempt = q_attempt q, q_max_attempts = q_max_attempts q,
      q_storage_id = q_storage_id q\<rparr>"

definition stored_record :: "(pyval \<Rightarrow> string) \<Rightarrow> dlq_policy option \<Rightarrow> dlq_record \<Rightarrow> dlq_record" where
  "stored_record R policy q = (case policy of Some p \<Rightarrow> if redacts policy then redact_record R p q else q | None \<Rightarrow> q)"

text \<open>The policy leaves the three fields alone that are parsed again when a record is read.\<close>

definition keeps_parsed_fields :: "dlq_policy option \<Rightarrow> bool" where
  "keeps_parsed_fields policy \<longleftrightarrow>
     (case policy of None \<Rightarrow> True
      | Some p \<Rightarrow> \<not> redacts policy \<or> policy_field_names p \<inter> {''created_at'', ''attempt'', ''max_attempts''} = {})"

lemma payload_keys_normal [simp]:
  "normalize_sensitive_name ''pipeline_id'' = ''pipeline_id''" "normalize_sensitive_name ''run_id'' = ''run_id''"
  "normalize_sensitive_name ''stage'' = ''stage''" "normalize_sensitive_name ''error_type'' = ''error_type''"
  "normalize_sensitive_name ''error_message'' = ''error_message''" "normalize_sensitive_name ''record'' = ''record''"
  "normalize_sensitive_name ''original_record'' = ''original_record''"
  "normalize_sensitive_name ''processed_record'' = ''processed_record''"
  "normalize_sensitive_name ''source'' = ''source''" "normalize_sensitive_name ''checkpoint'' = ''checkpoint''"
  "normalize_sensitive_name ''details'' = ''details''" "normalize_sensitive_name ''middleware'' = ''middleware''"
  "normalize_sensitive_name ''sink'' = ''sink''" "normalize_sensitive_name ''created_at'' = ''created_at''"
  "normalize_sensitive_name ''attempt'' = ''attempt''" "normalize_sensitive_name ''max_attempts'' = ''max_attempts''"
  by code_simp+

lemma redact_raw_payload:
  assumes "policy_field_names p \<inter> {''created_at'', ''attempt'', ''max_attempts''} = {}"
  shows "redact_value R (policy_field_names p) (policy_header_names p) (dp_redacted_value p) None (PDict (raw_payload q)) =
    PDict (raw_payload (redact_record R p q))"
  using assms
  by (cases "q_source q"; cases "q_middleware q"; cases "q_sink q"; cases "q_max_attempts q")
    (simp_all add: raw_payload_def redact_record_def stored_str_def stored_optional_def stored_field_def
      optional_str_def optional_int_def)

lemma record_to_payload_stored:
  "keeps_parsed_fields policy \<Longrightarrow> record_to_payload R policy q = raw_payload (stored_record R policy q)"
  by (cases policy)
    (auto simp: record_to_payload_def stored_record_def keeps_parsed_fields_def redacts_def policy_apply_def
      redact_raw_payload dict_of_def simp del: redact_value.simps)

lemma stored_record_fields [simp]:
  "q_created_at (stored_record R policy q) = q_created_at q"
  "q_storage_id (stored_record R policy q) = q_storage_id q"
  "q_attempt (stored_record R policy q) = q_attempt q"
  by (simp_all add: stored_record_def redact_record_def split: option.split)

lemma wf_stored_record [simp]: "wf_record J (stored_record R policy q) \<longleftrightarrow> wf_record J q"
  by (simp add: wf_record_def)

lemma payload_to_record_stored:
  assumes "wf_record J q" "keeps_parsed_fields policy"
  shows "payload_to_record J (record_to_payload R policy q) = Inr ((stored_record R policy q)\<lparr>q_storage_id := None\<rparr>)"
  using assms by (simp add: record_to_payload_stored payload_to_record_raw)

definition plain_policy :: "(pyval \<Rightarrow> string) \<Rightarrow> dlq_policy option \<Rightarrow> bool" where
  "plain_policy R policy \<longleftrightarrow> (case policy of None \<Rightarrow> True | Some p \<Rightarrow> plain_names R (policy_header_names p))"

lemma stored_record_idem:
  assumes "plain_policy R policy"
  shows "stored_record R policy (stored_record R policy q) = stored_record R policy q"
proof (cases policy)
  case (Some p)
  with assms have "stored_field R p k (stored_field R p k v) = stored_field R p k v" for k v
    by (simp add: stored_field_def plain_policy_def redact_idem)
  with Some show ?thesis
    by (simp add: stored_record_def redact_record_def stored_str_def stored_optional_def)
qed (simp add: stored_record_def)

text \<open>
  An encrypting policy dumps with \<^verbatim>\<open>sort_keys=True\<close>: what is loaded again has the same entries in the order of
  their keys.
\<close>

fun json_sorted :: "pyval \<Rightarrow> pyval" where
  "json_sorted (PDict d) = PDict (sort_key fst (map (\<lambda>e. (fst e, json_sorted (snd e))) d))"
| "json_sorted (PList xs) = PList (map json_sorted xs)"
| "json_sorted v = v"

definition sorted_record :: "dlq_record \<Rightarrow> dlq_record" where
  "sorted_record q =
     q\<lparr>q_record := json_sorted (q_record q), q_original_record := json_sorted (q_original_record q),
       q_processed_record := json_sorted (q_processed_record q), q_checkpoint := json_sorted (q_checkpoint q),
       q_details := json_sorted (q_details q)\<rparr>"

definition encrypts :: "dlq_policy option \<Rightarrow> bool" where
  "encrypts policy \<longleftrightarrow> (case policy of None \<Rightarrow> False | Some p \<Rightarrow> dp_mode p = ''encrypted'')"

text \<open>The record that is read back when \<open>q\<close> was written.\<close>

definition read_back :: "(pyval \<Rightarrow> string) \<Rightarrow> dlq_policy option \<Rightarrow> dlq_record \<Rightarrow> dlq_record" where
  "read_back R policy q = (if encrypts policy then sorted_record q else stored_record R policy q)"

lemma dict_get_sorted: "distinct (dict_keys d) \<Longrightarrow> dict_get (sort_key fst d) = dict_get d"
proof -
  assume d: "distinct (dict_keys d)"
  have "mset (map fst (sort_key fst d)) = mset (map fst d)" by (simp only: mset_map mset_sort)
  with d have "distinct (map fst (sort_key fst d))" using mset_eq_imp_distinct_iff by blast
  with d show ?thesis by (simp add: map_of_inject_set)
qed

lemma raw_payload_keys_distinct: "distinct (dict_keys (raw_payload q))"
  by (simp add: raw_payload_def)

lemma payload_to_record_sorted:
  assumes "wf_record J q" "json_sorted (PDict (raw_payload q)) = PDict d"
  shows "payload_to_record J d = Inr ((sorted_record q)\<lparr>q_storage_id := None\<rparr>)"
proof -
  have "raw_payload (sorted_record q) = map (\<lambda>e. (fst e, json_sorted (snd e))) (raw_payload q)"
    by (cases "q_source q"; cases "q_middleware q"; cases "q_sink q"; cases "q_max_attempts q")
      (simp_all add: raw_payload_def sorted_record_def optional_str_def optional_int_def)
  then have "d = sort_key fst (raw_payload (sorted_record q))"
    using assms(2) by simp
  then have "dict_get d = dict_get (raw_payload (sorted_record q))"
    by (simp only: dict_get_sorted raw_payload_keys_distinct)
  then have "payload_to_record J d = payload_to_record J (raw_payload (sorted_record q))"
    by (simp add: payload_to_record_def payload_str_def payload_item_def payload_optional_str_def
        payload_optional_int_def dict_getd_def)
  also have "\<dots> = Inr ((sorted_record q)\<lparr>q_storage_id := None\<rparr>)"
    by (rule payload_to_record_raw) (use assms(1) in \<open>simp add: wf_record_def sorted_record_def\<close>)
  finally show ?thesis .
qed

text \<open>What the policy's cipher and the codecs promise for the payloads of the records in \<open>Q\<close>.\<close>

definition cipher_inverse :: "dlq_codec \<Rightarrow> dlq_policy option \<Rightarrow> dlq_record set \<Rightarrow> bool" where
  "cipher_inverse J policy Q \<longleftrightarrow>
     (\<forall>p. policy = Some p \<and> dp_mode p = ''encrypted'' \<longrightarrow>
          (\<exists>enc dec. dp_encryptor p = Some enc \<and> (case dp_decryptor p of Some c \<Rightarrow> c | None \<Rightarrow> enc) = dec \<and>
            (\<forall>t b. ci_encrypt enc t = CipherBytes b \<or> ci_encrypt enc t = CipherText b \<longrightarrow> ci_decrypt dec b = t)) \<and>
          (\<forall>q\<in>Q. cd_json_loads J (cd_json_dumps J (PDict (raw_payload q))) = Inr (json_sorted (PDict (raw_payload q)))) \<and>
          (\<forall>b. cd_b64decode J (cd_b64encode J b) = Inr b))"

lemma encrypted_payload_shape:
  assumes "encrypt_payload (codec_of J) p (PDict (raw_payload q)) = Inr e" "cipher_inverse J (Some p) Q" "q \<in> Q"
  shows "decrypt_payload (codec_of J) p (dict_update env e) = Inr (json_sorted (PDict (raw_payload q)))"
    "dict_get (dict_update env e) ''payload_encoding'' = Some (PStr ''encrypted'')"
    "dict_get (dict_update env e) ''op'' = dict_get env ''op''"
    "dict_get (dict_update env e) ''storage_key'' = dict_get env ''storage_key''"
    "dict_get (dict_update env e) ''payload'' = dict_get env ''payload''"
    "dict_get (dict_update env e) ''pipeline_id'' = dict_get env ''pipeline_id''"
  using assms
  by (auto simp: encrypt_payload_def decrypt_payload_def cipher_inverse_def dict_update_def codec.defs result_simps
    split: option.splits if_splits cipher_output.splits simp del: json_sorted.simps)

lemma decode_encrypted:
  assumes "encrypt_payload (codec_of J) p (PDict (raw_payload q)) = Inr e" "cipher_inverse J (Some p) Q" "q \<in> Q"
    "wf_record J q" "dict_get env ''payload'' = None"
  obtains d where "decode_stored_payload J (Some p) (dict_update env e) = Inr (Some d)"
    "payload_to_record J d = Inr ((sorted_record q)\<lparr>q_storage_id := None\<rparr>)"
proof -
  obtain d where d: "json_sorted (PDict (raw_payload q)) = PDict d" by simp
  show thesis
    using that encrypted_payload_shape [OF assms(1-3), of env] payload_to_record_sorted [OF assms(4) d] assms(5) d
    by (simp add: decode_stored_payload_def as_dict_def del: json_sorted.simps)
qed

lemma decode_encoded_put:
  assumes "wf_record J q" "keeps_parsed_fields policy" "cipher_inverse J policy {q}"
    and enc: "encode_dlq_envelope J key operation (Some q) policy = Inr env"
  shows "decode_dlq_envelope J policy env =
    Inr (operation, key, Some ((read_back (cd_repr J) policy q)\<lparr>q_storage_id := Some key\<rparr>))"
proof -
  let ?head = "[(''op'', PStr operation), (''storage_key'', PStr key)]"
  note decode = decode_dlq_envelope_def payload_str_def payload_item_def read_back_def
  show ?thesis
  proof (cases "encrypts policy")
    case True
    then obtain p e where p: "policy = Some p" "dp_mode p = ''encrypted''"
      and e: "encrypt_payload (codec_of J) p (PDict (raw_payload q)) = Inr e" and env: "env = dict_update ?head e"
      using enc by (auto simp: encode_dlq_envelope_def Let_def result_simps encrypts_def record_to_payload_def
          policy_apply_def dict_of_def split: option.splits)
    note inv = assms(3) [unfolded p(1)]
    obtain d where "decode_stored_payload J policy env = Inr (Some d)"
        "payload_to_record J d = Inr ((sorted_record q)\<lparr>q_storage_id := None\<rparr>)"
      by (rule decode_encrypted [OF e inv _ assms(1), of ?head]) (use p env in simp_all)
    then show ?thesis
      using encrypted_payload_shape [OF e inv, of ?head] env True by (simp add: decode)
  next
    case False
    then have "env = ?head @ [(''payload'', PDict (record_to_payload (cd_repr J) policy q))]"
      using enc by (cases policy) (auto simp: encode_dlq_envelope_def encrypts_def Let_def result_simps)
    then show ?thesis
      using False payload_to_record_stored [OF assms(1,2), of "cd_repr J"]
      by (simp add: decode decode_stored_payload_def as_dict_def)
  qed
qed

lemma encode_raises:
  assumes "cipher_inverse J policy Q" "encode_dlq_envelope J key operation r policy = Inl e"
  shows "r \<noteq> None \<and> (\<exists>p enc v. policy = Some p \<and> dp_mode p = ''encrypted'' \<and> dp_encryptor p = Some enc \<and>
    ci_encrypt enc (cd_json_dumps J v) = CipherOther) \<and> exn_name e = ''TypeError''"
  using assms
  by (auto simp: encode_dlq_envelope_def Let_def result_simps encrypt_payload_def cipher_inverse_def codec.defs
    split: option.splits if_splits cipher_output.splits)

section \<open>Properties\<close>

text \<open>
  C35: reading back a dead-letter envelope.  What \<open>encode_dlq_envelope\<close> writes for a record decodes to the same
  operation, the same storage key and the record the policy stores (for an
  encrypting policy with its dictionaries in key order), carrying the storage key as its
  identifier; an envelope without a record decodes to none.  Encoding raises only when the encryptor returns
  neither bytes nor text.
\<close>

theorem envelope_roundtrip:
  assumes "wf_record J q" "keeps_parsed_fields policy" "cipher_inverse J policy {q}"
  shows "(case encode_dlq_envelope J key operation (Some q) policy of
      Inl e \<Rightarrow> exn_name e = ''TypeError'' \<and> (\<exists>p enc v. policy = Some p \<and> dp_mode p = ''encrypted'' \<and>
        dp_encryptor p = Some enc \<and> ci_encrypt enc (cd_json_dumps J v) = CipherOther)
    | Inr env \<Rightarrow> decode_dlq_envelope J policy env =
        Inr (operation, key, Some ((read_back (cd_repr J) policy q)\<lparr>q_storage_id := Some key\<rparr>))) \<and>
    (case encode_dlq_envelope J key operation None policy of
      Inl e \<Rightarrow> False | Inr env \<Rightarrow> decode_dlq_envelope J policy env = Inr (operation, key, None))"
proof
  show "case encode_dlq_envelope J key operation None policy of
      Inl e \<Rightarrow> False | Inr env \<Rightarrow> decode_dlq_envelope J policy env = Inr (operation, key, None)"
    by (simp add: encode_dlq_envelope_def decode_dlq_envelope_def decode_stored_payload_def payload_str_def payload_item_def)
qed (use decode_encoded_put [OF assms] encode_raises [OF assms(3)] in \<open>auto split: sum.split\<close>)

definition sample_record :: dlq_record where
  "sample_record =
     \<lparr>q_pipeline_id = ''p'', q_run_id = ''r'', q_stage = ''sink'', q_error_type = ''ValueError'',
      q_error_message = ''bad'', q_record = PDict [(''Token'', PStr ''abc''), (''id'', PInt 7)],
      q_original_record = PNone, q_processed_record = PNone, q_source = Some ''kafka'', q_checkpoint = PNone,
      q_details = PNone, q_middleware = None, q_sink = None, q_created_at = ''2024-01-01T00:00:00+00:00'',
      q_attempt = 1, q_max_attempts = Some 3, q_storage_id = None\<rparr>"

definition sample_dlq_codec :: dlq_codec where
  "sample_dlq_codec =
     \<lparr>cd_json_dumps = (\<lambda>_. ''payload''), cd_json_loads = (\<lambda>_. Inr (json_sorted (PDict (raw_payload sample_record)))), cd_b64encode = (\<lambda>b. b),
      cd_b64decode = (\<lambda>b. Inr b), cd_repr = (\<lambda>_. ''{}''), qc_fromisoformat = Inr,
      qc_sha256_hex = (\<lambda>s. s), qc_canonical_json = (\<lambda>_. ''{}'')\<rparr>"

definition encrypting_policy :: dlq_policy where
  "encrypting_policy = sample_policy\<lparr>dp_mode := ''encrypted'', dp_encryptor := Some reversing_cipher\<rparr>"

lemma sample_record_ok [simp]:
  "wf_record sample_dlq_codec sample_record" "keeps_parsed_fields (Some sample_policy)"
  "cipher_inverse sample_dlq_codec (Some sample_policy) Q" "keeps_parsed_fields (Some encrypting_policy)"
  "cipher_inverse sample_dlq_codec (Some encrypting_policy) {sample_record}"
proof -
  show "wf_record sample_dlq_codec sample_record"
    by (simp add: wf_record_def sample_dlq_codec_def)
  have "policy_field_names sample_policy \<inter> {''created_at'', ''attempt'', ''max_attempts''} = {}"
    by (simp add: policy_field_names_def sample_policy_def COMMON_SENSITIVE_FIELDS_def)
  then show "keeps_parsed_fields (Some sample_policy)" "keeps_parsed_fields (Some encrypting_policy)"
    by (simp_all add: keeps_parsed_fields_def redacts_def encrypting_policy_def)
  show "cipher_inverse sample_dlq_codec (Some sample_policy) Q"
    by (simp add: cipher_inverse_def sample_policy_def)
  show "cipher_inverse sample_dlq_codec (Some encrypting_policy) {sample_record}"
    by (auto simp: cipher_inverse_def encrypting_policy_def sample_policy_def reversing_cipher_def sample_dlq_codec_def
        simp del: json_sorted.simps)
qed

theorem envelope_roundtrip_witness:
  "(\<exists>env q. encode_dlq_envelope sample_dlq_codec ''k1'' ''put'' (Some sample_record) (Some sample_policy) = Inr env \<and>
    decode_dlq_envelope sample_dlq_codec (Some sample_policy) env = Inr (''put'', ''k1'', Some q) \<and>
    q_storage_id q = Some ''k1'' \<and> q_record q = PDict [(''Token'', PStr ''[REDACTED]''), (''id'', PInt 7)]) \<and>
   (\<exists>env q. encode_dlq_envelope sample_dlq_codec ''k2'' ''put'' (Some sample_record) (Some encrypting_policy) = Inr env \<and>
    decode_dlq_envelope sample_dlq_codec (Some encrypting_policy) env = Inr (''put'', ''k2'', Some q) \<and>
    q_record q = PDict [(''Token'', PStr ''abc''), (''id'', PInt 7)])"
proof -
  obtain env where env: "encode_dlq_envelope sample_dlq_codec ''k1'' ''put'' (Some sample_record) (Some sample_policy) = Inr env"
    by (simp add: encode_dlq_envelope_def sample_policy_def Let_def)
  obtain env' where env': "encode_dlq_envelope sample_dlq_codec ''k2'' ''put'' (Some sample_record) (Some encrypting_policy) = Inr env'"
    by (simp add: encode_dlq_envelope_def encrypting_policy_def sample_policy_def Let_def encrypt_payload_def
        reversing_cipher_def codec.defs sample_dlq_codec_def)
  have "q_record (read_back (cd_repr sample_dlq_codec) (Some sample_policy) sample_record) =
      PDict [(''Token'', PStr ''[REDACTED]''), (''id'', PInt 7)]"
    "q_record (read_back (cd_repr sample_dlq_codec) (Some encrypting_policy) sample_record) =
      PDict [(''Token'', PStr ''abc''), (''id'', PInt 7)]"
    by code_simp+
  then show ?thesis
    using envelope_roundtrip [of sample_dlq_codec sample_record "Some sample_policy" "''put''" "''k1''"] env
      envelope_roundtrip [of sample_dlq_codec sample_record "Some encrypting_policy" "''put''" "''k2''"] env'
    by auto
qed

end
