(* ===== verification/DLQ_Compaction.thy ===== *)
theory DLQ_Compaction
  imports DLQ_Records
begin

text \<open>
  The compaction of a dead-letter topic (\<^verbatim>\<open>kafka/_dlq_compaction.py\<close>): the latest state of every storage
  key, in a dictionary and, once the dictionary has grown to the spill threshold, in an SQLite table.  The
  table is a dictionary from the primary key to the other columns, in order of insertion; a payload column
  holds the object its JSON text denotes.
\<close>

section \<open>State\<close>

type_synonym compaction_entry = "int \<times> dlq_record option"

record compaction_row =
  cr_sequence :: int
  cr_payload :: "(string, pyval) dict option"
  cr_deleted :: int

record compaction_state =
  cs_spill_threshold :: "int option"
  cs_payload_policy :: "dlq_policy option"
  cs_memory :: "(string, compaction_entry) dict"
  cs_conn :: "(string, compaction_row) dict option"

definition compaction_init :: "int option \<Rightarrow> dlq_policy option \<Rightarrow> compaction_state" where
  "compaction_init spill_threshold policy =
     \<lparr>cs_spill_threshold = spill_threshold, cs_payload_policy = policy, cs_memory = [], cs_conn = None\<rparr>"

section \<open>Payloads\<close>

definition apply_payload_policy :: "dlq_codec \<Rightarrow> dlq_policy option \<Rightarrow> dlq_record option \<Rightarrow> dlq_record option result" where
  "apply_payload_policy J policy r =
     (case r of
        None \<Rightarrow> Inr None
      | Some q \<Rightarrow>
          (case policy of
             None \<Rightarrow> Inr (Some q)
           | Some p \<Rightarrow>
               if dp_mode p = ''raw'' \<or> dp_mode p = ''encrypted'' then Inr (Some q)
               else bindR (payload_to_record J (record_to_payload (cd_repr J) policy q))
                      (\<lambda>redacted. Inr (Some (redacted\<lparr>q_storage_id := q_storage_id q\<rparr>)))))"

definition record_payload_json :: "dlq_codec \<Rightarrow> dlq_policy option \<Rightarrow> dlq_record \<Rightarrow> (string, pyval) dict result" where
  "record_payload_json J policy q =
     (let payload = record_to_payload (cd_repr J) policy q in
      case policy of
        Some p \<Rightarrow> if dp_mode p = ''encrypted'' then encrypt_payload (codec_of J) p (PDict payload) else Inr payload
      | None \<Rightarrow> Inr payload)"

definition decode_record_payload_json ::
    "dlq_codec \<Rightarrow> dlq_policy option \<Rightarrow> (string, pyval) dict \<Rightarrow> (string, pyval) dict result" where
  "decode_record_payload_json J policy payload =
     (if dict_get payload ''pipeline_id'' \<noteq> None then Inr payload
      else bindR (decode_stored_payload J policy payload) (\<lambda>decoded.
        case decoded of
          None \<Rightarrow> Inl (ValueError ''Kafka DLQ compaction payload is missing.'')
        | Some d \<Rightarrow> Inr d))"

text \<open>The columns of a row: \<^verbatim>\<open>None if record is None else self._record_payload_json(record)\<close>, \<^verbatim>\<open>int(record is None)\<close>.\<close>

definition row_of :: "dlq_codec \<Rightarrow> dlq_policy option \<Rightarrow> compaction_entry \<Rightarrow> compaction_row result" where
  "row_of J policy entry =
     (case snd entry of
        None \<Rightarrow> Inr \<lparr>cr_sequence = fst entry, cr_payload = None, cr_deleted = 1\<rparr>
      | Some q \<Rightarrow>
          bindR (record_payload_json J policy q) (\<lambda>payload.
            Inr \<lparr>cr_sequence = fst entry, cr_payload = Some payload, cr_deleted = 0\<rparr>))"

section \<open>Operations\<close>

text \<open>The plain \<^verbatim>\<open>INSERT\<close>s of the spill; a second row of a primary key is refused.\<close>

fun spill_rows ::
    "dlq_codec \<Rightarrow> dlq_policy option \<Rightarrow> (string, compaction_entry) dict \<Rightarrow> ((string, compaction_row) dict, unit) eff" where
  "spill_rows J policy [] t = (t, Inr ())"
| "spill_rows J policy ((storage_key, entry) # items) t =
     (case row_of J policy entry of
        Inl e \<Rightarrow> (t, Inl e)
      | Inr row \<Rightarrow>
          if dict_get t storage_key \<noteq> None
          then (t, Inl (Exn ''IntegrityError'' [''DatabaseError'', ''Error'', ''Exception''] ''UNIQUE constraint failed''))
          else spill_rows J policy items (t @ [(storage_key, row)]))"

definition spill_to_sqlite :: "dlq_codec \<Rightarrow> (compaction_state, unit) eff" where
  "spill_to_sqlite J st =
     (case spill_rows J (cs_payload_policy st) (cs_memory st) [] of
        (t, Inl e) \<Rightarrow> (st\<lparr>cs_conn := Some t\<rparr>, Inl e)
      | (t, Inr _) \<Rightarrow> (st\<lparr>cs_conn := Some t, cs_memory := []\<rparr>, Inr ()))"

definition should_spill :: "string \<Rightarrow> compaction_state \<Rightarrow> bool" where
  "should_spill storage_key st \<longleftrightarrow>
     (case cs_spill_threshold st of
        None \<Rightarrow> False
      | Some n \<Rightarrow> int (length (cs_memory st)) \<ge> n \<and> dict_get (cs_memory st) storage_key = None)"

text \<open>The second half of \<open>update\<close>: the dictionary, or the \<^verbatim>\<open>INSERT ... ON CONFLICT DO UPDATE\<close>.\<close>

definition store_entry :: "dlq_codec \<Rightarrow> string \<Rightarrow> compaction_entry \<Rightarrow> (compaction_state, unit) eff" where
  "store_entry J storage_key entry st =
     (case cs_conn st of
        None \<Rightarrow> (st\<lparr>cs_memory := dict_set storage_key entry (cs_memory st)\<rparr>, Inr ())
      | Some t \<Rightarrow>
          (case row_of J (cs_payload_policy st) entry of
             Inl e \<Rightarrow> (st, Inl e)
           | Inr row \<Rightarrow> (st\<lparr>cs_conn := Some (dict_set storage_key row t)\<rparr>, Inr ())))"

definition compaction_update :: "dlq_codec \<Rightarrow> int \<Rightarrow> string \<Rightarrow> dlq_record option \<Rightarrow> (compaction_state, unit) eff" where
  "compaction_update J sequence storage_key r st =
     (case apply_payload_policy J (cs_payload_policy st) r of
        Inl e \<Rightarrow> (st, Inl e)
      | Inr stored \<Rightarrow>
          thenE (if cs_conn st = None \<and> should_spill storage_key st then spill_to_sqlite J else returnE ())
            (store_entry J storage_key (sequence, stored)) st)"

text \<open>The loop of \<open>live_records\<close> over the selected rows.\<close>

fun decode_rows ::
    "dlq_codec \<Rightarrow> dlq_policy option \<Rightarrow> (string \<times> int \<times> (string, pyval) dict) list \<Rightarrow> (int \<times> dlq_record) list result" where
  "decode_rows J policy [] = Inr []"
| "decode_rows J policy ((storage_key, sequence, payload) # rows) =
     bindR (decode_record_payload_json J policy payload) (\<lambda>record_payload.
     bindR (payload_to_record J record_payload) (\<lambda>r.
     bindR (decode_rows J policy rows) (\<lambda>records.
       Inr ((sequence, r\<lparr>q_storage_id := Some storage_key\<rparr>) # records))))"

definition live_records :: "dlq_codec \<Rightarrow> compaction_state \<Rightarrow> (int \<times> dlq_record) list result" where
  "live_records J st =
     (case cs_conn st of
        None \<Rightarrow>
          Inr (sort_key fst (map (\<lambda>e. (fst (snd e), the (snd (snd e))))
                 (filter (\<lambda>e. snd (snd e) \<noteq> None) (cs_memory st))))
      | Some t \<Rightarrow>
          decode_rows J (cs_payload_policy st)
            (sort_key (\<lambda>row. fst (snd row))
              (map (\<lambda>e. (fst e, cr_sequence (snd e), the (cr_payload (snd e))))
                (filter (\<lambda>e. cr_deleted (snd e) = 0 \<and> cr_payload (snd e) \<noteq> None) t))))"

definition compaction_close :: "compaction_state \<Rightarrow> compaction_state" where
  "compaction_close st = (if cs_conn st \<noteq> None then st\<lparr>cs_conn := None\<rparr> else st)"

section \<open>The interface of a compacting store\<close>

text \<open>
  The specification: a dictionary from storage keys to the sequence number and the record of their last
  update, and its live records in order of sequence.
\<close>

abbreviation entry_seq :: "string \<times> int \<times> 'r option \<Rightarrow> int" where
  "entry_seq e \<equiv> fst (snd e)"

definition live_of :: "(string, int \<times> 'r option) dict \<Rightarrow> (int \<times> 'r) list" where
  "live_of m =
     map (\<lambda>e. (entry_seq e, the (snd (snd e)))) (filter (\<lambda>e. snd (snd e) \<noteq> None) (sort_key entry_seq m))"

text \<open>The updates that no later update of the same key overrides, by position.\<close>

definition survivors :: "(string \<times> 'r option) list \<Rightarrow> nat list" where
  "survivors ops = filter (\<lambda>i. fst (ops ! i) \<notin> fst ` set (drop (Suc i) ops)) [0..<length ops]"

definition last_puts :: "(string \<times> 'r option) list \<Rightarrow> (int \<times> 'r) list" where
  "last_puts ops =
     map (\<lambda>i. (int i, the (snd (ops ! i)))) (filter (\<lambda>i. snd (ops ! i) \<noteq> None) (survivors ops))"

text \<open>Updates with consecutive sequence numbers, as a scan makes them.\<close>

fun feed ::
    "(int \<Rightarrow> string \<Rightarrow> 'r option \<Rightarrow> ('s, unit) eff) \<Rightarrow> int \<Rightarrow> (string \<times> 'r option) list \<Rightarrow> ('s, unit) eff" where
  "feed upd n [] st = (st, Inr ())"
| "feed upd n ((k, r) # ops) st = thenE (upd n k r) (feed upd (n + 1) ops) st"

lemma feed_append: "feed upd n (ops @ ops') st = thenE (feed upd n ops) (feed upd (n + int (length ops)) ops') st"
  by (induction ops arbitrary: n st) (auto simp: thenE_def bindE_def add.assoc split: prod.splits sum.splits)

lemma survivors_snoc:
  "survivors (ops @ [(k, r)]) = filter (\<lambda>i. fst (ops ! i) \<noteq> k) (survivors ops) @ [length ops]"
proof -
  have "survivors (ops @ [(k, r)]) =
      filter (\<lambda>i. fst ((ops @ [(k, r)]) ! i) \<notin> fst ` set (drop (Suc i) (ops @ [(k, r)]))) [0..<length ops] @ [length ops]"
    by (simp add: survivors_def)
  also have "filter (\<lambda>i. fst ((ops @ [(k, r)]) ! i) \<notin> fst ` set (drop (Suc i) (ops @ [(k, r)]))) [0..<length ops] =
      filter (\<lambda>i. fst (ops ! i) \<noteq> k \<and> fst (ops ! i) \<notin> fst ` set (drop (Suc i) ops)) [0..<length ops]"
    by (rule filter_cong) (auto simp: nth_append)
  finally show ?thesis by (simp add: survivors_def conj_commute)
qed

lemma dict_set_mset:
  "dict_wf m \<Longrightarrow> mset (dict_set k v m) = mset (filter (\<lambda>e. fst e \<noteq> k) m) + {#(k, v)#}"
proof (induction m)
  case (Cons e m)
  show ?case
  proof (cases "fst e = k")
    case True
    with Cons.prems have "\<forall>e\<in>set m. fst e \<noteq> k" by (auto simp: dict_wf_def image_iff)
    then have "filter (\<lambda>e. fst e \<noteq> k) m = m" by simp
    with True show ?thesis by (cases e) auto
  next
    case False
    with Cons show ?thesis by (cases e) (auto simp: dict_wf_def)
  qed
qed simp

definition seq_below :: "int \<Rightarrow> (string, int \<times> 'r option) dict \<Rightarrow> bool" where
  "seq_below n m \<longleftrightarrow> dict_wf m \<and> (\<forall>e\<in>set m. entry_seq e < n) \<and> inj_on entry_seq (set m)"

lemma seq_below_set:
  assumes "seq_below n m"
  shows "seq_below (n + 1) (dict_set k (n, r) m)"
    "sort_key entry_seq (dict_set k (n, r) m) = filter (\<lambda>e. fst e \<noteq> k) (sort_key entry_seq m) @ [(k, n, r)]"
proof -
  have set: "set (dict_set k (n, r) m) = set (filter (\<lambda>e. fst e \<noteq> k) m) \<union> {(k, n, r)}"
    using dict_set_mset [of m k "(n, r)"] assms
    by (metis seq_below_def set_mset_mset set_mset_union set_mset_single)
  show "seq_below (n + 1) (dict_set k (n, r) m)"
    using assms unfolding seq_below_def set by (fastforce simp: inj_on_def)
  then have inj: "inj_on entry_seq (set (dict_set k (n, r) m))" by (simp add: seq_below_def)
  show "sort_key entry_seq (dict_set k (n, r) m) = filter (\<lambda>e. fst e \<noteq> k) (sort_key entry_seq m) @ [(k, n, r)]"
  proof (rule sort_key_inj_key_eq [OF _ inj])
    show "mset (dict_set k (n, r) m) = mset (filter (\<lambda>e. fst e \<noteq> k) (sort_key entry_seq m) @ [(k, n, r)])"
      using assms by (simp add: dict_set_mset seq_below_def mset_filter [symmetric] del: mset_filter) (simp)
    show "sorted (map entry_seq (filter (\<lambda>e. fst e \<noteq> k) (sort_key entry_seq m) @ [(k, n, r)]))"
      using assms by (auto simp: sorted_append seq_below_def filter_sort intro: less_imp_le)
  qed
qed

locale compacting_store =
  fixes upd :: "int \<Rightarrow> string \<Rightarrow> 'r option \<Rightarrow> ('s, unit) eff"
    and live :: "'s \<Rightarrow> (int \<times> 'r) list result"
    and holds :: "'s \<Rightarrow> (string, int \<times> 'r option) dict \<Rightarrow> bool"
    and accepts :: "'s \<Rightarrow> string \<Rightarrow> 'r option \<Rightarrow> bool"
    and keep :: "'s \<Rightarrow> 'r \<Rightarrow> 'r"
  assumes update: "\<lbrakk>holds st m; dict_wf m; accepts st k r\<rbrakk> \<Longrightarrow>
      \<exists>st'. upd n k r st = (st', Inr ()) \<and> holds st' (dict_set k (n, map_option (keep st) r) m) \<and>
        accepts st' = accepts st \<and> keep st' = keep st"
    and live: "\<lbrakk>holds st m; dict_wf m\<rbrakk> \<Longrightarrow> live st = Inr (live_of m)"
begin

lemma feed_contents:
  assumes "holds st []" "\<forall>(k, r)\<in>set ops. accepts st k r"
  shows "\<exists>st' m. feed upd 0 ops st = (st', Inr ()) \<and> holds st' m \<and> accepts st' = accepts st \<and> keep st' = keep st \<and>
    seq_below (int (length ops)) m \<and>
    sort_key entry_seq m = map (\<lambda>i. (fst (ops ! i), int i, map_option (keep st) (snd (ops ! i)))) (survivors ops)"
  using assms(2)
proof (induction ops rule: rev_induct)
  case Nil
  then show ?case using assms(1) by (intro exI [of _ st] exI [of _ "[]"]) (simp add: survivors_def seq_below_def)
next
  case (snoc op ops)
  obtain k r where op: "op = (k, r)" by (cases op)
  from snoc obtain st' m where run: "feed upd 0 ops st = (st', Inr ())" and st': "holds st' m" "accepts st' = accepts st"
      "keep st' = keep st" and m: "seq_below (int (length ops)) m"
      "sort_key entry_seq m = map (\<lambda>i. (fst (ops ! i), int i, map_option (keep st) (snd (ops ! i)))) (survivors ops)"
    by auto
  have "dict_wf m" "accepts st' k r" using m(1) st'(2) snoc.prems op by (simp_all add: seq_below_def)
  from update [OF st'(1) this] obtain st'' where step: "upd (int (length ops)) k r st' = (st'', Inr ())"
      "holds st'' (dict_set k (int (length ops), map_option (keep st) r) m)" "accepts st'' = accepts st" "keep st'' = keep st"
    using st' by metis
  have old: "i < length ops" if "i \<in> set (survivors ops)" for i using that by (simp add: survivors_def)
  have "sort_key entry_seq (dict_set k (int (length ops), map_option (keep st) r) m) =
      map (\<lambda>i. (fst ((ops @ [op]) ! i), int i, map_option (keep st) (snd ((ops @ [op]) ! i)))) (survivors (ops @ [op]))"
    unfolding seq_below_set(2) [OF m(1)] op survivors_snoc m(2)
    by (auto simp: filter_map o_def nth_append old)
  then show ?case
    using step run seq_below_set(1) [OF m(1), of k "map_option (keep st) r"]
    by (auto simp: feed_append op thenE_def bindE_def add.commute intro!: exI)
qed

theorem live_after_feed:
  assumes "holds st []" "\<forall>(k, r)\<in>set ops. accepts st k r"
  shows "\<exists>st'. feed upd 0 ops st = (st', Inr ()) \<and>
    live st' = Inr (map (map_prod id (keep st)) (last_puts ops))"
proof -
  from feed_contents [OF assms] obtain st' m where run: "feed upd 0 ops st = (st', Inr ())" and st': "holds st' m"
      and m: "seq_below (int (length ops)) m"
      "sort_key entry_seq m = map (\<lambda>i. (fst (ops ! i), int i, map_option (keep st) (snd (ops ! i)))) (survivors ops)"
    by auto
  have "live st' = Inr (live_of m)" using live st' m(1) by (simp add: seq_below_def)
  also have "live_of m = map (map_prod id (keep st)) (last_puts ops)"
    unfolding live_of_def last_puts_def m(2) by (auto simp: filter_map o_def option.map_sel)
  finally show ?thesis using run by blast
qed

end

section \<open>The compaction state is a compacting store\<close>

text \<open>
  What a record has to satisfy for the spill to be transparent: its contents can be written and read back
  under the policy, and it carries the key it is stored under, as decoded envelopes do.
\<close>

definition storable :: "dlq_codec \<Rightarrow> dlq_policy option \<Rightarrow> dlq_record \<Rightarrow> bool" where
  "storable J policy q \<longleftrightarrow>
     wf_record J q \<and> keeps_parsed_fields policy \<and> plain_policy (cd_repr J) policy \<and> cipher_inverse J policy {q} \<and>
     (encrypts policy \<longrightarrow> sorted_record q = q) \<and>
     (\<forall>p enc t. policy = Some p \<and> dp_encryptor p = Some enc \<longrightarrow> ci_encrypt enc t \<noteq> CipherOther)"

definition stored_under :: "dlq_codec \<Rightarrow> dlq_policy option \<Rightarrow> string \<Rightarrow> dlq_record option \<Rightarrow> bool" where
  "stored_under J policy k r \<longleftrightarrow> (\<forall>q. r = Some q \<longrightarrow> storable J policy q \<and> q_storage_id q = Some k)"

text \<open>An entry whose row decodes to itself.\<close>

definition entry_ok :: "dlq_codec \<Rightarrow> dlq_policy option \<Rightarrow> string \<Rightarrow> dlq_record option \<Rightarrow> bool" where
  "entry_ok J policy k r \<longleftrightarrow>
     (case r of None \<Rightarrow> True
      | Some q \<Rightarrow> q_storage_id q = Some k \<and>
          (\<exists>payload d. record_payload_json J policy q = Inr payload \<and>
            decode_record_payload_json J policy payload = Inr d \<and>
            payload_to_record J d = Inr (q\<lparr>q_storage_id := None\<rparr>)))"

lemma apply_payload_policy_stored:
  assumes "stored_under J policy k r"
  shows "apply_payload_policy J policy r = Inr (map_option (stored_record (cd_repr J) policy) r)"
proof (cases r)
  case (Some q)
  then have q: "wf_record J q" "keeps_parsed_fields policy" using assms by (auto simp: stored_under_def storable_def)
  show ?thesis
    using Some payload_to_record_stored [OF q, of "cd_repr J"]
    by (cases policy) (auto simp: apply_payload_policy_def stored_record_def redacts_def redact_record_def)
qed (simp add: apply_payload_policy_def)

lemma stored_entry_ok:
  assumes "stored_under J policy k r"
  shows "entry_ok J policy k (map_option (stored_record (cd_repr J) policy) r)"
proof (cases r)
  case (Some q)
  let ?R = "cd_repr J"
  have q: "wf_record J q" "keeps_parsed_fields policy" "plain_policy ?R policy" "cipher_inverse J policy {q}"
      "encrypts policy \<Longrightarrow> sorted_record q = q" "q_storage_id q = Some k"
      "\<And>p enc t. policy = Some p \<Longrightarrow> dp_encryptor p = Some enc \<Longrightarrow> ci_encrypt enc t \<noteq> CipherOther"
    using assms Some by (auto simp: stored_under_def storable_def)
  show ?thesis
  proof (cases "encrypts policy")
    case True
    then obtain p where p: "policy = Some p" "dp_mode p = ''encrypted''" by (auto simp: encrypts_def split: option.splits)
    then have same: "stored_record ?R policy q = q" by (simp add: stored_record_def redacts_def)
    obtain enc where enc: "dp_encryptor p = Some enc" using q(4) p by (auto simp: cipher_inverse_def)
    obtain e where e: "encrypt_payload (codec_of J) p (PDict (raw_payload q)) = Inr e"
      using q(7) [OF p(1) enc] enc p(2)
      by (cases "ci_encrypt enc (cd_json_dumps (codec_of J) (PDict (raw_payload q)))") (simp_all add: encrypt_payload_def)
    then have json: "record_payload_json J policy q = Inr e"
      using p by (simp add: record_payload_json_def record_to_payload_def policy_apply_def dict_of_def)
    have upd: "dict_update [] e = e"
      using e by (auto simp: encrypt_payload_def dict_update_def result_simps split: option.splits if_splits)
    obtain d where "decode_stored_payload J (Some p) (dict_update [] e) = Inr (Some d)"
        "payload_to_record J d = Inr ((sorted_record q)\<lparr>q_storage_id := None\<rparr>)"
      by (rule decode_encrypted [OF e q(4) [unfolded p(1)] _ q(1), of "[]"]) simp_all
    moreover have "dict_get e ''pipeline_id'' = None"
      using encrypted_payload_shape(6) [OF e q(4) [unfolded p(1)], of "[]"] upd by simp
    ultimately show ?thesis
      using Some same json True q(5,6) p upd by (simp add: entry_ok_def decode_record_payload_json_def)
  next
    case False
    let ?s = "stored_record ?R policy q"
    have "record_payload_json J policy ?s = Inr (raw_payload ?s)"
      using False record_to_payload_stored [OF q(2), of ?R ?s] stored_record_idem [OF q(3)]
      by (cases policy) (auto simp: record_payload_json_def encrypts_def Let_def)
    moreover have "decode_record_payload_json J policy (raw_payload ?s) = Inr (raw_payload ?s)"
      by (simp add: decode_record_payload_json_def raw_payload_def)
    moreover have "payload_to_record J (raw_payload ?s) = Inr (?s\<lparr>q_storage_id := None\<rparr>)"
      using payload_to_record_raw q(1) by simp
    ultimately show ?thesis using Some q(6) by (simp add: entry_ok_def)
  qed
qed (simp add: entry_ok_def)

text \<open>The abstraction: the dictionary itself, or the table of its rows.\<close>

definition rows_for :: "dlq_codec \<Rightarrow> dlq_policy option \<Rightarrow> (string, compaction_entry) dict \<Rightarrow> (string, compaction_row) dict" where
  "rows_for J policy m = map (\<lambda>e. (fst e, projr (row_of J policy (snd e)))) m"

definition compaction_holds :: "dlq_codec \<Rightarrow> compaction_state \<Rightarrow> (string, compaction_entry) dict \<Rightarrow> bool" where
  "compaction_holds J st m \<longleftrightarrow>
     (\<forall>(k, n, r)\<in>set m. entry_ok J (cs_payload_policy st) k r) \<and>
     (case cs_conn st of None \<Rightarrow> cs_memory st = m | Some t \<Rightarrow> t = rows_for J (cs_payload_policy st) m)"

lemma row_of_ok: "entry_ok J policy k r \<Longrightarrow> \<exists>row. row_of J policy (n, r) = Inr row"
  by (auto simp: entry_ok_def row_of_def split: option.splits)

lemma spill_rows_ok:
  assumes "\<forall>(k, n, r)\<in>set m. entry_ok J policy k r" "dict_wf m" "fst ` set m \<inter> fst ` set t = {}"
  shows "spill_rows J policy m t = (t @ rows_for J policy m, Inr ())"
  using assms
proof (induction m arbitrary: t)
  case (Cons e m)
  obtain k n r where e: "e = (k, n, r)" by (cases e)
  then obtain row where row: "row_of J policy (n, r) = Inr row" using Cons.prems(1) row_of_ok by fastforce
  have "dict_get t k = None" using Cons.prems(3) e by (simp add: map_of_eq_None_iff)
  moreover have "spill_rows J policy m (t @ [(k, row)]) = ((t @ [(k, row)]) @ rows_for J policy m, Inr ())"
    by (rule Cons.IH) (use Cons.prems e in \<open>auto simp: dict_wf_def\<close>)
  ultimately show ?case using e row by (simp add: rows_for_def)
qed (simp add: rows_for_def)

lemma rows_for_set:
  "row_of J policy v = Inr row \<Longrightarrow> dict_set k row (rows_for J policy m) = rows_for J policy (dict_set k v m)"
  by (induction m) (auto simp: rows_for_def)

lemma spill_holds:
  assumes "compaction_holds J st m" "dict_wf m" "cs_conn st = None"
  shows "\<exists>st'. spill_to_sqlite J st = (st', Inr ()) \<and> compaction_holds J st' m \<and>
    cs_payload_policy st' = cs_payload_policy st"
  using assms spill_rows_ok [of m J "cs_payload_policy st" "[]"]
  by (auto simp: spill_to_sqlite_def compaction_holds_def)

lemma set_dict_set: "set (dict_set k v m) \<subseteq> insert (k, v) (set m)"
  by (induction m) auto

lemma store_entry_holds:
  assumes "compaction_holds J st m" "entry_ok J (cs_payload_policy st) k r"
  shows "\<exists>st'. store_entry J k (n, r) st = (st', Inr ()) \<and> compaction_holds J st' (dict_set k (n, r) m) \<and>
    cs_payload_policy st' = cs_payload_policy st"
proof -
  obtain row where "row_of J (cs_payload_policy st) (n, r) = Inr row" using row_of_ok [OF assms(2)] by blast
  moreover have "\<forall>(k', n', r')\<in>set (dict_set k (n, r) m). entry_ok J (cs_payload_policy st) k' r'"
    using assms set_dict_set [of k "(n, r)" m] by (fastforce simp: compaction_holds_def)
  ultimately show ?thesis
    using assms(1) by (auto simp: store_entry_def compaction_holds_def rows_for_set split: option.splits)
qed

lemma update_holds:
  assumes "compaction_holds J st m" "dict_wf m" "stored_under J (cs_payload_policy st) k r"
  shows "\<exists>st'. compaction_update J n k r st = (st', Inr ()) \<and> cs_payload_policy st' = cs_payload_policy st \<and>
    compaction_holds J st' (dict_set k (n, map_option (stored_record (cd_repr J) (cs_payload_policy st)) r) m)"
proof -
  let ?spill = "if cs_conn st = None \<and> should_spill k st then spill_to_sqlite J else returnE ()"
  obtain st1 where st1: "?spill st = (st1, Inr ())" "compaction_holds J st1 m" "cs_payload_policy st1 = cs_payload_policy st"
    using spill_holds [OF assms(1,2)] assms(1) by (cases "cs_conn st = None \<and> should_spill k st") auto
  have "entry_ok J (cs_payload_policy st1) k (map_option (stored_record (cd_repr J) (cs_payload_policy st)) r)"
    using stored_entry_ok [OF assms(3)] st1(3) by simp
  from store_entry_holds [OF st1(2) this, of n] show ?thesis
    using st1 apply_payload_policy_stored [OF assms(3)]
    by (auto simp add: compaction_update_def thenE_def bindE_def)
qed

lemma sort_key_map: "sort_key f (map g xs) = map g (sort_key (\<lambda>x. f (g x)) xs)"
proof -
  have "insort_key f (g x) (map g ys) = map g (insort_key (\<lambda>x. f (g x)) x ys)" for x ys by (induction ys) auto
  then show ?thesis by (induction xs) simp_all
qed

lemma decode_rows_ok:
  assumes "\<forall>e\<in>set m. entry_ok J policy (fst e) (snd (snd e))" "\<forall>e\<in>set m. snd (snd e) \<noteq> None"
  shows "decode_rows J policy (map (\<lambda>e. (fst e, entry_seq e, the (cr_payload (projr (row_of J policy (snd e)))))) m) =
    Inr (map (\<lambda>e. (entry_seq e, the (snd (snd e)))) m)"
  using assms
proof (induction m)
  case (Cons e m)
  then obtain q payload d where q: "snd (snd e) = Some q" "q_storage_id q = Some (fst e)"
      "record_payload_json J policy q = Inr payload" "decode_record_payload_json J policy payload = Inr d"
      "payload_to_record J d = Inr (q\<lparr>q_storage_id := None\<rparr>)"
    by (auto simp: entry_ok_def split: option.splits)
  then have "q\<lparr>q_storage_id := Some (fst e)\<rparr> = q" by (cases q) simp
  with Cons q show ?case by (simp add: row_of_def)
qed simp

lemma row_columns:
  "entry_ok J policy k r \<Longrightarrow>
   cr_sequence (projr (row_of J policy (n, r))) = n \<and>
   (cr_deleted (projr (row_of J policy (n, r))) = 0 \<and> cr_payload (projr (row_of J policy (n, r))) \<noteq> None \<longleftrightarrow> r \<noteq> None)"
  by (auto simp: entry_ok_def row_of_def split: option.splits)

lemma live_holds:
  assumes "compaction_holds J st m"
  shows "live_records J st = Inr (live_of m)"
proof (cases "cs_conn st")
  case None
  then show ?thesis
    using assms by (simp add: live_records_def live_of_def compaction_holds_def sort_key_map filter_sort)
next
  case (Some t)
  let ?P = "cs_payload_policy st"
  let ?live = "sort_key entry_seq (filter (\<lambda>e. snd (snd e) \<noteq> None) m)"
  let ?row = "\<lambda>e. projr (row_of J ?P (snd e))"
  have ok: "\<forall>e\<in>set m. entry_ok J ?P (fst e) (snd (snd e))" and t: "t = rows_for J ?P m"
    using assms Some by (auto simp: compaction_holds_def)
  have cols: "cr_sequence (?row e) = entry_seq e"
      "cr_deleted (?row e) = 0 \<and> cr_payload (?row e) \<noteq> None \<longleftrightarrow> snd (snd e) \<noteq> None" if "e \<in> set m" for e
    using row_columns [of J ?P "fst e" "snd (snd e)" "entry_seq e"] ok that by auto
  have "filter (\<lambda>e. cr_deleted (snd e) = 0 \<and> cr_payload (snd e) \<noteq> None) t =
      map (\<lambda>e. (fst e, ?row e)) (filter (\<lambda>e. snd (snd e) \<noteq> None) m)"
    unfolding t rows_for_def filter_map o_def snd_conv by (rule arg_cong [where f = "map _"]) (rule filter_cong, use cols(2) in auto)
  moreover have "map (\<lambda>e. (fst e, cr_sequence (?row e), the (cr_payload (?row e)))) (filter (\<lambda>e. snd (snd e) \<noteq> None) m) =
      map (\<lambda>e. (fst e, entry_seq e, the (cr_payload (?row e)))) (filter (\<lambda>e. snd (snd e) \<noteq> None) m)"
    using cols(1) by (intro map_cong) auto
  ultimately have "live_records J st = decode_rows J ?P
      (sort_key (\<lambda>row. fst (snd row)) (map (\<lambda>e. (fst e, entry_seq e, the (cr_payload (?row e)))) (filter (\<lambda>e. snd (snd e) \<noteq> None) m)))"
    using Some by (simp only: live_records_def option.case map_map o_def fst_conv snd_conv)
  also have "\<dots> = decode_rows J ?P (map (\<lambda>e. (fst e, entry_seq e, the (cr_payload (?row e)))) ?live)"
    by (simp add: sort_key_map)
  also have "\<dots> = Inr (map (\<lambda>e. (entry_seq e, the (snd (snd e)))) ?live)"
    by (rule decode_rows_ok) (use ok in auto)
  finally show ?thesis by (simp add: live_of_def filter_sort)
qed

interpretation compaction: compacting_store "compaction_update J" "live_records J" "compaction_holds J"
  "\<lambda>st. stored_under J (cs_payload_policy st)" "\<lambda>st. stored_record (cd_repr J) (cs_payload_policy st)"
  by unfold_locales (use update_holds live_holds in \<open>fastforce+\<close>)

section \<open>Properties\<close>

text \<open>
  C32: compaction keeps, for every storage key, what its last update said, whether or not and whenever the state
  spills to SQLite: after any sequence of updates the live records are the last put of each key that was not
  deleted afterwards, as the policy stores it, in order of arrival.
\<close>

theorem compaction_keeps_last_puts:
  assumes "\<forall>(k, r)\<in>set ops. stored_under J policy k r"
  shows "\<exists>st. feed (compaction_update J) 0 ops (compaction_init spill_threshold policy) = (st, Inr ()) \<and>
    live_records J st = Inr (map (map_prod id (stored_record (cd_repr J) policy)) (last_puts ops))"
  using compaction.live_after_feed [of J "compaction_init spill_threshold policy" ops] assms
  by (simp add: compaction_init_def compaction_holds_def)

definition sample_put :: "string \<Rightarrow> int \<Rightarrow> dlq_record option" where
  "sample_put k n = Some (sample_record\<lparr>q_storage_id := Some k, q_attempt := n\<rparr>)"

definition sample_ops :: "(string \<times> dlq_record option) list" where
  "sample_ops = [(''a'', sample_put ''a'' 1), (''b'', sample_put ''b'' 1), (''a'', None), (''c'', sample_put ''c'' 1),
     (''b'', sample_put ''b'' 2)]"

lemma sample_storable: "stored_under sample_dlq_codec (Some sample_policy) k (sample_put k n)"
proof -
  have "normalize_sensitive_name ''{}'' \<notin> policy_header_names sample_policy" by code_simp
  then have "plain_policy (cd_repr sample_dlq_codec) (Some sample_policy)"
    by (simp add: plain_policy_def plain_names_def sample_dlq_codec_def)
  then show ?thesis
    by (simp add: sample_put_def stored_under_def storable_def wf_record_def encrypts_def sample_dlq_codec_def [THEN arg_cong, of qc_fromisoformat]
      sample_policy_def [THEN arg_cong, of dp_mode] sample_policy_def [THEN arg_cong, of dp_encryptor])
qed

theorem compaction_keeps_last_puts_witness:
  "\<exists>st a b. feed (compaction_update sample_dlq_codec) 0 sample_ops (compaction_init (Some 1) (Some sample_policy)) = (st, Inr ()) \<and>
    live_records sample_dlq_codec st = Inr [(3, a), (4, b)] \<and> q_storage_id a = Some ''c'' \<and> q_attempt b = 2"
proof -
  have "stored_under sample_dlq_codec (Some sample_policy) ''a'' None" by (simp add: stored_under_def)
  then have "\<forall>(k, r)\<in>set sample_ops. stored_under sample_dlq_codec (Some sample_policy) k r"
    using sample_storable by (simp add: sample_ops_def)
  moreover have "last_puts sample_ops = [(3, the (snd (sample_ops ! 3))), (4, the (snd (sample_ops ! 4)))]"
    by (simp add: last_puts_def survivors_def sample_ops_def sample_put_def upt_rec)
  ultimately have run: "\<exists>st. feed (compaction_update sample_dlq_codec) 0 sample_ops (compaction_init (Some 1) (Some sample_policy)) = (st, Inr ()) \<and>
      live_records sample_dlq_codec st =
        Inr [(3, stored_record (cd_repr sample_dlq_codec) (Some sample_policy) (the (snd (sample_ops ! 3)))),
             (4, stored_record (cd_repr sample_dlq_codec) (Some sample_policy) (the (snd (sample_ops ! 4))))]"
    using compaction_keeps_last_puts [of sample_ops sample_dlq_codec "Some sample_policy" "Some 1"] by simp
  have "q_storage_id (the (snd (sample_ops ! 3))) = Some ''c''" "q_attempt (the (snd (sample_ops ! 4))) = 2"
    by (simp_all add: sample_ops_def sample_put_def)
  with run show ?thesis by (metis stored_record_fields)
qed

end
