(* ===== verification/DLQ_Scan.thy ===== *)
theory DLQ_Scan
  imports DLQ_Compaction
begin

text \<open>
  The dead-letter source: normalisation of its settings (\<^verbatim>\<open>kafka/_dlq_source_settings.py\<close>), the scan of the
  topic (\<^verbatim>\<open>kafka/_dlq_source_scan_runtime.py\<close>) and the replay filter
  (\<^verbatim>\<open>kafka/_dlq_source_operator_surface.py\<close>).  The aiokafka consumer is a parameter, a record of its
  operations on a client state; a message value is what \<^verbatim>\<open>json.loads\<close> makes of its bytes, an exception or an
  object.  The generators are run to their end.
\<close>

section \<open>Settings\<close>

record dlq_source_settings =
  ds_topics :: "string list"
  ds_topic_pattern :: "string option"
  ds_assignments :: "topic_partition list"
  ds_group_id :: string
  ds_pipeline_id :: "string option"
  ds_stage :: "string option"
  ds_limit :: "int option"
  ds_poll_timeout_ms :: int
  ds_scan_idle_polls :: int
  ds_stop_at_highwater :: bool
  ds_start_offsets :: "(topic_partition, int) dict"
  ds_compaction_spill_threshold :: "int option"
  ds_payload_policy :: "dlq_policy option"

record dlq_source_args =
  da_topic :: "string option"
  da_topics :: "string list option"
  da_topic_pattern :: "string option"
  da_assignments :: "topic_partition list"
  da_group_id :: "string option"
  da_pipeline_id :: "string option"
  da_stage :: "string option"
  da_limit :: "int option"
  da_poll_timeout_ms :: int
  da_scan_idle_polls :: int
  da_stop_at_highwater :: bool
  da_start_offsets :: "(topic_partition, int) dict"
  da_compaction_spill_threshold :: "int option"
  da_payload_policy :: "dlq_policy option"

definition normalize_topics :: "string option \<Rightarrow> string list option \<Rightarrow> string list result" where
  "normalize_topics topic topics =
     (case topic of
        Some t \<Rightarrow>
          if topics \<noteq> None then Inl (ValueError ''KafkaDLQSource accepts either `topic` or `topics`, not both.'')
          else Inr [t]
      | None \<Rightarrow> Inr (case topics of None \<Rightarrow> [] | Some ts \<Rightarrow> ts))"

definition normalize_assignments :: "topic_partition list \<Rightarrow> topic_partition list" where
  "normalize_assignments assignments = sorted_list_of_set (set assignments)"

definition validate_subscription_inputs ::
    "string list \<Rightarrow> string option \<Rightarrow> topic_partition list \<Rightarrow> unit result" where
  "validate_subscription_inputs topics topic_pattern assignments =
     (if topics = [] \<and> topic_pattern = None \<and> assignments = []
      then Inl (ValueError ''KafkaDLQSource requires `topics`, `topic_pattern`, or `assignments`.'')
      else if topics \<noteq> [] \<and> topic_pattern \<noteq> None
      then Inl (ValueError ''KafkaDLQSource accepts either `topics` or `topic_pattern`, not both.'')
      else if assignments \<noteq> [] \<and> (topics \<noteq> [] \<or> topic_pattern \<noteq> None)
      then Inl (ValueError ''KafkaDLQSource accepts `assignments` only when `topics` and `topic_pattern` are unset.'')
      else Inr ())"

text \<open>\<^verbatim>\<open>resolve_security\<close> is the last thing that can raise; its outcome is a parameter.\<close>

definition build_kafka_dlq_source_settings ::
    "unit result \<Rightarrow> dlq_source_args \<Rightarrow> dlq_source_settings result" where
  "build_kafka_dlq_source_settings resolved_security a =
     bindR (normalize_topics (da_topic a) (da_topics a)) (\<lambda>topics.
     let assignments = normalize_assignments (da_assignments a) in
     bindR (validate_subscription_inputs topics (da_topic_pattern a) assignments) (\<lambda>_.
     if (case da_limit a of None \<Rightarrow> False | Some n \<Rightarrow> n < 1)
     then Inl (ValueError ''KafkaDLQSource limit must be >= 1 when provided.'')
     else if (case da_compaction_spill_threshold a of None \<Rightarrow> False | Some n \<Rightarrow> n < 0)
     then Inl (ValueError ''compaction_spill_threshold must be non-negative or None.'')
     else bindR resolved_security (\<lambda>_.
       Inr \<lparr>ds_topics = topics, ds_topic_pattern = da_topic_pattern a, ds_assignments = assignments,
            ds_group_id =
              (case da_group_id a of
                 Some (c # cs) \<Rightarrow> c # cs
               | _ \<Rightarrow> (case da_pipeline_id a of Some (c # cs) \<Rightarrow> c # cs | _ \<Rightarrow> ''agora'') @ ''-kafka-dlq-replay''),
            ds_pipeline_id = da_pipeline_id a, ds_stage = da_stage a, ds_limit = da_limit a,
            ds_poll_timeout_ms = max (da_poll_timeout_ms a) 1, ds_scan_idle_polls = max (da_scan_idle_polls a) 1,
            ds_stop_at_highwater = da_stop_at_highwater a, ds_start_offsets = da_start_offsets a,
            ds_compaction_spill_threshold = da_compaction_spill_threshold a,
            ds_payload_policy = da_payload_policy a\<rparr>)))"

section \<open>Source state and consumer\<close>

type_synonym dlq_message = "(string, pyval) dict result"
type_synonym dlq_batches = "(topic_partition \<times> dlq_message list) list"

text \<open>
  The client's operations; \<^verbatim>\<open>seek\<close>, \<^verbatim>\<open>end_offsets\<close> and \<^verbatim>\<open>position\<close> are looked up with \<^verbatim>\<open>getattr\<close> and may be
  missing.  \<^verbatim>\<open>end_offsets\<close> returns \<open>None\<close> when its result is not a dictionary.
\<close>

record 'c dlq_consumer_ops =
  do_assignment :: "'c \<Rightarrow> topic_partition list"
  do_getmany :: "int \<Rightarrow> ('c, dlq_batches) eff"
  do_seek :: "(topic_partition \<Rightarrow> int \<Rightarrow> ('c, unit) eff) option"
  do_end_offsets :: "(topic_partition list \<Rightarrow> ('c, (topic_partition \<times> pyval) list option) eff) option"
  do_position :: "(topic_partition \<Rightarrow> ('c, pyval) eff) option"

record 'c dlq_source =
  sr_scan_count :: nat
  sr_scanned_message_count :: nat
  sr_upsert_event_count :: nat
  sr_delete_event_count :: nat
  sr_start_offset_seek_count :: nat
  sr_highwater_stop_count :: nat
  sr_live_record_count :: nat
  sr_matched_record_count :: nat
  sr_replayable_record_count :: nat
  sr_retry_filtered_count :: nat
  sr_last_scan_completed_at :: "int option"
  sr_last_record_seen_at :: "int option"
  sr_clock_reads :: nat
  sr_prefetch :: "dlq_batches list"
  sr_consumer :: 'c

text \<open>\<^verbatim>\<open>_now_utc()\<close>: the \<open>n\<close>-th reading of the clock.\<close>

definition mark_scan_completed :: "(nat \<Rightarrow> int) \<Rightarrow> 'c dlq_source \<Rightarrow> 'c dlq_source" where
  "mark_scan_completed now s =
     s\<lparr>sr_last_scan_completed_at := Some (now (sr_clock_reads s)), sr_clock_reads := Suc (sr_clock_reads s)\<rparr>"

definition on_consumer :: "('c, 'a) eff \<Rightarrow> ('c dlq_source, 'a) eff" where
  "on_consumer m s = (case m (sr_consumer s) of (c, r) \<Rightarrow> (s\<lparr>sr_consumer := c\<rparr>, r))"

section \<open>Assignment and offsets\<close>

fun assignment_attempts ::
    "'c dlq_consumer_ops \<Rightarrow> int \<Rightarrow> nat \<Rightarrow> ('c dlq_source, topic_partition list) eff" where
  "assignment_attempts D timeout_ms 0 s = (s, Inr [])"
| "assignment_attempts D timeout_ms (Suc n) s =
     (let assignment = do_assignment D (sr_consumer s) in
      if assignment \<noteq> [] then (s, Inr assignment)
      else bindE (on_consumer (do_getmany D timeout_ms)) (\<lambda>batches s'.
        assignment_attempts D timeout_ms n
          (if batches \<noteq> [] then s'\<lparr>sr_prefetch := sr_prefetch s' @ [batches]\<rparr> else s')) s)"

definition wait_for_assignment ::
    "'c dlq_consumer_ops \<Rightarrow> dlq_source_settings \<Rightarrow> ('c dlq_source, topic_partition list) eff" where
  "wait_for_assignment D cfg s = assignment_attempts D (ds_poll_timeout_ms cfg) 20 (s\<lparr>sr_prefetch := []\<rparr>)"

fun seek_each ::
    "(topic_partition \<Rightarrow> int \<Rightarrow> ('c, unit) eff) \<Rightarrow> (topic_partition \<times> int) list \<Rightarrow> ('c dlq_source, unit) eff" where
  "seek_each seek [] s = (s, Inr ())"
| "seek_each seek ((tp, offset) # rest) s =
     bindE (on_consumer (seek tp offset)) (\<lambda>_ s'.
       seek_each seek rest (s'\<lparr>sr_start_offset_seek_count := Suc (sr_start_offset_seek_count s')\<rparr>)) s"

definition apply_start_offsets ::
    "'c dlq_consumer_ops \<Rightarrow> dlq_source_settings \<Rightarrow> ('c dlq_source, unit) eff" where
  "apply_start_offsets D cfg s =
     (if ds_start_offsets cfg = [] then (s, Inr ())
      else case do_seek D of
        None \<Rightarrow> (s, Inr ())
      | Some seek \<Rightarrow> seek_each seek (sort (ds_start_offsets cfg)) s)"

text \<open>Offsets that \<^verbatim>\<open>int\<close> refuses are left out.\<close>

fun int_offsets :: "(topic_partition \<times> pyval) list \<Rightarrow> (topic_partition, int) dict \<Rightarrow> (topic_partition, int) dict" where
  "int_offsets [] acc = acc"
| "int_offsets ((tp, v) # rest) acc =
     int_offsets rest (case py_int v of Inl _ \<Rightarrow> acc | Inr offset \<Rightarrow> dict_set tp offset acc)"

definition partition_highwater_offsets ::
    "'c dlq_consumer_ops \<Rightarrow> dlq_source_settings \<Rightarrow> topic_partition list
     \<Rightarrow> 'c dlq_source \<Rightarrow> 'c dlq_source \<times> (topic_partition, int) dict" where
  "partition_highwater_offsets D cfg assignment s =
     (if \<not> ds_stop_at_highwater cfg then (s, [])
      else case do_end_offsets D of
        None \<Rightarrow> (s, [])
      | Some end_offsets \<Rightarrow>
          (case on_consumer (end_offsets assignment) s of
             (s', Inr (Some items)) \<Rightarrow> (s', int_offsets items [])
           | (s', _) \<Rightarrow> (s', [])))"

fun all_reached ::
    "(topic_partition \<Rightarrow> ('c, pyval) eff) \<Rightarrow> (topic_partition \<times> int) list \<Rightarrow> ('c dlq_source, bool) eff" where
  "all_reached position [] s = (s, Inr True)"
| "all_reached position ((tp, highwater) # rest) s =
     bindE (on_consumer (position tp)) (\<lambda>current s'.
       case py_int current of
         Inl _ \<Rightarrow> (s', Inr False)
       | Inr i \<Rightarrow> if i < highwater then (s', Inr False) else all_reached position rest s') s"

definition positions_reached_highwater ::
    "'c dlq_consumer_ops \<Rightarrow> (topic_partition, int) dict \<Rightarrow> ('c dlq_source, bool) eff" where
  "positions_reached_highwater D highwater_offsets s =
     (case do_position D of
        None \<Rightarrow> (s, Inr False)
      | Some position \<Rightarrow> all_reached position highwater_offsets s)"

section \<open>The scan\<close>

definition decode_message ::
    "dlq_codec \<Rightarrow> dlq_policy option \<Rightarrow> dlq_message \<Rightarrow> (string \<times> string \<times> dlq_record option) result" where
  "decode_message J policy m = bindR m (decode_dlq_envelope J policy)"

text \<open>
  One message: decoded, counted and handed to the compaction under its sequence number.  The state is the
  source, the compaction, the next sequence number and, for the statements below, the messages handled.
\<close>

record 'c scan_state =
  sc_source :: "'c dlq_source"
  sc_compaction :: compaction_state
  sc_sequence :: int
  sc_seen :: "dlq_message list"

definition count_message :: "(nat \<Rightarrow> int) \<Rightarrow> string \<Rightarrow> 'c dlq_source \<Rightarrow> 'c dlq_source" where
  "count_message now operation s =
     (let s' = s\<lparr>sr_scanned_message_count := Suc (sr_scanned_message_count s),
                 sr_last_record_seen_at := Some (now (sr_clock_reads s)),
                 sr_clock_reads := Suc (sr_clock_reads s)\<rparr>
      in if operation = ''delete'' then s'\<lparr>sr_delete_event_count := Suc (sr_delete_event_count s')\<rparr>
         else s'\<lparr>sr_upsert_event_count := Suc (sr_upsert_event_count s')\<rparr>)"

definition handle_message ::
    "dlq_codec \<Rightarrow> (nat \<Rightarrow> int) \<Rightarrow> dlq_policy option \<Rightarrow> dlq_message \<Rightarrow> ('c scan_state, unit) eff" where
  "handle_message J now policy m x =
     (case decode_message J policy m of
        Inl e \<Rightarrow> (x, Inl e)
      | Inr (operation, storage_key, r) \<Rightarrow>
          (case compaction_update J (sc_sequence x) storage_key (if operation = ''delete'' then None else r)
                  (sc_compaction x) of
             (c, Inl e) \<Rightarrow> (x\<lparr>sc_source := count_message now operation (sc_source x), sc_compaction := c\<rparr>, Inl e)
           | (c, Inr _) \<Rightarrow>
               (x\<lparr>sc_source := count_message now operation (sc_source x), sc_compaction := c,
                  sc_sequence := sc_sequence x + 1, sc_seen := sc_seen x @ [m]\<rparr>, Inr ())))"

fun handle_messages ::
    "dlq_codec \<Rightarrow> (nat \<Rightarrow> int) \<Rightarrow> dlq_policy option \<Rightarrow> dlq_message list \<Rightarrow> ('c scan_state, unit) eff" where
  "handle_messages J now policy [] x = (x, Inr ())"
| "handle_messages J now policy (m # ms) x =
     thenE (handle_message J now policy m) (handle_messages J now policy ms) x"

definition on_source :: "('c dlq_source, 'a) eff \<Rightarrow> ('c scan_state, 'a) eff" where
  "on_source m x = (case m (sc_source x) of (s, r) \<Rightarrow> (x\<lparr>sc_source := s\<rparr>, r))"

text \<open>\<^verbatim>\<open>pop(0)\<close> of the prefetched batches, or a poll.\<close>

definition next_batches ::
    "'c dlq_consumer_ops \<Rightarrow> dlq_source_settings \<Rightarrow> ('c dlq_source, dlq_batches) eff" where
  "next_batches D cfg s =
     (case sr_prefetch s of
        b # bs \<Rightarrow> (s\<lparr>sr_prefetch := bs\<rparr>, Inr b)
      | [] \<Rightarrow> on_consumer (do_getmany D (ds_poll_timeout_ms cfg)) s)"

text \<open>The \<^verbatim>\<open>while\<close> loop, with one unit of fuel per iteration.\<close>

fun compaction_loop ::
    "dlq_codec \<Rightarrow> (nat \<Rightarrow> int) \<Rightarrow> 'c dlq_consumer_ops \<Rightarrow> dlq_source_settings \<Rightarrow> (topic_partition, int) dict
     \<Rightarrow> nat \<Rightarrow> int \<Rightarrow> 'c scan_state \<Rightarrow> ('c scan_state \<times> unit result) option" where
  "compaction_loop J now D cfg highwater 0 idle_polls x = None"
| "compaction_loop J now D cfg highwater (Suc fuel) idle_polls x =
     (if \<not> idle_polls < ds_scan_idle_polls cfg then Some (x, Inr ())
      else case on_source (next_batches D cfg) x of
        (x1, Inl e) \<Rightarrow> Some (x1, Inl e)
      | (x1, Inr batches) \<Rightarrow>
          (case handle_messages J now (ds_payload_policy cfg) (concat (map snd batches)) x1 of
             (x2, Inl e) \<Rightarrow> Some (x2, Inl e)
           | (x2, Inr _) \<Rightarrow>
               let idle = (if list_ex (\<lambda>b. snd b \<noteq> []) batches then 0 else idle_polls + 1) in
               if highwater = [] then compaction_loop J now D cfg highwater fuel idle x2
               else (case on_source (positions_reached_highwater D highwater) x2 of
                       (x3, Inl e) \<Rightarrow> Some (x3, Inl e)
                     | (x3, Inr True) \<Rightarrow>
                         Some (x3\<lparr>sc_source := (sc_source x3)\<lparr>sr_highwater_stop_count :=
                                 Suc (sr_highwater_stop_count (sc_source x3))\<rparr>\<rparr>, Inr ())
                     | (x3, Inr False) \<Rightarrow> compaction_loop J now D cfg highwater fuel idle x3)))"

definition matches_filter :: "dlq_source_settings \<Rightarrow> dlq_record \<Rightarrow> bool" where
  "matches_filter cfg r \<longleftrightarrow>
     \<not> (ds_pipeline_id cfg \<noteq> None \<and> Some (q_pipeline_id r) \<noteq> ds_pipeline_id cfg) \<and>
     \<not> (ds_stage cfg \<noteq> None \<and> Some (q_stage r) \<noteq> ds_stage cfg)"

text \<open>The loop that yields the live records; \<open>yielded\<close> counts them.\<close>

fun yield_records ::
    "(nat \<Rightarrow> int) \<Rightarrow> dlq_source_settings \<Rightarrow> int \<Rightarrow> dlq_record list \<Rightarrow> 'c dlq_source \<Rightarrow> 'c dlq_source \<times> dlq_record list" where
  "yield_records now cfg yielded [] s = (mark_scan_completed now s, [])"
| "yield_records now cfg yielded (r # rs) s =
     (if \<not> matches_filter cfg r then yield_records now cfg yielded rs s
      else let s1 = s\<lparr>sr_matched_record_count := Suc (sr_matched_record_count s)\<rparr> in
           if (case ds_limit cfg of None \<Rightarrow> False | Some limit \<Rightarrow> yielded + 1 \<ge> limit)
           then (mark_scan_completed now s1, [r])
           else (case yield_records now cfg (yielded + 1) rs s1 of (s2, out) \<Rightarrow> (s2, r # out)))"

text \<open>The records yielded, the messages they come from and, last, an exception that ends the scan.\<close>

definition finish_scan ::
    "dlq_codec \<Rightarrow> (nat \<Rightarrow> int) \<Rightarrow> dlq_source_settings \<Rightarrow> 'c scan_state
     \<Rightarrow> 'c dlq_source \<times> (dlq_record list \<times> dlq_message list) result" where
  "finish_scan J now cfg x =
     (case live_records J (sc_compaction x) of
        Inl e \<Rightarrow> (sc_source x, Inl e)
      | Inr live \<Rightarrow>
          let s = (sc_source x)\<lparr>sr_scan_count := Suc (sr_scan_count (sc_source x)),
                                sr_live_record_count := length live, sr_matched_record_count := 0\<rparr>
          in (case yield_records now cfg 0 (map snd live) s of (s', out) \<Rightarrow> (s', Inr (out, sc_seen x))))"

definition iter_records ::
    "dlq_codec \<Rightarrow> (nat \<Rightarrow> int) \<Rightarrow> 'c dlq_consumer_ops \<Rightarrow> dlq_source_settings \<Rightarrow> nat \<Rightarrow> 'c dlq_source
     \<Rightarrow> ('c dlq_source \<times> (dlq_record list \<times> dlq_message list) result) option" where
  "iter_records J now D cfg fuel s =
     (case wait_for_assignment D cfg s of
        (s1, Inl e) \<Rightarrow> Some (s1, Inl e)
      | (s1, Inr assignment) \<Rightarrow>
          if assignment = []
          then Some (mark_scan_completed now (s1\<lparr>sr_scan_count := Suc (sr_scan_count s1)\<rparr>), Inr ([], []))
          else (case apply_start_offsets D cfg s1 of
             (s2, Inl e) \<Rightarrow> Some (s2, Inl e)
           | (s2, Inr _) \<Rightarrow>
               (case partition_highwater_offsets D cfg assignment s2 of
                  (s3, highwater) \<Rightarrow>
                    (case compaction_loop J now D cfg highwater fuel 0
                            \<lparr>sc_source = s3,
                             sc_compaction = compaction_init (ds_compaction_spill_threshold cfg) (ds_payload_policy cfg),
                             sc_sequence = 0, sc_seen = []\<rparr> of
                       None \<Rightarrow> None
                     | Some (x, Inl e) \<Rightarrow> Some (sc_source x, Inl e)
                     | Some (x, Inr _) \<Rightarrow> Some (finish_scan J now cfg x)))))"

section \<open>Replay\<close>

fun replayable :: "dlq_record list \<Rightarrow> 'c dlq_source \<Rightarrow> 'c dlq_source \<times> dlq_record list" where
  "replayable [] s = (s, [])"
| "replayable (r # rs) s =
     (if (case q_max_attempts r of None \<Rightarrow> False | Some n \<Rightarrow> q_attempt r \<ge> n)
      then replayable rs (s\<lparr>sr_retry_filtered_count := Suc (sr_retry_filtered_count s)\<rparr>)
      else (case replayable rs (s\<lparr>sr_replayable_record_count := Suc (sr_replayable_record_count s)\<rparr>) of
              (s', out) \<Rightarrow> (s', r # out)))"

definition dlq_stream ::
    "dlq_codec \<Rightarrow> (nat \<Rightarrow> int) \<Rightarrow> 'c dlq_consumer_ops \<Rightarrow> dlq_source_settings \<Rightarrow> nat \<Rightarrow> 'c dlq_source
     \<Rightarrow> ('c dlq_source \<times> (dlq_record list \<times> dlq_message list) result) option" where
  "dlq_stream J now D cfg fuel s =
     (case iter_records J now D cfg fuel (s\<lparr>sr_replayable_record_count := 0\<rparr>) of
        None \<Rightarrow> None
      | Some (s', Inl e) \<Rightarrow> Some (s', Inl e)
      | Some (s', Inr (records, seen)) \<Rightarrow>
          (case replayable records s' of (s'', out) \<Rightarrow> Some (s'', Inr (out, seen))))"

section \<open>What a scan yields\<close>

text \<open>The compaction update a message stands for.\<close>

definition op_of :: "dlq_codec \<Rightarrow> dlq_policy option \<Rightarrow> dlq_message \<Rightarrow> string \<times> dlq_record option" where
  "op_of J policy m =
     (case decode_message J policy m of
        Inl _ \<Rightarrow> ([], None)
      | Inr (operation, storage_key, r) \<Rightarrow> (storage_key, if operation = ''delete'' then None else r))"

definition scan_inv :: "dlq_codec \<Rightarrow> dlq_source_settings \<Rightarrow> 'c scan_state \<Rightarrow> bool" where
  "scan_inv J cfg x \<longleftrightarrow>
     sc_sequence x = int (length (sc_seen x)) \<and>
     feed (compaction_update J) 0 (map (op_of J (ds_payload_policy cfg)) (sc_seen x))
       (compaction_init (ds_compaction_spill_threshold cfg) (ds_payload_policy cfg)) = (sc_compaction x, Inr ())"

lemma handle_message_inv:
  assumes "handle_message J now (ds_payload_policy cfg) m x = (x', Inr ())" "scan_inv J cfg x"
  shows "scan_inv J cfg x'"
proof -
  obtain operation key r where dec: "decode_message J (ds_payload_policy cfg) m = Inr (operation, key, r)"
    using assms(1) by (auto simp: handle_message_def split: sum.splits prod.splits)
  obtain c where "compaction_update J (sc_sequence x) key (if operation = ''delete'' then None else r) (sc_compaction x) = (c, Inr ())"
      "sc_compaction x' = c" "sc_sequence x' = sc_sequence x + 1" "sc_seen x' = sc_seen x @ [m]"
    using assms(1) dec by (auto simp: handle_message_def split: sum.splits prod.splits)
  then show ?thesis
    using assms(2) dec by (simp add: scan_inv_def feed_append op_of_def thenE_def bindE_def)
qed

lemma handle_messages_inv:
  "\<lbrakk>handle_messages J now (ds_payload_policy cfg) ms x = (x', Inr ()); scan_inv J cfg x\<rbrakk> \<Longrightarrow> scan_inv J cfg x'"
  by (induction ms arbitrary: x)
    (auto simp: thenE_def bindE_def split: prod.splits sum.splits dest: handle_message_inv)

lemma scan_inv_on_source: "on_source f x = (x', r) \<Longrightarrow> scan_inv J cfg x' \<longleftrightarrow> scan_inv J cfg x"
  by (auto simp: on_source_def scan_inv_def split: prod.splits)

lemma scan_inv_source [simp]: "scan_inv J cfg (x\<lparr>sc_source := s\<rparr>) \<longleftrightarrow> scan_inv J cfg x"
  by (simp add: scan_inv_def)

lemma compaction_loop_inv:
  "\<lbrakk>compaction_loop J now D cfg highwater fuel idle x = Some (x', Inr ()); scan_inv J cfg x\<rbrakk> \<Longrightarrow> scan_inv J cfg x'"
proof (induction fuel arbitrary: idle x)
  case (Suc fuel)
  show ?case
  proof (cases "idle < ds_scan_idle_polls cfg")
    case True
    with Suc.prems(1) obtain x1 batches where x1: "on_source (next_batches D cfg) x = (x1, Inr batches)"
      by (auto split: prod.splits sum.splits)
    with True Suc.prems(1) obtain x2
      where x2: "handle_messages J now (ds_payload_policy cfg) (concat (map snd batches)) x1 = (x2, Inr ())"
      by (auto split: prod.splits sum.splits)
    have inv2: "scan_inv J cfg x2"
      using handle_messages_inv [OF x2] scan_inv_on_source [OF x1] Suc.prems(2) by simp
    show ?thesis
    proof (cases "highwater = []")
      case hw: True
      show ?thesis using Suc.IH [OF _ inv2] Suc.prems(1) True x1 x2 hw by (simp add: Let_def)
    next
      case hw: False
      with Suc.prems(1) True x1 x2 obtain x3 b where x3: "on_source (positions_reached_highwater D highwater) x2 = (x3, Inr b)"
        by (auto simp: Let_def split: prod.splits sum.splits)
      then have "scan_inv J cfg x3" using inv2 scan_inv_on_source by blast
      then show ?thesis
        using Suc.IH [of _ x3] Suc.prems(1) True x1 x2 x3 hw by (cases b) (auto simp: Let_def)
    qed
  qed (use Suc.prems in simp)
qed simp

definition limited :: "int option \<Rightarrow> 'a list \<Rightarrow> 'a list" where
  "limited limit rs = (case limit of None \<Rightarrow> rs | Some n \<Rightarrow> take (nat n) rs)"

lemma yield_records_result:
  "(case ds_limit cfg of None \<Rightarrow> True | Some n \<Rightarrow> yielded < n) \<Longrightarrow>
   snd (yield_records now cfg yielded rs s) =
     limited (map_option (\<lambda>n. n - yielded) (ds_limit cfg)) (filter (matches_filter cfg) rs)"
proof (induction now cfg yielded rs s rule: yield_records.induct)
  case (2 now cfg yielded r rs s)
  show ?case
  proof (cases "matches_filter cfg r")
    case True
    show ?thesis
    proof (cases "ds_limit cfg")
      case None
      with 2 True show ?thesis by (auto simp: limited_def Let_def split: prod.splits)
    next
      case (Some n)
      have "nat (n - yielded) = Suc (nat (n - (yielded + 1)))" using 2(3) Some by simp
      with 2 True Some show ?thesis
        by (cases "yielded + 1 < n") (auto simp: limited_def Let_def split: prod.splits)
    qed
  qed (use 2 in \<open>simp\<close>)
qed (simp add: limited_def split: option.split)

definition exhausted :: "dlq_record \<Rightarrow> bool" where
  "exhausted r \<longleftrightarrow> (case q_max_attempts r of None \<Rightarrow> False | Some n \<Rightarrow> q_attempt r \<ge> n)"

lemma replayable_result: "snd (replayable rs s) = filter (\<lambda>r. \<not> exhausted r) rs"
  by (induction rs s rule: replayable.induct) (auto simp: exhausted_def split: prod.splits)

lemma decoded_storage_id:
  "decode_dlq_envelope J policy d = Inr (operation, key, Some q) \<Longrightarrow> q_storage_id q = Some key"
  by (auto simp: decode_dlq_envelope_def result_simps Let_def split: option.splits)

lemma op_of_stored_under:
  assumes "\<And>operation key q. decode_message J policy m = Inr (operation, key, Some q) \<Longrightarrow> storable J policy q"
  shows "case op_of J policy m of (k, r) \<Rightarrow> stored_under J policy k r"
  using assms
  by (auto simp: op_of_def stored_under_def decode_message_def result_simps dest: decoded_storage_id
      split: sum.splits prod.splits if_splits)

text \<open>
  The messages a scan handled can be written and read back: the hypothesis under which spilling is
  transparent.
\<close>

definition storable_messages :: "dlq_codec \<Rightarrow> dlq_policy option \<Rightarrow> dlq_message list \<Rightarrow> bool" where
  "storable_messages J policy ms \<longleftrightarrow>
     (\<forall>m\<in>set ms. \<forall>operation key q. decode_message J policy m = Inr (operation, key, Some q) \<longrightarrow> storable J policy q)"

lemma finish_scan_result:
  assumes "scan_inv J cfg x" "storable_messages J (ds_payload_policy cfg) (sc_seen x)"
    "case ds_limit cfg of None \<Rightarrow> True | Some n \<Rightarrow> 1 \<le> n"
  shows "snd (finish_scan J now cfg x) = Inr
    (limited (ds_limit cfg) (filter (matches_filter cfg) (map (stored_record (cd_repr J) (ds_payload_policy cfg))
       (map snd (last_puts (map (op_of J (ds_payload_policy cfg)) (sc_seen x)))))), sc_seen x)"
proof -
  let ?P = "ds_payload_policy cfg"
  let ?ops = "map (op_of J ?P) (sc_seen x)"
  have "\<forall>(k, r)\<in>set ?ops. stored_under J ?P k r"
    using assms(2) op_of_stored_under [of J ?P] by (fastforce simp: storable_messages_def)
  with compaction.live_after_feed [of J "compaction_init (ds_compaction_spill_threshold cfg) ?P" ?ops] assms(1)
  have live: "live_records J (sc_compaction x) = Inr (map (map_prod id (stored_record (cd_repr J) ?P)) (last_puts ?ops))"
    by (simp add: scan_inv_def compaction_init_def compaction_holds_def)
  let ?live = "map (map_prod id (stored_record (cd_repr J) ?P)) (last_puts ?ops)"
  let ?s = "(sc_source x)\<lparr>sr_scan_count := Suc (sr_scan_count (sc_source x)), sr_live_record_count := length ?live,
      sr_matched_record_count := 0\<rparr>"
  obtain s' out where y: "yield_records now cfg 0 (map snd ?live) ?s = (s', out)"
    by (cases "yield_records now cfg 0 (map snd ?live) ?s")
  have "(case ds_limit cfg of None \<Rightarrow> True | Some n \<Rightarrow> 0 < n)" "map_option (\<lambda>n. n - 0) (ds_limit cfg) = ds_limit cfg"
    using assms(3) by (auto split: option.splits simp: option.map_ident)
  then have "out = limited (ds_limit cfg) (filter (matches_filter cfg) (map snd ?live))"
    using yield_records_result [where cfg = cfg and yielded = 0 and now = now and rs = "map snd ?live" and s = ?s] y by simp
  moreover have "finish_scan J now cfg x = (s', Inr (out, sc_seen x))"
    using live y by (simp only: finish_scan_def Let_def sum.case prod.case)
  ultimately show ?thesis by (simp add: o_def)
qed

lemma iter_records_result:
  assumes run: "iter_records J now D cfg fuel s = Some (s', Inr (records, seen))"
    and ok: "storable_messages J (ds_payload_policy cfg) seen" "case ds_limit cfg of None \<Rightarrow> True | Some n \<Rightarrow> 1 \<le> n"
  shows "records = limited (ds_limit cfg) (filter (matches_filter cfg) (map (stored_record (cd_repr J) (ds_payload_policy cfg))
       (map snd (last_puts (map (op_of J (ds_payload_policy cfg)) seen)))))"
proof (cases "seen = [] \<and> records = []")
  case True
  then show ?thesis by (simp add: last_puts_def survivors_def limited_def split: option.split)
next
  case False
  with run obtain highwater s3 x where
      loop: "compaction_loop J now D cfg highwater fuel 0
        \<lparr>sc_source = s3, sc_compaction = compaction_init (ds_compaction_spill_threshold cfg) (ds_payload_policy cfg),
         sc_sequence = 0, sc_seen = []\<rparr> = Some (x, Inr ())"
      and fin: "finish_scan J now cfg x = (s', Inr (records, seen))"
    by (auto simp: iter_records_def split: prod.splits sum.splits if_splits option.splits)
  have inv: "scan_inv J cfg x" by (rule compaction_loop_inv [OF loop]) (simp add: scan_inv_def)
  have "seen = sc_seen x"
    using fin by (auto simp: finish_scan_def Let_def split: sum.splits prod.splits)
  then show ?thesis using finish_scan_result [OF inv _ ok(2), of now] ok(1) fin by simp
qed

section \<open>The scan ends\<close>

text \<open>
  What the client promises on a topic nobody writes to during the scan: a number of messages left to fetch
  that a poll with messages lowers and nothing else in the loop raises.
\<close>

definition drains :: "'c dlq_consumer_ops \<Rightarrow> ('c \<Rightarrow> nat) \<Rightarrow> bool" where
  "drains D backlog \<longleftrightarrow>
     (\<forall>t c. case do_getmany D t c of
        (c', Inl _) \<Rightarrow> True
      | (c', Inr b) \<Rightarrow> if list_ex (\<lambda>x. snd x \<noteq> []) b then backlog c' < backlog c else backlog c' \<le> backlog c) \<and>
     (\<forall>f. do_position D = Some f \<longrightarrow> (\<forall>tp c. backlog (fst (f tp c)) \<le> backlog c))"

definition waiting :: "('c \<Rightarrow> nat) \<Rightarrow> 'c dlq_source \<Rightarrow> nat" where
  "waiting backlog s = length (sr_prefetch s) + backlog (sr_consumer s)"

lemma next_batches_waiting:
  assumes "drains D backlog" "next_batches D cfg s = (s', Inr batches)"
  shows "if list_ex (\<lambda>x. snd x \<noteq> []) batches then waiting backlog s' < waiting backlog s
    else waiting backlog s' \<le> waiting backlog s"
proof (cases "sr_prefetch s")
  case Nil
  then obtain c' where "do_getmany D (ds_poll_timeout_ms cfg) (sr_consumer s) = (c', Inr batches)"
      "s' = s\<lparr>sr_consumer := c'\<rparr>"
    using assms(2) by (auto simp: next_batches_def on_consumer_def split: prod.splits)
  then show ?thesis
    using assms(1) unfolding drains_def waiting_def
    by (auto dest!: spec [of _ "ds_poll_timeout_ms cfg"] spec [of _ "sr_consumer s"] split: if_splits)
next
  case (Cons b bs)
  then show ?thesis using assms(2) by (auto simp: next_batches_def waiting_def)
qed

lemma all_reached_waiting:
  assumes "\<forall>tp c. backlog (fst (f tp c)) \<le> backlog c"
  shows "waiting backlog (fst (all_reached f hw s)) \<le> waiting backlog s"
proof (induction hw arbitrary: s)
  case (Cons e hw)
  obtain tp h where e: "e = (tp, h)" by (cases e)
  obtain c' r where f: "f tp (sr_consumer s) = (c', r)" by (cases "f tp (sr_consumer s)")
  then have "backlog c' \<le> backlog (sr_consumer s)" using assms by (metis fst_conv)
  then have "waiting backlog (s\<lparr>sr_consumer := c'\<rparr>) \<le> waiting backlog s" by (simp add: waiting_def)
  then show ?case
    using Cons.IH [of "s\<lparr>sr_consumer := c'\<rparr>"] e f
    by (auto simp: bindE_def on_consumer_def split: sum.splits)
qed simp

lemma positions_waiting:
  assumes "drains D backlog" "positions_reached_highwater D hw s = (s', r)"
  shows "waiting backlog s' \<le> waiting backlog s"
  using assms all_reached_waiting [of backlog _ hw s]
  by (auto simp: positions_reached_highwater_def drains_def split: option.splits) (metis fst_conv)

lemma handle_message_waiting:
  "sr_prefetch (sc_source (fst (handle_message J now policy m x))) = sr_prefetch (sc_source x)"
  "sr_consumer (sc_source (fst (handle_message J now policy m x))) = sr_consumer (sc_source x)"
  by (auto simp: handle_message_def count_message_def Let_def split: sum.splits prod.splits)

lemma handle_messages_waiting:
  "waiting backlog (sc_source (fst (handle_messages J now policy ms x))) = waiting backlog (sc_source x)"
proof (induction ms arbitrary: x)
  case (Cons m ms)
  obtain x1 r where x1: "handle_message J now policy m x = (x1, r)" by (cases "handle_message J now policy m x")
  then have "waiting backlog (sc_source x1) = waiting backlog (sc_source x)"
    using handle_message_waiting [of J now policy m x] by (simp add: waiting_def)
  then show ?case using Cons.IH [of x1] x1 by (auto simp: thenE_def bindE_def split: sum.splits)
qed simp

text \<open>The fuel that is enough: every iteration lowers it.\<close>

definition scan_fuel :: "('c \<Rightarrow> nat) \<Rightarrow> dlq_source_settings \<Rightarrow> int \<Rightarrow> 'c scan_state \<Rightarrow> nat" where
  "scan_fuel backlog cfg idle x =
     waiting backlog (sc_source x) * Suc (nat (ds_scan_idle_polls cfg)) + nat (ds_scan_idle_polls cfg - idle)"

lemma scan_fuel_decreases:
  assumes "idle < ds_scan_idle_polls cfg" "0 \<le> idle"
    "if busy then waiting backlog (sc_source x') < waiting backlog (sc_source x)
     else waiting backlog (sc_source x') \<le> waiting backlog (sc_source x)"
  shows "scan_fuel backlog cfg (if busy then 0 else idle + 1) x' < scan_fuel backlog cfg idle x"
proof (cases busy)
  case True
  let ?I = "nat (ds_scan_idle_polls cfg)"
  have "Suc (waiting backlog (sc_source x')) * Suc ?I \<le> waiting backlog (sc_source x) * Suc ?I"
    using assms(3) True by (intro mult_le_mono1) simp
  then have "waiting backlog (sc_source x') * Suc ?I + ?I < waiting backlog (sc_source x) * Suc ?I" by simp
  with True show ?thesis by (simp add: scan_fuel_def)
next
  case False
  have "waiting backlog (sc_source x') * Suc (nat (ds_scan_idle_polls cfg)) \<le>
      waiting backlog (sc_source x) * Suc (nat (ds_scan_idle_polls cfg))"
    using assms(3) False by (intro mult_le_mono1) simp
  with False assms(1,2) show ?thesis by (simp add: scan_fuel_def)
qed

lemma compaction_loop_returns:
  assumes "drains D backlog"
  shows "\<lbrakk>0 \<le> idle; scan_fuel backlog cfg idle x < fuel\<rbrakk> \<Longrightarrow>
    compaction_loop J now D cfg highwater fuel idle x \<noteq> None"
proof (induction fuel arbitrary: idle x)
  case (Suc fuel)
  show ?case
  proof (cases "idle < ds_scan_idle_polls cfg")
    case True
    obtain s1 rb where nb: "next_batches D cfg (sc_source x) = (s1, rb)" by (cases "next_batches D cfg (sc_source x)")
    show ?thesis
    proof (cases rb)
      case (Inr batches)
      let ?busy = "list_ex (\<lambda>b. snd b \<noteq> []) batches"
      let ?idle = "if ?busy then 0 else idle + 1"
      let ?x1 = "x\<lparr>sc_source := s1\<rparr>"
      obtain x2 rh where x2: "handle_messages J now (ds_payload_policy cfg) (concat (map snd batches)) ?x1 = (x2, rh)"
        by (cases "handle_messages J now (ds_payload_policy cfg) (concat (map snd batches)) ?x1")
      have w2: "waiting backlog (sc_source x2) = waiting backlog s1"
        using handle_messages_waiting [of backlog J now "ds_payload_policy cfg" "concat (map snd batches)" ?x1] x2 by simp
      have less: "compaction_loop J now D cfg highwater fuel ?idle x' \<noteq> None"
        if "waiting backlog (sc_source x') \<le> waiting backlog s1" for x'
      proof (rule Suc.IH)
        have "if ?busy then waiting backlog (sc_source x') < waiting backlog (sc_source x)
            else waiting backlog (sc_source x') \<le> waiting backlog (sc_source x)"
          using next_batches_waiting [OF assms nb [unfolded Inr]] that by (auto split: if_splits)
        from scan_fuel_decreases [OF True Suc.prems(1) this] show "scan_fuel backlog cfg ?idle x' < fuel"
          using Suc.prems(2) by simp
      qed (use Suc.prems(1) in simp)
      obtain s3 rp where x3: "positions_reached_highwater D highwater (sc_source x2) = (s3, rp)"
        by (cases "positions_reached_highwater D highwater (sc_source x2)")
      have "waiting backlog s3 \<le> waiting backlog s1" using positions_waiting [OF assms x3] w2 by simp
      then show ?thesis
        using True nb Inr x2 x3 less [of x2] less [of "x2\<lparr>sc_source := s3\<rparr>"] w2
        by (auto simp: on_source_def Let_def split: sum.splits bool.splits)
    qed (use True nb in \<open>simp add: on_source_def\<close>)
  qed simp
qed simp

section \<open>Properties\<close>

text \<open>
  C31: what a replay of the dead-letter topic hands out.  When the stream of a source returns, the records it
  yielded are computed from the messages it scanned as the specification says: the last put of every storage
  key that no later message deletes, as the policy stores it, in order of arrival; of these the ones of the
  configured pipeline and stage, the first \<open>limit\<close> of them, and of those the ones with attempts left.  The
  spill threshold has no influence.
\<close>

theorem replay_yields_last_puts:
  assumes run: "dlq_stream J now D cfg fuel s = Some (s', Inr (records, seen))"
    and ok: "storable_messages J (ds_payload_policy cfg) seen" "case ds_limit cfg of None \<Rightarrow> True | Some n \<Rightarrow> 1 \<le> n"
  shows "records = filter (\<lambda>r. \<not> exhausted r) (limited (ds_limit cfg) (filter (matches_filter cfg)
    (map (stored_record (cd_repr J) (ds_payload_policy cfg))
      (map snd (last_puts (map (op_of J (ds_payload_policy cfg)) seen))))))"
proof -
  obtain s1 all where iter: "iter_records J now D cfg fuel (s\<lparr>sr_replayable_record_count := 0\<rparr>) = Some (s1, Inr (all, seen))"
      and records: "records = snd (replayable all s1)"
    using run by (auto simp: dlq_stream_def split: option.splits sum.splits prod.splits)
  show ?thesis
    unfolding records replayable_result iter_records_result [OF iter ok] ..
qed

text \<open>A client over a fixed log with one partition, one message per poll.\<close>

definition log_consumer :: "dlq_message list \<Rightarrow> nat dlq_consumer_ops" where
  "log_consumer log =
     \<lparr>do_assignment = (\<lambda>_. [TopicPartition ''dlq'' 0]),
      do_getmany = (\<lambda>_ c. if c < length log then (Suc c, Inr [(TopicPartition ''dlq'' 0, [log ! c])]) else (c, Inr [])),
      do_seek = None, do_end_offsets = None, do_position = None\<rparr>"

definition sample_log :: "dlq_message list" where
  "sample_log =
     [encode_dlq_envelope sample_dlq_codec ''a'' ''put'' (Some sample_record) None,
      encode_dlq_envelope sample_dlq_codec ''b'' ''put'' (Some (sample_record\<lparr>q_attempt := 2\<rparr>)) None,
      encode_dlq_envelope sample_dlq_codec ''c'' ''put'' (Some (sample_record\<lparr>q_attempt := 3\<rparr>)) None,
      encode_dlq_envelope sample_dlq_codec ''a'' ''delete'' None None]"

definition sample_settings :: dlq_source_settings where
  "sample_settings =
     \<lparr>ds_topics = [''dlq''], ds_topic_pattern = None, ds_assignments = [], ds_group_id = ''g'', ds_pipeline_id = Some ''p'',
      ds_stage = None, ds_limit = Some 5, ds_poll_timeout_ms = 500, ds_scan_idle_polls = 2, ds_stop_at_highwater = True,
      ds_start_offsets = [], ds_compaction_spill_threshold = Some 1, ds_payload_policy = None\<rparr>"

definition fresh_source :: "'c \<Rightarrow> 'c dlq_source" where
  "fresh_source c =
     \<lparr>sr_scan_count = 0, sr_scanned_message_count = 0, sr_upsert_event_count = 0, sr_delete_event_count = 0,
      sr_start_offset_seek_count = 0, sr_highwater_stop_count = 0, sr_live_record_count = 0, sr_matched_record_count = 0,
      sr_replayable_record_count = 0, sr_retry_filtered_count = 0, sr_last_scan_completed_at = None,
      sr_last_record_seen_at = None, sr_clock_reads = 0, sr_prefetch = [], sr_consumer = c\<rparr>"

lemma sample_messages_storable: "storable_messages sample_dlq_codec None ms"
  by (simp add: storable_messages_def storable_def wf_record_def keeps_parsed_fields_def plain_policy_def
      cipher_inverse_def encrypts_def sample_dlq_codec_def)

definition sample_replay :: "(dlq_record list \<times> dlq_message list) option" where
  "sample_replay =
     (case dlq_stream sample_dlq_codec int (log_consumer sample_log) sample_settings 10 (fresh_source 0) of
        Some (s, Inr out) \<Rightarrow> Some out | _ \<Rightarrow> None)"

lemma sample_replay_runs:
  "map_option (\<lambda>out. (map q_storage_id (fst out), length (snd out))) sample_replay = Some ([Some ''b''], 4)"
  by code_simp

theorem replay_yields_last_puts_witness:
  "\<exists>s' records seen. dlq_stream sample_dlq_codec int (log_consumer sample_log) sample_settings 10 (fresh_source 0) =
      Some (s', Inr (records, seen)) \<and> length seen = 4 \<and> map q_storage_id records = [Some ''b''] \<and>
    records = filter (\<lambda>r. \<not> exhausted r) (limited (ds_limit sample_settings) (filter (matches_filter sample_settings)
      (map (stored_record (cd_repr sample_dlq_codec) (ds_payload_policy sample_settings))
        (map snd (last_puts (map (op_of sample_dlq_codec (ds_payload_policy sample_settings)) seen))))))"
proof -
  obtain s' records seen
    where run: "dlq_stream sample_dlq_codec int (log_consumer sample_log) sample_settings 10 (fresh_source 0) =
        Some (s', Inr (records, seen))" and seen: "length seen = 4" and ids: "map q_storage_id records = [Some ''b'']"
    using sample_replay_runs by (auto simp: sample_replay_def split: option.splits prod.splits sum.splits)
  have "storable_messages sample_dlq_codec (ds_payload_policy sample_settings) seen"
    "case ds_limit sample_settings of None \<Rightarrow> True | Some n \<Rightarrow> 1 \<le> n"
    by (simp_all add: sample_settings_def sample_messages_storable)
  note yields = replay_yields_last_puts [OF run this]
  show ?thesis by (intro exI conjI) (rule run seen ids yields)+
qed

text \<open>
  C33: a scan of a topic that is not written to meanwhile returns: for every source state there is a number of
  loop iterations after which the stream has ended, normally or with the client's or a decoding error.
\<close>

theorem replay_returns:
  assumes "drains D backlog"
  shows "\<exists>bound. \<forall>fuel > bound. dlq_stream J now D cfg fuel s \<noteq> None"
proof -
  let ?s = "s\<lparr>sr_replayable_record_count := 0\<rparr>"
  let ?init = "\<lambda>s3. \<lparr>sc_source = s3, sc_compaction = compaction_init (ds_compaction_spill_threshold cfg) (ds_payload_policy cfg),
      sc_sequence = 0, sc_seen = []\<rparr>"
  obtain s1 ra where s1: "wait_for_assignment D cfg ?s = (s1, ra)" by (cases "wait_for_assignment D cfg ?s")
  obtain s2 rs where s2: "apply_start_offsets D cfg s1 = (s2, rs)" by (cases "apply_start_offsets D cfg s1")
  obtain s3 hw where s3: "partition_highwater_offsets D cfg (projr ra) s2 = (s3, hw)"
    by (cases "partition_highwater_offsets D cfg (projr ra) s2")
  have "dlq_stream J now D cfg fuel s \<noteq> None" if "scan_fuel backlog cfg 0 (?init s3) < fuel" for fuel
    using compaction_loop_returns [OF assms, of 0 cfg "?init s3" fuel J now hw] that s1 s2 s3
    by (auto simp: dlq_stream_def iter_records_def split: prod.splits sum.splits option.splits)
  then show ?thesis by blast
qed

theorem replay_returns_witness:
  "\<exists>bound. dlq_stream sample_dlq_codec int (log_consumer sample_log) sample_settings (Suc bound) (fresh_source 0) \<noteq> None"
proof -
  have "drains (log_consumer sample_log) (\<lambda>c. length sample_log - c)"
    by (auto simp: drains_def log_consumer_def)
  from replay_returns [OF this] show ?thesis by blast
qed

text \<open>
  The settings of a dead-letter source that is constructed: exactly one way of subscribing, assignments
  sorted and without repetition, a limit of at least one, a spill threshold that is not negative, at least
  one idle poll and a positive poll timeout; so the scan loop is entered and the limit of a scan is sound.
\<close>

lemma dlq_settings_sound:
  assumes "build_kafka_dlq_source_settings resolved a = Inr cfg"
  shows "((ds_topics cfg \<noteq> []) \<noteq> (ds_topic_pattern cfg \<noteq> None)) \<noteq> (ds_assignments cfg \<noteq> []) \<and>
    \<not> (ds_topics cfg \<noteq> [] \<and> ds_topic_pattern cfg \<noteq> None) \<and>
    sorted (ds_assignments cfg) \<and> distinct (ds_assignments cfg) \<and> set (ds_assignments cfg) = set (da_assignments a) \<and>
    (case ds_limit cfg of None \<Rightarrow> True | Some n \<Rightarrow> 1 \<le> n) \<and>
    (case ds_compaction_spill_threshold cfg of None \<Rightarrow> True | Some n \<Rightarrow> 0 \<le> n) \<and>
    1 \<le> ds_scan_idle_polls cfg \<and> 1 \<le> ds_poll_timeout_ms cfg \<and> ds_group_id cfg \<noteq> []"
proof -
  obtain topics where "validate_subscription_inputs topics (da_topic_pattern a) (normalize_assignments (da_assignments a)) = Inr ()"
      "ds_topics cfg = topics" "ds_topic_pattern cfg = da_topic_pattern a"
      "ds_assignments cfg = normalize_assignments (da_assignments a)"
    using assms by (auto simp: build_kafka_dlq_source_settings_def result_simps Let_def split: if_splits)
  then have "((ds_topics cfg \<noteq> []) \<noteq> (ds_topic_pattern cfg \<noteq> None)) \<noteq> (ds_assignments cfg \<noteq> [])"
      "\<not> (ds_topics cfg \<noteq> [] \<and> ds_topic_pattern cfg \<noteq> None)"
      "sorted (ds_assignments cfg)" "distinct (ds_assignments cfg)" "set (ds_assignments cfg) = set (da_assignments a)"
    by (auto simp: validate_subscription_inputs_def normalize_assignments_def split: if_splits)
  moreover have "(case ds_limit cfg of None \<Rightarrow> True | Some n \<Rightarrow> 1 \<le> n)"
      "(case ds_compaction_spill_threshold cfg of None \<Rightarrow> True | Some n \<Rightarrow> 0 \<le> n)"
      "1 \<le> ds_scan_idle_polls cfg" "1 \<le> ds_poll_timeout_ms cfg" "ds_group_id cfg \<noteq> []"
    using assms
    by (auto simp: build_kafka_dlq_source_settings_def result_simps Let_def not_less
        split: if_splits option.splits list.splits)
  ultimately show ?thesis by blast
qed

end
