(* ===== verification/DLQ_Sink.thy ===== *)
theory DLQ_Sink
  imports DLQ_Records
begin

text \<open>
  The dead-letter sink: the envelope codec (\<^verbatim>\<open>kafka/_dlq_sink_codec.py\<close>) and the operations with their
  counters (\<^verbatim>\<open>kafka/_dlq_sink_surface.py\<close>).  The Kafka sink that publishes an envelope, the base class's
  \<^verbatim>\<open>replay\<close>, the clock and the UUIDs are parameters.
\<close>

section \<open>State\<close>

record dlq_sink_config =
  sg_codec :: dlq_codec
  sg_key_fn :: "(dlq_record \<Rightarrow> storage_value) option"
  sg_payload_policy :: "dlq_policy option"
  sg_now :: "nat \<Rightarrow> int"
  sg_uuid :: "nat \<Rightarrow> string"
  sg_replay_record :: "dlq_record \<Rightarrow> dlq_record result"

record 'k envelope_writer =
  ew_write :: "(string, pyval) dict \<Rightarrow> ('k, unit) eff"
  ew_write_batch :: "(string, pyval) dict list \<Rightarrow> ('k, unit) eff"

record 'k dlq_sink =
  sk_write_count :: nat
  sk_write_batch_count :: nat
  sk_replay_count :: nat
  sk_acknowledge_count :: nat
  sk_upsert_count :: nat
  sk_delete_count :: nat
  sk_last_write_at :: "int option"
  sk_last_replay_at :: "int option"
  sk_last_acknowledge_at :: "int option"
  sk_clock_reads :: nat
  sk_uuid_reads :: nat
  sk_sink :: 'k

definition dlq_sink_init :: "'k \<Rightarrow> 'k dlq_sink" where
  "dlq_sink_init k =
     \<lparr>sk_write_count = 0, sk_write_batch_count = 0, sk_replay_count = 0, sk_acknowledge_count = 0, sk_upsert_count = 0,
      sk_delete_count = 0, sk_last_write_at = None, sk_last_replay_at = None, sk_last_acknowledge_at = None,
      sk_clock_reads = 0, sk_uuid_reads = 0, sk_sink = k\<rparr>"

section \<open>Codec\<close>

text \<open>The object a published value denotes; \<^verbatim>\<open>serialize\<close> dumps with sorted keys.\<close>

definition serialize :: "(string, pyval) dict \<Rightarrow> (string, pyval) dict" where
  "serialize envelope = dict_of (json_sorted (PDict envelope))"

definition partition_key :: "dlq_codec \<Rightarrow> (string, pyval) dict \<Rightarrow> string result" where
  "partition_key J envelope = payload_str (cd_repr J) envelope ''storage_key''"

definition envelope_headers :: "dlq_codec \<Rightarrow> (string, pyval) dict \<Rightarrow> (string \<times> string) list result" where
  "envelope_headers J envelope =
     bindR (case dict_getd envelope ''payload'' PNone of
              PNone \<Rightarrow> Inr None
            | v \<Rightarrow> bindR (bindR (as_dict v) (payload_to_record J)) (\<lambda>q. Inr (Some q)))
       (\<lambda>r. bindR (payload_str (cd_repr J) envelope ''storage_key'') (\<lambda>storage_key.
             bindR (payload_str (cd_repr J) envelope ''op'') (\<lambda>operation.
               Inr (record_headers storage_key r operation))))"

text \<open>
  The storage key of a record; a UUID is drawn only for the default key.  The key is written back into the
  record.
\<close>

definition assign_storage_key ::
    "dlq_sink_config \<Rightarrow> dlq_record \<Rightarrow> 'k dlq_sink \<Rightarrow> 'k dlq_sink \<times> string \<times> dlq_record" where
  "assign_storage_key G r s =
     (let drawn = (q_storage_id r \<in> {None, Some []} \<and> sg_key_fn G = None);
          storage_key = record_storage_key (sg_uuid G (sk_uuid_reads s)) (sg_key_fn G) r
      in (if drawn then s\<lparr>sk_uuid_reads := Suc (sk_uuid_reads s)\<rparr> else s,
          storage_key, r\<lparr>q_storage_id := Some storage_key\<rparr>))"

definition build_upsert_envelope ::
    "dlq_sink_config \<Rightarrow> dlq_record \<Rightarrow> ('k dlq_sink, (string, pyval) dict \<times> dlq_record) eff" where
  "build_upsert_envelope G r s =
     (case assign_storage_key G r s of
        (s', storage_key, r') \<Rightarrow>
          (s', bindR (encode_dlq_envelope (sg_codec G) storage_key ''put'' (Some r') (sg_payload_policy G))
                 (\<lambda>envelope. Inr (envelope, r'))))"

definition build_delete_envelope ::
    "dlq_sink_config \<Rightarrow> dlq_record \<Rightarrow> ('k dlq_sink, (string, pyval) dict \<times> dlq_record) eff" where
  "build_delete_envelope G r s =
     (case assign_storage_key G r s of
        (s', storage_key, r') \<Rightarrow>
          (s', bindR (encode_dlq_envelope (sg_codec G) storage_key ''delete'' None None)
                 (\<lambda>envelope. Inr (envelope, r'))))"

fun build_upsert_envelopes ::
    "dlq_sink_config \<Rightarrow> dlq_record list \<Rightarrow> ('k dlq_sink, ((string, pyval) dict \<times> dlq_record) list) eff" where
  "build_upsert_envelopes G [] s = (s, Inr [])"
| "build_upsert_envelopes G (r # rs) s =
     bindE (build_upsert_envelope G r) (\<lambda>e. bindE (build_upsert_envelopes G rs) (\<lambda>es. returnE (e # es))) s"

section \<open>Operations\<close>

text \<open>
  Each operation returns the records as the caller holds them afterwards, with their storage keys; the counters
  move only after the Kafka sink has accepted the envelopes.
\<close>

definition publish :: "('k, unit) eff \<Rightarrow> ('k dlq_sink, unit) eff" where
  "publish m s = (case m (sk_sink s) of (k, r) \<Rightarrow> (s\<lparr>sk_sink := k\<rparr>, r))"

definition sink_write :: "dlq_sink_config \<Rightarrow> 'k envelope_writer \<Rightarrow> dlq_record \<Rightarrow> ('k dlq_sink, dlq_record) eff" where
  "sink_write G W r =
     bindE (build_upsert_envelope G r) (\<lambda>(envelope, r').
     thenE (publish (ew_write W envelope)) (\<lambda>s.
       (s\<lparr>sk_write_count := Suc (sk_write_count s), sk_upsert_count := Suc (sk_upsert_count s),
          sk_last_write_at := Some (sg_now G (sk_clock_reads s)), sk_clock_reads := Suc (sk_clock_reads s)\<rparr>, Inr r')))"

definition sink_write_batch ::
    "dlq_sink_config \<Rightarrow> 'k envelope_writer \<Rightarrow> dlq_record list \<Rightarrow> ('k dlq_sink, dlq_record list) eff" where
  "sink_write_batch G W rs =
     (if rs = [] then returnE []
      else bindE (build_upsert_envelopes G rs) (\<lambda>es.
        thenE (publish (ew_write_batch W (map fst es))) (\<lambda>s.
          (s\<lparr>sk_write_batch_count := Suc (sk_write_batch_count s), sk_upsert_count := sk_upsert_count s + length rs,
             sk_last_write_at := Some (sg_now G (sk_clock_reads s)), sk_clock_reads := Suc (sk_clock_reads s)\<rparr>,
           Inr (map snd es)))))"

definition sink_replay :: "dlq_sink_config \<Rightarrow> 'k envelope_writer \<Rightarrow> dlq_record \<Rightarrow> ('k dlq_sink, dlq_record) eff" where
  "sink_replay G W r s =
     (case sg_replay_record G r of
        Inl e \<Rightarrow> (s, Inl e)
      | Inr updated \<Rightarrow>
          bindE (build_upsert_envelope G updated) (\<lambda>(envelope, updated').
          thenE (publish (ew_write W envelope)) (\<lambda>s.
            (s\<lparr>sk_replay_count := Suc (sk_replay_count s), sk_upsert_count := Suc (sk_upsert_count s),
               sk_last_replay_at := Some (sg_now G (sk_clock_reads s)), sk_clock_reads := Suc (sk_clock_reads s)\<rparr>,
             Inr updated'))) s)"

definition sink_acknowledge :: "dlq_sink_config \<Rightarrow> 'k envelope_writer \<Rightarrow> dlq_record \<Rightarrow> ('k dlq_sink, dlq_record) eff" where
  "sink_acknowledge G W r =
     bindE (build_delete_envelope G r) (\<lambda>(envelope, r').
     thenE (publish (ew_write W envelope)) (\<lambda>s.
       (s\<lparr>sk_acknowledge_count := Suc (sk_acknowledge_count s), sk_delete_count := Suc (sk_delete_count s),
          sk_last_acknowledge_at := Some (sg_now G (sk_clock_reads s)), sk_clock_reads := Suc (sk_clock_reads s)\<rparr>, Inr r')))"

end
