(* ===== verification/DLQ_Queue.thy ===== *)
theory DLQ_Queue
  imports DLQ_Scan DLQ_Sink
begin

text \<open>
  The dead-letter queue as a whole: what the sink publishes decodes to what was put, and a replay of the topic
  yields the records that were put and not acknowledged.  The Kafka sink and the broker enter as a promise on
  the topic's log and on the order of the messages of one key.
\<close>

section \<open>Last operation of a key\<close>

text \<open>The updates of one storage key, in order.\<close>

definition of_key :: "string \<Rightarrow> (string \<times> 'r option) list \<Rightarrow> 'r option list" where
  "of_key k ops = map snd (filter (\<lambda>op. fst op = k) ops)"

text \<open>The records whose last update is a put.\<close>

definition live_set :: "(string \<times> 'r option) list \<Rightarrow> 'r set" where
  "live_set ops = {r. \<exists>k. of_key k ops \<noteq> [] \<and> last (of_key k ops) = Some r}"

lemma of_key_snoc: "of_key k (ops @ [(k', r)]) = (if k' = k then of_key k ops @ [r] else of_key k ops)"
  by (simp add: of_key_def)

lemma survivor_entries: "(!) ops ` set (survivors ops) = {(k, r). of_key k ops \<noteq> [] \<and> last (of_key k ops) = r}"
proof (induction ops rule: rev_induct)
  case Nil
  then show ?case by (simp add: survivors_def of_key_def)
next
  case (snoc op ops)
  obtain k' r' where op: "op = (k', r')" by (cases op)
  have "(!) (ops @ [op]) ` set (survivors ops) = (!) ops ` set (survivors ops)"
    by (rule image_cong) (auto simp: survivors_def nth_append)
  then have "(!) (ops @ [op]) ` {i \<in> set (survivors ops). fst (ops ! i) \<noteq> k'} = {e \<in> (!) ops ` set (survivors ops). fst e \<noteq> k'}"
    by (auto simp: survivors_def nth_append)
  then have "(!) (ops @ [op]) ` set (survivors (ops @ [op])) = {e \<in> (!) ops ` set (survivors ops). fst e \<noteq> k'} \<union> {(k', r')}"
    by (simp add: op survivors_snoc)
  also have "\<dots> = {(k, r). of_key k (ops @ [op]) \<noteq> [] \<and> last (of_key k (ops @ [op])) = r}"
    unfolding snoc.IH op by (auto simp: of_key_snoc split: if_splits)
  finally show ?case .
qed

lemma last_puts_live_set: "set (map snd (last_puts ops)) = live_set ops"
proof -
  have "r \<in> set (map snd (last_puts ops)) \<longleftrightarrow> (\<exists>i\<in>set (survivors ops). snd (ops ! i) = Some r)" for r
    unfolding last_puts_def by (auto simp: image_iff) (metis option.sel snd_conv)?
  moreover have "(\<exists>i\<in>set (survivors ops). snd (ops ! i) = Some r) \<longleftrightarrow> (\<exists>k. (k, Some r) \<in> (!) ops ` set (survivors ops))" for r
    unfolding image_iff by (metis prod.collapse snd_conv)
  ultimately have "set (map snd (last_puts ops)) = {r. \<exists>k. (k, Some r) \<in> (!) ops ` set (survivors ops)}" by blast
  then show ?thesis unfolding survivor_entries live_set_def by simp
qed

section \<open>What the sink publishes\<close>

text \<open>The published form of an envelope decodes like the envelope, with dictionaries in key order.\<close>

lemma dict_get_serialize:
  "distinct (dict_keys d) \<Longrightarrow> dict_get (serialize d) k = map_option json_sorted (dict_get d k)"
proof -
  assume d: "distinct (dict_keys d)"
  let ?m = "map (\<lambda>e. (fst e, json_sorted (snd e))) d"
  have "distinct (dict_keys ?m)" using d by (simp add: o_def)
  then have "dict_get (serialize d) = dict_get ?m"
    by (simp add: serialize_def dict_of_def dict_get_sorted)
  moreover have "dict_get ?m k = map_option json_sorted (dict_get d k)" by (induction d) auto
  ultimately show ?thesis by simp
qed

lemma decode_envelope_cong:
  "dict_get d = dict_get d' \<Longrightarrow> decode_dlq_envelope J policy d = decode_dlq_envelope J policy d'"
proof -
  assume eq: "dict_get d = dict_get d'"
  then have str: "payload_str R d = payload_str R d'" and rec: "payload_to_record J d = payload_to_record J d'" for R
    by (simp_all add: fun_eq_iff payload_to_record_def payload_str_def payload_item_def payload_optional_str_def
        payload_optional_int_def dict_getd_def)
  have decrypt: "decrypt_payload (codec_of J) p d = decrypt_payload (codec_of J) p d'" for p
    by (simp add: decrypt_payload_def eq cong: option.case_cong)
  have "decode_stored_payload J policy d = decode_stored_payload J policy d'"
    by (simp add: decode_stored_payload_def eq decrypt cong: option.case_cong)
  then show ?thesis by (simp add: decode_dlq_envelope_def eq str rec cong: option.case_cong)
qed

lemma encrypted_fields_text:
  assumes "encrypt_payload J p v = Inr e"
  shows "distinct (dict_keys (dict_update [(''op'', PStr a), (''storage_key'', PStr b)] e))"
    "map_option json_sorted (dict_get (dict_update [(''op'', PStr a), (''storage_key'', PStr b)] e) k) =
      dict_get (dict_update [(''op'', PStr a), (''storage_key'', PStr b)] e) k"
  using assms
  by (auto simp: encrypt_payload_def dict_update_def result_simps split: option.splits if_splits)

lemma decode_published_put:
  assumes "wf_record J q" "keeps_parsed_fields policy" "cipher_inverse J policy {q}"
    and enc: "encode_dlq_envelope J key ''put'' (Some q) policy = Inr env"
  shows "decode_dlq_envelope J policy (serialize env) =
    Inr (''put'', key, Some ((sorted_record (stored_record (cd_repr J) policy q))\<lparr>q_storage_id := Some key\<rparr>))"
proof (cases "encrypts policy")
  case True
  then obtain p e where p: "policy = Some p" "dp_mode p = ''encrypted''"
    and e: "encrypt_payload (codec_of J) p (PDict (raw_payload q)) = Inr e"
    and env: "env = dict_update [(''op'', PStr ''put''), (''storage_key'', PStr key)] e"
    using enc by (auto simp: encode_dlq_envelope_def Let_def result_simps encrypts_def record_to_payload_def
        policy_apply_def dict_of_def split: option.splits)
  have "dict_get (serialize env) = dict_get env"
    using encrypted_fields_text [OF e, of "''put''" key] unfolding env by (intro ext) (simp add: dict_get_serialize)
  then have "decode_dlq_envelope J policy (serialize env) = decode_dlq_envelope J policy env"
    by (rule decode_envelope_cong)
  then show ?thesis
    using decode_encoded_put [OF assms] True p by (simp add: read_back_def stored_record_def redacts_def)
next
  case False
  let ?d = "raw_payload (stored_record (cd_repr J) policy q)"
  have env: "env = [(''op'', PStr ''put''), (''storage_key'', PStr key), (''payload'', PDict ?d)]"
    using enc False record_to_payload_stored [OF assms(2)]
    by (cases policy) (auto simp: encode_dlq_envelope_def encrypts_def Let_def result_simps)
  obtain d where d: "json_sorted (PDict ?d) = PDict d" by simp
  have "payload_to_record J d = Inr ((sorted_record (stored_record (cd_repr J) policy q))\<lparr>q_storage_id := None\<rparr>)"
    by (rule payload_to_record_sorted [OF _ d]) (use assms(1) in simp)
  moreover have "dict_get (serialize env) k = map_option json_sorted (dict_get env k)" for k
    by (rule dict_get_serialize) (simp add: env)
  ultimately show ?thesis
    using d
    by (simp add: decode_dlq_envelope_def decode_stored_payload_def payload_str_def payload_item_def as_dict_def env
        del: json_sorted.simps(1))
qed

lemma decode_published_delete:
  "encode_dlq_envelope J key ''delete'' None None = Inr env \<Longrightarrow>
   decode_dlq_envelope J policy (serialize env) = Inr (''delete'', key, None)"
  by (auto simp: encode_dlq_envelope_def decode_dlq_envelope_def decode_stored_payload_def payload_str_def payload_item_def
      dict_get_serialize)

section \<open>Calls of the sink\<close>

datatype sink_call =
    Write dlq_record | WriteBatch "dlq_record list" | Replay dlq_record | Acknowledge dlq_record

text \<open>A call, with the updates of storage keys it has published when it returns.\<close>

definition put_of :: "dlq_record \<Rightarrow> string \<times> dlq_record option" where
  "put_of r = (the (q_storage_id r), Some r)"

fun run_call :: "dlq_sink_config \<Rightarrow> 'k envelope_writer \<Rightarrow> sink_call \<Rightarrow> ('k dlq_sink, (string \<times> dlq_record option) list) eff" where
  "run_call G W (Write r) = bindE (sink_write G W r) (\<lambda>r'. returnE [put_of r'])"
| "run_call G W (WriteBatch rs) = bindE (sink_write_batch G W rs) (\<lambda>rs'. returnE (map put_of rs'))"
| "run_call G W (Replay r) = bindE (sink_replay G W r) (\<lambda>r'. returnE [put_of r'])"
| "run_call G W (Acknowledge r) = bindE (sink_acknowledge G W r) (\<lambda>r'. returnE [(the (q_storage_id r'), None)])"

fun run_calls :: "dlq_sink_config \<Rightarrow> 'k envelope_writer \<Rightarrow> sink_call list \<Rightarrow> ('k dlq_sink, (string \<times> dlq_record option) list) eff" where
  "run_calls G W [] = returnE []"
| "run_calls G W (c # cs) = bindE (run_call G W c) (\<lambda>ops. bindE (run_calls G W cs) (\<lambda>ops'. returnE (ops @ ops')))"

text \<open>What the Kafka sink promises: a write that returns has appended the serialised envelopes to the topic.\<close>

definition appends :: "'k envelope_writer \<Rightarrow> ('k \<Rightarrow> dlq_message list) \<Rightarrow> bool" where
  "appends W log \<longleftrightarrow>
     (\<forall>env k k'. ew_write W env k = (k', Inr ()) \<longrightarrow> log k' = log k @ [Inr (serialize env)]) \<and>
     (\<forall>envs k k'. ew_write_batch W envs k = (k', Inr ()) \<longrightarrow> log k' = log k @ map (\<lambda>env. Inr (serialize env)) envs)"

fun published :: "dlq_sink_config \<Rightarrow> dlq_message \<Rightarrow> string \<times> dlq_record option \<Rightarrow> bool" where
  "published G m (key, Some q) \<longleftrightarrow>
     q_storage_id q = Some key \<and>
     (\<exists>env. m = Inr (serialize env) \<and> encode_dlq_envelope (sg_codec G) key ''put'' (Some q) (sg_payload_policy G) = Inr env)"
| "published G m (key, None) \<longleftrightarrow>
     (\<exists>env. m = Inr (serialize env) \<and> encode_dlq_envelope (sg_codec G) key ''delete'' None None = Inr env)"

lemma bindE_InrE:
  assumes "bindE m f s = (s', Inr b)"
  obtains s1 a where "m s = (s1, Inr a)" "f a s1 = (s', Inr b)"
  using assms by (auto simp: bindE_def split: prod.splits sum.splits)

lemma build_upsert_envelope_ok:
  assumes "build_upsert_envelope G r s = (s', Inr (env, r'))"
  shows "sk_sink s' = sk_sink s" "published G (Inr (serialize env)) (put_of r')"
  using assms by (auto simp: build_upsert_envelope_def assign_storage_key_def put_of_def result_simps Let_def split: if_splits)

lemma build_upsert_envelopes_ok:
  assumes "build_upsert_envelopes G rs s = (s', Inr es)"
  shows "sk_sink s' = sk_sink s \<and> list_all2 (published G) (map (\<lambda>e. Inr (serialize (fst e))) es) (map (\<lambda>e. put_of (snd e)) es)"
  using assms
proof (induction rs arbitrary: s s' es)
  case (Cons r rs)
  from Cons.prems obtain s1 e s2 es' where "build_upsert_envelope G r s = (s1, Inr e)"
      "build_upsert_envelopes G rs s1 = (s2, Inr es')" "s' = s2" "es = e # es'"
    by (auto elim!: bindE_InrE)
  with build_upsert_envelope_ok [of G r s s1 "fst e" "snd e"] Cons.IH show ?case by (cases e) auto
qed simp

lemma publish_ok: "publish m s = (s', Inr ()) \<longleftrightarrow> (\<exists>k. m (sk_sink s) = (k, Inr ()) \<and> s' = s\<lparr>sk_sink := k\<rparr>)"
  by (auto simp: publish_def split: prod.splits)

lemma run_call_published:
  assumes "appends W log" "run_call G W c s = (s', Inr ops)"
  shows "\<exists>msgs. log (sk_sink s') = log (sk_sink s) @ msgs \<and> list_all2 (published G) msgs ops"
proof (cases c)
  case (Write r)
  with assms(2) obtain s1 env r' k where "build_upsert_envelope G r s = (s1, Inr (env, r'))"
      "ew_write W env (sk_sink s1) = (k, Inr ())" "sk_sink s' = k" "ops = [put_of r']"
    by (auto simp: sink_write_def thenE_def publish_ok elim!: bindE_InrE)
  with build_upsert_envelope_ok [of G r s s1 env r'] assms(1) show ?thesis by (auto simp: appends_def)
next
  case (WriteBatch rs)
  show ?thesis
  proof (cases "rs = []")
    case False
    with WriteBatch assms(2) obtain s1 es k where "build_upsert_envelopes G rs s = (s1, Inr es)"
        "ew_write_batch W (map fst es) (sk_sink s1) = (k, Inr ())" "sk_sink s' = k" "ops = map put_of (map snd es)"
      by (auto simp: sink_write_batch_def thenE_def publish_ok elim!: bindE_InrE)
    with build_upsert_envelopes_ok [of G rs s s1 es] assms(1) show ?thesis by (auto simp: appends_def o_def)
  qed (use WriteBatch assms(2) in \<open>auto simp: sink_write_batch_def elim!: bindE_InrE\<close>)
next
  case (Replay r)
  with assms(2) obtain u s1 env r' k where "build_upsert_envelope G u s = (s1, Inr (env, r'))"
      "ew_write W env (sk_sink s1) = (k, Inr ())" "sk_sink s' = k" "ops = [put_of r']"
    by (auto simp: sink_replay_def thenE_def publish_ok split: sum.splits elim!: bindE_InrE)
  with build_upsert_envelope_ok [of G u s s1 env r'] assms(1) show ?thesis by (auto simp: appends_def)
next
  case (Acknowledge r)
  with assms(2) obtain s1 env r' k where b: "build_delete_envelope G r s = (s1, Inr (env, r'))"
      "ew_write W env (sk_sink s1) = (k, Inr ())" "sk_sink s' = k" "ops = [(the (q_storage_id r'), None)]"
    by (auto simp: sink_acknowledge_def thenE_def publish_ok elim!: bindE_InrE)
  from b(1) have "sk_sink s1 = sk_sink s" "published G (Inr (serialize env)) (the (q_storage_id r'), None)"
    by (auto simp: build_delete_envelope_def assign_storage_key_def result_simps Let_def split: if_splits)
  with b assms(1) show ?thesis by (auto simp: appends_def)
qed

lemma run_calls_published:
  assumes "appends W log" "run_calls G W cs s = (s', Inr ops)"
  shows "\<exists>msgs. log (sk_sink s') = log (sk_sink s) @ msgs \<and> list_all2 (published G) msgs ops"
  using assms(2)
proof (induction cs arbitrary: s ops)
  case (Cons c cs)
  from Cons.prems obtain s1 ops1 ops2 where "run_call G W c s = (s1, Inr ops1)" "run_calls G W cs s1 = (s', Inr ops2)"
      "ops = ops1 @ ops2"
    by (auto elim!: bindE_InrE)
  then show ?case
    using run_call_published [OF assms(1)] Cons.IH by (metis append.assoc list_all2_appendI)
qed simp

section \<open>Sink and source together\<close>

text \<open>
  A record that survives storage under the policy, with the entries of its dictionaries in key order (the order
  Python's dictionary equality ignores and the serialiser fixes).
\<close>

definition publishable :: "dlq_codec \<Rightarrow> dlq_policy option \<Rightarrow> dlq_record \<Rightarrow> bool" where
  "publishable J policy q \<longleftrightarrow>
     storable J policy q \<and> storable J policy (stored_record (cd_repr J) policy q) \<and>
     sorted_record (stored_record (cd_repr J) policy q) = stored_record (cd_repr J) policy q"

lemma decode_published:
  assumes "published G m (key, r)" "\<And>q. r = Some q \<Longrightarrow> publishable (sg_codec G) (sg_payload_policy G) q"
  shows "decode_message (sg_codec G) (sg_payload_policy G) m =
    Inr (if r = None then ''delete'' else ''put'', key, map_option (stored_record (cd_repr (sg_codec G)) (sg_payload_policy G)) r)"
proof (cases r)
  case None
  with assms(1) obtain env where "m = Inr (serialize env)" "encode_dlq_envelope (sg_codec G) key ''delete'' None None = Inr env"
    by auto
  with None decode_published_delete show ?thesis by (simp add: decode_message_def)
next
  case (Some q)
  let ?J = "sg_codec G" and ?P = "sg_payload_policy G"
  let ?s = "stored_record (cd_repr ?J) ?P q"
  from assms Some obtain env where env: "m = Inr (serialize env)" "encode_dlq_envelope ?J key ''put'' (Some q) ?P = Inr env"
    and key: "q_storage_id q = Some key" and ok: "publishable ?J ?P q"
    by auto
  have "?s\<lparr>q_storage_id := Some key\<rparr> = ?s" using key by (metis dlq_record.surjective dlq_record.update_convs(17) stored_record_fields(2))
  with decode_published_put [OF _ _ _ env(2)] ok Some env(1) show ?thesis
    by (simp add: decode_message_def publishable_def storable_def)
qed

lemma of_key_map: "of_key k (map (map_prod id (map_option f)) ops) = map (map_option f) (of_key k ops)"
  by (simp add: of_key_def filter_map o_def)

lemma live_set_map: "live_set (map (map_prod id (map_option f)) ops) = f ` live_set ops"
  by (fastforce simp: live_set_def of_key_map last_map)

lemma live_set_cong: "(\<And>k. of_key k ops = of_key k ops') \<Longrightarrow> live_set ops = live_set ops'"
  by (simp add: live_set_def)

lemma live_set_put: "q \<in> live_set ops \<Longrightarrow> \<exists>key. (key, Some q) \<in> set ops"
proof -
  assume "q \<in> live_set ops"
  then obtain key where "of_key key ops \<noteq> []" "last (of_key key ops) = Some q" by (auto simp: live_set_def)
  then have "Some q \<in> set (of_key key ops)" using last_in_set by metis
  then show ?thesis by (auto simp: of_key_def) (metis prod.collapse)?
qed

lemma stored_attempts [simp]: "exhausted (stored_record R policy q) \<longleftrightarrow> exhausted q"
  by (simp add: exhausted_def stored_record_def redact_record_def split: option.split)

text \<open>
  C9: dead-letter sink and source together.  After any calls of the sink that returned, a replay that saw, for
  every storage key, the messages of that key in the order they were published yields exactly the records that
  were written or replayed and not acknowledged or overwritten afterwards, as the policy stores them, less those
  the source filters out and those without attempts left.
\<close>

theorem unacknowledged_records_are_replayed:
  assumes log: "appends W log" "log k0 = []"
    and run: "run_calls G W calls (dlq_sink_init k0) = (s1, Inr ops)"
    and ok: "\<forall>(key, r)\<in>set ops. \<forall>q. r = Some q \<longrightarrow> publishable (sg_codec G) (sg_payload_policy G) q"
    and cfg: "ds_payload_policy cfg = sg_payload_policy G" "ds_limit cfg = None"
    and scan: "dlq_stream (sg_codec G) now D cfg fuel s = Some (s', Inr (records, seen))"
    and order: "\<forall>key. filter (\<lambda>m. fst (op_of (sg_codec G) (sg_payload_policy G) m) = key) seen =
      filter (\<lambda>m. fst (op_of (sg_codec G) (sg_payload_policy G) m) = key) (log (sk_sink s1))"
  shows "set records = {r. \<exists>q\<in>live_set ops. r = stored_record (cd_repr (sg_codec G)) (sg_payload_policy G) q \<and>
    matches_filter cfg r \<and> \<not> exhausted q}"
proof -
  let ?J = "sg_codec G" and ?P = "sg_payload_policy G"
  let ?stored = "stored_record (cd_repr ?J) ?P" and ?op = "op_of ?J ?P"
  obtain msgs where msgs: "log (sk_sink s1) = msgs" and pub: "list_all2 (published G) msgs ops"
    using run_calls_published [OF log(1) run] log(2) by (auto simp: dlq_sink_init_def)
  have dec: "decode_message ?J ?P m = Inr (if r = None then ''delete'' else ''put'', key, map_option ?stored r) \<and>
      (\<forall>q. r = Some q \<longrightarrow> publishable ?J ?P q)"
    if "published G m (key, r)" "(key, r) \<in> set ops" for m key r
    using decode_published [OF that(1)] ok that(2) by fastforce
  have "list_all2 (\<lambda>m op. ?op m = map_prod id (map_option ?stored) op) msgs ops"
    using pub by (rule list.rel_mono_strong) (use dec in \<open>force simp: op_of_def\<close>)
  then have ops: "map ?op msgs = map (map_prod id (map_option ?stored)) ops"
    by (simp add: list_all2_conv_all_nth list_eq_iff_nth_eq)
  have "storable ?J ?P q" if m: "m \<in> set seen" "decode_message ?J ?P m = Inr (operation, key, Some q)" for m operation key q
  proof -
    have "m \<in> set (filter (\<lambda>m'. fst (?op m') = fst (?op m)) seen)" using m(1) by simp
    then have "m \<in> set (filter (\<lambda>m'. fst (?op m') = fst (?op m)) (log (sk_sink s1)))"
      by (simp only: order [rule_format])
    then obtain i where "i < length msgs" "m = msgs ! i" using msgs by (auto simp: in_set_conv_nth)
    moreover obtain key' r where op: "ops ! i = (key', r)" by (cases "ops ! i")
    ultimately have "published G m (key', r)" "(key', r) \<in> set ops"
      using pub nth_mem [of i ops] by (auto simp: list_all2_conv_all_nth)
    with dec [of m key' r] m(2) show ?thesis by (cases r) (auto simp: publishable_def)
  qed
  then have "storable_messages ?J (ds_payload_policy cfg) seen" by (auto simp: storable_messages_def cfg)
  then have "records = filter (\<lambda>r. \<not> exhausted r) (filter (matches_filter cfg) (map ?stored (map snd (last_puts (map ?op seen)))))"
    using replay_yields_last_puts [OF scan] cfg by (simp add: limited_def)
  then have "set records = {r \<in> ?stored ` live_set (map ?op seen). matches_filter cfg r \<and> \<not> exhausted r}"
    unfolding last_puts_live_set [symmetric] by auto
  also have "live_set (map ?op seen) = live_set (map ?op msgs)"
    using order msgs by (intro live_set_cong) (simp add: of_key_def filter_map o_def)
  also have "\<dots> = ?stored ` live_set ops" unfolding ops live_set_map ..
  finally have "set records = {r \<in> ?stored ` ?stored ` live_set ops. matches_filter cfg r \<and> \<not> exhausted r}" .
  moreover have "?stored ` ?stored ` live_set ops = ?stored ` live_set ops"
    unfolding image_image
  proof (rule image_cong [OF refl])
    fix q assume "q \<in> live_set ops"
    from live_set_put [OF this] obtain key where "(key, Some q) \<in> set ops" by (rule exE)
    with ok have "plain_policy (cd_repr ?J) ?P" by (auto simp: publishable_def storable_def)
    then show "?stored (?stored q) = ?stored q" by (rule stored_record_idem)
  qed
  ultimately show ?thesis by auto
qed


definition list_writer :: "dlq_message list envelope_writer" where
  "list_writer =
     \<lparr>ew_write = (\<lambda>env k. (k @ [Inr (serialize env)], Inr ())),
      ew_write_batch = (\<lambda>envs k. (k @ map (\<lambda>env. Inr (serialize env)) envs, Inr ()))\<rparr>"

definition sample_sink :: dlq_sink_config where
  "sample_sink =
     \<lparr>sg_codec = sample_dlq_codec, sg_key_fn = None, sg_payload_policy = None, sg_now = int,
      sg_uuid = (\<lambda>n. digits_of n), sg_replay_record = Inr\<rparr>"

definition sample_calls :: "sink_call list" where
  "sample_calls =
     [Write (sample_record\<lparr>q_storage_id := Some ''a''\<rparr>), WriteBatch [sample_record\<lparr>q_storage_id := Some ''b''\<rparr>],
      Acknowledge (sample_record\<lparr>q_storage_id := Some ''a''\<rparr>), Replay (sample_record\<lparr>q_storage_id := Some ''c'', q_attempt := 3\<rparr>)]"

definition sample_published :: "dlq_message list" where
  "sample_published = sk_sink (fst (run_calls sample_sink list_writer sample_calls (dlq_sink_init [])))"

lemma sample_sink_runs:
  "(case snd (run_calls sample_sink list_writer sample_calls (dlq_sink_init [])) of
      Inl _ \<Rightarrow> False
    | Inr ops \<Rightarrow> list_all (\<lambda>op. case snd op of None \<Rightarrow> True | Some q \<Rightarrow> sorted_record q = q) ops \<and> map fst ops = [''a'', ''b'', ''a'', ''c''])"
  by code_simp

lemma sample_replay_of_sink:
  "(case dlq_stream sample_dlq_codec int (log_consumer sample_published) (sample_settings\<lparr>ds_limit := None\<rparr>) 10 (fresh_source 0) of
      Some (s, Inr (records, seen)) \<Rightarrow> map q_storage_id records = [Some ''b''] \<and> seen = sample_published
    | _ \<Rightarrow> False)"
  by code_simp

theorem unacknowledged_records_are_replayed_witness:
  "\<exists>s1 ops s' records seen.
    run_calls sample_sink list_writer sample_calls (dlq_sink_init []) = (s1, Inr ops) \<and>
    dlq_stream sample_dlq_codec int (log_consumer sample_published) (sample_settings\<lparr>ds_limit := None\<rparr>) 10 (fresh_source 0) =
      Some (s', Inr (records, seen)) \<and> map q_storage_id records = [Some ''b''] \<and>
    set records = {r. (\<exists>q. q \<in> live_set ops \<and> r = stored_record (cd_repr (sg_codec sample_sink)) (sg_payload_policy sample_sink) q \<and>
      matches_filter (sample_settings\<lparr>ds_limit := None\<rparr>) r \<and> \<not> exhausted q)}"
proof -
  obtain s1 ops where run: "run_calls sample_sink list_writer sample_calls (dlq_sink_init []) = (s1, Inr ops)"
      and sorted: "list_all (\<lambda>op. case snd op of None \<Rightarrow> True | Some q \<Rightarrow> sorted_record q = q) ops"
    using sample_sink_runs by (cases "run_calls sample_sink list_writer sample_calls (dlq_sink_init [])") (auto split: sum.splits)
  let ?run = "dlq_stream sample_dlq_codec int (log_consumer sample_published) (sample_settings\<lparr>ds_limit := None\<rparr>) 10 (fresh_source 0)"
  have "?run \<noteq> None" using sample_replay_of_sink by (cases ?run) simp_all
  then obtain s' r where r: "?run = Some (s', r)" by auto
  then obtain records seen where "r = Inr (records, seen)" using sample_replay_of_sink by (cases r) auto
  then have scan: "?run = Some (s', Inr (records, seen))" and ids: "map q_storage_id records = [Some ''b'']"
      and seen: "seen = sample_published"
    using r sample_replay_of_sink by simp_all
  have J: "sg_codec sample_sink = sample_dlq_codec" and P: "sg_payload_policy sample_sink = None"
    by (simp_all add: sample_sink_def)
  have "publishable sample_dlq_codec None q" if "sorted_record q = q" for q
    using that by (simp add: publishable_def storable_def wf_record_def keeps_parsed_fields_def plain_policy_def
        cipher_inverse_def encrypts_def sample_dlq_codec_def stored_record_def)
  then have ok: "\<forall>(key, r)\<in>set ops. \<forall>q. r = Some q \<longrightarrow> publishable (sg_codec sample_sink) (sg_payload_policy sample_sink) q"
    using sorted by (fastforce simp: list_all_iff J P)
  have writer: "appends list_writer (\<lambda>k. k)" by (auto simp: appends_def list_writer_def)
  have cfg: "ds_payload_policy (sample_settings\<lparr>ds_limit := None\<rparr>) = sg_payload_policy sample_sink"
    "ds_limit (sample_settings\<lparr>ds_limit := None\<rparr>) = None"
    by (simp_all add: P sample_settings_def)
  have "seen = sk_sink s1" using seen run by (simp add: sample_published_def)
  then have "set records = {r. \<exists>q\<in>live_set ops. r = stored_record (cd_repr (sg_codec sample_sink)) (sg_payload_policy sample_sink) q \<and>
      matches_filter (sample_settings\<lparr>ds_limit := None\<rparr>) r \<and> \<not> exhausted q}"
    using unacknowledged_records_are_replayed [OF writer _ run ok cfg scan [folded J]] by simp
  then show ?thesis using run scan ids by (intro exI conjI) (assumption | auto)+
qed
end
