(* ===== verification/PG_Pool.thy ===== *)
theory PG_Pool
  imports Prelude
begin

text \<open>
  The connection pool of the PostgreSQL sink (\<^verbatim>\<open>postgres/sinks/_pool.py\<close>) when \<^verbatim>\<open>psycopg_pool\<close> is not installed: a
  LIFO queue of idle connections and a counter of open ones, shared by the tasks of the event loop.  A task runs
  from one \<^verbatim>\<open>await\<close> that suspends to the next; each such piece of \<open>acquire_write_conn\<close>, \<open>discard_pooled_connection\<close>
  and \<open>release_write_conn\<close> is a function on the state, and \<open>pool_step\<close> interleaves them in any order.  A connection
  is a number; the number of the next connection the driver opens is part of the state.
\<close>

section \<open>State\<close>

datatype pool_task =
    Outside
  | Starting
  | Checking nat
  | Dropping nat
  | Creating
  | Waiting
  | Holding nat
  | Closing nat

record pool =
  po_size :: nat
  po_health_check :: bool
  po_idle :: "nat list"
  po_open :: nat
  po_next :: nat
  po_tasks :: "pool_task list"

definition pool_init :: "nat \<Rightarrow> bool \<Rightarrow> nat \<Rightarrow> pool" where
  "pool_init pool_size health_check tasks =
     \<lparr>po_size = pool_size, po_health_check = health_check, po_idle = [], po_open = 0, po_next = 0,
      po_tasks = replicate tasks Outside\<rparr>"

definition set_task :: "nat \<Rightarrow> pool_task \<Rightarrow> pool \<Rightarrow> pool" where
  "set_task i t p = p\<lparr>po_tasks := (po_tasks p)[i := t]\<rparr>"

text \<open>\<^verbatim>\<open>owner._write_pool_open_connections = max(0, owner._write_pool_open_connections - 1)\<close>\<close>

definition one_less :: "pool \<Rightarrow> pool" where
  "one_less p = p\<lparr>po_open := po_open p - 1\<rparr>"

section \<open>Acquiring\<close>

text \<open>A connection taken from the queue is checked before it is used, if checks are on.\<close>

definition take_idle :: "nat \<Rightarrow> nat \<Rightarrow> nat list \<Rightarrow> pool \<Rightarrow> pool" where
  "take_idle i c rest p =
     (let p1 = p\<lparr>po_idle := rest\<rparr> in
      if po_health_check p then set_task i (Checking c) p1 else set_task i (Holding c) p1)"

text \<open>From the start of \<open>acquire_write_conn\<close> to its first suspension.\<close>

definition acquire_start :: "nat \<Rightarrow> pool \<Rightarrow> pool" where
  "acquire_start i p =
     (case po_idle p of
        c # rest \<Rightarrow> take_idle i c rest p
      | [] \<Rightarrow>
          if po_open p < po_size p then set_task i Creating (p\<lparr>po_open := Suc (po_open p)\<rparr>)
          else set_task i Waiting p)"

definition pooled_connection_checked :: "nat \<Rightarrow> nat \<Rightarrow> bool \<Rightarrow> pool \<Rightarrow> pool" where
  "pooled_connection_checked i c ready p = set_task i (if ready then Holding c else Dropping c) p"

text \<open>The connection is closed, the counter goes down and the acquisition starts over.\<close>

definition discard_pooled_connection :: "nat \<Rightarrow> pool \<Rightarrow> pool" where
  "discard_pooled_connection i p = set_task i Starting (one_less p)"

definition connection_created :: "nat \<Rightarrow> pool \<Rightarrow> pool" where
  "connection_created i p = set_task i (Holding (po_next p)) (p\<lparr>po_next := Suc (po_next p)\<rparr>)"

definition connection_failed :: "nat \<Rightarrow> pool \<Rightarrow> pool" where
  "connection_failed i p = set_task i Outside (one_less p)"

section \<open>Releasing\<close>

text \<open>\<open>None\<close> is the \<^verbatim>\<open>QueueFull\<close> of \<^verbatim>\<open>put_nowait\<close> on a queue of \<open>maxsize\<close> connections.\<close>

definition put_nowait :: "nat \<Rightarrow> pool \<Rightarrow> pool option" where
  "put_nowait c p = (if length (po_idle p) < po_size p then Some (p\<lparr>po_idle := c # po_idle p\<rparr>) else None)"

definition release_write_conn_pooled :: "nat \<Rightarrow> nat \<Rightarrow> bool \<Rightarrow> pool \<Rightarrow> pool option" where
  "release_write_conn_pooled i c discard p =
     (if discard then Some (set_task i (Closing c) p) else map_option (set_task i Outside) (put_nowait c p))"

definition discard_finished :: "nat \<Rightarrow> pool \<Rightarrow> pool" where
  "discard_finished i p = set_task i Outside (one_less p)"

section \<open>Steps\<close>

inductive pool_step :: "pool \<Rightarrow> pool \<Rightarrow> bool" where
  enter: "i < length (po_tasks p) \<Longrightarrow> po_tasks p ! i = Outside \<Longrightarrow> pool_step p (set_task i Starting p)"
| start: "i < length (po_tasks p) \<Longrightarrow> po_tasks p ! i = Starting \<Longrightarrow> pool_step p (acquire_start i p)"
| check: "i < length (po_tasks p) \<Longrightarrow> po_tasks p ! i = Checking c \<Longrightarrow> pool_step p (pooled_connection_checked i c ready p)"
| drop_broken: "i < length (po_tasks p) \<Longrightarrow> po_tasks p ! i = Dropping c \<Longrightarrow> pool_step p (discard_pooled_connection i p)"
| created: "i < length (po_tasks p) \<Longrightarrow> po_tasks p ! i = Creating \<Longrightarrow> pool_step p (connection_created i p)"
| create_failed: "i < length (po_tasks p) \<Longrightarrow> po_tasks p ! i = Creating \<Longrightarrow> pool_step p (connection_failed i p)"
| woken: "i < length (po_tasks p) \<Longrightarrow> po_tasks p ! i = Waiting \<Longrightarrow> po_idle p = c # rest \<Longrightarrow> pool_step p (take_idle i c rest p)"
| timed_out: "i < length (po_tasks p) \<Longrightarrow> po_tasks p ! i = Waiting \<Longrightarrow> pool_step p (set_task i Outside p)"
| release: "i < length (po_tasks p) \<Longrightarrow> po_tasks p ! i = Holding c \<Longrightarrow> release_write_conn_pooled i c discard p = Some p' \<Longrightarrow> pool_step p p'"
| discarded: "i < length (po_tasks p) \<Longrightarrow> po_tasks p ! i = Closing c \<Longrightarrow> pool_step p (discard_finished i p)"

text \<open>The connection a task owns, and whether it is counted as open.\<close>

fun task_conns :: "pool_task \<Rightarrow> nat list" where
  "task_conns (Checking c) = [c]"
| "task_conns (Dropping c) = [c]"
| "task_conns (Holding c) = [c]"
| "task_conns (Closing c) = [c]"
| "task_conns _ = []"

fun counted :: "pool_task \<Rightarrow> nat" where
  "counted Creating = 1"
| "counted t = length (task_conns t)"

definition in_use :: "pool \<Rightarrow> nat" where
  "in_use p = sum_list (map counted (po_tasks p))"

definition pool_conns :: "pool \<Rightarrow> nat list" where
  "pool_conns p = po_idle p @ concat (map task_conns (po_tasks p))"

definition pool_inv :: "pool \<Rightarrow> bool" where
  "pool_inv p \<longleftrightarrow> po_open p = length (po_idle p) + in_use p \<and> po_open p \<le> po_size p \<and>
     distinct (pool_conns p) \<and> (\<forall>c\<in>set (pool_conns p). c < po_next p)"

section \<open>Lemmas\<close>

lemma sum_list_set: "i < length xs \<Longrightarrow> sum_list (map f (xs[i := x])) + f (xs ! i) = sum_list (map f xs) + (f x :: 'b :: comm_monoid_add)"
  by (induction xs arbitrary: i) (auto simp: algebra_simps split: nat.splits)

lemma distinct_concat_index:
  "\<lbrakk>distinct (concat (map f xs)); i < length xs; j < length xs; c \<in> set (f (xs ! i)); c \<in> set (f (xs ! j))\<rbrakk> \<Longrightarrow> i = j"
proof (induction xs arbitrary: i j)
  case (Cons x xs)
  then have "\<forall>n < length xs. set (f x) \<inter> set (f (xs ! n)) = {}" using nth_mem by fastforce
  then show ?case using Cons by (cases i; cases j) auto
qed simp

lemma mset_concat_map: "mset (concat (map f xs)) = sum_list (map (\<lambda>x. mset (f x)) xs)"
  by (induction xs) auto

lemma in_use_set_task:
  "i < length (po_tasks p) \<Longrightarrow> in_use (set_task i t p) + counted (po_tasks p ! i) = in_use p + counted t"
  using sum_list_set by (simp add: in_use_def set_task_def)

lemma conns_set_task:
  assumes "i < length (po_tasks p)"
  shows "mset (pool_conns (set_task i t p)) + mset (task_conns (po_tasks p ! i)) = mset (pool_conns p) + mset (task_conns t)"
  using sum_list_set [OF assms, of "\<lambda>t. mset (task_conns t)" t]
  by (simp add: pool_conns_def set_task_def mset_concat_map add.assoc)

lemma set_task_fields [simp]:
  "po_size (set_task i t p) = po_size p" "po_idle (set_task i t p) = po_idle p" "po_open (set_task i t p) = po_open p"
  "po_next (set_task i t p) = po_next p" "po_health_check (set_task i t p) = po_health_check p"
  by (simp_all add: set_task_def)

lemma in_use_update [simp]:
  "in_use (p\<lparr>po_idle := xs\<rparr>) = in_use p" "in_use (p\<lparr>po_open := n\<rparr>) = in_use p" "in_use (p\<lparr>po_next := n\<rparr>) = in_use p"
  "pool_conns (p\<lparr>po_open := n\<rparr>) = pool_conns p" "pool_conns (p\<lparr>po_next := n\<rparr>) = pool_conns p"
  "mset (pool_conns (p\<lparr>po_idle := xs\<rparr>)) + mset (po_idle p) = mset (pool_conns p) + mset xs"
  by (simp_all add: in_use_def pool_conns_def)

lemma distinct_submset: "\<lbrakk>mset xs \<subseteq># mset ys; distinct ys\<rbrakk> \<Longrightarrow> distinct xs"
proof -
  assume "mset xs \<subseteq># mset ys" "distinct ys"
  moreover obtain zs where "mset zs = mset ys - mset xs" using ex_mset by blast
  ultimately have "mset (xs @ zs) = mset ys" by simp
  then show ?thesis using \<open>distinct ys\<close> by (metis distinct_append mset_eq_imp_distinct_iff)
qed

text \<open>A step keeps the invariant when it owns no new connection, or the one the driver just opened.\<close>

lemma pool_inv_step:
  assumes inv: "pool_inv p" and "po_size p' = po_size p" "po_open p' = length (po_idle p') + in_use p'" "po_open p' \<le> po_size p'"
    and owned: "mset (pool_conns p') \<subseteq># mset (pool_conns p) \<and> po_next p' = po_next p \<or>
      mset (pool_conns p') \<subseteq># mset (po_next p # pool_conns p) \<and> po_next p' = Suc (po_next p)"
  shows "pool_inv p'"
proof -
  have fresh: "distinct (po_next p # pool_conns p)" "\<forall>c\<in>set (po_next p # pool_conns p). c < Suc (po_next p)"
    using inv by (auto simp: pool_inv_def)
  from owned have "distinct (pool_conns p') \<and> (\<forall>c\<in>set (pool_conns p'). c < po_next p')"
  proof
    assume a: "mset (pool_conns p') \<subseteq># mset (pool_conns p) \<and> po_next p' = po_next p"
    then have "set (pool_conns p') \<subseteq> set (pool_conns p)" by (metis set_mset_mono set_mset_mset)
    then show ?thesis using a inv distinct_submset [of "pool_conns p'" "pool_conns p"] by (auto simp: pool_inv_def)
  next
    assume a: "mset (pool_conns p') \<subseteq># mset (po_next p # pool_conns p) \<and> po_next p' = Suc (po_next p)"
    then have "set (pool_conns p') \<subseteq> set (po_next p # pool_conns p)" by (metis set_mset_mono set_mset_mset)
    then show ?thesis using a fresh distinct_submset [of "pool_conns p'" "po_next p # pool_conns p"] by auto
  qed
  then show ?thesis using assms by (simp add: pool_inv_def)
qed

text \<open>A task changes, in a state that differs from \<open>p\<close> in its counter only.\<close>

lemma inv_task_change:
  assumes "pool_inv p" "i < length (po_tasks p)" "po_open p + counted t = n + counted (po_tasks p ! i)" "n \<le> po_size p"
    "mset (task_conns t) \<subseteq># mset (task_conns (po_tasks p ! i))"
  shows "pool_inv (set_task i t (p\<lparr>po_open := n\<rparr>))"
proof (rule pool_inv_step [OF assms(1)])
  let ?q = "p\<lparr>po_open := n\<rparr>"
  have i: "i < length (po_tasks ?q)" using assms(2) by simp
  show "po_open (set_task i t ?q) = length (po_idle (set_task i t ?q)) + in_use (set_task i t ?q)"
    using in_use_set_task [OF i, of t] assms(1,3) by (simp add: pool_inv_def)
  have "mset (pool_conns (set_task i t ?q)) + mset (task_conns t) \<subseteq># mset (pool_conns p) + mset (task_conns t)"
    using conns_set_task [OF i, of t] assms(5) by (metis in_use_update(4) pool.select_convs(6) pool.surjective pool.update_convs(4) subset_mset.add_left_mono)
  then show "mset (pool_conns (set_task i t ?q)) \<subseteq># mset (pool_conns p) \<and> po_next (set_task i t ?q) = po_next p \<or>
      mset (pool_conns (set_task i t ?q)) \<subseteq># mset (po_next p # pool_conns p) \<and> po_next (set_task i t ?q) = Suc (po_next p)"
    by simp
qed (use assms in simp_all)

lemma inv_task_only:
  assumes "pool_inv p" "i < length (po_tasks p)" "counted t = counted (po_tasks p ! i)"
    "mset (task_conns t) \<subseteq># mset (task_conns (po_tasks p ! i))"
  shows "pool_inv (set_task i t p)"
  using inv_task_change [OF assms(1,2), of t "po_open p"] assms by (simp add: pool_inv_def)

lemma in_use_member: "i < length (po_tasks p) \<Longrightarrow> counted (po_tasks p ! i) \<le> in_use p"
  using elem_le_sum_list [of i "map counted (po_tasks p)"] by (simp add: in_use_def)

lemma inv_one_less:
  assumes "pool_inv p" "i < length (po_tasks p)" "counted (po_tasks p ! i) = 1" "counted t = 0"
  shows "pool_inv (set_task i t (one_less p))"
proof -
  have "1 \<le> in_use p" using in_use_member [OF assms(2)] assms(3) by simp
  then have "po_open p + counted t = po_open p - 1 + counted (po_tasks p ! i)" "po_open p - 1 \<le> po_size p"
    using assms by (auto simp: pool_inv_def)
  moreover have "task_conns t = []" using assms(4) by (cases t) auto
  ultimately show ?thesis using inv_task_change [OF assms(1,2), of t "po_open p - 1"] by (simp add: one_less_def)
qed

lemma inv_take_idle:
  assumes "pool_inv p" "i < length (po_tasks p)" "counted (po_tasks p ! i) = 0" "po_idle p = c # rest"
  shows "pool_inv (take_idle i c rest p)"
proof -
  have none: "task_conns (po_tasks p ! i) = []" using assms(3) by (cases "po_tasks p ! i") auto
  have "pool_inv (set_task i t (p\<lparr>po_idle := rest\<rparr>))" if t: "task_conns t = [c]" "counted t = 1" for t
  proof (rule pool_inv_step [OF assms(1)])
    let ?q = "p\<lparr>po_idle := rest\<rparr>"
    have i: "i < length (po_tasks ?q)" using assms(2) by simp
    show "po_open (set_task i t ?q) = length (po_idle (set_task i t ?q)) + in_use (set_task i t ?q)"
      using in_use_set_task [OF i, of t] assms t by (simp add: pool_inv_def)
    have "mset (pool_conns (set_task i t ?q)) = mset (pool_conns p)"
      using conns_set_task [OF i, of t] none t assms(4) in_use_update(6) [where p = p and xs = rest] by simp
    then show "mset (pool_conns (set_task i t ?q)) \<subseteq># mset (pool_conns p) \<and> po_next (set_task i t ?q) = po_next p \<or>
        mset (pool_conns (set_task i t ?q)) \<subseteq># mset (po_next p # pool_conns p) \<and> po_next (set_task i t ?q) = Suc (po_next p)"
      by simp
  qed (use assms in \<open>simp_all add: pool_inv_def\<close>)
  from this [of "Checking c"] this [of "Holding c"] show ?thesis by (simp add: take_idle_def Let_def)
qed

lemma inv_created:
  assumes "pool_inv p" "i < length (po_tasks p)" "po_tasks p ! i = Creating"
  shows "pool_inv (connection_created i p)"
proof (rule pool_inv_step [OF assms(1)])
  let ?q = "p\<lparr>po_next := Suc (po_next p)\<rparr>"
  have i: "i < length (po_tasks ?q)" using assms(2) by simp
  show "po_open (connection_created i p) = length (po_idle (connection_created i p)) + in_use (connection_created i p)"
    using in_use_set_task [OF i, of "Holding (po_next p)"] assms by (simp add: pool_inv_def connection_created_def)
  show "mset (pool_conns (connection_created i p)) \<subseteq># mset (pool_conns p) \<and> po_next (connection_created i p) = po_next p \<or>
      mset (pool_conns (connection_created i p)) \<subseteq># mset (po_next p # pool_conns p) \<and> po_next (connection_created i p) = Suc (po_next p)"
    using conns_set_task [OF i, of "Holding (po_next p)"] assms(3) by (simp add: connection_created_def)
qed (use assms in \<open>simp_all add: connection_created_def pool_inv_def\<close>)

lemma inv_release:
  assumes "pool_inv p" "i < length (po_tasks p)" "po_tasks p ! i = Holding c"
  shows "\<exists>p'. release_write_conn_pooled i c discard p = Some p' \<and> pool_inv p'"
proof (cases discard)
  case True
  then show ?thesis using inv_task_only [OF assms(1,2), of "Closing c"] assms(3) by (simp add: release_write_conn_pooled_def)
next
  case False
  have "1 \<le> in_use p" using in_use_member [OF assms(2)] assms(3) by simp
  then have room: "length (po_idle p) < po_size p" using assms(1) by (auto simp: pool_inv_def)
  let ?q = "p\<lparr>po_idle := c # po_idle p\<rparr>"
  have i: "i < length (po_tasks ?q)" using assms(2) by simp
  have "pool_inv (set_task i Outside ?q)"
  proof (rule pool_inv_step [OF assms(1)])
    show "po_open (set_task i Outside ?q) = length (po_idle (set_task i Outside ?q)) + in_use (set_task i Outside ?q)"
      using in_use_set_task [OF i, of Outside] assms by (simp add: pool_inv_def)
    have "mset (pool_conns (set_task i Outside ?q)) = mset (pool_conns p)"
      using conns_set_task [OF i, of Outside] assms(3) by (simp add: pool_conns_def set_task_def)
    then show "mset (pool_conns (set_task i Outside ?q)) \<subseteq># mset (pool_conns p) \<and> po_next (set_task i Outside ?q) = po_next p \<or>
        mset (pool_conns (set_task i Outside ?q)) \<subseteq># mset (po_next p # pool_conns p) \<and> po_next (set_task i Outside ?q) = Suc (po_next p)"
      by simp
  qed (use assms in \<open>simp_all add: pool_inv_def\<close>)
  then show ?thesis using room False by (simp add: release_write_conn_pooled_def put_nowait_def)
qed

lemma inv_acquire_start:
  assumes "pool_inv p" "i < length (po_tasks p)" "po_tasks p ! i = Starting"
  shows "pool_inv (acquire_start i p)"
proof (cases "po_idle p")
  case Nil
  show ?thesis
  proof (cases "po_open p < po_size p")
    case True
    then show ?thesis using Nil inv_task_change [OF assms(1,2), of Creating "Suc (po_open p)"] assms(3)
      by (simp add: acquire_start_def)
  next
    case False
    then show ?thesis using Nil inv_task_only [OF assms(1,2), of Waiting] assms(3) by (simp add: acquire_start_def)
  qed
next
  case (Cons c rest)
  then show ?thesis using inv_take_idle [OF assms(1,2) _ Cons] assms(3) by (simp add: acquire_start_def)
qed

lemma pool_step_inv: "pool_step p p' \<Longrightarrow> pool_inv p \<Longrightarrow> pool_inv p'"
proof (induction rule: pool_step.induct)
  case (release i p c discard p')
  then show ?case using inv_release [of p i c discard] by auto
next
  case (check i p c ready)
  then show ?case unfolding pooled_connection_checked_def by (cases ready) (simp_all add: inv_task_only)
next
  case (drop_broken i p c)
  then show ?case unfolding discard_pooled_connection_def by (simp add: inv_one_less)
next
  case (create_failed i p)
  then show ?case unfolding connection_failed_def by (simp add: inv_one_less)
next
  case (discarded i p c)
  then show ?case unfolding discard_finished_def by (simp add: inv_one_less)
qed (simp_all add: inv_task_only inv_acquire_start inv_created inv_take_idle)

lemma pool_init_inv: "pool_inv (pool_init n h k)"
  by (induction k) (auto simp: pool_inv_def pool_init_def in_use_def pool_conns_def)

lemma pool_reachable_inv: "pool_step\<^sup>*\<^sup>* (pool_init n h k) p \<Longrightarrow> pool_inv p"
  by (induction rule: rtranclp_induct) (auto intro: pool_init_inv pool_step_inv)

section \<open>Properties\<close>

text \<open>
  C36: whatever the order in which the tasks run, the pool never has more connections open than its size, the counter
  is exactly the number of connections that are idle, being opened, checked, closed or held, no connection is held by
  two tasks or held and idle at once, and giving a connection back never finds the queue full.
\<close>

theorem pool_never_oversubscribed:
  assumes "pool_step\<^sup>*\<^sup>* (pool_init n h k) p"
  shows "po_open p \<le> po_size p \<and> po_open p = length (po_idle p) + in_use p \<and>
    (\<forall>i j c. i < length (po_tasks p) \<longrightarrow> j < length (po_tasks p) \<longrightarrow> po_tasks p ! i = Holding c \<longrightarrow>
       c \<notin> set (po_idle p) \<and> (c \<in> set (task_conns (po_tasks p ! j)) \<longrightarrow> i = j) \<and>
       release_write_conn_pooled i c False p \<noteq> None)"
proof -
  have inv: "pool_inv p" by (rule pool_reachable_inv [OF assms])
  have "c \<notin> set (po_idle p) \<and> (c \<in> set (task_conns (po_tasks p ! j)) \<longrightarrow> i = j) \<and> release_write_conn_pooled i c False p \<noteq> None"
    if h: "i < length (po_tasks p)" "j < length (po_tasks p)" "po_tasks p ! i = Holding c" for i j c
  proof -
    have d: "distinct (po_idle p)" "distinct (concat (map task_conns (po_tasks p)))"
        "set (po_idle p) \<inter> set (concat (map task_conns (po_tasks p))) = {}"
      using inv by (simp_all add: pool_inv_def pool_conns_def)
    have c: "c \<in> set (task_conns (po_tasks p ! i))" using h by simp
    then have "c \<in> set (concat (map task_conns (po_tasks p)))" using nth_mem [OF h(1)] by auto
    moreover have "c \<in> set (task_conns (po_tasks p ! j)) \<longrightarrow> i = j"
      using distinct_concat_index [OF d(2) h(1,2) c] by blast
    ultimately show ?thesis using d(3) inv_release [OF inv h(1,3)] by (metis disjoint_iff option.distinct(1))
  qed
  then show ?thesis using inv by (auto simp: pool_inv_def)
qed

text \<open>A pool of one connection and two tasks: the first holds it, the second waits.\<close>

definition contended :: pool where
  "contended = \<lparr>po_size = 1, po_health_check = True, po_idle = [], po_open = 1, po_next = 1, po_tasks = [Holding 0, Waiting]\<rparr>"

lemma contended_reachable: "pool_step\<^sup>*\<^sup>* (pool_init 1 True 2) contended"
proof -
  define p1 where "p1 = set_task 0 Starting (pool_init 1 True 2)"
  define p2 where "p2 = acquire_start 0 p1"
  define p3 where "p3 = connection_created 0 p2"
  define p4 where "p4 = set_task 1 Starting p3"
  have e: "p1 = \<lparr>po_size = 1, po_health_check = True, po_idle = [], po_open = 0, po_next = 0, po_tasks = [Starting, Outside]\<rparr>"
    by (simp add: p1_def pool_init_def set_task_def numeral_2_eq_2)
  have e2: "p2 = \<lparr>po_size = 1, po_health_check = True, po_idle = [], po_open = 1, po_next = 0, po_tasks = [Creating, Outside]\<rparr>"
    by (simp add: p2_def e acquire_start_def set_task_def)
  have e3: "p3 = \<lparr>po_size = 1, po_health_check = True, po_idle = [], po_open = 1, po_next = 1, po_tasks = [Holding 0, Outside]\<rparr>"
    by (simp add: p3_def e2 connection_created_def set_task_def)
  have e4: "p4 = \<lparr>po_size = 1, po_health_check = True, po_idle = [], po_open = 1, po_next = 1, po_tasks = [Holding 0, Starting]\<rparr>"
    by (simp add: p4_def e3 set_task_def)
  have "acquire_start 1 p4 = contended" by (simp add: e4 acquire_start_def set_task_def contended_def)
  moreover have "pool_step (pool_init 1 True 2) p1" unfolding p1_def by (rule enter) (simp_all add: pool_init_def)
  moreover have "pool_step p1 p2" unfolding p2_def by (rule start) (simp_all add: e)
  moreover have "pool_step p2 p3" unfolding p3_def by (rule created) (simp_all add: e2)
  moreover have "pool_step p3 p4" unfolding p4_def by (rule enter) (simp_all add: e3)
  moreover have "pool_step p4 (acquire_start 1 p4)" by (rule start) (simp_all add: e4)
  ultimately show ?thesis by (metis converse_rtranclp_into_rtranclp rtranclp.rtrancl_refl)
qed

theorem pool_never_oversubscribed_witness:
  "pool_step\<^sup>*\<^sup>* (pool_init 1 True 2) contended \<and> po_open contended = 1 \<and> release_write_conn_pooled 0 0 False contended \<noteq> None"
proof -
  have "0 < length (po_tasks contended)" "po_tasks contended ! 0 = Holding 0" by (simp_all add: contended_def)
  then have "release_write_conn_pooled 0 0 False contended \<noteq> None"
    using pool_never_oversubscribed [OF contended_reachable] by blast
  then show ?thesis using contended_reachable by (simp add: contended_def)
qed

text \<open>
  A task that waits is not told when a connection is discarded: with the connection of the first task closed after an
  error there is room for a new one, but the waiting task can only time out.
\<close>

lemma waiter_misses_free_slot:
  "\<exists>p. pool_step\<^sup>*\<^sup>* (pool_init 1 True 2) p \<and> po_open p < po_size p \<and> po_tasks p = [Outside, Waiting] \<and>
     (\<forall>p'. pool_step p p' \<longrightarrow> po_tasks p' ! 1 \<in> {Waiting, Outside})"
proof -
  define p1 where "p1 = set_task 0 (Closing 0) contended"
  define p2 where "p2 = discard_finished 0 p1"
  have p2: "p2 = \<lparr>po_size = 1, po_health_check = True, po_idle = [], po_open = 0, po_next = 1, po_tasks = [Outside, Waiting]\<rparr>"
    by (simp add: p2_def p1_def discard_finished_def contended_def set_task_def one_less_def)
  have "pool_step contended p1"
    by (rule release [of 0 _ 0 True]) (simp_all add: contended_def p1_def release_write_conn_pooled_def)
  moreover have "pool_step p1 p2" unfolding p2_def by (rule discarded [of 0 _ 0]) (simp_all add: p1_def contended_def set_task_def)
  ultimately have "pool_step\<^sup>*\<^sup>* (pool_init 1 True 2) p2" using contended_reachable by (meson rtranclp.rtrancl_into_rtrancl)
  moreover have "po_tasks p' ! 1 \<in> {Waiting, Outside}" if "pool_step p2 p'" for p'
    using that
  proof cases
    case (enter i)
    then show ?thesis using p2 by (cases i) (auto simp: set_task_def)
  next
    case (timed_out i)
    then show ?thesis using p2 by (cases i) (auto simp: set_task_def)
  qed (use p2 in \<open>auto simp: less_Suc_eq nth_Cons split: nat.splits\<close>)
  ultimately show ?thesis using p2 by (intro exI [of _ p2]) simp
qed

end
