(* ===== verification/PG_Source.thy ===== *)
theory PG_Source
  imports Prelude Complex_Main
begin

text \<open>
  The PostgreSQL source (\<^verbatim>\<open>postgres/sources/\<close>): validation of its settings (\<^verbatim>\<open>_source_config.py\<close>), resume
  (\<^verbatim>\<open>_resume_runtime.py\<close>, with the identity check of \<^verbatim>\<open>_source_identity.py\<close>), routing and the guard against stale
  replicas (\<^verbatim>\<open>postgres.py\<close>), and the read loop with its retries (\<^verbatim>\<open>_stream_runtime.py\<close>).

  The driver is the environment: the log records every call with its reply, chosen from the log so far.  The
  generator is run until it ends or until its consumer closes it after a number of batches; \<open>ps_emitted\<close> is what it
  yielded.
\<close>

section \<open>Settings\<close>

definition READ_ROUTING_TARGET_SESSION_ATTRS :: "(string, string option) dict" where
  "READ_ROUTING_TARGET_SESSION_ATTRS =
     [(''dsn'', None), (''primary'', Some ''primary''), (''standby'', Some ''standby''),
      (''prefer_standby'', Some ''prefer-standby''), (''any'', Some ''any'')]"

record source_arguments =
  sa_checkpoint_field :: "string option"
  sa_checkpoint_param :: "string option"
  sa_checkpoint_fields :: "string list option"
  sa_checkpoint_params :: "(string, string) dict option"
  sa_statement_timeout_ms :: "int option"
  sa_read_routing :: string
  sa_max_replica_replay_lag_s :: "rat option"
  sa_on_replica_stale :: string
  sa_fetch_strategy :: string
  sa_batch_size :: int

text \<open>A missing or an empty list is false.\<close>

definition given_list :: "'a list option \<Rightarrow> bool" where
  "given_list xs \<longleftrightarrow> (case xs of None \<Rightarrow> False | Some l \<Rightarrow> l \<noteq> [])"

definition unmapped_fields :: "source_arguments \<Rightarrow> string list" where
  "unmapped_fields a =
     (case (sa_checkpoint_fields a, sa_checkpoint_params a) of
        (Some fs, Some ps) \<Rightarrow> filter (\<lambda>f. f \<notin> set (dict_keys ps)) fs
      | _ \<Rightarrow> [])"

definition validate_postgres_source_config :: "source_arguments \<Rightarrow> unit result" where
  "validate_postgres_source_config a =
     (let singular = sa_checkpoint_field a \<noteq> None \<or> sa_checkpoint_param a \<noteq> None;
          composite = sa_checkpoint_fields a \<noteq> None \<or> sa_checkpoint_params a \<noteq> None
      in if singular \<and> composite
         then Inl (ValueError ''Use either checkpoint_field/checkpoint_param or checkpoint_fields/checkpoint_params, not both.'')
         else if singular \<and> (sa_checkpoint_field a = None \<or> sa_checkpoint_param a = None)
         then Inl (ValueError ''checkpoint_field and checkpoint_param must be provided together.'')
         else if composite \<and> (\<not> given_list (sa_checkpoint_fields a) \<or> \<not> given_list (sa_checkpoint_params a))
         then Inl (ValueError ''checkpoint_fields and checkpoint_params must be provided together.'')
         else if unmapped_fields a \<noteq> []
         then Inl (ValueError ''checkpoint_params must provide a query parameter for every checkpoint field.'')
         else if (case sa_statement_timeout_ms a of None \<Rightarrow> False | Some t \<Rightarrow> t < 1)
         then Inl (ValueError ''statement_timeout_ms must be >= 1 when provided.'')
         else if sa_read_routing a \<notin> set (dict_keys READ_ROUTING_TARGET_SESSION_ATTRS)
         then Inl (ValueError ''read_routing must be one of: dsn, primary, standby, prefer_standby, any.'')
         else if (case sa_max_replica_replay_lag_s a of None \<Rightarrow> False | Some l \<Rightarrow> l < 0)
         then Inl (ValueError ''max_replica_replay_lag_s must be >= 0 when provided.'')
         else if sa_on_replica_stale a \<noteq> ''fail_closed'' \<and> sa_on_replica_stale a \<noteq> ''route_primary''
         then Inl (ValueError ''on_replica_stale must be fail_closed or route_primary.'')
         else if sa_fetch_strategy a \<noteq> ''client'' \<and> sa_fetch_strategy a \<noteq> ''server_side''
         then Inl (ValueError ''fetch_strategy must be client or server_side.'')
         else if sa_batch_size a < 1 then Inl (ValueError ''batch_size must be >= 1.'')
         else Inr ())"

definition sql_isolation_level :: "string \<Rightarrow> string result" where
  "sql_isolation_level value =
     (case dict_get [(''read_committed'', ''read committed''), (''repeatable_read'', ''repeatable read''),
                     (''serializable'', ''serializable'')] value of
        None \<Rightarrow> Inl (KeyError value) | Some s \<Rightarrow> Inr s)"

text \<open>The markers a transient read error is recognised by: its SQLSTATE, its class name or its message.\<close>

definition is_retriable_postgres_read_error :: "string option \<Rightarrow> exn \<Rightarrow> bool" where
  "is_retriable_postgres_read_error sqlstate exc \<longleftrightarrow>
     (case sqlstate of
        Some st \<Rightarrow> prefix ''08'' st \<or> List.member [''57P01'', ''57P02'', ''57P03'', ''40001'', ''40P01''] st
      | None \<Rightarrow> False) \<or>
     list_ex (\<lambda>marker. str_contains (str_lower (exn_name exc)) marker \<or> str_contains (str_lower (exn_msg exc)) marker)
       [''connection'', ''connect'', ''timeout'', ''temporar'', ''operational'', ''admin shutdown'',
        ''server closed the connection'']"

section \<open>State\<close>

type_synonym pg_row = "(string, pyval) dict"

type_synonym params = "(string, pyval) dict"

type_synonym row_checkpoint = "nat \<times> pyval option"

datatype cursor_kind = ClientCursor | ServerCursor string bool

datatype read_call =
    Connect "string option"
  | Inspect nat
  | Rollback nat
  | CloseConn nat
  | Configure nat string
  | Execute nat cursor_kind string "params option"
  | FetchMany nat int
  | CloseCursor nat
  | ExitConn nat

text \<open>The answer to the role query: no row, or whether the server is in recovery and how far it lags.\<close>

datatype read_reply =
    RUnit
  | RConn nat
  | RRole "(bool \<times> rat option) option"
  | RRows "pg_row list"

datatype read_exn =
    ReadExn exn
  | RowError exn pg_row "row_checkpoint option"

type_synonym read_log = "(read_call \<times> (exn + read_reply)) list"

record read_env =
  pe_reply :: "read_log \<Rightarrow> read_call \<Rightarrow> exn + read_reply"
  pe_cursor_name :: "read_log \<Rightarrow> string"

record row_context =
  rx_row_number :: nat
  rx_checkpoint_cursor :: pyval
  rx_params :: params
  rx_connected_server_role :: "string option"
  rx_replica_replay_lag_s :: "rat option"

record 'a pg_source_config =
  pc_query :: string
  pc_row_mapper :: "pg_row \<Rightarrow> row_context option \<Rightarrow> 'a option result"
  pc_accepts_context :: bool
  pc_base_params :: params
  pc_batch_size :: int
  pc_checkpoint_field :: "string option"
  pc_checkpoint_param :: "string option"
  pc_checkpoint_fields :: "string list"
  pc_checkpoint_params :: "(string, string) dict"
  pc_log_and_continue :: bool
  pc_max_attempts :: nat
  pc_should_retry :: "read_exn \<Rightarrow> nat \<Rightarrow> bool"
  pc_statement_timeout_ms :: "int option"
  pc_transaction_read_only :: "bool option"
  pc_isolation_level :: "string option"
  pc_read_routing :: string
  pc_max_replica_replay_lag_s :: "rat option"
  pc_on_replica_stale :: string
  pc_fetch_strategy :: string
  pc_server_side_cursor_name :: "string option"
  pc_server_side_cursor_withhold :: bool

text \<open>\<^verbatim>\<open>None\<close> as a cursor is \<open>PNone\<close>.\<close>

record 'a pg_source =
  ps_params :: params
  ps_rows_seen :: nat
  ps_last_checkpoint_cursor :: pyval
  ps_current_row_checkpoint_cursor :: pyval
  ps_record_error_count :: nat
  ps_record_drop_count :: nat
  ps_active_stream_count :: nat
  ps_stream_run_count :: nat
  ps_query_execution_count :: nat
  ps_retry_count :: nat
  ps_staleness_guard_block_count :: nat
  ps_staleness_guard_primary_fallback_count :: nat
  ps_resume_prepare_count :: nat
  ps_resume_checkpoint_apply_count :: nat
  ps_last_stream_succeeded :: "bool option"
  ps_connected_server_role :: "string option"
  ps_last_replica_replay_lag_s :: "rat option"
  ps_last_health_error :: "string option"
  ps_log :: read_log
  ps_emitted :: "'a list"

definition pg_source_init :: "'a pg_source_config \<Rightarrow> 'a pg_source" where
  "pg_source_init cf =
     \<lparr>ps_params = pc_base_params cf, ps_rows_seen = 0, ps_last_checkpoint_cursor = PNone,
      ps_current_row_checkpoint_cursor = PNone, ps_record_error_count = 0, ps_record_drop_count = 0,
      ps_active_stream_count = 0, ps_stream_run_count = 0, ps_query_execution_count = 0, ps_retry_count = 0,
      ps_staleness_guard_block_count = 0, ps_staleness_guard_primary_fallback_count = 0, ps_resume_prepare_count = 0,
      ps_resume_checkpoint_apply_count = 0, ps_last_stream_succeeded = None, ps_connected_server_role = None,
      ps_last_replica_replay_lag_s = None, ps_last_health_error = None, ps_log = [], ps_emitted = []\<rparr>"

type_synonym ('a, 'b) read_op = "('a pg_source, read_exn, 'b) xeff"

definition ask :: "read_env \<Rightarrow> read_call \<Rightarrow> ('a, read_reply) read_op" where
  "ask E c s =
     (let r = pe_reply E (ps_log s) c
      in (s\<lparr>ps_log := ps_log s @ [(c, r)]\<rparr>, case r of Inl e \<Rightarrow> Inl (ReadExn e) | Inr a \<Rightarrow> Inr a))"

definition tell :: "read_env \<Rightarrow> read_call \<Rightarrow> ('a, unit) read_op" where
  "tell E c = bindE (ask E c) (\<lambda>_. returnE ())"

text \<open>\<^verbatim>\<open>except Exception\<close> lets a cancellation pass.\<close>

definition read_cancelled :: "read_exn \<Rightarrow> bool" where
  "read_cancelled e = (case e of ReadExn x \<Rightarrow> isinstance_exn x ''CancelledError'' | RowError _ _ _ \<Rightarrow> False)"

definition exceptE :: "('a, 'b) read_op \<Rightarrow> (read_exn \<Rightarrow> ('a, 'b) read_op) \<Rightarrow> ('a, 'b) read_op" where
  "exceptE m h = tryE m (\<lambda>e. if read_cancelled e then raiseE e else h e)"

definition read_exn_text :: "read_exn \<Rightarrow> string" where
  "read_exn_text e = (case e of ReadExn x \<Rightarrow> exn_msg x | RowError x _ _ \<Rightarrow> exn_msg x)"

section \<open>Resume\<close>

definition reset_progress :: "'a pg_source \<Rightarrow> 'a pg_source" where
  "reset_progress s = s\<lparr>ps_rows_seen := 0, ps_last_checkpoint_cursor := PNone, ps_current_row_checkpoint_cursor := PNone,
     ps_record_error_count := 0, ps_record_drop_count := 0, ps_retry_count := 0, ps_staleness_guard_block_count := 0,
     ps_staleness_guard_primary_fallback_count := 0, ps_connected_server_role := None,
     ps_last_replica_replay_lag_s := None, ps_last_health_error := None\<rparr>"

definition source_supports_checkpoint :: "'a pg_source_config \<Rightarrow> bool" where
  "source_supports_checkpoint cf \<longleftrightarrow>
     ((case pc_checkpoint_field cf of None \<Rightarrow> False | Some f \<Rightarrow> f \<noteq> []) \<and>
      (case pc_checkpoint_param cf of None \<Rightarrow> False | Some p \<Rightarrow> p \<noteq> [])) \<or>
     pc_checkpoint_fields cf \<noteq> [] \<and> pc_checkpoint_params cf \<noteq> []"

text \<open>The loop over the fields of a composite cursor; what it set before it raises stays set.\<close>

fun apply_composite :: "'a pg_source_config \<Rightarrow> (string, pyval) dict \<Rightarrow> string list \<Rightarrow> ('a, unit) read_op" where
  "apply_composite cf cursor [] = returnE ()"
| "apply_composite cf cursor (f # fs) =
     (case dict_get (pc_checkpoint_params cf) f of
        None \<Rightarrow> raiseE (ReadExn (KeyError f))
      | Some p \<Rightarrow>
          (case dict_get cursor f of
             None \<Rightarrow> raiseE (ReadExn (ValueError ''Checkpoint cursor is missing composite field''))
           | Some v \<Rightarrow> thenE (modifyE (\<lambda>s. s\<lparr>ps_params := dict_set p v (ps_params s)\<rparr>)) (apply_composite cf cursor fs)))"

definition note_applied :: "('a, unit) read_op" where
  "note_applied = modifyE (\<lambda>s. s\<lparr>ps_resume_checkpoint_apply_count := Suc (ps_resume_checkpoint_apply_count s)\<rparr>)"

text \<open>The checkpoint is the value it carries; a value without a cursor is ignored.\<close>

definition pg_prepare_resume :: "'a pg_source_config \<Rightarrow> pyval option \<Rightarrow> ('a, unit) read_op" where
  "pg_prepare_resume cf checkpoint =
     thenE (modifyE (\<lambda>s. (reset_progress (s\<lparr>ps_resume_prepare_count := Suc (ps_resume_prepare_count s)\<rparr>))\<lparr>ps_params := pc_base_params cf\<rparr>))
     (case (if source_supports_checkpoint cf then checkpoint else None) of
        Some (PDict value) \<Rightarrow>
          (case dict_get value ''cursor'' of
             None \<Rightarrow> returnE ()
           | Some cursor \<Rightarrow>
               (case pc_checkpoint_param cf of
                  Some p \<Rightarrow> thenE (modifyE (\<lambda>s. s\<lparr>ps_params := dict_set p cursor (ps_params s)\<rparr>)) note_applied
                | None \<Rightarrow>
                    (case cursor of
                       PDict d \<Rightarrow> thenE (apply_composite cf d (pc_checkpoint_fields cf)) note_applied
                     | _ \<Rightarrow> raiseE (ReadExn (TypeError ''Composite PostgresSource checkpoints require cursor values to be dicts.'')))))
      | _ \<Rightarrow> returnE ())"

definition pg_current_checkpoint :: "'a pg_source \<Rightarrow> row_checkpoint option" where
  "pg_current_checkpoint s =
     (if ps_rows_seen s = 0 \<and> ps_last_checkpoint_cursor s = PNone then None
      else Some (ps_rows_seen s, if ps_last_checkpoint_cursor s = PNone then None else Some (ps_last_checkpoint_cursor s)))"

fun composite_cursor :: "pg_row \<Rightarrow> string list \<Rightarrow> (string, pyval) dict result" where
  "composite_cursor row [] = Inr []"
| "composite_cursor row (f # fs) =
     (case dict_get row f of
        None \<Rightarrow> Inl (KeyError ''Checkpoint field missing from row'')
      | Some v \<Rightarrow> bindR (composite_cursor row fs) (\<lambda>d. Inr ((f, v) # dict_pop f d)))"

definition extract_checkpoint_cursor :: "'a pg_source_config \<Rightarrow> pg_row \<Rightarrow> pyval result" where
  "extract_checkpoint_cursor cf row =
     (case pc_checkpoint_field cf of
        Some f \<Rightarrow> (case dict_get row f of None \<Rightarrow> Inl (KeyError ''Checkpoint field missing from row'') | Some v \<Rightarrow> Inr v)
      | None \<Rightarrow> if pc_checkpoint_fields cf \<noteq> [] then bindR (composite_cursor row (pc_checkpoint_fields cf)) (\<lambda>d. Inr (PDict d))
                else Inr PNone)"

text \<open>A checkpoint is used only for the input it was taken from, unless the policy says otherwise.\<close>

datatype mismatch_policy = MismatchFailClosed | MismatchReset | MismatchAllow

definition validate_resume_checkpoint_identity ::
    "('i option \<times> 'c) option \<Rightarrow> 'i \<Rightarrow> mismatch_policy \<Rightarrow> ('i option \<times> 'c) option result" where
  "validate_resume_checkpoint_identity checkpoint current_identity policy =
     (case checkpoint of
        None \<Rightarrow> Inr None
      | Some (identity, value) \<Rightarrow>
          if identity = Some current_identity then Inr checkpoint
          else (case policy of
                  MismatchFailClosed \<Rightarrow> Inl (Exn ''SourceIdentityMismatchError'' [''Exception''] ''Cannot safely resume source'')
                | MismatchReset \<Rightarrow> Inr None
                | MismatchAllow \<Rightarrow> Inr checkpoint))"

section \<open>Connections and the guard against stale replicas\<close>

definition set_server_observation :: "string option \<Rightarrow> rat option \<Rightarrow> string option \<Rightarrow> ('a, unit) read_op" where
  "set_server_observation role lag err =
     modifyE (\<lambda>s. s\<lparr>ps_connected_server_role := role, ps_last_replica_replay_lag_s := lag, ps_last_health_error := err\<rparr>)"

definition read_target_session_attrs :: "string \<Rightarrow> string option" where
  "read_target_session_attrs routing =
     (case dict_get READ_ROUTING_TARGET_SESSION_ATTRS routing of None \<Rightarrow> None | Some a \<Rightarrow> a)"

definition open_connection :: "read_env \<Rightarrow> string option \<Rightarrow> ('a, nat) read_op" where
  "open_connection E attrs = bindE (ask E (Connect attrs)) (\<lambda>r. returnE (case r of RConn c \<Rightarrow> c | _ \<Rightarrow> 0))"

definition role_of :: "read_reply \<Rightarrow> string \<times> rat option" where
  "role_of r =
     (case r of
        RRole (Some (is_standby, lag)) \<Rightarrow> (if is_standby then ''standby'' else ''primary'', lag)
      | _ \<Rightarrow> (''primary'', None))"

definition inspect_server_role :: "read_env \<Rightarrow> nat \<Rightarrow> ('a, string \<times> rat option) read_op" where
  "inspect_server_role E conn = bindE (ask E (Inspect conn)) (\<lambda>r. returnE (role_of r))"

definition replica_is_stale :: "'a pg_source_config \<Rightarrow> string \<Rightarrow> rat option \<Rightarrow> bool" where
  "replica_is_stale cf role lag =
     (if role \<noteq> ''standby'' then False
      else (case pc_max_replica_replay_lag_s cf of
              None \<Rightarrow> False
            | Some budget \<Rightarrow> (case lag of None \<Rightarrow> True | Some l \<Rightarrow> budget < l)))"

definition staleness_error :: exn where
  "staleness_error = Exn ''PostgresReplicaStalenessError'' [''RuntimeError'', ''Exception'']
     ''Postgres standby replay lag exceeded source staleness guard''"

definition count_block :: "bool \<Rightarrow> ('a, unit) read_op" where
  "count_block b = modifyE (\<lambda>s. if b then s\<lparr>ps_staleness_guard_block_count := Suc (ps_staleness_guard_block_count s)\<rparr> else s)"

definition raise_replica_staleness :: "read_env \<Rightarrow> string \<Rightarrow> rat option \<Rightarrow> nat option \<Rightarrow> bool \<Rightarrow> ('a, 'b) read_op" where
  "raise_replica_staleness E role lag close_conn counts =
     thenE (count_block counts)
     (thenE (set_server_observation (Some role) lag (Some (exn_msg staleness_error)))
     (thenE (case close_conn of None \<Rightarrow> returnE () | Some c \<Rightarrow> tell E (CloseConn c))
            (raiseE (ReadExn staleness_error))))"

definition primary_fallback :: "read_env \<Rightarrow> bool \<Rightarrow> ('a, nat \<times> string \<times> rat option) read_op" where
  "primary_fallback E counts =
     bindE (open_connection E (read_target_session_attrs ''primary'')) (\<lambda>conn.
     bindE (inspect_server_role E conn) (\<lambda>(role, lag).
       if role \<noteq> ''primary''
       then thenE (count_block counts)
            (thenE (set_server_observation (Some role) lag (Some ''PostgresSource route_primary fallback did not resolve to a primary server''))
            (thenE (tell E (CloseConn conn))
                   (raiseE (ReadExn (RuntimeError ''PostgresSource route_primary fallback must connect to a primary server.'')))))
       else thenE (modifyE (\<lambda>s. if counts then s\<lparr>ps_staleness_guard_primary_fallback_count := Suc (ps_staleness_guard_primary_fallback_count s)\<rparr> else s))
                  (returnE (conn, role, lag))))"

definition resolve_read_connection ::
    "read_env \<Rightarrow> 'a pg_source_config \<Rightarrow> bool \<Rightarrow> ('a, nat \<times> string \<times> rat option) read_op" where
  "resolve_read_connection E cf counts =
     bindE (open_connection E (read_target_session_attrs (pc_read_routing cf))) (\<lambda>conn.
     bindE (inspect_server_role E conn) (\<lambda>(role, lag).
       if \<not> replica_is_stale cf role lag then returnE (conn, role, lag)
       else if pc_on_replica_stale cf = ''route_primary''
       then thenE (tell E (CloseConn conn)) (primary_fallback E counts)
       else raise_replica_staleness E role lag (Some conn) counts))"

definition connect_for_read_attempt :: "read_env \<Rightarrow> 'a pg_source_config \<Rightarrow> ('a, nat) read_op" where
  "connect_for_read_attempt E cf =
     bindE (resolve_read_connection E cf True) (\<lambda>(conn, role, lag).
     thenE (set_server_observation (Some role) lag None)
     (thenE (exceptE (tell E (Rollback conn)) (\<lambda>_. returnE ()))
            (returnE conn)))"

definition enforce_active_replica_freshness :: "read_env \<Rightarrow> 'a pg_source_config \<Rightarrow> nat \<Rightarrow> ('a, unit) read_op" where
  "enforce_active_replica_freshness E cf conn =
     bindE (inspect_server_role E conn) (\<lambda>(role, lag).
       if \<not> replica_is_stale cf role lag then set_server_observation (Some role) lag None
       else raise_replica_staleness E role lag None True)"

text \<open>The health check opens a connection of its own.\<close>

definition refresh_health_state :: "read_env \<Rightarrow> 'a pg_source_config \<Rightarrow> ('a, unit) read_op" where
  "refresh_health_state E cf s =
     (case resolve_read_connection E cf False s of
        (s1, Inl e) \<Rightarrow>
          if read_cancelled e then (s1, Inl e)
          else (let stale = (case e of ReadExn x \<Rightarrow> isinstance_exn x ''PostgresReplicaStalenessError'' | _ \<Rightarrow> False)
                in set_server_observation (if stale then ps_connected_server_role s1 else None)
                     (if stale then ps_last_replica_replay_lag_s s1 else None) (Some (read_exn_text e)) s1)
      | (s1, Inr (conn, role, lag)) \<Rightarrow>
          finallyE (set_server_observation (Some role) lag None) (tell E (CloseConn conn)) s1)"

section \<open>Reading\<close>

definition join_modes :: "string list \<Rightarrow> string" where
  "join_modes ms = (case ms of [] \<Rightarrow> [] | m # rest \<Rightarrow> m @ concat (map (\<lambda>x. '', '' @ x) rest))"

definition upper_char :: "char \<Rightarrow> char" where
  "upper_char c = (if CHR ''a'' \<le> c \<and> c \<le> CHR ''z'' then char_of (of_char c - (32 :: nat)) else c)"

definition transaction_modes :: "'a pg_source_config \<Rightarrow> string list result" where
  "transaction_modes cf =
     bindR (case pc_isolation_level cf of
              None \<Rightarrow> Inr []
            | Some l \<Rightarrow> bindR (sql_isolation_level l) (\<lambda>t. Inr [''ISOLATION LEVEL '' @ map upper_char t]))
       (\<lambda>iso. Inr (iso @ (case pc_transaction_read_only cf of
              None \<Rightarrow> [] | Some b \<Rightarrow> [if b then ''READ ONLY'' else ''READ WRITE''])))"

definition apply_read_safety_controls :: "read_env \<Rightarrow> 'a pg_source_config \<Rightarrow> nat \<Rightarrow> ('a, unit) read_op" where
  "apply_read_safety_controls E cf conn =
     (case transaction_modes cf of
        Inl e \<Rightarrow> raiseE (ReadExn e)
      | Inr modes \<Rightarrow>
          thenE (if modes = [] then returnE () else tell E (Configure conn (''SET TRANSACTION '' @ join_modes modes)))
                (case pc_statement_timeout_ms cf of
                   None \<Rightarrow> returnE ()
                 | Some t \<Rightarrow> tell E (Configure conn (''statement_timeout = '' @ str_of_int t))))"

definition open_stream_cursor :: "read_env \<Rightarrow> 'a pg_source_config \<Rightarrow> 'a pg_source \<Rightarrow> cursor_kind" where
  "open_stream_cursor E cf s =
     (if pc_fetch_strategy cf = ''server_side''
      then ServerCursor (case pc_server_side_cursor_name cf of None \<Rightarrow> pe_cursor_name E (ps_log s)
                         | Some n \<Rightarrow> if n = [] then pe_cursor_name E (ps_log s) else n)
             (pc_server_side_cursor_withhold cf)
      else ClientCursor)"

definition row_context_of :: "'a pg_source \<Rightarrow> row_context" where
  "row_context_of s = \<lparr>rx_row_number = ps_rows_seen s, rx_checkpoint_cursor = ps_current_row_checkpoint_cursor s,
     rx_params = ps_params s, rx_connected_server_role = ps_connected_server_role s,
     rx_replica_replay_lag_s = ps_last_replica_replay_lag_s s\<rparr>"

definition map_row :: "'a pg_source_config \<Rightarrow> pg_row \<Rightarrow> 'a pg_source \<Rightarrow> 'a option result" where
  "map_row cf row s = pc_row_mapper cf row (if pc_accepts_context cf then Some (row_context_of s) else None)"

definition row_failed :: "'a pg_source_config \<Rightarrow> pg_row \<Rightarrow> read_exn \<Rightarrow> ('a, unit) read_op" where
  "row_failed cf row e =
     thenE (modifyE (\<lambda>s. s\<lparr>ps_record_error_count := Suc (ps_record_error_count s)\<rparr>))
     (if pc_log_and_continue cf then modifyE (\<lambda>s. s\<lparr>ps_record_drop_count := Suc (ps_record_drop_count s)\<rparr>)
      else (\<lambda>s. raiseE (RowError (case e of ReadExn x \<Rightarrow> x | RowError x _ _ \<Rightarrow> x) row (pg_current_checkpoint s)) s))"

text \<open>The body of the \<^verbatim>\<open>try\<close>: the cursor of the row counts as reached once the row is mapped.\<close>

definition map_and_emit :: "'a pg_source_config \<Rightarrow> pg_row \<Rightarrow> ('a, unit) read_op" where
  "map_and_emit cf row s0 =
     (let s = s0\<lparr>ps_rows_seen := Suc (ps_rows_seen s0)\<rparr> in
      case extract_checkpoint_cursor cf row of
        Inl e \<Rightarrow> raiseE (ReadExn e) s
      | Inr cursor \<Rightarrow>
          (let s1 = s\<lparr>ps_current_row_checkpoint_cursor := cursor\<rparr> in
           case map_row cf row s1 of
             Inl e \<Rightarrow> raiseE (ReadExn e) s1
           | Inr (Some a) \<Rightarrow> returnE () (s1\<lparr>ps_last_checkpoint_cursor := cursor, ps_emitted := ps_emitted s1 @ [a]\<rparr>)
           | Inr None \<Rightarrow> returnE () (s1\<lparr>ps_last_checkpoint_cursor := cursor, ps_record_drop_count := Suc (ps_record_drop_count s1)\<rparr>)))"

definition emit_row :: "'a pg_source_config \<Rightarrow> pg_row \<Rightarrow> ('a, unit) read_op" where
  "emit_row cf row =
     finallyE (exceptE (map_and_emit cf row) (row_failed cf row))
       (modifyE (\<lambda>s. s\<lparr>ps_current_row_checkpoint_cursor := PNone\<rparr>))"

fun emit_rows :: "'a pg_source_config \<Rightarrow> pg_row list \<Rightarrow> ('a, unit) read_op" where
  "emit_rows cf [] = returnE ()"
| "emit_rows cf (r # rs) = thenE (emit_row cf r) (emit_rows cf rs)"

text \<open>The loop over batches.  \<open>False\<close>: the consumer closed the generator before the query was exhausted.\<close>

fun fetch_loop :: "read_env \<Rightarrow> 'a pg_source_config \<Rightarrow> nat \<Rightarrow> nat \<Rightarrow> ('a, bool) read_op" where
  "fetch_loop E cf conn 0 = returnE False"
| "fetch_loop E cf conn (Suc n) =
     thenE (enforce_active_replica_freshness E cf conn)
     (bindE (ask E (FetchMany conn (pc_batch_size cf))) (\<lambda>r.
        let rows = (case r of RRows rs \<Rightarrow> rs | _ \<Rightarrow> []) in
        if rows = [] then returnE True else thenE (emit_rows cf rows) (fetch_loop E cf conn n)))"

definition run_query :: "read_env \<Rightarrow> 'a pg_source_config \<Rightarrow> nat \<Rightarrow> nat \<Rightarrow> ('a, bool) read_op" where
  "run_query E cf fuel conn s =
     finallyE
       (thenE (tell E (Execute conn (open_stream_cursor E cf s) (pc_query cf) (if ps_params s = [] then None else Some (ps_params s))))
              (fetch_loop E cf conn fuel))
       (if pc_fetch_strategy cf = ''server_side'' then tell E (CloseCursor conn) else returnE ()) s"

definition stream_attempt :: "read_env \<Rightarrow> 'a pg_source_config \<Rightarrow> nat \<Rightarrow> ('a, bool) read_op" where
  "stream_attempt E cf fuel =
     thenE (modifyE (\<lambda>s. s\<lparr>ps_query_execution_count := Suc (ps_query_execution_count s)\<rparr>))
     (bindE (connect_for_read_attempt E cf) (\<lambda>conn.
        finallyE (thenE (apply_read_safety_controls E cf conn) (run_query E cf fuel conn)) (tell E (ExitConn conn))))"

text \<open>Reading is tried again only while no row was seen; the policy gives up at its last attempt at the latest.\<close>

definition should_retry_read :: "'a pg_source_config \<Rightarrow> read_exn \<Rightarrow> nat \<Rightarrow> 'a pg_source \<Rightarrow> bool" where
  "should_retry_read cf e attempt s \<longleftrightarrow>
     ps_rows_seen s = 0 \<and> ps_last_checkpoint_cursor s = PNone \<and> attempt < pc_max_attempts cf \<and> pc_should_retry cf e attempt"

function read_attempts :: "read_env \<Rightarrow> 'a pg_source_config \<Rightarrow> nat \<Rightarrow> nat \<Rightarrow> ('a, bool) read_op" where
  "read_attempts E cf fuel attempt s =
     (case stream_attempt E cf fuel s of
        (s1, Inr b) \<Rightarrow> (s1, Inr b)
      | (s1, Inl e) \<Rightarrow>
          if read_cancelled e \<or> \<not> should_retry_read cf e attempt s1 then (s1, Inl e)
          else read_attempts E cf fuel (Suc attempt) (s1\<lparr>ps_retry_count := Suc (ps_retry_count s1)\<rparr>))"
  by auto
termination by (relation "measure (\<lambda>(E, cf, fuel, attempt, s). pc_max_attempts cf - attempt)") (auto simp: should_retry_read_def)

declare read_attempts.simps [simp del]

definition pg_stream :: "read_env \<Rightarrow> 'a pg_source_config \<Rightarrow> nat \<Rightarrow> ('a, bool) read_op" where
  "pg_stream E cf fuel s0 =
     (let s = reset_progress s0;
          s1 = s\<lparr>ps_stream_run_count := Suc (ps_stream_run_count s), ps_active_stream_count := Suc (ps_active_stream_count s)\<rparr>
      in case read_attempts E cf fuel 1 s1 of (s2, r) \<Rightarrow>
           (s2\<lparr>ps_last_stream_succeeded := Some (case r of Inl e \<Rightarrow> read_cancelled e | Inr _ \<Rightarrow> True),
               ps_active_stream_count := ps_active_stream_count s2 - 1\<rparr>, r))"

end
