(* ===== verification/PG_Source_Reads.thy ===== *)
theory PG_Source_Reads
  imports PG_Source
begin

text \<open>
  Runs of the PostgreSQL source: rows come only from servers that are fresh enough, and each row comes once.
  \<open>read_frame\<close> is the contract of a relation between states that opening, checking and configuring a connection
  keep; \<open>fresh_step\<close> and \<open>still\<close> are its instances.
\<close>

section \<open>What the log says\<close>

text \<open>Every fetch directly follows an inspection of its connection that showed it fresh.\<close>

fun fresh_before :: "'a pg_source_config \<Rightarrow> nat \<Rightarrow> (read_call \<times> (exn + read_reply)) option \<Rightarrow> bool" where
  "fresh_before cf c (Some (Inspect c', Inr r)) \<longleftrightarrow> c' = c \<and> \<not> replica_is_stale cf (fst (role_of r)) (snd (role_of r))"
| "fresh_before cf c _ \<longleftrightarrow> False"

fun fetches_fresh :: "'a pg_source_config \<Rightarrow> (read_call \<times> (exn + read_reply)) option \<Rightarrow> read_log \<Rightarrow> bool" where
  "fetches_fresh cf before [] \<longleftrightarrow> True"
| "fetches_fresh cf before (e # es) \<longleftrightarrow>
     (case fst e of FetchMany c _ \<Rightarrow> fresh_before cf c before | _ \<Rightarrow> True) \<and> fetches_fresh cf (Some e) es"

text \<open>The rows that were fetched, and that the query ran only while there were none.\<close>

fun rows_of :: "read_call \<times> (exn + read_reply) \<Rightarrow> pg_row list" where
  "rows_of (FetchMany _ _, Inr (RRows rs)) = rs"
| "rows_of _ = []"

definition fetched :: "read_log \<Rightarrow> pg_row list" where
  "fetched es = concat (map rows_of es)"

fun is_execute :: "read_call \<Rightarrow> bool" where
  "is_execute (Execute _ _ _ _) = True"
| "is_execute _ = False"

fun is_fetch_many :: "read_call \<Rightarrow> bool" where
  "is_fetch_many (FetchMany _ _) = True"
| "is_fetch_many _ = False"

fun single_query :: "pg_row list \<Rightarrow> read_log \<Rightarrow> bool" where
  "single_query seen [] \<longleftrightarrow> True"
| "single_query seen (e # es) \<longleftrightarrow> (is_execute (fst e) \<longrightarrow> seen = []) \<and> single_query (seen @ rows_of e) es"

text \<open>What a row gives, and the cursor after it, for a row mapper that takes the row alone.\<close>

definition record_of :: "'a pg_source_config \<Rightarrow> pg_row \<Rightarrow> 'a option" where
  "record_of cf row =
     (case extract_checkpoint_cursor cf row of
        Inl _ \<Rightarrow> None
      | Inr _ \<Rightarrow> (case pc_row_mapper cf row None of Inr (Some a) \<Rightarrow> Some a | _ \<Rightarrow> None))"

definition cursor_after :: "'a pg_source_config \<Rightarrow> pyval \<Rightarrow> pg_row \<Rightarrow> pyval" where
  "cursor_after cf c row =
     (case extract_checkpoint_cursor cf row of
        Inl _ \<Rightarrow> c
      | Inr v \<Rightarrow> (case pc_row_mapper cf row None of Inl _ \<Rightarrow> c | Inr _ \<Rightarrow> v))"

section \<open>Freshness\<close>

lemma fresh_weaken: "fetches_fresh cf None es \<Longrightarrow> fetches_fresh cf b es"
  by (cases es) (auto split: read_call.splits)

lemma fresh_append: "\<lbrakk>fetches_fresh cf b es; fetches_fresh cf None fs\<rbrakk> \<Longrightarrow> fetches_fresh cf b (es @ fs)"
  by (induction es arbitrary: b) (auto intro: fresh_weaken)

definition fresh_step :: "'a pg_source_config \<Rightarrow> 'a pg_source \<Rightarrow> 'a pg_source \<Rightarrow> bool" where
  "fresh_step cf s s' \<longleftrightarrow> (\<exists>es. ps_log s' = ps_log s @ es \<and> fetches_fresh cf None es)"

lemma fresh_self [simp]: "ps_log s' = ps_log s \<Longrightarrow> fresh_step cf s s'"
  by (auto simp: fresh_step_def)

lemma fresh_refl [simp]: "reflp (fresh_step cf)"
  by (simp add: reflp_def)

lemma fresh_trans [simp]: "transp (fresh_step cf)"
proof (rule transpI)
  fix a b c assume "fresh_step cf a b" "fresh_step cf b c"
  then obtain x y where "ps_log b = ps_log a @ x" "ps_log c = ps_log b @ y" "fetches_fresh cf None x" "fetches_fresh cf None y"
    by (auto simp: fresh_step_def)
  then have "ps_log c = ps_log a @ (x @ y)" "fetches_fresh cf None (x @ y)" by (simp_all add: fresh_append)
  then show "fresh_step cf a c" unfolding fresh_step_def by blast
qed

lemma ask_log: "ask E c s = (s', r) \<Longrightarrow> s' = s\<lparr>ps_log := ps_log s @ [(c, pe_reply E (ps_log s) c)]\<rparr>"
  by (auto simp: ask_def Let_def)

section \<open>Frames\<close>

text \<open>
  A relation between states that every call other than running the query and fetching keeps, and that the
  observations and counters of the guard keep: so do opening, checking and configuring a connection.
\<close>

locale read_frame =
  fixes R :: "'a pg_source \<Rightarrow> 'a pg_source \<Rightarrow> bool"
  assumes refl: "reflp R" and trans: "transp R"
    and calls: "\<lbrakk>\<not> is_execute c; \<not> is_fetch_many c\<rbrakk> \<Longrightarrow> preserves R (ask E c)"
    and observed: "R s (s\<lparr>ps_connected_server_role := x, ps_last_replica_replay_lag_s := l, ps_last_health_error := h\<rparr>)"
    and counters: "R s (s\<lparr>ps_staleness_guard_block_count := n\<rparr>)" "R s (s\<lparr>ps_staleness_guard_primary_fallback_count := n\<rparr>)"
      "R s (s\<lparr>ps_query_execution_count := n\<rparr>)"
begin

lemma basic: "preserves R (returnE a)" "preserves R (raiseE e)"
  by (rule preserves_basic, rule refl)+

lemma bind: "\<lbrakk>preserves R m; \<And>a. preserves R (f a)\<rbrakk> \<Longrightarrow> preserves R (bindE m f)"
  by (rule preserves_bind [OF trans])

lemma seq: "\<lbrakk>preserves R m; preserves R n\<rbrakk> \<Longrightarrow> preserves R (thenE m n)"
  by (rule preserves_then [OF trans])

lemma handled: "\<lbrakk>preserves R m; \<And>e. preserves R (h e)\<rbrakk> \<Longrightarrow> preserves R (exceptE m h)"
  unfolding exceptE_def by (intro preserves_try [OF trans]) (auto simp: refl)

lemma call: "\<lbrakk>\<not> is_execute c; \<not> is_fetch_many c\<rbrakk> \<Longrightarrow> preserves R (tell E c)"
  unfolding tell_def by (intro bind calls basic)

lemma same: "R s s"
  using refl by (simp add: reflp_def)

lemma observation: "preserves R (set_server_observation x l h)"
  unfolding set_server_observation_def by (intro preserves_basic observed)

lemma blocked: "preserves R (count_block b)"
  unfolding count_block_def by (intro preserves_basic) (simp add: counters same)

lemma opened: "preserves R (open_connection E attrs)"
  unfolding open_connection_def by (intro bind calls basic) simp_all

lemma inspected: "preserves R (inspect_server_role E conn)"
  unfolding inspect_server_role_def by (intro bind calls basic) simp_all

lemma stale: "preserves R (raise_replica_staleness E x l c b)"
  unfolding raise_replica_staleness_def
  by (intro seq blocked observation) (auto intro!: basic call split: option.split)

lemma fallback: "preserves R (primary_fallback E b)"
  unfolding primary_fallback_def
  by (intro bind opened) (auto intro!: bind inspected seq blocked observation call basic counters same)

lemma resolved: "preserves R (resolve_read_connection E cf b)"
  unfolding resolve_read_connection_def
  by (intro bind opened) (auto intro!: bind inspected seq stale call basic fallback)

lemma connected: "preserves R (connect_for_read_attempt E cf)"
  unfolding connect_for_read_attempt_def by (auto intro!: bind resolved seq observation handled call basic)

lemma controlled: "preserves R (apply_read_safety_controls E cf c)"
  unfolding apply_read_safety_controls_def
  by (auto intro!: seq call basic split: sum.splits option.splits)

lemma enforced: "preserves R (enforce_active_replica_freshness E cf c)"
  unfolding enforce_active_replica_freshness_def by (auto intro!: bind inspected observation stale)

lemma counted: "preserves R (modifyE (\<lambda>s. s\<lparr>ps_query_execution_count := Suc (ps_query_execution_count s)\<rparr>))"
  by (intro preserves_basic counters)

end

lemma ask_fresh:
  assumes "\<not> is_fetch_many c"
  shows "preserves (fresh_step cf) (ask E c)"
  unfolding preserves_def
proof (intro allI)
  fix s :: "'a pg_source"
    have "fst (ask E c s) = s\<lparr>ps_log := ps_log s @ [(c, pe_reply E (ps_log s) c)]\<rparr>" by (metis ask_log fst_conv prod.collapse)
    moreover have "fetches_fresh cf None [(c, pe_reply E (ps_log s) c)]" using assms by (cases c) auto
    ultimately show "fresh_step cf s (fst (ask E c s))" unfolding fresh_step_def by (intro exI [of _ "[(c, pe_reply E (ps_log s) c)]"]) simp
qed

interpretation fresh: read_frame "fresh_step cf" for cf :: "'a pg_source_config"
  by standard (simp_all add: ask_fresh)

text \<open>Nothing was read.\<close>

definition still :: "'a pg_source \<Rightarrow> 'a pg_source \<Rightarrow> bool" where
  "still s s' \<longleftrightarrow> ps_rows_seen s' = ps_rows_seen s \<and> ps_emitted s' = ps_emitted s \<and>
     ps_last_checkpoint_cursor s' = ps_last_checkpoint_cursor s \<and>
     (\<exists>es. ps_log s' = ps_log s @ es \<and> (\<forall>e\<in>set es. \<not> is_execute (fst e) \<and> \<not> is_fetch_many (fst e)))"

lemma still_trans: "transp (still :: 'a pg_source \<Rightarrow> _)"
proof (rule transpI)
  fix a b c :: "'a pg_source"
  assume A: "still a b" "still b c"
  then obtain x y where "ps_log b = ps_log a @ x" "ps_log c = ps_log b @ y"
      "\<forall>e\<in>set x. \<not> is_execute (fst e) \<and> \<not> is_fetch_many (fst e)" "\<forall>e\<in>set y. \<not> is_execute (fst e) \<and> \<not> is_fetch_many (fst e)"
    by (auto simp: still_def)
  then have "ps_log c = ps_log a @ (x @ y) \<and> (\<forall>e\<in>set (x @ y). \<not> is_execute (fst e) \<and> \<not> is_fetch_many (fst e))" by auto
  then show "still a c" using A unfolding still_def by metis
qed

interpretation still: read_frame still
proof
  show "preserves still (ask E c)" if "\<not> is_execute c" "\<not> is_fetch_many c" for E :: read_env and c
    using that by (auto simp: preserves_def still_def ask_def Let_def)
qed (auto simp: still_trans still_def reflp_def)

lemma still_fetched: "still s s' \<Longrightarrow> fetched (ps_log s') = fetched (ps_log s)"
proof -
  assume "still s s'"
  then obtain es where es: "ps_log s' = ps_log s @ es" "\<forall>e\<in>set es. \<not> is_fetch_many (fst e)" by (auto simp: still_def)
  have "rows_of e = []" if "\<not> is_fetch_many (fst e)" for e using that by (cases e; cases "fst e") auto
  then have "fetched es = []" using es(2) by (auto simp: fetched_def)
  then show ?thesis using es(1) by (simp add: fetched_def)
qed

lemma single_append: "single_query seen (es @ fs) \<longleftrightarrow> single_query seen es \<and> single_query (seen @ fetched es) fs"
  by (induction es arbitrary: seen) (auto simp: fetched_def)

lemma single_plain: "\<forall>e\<in>set es. \<not> is_execute (fst e) \<Longrightarrow> single_query seen es"
  by (induction es arbitrary: seen) auto

lemma still_single: "\<lbrakk>still s s'; single_query [] (ps_log s)\<rbrakk> \<Longrightarrow> single_query [] (ps_log s')"
  by (auto simp: still_def single_append single_plain)

section \<open>Rows\<close>

lemma emit_row_log: "emit_row cf row s = (s', r) \<Longrightarrow> ps_log s' = ps_log s"
  by (auto simp: emit_row_def finallyE_def exceptE_def tryE_def map_and_emit_def row_failed_def thenE_def bindE_def Let_def
      split: sum.splits option.splits if_splits prod.splits)

lemma emit_rows_log: "emit_rows cf rows s = (s', r) \<Longrightarrow> ps_log s' = ps_log s"
proof (induction rows arbitrary: s)
  case (Cons row rows)
  obtain s1 z where e: "emit_row cf row s = (s1, z)" by (cases "emit_row cf row s")
  then show ?case using Cons emit_row_log [OF e] by (cases z) (auto simp: thenE_def bindE_def)
qed simp

text \<open>One row, for a mapper that takes the row alone.\<close>

lemma emit_row_effect:
  assumes "\<not> pc_accepts_context cf" and run: "emit_row cf row s = (s', r)"
  shows "ps_rows_seen s' = Suc (ps_rows_seen s)" "ps_emitted s' = ps_emitted s @ List.map_filter (record_of cf) [row]"
    "ps_last_checkpoint_cursor s' = cursor_after cf (ps_last_checkpoint_cursor s) row"
proof -
  have "ps_rows_seen s' = Suc (ps_rows_seen s) \<and> ps_emitted s' = ps_emitted s @ List.map_filter (record_of cf) [row] \<and>
      ps_last_checkpoint_cursor s' = cursor_after cf (ps_last_checkpoint_cursor s) row"
  proof (cases "extract_checkpoint_cursor cf row")
    case (Inl e)
    then show ?thesis
      using run by (auto simp: emit_row_def finallyE_def exceptE_def tryE_def map_and_emit_def row_failed_def thenE_def bindE_def
          Let_def record_of_def cursor_after_def map_filter_simps split: if_splits)
  next
    case c: (Inr c)
    then show ?thesis
    proof (cases "pc_row_mapper cf row None")
      case (Inl e)
      then show ?thesis
        using run c assms(1) by (auto simp: emit_row_def finallyE_def exceptE_def tryE_def map_and_emit_def row_failed_def
            thenE_def bindE_def Let_def record_of_def cursor_after_def map_row_def map_filter_simps split: if_splits)
    next
      case (Inr a)
      then show ?thesis
        using run c assms(1) by (cases a) (auto simp: emit_row_def finallyE_def exceptE_def tryE_def map_and_emit_def
            Let_def record_of_def cursor_after_def map_row_def map_filter_simps)
    qed
  qed
  then show "ps_rows_seen s' = Suc (ps_rows_seen s)" "ps_emitted s' = ps_emitted s @ List.map_filter (record_of cf) [row]"
    "ps_last_checkpoint_cursor s' = cursor_after cf (ps_last_checkpoint_cursor s) row" by simp_all
qed

text \<open>
  The state of a run that began with the records \<open>old\<close>: the rows seen are a prefix of those fetched, their records
  were yielded and the cursor is theirs.
\<close>

definition progress :: "'a pg_source_config \<Rightarrow> 'a list \<Rightarrow> 'a pg_source \<Rightarrow> bool" where
  "progress cf old s \<longleftrightarrow>
     (let rows = take (ps_rows_seen s) (fetched (ps_log s)) in
      ps_rows_seen s \<le> length (fetched (ps_log s)) \<and>
      ps_emitted s = old @ List.map_filter (record_of cf) rows \<and>
      ps_last_checkpoint_cursor s = foldl (cursor_after cf) PNone rows)"

lemma progress_still: "\<lbrakk>still s s'; progress cf old s\<rbrakk> \<Longrightarrow> progress cf old s'"
proof -
  assume S: "still s s'" and P: "progress cf old s"
  have "ps_rows_seen s' = ps_rows_seen s" "ps_emitted s' = ps_emitted s" "ps_last_checkpoint_cursor s' = ps_last_checkpoint_cursor s"
    using S by (simp_all add: still_def)
  then show ?thesis using P by (simp add: progress_def still_fetched [OF S])
qed

lemma progress_row:
  assumes "\<not> pc_accepts_context cf" "emit_row cf row s = (s', r)" "progress cf old s" "drop (ps_rows_seen s) (fetched (ps_log s)) = row # rows"
  shows "progress cf old s'" "drop (ps_rows_seen s') (fetched (ps_log s')) = rows"
proof -
  let ?n = "ps_rows_seen s" and ?f = "fetched (ps_log s)"
  have n: "?n < length ?f" using assms(4) by (metis drop_eq_Nil list.distinct(1) not_le)
  have row: "?f ! ?n = row" "drop (Suc ?n) ?f = rows" using assms(4) n by (metis Cons_nth_drop_Suc list.inject)+
  have t: "take (Suc ?n) ?f = take ?n ?f @ [row]" using n row(1) by (simp add: take_Suc_conv_app_nth)
  note E = emit_row_effect [OF assms(1,2)] and L = emit_row_log [OF assms(2)]
  show "progress cf old s'" using assms(3) n t by (simp add: progress_def Let_def E L map_filter_append)
  show "drop (ps_rows_seen s') (fetched (ps_log s')) = rows" by (simp add: E L row(2))
qed

lemma progress_rows:
  "\<lbrakk>emit_rows cf rows s = (s', r); \<not> pc_accepts_context cf; progress cf old s; drop (ps_rows_seen s) (fetched (ps_log s)) = rows\<rbrakk>
   \<Longrightarrow> progress cf old s' \<and> ps_rows_seen s \<le> ps_rows_seen s' \<and> (rows \<noteq> [] \<longrightarrow> 0 < ps_rows_seen s') \<and>
      (\<forall>u. r = Inr u \<longrightarrow> ps_rows_seen s' = length (fetched (ps_log s')))"
proof (induction rows arbitrary: s)
  case Nil
  then show ?case by (auto simp: progress_def Let_def)
next
  case (Cons row rows)
  obtain s1 z where e: "emit_row cf row s = (s1, z)" by (cases "emit_row cf row s")
  note P = progress_row [OF Cons.prems(2) e Cons.prems(3,4)] and S = emit_row_effect(1) [OF Cons.prems(2) e]
  show ?case
  proof (cases z)
    case (Inl x)
    then show ?thesis using Cons.prems(1) e P(1) S by (auto simp: thenE_def bindE_def)
  next
    case (Inr u)
    then have "emit_rows cf rows s1 = (s', r)" using Cons.prems(1) e by (simp add: thenE_def bindE_def)
    from Cons.IH [OF this Cons.prems(2) P] show ?thesis using S by auto
  qed
qed

section \<open>A run\<close>

definition complete :: "'a pg_source \<Rightarrow> bool" where
  "complete s \<longleftrightarrow> ps_rows_seen s = length (fetched (ps_log s))"

definition sound :: "'a pg_source_config \<Rightarrow> 'a list \<Rightarrow> 'a pg_source \<Rightarrow> bool" where
  "sound cf old s \<longleftrightarrow> progress cf old s \<and> single_query [] (ps_log s) \<and> (fetched (ps_log s) \<noteq> [] \<longrightarrow> 0 < ps_rows_seen s)"

lemma still_sound: "\<lbrakk>still s s'; sound cf old s\<rbrakk> \<Longrightarrow> sound cf old s'"
  using still_fetched [of s s'] still_single [of s s'] progress_still [of s s' cf old]
  by (simp add: sound_def) (simp add: still_def)

lemma still_complete: "\<lbrakk>still s s'; complete s\<rbrakk> \<Longrightarrow> complete s'"
  using still_fetched [of s s'] by (simp add: complete_def) (simp add: still_def)

lemma fetch_many_effect:
  assumes run: "ask E (FetchMany c k) s = (s', z)" and S: "sound cf old s" and C: "complete s"
  shows "case z of Inl e \<Rightarrow> sound cf old s' \<and> complete s'
      | Inr r \<Rightarrow> progress cf old s' \<and> single_query [] (ps_log s') \<and> fetched (ps_log s) = take (ps_rows_seen s') (fetched (ps_log s')) \<and>
          drop (ps_rows_seen s') (fetched (ps_log s')) = (case r of RRows rs \<Rightarrow> rs | _ \<Rightarrow> [])"
proof -
  obtain rep where s': "s' = s\<lparr>ps_log := ps_log s @ [(FetchMany c k, rep)]\<rparr>" and z: "z = (case rep of Inl e \<Rightarrow> Inl (ReadExn e) | Inr r \<Rightarrow> Inr r)"
    using run by (auto simp: ask_def Let_def)
  have f: "fetched (ps_log s') = fetched (ps_log s) @ rows_of (FetchMany c k, rep)" by (simp add: s' fetched_def)
  have q: "single_query [] (ps_log s')" using S by (simp add: sound_def s' single_append)
  have p: "progress cf old s'" using S C by (simp add: f s' sound_def complete_def progress_def Let_def fetched_def)
  show ?thesis
  proof (cases rep)
    case (Inl e)
    then have "fetched (ps_log s') = fetched (ps_log s)" using f by simp
    then show ?thesis using Inl z p q S C by (simp add: sound_def complete_def s')
  next
    case (Inr r)
    have "rows_of (FetchMany c k, rep) = (case r of RRows rs \<Rightarrow> rs | _ \<Rightarrow> [])" using Inr by (cases r) simp_all
    then show ?thesis using Inr z p q f C by (simp add: complete_def s')
  qed
qed

lemma loop_sound:
  "\<lbrakk>fetch_loop E cf conn n s = (s', r); \<not> pc_accepts_context cf; sound cf old s; complete s\<rbrakk>
   \<Longrightarrow> sound cf old s' \<and> (\<forall>b. r = Inr b \<longrightarrow> complete s')"
proof (induction n arbitrary: s)
  case 0
  then show ?case by auto
next
  case (Suc n)
  obtain s1 z where enf: "enforce_active_replica_freshness E cf conn s = (s1, z)" by (metis prod.collapse)
  have st: "still s s1" using preservesD [OF still.enforced enf] .
  have S1: "sound cf old s1" "complete s1" using still_sound [OF st Suc.prems(3)] still_complete [OF st Suc.prems(4)] .
  show ?case
  proof (cases z)
    case (Inl e)
    then show ?thesis using Suc.prems(1) enf S1 by (auto simp: thenE_def bindE_def)
  next
    case u: (Inr u)
    obtain s2 w where fm: "ask E (FetchMany conn (pc_batch_size cf)) s1 = (s2, w)" by (metis prod.collapse)
    note F = fetch_many_effect [OF fm S1]
    show ?thesis
    proof (cases w)
      case (Inl e)
      then show ?thesis using Suc.prems(1) enf u fm F by (auto simp: thenE_def bindE_def)
    next
      case w: (Inr rep)
      define rows where "rows = (case rep of RRows rs \<Rightarrow> rs | _ \<Rightarrow> [])"
      have F': "progress cf old s2" "single_query [] (ps_log s2)" "drop (ps_rows_seen s2) (fetched (ps_log s2)) = rows"
        "fetched (ps_log s1) = take (ps_rows_seen s2) (fetched (ps_log s2))"
        using F w by (simp_all add: rows_def)
      have run: "(if rows = [] then returnE True else thenE (emit_rows cf rows) (fetch_loop E cf conn n)) s2 = (s', r)"
        using Suc.prems(1) enf u fm w by (cases "rows = []") (simp_all add: thenE_def bindE_def rows_def [symmetric] Let_def)
      show ?thesis
      proof (cases "rows = []")
        case True
        then have "fetched (ps_log s2) = fetched (ps_log s1)" using F'(3,4) by (metis append_Nil2 append_take_drop_id)
        moreover have "ps_rows_seen s2 = ps_rows_seen s1" using fm by (auto simp: ask_def Let_def)
        ultimately show ?thesis using run True F' S1 by (auto simp: sound_def complete_def)
      next
        case False
        obtain s3 v where em: "emit_rows cf rows s2 = (s3, v)" by (metis prod.collapse)
        have L: "ps_log s3 = ps_log s2" using emit_rows_log [OF em] .
        note P = progress_rows [OF em Suc.prems(2) F'(1,3)]
        then have S3: "sound cf old s3" using False L F'(2) by (simp add: sound_def)
        show ?thesis
        proof (cases v)
          case (Inl e)
          then show ?thesis using run False em S3 by (auto simp: thenE_def bindE_def)
        next
          case (Inr x)
          then have "complete s3" using P by (simp add: complete_def)
          moreover have "fetch_loop E cf conn n s3 = (s', r)" using run False em Inr by (simp add: thenE_def bindE_def)
          ultimately show ?thesis using Suc.IH Suc.prems(2) S3 by blast
        qed
      qed
    qed
  qed
qed

lemma execute_sound:
  assumes "tell E (Execute c k q p) s = (s', r)" "sound cf old s" "complete s" "fetched (ps_log s) = []"
  shows "sound cf old s' \<and> complete s'"
proof -
  obtain rep where s': "s' = s\<lparr>ps_log := ps_log s @ [(Execute c k q p, rep)]\<rparr>"
    using assms(1) by (auto simp: tell_def ask_def bindE_def Let_def split: sum.splits)
  have "fetched (ps_log s') = fetched (ps_log s)" by (simp add: s' fetched_def)
  then show ?thesis using assms(2-4) by (simp add: sound_def complete_def progress_def s' single_append Let_def)
qed

lemma finally_still:
  assumes "finallyE m c s = (s', r)" "preserves still c"
    and "\<And>s1 z. m s = (s1, z) \<Longrightarrow> sound cf old s1 \<and> (\<forall>b. z = Inr b \<longrightarrow> complete s1)"
  shows "sound cf old s' \<and> (\<forall>b. r = Inr b \<longrightarrow> complete s')"
proof -
  obtain s1 z s2 w where run: "m s = (s1, z)" "c s1 = (s2, w)" by (metis prod.collapse)
  have st: "still s1 s2" using preservesD [OF assms(2) run(2)] .
  have "s' = s2" "r = (case w of Inl e \<Rightarrow> Inl e | Inr _ \<Rightarrow> z)"
    using assms(1) run by (cases w; simp add: finallyE_def)+
  then show ?thesis using assms(3) [OF run(1)] still_sound [OF st] still_complete [OF st] by (cases w) auto
qed

lemma query_sound:
  assumes run: "run_query E cf fuel conn s = (s', r)" and "\<not> pc_accepts_context cf" "sound cf old s" "complete s" "fetched (ps_log s) = []"
  shows "sound cf old s' \<and> (\<forall>b. r = Inr b \<longrightarrow> complete s')"
proof (rule finally_still [OF run [unfolded run_query_def]])
  show "preserves still (if pc_fetch_strategy cf = ''server_side'' then tell E (CloseCursor conn) else returnE ())"
    by (auto intro: still.call simp: still.refl)
next
  fix s1 z
  assume m: "thenE (tell E (Execute conn (open_stream_cursor E cf s) (pc_query cf) (if ps_params s = [] then None else Some (ps_params s))))
      (fetch_loop E cf conn fuel) s = (s1, z)"
  obtain s2 w where ex: "tell E (Execute conn (open_stream_cursor E cf s) (pc_query cf) (if ps_params s = [] then None else Some (ps_params s))) s = (s2, w)"
    by (metis prod.collapse)
  note X = execute_sound [OF ex assms(3-5)]
  show "sound cf old s1 \<and> (\<forall>b. z = Inr b \<longrightarrow> complete s1)"
  proof (cases w)
    case (Inl e)
    then show ?thesis using m ex X by (auto simp: thenE_def bindE_def)
  next
    case (Inr u)
    then have "fetch_loop E cf conn fuel s2 = (s1, z)" using m ex by (simp add: thenE_def bindE_def)
    then show ?thesis using loop_sound assms(2) X by blast
  qed
qed

lemma attempt_sound:
  assumes run: "stream_attempt E cf fuel s = (s', r)" and "\<not> pc_accepts_context cf" "sound cf old s" "complete s" "fetched (ps_log s) = []"
  shows "sound cf old s' \<and> (\<forall>b. r = Inr b \<longrightarrow> complete s')"
proof -
  let ?pre = "thenE (modifyE (\<lambda>s. s\<lparr>ps_query_execution_count := Suc (ps_query_execution_count s)\<rparr>)) (connect_for_read_attempt E cf)"
  obtain s1 z where pre: "?pre s = (s1, z)" by (metis prod.collapse)
  have "preserves still ?pre" by (intro still.seq still.counted still.connected)
  then have st: "still s s1" using preservesD [of still ?pre s s1 z] pre by blast
  have S1: "sound cf old s1" "complete s1" "fetched (ps_log s1) = []"
    using still_sound [OF st assms(3)] still_complete [OF st assms(4)] still_fetched [OF st] assms(5) by simp_all
  have split: "stream_attempt E cf fuel = bindE ?pre (\<lambda>conn.
        finallyE (thenE (apply_read_safety_controls E cf conn) (run_query E cf fuel conn)) (tell E (ExitConn conn)))"
    by (simp add: stream_attempt_def thenE_def bindE_assoc)
  show ?thesis
  proof (cases z)
    case (Inl e)
    then show ?thesis using run pre S1 by (auto simp: split bindE_def)
  next
    case (Inr conn)
    then have fin: "finallyE (thenE (apply_read_safety_controls E cf conn) (run_query E cf fuel conn)) (tell E (ExitConn conn)) s1 = (s', r)"
      using run pre by (simp add: split bindE_def)
    show ?thesis
    proof (rule finally_still [OF fin])
      show "preserves still (tell E (ExitConn conn))" by (rule still.call) simp_all
      fix s2 w
      assume m: "thenE (apply_read_safety_controls E cf conn) (run_query E cf fuel conn) s1 = (s2, w)"
      obtain s3 v where ctl: "apply_read_safety_controls E cf conn s1 = (s3, v)" by (metis prod.collapse)
      have st3: "still s1 s3" using preservesD [OF still.controlled ctl] .
      have S3: "sound cf old s3" "complete s3" "fetched (ps_log s3) = []"
        using still_sound [OF st3 S1(1)] still_complete [OF st3 S1(2)] still_fetched [OF st3] S1(3) by simp_all
      show "sound cf old s2 \<and> (\<forall>b. w = Inr b \<longrightarrow> complete s2)"
      proof (cases v)
        case (Inl e)
        then show ?thesis using m ctl S3 by (auto simp: thenE_def bindE_def)
      next
        case (Inr u)
        then have "run_query E cf fuel conn s3 = (s2, w)" using m ctl by (simp add: thenE_def bindE_def)
        then show ?thesis using query_sound assms(2) S3 by blast
      qed
    qed
  qed
qed

lemma attempts_sound:
  "\<lbrakk>read_attempts E cf fuel n s = (s', r); \<not> pc_accepts_context cf; sound cf old s; complete s; fetched (ps_log s) = []\<rbrakk>
   \<Longrightarrow> sound cf old s' \<and> (\<forall>b. r = Inr b \<longrightarrow> complete s')"
proof (induction E cf fuel n s rule: read_attempts.induct)
  case (1 E cf fuel n s)
  obtain s1 z where at: "stream_attempt E cf fuel s = (s1, z)" by (metis prod.collapse)
  note A = attempt_sound [OF at 1(3-6)]
  show ?case
  proof (cases z)
    case (Inr b)
    then show ?thesis using 1(2) at A by (auto simp: read_attempts.simps [of E cf fuel n s])
  next
    case (Inl e)
    show ?thesis
    proof (cases "read_cancelled e \<or> \<not> should_retry_read cf e n s1")
      case True
      then show ?thesis using 1(2) at A Inl by (auto simp: read_attempts.simps [of E cf fuel n s])
    next
      case False
      let ?s2 = "s1\<lparr>ps_retry_count := Suc (ps_retry_count s1)\<rparr>"
      have z0: "ps_rows_seen s1 = 0" using False by (simp add: should_retry_read_def)
      then have f: "fetched (ps_log s1) = []" using A by (auto simp: sound_def)
      have "sound cf old ?s2" "complete ?s2" using A z0 f by (simp_all add: sound_def complete_def progress_def)
      moreover have "read_attempts E cf fuel (Suc n) ?s2 = (s', r)" using 1(2) at Inl False by (simp add: read_attempts.simps [of E cf fuel n s])
      ultimately show ?thesis using 1(1) [OF at [symmetric] Inl False] 1(3) f by simp
    qed
  qed
qed

section \<open>The guard holds in every run\<close>

lemma enforced_then_fetch: "preserves (fresh_step cf) (thenE (enforce_active_replica_freshness E cf c) (ask E (FetchMany c k)))"
  unfolding preserves_def
proof
  fix s :: "'a pg_source"
  obtain s1 z where enf: "enforce_active_replica_freshness E cf c s = (s1, z)" by (metis prod.collapse)
  show "fresh_step cf s (fst (thenE (enforce_active_replica_freshness E cf c) (ask E (FetchMany c k)) s))"
  proof (cases z)
    case (Inl e)
    then show ?thesis using enf preservesD [OF fresh.enforced enf] by (simp add: thenE_def bindE_def)
  next
    case (Inr u)
    obtain r where "ps_log s1 = ps_log s @ [(Inspect c, Inr r)]" "\<not> replica_is_stale cf (fst (role_of r)) (snd (role_of r))"
      using enf Inr by (auto simp: enforce_active_replica_freshness_def inspect_server_role_def raise_replica_staleness_def
          ask_def bindE_def thenE_def Let_def set_server_observation_def count_block_def case_prod_beta split: sum.splits if_splits)
    then have "fetches_fresh cf None [(Inspect c, Inr r), (FetchMany c k, pe_reply E (ps_log s1) (FetchMany c k))]"
      "ps_log (fst (ask E (FetchMany c k) s1)) = ps_log s @ [(Inspect c, Inr r), (FetchMany c k, pe_reply E (ps_log s1) (FetchMany c k))]"
      by (simp_all add: ask_def Let_def)
    then show ?thesis using enf Inr unfolding fresh_step_def by (simp add: thenE_def bindE_def)
  qed
qed

lemma emit_rows_fresh: "preserves (fresh_step cf) (emit_rows cf rows)"
  unfolding preserves_def by (metis emit_rows_log fresh_self prod.collapse)

lemma loop_fresh: "preserves (fresh_step cf) (fetch_loop E cf c n)"
proof (induction n)
  case (Suc n)
  have "fetch_loop E cf c (Suc n) = bindE (thenE (enforce_active_replica_freshness E cf c) (ask E (FetchMany c (pc_batch_size cf)))) (\<lambda>r.
        let rows = (case r of RRows rs \<Rightarrow> rs | _ \<Rightarrow> []) in
        if rows = [] then returnE True else thenE (emit_rows cf rows) (fetch_loop E cf c n))"
    by (simp add: thenE_def bindE_assoc)
  moreover have "preserves (fresh_step cf) \<dots>"
    by (rule fresh.bind [OF enforced_then_fetch]) (auto simp: Let_def intro!: fresh.seq emit_rows_fresh Suc)
  ultimately show ?case by simp
qed (simp add: preserves_def)

lemma execute_fresh: "preserves (fresh_step cf) (tell E (Execute c k q p))"
  unfolding tell_def by (intro fresh.bind ask_fresh fresh.basic) simp

lemma query_fresh: "preserves (fresh_step cf) (run_query E cf fuel c)"
proof -
  have "preserves (fresh_step cf) (finallyE (thenE (tell E (Execute c k q p)) (fetch_loop E cf c fuel))
      (if b then tell E (CloseCursor c) else returnE ()))" for k q p b
    by (intro finally_preserves fresh_trans fresh.seq execute_fresh loop_fresh) (simp add: fresh.call fresh.basic)
  then show ?thesis unfolding preserves_def run_query_def by blast
qed

lemma attempt_fresh: "preserves (fresh_step cf) (stream_attempt E cf fuel)"
  unfolding stream_attempt_def
  by (intro fresh.seq fresh.counted fresh.bind fresh.connected finally_preserves fresh_trans fresh.controlled query_fresh fresh.call)
    simp_all

lemma attempts_fresh: "read_attempts E cf fuel n s = (s', r) \<Longrightarrow> fresh_step cf s s'"
proof (induction E cf fuel n s rule: read_attempts.induct)
  case (1 E cf fuel n s)
  obtain s1 z where at: "stream_attempt E cf fuel s = (s1, z)" by (metis prod.collapse)
  have A: "fresh_step cf s s1" using preservesD [OF attempt_fresh at] .
  show ?case
  proof (cases z)
    case (Inr b)
    then show ?thesis using 1(2) at A by (simp add: read_attempts.simps [of E cf fuel n s])
  next
    case (Inl e)
    show ?thesis
    proof (cases "read_cancelled e \<or> \<not> should_retry_read cf e n s1")
      case True
      then show ?thesis using 1(2) at A Inl by (auto simp: read_attempts.simps [of E cf fuel n s])
    next
      case False
      let ?s2 = "s1\<lparr>ps_retry_count := Suc (ps_retry_count s1)\<rparr>"
      have "read_attempts E cf fuel (Suc n) ?s2 = (s', r)" using 1(2) at Inl False by (simp add: read_attempts.simps [of E cf fuel n s])
      then have "fresh_step cf ?s2 s'" using 1(1) [OF at [symmetric] Inl False] by simp
      moreover have "fresh_step cf s1 ?s2" by simp
      ultimately show ?thesis using A fresh_trans by (meson transpD)
    qed
  qed
qed

lemma stream_run:
  assumes "pg_stream E cf fuel s = (s', r)"
  obtains s1 s2 where "read_attempts E cf fuel 1 s1 = (s2, r)" "ps_log s1 = ps_log s" "ps_rows_seen s1 = 0"
    "ps_emitted s1 = ps_emitted s" "ps_last_checkpoint_cursor s1 = PNone"
    "ps_log s' = ps_log s2" "ps_rows_seen s' = ps_rows_seen s2" "ps_emitted s' = ps_emitted s2"
    "ps_last_checkpoint_cursor s' = ps_last_checkpoint_cursor s2"
proof -
  let ?s1 = "(reset_progress s)\<lparr>ps_stream_run_count := Suc (ps_stream_run_count (reset_progress s)),
      ps_active_stream_count := Suc (ps_active_stream_count (reset_progress s))\<rparr>"
  obtain s2 z where "read_attempts E cf fuel 1 ?s1 = (s2, z)" by (metis prod.collapse)
  then show thesis using assms by (intro that [of ?s1 s2]) (auto simp: pg_stream_def Let_def reset_progress_def)
qed

lemma fresh_before_Some:
  "fresh_before cf c (Some x) \<longleftrightarrow> (\<exists>a. x = (Inspect c, Inr a) \<and> \<not> replica_is_stale cf (fst (role_of a)) (snd (role_of a)))"
  by (cases x; cases "fst x"; cases "snd x") auto

lemma fresh_fetch:
  assumes "fetches_fresh cf before (pre @ (FetchMany c k, reply) # post)"
  shows "if pre = [] then fresh_before cf c before
         else \<exists>before' a. pre = before' @ [(Inspect c, Inr a)] \<and> \<not> replica_is_stale cf (fst (role_of a)) (snd (role_of a))"
  using assms
proof (induction pre arbitrary: before)
  case (Cons x pre)
  have "fetches_fresh cf (Some x) (pre @ (FetchMany c k, reply) # post)" using Cons.prems by simp
  then have IH: "if pre = [] then fresh_before cf c (Some x)
      else \<exists>before' a. pre = before' @ [(Inspect c, Inr a)] \<and> \<not> replica_is_stale cf (fst (role_of a)) (snd (role_of a))"
    by (rule Cons.IH)
  show ?case
  proof (cases "pre = []")
    case True
    then show ?thesis using IH by (simp add: fresh_before_Some)
  next
    case False
    then obtain before' a where "pre = before' @ [(Inspect c, Inr a)]" "\<not> replica_is_stale cf (fst (role_of a)) (snd (role_of a))"
      using IH by auto
    then have "x # pre = (x # before') @ [(Inspect c, Inr a)] \<and> \<not> replica_is_stale cf (fst (role_of a)) (snd (role_of a))" by simp
    then have "\<exists>b a. x # pre = b @ [(Inspect c, Inr a)] \<and> \<not> replica_is_stale cf (fst (role_of a)) (snd (role_of a))" by blast
    then show ?thesis by (simp only: list.distinct if_False not_False_eq_True)
  qed
qed simp

text \<open>
  C11: in any run of the source, whatever the servers answer and however it is retried or ends, rows are only ever
  fetched right after the server of that very connection was seen to be a primary, or a standby whose lag is within
  the configured budget.
\<close>

theorem stale_replica_never_read:
  assumes "pg_stream E cf fuel s = (s', r)" "ps_log s = []" "ps_log s' = pre @ (FetchMany c k, reply) # post"
  shows "\<exists>before a. pre = before @ [(Inspect c, Inr a)] \<and> \<not> replica_is_stale cf (fst (role_of a)) (snd (role_of a))"
proof -
  obtain s1 s2 where run: "read_attempts E cf fuel 1 s1 = (s2, r)" and log: "ps_log s1 = []" "ps_log s' = ps_log s2"
    using stream_run [OF assms(1)] assms(2) by metis
  have "fetches_fresh cf None (ps_log s')" using attempts_fresh [OF run] log by (simp add: fresh_step_def)
  from fresh_fetch [OF this [unfolded assms(3)]] show ?thesis by (auto split: if_splits)
qed

text \<open>
  C10: the query of a run gives rows once: it is not run again after a row was fetched, and for a mapper that takes the
  row alone the run yields exactly the records of the rows it saw, in order, a prefix of those fetched and all of
  them when it ends without an exception, and its checkpoint cursor is that of the last row it mapped.
\<close>

theorem rows_read_once:
  assumes "pg_stream E cf fuel s = (s', r)" "ps_log s = []" "\<not> pc_accepts_context cf"
  shows "single_query [] (ps_log s') \<and>
    (let rows = take (ps_rows_seen s') (fetched (ps_log s')) in
     ps_emitted s' = ps_emitted s @ List.map_filter (record_of cf) rows \<and>
     ps_last_checkpoint_cursor s' = foldl (cursor_after cf) PNone rows \<and>
     (\<forall>b. r = Inr b \<longrightarrow> rows = fetched (ps_log s')))"
proof -
  obtain s1 s2 where run: "read_attempts E cf fuel 1 s1 = (s2, r)" and start: "ps_log s1 = []" "ps_rows_seen s1 = 0"
      "ps_emitted s1 = ps_emitted s" "ps_last_checkpoint_cursor s1 = PNone"
    and stop: "ps_log s' = ps_log s2" "ps_rows_seen s' = ps_rows_seen s2" "ps_emitted s' = ps_emitted s2"
      "ps_last_checkpoint_cursor s' = ps_last_checkpoint_cursor s2"
    using stream_run [OF assms(1)] assms(2) by metis
  have "sound cf (ps_emitted s) s1" "complete s1" "fetched (ps_log s1) = []"
    using start by (simp_all add: sound_def complete_def progress_def fetched_def List.map_filter_def)
  from attempts_sound [OF run assms(3) this] show ?thesis
    by (auto simp: sound_def complete_def progress_def Let_def stop)
qed

text \<open>Two rows from a standby that keeps up, the first attempt failing to connect.\<close>

definition standby_env :: read_env where
  "standby_env = \<lparr>pe_reply = (\<lambda>es c. case c of
       Connect _ \<Rightarrow> if es = [] then Inl (Exn ''OperationalError'' [''Exception''] ''connection refused'') else Inr (RConn 7)
     | Inspect _ \<Rightarrow> Inr (RRole (Some (True, Some 1)))
     | FetchMany _ _ \<Rightarrow> (if fetched es = [] then Inr (RRows [[(''id'', PInt 1)], [(''id'', PInt 2)]]) else Inr (RRows []))
     | _ \<Rightarrow> Inr RUnit), pe_cursor_name = (\<lambda>_. ''c'')\<rparr>"

definition standby_config :: "int pg_source_config" where
  "standby_config = \<lparr>pc_query = ''SELECT id FROM t'', pc_row_mapper = (\<lambda>row _. case dict_get row ''id'' of Some (PInt i) \<Rightarrow> Inr (Some i) | _ \<Rightarrow> Inr None),
     pc_accepts_context = False, pc_base_params = [], pc_batch_size = 10, pc_checkpoint_field = Some ''id'',
     pc_checkpoint_param = Some ''after'', pc_checkpoint_fields = [], pc_checkpoint_params = [], pc_log_and_continue = False,
     pc_max_attempts = 3, pc_should_retry = (\<lambda>_ _. True), pc_statement_timeout_ms = None, pc_transaction_read_only = Some True,
     pc_isolation_level = None, pc_read_routing = ''standby'', pc_max_replica_replay_lag_s = Some 5,
     pc_on_replica_stale = ''fail_closed'', pc_fetch_strategy = ''client'', pc_server_side_cursor_name = None,
     pc_server_side_cursor_withhold = False\<rparr>"

definition standby_run :: "int pg_source \<times> (read_exn + bool)" where
  "standby_run = pg_stream standby_env standby_config 2 (pg_source_init standby_config)"

lemmas source_run_eval = pg_stream_def read_attempts.simps stream_attempt_def connect_for_read_attempt_def resolve_read_connection_def
  open_connection_def inspect_server_role_def role_of_def replica_is_stale_def set_server_observation_def exceptE_def
  apply_read_safety_controls_def transaction_modes_def join_modes_def run_query_def open_stream_cursor_def
  enforce_active_replica_freshness_def emit_row_def map_and_emit_def extract_checkpoint_cursor_def map_row_def
  should_retry_read_def read_cancelled_def isinstance_exn_def reset_progress_def pg_source_init_def
  ask_def tell_def tryE_def finallyE_def thenE_def bindE_def Let_def numeral_2_eq_2 fetched_def
  standby_env_def standby_config_def

lemma standby_run_value:
  "ps_emitted (fst standby_run) = [1, 2]" "snd standby_run = Inr True" "ps_rows_seen (fst standby_run) = 2"
  "(FetchMany 7 10, Inr (RRows [])) \<in> set (ps_log (fst standby_run))"
  "fetched (ps_log (fst standby_run)) = [[(''id'', PInt 1)], [(''id'', PInt 2)]]"
  unfolding standby_run_def by (simp_all add: source_run_eval)

lemma standby_run_starts: "ps_log (pg_source_init standby_config) = []" "\<not> pc_accepts_context standby_config"
    "ps_emitted (pg_source_init standby_config) = []"
  by (simp_all add: pg_source_init_def standby_config_def)

lemma stale_replica_never_read_witness:
  "\<exists>before a post. ps_log (fst standby_run) = before @ (Inspect 7, Inr a) # (FetchMany 7 10, Inr (RRows [])) # post \<and>
     \<not> replica_is_stale standby_config (fst (role_of a)) (snd (role_of a))"
proof -
  obtain pre post where split: "ps_log (fst standby_run) = pre @ (FetchMany 7 10, Inr (RRows [])) # post"
    using split_list [OF standby_run_value(4)] by blast
  have run: "pg_stream standby_env standby_config 2 (pg_source_init standby_config) = (fst standby_run, snd standby_run)"
    by (simp add: standby_run_def)
  obtain before a where "pre = before @ [(Inspect 7, Inr a)]" "\<not> replica_is_stale standby_config (fst (role_of a)) (snd (role_of a))"
    using stale_replica_never_read [OF run standby_run_starts(1) split] by blast
  then have "ps_log (fst standby_run) = before @ (Inspect 7, Inr a) # (FetchMany 7 10, Inr (RRows [])) # post \<and>
      \<not> replica_is_stale standby_config (fst (role_of a)) (snd (role_of a))" using split by simp
  then show ?thesis by blast
qed

lemma rows_read_once_witness:
  "single_query [] (ps_log (fst standby_run)) \<and>
   ps_emitted (fst standby_run) = List.map_filter (record_of standby_config) [[(''id'', PInt 1)], [(''id'', PInt 2)]]"
proof -
  obtain s' r where run: "pg_stream standby_env standby_config 2 (pg_source_init standby_config) = (s', r)" by (metis prod.collapse)
  have s': "s' = fst standby_run" "r = snd standby_run" using run by (simp_all add: standby_run_def)
  show ?thesis
    using rows_read_once [OF run standby_run_starts(1,2)] standby_run_value standby_run_starts(3)
    by (simp add: s' Let_def)
qed

section \<open>Where the code falls short\<close>

text \<open>When the role of a new connection cannot be read the connection is never closed.\<close>

lemma unreadable_role_leaks_connection:
  assumes "pe_reply E (ps_log s) (Connect attrs) = Inr (RConn c)" "attrs = read_target_session_attrs (pc_read_routing cf)"
    "pe_reply E (ps_log s @ [(Connect attrs, Inr (RConn c))]) (Inspect c) = Inl e"
  shows "resolve_read_connection E cf b s =
     (s\<lparr>ps_log := ps_log s @ [(Connect attrs, Inr (RConn c)), (Inspect c, Inl e)]\<rparr>, Inl (ReadExn e))"
  using assms by (simp add: resolve_read_connection_def open_connection_def inspect_server_role_def ask_def bindE_def Let_def)

end
