(* ===== verification/Redis_Stream.thy ===== *)
theory Redis_Stream
  imports Prelude
begin

text \<open>
  The Redis stream source (\<^verbatim>\<open>redis/sources/\<close>): connection and reconnection (\<^verbatim>\<open>_connection_runtime.py\<close>), resume
  (\<^verbatim>\<open>_resume_runtime.py\<close>), acknowledgements (\<^verbatim>\<open>_ack_runtime.py\<close>) and the read loop with reclaimed messages
  (\<^verbatim>\<open>_stream_runtime.py\<close>).

  The Redis client and the consumer of the records are the environment: the source's log records every call with
  its reply, and the environment decides the reply from the log so far.  A \<^verbatim>\<open>yield\<close> is a call whose reply says
  whether the consumer ran the delivery callback; an exception in its place is one thrown into the generator.
\<close>

section \<open>Environment\<close>

text \<open>Texts of the client: \<^verbatim>\<open>str\<close> or \<^verbatim>\<open>bytes\<close>, as \<^verbatim>\<open>decode_responses\<close> says.\<close>

datatype redis_text = RStr string | RBytes string

type_synonym 'f redis_message = "redis_text \<times> 'f"

datatype ('f, 'a) redis_cmd =
    BuildClient
  | CloseClient
  | XGroupCreate
  | XInfoConsumers
  | XGroupSetId string
  | XReadGroup string
  | XAutoClaim string
  | XAck "redis_text list"
  | Deliver redis_text 'a

text \<open>In a claim, \<open>None\<close> stands for a cursor or messages of another type, \<open>RClaimOther\<close> for any other reply.\<close>

datatype ('f, 'a) redis_reply =
    ROk
  | RConsumers nat
  | REntries "(string \<times> 'f redis_message list) list"
  | RClaim "redis_text option" "'f redis_message list option"
  | RClaimOther
  | RDelivered bool

datatype 'f source_exn =
    PyExn exn
  | RecordError exn string "(string \<times> string \<times> string \<times> string) option" bool \<comment> \<open>cause, message id, checkpoint, handler attached\<close>

type_synonym ('f, 'a) redis_log = "(('f, 'a) redis_cmd \<times> (exn + ('f, 'a) redis_reply)) list"

record ('f, 'a) redis_env =
  re_reply :: "('f, 'a) redis_log \<Rightarrow> ('f, 'a) redis_cmd \<Rightarrow> exn + ('f, 'a) redis_reply"

section \<open>Configuration and state\<close>

record ('f, 'a) redis_source_config =
  rc_stream :: string
  rc_group :: string
  rc_consumer :: string
  rc_deserializer :: "'f \<Rightarrow> 'a result"
  rc_ack_on_success :: bool
  rc_ack_batch_size :: nat
  rc_reclaim_idle_ms :: "int option"
  rc_reclaim_batch_size :: int
  rc_max_consecutive_reclaim_batches :: "nat option"
  rc_log_and_continue :: bool
  rc_max_attempts :: nat
  rc_should_retry :: "exn \<Rightarrow> nat \<Rightarrow> bool"
  rc_has_xautoclaim :: bool
  rc_has_xgroup_setid :: bool
  rc_has_xinfo_consumers :: bool

record ('f, 'a) redis_source =
  rs_client :: bool
  rs_group_ready :: bool
  rs_last_message_id :: "string option"
  rs_resume_cursor :: "string option"
  rs_resume_pending :: bool
  rs_resume_group_seek_pending :: bool
  rs_reclaim_cursor :: string
  rs_record_error_count :: nat
  rs_record_drop_count :: nat
  rs_delivery_success_hook :: "redis_text option"
  rs_delivery_context :: "string option"
  rs_pending_ack_ids :: "redis_text list"
  rs_checkpoint_cache :: "(string \<times> string \<times> string \<times> string) option"
  rs_read_call_count :: nat
  rs_reconnect_count :: nat
  rs_reclaimed_message_count :: nat
  rs_consecutive_reclaim_batch_count :: nat
  rs_reclaim_fairness_yield_count :: nat
  rs_ack_flush_count :: nat
  rs_acked_message_count :: nat
  rs_emitted_record_count :: nat
  rs_active_reclaimed_message_ids :: "string list"
  rs_poison_loop_message_ids :: "string list"
  rs_poison_loop_count :: nat
  rs_last_poison_loop_message_id :: "string option"
  rs_last_error :: "string option"
  rs_log :: "('f, 'a) redis_log"

definition redis_source_init :: "('f, 'a) redis_source" where
  "redis_source_init =
     \<lparr>rs_client = False, rs_group_ready = False, rs_last_message_id = None, rs_resume_cursor = None,
      rs_resume_pending = False, rs_resume_group_seek_pending = False, rs_reclaim_cursor = ''0-0'',
      rs_record_error_count = 0, rs_record_drop_count = 0, rs_delivery_success_hook = None,
      rs_delivery_context = None, rs_pending_ack_ids = [], rs_checkpoint_cache = None, rs_read_call_count = 0,
      rs_reconnect_count = 0, rs_reclaimed_message_count = 0, rs_consecutive_reclaim_batch_count = 0,
      rs_reclaim_fairness_yield_count = 0, rs_ack_flush_count = 0, rs_acked_message_count = 0,
      rs_emitted_record_count = 0, rs_active_reclaimed_message_ids = [], rs_poison_loop_message_ids = [],
      rs_poison_loop_count = 0, rs_last_poison_loop_message_id = None, rs_last_error = None, rs_log = []\<rparr>"

text \<open>The clamping of the constructor: at least one message per acknowledgement and one batch before a read.\<close>

definition clamp_batch :: "int option \<Rightarrow> int \<Rightarrow> nat" where
  "clamp_batch given batch_size = nat (max 1 (case given of None \<Rightarrow> batch_size | Some n \<Rightarrow> if n = 0 then batch_size else n))"

definition clamp_optional :: "int option \<Rightarrow> nat option" where
  "clamp_optional given = map_option (\<lambda>n. nat (max 1 n)) given"

type_synonym ('f, 'a, 'b) source_op = "(('f, 'a) redis_source, 'f source_exn, 'b) xeff"

definition send :: "('f, 'a) redis_env \<Rightarrow> ('f, 'a) redis_cmd \<Rightarrow> ('f, 'a, ('f, 'a) redis_reply) source_op" where
  "send E c s =
     (let r = re_reply E (rs_log s) c
      in (s\<lparr>rs_log := rs_log s @ [(c, r)]\<rparr>, case r of Inl e \<Rightarrow> Inl (PyExn e) | Inr a \<Rightarrow> Inr a))"

definition do_send :: "('f, 'a) redis_env \<Rightarrow> ('f, 'a) redis_cmd \<Rightarrow> ('f, 'a, unit) source_op" where
  "do_send E c = bindE (send E c) (\<lambda>_. returnE ())"

text \<open>\<^verbatim>\<open>asyncio.CancelledError\<close> is not an \<^verbatim>\<open>Exception\<close>: handlers for the latter let it pass.\<close>

definition is_cancelled :: "'f source_exn \<Rightarrow> bool" where
  "is_cancelled e = (case e of PyExn x \<Rightarrow> isinstance_exn x ''CancelledError'' | RecordError _ _ _ _ \<Rightarrow> False)"

definition catchE :: "('f, 'a, 'b) source_op \<Rightarrow> ('f source_exn \<Rightarrow> ('f, 'a, 'b) source_op) \<Rightarrow> ('f, 'a, 'b) source_op" where
  "catchE m h = tryE m (\<lambda>e. if is_cancelled e then raiseE e else h e)"

definition source_exn_text :: "'f source_exn \<Rightarrow> string" where
  "source_exn_text e = (case e of PyExn x \<Rightarrow> exn_msg x | RecordError x _ _ _ \<Rightarrow> exn_msg x)"

definition remember_error :: "'f source_exn \<Rightarrow> ('f, 'a, unit) source_op" where
  "remember_error e = modifyE (\<lambda>s. s\<lparr>rs_last_error := Some (source_exn_text e)\<rparr>)"

section \<open>Connection\<close>

definition require_client :: "('f, 'a, unit) source_op" where
  "require_client s =
     (if rs_client s then returnE () s
      else raiseE (PyExn (RuntimeError ''RedisStreamSource.open() was not called'')) s)"

definition ensure_group :: "('f, 'a) redis_env \<Rightarrow> ('f, 'a, unit) source_op" where
  "ensure_group E =
     catchE (thenE (do_send E XGroupCreate) (modifyE (\<lambda>s. s\<lparr>rs_group_ready := True\<rparr>)))
       (\<lambda>e. if str_contains (source_exn_text e) ''BUSYGROUP'' then modifyE (\<lambda>s. s\<lparr>rs_group_ready := True\<rparr>)
            else thenE (remember_error e) (raiseE e))"

definition is_retryable_connection_error :: "'f source_exn \<Rightarrow> bool" where
  "is_retryable_connection_error e =
     (case e of
        PyExn x \<Rightarrow> list_ex (isinstance_exn x)
                     [''redis.exceptions.ConnectionError'', ''redis.exceptions.TimeoutError'', ''redis.exceptions.ReadOnlyError'']
      | RecordError _ _ _ _ \<Rightarrow> False)"

text \<open>The retry policy is asked after every failure and gives up at its last attempt at the latest.\<close>

definition policy_retries :: "('f, 'a) redis_source_config \<Rightarrow> 'f source_exn \<Rightarrow> nat \<Rightarrow> bool" where
  "policy_retries cf e attempt \<longleftrightarrow>
     attempt < rc_max_attempts cf \<and> (case e of PyExn x \<Rightarrow> rc_should_retry cf x attempt | RecordError x _ _ _ \<Rightarrow> rc_should_retry cf x attempt)"

text \<open>One attempt of the reconnection loop.\<close>

definition reconnect_once :: "('f, 'a) redis_env \<Rightarrow> ('f, 'a, unit) source_op" where
  "reconnect_once E =
     thenE (do_send E BuildClient)
     (thenE (ensure_group E)
            (modifyE (\<lambda>s. s\<lparr>rs_client := True, rs_reconnect_count := Suc (rs_reconnect_count s)\<rparr>)))"

function reconnect_loop :: "('f, 'a) redis_env \<Rightarrow> ('f, 'a) redis_source_config \<Rightarrow> nat \<Rightarrow> ('f, 'a, unit) source_op" where
  "reconnect_loop E cf attempt s =
     (case reconnect_once E s of
        (s1, Inr u) \<Rightarrow> (s1, Inr u)
      | (s1, Inl e) \<Rightarrow>
          if is_cancelled e then (s1, Inl e)
          else let s2 = s1\<lparr>rs_last_error := Some (source_exn_text e)\<rparr> in
               if policy_retries cf e attempt then reconnect_loop E cf (Suc attempt) s2 else (s2, Inl e))"
  by auto
termination by (relation "measure (\<lambda>(E, cf, attempt, s). rc_max_attempts cf - attempt)") (auto simp: policy_retries_def)

declare reconnect_loop.simps [simp del]

definition reconnect_client :: "('f, 'a) redis_env \<Rightarrow> ('f, 'a) redis_source_config \<Rightarrow> ('f, 'a, unit) source_op" where
  "reconnect_client E cf s =
     thenE (modifyE (\<lambda>s. s\<lparr>rs_client := False, rs_group_ready := False\<rparr>))
     (thenE (if rs_client s then catchE (do_send E CloseClient) (\<lambda>_. returnE ()) else returnE ())
            (reconnect_loop E cf 1)) s"

definition recover_from_connection_error ::
    "('f, 'a) redis_env \<Rightarrow> ('f, 'a) redis_source_config \<Rightarrow> 'f source_exn \<Rightarrow> ('f, 'a, bool) source_op" where
  "recover_from_connection_error E cf e =
     (if \<not> is_retryable_connection_error e then returnE False
      else thenE (remember_error e) (thenE (reconnect_client E cf) (returnE True)))"

section \<open>Acknowledgements\<close>

definition set_pending :: "redis_text list \<Rightarrow> ('f, 'a, unit) source_op" where
  "set_pending ids = modifyE (\<lambda>s. s\<lparr>rs_pending_ack_ids := ids\<rparr>)"

text \<open>\<^verbatim>\<open>pending_ids + self._source._pending_ack_ids\<close>\<close>

definition restore_pending :: "redis_text list \<Rightarrow> ('f, 'a, unit) source_op" where
  "restore_pending ids = modifyE (\<lambda>s. s\<lparr>rs_pending_ack_ids := ids @ rs_pending_ack_ids s\<rparr>)"

definition note_acked :: "nat \<Rightarrow> ('f, 'a, unit) source_op" where
  "note_acked n =
     modifyE (\<lambda>s. s\<lparr>rs_ack_flush_count := Suc (rs_ack_flush_count s), rs_acked_message_count := rs_acked_message_count s + n\<rparr>)"

text \<open>The second try of a flush, after the connection was recovered.\<close>

definition flush_again :: "('f, 'a) redis_env \<Rightarrow> ('f, 'a, nat) source_op" where
  "flush_again E s =
     (let ids = rs_pending_ack_ids s in
      thenE require_client
      (thenE (set_pending [])
      (thenE (catchE (do_send E (XAck ids)) (\<lambda>e. thenE (restore_pending ids) (raiseE e)))
             (returnE (length ids)))) s)"

definition flush_pending_acks :: "('f, 'a) redis_env \<Rightarrow> ('f, 'a) redis_source_config \<Rightarrow> ('f, 'a, unit) source_op" where
  "flush_pending_acks E cf s =
     (let ids = rs_pending_ack_ids s in
      if \<not> rs_client s \<or> ids = [] then returnE () s
      else bindE
        (thenE (set_pending [])
          (catchE (thenE (do_send E (XAck ids)) (returnE (length ids)))
             (\<lambda>e. thenE (restore_pending ids)
                  (bindE (recover_from_connection_error E cf e) (\<lambda>recovered.
                     if recovered then flush_again E else raiseE e)))))
        note_acked s)"

definition enqueue_ack :: "('f, 'a) redis_env \<Rightarrow> ('f, 'a) redis_source_config \<Rightarrow> redis_text \<Rightarrow> ('f, 'a, unit) source_op" where
  "enqueue_ack E cf msg_id =
     thenE (modifyE (\<lambda>s. s\<lparr>rs_pending_ack_ids := rs_pending_ack_ids s @ [msg_id]\<rparr>))
     (\<lambda>s. if length (rs_pending_ack_ids s) \<ge> rc_ack_batch_size cf then flush_pending_acks E cf s else returnE () s)"

definition client_closed :: "'f source_exn" where
  "client_closed = PyExn (RuntimeError ''RedisStreamSource client is closed -- cannot ack message'')"

text \<open>The callbacks: of a delivered record, and of a failed reclaimed one.\<close>

definition ack_callback :: "('f, 'a) redis_env \<Rightarrow> ('f, 'a) redis_source_config \<Rightarrow> redis_text \<Rightarrow> ('f, 'a, unit) source_op" where
  "ack_callback E cf msg_id s = (if rs_client s then enqueue_ack E cf msg_id s else raiseE client_closed s)"

definition failure_ack_callback :: "('f, 'a) redis_env \<Rightarrow> redis_text \<Rightarrow> ('f, 'a, unit) source_op" where
  "failure_ack_callback E msg_id s =
     (if rs_client s then thenE (do_send E (XAck [msg_id])) (note_acked 1) s else raiseE client_closed s)"

fun normalize_message_id :: "redis_text \<Rightarrow> string" where
  "normalize_message_id (RBytes s) = s"
| "normalize_message_id (RStr s) = s"

definition source_checkpoint ::
    "('f, 'a) redis_source_config \<Rightarrow> ('f, 'a) redis_source \<Rightarrow> ('f, 'a) redis_source \<times> (string \<times> string \<times> string \<times> string) option" where
  "source_checkpoint cf s =
     (case rs_last_message_id s of
        None \<Rightarrow> (s, None)
      | Some m \<Rightarrow>
          (case rs_checkpoint_cache s of
             Some (st, g, c, m') \<Rightarrow>
               if m' = m then (s, Some (st, g, c, m'))
               else let v = (rc_stream cf, rc_group cf, rc_consumer cf, m) in (s\<lparr>rs_checkpoint_cache := Some v\<rparr>, Some v)
           | None \<Rightarrow> let v = (rc_stream cf, rc_group cf, rc_consumer cf, m) in (s\<lparr>rs_checkpoint_cache := Some v\<rparr>, Some v)))"

section \<open>Resume\<close>

text \<open>The argument is the message identifier of the checkpoint, if it has a nonempty one.\<close>

definition redis_prepare_resume :: "string option \<Rightarrow> ('f, 'a) redis_source \<Rightarrow> ('f, 'a) redis_source" where
  "redis_prepare_resume message_id s =
     (let s1 = s\<lparr>rs_resume_pending := False, rs_resume_group_seek_pending := False, rs_resume_cursor := None\<rparr> in
      case message_id of
        None \<Rightarrow> s1
      | Some m \<Rightarrow> if m = [] then s1 else s1\<lparr>rs_resume_cursor := Some m, rs_resume_group_seek_pending := True\<rparr>)"

definition stop_resume :: "('f, 'a) redis_source \<Rightarrow> ('f, 'a) redis_source" where
  "stop_resume s = s\<lparr>rs_resume_group_seek_pending := False, rs_resume_pending := False\<rparr>"

definition ensure_resume_single_consumer_group ::
    "('f, 'a) redis_env \<Rightarrow> ('f, 'a) redis_source_config \<Rightarrow> ('f, 'a, unit) source_op" where
  "ensure_resume_single_consumer_group E cf =
     (if \<not> rc_has_xinfo_consumers cf
      then thenE (modifyE stop_resume) (raiseE (PyExn (TypeError ''RedisStreamSource resume requires a Redis client with xinfo_consumers support'')))
      else bindE (catchE (send E XInfoConsumers) (\<lambda>e. thenE (remember_error e) (raiseE e))) (\<lambda>reply.
             if (case reply of RConsumers n \<Rightarrow> 1 < n | _ \<Rightarrow> False)
             then thenE (modifyE stop_resume) (raiseE (PyExn (RuntimeError ''RedisStreamSource resume from checkpoint is only safe for a single-consumer group'')))
             else returnE ()))"

definition apply_resume_checkpoint :: "('f, 'a) redis_env \<Rightarrow> ('f, 'a) redis_source_config \<Rightarrow> ('f, 'a, unit) source_op" where
  "apply_resume_checkpoint E cf s =
     (if \<not> rs_resume_group_seek_pending s then returnE () s
      else (case rs_resume_cursor s of
        None \<Rightarrow> returnE () s
      | Some cursor \<Rightarrow>
          thenE (ensure_resume_single_consumer_group E cf)
          (if \<not> rc_has_xgroup_setid cf
           then thenE (modifyE stop_resume) (raiseE (PyExn (TypeError ''RedisStreamSource resume requires a Redis client with xgroup_setid support.'')))
           else thenE (catchE (do_send E (XGroupSetId cursor)) (\<lambda>e. thenE (remember_error e) (raiseE e)))
                      (modifyE (\<lambda>s. s\<lparr>rs_resume_group_seek_pending := False\<rparr>))) s))"

text \<open>The cursor of a claim counts only when it is a nonempty \<^verbatim>\<open>str\<close>.\<close>

definition parse_xautoclaim_response :: "('f, 'a) redis_reply \<Rightarrow> string \<times> 'f redis_message list" where
  "parse_xautoclaim_response r =
     (case r of
        RClaim cursor messages \<Rightarrow>
          ((case cursor of Some (RStr c) \<Rightarrow> if c = [] then ''0-0'' else c | _ \<Rightarrow> ''0-0''),
           (case messages of None \<Rightarrow> [] | Some ms \<Rightarrow> ms))
      | _ \<Rightarrow> (''0-0'', []))"

section \<open>Delivery\<close>

text \<open>\<open>yield record\<close> between setting and clearing the hook.\<close>

definition deliver_record ::
    "('f, 'a) redis_env \<Rightarrow> ('f, 'a) redis_source_config \<Rightarrow> redis_text \<Rightarrow> 'a \<Rightarrow> ('f, 'a, unit) source_op" where
  "deliver_record E cf msg_id record =
     thenE (modifyE (\<lambda>s. s\<lparr>rs_delivery_success_hook := (if rc_ack_on_success cf then Some msg_id else None),
                           rs_delivery_context := Some (normalize_message_id msg_id),
                           rs_emitted_record_count := Suc (rs_emitted_record_count s)\<rparr>))
     (finallyE
        (bindE (send E (Deliver msg_id record)) (\<lambda>reply s.
           if reply = RDelivered True
           then (case rs_delivery_success_hook s of None \<Rightarrow> returnE () s | Some m \<Rightarrow> ack_callback E cf m s)
           else returnE () s))
        (modifyE (\<lambda>s. s\<lparr>rs_delivery_success_hook := None, rs_delivery_context := None\<rparr>)))"

definition note_deserialize_error ::
    "('f, 'a) redis_source_config \<Rightarrow> bool \<Rightarrow> string \<Rightarrow> exn \<Rightarrow> ('f, 'a) redis_source \<Rightarrow> ('f, 'a) redis_source" where
  "note_deserialize_error cf was_reclaimed m exc s =
     (let s1 = s\<lparr>rs_last_error := Some (exn_msg exc), rs_record_error_count := Suc (rs_record_error_count s)\<rparr> in
      if was_reclaimed \<and> \<not> rc_log_and_continue cf
      then s1\<lparr>rs_poison_loop_count := Suc (rs_poison_loop_count s1),
             rs_poison_loop_message_ids := List.insert m (rs_poison_loop_message_ids s1),
             rs_last_poison_loop_message_id := Some m\<rparr>
      else s1)"

definition deserialize_failed ::
    "('f, 'a) redis_env \<Rightarrow> ('f, 'a) redis_source_config \<Rightarrow> bool \<Rightarrow> redis_text \<Rightarrow> exn \<Rightarrow> ('f, 'a, unit) source_op" where
  "deserialize_failed E cf was_reclaimed msg_id exc =
     thenE (modifyE (note_deserialize_error cf was_reclaimed (normalize_message_id msg_id) exc))
     (if rc_log_and_continue cf
      then thenE (modifyE (\<lambda>s. s\<lparr>rs_record_drop_count := Suc (rs_record_drop_count s)\<rparr>)) (enqueue_ack E cf msg_id)
      else thenE (flush_pending_acks E cf)
             (\<lambda>s. case source_checkpoint cf s of (s1, cp) \<Rightarrow>
                raiseE (RecordError exc (normalize_message_id msg_id) cp was_reclaimed) s1))"

text \<open>A message is taken off the reclaimed ones and remembered; then it is delivered, or its failure handled.\<close>

definition take_message :: "string \<Rightarrow> ('f, 'a) redis_source \<Rightarrow> ('f, 'a) redis_source" where
  "take_message m s =
     s\<lparr>rs_active_reclaimed_message_ids := removeAll m (rs_active_reclaimed_message_ids s),
       rs_last_message_id := Some m,
       rs_resume_cursor := (if rs_resume_pending s then Some m else rs_resume_cursor s)\<rparr>"

definition yield_message ::
    "('f, 'a) redis_env \<Rightarrow> ('f, 'a) redis_source_config \<Rightarrow> 'f redis_message \<Rightarrow> ('f, 'a, unit) source_op" where
  "yield_message E cf message s =
     (let m = normalize_message_id (fst message);
          was_reclaimed = List.member (rs_active_reclaimed_message_ids s) m;
          s1 = take_message m s
      in case rc_deserializer cf (snd message) of
           Inl exc \<Rightarrow> deserialize_failed E cf was_reclaimed (fst message) exc s1
         | Inr record \<Rightarrow> deliver_record E cf (fst message) record s1)"

fun yield_messages ::
    "('f, 'a) redis_env \<Rightarrow> ('f, 'a) redis_source_config \<Rightarrow> 'f redis_message list \<Rightarrow> ('f, 'a, unit) source_op" where
  "yield_messages E cf [] = returnE ()"
| "yield_messages E cf (m # ms) = thenE (yield_message E cf m) (yield_messages E cf ms)"

definition yield_entries ::
    "('f, 'a) redis_env \<Rightarrow> ('f, 'a) redis_source_config \<Rightarrow> (string \<times> 'f redis_message list) list \<Rightarrow> ('f, 'a, unit) source_op" where
  "yield_entries E cf entries = yield_messages E cf (concat (map snd entries))"

section \<open>Reading\<close>

definition no_reclaim :: "('f, 'a, 'f redis_message list) source_op" where
  "no_reclaim s = (s\<lparr>rs_consecutive_reclaim_batch_count := 0\<rparr>, Inr [])"

text \<open>What becomes of a claim.\<close>

definition take_reclaimed :: "string \<times> 'f redis_message list \<Rightarrow> ('f, 'a, 'f redis_message list) source_op" where
  "take_reclaimed claim s =
     (case claim of (next_cursor, messages) \<Rightarrow>
        if messages = [] then no_reclaim (s\<lparr>rs_reclaim_cursor := next_cursor\<rparr>)
        else (s\<lparr>rs_reclaim_cursor := next_cursor,
               rs_reclaimed_message_count := rs_reclaimed_message_count s + length messages,
               rs_consecutive_reclaim_batch_count := Suc (rs_consecutive_reclaim_batch_count s),
               rs_active_reclaimed_message_ids := remdups (map (\<lambda>m. normalize_message_id (fst m)) messages)\<rparr>,
              Inr messages))"

text \<open>The messages of the one entry \<^verbatim>\<open>(stream, messages)\<close>, or none.\<close>

definition read_reclaimed_messages ::
    "('f, 'a) redis_env \<Rightarrow> ('f, 'a) redis_source_config \<Rightarrow> ('f, 'a, 'f redis_message list) source_op" where
  "read_reclaimed_messages E cf s =
     (if \<not> rs_client s \<or> rc_reclaim_idle_ms cf = None \<or> rs_resume_pending s then no_reclaim s
      else if \<not> rc_has_xautoclaim cf then no_reclaim s
      else (case send E (XAutoClaim (rs_reclaim_cursor s)) s of
          (s1, Inr reply) \<Rightarrow> take_reclaimed (parse_xautoclaim_response reply) s1
        | (s1, Inl e) \<Rightarrow>
            if is_cancelled e then raiseE e s1
            else bindE (recover_from_connection_error E cf e) (\<lambda>recovered.
                   if recovered then no_reclaim else raiseE e) s1))"

definition should_read_reclaimed_messages ::
    "('f, 'a) redis_source_config \<Rightarrow> ('f, 'a) redis_source \<Rightarrow> ('f, 'a) redis_source \<times> bool" where
  "should_read_reclaimed_messages cf s =
     (case rc_max_consecutive_reclaim_batches cf of
        None \<Rightarrow> (s, True)
      | Some limit \<Rightarrow>
          if rc_reclaim_idle_ms cf = None \<or> rs_resume_pending s then (s, True)
          else if rs_consecutive_reclaim_batch_count s < limit then (s, True)
          else (s\<lparr>rs_consecutive_reclaim_batch_count := 0,
                 rs_reclaim_fairness_yield_count := Suc (rs_reclaim_fairness_yield_count s)\<rparr>, False))"

text \<open>\<open>None\<close> is the \<^verbatim>\<open>continue\<close> after a recovered error.\<close>

definition read_group :: "('f, 'a) redis_env \<Rightarrow> ('f, 'a) redis_source_config \<Rightarrow>
    ('f, 'a, (string \<times> 'f redis_message list) list option) source_op" where
  "read_group E cf s =
     (let stream_id = (if rs_resume_pending s then (case rs_resume_cursor s of Some c \<Rightarrow> if c = [] then ''>'' else c | None \<Rightarrow> ''>'') else ''>'')
      in case thenE require_client
           (thenE (modifyE (\<lambda>s. s\<lparr>rs_read_call_count := Suc (rs_read_call_count s)\<rparr>)) (send E (XReadGroup stream_id))) s of
           (s1, Inr reply) \<Rightarrow> (s1, Inr (Some (case reply of REntries es \<Rightarrow> es | _ \<Rightarrow> [])))
         | (s1, Inl e) \<Rightarrow>
             if is_cancelled e then thenE (flush_pending_acks E cf) (raiseE e) s1
             else bindE (recover_from_connection_error E cf e) (\<lambda>recovered.
                    if recovered then returnE None else thenE (remember_error e) (raiseE e)) s1)"

definition read_new :: "('f, 'a) redis_env \<Rightarrow> ('f, 'a) redis_source_config \<Rightarrow> ('f, 'a, unit) source_op" where
  "read_new E cf =
     bindE (read_group E cf) (\<lambda>r.
       case r of
         None \<Rightarrow> returnE ()
       | Some entries \<Rightarrow>
           if entries = [] then modifyE (\<lambda>s. s\<lparr>rs_resume_pending := False\<rparr>) else yield_entries E cf entries)"

text \<open>One iteration of the read loop.\<close>

definition read_iteration :: "('f, 'a) redis_env \<Rightarrow> ('f, 'a) redis_source_config \<Rightarrow> ('f, 'a, unit) source_op" where
  "read_iteration E cf s =
     (case should_read_reclaimed_messages cf s of (s1, reclaim) \<Rightarrow>
        bindE (if reclaim then read_reclaimed_messages E cf else returnE []) (\<lambda>messages.
          if messages = [] then read_new E cf else yield_messages E cf messages) s1)"

text \<open>\<^verbatim>\<open>while True\<close>: the fuel is the number of iterations.\<close>

fun read_loop :: "('f, 'a) redis_env \<Rightarrow> ('f, 'a) redis_source_config \<Rightarrow> nat \<Rightarrow> ('f, 'a, unit) source_op" where
  "read_loop E cf 0 = returnE ()"
| "read_loop E cf (Suc n) = thenE (read_iteration E cf) (read_loop E cf n)"

definition redis_stream :: "('f, 'a) redis_env \<Rightarrow> ('f, 'a) redis_source_config \<Rightarrow> nat \<Rightarrow> ('f, 'a, unit) source_op" where
  "redis_stream E cf fuel =
     thenE (modifyE (\<lambda>s. s\<lparr>rs_record_error_count := 0, rs_record_drop_count := 0\<rparr>))
     (thenE require_client (thenE (apply_resume_checkpoint E cf) (read_loop E cf fuel)))"

definition redis_source_open :: "('f, 'a) redis_env \<Rightarrow> ('f, 'a, unit) source_op" where
  "redis_source_open E =
     thenE (do_send E BuildClient) (thenE (modifyE (\<lambda>s. s\<lparr>rs_client := True\<rparr>)) (ensure_group E))"

definition redis_source_close :: "('f, 'a) redis_env \<Rightarrow> ('f, 'a) redis_source_config \<Rightarrow> ('f, 'a, unit) source_op" where
  "redis_source_close E cf s =
     (if rs_client s
      then thenE (catchE (flush_pending_acks E cf) (\<lambda>_. returnE ()))
           (thenE (\<lambda>s. if rs_client s then do_send E CloseClient s
                        else raiseE (PyExn (Exn ''AttributeError'' [''Exception''] ''object has no attribute aclose'')) s)
                  (modifyE (\<lambda>s. s\<lparr>rs_client := False, rs_group_ready := False\<rparr>))) s
      else returnE () s)"

end
