(* ===== verification/Redis_Frames.thy ===== *)
theory Redis_Frames
  imports Redis_Stream
begin

text \<open>
  How the properties of the Redis stream source read its log, and what its connection and resume operations leave
  alone: the locale \<open>connection_frame\<close> takes a relation between states that their calls and fields keep and
  concludes that the operations keep it.  \<open>no_fetch\<close> and \<open>quiet\<close> instantiate it.
\<close>

section \<open>What the log says\<close>

text \<open>Batches that were reclaimed since new messages were last asked for, and how often they were asked for.\<close>

fun claim_step :: "nat \<Rightarrow> ('f, 'a) redis_cmd \<times> (exn + ('f, 'a) redis_reply) \<Rightarrow> nat" where
  "claim_step n (XReadGroup _, _) = 0"
| "claim_step n (XAutoClaim _, Inr r) = (if snd (parse_xautoclaim_response r) = [] then n else Suc n)"
| "claim_step n _ = n"

definition claims_since_read :: "('f, 'a) redis_log \<Rightarrow> nat" where
  "claims_since_read log = foldl claim_step 0 log"

fun is_read :: "('f, 'a) redis_cmd \<Rightarrow> bool" where
  "is_read (XReadGroup _) = True"
| "is_read _ = False"

fun is_fetch :: "('f, 'a) redis_cmd \<Rightarrow> bool" where
  "is_fetch (XReadGroup _) = True"
| "is_fetch (XAutoClaim _) = True"
| "is_fetch _ = False"

definition reads :: "('f, 'a) redis_log \<Rightarrow> nat" where
  "reads log = length (filter (\<lambda>e. is_read (fst e)) log)"

definition claims_bounded :: "nat \<Rightarrow> ('f, 'a) redis_log \<Rightarrow> bool" where
  "claims_bounded m log \<longleftrightarrow> (\<forall>p. prefix p log \<longrightarrow> claims_since_read p \<le> m)"

text \<open>The messages a reply brought, those acknowledged (with success, or sent) or waiting to be, and those that may be.\<close>

fun received :: "('f, 'a) redis_cmd \<times> (exn + ('f, 'a) redis_reply) \<Rightarrow> 'f redis_message list" where
  "received (XReadGroup _, Inr (REntries es)) = concat (map snd es)"
| "received (XAutoClaim _, Inr r) = snd (parse_xautoclaim_response r)"
| "received _ = []"

definition acked_ids :: "('f, 'a) redis_log \<Rightarrow> redis_text set" where
  "acked_ids log = {i. \<exists>ids r. (XAck ids, Inr r) \<in> set log \<and> i \<in> set ids}"

definition ack_ids :: "('f, 'a) redis_source \<Rightarrow> redis_text set" where
  "ack_ids s = acked_ids (rs_log s) \<union> set (rs_pending_ack_ids s)"

definition sent_ids :: "('f, 'a) redis_log \<Rightarrow> redis_text set" where
  "sent_ids log = {i. \<exists>ids r. (XAck ids, r) \<in> set log \<and> i \<in> set ids}"

definition touched_ids :: "('f, 'a) redis_source \<Rightarrow> redis_text set" where
  "touched_ids s = sent_ids (rs_log s) \<union> set (rs_pending_ack_ids s)"

definition confirmed_ids :: "('f, 'a) redis_source_config \<Rightarrow> ('f, 'a) redis_log \<Rightarrow> redis_text set" where
  "confirmed_ids cf log = {i. rc_ack_on_success cf \<and> (\<exists>a. (Deliver i a, Inr (RDelivered True)) \<in> set log)}"

definition rejected :: "('f, 'a) redis_source_config \<Rightarrow> 'f redis_message list \<Rightarrow> redis_text set" where
  "rejected cf ms = {i. rc_log_and_continue cf \<and> (\<exists>body. (i, body) \<in> set ms \<and> isl (rc_deserializer cf body))}"

definition dropped_ids :: "('f, 'a) redis_source_config \<Rightarrow> ('f, 'a) redis_log \<Rightarrow> redis_text set" where
  "dropped_ids cf log = (\<Union>e\<in>set log. rejected cf (received e))"

text \<open>What should be acknowledged by now.\<close>

definition due_ids :: "('f, 'a) redis_source_config \<Rightarrow> ('f, 'a) redis_source \<Rightarrow> redis_text set" where
  "due_ids cf s = confirmed_ids cf (rs_log s) \<union> dropped_ids cf (rs_log s)"

section \<open>Frames\<close>

lemma catch_preserves:
  "\<lbrakk>reflp R; transp R; preserves R m; \<And>e. preserves R (h e)\<rbrakk> \<Longrightarrow> preserves R (catchE m h)"
  unfolding catchE_def by (intro preserves_try) (auto intro!: preserves_basic)

text \<open>
  A relation between states that the connection and resume operations keep: it is closed under their calls and
  under the fields they change.
\<close>

locale connection_frame =
  fixes R :: "('f, 'a) redis_source \<Rightarrow> ('f, 'a) redis_source \<Rightarrow> bool"
  assumes refl: "reflp R" and trans: "transp R"
    and calls: "c \<in> {BuildClient, CloseClient, XGroupCreate, XInfoConsumers} \<or> c = XGroupSetId m \<Longrightarrow> preserves R (send E c)"
    and error: "R s (s\<lparr>rs_last_error := e\<rparr>)"
    and client: "R s (s\<lparr>rs_client := b\<rparr>)" "R s (s\<lparr>rs_group_ready := b\<rparr>)" "R s (s\<lparr>rs_reconnect_count := n\<rparr>)"
    and seek: "R s (s\<lparr>rs_resume_group_seek_pending := b\<rparr>)" "R s (s\<lparr>rs_resume_pending := b\<rparr>)"
begin

lemma basic: "preserves R (returnE a)" "preserves R (raiseE e)"
  by (rule preserves_basic, rule refl)+

lemma bind: "\<lbrakk>preserves R m; \<And>a. preserves R (f a)\<rbrakk> \<Longrightarrow> preserves R (bindE m f)"
  by (rule preserves_bind [OF trans])

lemma seq: "\<lbrakk>preserves R m; preserves R n\<rbrakk> \<Longrightarrow> preserves R (thenE m n)"
  by (rule preserves_then [OF trans])

lemma catch: "\<lbrakk>preserves R m; \<And>e. preserves R (h e)\<rbrakk> \<Longrightarrow> preserves R (catchE m h)"
  by (rule catch_preserves [OF refl trans])

lemma call: "c \<in> {BuildClient, CloseClient, XGroupCreate, XInfoConsumers} \<or> c = XGroupSetId m \<Longrightarrow> preserves R (do_send E c)"
  unfolding do_send_def by (intro bind basic calls)

lemma remember: "preserves R (remember_error e)"
  unfolding remember_error_def by (intro preserves_basic error)

lemma require: "preserves R require_client"
  using refl by (simp add: preserves_def require_client_def reflp_def)

lemma group: "preserves R (ensure_group E)"
  unfolding ensure_group_def
  by (intro catch seq call) (auto intro!: preserves_basic client seq remember basic)

lemma built: "R s (s\<lparr>rs_client := True, rs_reconnect_count := n\<rparr>)"
  using transpD [OF trans client(1) client(3)] by simp

lemma once: "preserves R (reconnect_once E)"
  unfolding reconnect_once_def
  by (intro seq call group preserves_basic) (auto intro: built)

lemma loop: "preserves R (reconnect_loop E cf n)"
proof -
  have "R s (fst (reconnect_loop E cf n s))" for s
  proof (induction E cf n s rule: reconnect_loop.induct)
    case (1 E cf n s)
    obtain s1 z where o: "reconnect_once E s = (s1, z)" by (cases "reconnect_once E s")
    then have R1: "R s s1" using preservesD [OF once] by blast
    show ?case
    proof (cases z)
      case (Inr u)
      then show ?thesis using o R1 by (subst reconnect_loop.simps) simp
    next
      case (Inl e)
      let ?s2 = "s1\<lparr>rs_last_error := Some (source_exn_text e)\<rparr>"
      have R2: "R s ?s2" using transpD [OF trans R1 error] .
      show ?thesis
      proof (cases "\<not> is_cancelled e \<and> policy_retries cf e n")
        case True
        then have "R ?s2 (fst (reconnect_loop E cf (Suc n) ?s2))" using 1 [OF o [symmetric] Inl] by auto
        then have "R s (fst (reconnect_loop E cf (Suc n) ?s2))" using transpD [OF trans R2] by blast
        then show ?thesis using o Inl True by (subst reconnect_loop.simps) (simp add: Let_def)
      next
        case False
        then show ?thesis using o Inl R1 R2 by (subst reconnect_loop.simps) (auto simp: Let_def)
      qed
    qed
  qed
  then show ?thesis by (simp add: preserves_def)
qed

lemma lost: "R s (s\<lparr>rs_client := False, rs_group_ready := False\<rparr>)"
  using transpD [OF trans client(1) client(2)] by simp

lemma reconnect: "preserves R (reconnect_client E cf)"
proof -
  have "preserves R (thenE (modifyE (\<lambda>s. s\<lparr>rs_client := False, rs_group_ready := False\<rparr>))
     (thenE (if b then catchE (do_send E CloseClient) (\<lambda>_. returnE ()) else returnE ()) (reconnect_loop E cf 1)))" for b
    by (intro seq loop preserves_basic lost) (auto intro!: catch call basic)
  then show ?thesis unfolding preserves_def reconnect_client_def by blast
qed

lemma recover: "preserves R (recover_from_connection_error E cf e)"
  unfolding recover_from_connection_error_def by (auto intro!: seq remember reconnect basic)

lemma stopped: "R s (stop_resume s)"
  using transpD [OF trans seek(1) seek(2)] by (simp add: stop_resume_def)

lemma single: "preserves R (ensure_resume_single_consumer_group E cf)"
proof -
  have "preserves R (bindE (catchE (send E XInfoConsumers) (\<lambda>e. thenE (remember_error e) (raiseE e))) (\<lambda>reply.
             if (case reply of RConsumers n \<Rightarrow> 1 < n | _ \<Rightarrow> False) then thenE (modifyE stop_resume) (raiseE (x :: 'f source_exn)) else returnE ()))" for x
    by (intro bind catch calls seq remember basic) (auto intro!: seq basic preserves_basic stopped)
  then show ?thesis
    unfolding ensure_resume_single_consumer_group_def by (auto intro!: seq basic preserves_basic stopped)
qed

lemma apply_resume: "preserves R (apply_resume_checkpoint E cf)"
proof -
  have "preserves R (thenE (ensure_resume_single_consumer_group E cf)
      (if \<not> rc_has_xgroup_setid cf then thenE (modifyE stop_resume) (raiseE (x :: 'f source_exn))
       else thenE (catchE (do_send E (XGroupSetId m)) (\<lambda>e. thenE (remember_error e) (raiseE e)))
                  (modifyE (\<lambda>s. s\<lparr>rs_resume_group_seek_pending := False\<rparr>))))" for x m
    by (auto intro!: seq single catch call [of _ m] remember basic preserves_basic stopped seek)
  then show ?thesis
    using refl unfolding preserves_def apply_resume_checkpoint_def by (auto simp: reflp_def split: option.split)
qed

end

end
