(* ===== verification/Redis_Fairness.thy ===== *)
theory Redis_Fairness
  imports Redis_Frames
begin

text \<open>
  Fairness of the Redis stream source: the limit on consecutive batches of reclaimed messages and the share of the
  loop that goes to new ones.
\<close>

section \<open>Calls that do not fetch\<close>

definition no_fetch :: "('f, 'a) redis_source \<Rightarrow> ('f, 'a) redis_source \<Rightarrow> bool" where
  "no_fetch s s' \<longleftrightarrow> rs_consecutive_reclaim_batch_count s' = rs_consecutive_reclaim_batch_count s \<and>
     (\<exists>es. rs_log s' = rs_log s @ es \<and> (\<forall>e\<in>set es. \<not> is_fetch (fst e)))"

lemma no_fetch_refl [simp]: "reflp no_fetch"
  by (auto simp: reflp_def no_fetch_def)

lemma no_fetch_trans [simp]: "transp (no_fetch :: ('f, 'a) redis_source \<Rightarrow> _)"
proof (rule transpI)
  fix a b c :: "('f, 'a) redis_source"
  assume "no_fetch a b" "no_fetch b c"
  moreover from this obtain x y where "rs_log b = rs_log a @ x" "rs_log c = rs_log b @ y" "\<forall>e\<in>set x. \<not> is_fetch (fst e)" "\<forall>e\<in>set y. \<not> is_fetch (fst e)"
    by (auto simp: no_fetch_def)
  then have "rs_log c = rs_log a @ (x @ y) \<and> (\<forall>e\<in>set (x @ y). \<not> is_fetch (fst e))" by auto
  ultimately show "no_fetch a c" unfolding no_fetch_def by metis
qed

lemma send_no_fetch: "\<not> is_fetch c \<Longrightarrow> preserves no_fetch (send E c)"
  by (auto simp: preserves_def no_fetch_def send_def Let_def)

interpretation nf: connection_frame "no_fetch :: ('f, 'a) redis_source \<Rightarrow> _"
proof
  show "preserves no_fetch (send E c)" if "c \<in> {BuildClient, CloseClient, XGroupCreate, XInfoConsumers} \<or> c = XGroupSetId m"
    for E :: "('f, 'a) redis_env" and c m
    by (rule send_no_fetch) (use that in auto)
qed (auto simp: no_fetch_def)

lemma do_send_no_fetch: "\<not> is_fetch c \<Longrightarrow> preserves no_fetch (do_send E c)"
  unfolding do_send_def by (intro nf.bind nf.basic send_no_fetch)

lemma pending_no_fetch [intro!]:
  "preserves no_fetch (set_pending ids)" "preserves no_fetch (restore_pending ids)" "preserves no_fetch (note_acked n)"
  by (auto simp: preserves_def no_fetch_def set_pending_def restore_pending_def note_acked_def)

lemma flush_again_no_fetch: "preserves no_fetch (flush_again E)"
proof -
  have "preserves no_fetch (thenE require_client (thenE (set_pending [])
      (thenE (catchE (do_send E (XAck ids)) (\<lambda>e. thenE (restore_pending ids) (raiseE e))) (returnE (length ids)))))" for ids
    by (intro nf.seq nf.catch nf.require nf.basic do_send_no_fetch pending_no_fetch) auto
  then show ?thesis unfolding preserves_def flush_again_def Let_def by blast
qed

lemma flush_no_fetch: "preserves no_fetch (flush_pending_acks E cf)"
proof -
  have "preserves no_fetch (bindE (thenE (set_pending [])
          (catchE (thenE (do_send E (XAck ids)) (returnE (length ids)))
             (\<lambda>e. thenE (restore_pending ids)
                  (bindE (recover_from_connection_error E cf e) (\<lambda>recovered. if recovered then flush_again E else raiseE e))))) note_acked)" for ids
    by (intro nf.bind nf.seq nf.catch nf.basic do_send_no_fetch pending_no_fetch nf.recover)
      (auto intro!: flush_again_no_fetch nf.basic)
  then show ?thesis using no_fetch_refl unfolding preserves_def flush_pending_acks_def Let_def by (auto simp: reflp_def)
qed

lemma enqueue_no_fetch: "preserves no_fetch (enqueue_ack E cf m)"
proof -
  have "preserves no_fetch (\<lambda>s. if length (rs_pending_ack_ids s) \<ge> rc_ack_batch_size cf then flush_pending_acks E cf s else returnE () s)"
    using flush_no_fetch [of E cf] by (auto simp: preserves_def no_fetch_def)
  then show ?thesis unfolding enqueue_ack_def by (intro nf.seq preserves_basic) (auto simp: no_fetch_def)
qed

lemma deliver_no_fetch: "preserves no_fetch (deliver_record E cf m a)"
proof -
  have "preserves no_fetch (ack_callback E cf m)" for m
    using enqueue_no_fetch [of E cf m] by (auto simp: preserves_def ack_callback_def no_fetch_def)
  then have "preserves no_fetch (\<lambda>s. if reply = RDelivered True
           then (case rs_delivery_success_hook s of None \<Rightarrow> returnE () s | Some m \<Rightarrow> ack_callback E cf m s)
           else returnE () s)" for reply
    by (auto simp: preserves_def no_fetch_def split: option.split)
  then show ?thesis unfolding deliver_record_def
    by (intro nf.seq preserves_basic finally_preserves no_fetch_trans nf.bind send_no_fetch) (auto simp: no_fetch_def)
qed

lemma deserialize_failed_no_fetch: "preserves no_fetch (deserialize_failed E cf b m e)"
proof -
  have "no_fetch s (fst (source_checkpoint cf s))" for s
    by (auto simp: source_checkpoint_def no_fetch_def Let_def split: option.split prod.split)
  then have "preserves no_fetch (\<lambda>s. case source_checkpoint cf s of (s1, cp) \<Rightarrow> raiseE (RecordError e (normalize_message_id m) cp b) s1)"
    by (auto simp: preserves_def case_prod_beta)
  then show ?thesis unfolding deserialize_failed_def
    by (auto intro!: nf.seq preserves_basic enqueue_no_fetch flush_no_fetch simp: no_fetch_def note_deserialize_error_def Let_def)
qed

lemma yield_messages_no_fetch: "preserves no_fetch (yield_messages E cf ms)"
proof -
  have "no_fetch s (fst (yield_message E cf m s))" for m s
  proof -
    let ?s = "take_message (normalize_message_id (fst m)) s"
    have s: "no_fetch s ?s" by (auto simp: take_message_def no_fetch_def)
    note F = transpD [OF no_fetch_trans s preserves_state [OF deserialize_failed_no_fetch]]
      and D = transpD [OF no_fetch_trans s preserves_state [OF deliver_no_fetch]]
    show ?thesis
      by (cases "rc_deserializer cf (snd m)") (simp_all only: yield_message_def Let_def sum.case F D)
  qed
  then have "preserves no_fetch (yield_message E cf m)" for m by (simp add: preserves_def)
  then show ?thesis by (induction ms) (simp_all only: yield_messages.simps, auto intro!: nf.seq nf.basic)
qed

section \<open>Fairness\<close>

lemma claims_append:
  "\<forall>e\<in>set es. \<not> is_fetch (fst e) \<Longrightarrow> foldl claim_step n es = n"
proof (induction es)
  case (Cons e es)
  then have "claim_step n e = n" by (cases e; cases "fst e") auto
  then show ?case using Cons by simp
qed simp

lemma bounded_append:
  assumes "claims_bounded m log" "\<forall>e\<in>set es. \<not> is_fetch (fst e)"
  shows "claims_bounded m (log @ es)" "claims_since_read (log @ es) = claims_since_read log" "reads (log @ es) = reads log"
proof -
  show "claims_since_read (log @ es) = claims_since_read log"
    using claims_append [OF assms(2)] by (simp add: claims_since_read_def)
  have "claims_since_read p \<le> m" if p: "prefix p (log @ es)" for p
  proof (cases "prefix p log")
    case True
    then show ?thesis using assms(1) by (simp add: claims_bounded_def)
  next
    case False
    then obtain q where q: "p = log @ q" "prefix q es" using p by (metis prefix_append)
    then have "\<forall>e\<in>set q. \<not> is_fetch (fst e)" using assms(2) by (metis in_mono set_mono_prefix)
    then have "claims_since_read p = claims_since_read log" using claims_append q by (simp add: claims_since_read_def)
    then show ?thesis using assms(1) by (simp add: claims_bounded_def)
  qed
  then show "claims_bounded m (log @ es)" by (simp add: claims_bounded_def)
  have "\<forall>e\<in>set es. \<not> is_read (fst e)" using assms(2) by (metis is_fetch.simps(1) is_read.elims(2))
  then show "reads (log @ es) = reads log" by (simp add: reads_def)
qed

lemma bounded_snoc: "claims_bounded m (log @ [e]) \<longleftrightarrow> claims_bounded m log \<and> claims_since_read (log @ [e]) \<le> m"
  by (auto simp: claims_bounded_def prefix_snoc)

text \<open>The state of the loop: what was claimed since the last read is what the counter says.\<close>

definition fair_state :: "nat \<Rightarrow> nat \<Rightarrow> ('f, 'a) redis_source \<Rightarrow> bool" where
  "fair_state m k s \<longleftrightarrow> claims_bounded m (rs_log s) \<and> claims_since_read (rs_log s) \<le> rs_consecutive_reclaim_batch_count s \<and>
     rs_consecutive_reclaim_batch_count s \<le> m \<and> k \<le> reads (rs_log s) * Suc m + rs_consecutive_reclaim_batch_count s"

lemma fair_no_fetch: "\<lbrakk>fair_state m k s; no_fetch s s'\<rbrakk> \<Longrightarrow> fair_state m k s'"
  using bounded_append by (fastforce simp: fair_state_def no_fetch_def)

lemma reads_no_fetch: "\<lbrakk>fair_state m k s; no_fetch s s'\<rbrakk> \<Longrightarrow> reads (rs_log s') = reads (rs_log s)"
  using bounded_append(3) by (fastforce simp: fair_state_def no_fetch_def)

lemma fair_after_read:
  assumes "claims_bounded m (rs_log s)" "rs_consecutive_reclaim_batch_count s = 0" "k \<le> reads (rs_log s) * Suc m + m"
    "rs_log s' = rs_log s @ [(XReadGroup i, r)]" "rs_consecutive_reclaim_batch_count s' = 0"
  shows "fair_state m (Suc k) s'"
  using assms by (simp add: fair_state_def bounded_snoc claims_since_read_def reads_def)

lemma read_group_fair:
  assumes "claims_bounded m (rs_log s)" "rs_consecutive_reclaim_batch_count s = 0" "k \<le> reads (rs_log s) * Suc m + m"
    and run: "read_group E cf s = (s', r)"
  shows "claims_bounded m (rs_log s') \<and> (\<forall>x. r = Inr x \<longrightarrow> fair_state m (Suc k) s')"
proof (cases "rs_client s")
  case False
  then have "rs_log s' = rs_log s" "isl r"
    using run by (auto simp: read_group_def Let_def thenE_def bindE_def require_client_def is_cancelled_def isinstance_exn_def
        recover_from_connection_error_def is_retryable_connection_error_def remember_error_def)
  then show ?thesis using assms(1) by auto
next
  case True
  define sid where "sid = (if rs_resume_pending s then (case rs_resume_cursor s of Some c \<Rightarrow> if c = [] then ''>'' else c | None \<Rightarrow> ''>'') else ''>'')"
  obtain s1 z where inner: "send E (XReadGroup sid) (s\<lparr>rs_read_call_count := Suc (rs_read_call_count s)\<rparr>) = (s1, z)"
    by (cases "send E (XReadGroup sid) (s\<lparr>rs_read_call_count := Suc (rs_read_call_count s)\<rparr>)")
  then have "\<exists>rep. rs_log s1 = rs_log s @ [(XReadGroup sid, rep)]" "rs_consecutive_reclaim_batch_count s1 = 0"
    using assms(2) by (auto simp: send_def Let_def)
  then have F: "fair_state m (Suc k) s1" using fair_after_read [OF assms(1-3)] by blast
  have run': "(case z of Inr reply \<Rightarrow> (s1, Inr (Some (case reply of REntries es \<Rightarrow> es | _ \<Rightarrow> [])))
         | Inl e \<Rightarrow>
             if is_cancelled e then thenE (flush_pending_acks E cf) (raiseE e) s1
             else bindE (recover_from_connection_error E cf e) (\<lambda>recovered.
                    if recovered then returnE None else thenE (remember_error e) (raiseE e)) s1) = (s', r)"
    using run True inner
    by (cases z) (simp_all add: read_group_def sid_def [symmetric] thenE_def bindE_def require_client_def)
  have "no_fetch s1 s'"
  proof (cases z)
    case (Inr reply)
    then show ?thesis using run' by (auto simp: no_fetch_def)
  next
    case (Inl e)
    have 1: "preserves no_fetch (thenE (flush_pending_acks E cf) (raiseE e) :: ('a, 'b, (string \<times> 'a redis_message list) list option) source_op)"
      by (intro nf.seq flush_no_fetch nf.basic)
    have 2: "preserves no_fetch (bindE (recover_from_connection_error E cf e) (\<lambda>recovered.
                    if recovered then returnE None else thenE (remember_error e) (raiseE e)) :: ('a, 'b, (string \<times> 'a redis_message list) list option) source_op)"
      by (intro nf.bind nf.recover) (auto intro!: nf.seq nf.basic nf.remember)
    show ?thesis using run' Inl preservesD [OF 1] preservesD [OF 2] by (simp split: if_splits)
  qed
  then have "fair_state m (Suc k) s'" using fair_no_fetch [OF F] by blast
  then show ?thesis by (simp add: fair_state_def)
qed

lemma take_reclaimed_effect:
  "take_reclaimed (c, ms) s = (s', r) \<Longrightarrow> r = Inr ms \<and> rs_log s' = rs_log s \<and>
     rs_consecutive_reclaim_batch_count s' = (if ms = [] then 0 else Suc (rs_consecutive_reclaim_batch_count s))"
  by (auto simp: take_reclaimed_def no_reclaim_def split: if_splits)

lemma reclaimed_fair:
  assumes F: "fair_state m k s" and limit: "rs_consecutive_reclaim_batch_count s < m \<or> rc_reclaim_idle_ms cf = None \<or> rs_resume_pending s"
    and run: "read_reclaimed_messages E cf s = (s', r)"
  shows "claims_bounded m (rs_log s') \<and> (\<forall>ms. r = Inr ms \<longrightarrow>
      (if ms = [] then rs_consecutive_reclaim_batch_count s' = 0 \<and> reads (rs_log s') = reads (rs_log s) else fair_state m (Suc k) s'))"
proof (cases "\<not> rs_client s \<or> rc_reclaim_idle_ms cf = None \<or> rs_resume_pending s \<or> \<not> rc_has_xautoclaim cf")
  case True
  then show ?thesis using run F by (auto simp: read_reclaimed_messages_def no_reclaim_def fair_state_def split: if_splits)
next
  case False
  then have lim: "rs_consecutive_reclaim_batch_count s < m" using limit by blast
  obtain s1 z where inner: "send E (XAutoClaim (rs_reclaim_cursor s)) s = (s1, z)" by (cases "send E (XAutoClaim (rs_reclaim_cursor s)) s")
  then obtain rep where log: "rs_log s1 = rs_log s @ [(XAutoClaim (rs_reclaim_cursor s), rep)]"
      and rep: "z = (case rep of Inl e \<Rightarrow> Inl (PyExn e) | Inr a \<Rightarrow> Inr a)"
      and c1: "rs_consecutive_reclaim_batch_count s1 = rs_consecutive_reclaim_batch_count s"
    by (auto simp: send_def Let_def)
  have r1: "reads (rs_log s1) = reads (rs_log s)" using log by (simp add: reads_def)
  show ?thesis
  proof (cases z)
    case (Inr reply)
    then have rep': "rep = Inr reply" using rep by (cases rep) auto
    obtain c ms where p: "parse_xautoclaim_response reply = (c, ms)" by (cases "parse_xautoclaim_response reply")
    have T: "r = Inr ms \<and> rs_log s' = rs_log s1 \<and> rs_consecutive_reclaim_batch_count s' = (if ms = [] then 0 else Suc (rs_consecutive_reclaim_batch_count s1))"
      using run inner Inr p False by (intro take_reclaimed_effect [of c]) (auto simp: read_reclaimed_messages_def)
    have cl: "claims_since_read (rs_log s1) = (if ms = [] then claims_since_read (rs_log s) else Suc (claims_since_read (rs_log s)))"
      using log rep' p by (simp add: claims_since_read_def)
    then have "claims_bounded m (rs_log s1)" using F lim log by (auto simp: fair_state_def bounded_snoc)
    then show ?thesis using T F lim cl c1 r1 by (auto simp: fair_state_def)
  next
    case (Inl e)
    then have "\<exists>x. rep = Inl x" using rep by (cases rep) auto
    then have "claims_since_read (rs_log s1) = claims_since_read (rs_log s)" using log by (auto simp: claims_since_read_def)
    then have F1: "fair_state m k s1" using F log c1 r1 by (auto simp: fair_state_def bounded_snoc)
    show ?thesis
    proof (cases "is_cancelled e")
      case True
      then show ?thesis using run inner Inl False F1 by (auto simp: read_reclaimed_messages_def fair_state_def)
    next
      case c: False
      obtain s2 y where rec: "recover_from_connection_error E cf e s1 = (s2, y)" by (cases "recover_from_connection_error E cf e s1")
      note N = preservesD [OF nf.recover rec]
      have F2: "fair_state m k s2" and r2: "reads (rs_log s2) = reads (rs_log s1)"
        using fair_no_fetch [OF F1 N] reads_no_fetch [OF F1 N] by simp_all
      have "(s', r) = (case y of Inl x \<Rightarrow> (s2, Inl x) | Inr recovered \<Rightarrow> if recovered then no_reclaim s2 else (s2, Inl e))"
        using run inner Inl False c rec by (auto simp: read_reclaimed_messages_def bindE_def split: sum.split if_split)
      then show ?thesis using F2 r1 r2 by (auto simp: no_reclaim_def fair_state_def split: sum.splits if_splits)
    qed
  qed
qed

lemma iteration_fair:
  assumes limit: "rc_max_consecutive_reclaim_batches cf = Some m" and F: "fair_state m k s"
    and run: "read_iteration E cf s = (s', r)"
  shows "claims_bounded m (rs_log s') \<and> (r = Inr () \<longrightarrow> fair_state m (Suc k) s')"
proof -
  obtain s1 reclaim where sh: "should_read_reclaimed_messages cf s = (s1, reclaim)" by (cases "should_read_reclaimed_messages cf s")
  have log1: "rs_log s1 = rs_log s" using sh limit by (auto simp: should_read_reclaimed_messages_def split: if_splits)
  have fetched: "claims_bounded m (rs_log s') \<and> (r = Inr () \<longrightarrow> fair_state m (Suc k) s')"
    if "claims_bounded m (rs_log s2)" "rs_consecutive_reclaim_batch_count s2 = 0" "k \<le> reads (rs_log s2) * Suc m + m"
      "read_new E cf s2 = (s', r)" for s2
  proof -
    obtain s3 z where g: "read_group E cf s2 = (s3, z)" by (cases "read_group E cf s2")
    note G = read_group_fair [OF that(1-3) g]
    show ?thesis
    proof (cases z)
      case (Inl e)
      then show ?thesis using that(4) g G by (auto simp: read_new_def bindE_def)
    next
      case (Inr x)
      then have F3: "fair_state m (Suc k) s3" using G by blast
      have "no_fetch s3 s'"
      proof (cases x)
        case None
        then show ?thesis using that(4) g Inr by (auto simp: read_new_def bindE_def no_fetch_def)
      next
        case (Some es)
        show ?thesis
        proof (cases "es = []")
          case True
          then show ?thesis using that(4) g Inr Some by (auto simp: read_new_def bindE_def no_fetch_def)
        next
          case False
          then have "yield_messages E cf (concat (map snd es)) s3 = (s', r)"
            using that(4) g Inr Some by (simp add: read_new_def bindE_def yield_entries_def)
          then show ?thesis by (rule preservesD [OF yield_messages_no_fetch])
        qed
      qed
      then show ?thesis using fair_no_fetch [OF F3] by (auto simp: fair_state_def)
    qed
  qed
  show ?thesis
  proof (cases reclaim)
    case False
    then have "rs_consecutive_reclaim_batch_count s1 = 0" using sh limit by (auto simp: should_read_reclaimed_messages_def split: if_splits)
    moreover have "read_new E cf s1 = (s', r)" using run sh False by (simp add: read_iteration_def)
    ultimately show ?thesis using fetched [of s1] F log1 by (simp add: fair_state_def)
  next
    case True
    then have s1: "s1 = s" "rs_consecutive_reclaim_batch_count s < m \<or> rc_reclaim_idle_ms cf = None \<or> rs_resume_pending s"
      using sh limit by (auto simp: should_read_reclaimed_messages_def split: if_splits)
    obtain s2 z where rr: "read_reclaimed_messages E cf s = (s2, z)" by (cases "read_reclaimed_messages E cf s")
    note RR = reclaimed_fair [OF F s1(2) rr]
    show ?thesis
    proof (cases z)
      case (Inl e)
      then show ?thesis using run sh True s1 rr RR by (auto simp: read_iteration_def bindE_def)
    next
      case (Inr ms)
      show ?thesis
      proof (cases "ms = []")
        case True
        then have "read_new E cf s2 = (s', r)" using run sh \<open>reclaim\<close> s1 rr Inr by (simp add: read_iteration_def bindE_def)
        then show ?thesis using fetched [of s2] RR Inr True F by (simp add: fair_state_def)
      next
        case False
        then have "yield_messages E cf ms s2 = (s', r)" using run sh \<open>reclaim\<close> s1 rr Inr by (simp add: read_iteration_def bindE_def)
        then have "no_fetch s2 s'" by (rule preservesD [OF yield_messages_no_fetch])
        moreover have "fair_state m (Suc k) s2" using RR Inr False by simp
        ultimately show ?thesis using fair_no_fetch by (auto simp: fair_state_def)
      qed
    qed
  qed
qed

lemma loop_fair:
  assumes limit: "rc_max_consecutive_reclaim_batches cf = Some m" and "fair_state m k s" "read_loop E cf n s = (s', r)"
  shows "claims_bounded m (rs_log s') \<and> (r = Inr () \<longrightarrow> fair_state m (k + n) s')"
  using assms(2,3)
proof (induction n arbitrary: k s)
  case 0
  then show ?case by (auto simp: fair_state_def)
next
  case (Suc n)
  obtain s1 z where it: "read_iteration E cf s = (s1, z)" by (cases "read_iteration E cf s")
  note I = iteration_fair [OF limit Suc.prems(1) it]
  show ?case
  proof (cases z)
    case (Inl e)
    then show ?thesis using Suc.prems(2) it I by (auto simp: thenE_def bindE_def)
  next
    case (Inr u)
    then have "read_loop E cf n s1 = (s', r)" using Suc.prems(2) it by (simp add: thenE_def bindE_def)
    then show ?thesis using Suc.IH [of "Suc k" s1] I Inr by simp
  qed
qed

text \<open>
  C21: with a limit on consecutive reclaim batches the source never takes more batches of reclaimed messages in a row
  than the limit without asking for new messages in between, whatever the server answers; and a loop that keeps
  running asks for new messages at least once in every limit and one iterations.
\<close>

theorem reclaim_is_fair:
  assumes "rc_max_consecutive_reclaim_batches cf = Some m" "redis_stream E cf fuel s = (s', r)"
    and "\<forall>e\<in>set (rs_log s). \<not> is_fetch (fst e)" "rs_consecutive_reclaim_batch_count s = 0"
  shows "(\<forall>p. prefix p (rs_log s') \<longrightarrow> claims_since_read p \<le> m) \<and> (r = Inr () \<longrightarrow> fuel div Suc m \<le> reads (rs_log s'))"
proof -
  have "claims_bounded m (rs_log s)" "claims_since_read (rs_log s) = 0"
    using bounded_append [of m "[]" "rs_log s"] assms(3) by (simp_all add: claims_bounded_def claims_since_read_def)
  then have F: "fair_state m 0 s" using assms(4) by (simp add: fair_state_def)
  let ?pre = "thenE (modifyE (\<lambda>s. s\<lparr>rs_record_error_count := 0, rs_record_drop_count := 0\<rparr>)) (thenE require_client (apply_resume_checkpoint E cf))"
  obtain s1 z where pre: "?pre s = (s1, z)" by (cases "?pre s")
  have quiet: "preserves no_fetch ?pre"
    by (intro nf.seq nf.require nf.apply_resume preserves_basic) (auto simp: no_fetch_def)
  have F1: "fair_state m 0 s1" using fair_no_fetch [OF F] preservesD [where m = "?pre" and s = s, OF quiet pre] by blast
  have run: "thenE ?pre (read_loop E cf fuel) s = (s', r)"
    using assms(2) by (simp add: redis_stream_def thenE_def bindE_assoc)
  show ?thesis
  proof (cases z)
    case (Inl e)
    then show ?thesis using run pre F1 by (auto simp: thenE_def bindE_def fair_state_def claims_bounded_def)
  next
    case (Inr u)
    then have "read_loop E cf fuel s1 = (s', r)" using run pre by (simp add: thenE_def bindE_def)
    note L = loop_fair [OF assms(1) F1 this]
    have "fuel div Suc m \<le> reads (rs_log s')" if "r = Inr ()"
    proof -
      have "fuel \<le> reads (rs_log s') * Suc m + m" using L that by (auto simp: fair_state_def)
      then have "fuel div Suc m \<le> (m + reads (rs_log s') * Suc m) div Suc m" by (intro div_le_mono) simp
      also have "\<dots> = reads (rs_log s')" by (subst div_mult_self1) simp_all
      finally show ?thesis .
    qed
    then show ?thesis using L by (simp add: claims_bounded_def)
  qed
qed

text \<open>A limit of one batch, and a server that always has one to reclaim.\<close>

definition fair_env :: "(bool, bool) redis_env" where
  "fair_env = \<lparr>re_reply = (\<lambda>log c. case c of
       XAutoClaim _ \<Rightarrow> Inr (RClaim (Some (RStr ''5-0'')) (Some [(RStr ''1'', True)]))
     | XReadGroup _ \<Rightarrow> Inr (REntries []) | Deliver _ _ \<Rightarrow> Inr (RDelivered True) | _ \<Rightarrow> Inr ROk)\<rparr>"

definition fair_config :: "(bool, bool) redis_source_config" where
  "fair_config = \<lparr>rc_stream = ''s'', rc_group = ''g'', rc_consumer = ''c'', rc_deserializer = Inr,
     rc_ack_on_success = True, rc_ack_batch_size = 2, rc_reclaim_idle_ms = Some 1000, rc_reclaim_batch_size = 10,
     rc_max_consecutive_reclaim_batches = Some 1, rc_log_and_continue = True, rc_max_attempts = 3,
     rc_should_retry = (\<lambda>_ _. False), rc_has_xautoclaim = True, rc_has_xgroup_setid = True, rc_has_xinfo_consumers = True\<rparr>"

lemma reclaim_is_fair_witness:
  "claims_since_read (rs_log (fst (redis_stream fair_env fair_config 2 (redis_source_init\<lparr>rs_client := True\<rparr>)))) \<le> 1 \<and>
   1 \<le> reads (rs_log (fst (redis_stream fair_env fair_config 2 (redis_source_init\<lparr>rs_client := True\<rparr>))))"
proof -
  let ?s = "redis_source_init\<lparr>rs_client := True\<rparr> :: (bool, bool) redis_source"
  obtain s' r where run: "redis_stream fair_env fair_config 2 ?s = (s', r)" by (metis prod.collapse)
  have "snd (redis_stream fair_env fair_config 2 ?s) = Inr ()"
    by (simp add: redis_source_init_def redis_stream_def require_client_def apply_resume_checkpoint_def numeral_2_eq_2
        read_iteration_def should_read_reclaimed_messages_def read_reclaimed_messages_def take_reclaimed_def
        parse_xautoclaim_response_def read_new_def read_group_def yield_message_def take_message_def deliver_record_def
        enqueue_ack_def ack_callback_def finallyE_def send_def thenE_def bindE_def Let_def fair_env_def fair_config_def)
  then have r: "r = Inr ()" using run by simp
  have "(\<forall>p. prefix p (rs_log s') \<longrightarrow> claims_since_read p \<le> 1) \<and> (r = Inr () \<longrightarrow> 2 div Suc 1 \<le> reads (rs_log s'))"
    by (rule reclaim_is_fair [OF _ run]) (simp_all add: fair_config_def redis_source_init_def)
  moreover have "(2::nat) div Suc 1 = 1" by (simp add: numeral_2_eq_2 [symmetric])
  ultimately show ?thesis using run r by auto
qed

end
