(* ===== verification/Redis_Acks.thy ===== *)
theory Redis_Acks
  imports Redis_Frames
begin

text \<open>
  Acknowledgements of the Redis stream source: nothing is acknowledged, or queued to be, that the consumer did not
  confirm or the policy drop, and a run of the loop that does not raise forgets none of them.
\<close>

lemma rejected_Nil [simp]: "rejected cf [] = {}"
  by (simp add: rejected_def)

lemma rejected_Cons: "rejected cf (x # ms) = rejected cf [x] \<union> rejected cf ms"
  by (auto simp: rejected_def)

section \<open>Control calls\<close>

fun is_control :: "('f, 'a) redis_cmd \<Rightarrow> bool" where
  "is_control (XReadGroup _) = False"
| "is_control (XAutoClaim _) = False"
| "is_control (XAck _) = False"
| "is_control (Deliver _ _) = False"
| "is_control _ = True"

text \<open>Nothing an acknowledgement depends on changed.\<close>

definition quiet :: "('f, 'a) redis_source \<Rightarrow> ('f, 'a) redis_source \<Rightarrow> bool" where
  "quiet s s' \<longleftrightarrow> rs_pending_ack_ids s' = rs_pending_ack_ids s \<and>
     (\<exists>es. rs_log s' = rs_log s @ es \<and> (\<forall>e\<in>set es. is_control (fst e)))"

lemma quiet_refl [simp]: "reflp quiet"
  by (auto simp: reflp_def quiet_def)

lemma quiet_trans [simp]: "transp (quiet :: ('f, 'a) redis_source \<Rightarrow> _)"
proof (rule transpI)
  fix a b c :: "('f, 'a) redis_source"
  assume A: "quiet a b" "quiet b c"
  then obtain x y where "rs_log b = rs_log a @ x" "rs_log c = rs_log b @ y" "\<forall>e\<in>set x. is_control (fst e)" "\<forall>e\<in>set y. is_control (fst e)"
    by (auto simp: quiet_def)
  then have "rs_log c = rs_log a @ (x @ y) \<and> (\<forall>e\<in>set (x @ y). is_control (fst e))" by auto
  then show "quiet a c" using A unfolding quiet_def by metis
qed

interpretation q: connection_frame "quiet :: ('f, 'a) redis_source \<Rightarrow> _"
proof
  show "preserves quiet (send E c)" if "c \<in> {BuildClient, CloseClient, XGroupCreate, XInfoConsumers} \<or> c = XGroupSetId m"
    for E :: "('f, 'a) redis_env" and c m
    using that by (auto simp: preserves_def quiet_def send_def Let_def)
qed (auto simp: quiet_def)

lemma received_control [simp]: "is_control (fst e) \<Longrightarrow> received e = []"
  by (cases e; cases "fst e") auto

lemma quiet_ids:
  assumes "quiet s s'"
  shows "ack_ids s' = ack_ids s" "confirmed_ids cf (rs_log s') = confirmed_ids cf (rs_log s)"
    "dropped_ids cf (rs_log s') = dropped_ids cf (rs_log s)" "set (rs_log s) \<subseteq> set (rs_log s')"
proof -
  obtain es where es: "rs_log s' = rs_log s @ es" "\<forall>e\<in>set es. is_control (fst e)" and p: "rs_pending_ack_ids s' = rs_pending_ack_ids s"
    using assms by (auto simp: quiet_def)
  then show "ack_ids s' = ack_ids s" by (fastforce simp: ack_ids_def acked_ids_def)
  show "confirmed_ids cf (rs_log s') = confirmed_ids cf (rs_log s)" using es by (fastforce simp: confirmed_ids_def)
  show "set (rs_log s) \<subseteq> set (rs_log s')" using es by simp
  show "dropped_ids cf (rs_log s') = dropped_ids cf (rs_log s)" using es by (auto simp: dropped_ids_def rejected_def)
qed

lemma quiet_touched: "quiet s s' \<Longrightarrow> touched_ids s' = touched_ids s"
  by (fastforce simp: quiet_def touched_ids_def sent_ids_def)

section \<open>Nothing is acknowledged too early\<close>

text \<open>The log grows, and what is acknowledged or waiting to be is in \<open>A\<close>, was so before, or is due.\<close>

definition ack_step ::
    "('f, 'a) redis_source_config \<Rightarrow> redis_text set \<Rightarrow> ('f, 'a) redis_source \<Rightarrow> ('f, 'a) redis_source \<Rightarrow> bool" where
  "ack_step cf A s s' \<longleftrightarrow> set (rs_log s) \<subseteq> set (rs_log s') \<and> touched_ids s' \<subseteq> A \<union> touched_ids s \<union> due_ids cf s'"

lemma due_mono: "set (rs_log s) \<subseteq> set (rs_log s') \<Longrightarrow> due_ids cf s \<subseteq> due_ids cf s'"
  by (auto simp: due_ids_def confirmed_ids_def dropped_ids_def)

lemma step_refl [simp]: "reflp (ack_step cf A)"
  by (auto simp: reflp_def ack_step_def)

lemma step_trans [simp]: "transp (ack_step cf A)"
  unfolding transp_def ack_step_def using due_mono by blast

lemma quiet_step: "quiet s s' \<Longrightarrow> ack_step cf A s s'"
  using quiet_ids quiet_touched by (fastforce simp: ack_step_def)

lemmas quiet_preserves = preserves_mono [OF _ quiet_step]

lemmas step_basic = preserves_basic(1,2) [OF step_refl]

lemmas step_bind = preserves_bind [OF step_trans]

lemmas step_then = preserves_then [OF step_trans]

lemmas step_catch = catch_preserves [OF step_refl step_trans]

lemma step_self [simp]: "ack_step cf A s s"
  by (auto simp: ack_step_def)

lemma step_subset: "\<lbrakk>ack_step cf A s s'; A \<subseteq> B \<union> touched_ids s \<union> due_ids cf s\<rbrakk> \<Longrightarrow> ack_step cf B s s'"
  unfolding ack_step_def using due_mono by blast

lemma step_pending:
  "preserves (ack_step cf A) (set_pending [])" "set ids \<subseteq> A \<Longrightarrow> preserves (ack_step cf A) (restore_pending ids)"
  "preserves (ack_step cf A) (note_acked n)"
  by (auto simp: preserves_def ack_step_def touched_ids_def set_pending_def restore_pending_def note_acked_def)

lemma step_send: "(\<And>ids. c = XAck ids \<Longrightarrow> set ids \<subseteq> A) \<Longrightarrow> preserves (ack_step cf A) (send E c)"
  by (fastforce simp: preserves_def ack_step_def touched_ids_def sent_ids_def send_def Let_def)

lemma step_ack: "set ids \<subseteq> A \<Longrightarrow> preserves (ack_step cf A) (do_send E (XAck ids))"
  unfolding do_send_def by (intro step_bind step_send step_basic) auto

lemma pending_ack: "set (rs_pending_ack_ids s) \<subseteq> B \<union> touched_ids s \<union> due_ids cf s"
  by (auto simp: touched_ids_def)

lemma flush_again_step: "preserves (ack_step cf A) (flush_again E)"
  unfolding preserves_def
proof
  fix s :: "('a, 'b) redis_source"
  have "preserves (ack_step cf (set ids)) (thenE require_client (thenE (set_pending [])
      (thenE (catchE (do_send E (XAck ids)) (\<lambda>e. thenE (restore_pending ids) (raiseE e))) (returnE (length ids)))))" for ids
    by (intro step_then step_catch quiet_preserves [OF q.require] step_basic step_ack step_pending) auto
  then have "ack_step cf (set (rs_pending_ack_ids s)) s (fst (flush_again E s))"
    unfolding flush_again_def Let_def by (rule preserves_state)
  then show "ack_step cf A s (fst (flush_again E s))" by (rule step_subset [OF _ pending_ack])
qed

lemma flush_step: "preserves (ack_step cf A) (flush_pending_acks E cf)"
  unfolding preserves_def
proof
  fix s :: "('a, 'b) redis_source"
  have "preserves (ack_step cf (set ids)) (bindE (thenE (set_pending [])
          (catchE (thenE (do_send E (XAck ids)) (returnE (length ids)))
             (\<lambda>e. thenE (restore_pending ids)
                  (bindE (recover_from_connection_error E cf e) (\<lambda>recovered. if recovered then flush_again E else raiseE e))))) note_acked)" for ids
    by (intro step_bind step_then step_catch step_basic step_ack step_pending quiet_preserves [OF q.recover])
      (auto intro: flush_again_step step_basic)
  note F = preserves_state [OF this, of "rs_pending_ack_ids s" s]
  have "ack_step cf (set (rs_pending_ack_ids s)) s (fst (flush_pending_acks E cf s))"
    using F by (simp add: flush_pending_acks_def Let_def)
  then show "ack_step cf A s (fst (flush_pending_acks E cf s))" by (rule step_subset [OF _ pending_ack])
qed

lemma enqueue_step: "m \<in> A \<Longrightarrow> preserves (ack_step cf A) (enqueue_ack E cf m)"
proof -
  assume m: "m \<in> A"
  have "preserves (ack_step cf A) (\<lambda>s. if rc_ack_batch_size cf \<le> length (rs_pending_ack_ids s) then flush_pending_acks E cf s else returnE () s)"
    by (simp add: preserves_def preserves_state [OF flush_step])
  then show ?thesis unfolding enqueue_ack_def
    using m by (intro step_then preserves_basic) (auto simp: ack_step_def touched_ids_def)
qed

lemma callback_step: "m \<in> A \<Longrightarrow> preserves (ack_step cf A) (ack_callback E cf m)"
  by (simp add: preserves_def ack_callback_def client_closed_def preserves_state [OF enqueue_step])

lemma enqueue_due: "m \<in> due_ids cf s \<Longrightarrow> ack_step cf {} s (fst (enqueue_ack E cf m s))"
  by (rule step_subset [OF preserves_state [OF enqueue_step [of m "{m}"]]]) auto

lemma callback_due: "m \<in> due_ids cf s \<Longrightarrow> ack_step cf {} s (fst (ack_callback E cf m s))"
  by (rule step_subset [OF preserves_state [OF callback_step [of m "{m}"]]]) auto

lemma step_same: "\<lbrakk>rs_log s' = rs_log s; rs_pending_ack_ids s' = rs_pending_ack_ids s\<rbrakk> \<Longrightarrow> ack_step cf A s s'"
  by (auto simp: ack_step_def touched_ids_def)

lemmas step_next = transpD [OF step_trans]

lemma deliver_step: "ack_step cf {} s (fst (deliver_record E cf m a s))"
proof -
  define s1 where "s1 = s\<lparr>rs_delivery_success_hook := (if rc_ack_on_success cf then Some m else None),
      rs_delivery_context := Some (normalize_message_id m), rs_emitted_record_count := Suc (rs_emitted_record_count s)\<rparr>"
  define run where "run = bindE (send E (Deliver m a)) (\<lambda>reply s.
           if reply = RDelivered True
           then (case rs_delivery_success_hook s of None \<Rightarrow> returnE () s | Some m \<Rightarrow> ack_callback E cf m s)
           else returnE () s)"
  obtain s2 z where snd1: "send E (Deliver m a) s1 = (s2, z)" by (cases "send E (Deliver m a) s1")
  have R1: "ack_step cf {} s s1" by (rule step_same) (simp_all add: s1_def)
  have R2: "ack_step cf {} s1 s2" using preservesD [OF step_send snd1] by blast
  have "ack_step cf {} s2 (fst (run s1))"
  proof (cases "z = Inr (RDelivered True) \<and> rc_ack_on_success cf")
    case True
    then have "m \<in> due_ids cf s2" "rs_delivery_success_hook s2 = Some m"
      using snd1 by (auto simp: send_def Let_def due_ids_def confirmed_ids_def s1_def split: sum.splits)
    then show ?thesis using callback_due snd1 True by (auto simp: run_def bindE_def)
  next
    case False
    then show ?thesis using snd1 by (auto simp: run_def bindE_def send_def Let_def s1_def split: sum.splits)
  qed
  then have "ack_step cf {} s (fst (run s1))" using step_next R1 R2 by blast
  then have "ack_step cf {} s ((fst (run s1))\<lparr>rs_delivery_success_hook := None, rs_delivery_context := None\<rparr>)"
    by (rule step_next) (simp add: step_same)
  then show ?thesis
    by (simp add: deliver_record_def s1_def [symmetric] run_def [symmetric] finallyE_def case_prod_beta)
qed

lemma failed_step:
  assumes "rc_log_and_continue cf \<Longrightarrow> m \<in> due_ids cf s"
  shows "ack_step cf {} s (fst (deserialize_failed E cf b m e s))"
proof -
  have N: "rs_log (note_deserialize_error cf b x e s) = rs_log s" "rs_pending_ack_ids (note_deserialize_error cf b x e s) = rs_pending_ack_ids s" for x
    by (simp_all add: note_deserialize_error_def Let_def)
  show ?thesis
  proof (cases "rc_log_and_continue cf")
    case True
    define s2 where "s2 = (note_deserialize_error cf b (normalize_message_id m) e s)
      \<lparr>rs_record_drop_count := Suc (rs_record_drop_count (note_deserialize_error cf b (normalize_message_id m) e s))\<rparr>"
    have "ack_step cf {} s2 (fst (enqueue_ack E cf m s2))"
      by (rule enqueue_due) (use assms True in \<open>simp add: due_ids_def s2_def N\<close>)
    then have "ack_step cf {} s (fst (enqueue_ack E cf m s2))"
      by (rule step_next [OF step_same, rotated 2]) (simp_all add: s2_def N)
    then show ?thesis using True by (simp add: deserialize_failed_def s2_def)
  next
    case False
    obtain s1 r where fl: "flush_pending_acks E cf (note_deserialize_error cf b (normalize_message_id m) e s) = (s1, r)"
      by (metis prod.collapse)
    have "ack_step cf {} s (note_deserialize_error cf b (normalize_message_id m) e s)" by (simp add: step_same N)
    then have S: "ack_step cf {} s s1" using preservesD [OF flush_step fl] step_next by blast
    obtain s3 cp where cp: "source_checkpoint cf s1 = (s3, cp)" by (metis prod.collapse)
    then have "ack_step cf {} s1 s3"
      by (intro step_same) (auto simp: source_checkpoint_def Let_def split: option.splits prod.splits if_splits)
    with S have "ack_step cf {} s s3" by (rule step_next)
    then show ?thesis using S fl False cp by (cases r) (simp_all add: deserialize_failed_def thenE_def bindE_def)
  qed
qed

lemma yield_message_step:
  assumes "rejected cf [x] \<subseteq> due_ids cf s"
  shows "ack_step cf {} s (fst (yield_message E cf x s))"
proof -
  let ?m = "normalize_message_id (fst x)"
  let ?s = "take_message ?m s"
  have s: "rs_log ?s = rs_log s" "rs_pending_ack_ids ?s = rs_pending_ack_ids s" by (simp_all add: take_message_def)
  have "ack_step cf {} ?s (fst (yield_message E cf x s))"
  proof (cases "rc_deserializer cf (snd x)")
    case (Inl e)
    then have "rc_log_and_continue cf \<Longrightarrow> fst x \<in> rejected cf [x]" by (cases x) (simp add: rejected_def)
    then have "rc_log_and_continue cf \<Longrightarrow> fst x \<in> due_ids cf ?s" using assms s by (auto simp: due_ids_def)
    then show ?thesis using Inl by (simp add: yield_message_def Let_def failed_step)
  next
    case (Inr a)
    then show ?thesis using deliver_step by (simp add: yield_message_def Let_def)
  qed
  then show ?thesis by (rule step_next [OF step_same [OF s]])
qed

lemma yield_messages_step:
  "rejected cf ms \<subseteq> due_ids cf s \<Longrightarrow> ack_step cf {} s (fst (yield_messages E cf ms s))"
proof (induction ms arbitrary: s)
  case Nil
  then show ?case by simp
next
  case (Cons x ms)
  obtain s1 r where y: "yield_message E cf x s = (s1, r)" by (cases "yield_message E cf x s")
  have S: "ack_step cf {} s s1" using yield_message_step [of cf x s E] Cons.prems y by (simp add: rejected_Cons [of cf x ms])
  then have "due_ids cf s \<subseteq> due_ids cf s1" by (intro due_mono) (simp add: ack_step_def)
  then have "ack_step cf {} s1 (fst (yield_messages E cf ms s1))" using Cons by (intro Cons.IH) (auto simp: rejected_Cons [of cf x ms])
  then have "ack_step cf {} s (fst (yield_messages E cf ms s1))" using S step_next by blast
  then show ?case using y S by (cases r) (simp_all add: thenE_def bindE_def)
qed

text \<open>Fetching: what comes back is due when it does not deserialise.\<close>

lemma send_step:
  assumes "send E c s = (s', r)" "\<And>ids. c \<noteq> XAck ids"
  shows "ack_step cf {} s s'" "r = Inr reply \<Longrightarrow> rejected cf (received (c, Inr reply)) \<subseteq> due_ids cf s'"
proof -
  show "ack_step cf {} s s'" using preservesD [OF step_send assms(1)] assms(2) by blast
  show "rejected cf (received (c, Inr reply)) \<subseteq> due_ids cf s'" if "r = Inr reply"
    using assms(1) that by (auto simp: send_def Let_def due_ids_def dropped_ids_def split: sum.splits)
qed

lemma recover_step: "preserves (ack_step cf A) (recover_from_connection_error E cf' e)"
  by (rule quiet_preserves [OF q.recover])

lemma no_reclaim_step: "preserves (ack_step cf A) no_reclaim"
  by (simp add: preserves_def no_reclaim_def step_same)

lemma reclaimed_step:
  assumes run: "read_reclaimed_messages E cf s = (s', r)"
  shows "ack_step cf {} s s' \<and> (\<forall>ms. r = Inr ms \<longrightarrow> rejected cf ms \<subseteq> due_ids cf s')"
proof (cases "\<not> rs_client s \<or> rc_reclaim_idle_ms cf = None \<or> rs_resume_pending s \<or> \<not> rc_has_xautoclaim cf")
  case True
  then show ?thesis using run by (auto simp: read_reclaimed_messages_def no_reclaim_def step_same split: if_splits)
next
  case False
  obtain s1 z where inner: "send E (XAutoClaim (rs_reclaim_cursor s)) s = (s1, z)" by (cases "send E (XAutoClaim (rs_reclaim_cursor s)) s")
  note S = send_step [OF inner]
  show ?thesis
  proof (cases z)
    case (Inr reply)
    obtain c ms where p: "parse_xautoclaim_response reply = (c, ms)" by (cases "parse_xautoclaim_response reply")
    have "take_reclaimed (c, ms) s1 = (s', r)" using run inner Inr p False by (auto simp: read_reclaimed_messages_def)
    then have "r = Inr ms" "rs_log s' = rs_log s1" "rs_pending_ack_ids s' = rs_pending_ack_ids s1"
      by (auto simp: take_reclaimed_def no_reclaim_def split: if_splits)
    moreover have "rejected cf ms \<subseteq> due_ids cf s1" using S(2) Inr p by force
    moreover have "ack_step cf {} s1 s'" using calculation by (simp add: step_same)
    ultimately show ?thesis using step_next [OF S(1)] by (simp add: due_ids_def)
  next
    case (Inl e)
    have R: "preserves (ack_step cf {}) (bindE (recover_from_connection_error E cf e) (\<lambda>recovered. if recovered then no_reclaim else raiseE e))"
      by (intro step_bind recover_step) (auto intro: no_reclaim_step step_basic)
    have "(s', r) = (if is_cancelled e then raiseE e s1 else
        bindE (recover_from_connection_error E cf e) (\<lambda>recovered. if recovered then no_reclaim else raiseE e) s1)"
      using run inner Inl False by (simp add: read_reclaimed_messages_def split: if_splits)
    then have "ack_step cf {} s1 s'" "\<forall>ms. r = Inr ms \<longrightarrow> ms = []"
      using preservesD [OF R] by (auto simp: bindE_def no_reclaim_def split: if_splits prod.splits sum.splits)
    then show ?thesis using step_next [OF S(1)] by auto
  qed
qed

lemma group_step:
  assumes run: "read_group E cf s = (s', r)"
  shows "ack_step cf {} s s' \<and> (\<forall>es. r = Inr (Some es) \<longrightarrow> rejected cf (concat (map snd es)) \<subseteq> due_ids cf s')"
proof -
  define sid where "sid = (if rs_resume_pending s then (case rs_resume_cursor s of Some c \<Rightarrow> if c = [] then ''>'' else c | None \<Rightarrow> ''>'') else ''>'')"
  define get where "get = (thenE require_client
      (thenE (modifyE (\<lambda>s. s\<lparr>rs_read_call_count := Suc (rs_read_call_count s)\<rparr>)) (send E (XReadGroup sid))) :: ('a, 'b, _) source_op)"
  obtain s1 z where inner: "get s = (s1, z)" by (cases "get s")
  have G: "preserves (ack_step cf {}) get"
    unfolding get_def by (intro step_then quiet_preserves [OF q.require] step_send preserves_basic) (auto simp: step_same)
  have S: "ack_step cf {} s s1" using preservesD [OF G inner] .
  show ?thesis
  proof (cases z)
    case (Inr reply)
    let ?es = "case reply of REntries es \<Rightarrow> es | _ \<Rightarrow> []"
    have "send E (XReadGroup sid) (s\<lparr>rs_read_call_count := Suc (rs_read_call_count s)\<rparr>) = (s1, Inr reply)"
      using inner Inr by (auto simp: get_def thenE_def bindE_def require_client_def split: if_splits)
    then have "rejected cf (received (XReadGroup sid, Inr reply)) \<subseteq> due_ids cf s1" using send_step(2) by blast
    then have "rejected cf (concat (map snd ?es)) \<subseteq> due_ids cf s1" by (cases reply) auto
    moreover have "s' = s1 \<and> r = Inr (Some ?es)"
      using run inner Inr by (simp add: read_group_def sid_def [symmetric] get_def [symmetric])
    ultimately show ?thesis using S by simp
  next
    case (Inl e)
    have 1: "preserves (ack_step cf {}) (thenE (flush_pending_acks E cf) (raiseE e) :: ('a, 'b, (string \<times> 'a redis_message list) list option) source_op)"
      by (intro step_then flush_step step_basic)
    have 2: "preserves (ack_step cf {}) (bindE (recover_from_connection_error E cf e) (\<lambda>recovered.
                    if recovered then returnE None else thenE (remember_error e) (raiseE e)) :: ('a, 'b, (string \<times> 'a redis_message list) list option) source_op)"
      by (intro step_bind recover_step) (auto intro!: step_then step_basic quiet_preserves [OF q.remember])
    have R: "(s', r) = (if is_cancelled e then thenE (flush_pending_acks E cf) (raiseE e) s1 else
        bindE (recover_from_connection_error E cf e) (\<lambda>recovered. if recovered then returnE None else thenE (remember_error e) (raiseE e)) s1)"
      using run inner Inl by (simp add: read_group_def sid_def [symmetric] get_def [symmetric])
    then have "ack_step cf {} s1 s'"
      using preservesD [OF 1, of s1 s' r] preservesD [OF 2, of s1 s' r] by (simp split: if_splits)
    moreover have "r \<noteq> Inr (Some es)" for es
      using R by (auto simp: thenE_def bindE_def split: if_splits prod.splits sum.splits)
    ultimately show ?thesis using step_next [OF S] by blast
  qed
qed

lemma read_new_step: "ack_step cf {} s (fst (read_new E cf s))"
proof -
  obtain s1 z where g: "read_group E cf s = (s1, z)" by (cases "read_group E cf s")
  note G = group_step [OF g]
  show ?thesis
  proof (cases z)
    case (Inl e)
    then show ?thesis using g G by (simp add: read_new_def bindE_def)
  next
    case (Inr x)
    have "ack_step cf {} s1 (fst (case x of None \<Rightarrow> returnE () s1 | Some es \<Rightarrow>
        if es = [] then modifyE (\<lambda>s. s\<lparr>rs_resume_pending := False\<rparr>) s1 else yield_entries E cf es s1))"
      using G Inr by (auto simp: step_same yield_entries_def intro!: yield_messages_step split: option.split)
    then show ?thesis using step_next [of cf "{}" s s1] G g Inr by (cases x) (auto simp: read_new_def bindE_def)
  qed
qed

lemma iteration_step: "ack_step cf {} s (fst (read_iteration E cf s))"
proof -
  obtain s1 b where sh: "should_read_reclaimed_messages cf s = (s1, b)" by (cases "should_read_reclaimed_messages cf s")
  then have S1: "ack_step cf {} s s1"
    by (auto simp: should_read_reclaimed_messages_def step_same split: option.splits if_splits)
  obtain s2 z where rd: "(if b then read_reclaimed_messages E cf else returnE []) s1 = (s2, z)" by (metis prod.collapse)
  then have S2: "ack_step cf {} s1 s2" "\<forall>ms. z = Inr ms \<longrightarrow> rejected cf ms \<subseteq> due_ids cf s2"
    using reclaimed_step [of E cf s1 s2 z] by (auto split: if_splits)
  have S: "ack_step cf {} s s2" using step_next S1 S2(1) by blast
  show ?thesis
  proof (cases z)
    case (Inl e)
    then show ?thesis using sh rd S by (simp add: read_iteration_def bindE_def)
  next
    case (Inr ms)
    have "ack_step cf {} s2 (fst ((if ms = [] then read_new E cf else yield_messages E cf ms) s2))"
      using S2(2) Inr by (simp add: read_new_step yield_messages_step)
    then show ?thesis using step_next [OF S] sh rd Inr by (simp add: read_iteration_def bindE_def)
  qed
qed

lemma loop_step: "preserves (ack_step cf {}) (read_loop E cf n)"
proof (induction n)
  case (Suc n)
  have "preserves (ack_step cf {}) (read_iteration E cf)" by (simp add: preserves_def iteration_step)
  then show ?case using Suc by (simp add: step_then)
qed (simp add: preserves_def)

lemma stream_step: "preserves (ack_step cf {}) (redis_stream E cf n)"
  unfolding redis_stream_def
  by (intro step_then loop_step quiet_preserves [OF q.require] quiet_preserves [OF q.apply_resume] preserves_basic)
    (simp add: step_same)

section \<open>Nothing that is due is lost\<close>

definition keeps :: "('f, 'a) redis_source_config \<Rightarrow> ('f, 'a) redis_source \<Rightarrow> ('f, 'a) redis_source \<Rightarrow> bool" where
  "keeps cf s s' \<longleftrightarrow> ack_ids s \<subseteq> ack_ids s' \<and> due_ids cf s' = due_ids cf s"

lemma keeps_same: "\<lbrakk>rs_log s' = rs_log s; rs_pending_ack_ids s' = rs_pending_ack_ids s\<rbrakk> \<Longrightarrow> keeps cf s s'"
  by (simp add: keeps_def ack_ids_def due_ids_def)

lemma keeps_trans: "\<lbrakk>keeps cf a b; keeps cf b c\<rbrakk> \<Longrightarrow> keeps cf a c"
  by (auto simp: keeps_def)

lemma keeps_quiet: "quiet s s' \<Longrightarrow> keeps cf s s'"
  using quiet_ids [of s s'] by (simp add: keeps_def due_ids_def)

lemma due_snoc:
  "rs_log s' = rs_log s @ [e] \<Longrightarrow> due_ids cf s' = due_ids cf s \<union> rejected cf (received e) \<union>
     {i. rc_ack_on_success cf \<and> (\<exists>a. e = (Deliver i a, Inr (RDelivered True)))}"
  by (auto simp: due_ids_def confirmed_ids_def dropped_ids_def)

lemma due_xack: "rs_log s' = rs_log s @ [(XAck ids, r)] \<Longrightarrow> due_ids cf s' = due_ids cf s"
  using due_snoc [of s' s "(XAck ids, r)" cf] by (simp add: rejected_Nil)

lemma ack_ids_mono: "\<lbrakk>set (rs_log s) \<subseteq> set (rs_log s'); rs_pending_ack_ids s' = rs_pending_ack_ids s\<rbrakk> \<Longrightarrow> ack_ids s \<subseteq> ack_ids s'"
  by (auto simp: ack_ids_def acked_ids_def)

text \<open>A call of \<open>XACK\<close> for all that is pending: the identifiers end up acknowledged or, put back, pending.\<close>

lemma xack_keeps:
  assumes "do_send E (XAck (rs_pending_ack_ids s)) (s\<lparr>rs_pending_ack_ids := []\<rparr>) = (s', r)"
  shows "r = Inr u \<Longrightarrow> keeps cf s s'"
    "keeps cf s (s'\<lparr>rs_pending_ack_ids := rs_pending_ack_ids s @ rs_pending_ack_ids s'\<rparr>)"
proof -
  obtain rep where log: "rs_log s' = rs_log s @ [(XAck (rs_pending_ack_ids s), rep)]" and p: "rs_pending_ack_ids s' = []"
      and rep: "\<forall>v. r = Inr v \<longrightarrow> (\<exists>a. rep = Inr a)"
    using assms by (auto simp: do_send_def bindE_def send_def Let_def split: sum.splits)
  have "acked_ids (rs_log s) \<subseteq> acked_ids (rs_log s')" using log by (auto simp: acked_ids_def)
  then show "keeps cf s (s'\<lparr>rs_pending_ack_ids := rs_pending_ack_ids s @ rs_pending_ack_ids s'\<rparr>)"
    using due_xack [OF log] by (auto simp: keeps_def ack_ids_def due_ids_def)
  show "keeps cf s s'" if R: "r = Inr u"
  proof -
    obtain a where "rep = Inr a" using rep R by blast
    then have "(XAck (rs_pending_ack_ids s), Inr a) \<in> set (rs_log s')" using log by simp
    then have "set (rs_pending_ack_ids s) \<subseteq> acked_ids (rs_log s')" by (auto simp: acked_ids_def)
    moreover have "acked_ids (rs_log s) \<subseteq> acked_ids (rs_log s')" using log by (auto simp: acked_ids_def)
    ultimately show ?thesis using due_xack [OF log] by (auto simp: keeps_def ack_ids_def)
  qed
qed

lemma flush_again_keeps: "flush_again E s = (s', Inr n) \<Longrightarrow> keeps cf s s'"
proof -
  assume run: "flush_again E s = (s', Inr n)"
  obtain s1 r where x: "do_send E (XAck (rs_pending_ack_ids s)) (s\<lparr>rs_pending_ack_ids := []\<rparr>) = (s1, r)" by (metis prod.collapse)
  have "r = Inr () \<and> s' = s1"
    using run x by (cases r)
      (auto simp: flush_again_def Let_def thenE_Inr require_client_def set_pending_def restore_pending_def catchE_def tryE_def split: if_splits)
  then show ?thesis using xack_keeps(1) [OF x] by simp
qed

lemma flush_keeps: "flush_pending_acks E cf' s = (s', Inr u) \<Longrightarrow> keeps cf s s'"
proof -
  assume run: "flush_pending_acks E cf' s = (s', Inr u)"
  show ?thesis
  proof (cases "\<not> rs_client s \<or> rs_pending_ack_ids s = []")
    case True
    then show ?thesis using run by (auto simp: flush_pending_acks_def Let_def keeps_same)
  next
    case False
    define ids where "ids = rs_pending_ack_ids s"
    obtain s1 r where x: "do_send E (XAck ids) (s\<lparr>rs_pending_ack_ids := []\<rparr>) = (s1, r)" by (metis prod.collapse)
    note X = xack_keeps [OF x [unfolded ids_def], where cf = cf]
    have note': "keeps cf s2 (fst (note_acked n s2))" for s2 n by (simp add: note_acked_def keeps_same)
    show ?thesis
    proof (cases r)
      case (Inr v)
      then have "s' = fst (note_acked (length ids) s1)"
        using run False x by (auto simp: flush_pending_acks_def Let_def ids_def bindE_def thenE_def set_pending_def catchE_def tryE_def)
      then show ?thesis using X(1) Inr note' keeps_trans by blast
    next
      case (Inl e)
      define s2 where "s2 = s1\<lparr>rs_pending_ack_ids := ids @ rs_pending_ack_ids s1\<rparr>"
      obtain s3 b where rec: "recover_from_connection_error E cf' e s2 = (s3, b)" by (metis prod.collapse)
      have K: "keeps cf s s3"
        using keeps_trans [OF X(2)] keeps_quiet preservesD [OF q.recover rec] by (auto simp: s2_def ids_def)
      obtain n s4 where "b = Inr True" "flush_again E s3 = (s4, Inr n)" "s' = fst (note_acked n s4)"
        using run False x Inl rec
        by (cases b) (auto simp: flush_pending_acks_def Let_def ids_def [symmetric] bindE_Inr thenE_def set_pending_def catchE_def
            tryE_def bindE_def restore_pending_def s2_def [symmetric] split: if_splits prod.splits sum.splits)
      then show ?thesis using keeps_trans K flush_again_keeps note' by blast
    qed
  qed
qed

lemma enqueue_keeps:
  assumes "enqueue_ack E cf' m s = (s', Inr u)"
  shows "keeps cf s s'" "m \<in> ack_ids s'"
proof -
  define s1 where "s1 = s\<lparr>rs_pending_ack_ids := rs_pending_ack_ids s @ [m]\<rparr>"
  have "keeps cf s1 s'"
    using assms flush_keeps [where cf = cf and s = s1]
    by (auto simp: enqueue_ack_def s1_def [symmetric] keeps_same split: if_splits)
  moreover have "keeps cf s s1" "m \<in> ack_ids s1" by (auto simp: keeps_def s1_def ack_ids_def due_ids_def)
  ultimately show "keeps cf s s'" "m \<in> ack_ids s'" using keeps_trans by (auto simp: keeps_def)
qed

text \<open>What is due is acknowledged or about to be, up to the messages \<open>P\<close> the loop still has in hand.\<close>

definition settled :: "('f, 'a) redis_source_config \<Rightarrow> redis_text set \<Rightarrow> ('f, 'a) redis_source \<Rightarrow> bool" where
  "settled cf P s \<longleftrightarrow> due_ids cf s \<subseteq> ack_ids s \<union> P"

lemma settled_keeps: "\<lbrakk>settled cf P s; keeps cf s s'\<rbrakk> \<Longrightarrow> settled cf P s'"
  by (auto simp: settled_def keeps_def)

lemma settled_enqueue: "\<lbrakk>enqueue_ack E cf' m s = (s', Inr u); settled cf (insert m P) s\<rbrakk> \<Longrightarrow> settled cf P s'"
proof -
  assume run: "enqueue_ack E cf' m s = (s', Inr u)" and "settled cf (insert m P) s"
  then show ?thesis using enqueue_keeps(1) [OF run, of cf] enqueue_keeps(2) [OF run] by (auto simp: settled_def keeps_def)
qed

lemma settled_same: "\<lbrakk>settled cf P s; rs_log s' = rs_log s; rs_pending_ack_ids s' = rs_pending_ack_ids s\<rbrakk> \<Longrightarrow> settled cf P s'"
  by (rule settled_keeps [OF _ keeps_same])

lemma deliver_settled:
  assumes run: "deliver_record E cf m a s = (s', Inr u)" and S: "settled cf P s"
  shows "settled cf P s'"
proof -
  define s1 where "s1 = s\<lparr>rs_delivery_success_hook := (if rc_ack_on_success cf then Some m else None),
      rs_delivery_context := Some (normalize_message_id m), rs_emitted_record_count := Suc (rs_emitted_record_count s)\<rparr>"
  obtain s2 z where snd1: "send E (Deliver m a) s1 = (s2, z)" by (cases "send E (Deliver m a) s1")
  then obtain rep where log: "rs_log s2 = rs_log s @ [(Deliver m a, rep)]" and p: "rs_pending_ack_ids s2 = rs_pending_ack_ids s"
      and h: "rs_delivery_success_hook s2 = (if rc_ack_on_success cf then Some m else None)"
      and z: "z = (case rep of Inl e \<Rightarrow> Inl (PyExn e) | Inr x \<Rightarrow> Inr x)"
    by (auto simp: send_def Let_def s1_def)
  have S2: "settled cf (if rep = Inr (RDelivered True) \<and> rc_ack_on_success cf then insert m P else P) s2"
    using S due_snoc [OF log, of cf] ack_ids_mono [OF _ p] log by (auto simp: settled_def rejected_Nil)
  obtain reply where rep: "rep = Inr reply" "z = Inr reply"
    using run snd1 z by (cases rep) (auto simp: deliver_record_def s1_def [symmetric] finallyE_def bindE_def)
  define r3 where "r3 = (if reply = RDelivered True
       then (case rs_delivery_success_hook s2 of None \<Rightarrow> returnE () s2 | Some m \<Rightarrow> ack_callback E cf m s2) else returnE () s2)"
  obtain s3 where r3: "r3 = (s3, Inr ())" and s': "rs_log s' = rs_log s3" "rs_pending_ack_ids s' = rs_pending_ack_ids s3"
    using run snd1 rep by (auto simp: deliver_record_def s1_def [symmetric] finallyE_def bindE_def r3_def [symmetric] split: prod.splits)
  have "settled cf P s3"
  proof (cases "reply = RDelivered True \<and> rc_ack_on_success cf")
    case True
    then have "enqueue_ack E cf m s2 = (s3, Inr ())" using r3 h by (simp add: r3_def ack_callback_def split: if_splits)
    then show ?thesis using settled_enqueue S2 True rep by auto
  next
    case False
    then have "s3 = s2" using r3 h by (auto simp: r3_def split: if_splits)
    then show ?thesis using S2 False rep by auto
  qed
  then show ?thesis using s' by (rule settled_same)
qed

lemma failed_settled:
  assumes run: "deserialize_failed E cf b m e s = (s', Inr u)" and S: "settled cf (insert m P) s"
  shows "settled cf P s'"
proof -
  have lc: "rc_log_and_continue cf"
    using run by (rule contrapos_pp) (auto simp: deserialize_failed_def thenE_def bindE_def split: prod.splits sum.splits)
  define s1 where "s1 = note_deserialize_error cf b (normalize_message_id m) e s"
  have "settled cf (insert m P) (s1\<lparr>rs_record_drop_count := Suc (rs_record_drop_count s1)\<rparr>)"
    using S by (rule settled_same) (simp_all add: s1_def note_deserialize_error_def Let_def)
  moreover have "enqueue_ack E cf m (s1\<lparr>rs_record_drop_count := Suc (rs_record_drop_count s1)\<rparr>) = (s', Inr ())"
    using run lc by (simp add: deserialize_failed_def s1_def)
  ultimately show ?thesis using settled_enqueue by blast
qed

lemma yield_message_settled:
  assumes run: "yield_message E cf x s = (s', Inr u)" and S: "settled cf (rejected cf [x] \<union> P) s"
  shows "settled cf P s'"
proof -
  let ?s = "take_message (normalize_message_id (fst x)) s"
  have S1: "settled cf (rejected cf [x] \<union> P) ?s" using S by (rule settled_same) (simp_all add: take_message_def)
  show ?thesis
  proof (cases "rc_deserializer cf (snd x)")
    case (Inl e)
    have "settled cf (insert (fst x) P) ?s" using S1 by (auto simp: settled_def rejected_def)
    then show ?thesis using run Inl failed_settled by (auto simp: yield_message_def Let_def)
  next
    case (Inr a)
    then have "rejected cf [x] = {}" by (cases x) (auto simp: rejected_def)
    then show ?thesis using S1 run Inr deliver_settled by (auto simp: yield_message_def Let_def)
  qed
qed

lemma yield_messages_settled:
  "\<lbrakk>yield_messages E cf ms s = (s', Inr u); settled cf (rejected cf ms \<union> P) s\<rbrakk> \<Longrightarrow> settled cf P s'"
proof (induction ms arbitrary: s)
  case Nil
  then show ?case by (simp add: rejected_def)
next
  case (Cons x ms)
  from Cons.prems(1) obtain s1 v where y: "yield_message E cf x s = (s1, Inr v)" "yield_messages E cf ms s1 = (s', Inr u)"
    by (auto simp: thenE_Inr)
  have "settled cf (rejected cf [x] \<union> (rejected cf ms \<union> P)) s" using Cons.prems(2) by (simp add: rejected_Cons [of cf x ms] Un_assoc)
  then have "settled cf (rejected cf ms \<union> P) s1" by (rule yield_message_settled [OF y(1)])
  then show ?case by (rule Cons.IH [OF y(2)])
qed

lemma send_settled:
  assumes "send E c s = (s', Inr reply)" "\<And>m a. c \<noteq> Deliver m a" "settled cf P s"
  shows "settled cf (rejected cf (received (c, Inr reply)) \<union> P) s'"
proof -
  have log: "rs_log s' = rs_log s @ [(c, Inr reply)]" and p: "rs_pending_ack_ids s' = rs_pending_ack_ids s"
    using assms(1) by (auto simp: send_def Let_def split: sum.splits)
  show ?thesis
    using assms(2,3) due_snoc [OF log, of cf] ack_ids_mono [OF _ p] log by (auto simp: settled_def)
qed

lemma send_failed_settled:
  assumes "send E c s = (s', Inl e)" "\<not> is_control c \<Longrightarrow> is_fetch c" "settled cf P s"
  shows "settled cf P s'"
proof -
  obtain x where log: "rs_log s' = rs_log s @ [(c, Inl x)]" and p: "rs_pending_ack_ids s' = rs_pending_ack_ids s"
    using assms(1) by (auto simp: send_def Let_def split: sum.splits)
  have "received (c, Inl x :: exn + ('a, 'b) redis_reply) = []" by (cases c) auto
  then show ?thesis
    using assms(3) due_snoc [OF log, of cf] ack_ids_mono [OF _ p] log by (auto simp: settled_def rejected_Nil)
qed

lemma recovered_settled:
  "\<lbrakk>recover_from_connection_error E cf' e s = (s', r); settled cf P s\<rbrakk> \<Longrightarrow> settled cf P s'"
  using preservesD [OF q.recover] by (blast intro: settled_keeps keeps_quiet)

lemma reclaimed_settled:
  assumes run: "read_reclaimed_messages E cf s = (s', Inr ms)" and S: "settled cf P s"
  shows "settled cf (rejected cf ms \<union> P) s'"
proof (cases "\<not> rs_client s \<or> rc_reclaim_idle_ms cf = None \<or> rs_resume_pending s \<or> \<not> rc_has_xautoclaim cf")
  case True
  then have "ms = []" "s' = s\<lparr>rs_consecutive_reclaim_batch_count := 0\<rparr>"
    using run by (auto simp: read_reclaimed_messages_def no_reclaim_def split: if_splits)
  then show ?thesis using settled_same [OF S] by (simp add: rejected_Nil)
next
  case False
  obtain s1 z where inner: "send E (XAutoClaim (rs_reclaim_cursor s)) s = (s1, z)" by (cases "send E (XAutoClaim (rs_reclaim_cursor s)) s")
  show ?thesis
  proof (cases z)
    case (Inr reply)
    obtain c ms' where p: "parse_xautoclaim_response reply = (c, ms')" by (cases "parse_xautoclaim_response reply")
    have "take_reclaimed (c, ms') s1 = (s', Inr ms)" using run inner Inr p False by (auto simp: read_reclaimed_messages_def)
    then have same: "ms' = ms" "rs_log s' = rs_log s1" "rs_pending_ack_ids s' = rs_pending_ack_ids s1"
      by (auto simp: take_reclaimed_def no_reclaim_def split: if_splits)
    have "settled cf (rejected cf ms \<union> P) s1" using send_settled [OF inner [unfolded Inr] _ S] p same(1) by simp
    then show ?thesis using same(2,3) by (rule settled_same)
  next
    case (Inl e)
    have S1: "settled cf P s1" using send_failed_settled [OF inner [unfolded Inl] _ S] by simp
    obtain s2 b where rec: "recover_from_connection_error E cf e s1 = (s2, b)" by (metis prod.collapse)
    have "ms = [] \<and> s' = s2\<lparr>rs_consecutive_reclaim_batch_count := 0\<rparr>"
      using run inner Inl False rec
      by (auto simp: read_reclaimed_messages_def bindE_def no_reclaim_def split: if_splits sum.splits)
    then show ?thesis using settled_same [OF recovered_settled [OF rec S1]] by (simp add: rejected_Nil)
  qed
qed

lemma group_settled:
  assumes run: "read_group E cf s = (s', Inr x)" and S: "settled cf P s"
  shows "settled cf (rejected cf (case x of None \<Rightarrow> [] | Some es \<Rightarrow> concat (map snd es)) \<union> P) s'"
proof (cases "rs_client s")
  case False
  then show ?thesis
    using run by (auto simp: read_group_def Let_def thenE_def bindE_def require_client_def is_cancelled_def isinstance_exn_def
        recover_from_connection_error_def is_retryable_connection_error_def remember_error_def)
next
  case True
  define sid where "sid = (if rs_resume_pending s then (case rs_resume_cursor s of Some c \<Rightarrow> if c = [] then ''>'' else c | None \<Rightarrow> ''>'') else ''>'')"
  define s0 where "s0 = s\<lparr>rs_read_call_count := Suc (rs_read_call_count s)\<rparr>"
  obtain s1 z where inner: "send E (XReadGroup sid) s0 = (s1, z)" by (cases "send E (XReadGroup sid) s0")
  have S0: "settled cf P s0" using S by (rule settled_same) (simp_all add: s0_def)
  have get: "thenE require_client (thenE (modifyE (\<lambda>s. s\<lparr>rs_read_call_count := Suc (rs_read_call_count s)\<rparr>)) (send E (XReadGroup sid))) s = (s1, z)"
    using True inner by (simp add: thenE_def bindE_def require_client_def s0_def)
  show ?thesis
  proof (cases z)
    case (Inr reply)
    let ?es = "case reply of REntries es \<Rightarrow> es | _ \<Rightarrow> []"
    have eq: "s' = s1" "x = Some ?es" using run get Inr by (simp_all add: read_group_def sid_def [symmetric])
    have "received (XReadGroup sid, Inr reply) = concat (map snd ?es)" by (cases reply) auto
    then show ?thesis using send_settled [OF inner [unfolded Inr] _ S0] by (simp add: eq)
  next
    case (Inl e)
    have S1: "settled cf P s1" using send_failed_settled [OF inner [unfolded Inl] _ S0] by simp
    obtain s2 b where rec: "recover_from_connection_error E cf e s1 = (s2, b)" by (metis prod.collapse)
    have "x = None \<and> s' = s2"
      using run get Inl rec
      by (auto simp: read_group_def sid_def [symmetric] bindE_def thenE_def remember_error_def split: if_splits sum.splits prod.splits)
    then show ?thesis using recovered_settled [OF rec S1] by (simp add: rejected_Nil)
  qed
qed

lemma read_new_settled:
  assumes "read_new E cf s = (s', Inr u)" "settled cf P s"
  shows "settled cf P s'"
proof -
  obtain s1 x where g: "read_group E cf s = (s1, Inr x)"
      and r: "(case x of None \<Rightarrow> returnE () | Some es \<Rightarrow> if es = [] then modifyE (\<lambda>s. s\<lparr>rs_resume_pending := False\<rparr>) else yield_entries E cf es) s1 = (s', Inr u)"
    using assms(1) by (auto simp: read_new_def bindE_Inr)
  note S1 = group_settled [OF g assms(2)]
  show ?thesis
  proof (cases x)
    case None
    then show ?thesis using S1 r by (simp add: rejected_Nil)
  next
    case (Some es)
    show ?thesis
    proof (cases "es = []")
      case True
      then have "settled cf P s1" "s' = s1\<lparr>rs_resume_pending := False\<rparr>" using S1 r Some by (simp_all add: rejected_Nil)
      then show ?thesis using settled_same by fastforce
    next
      case False
      then show ?thesis using r S1 Some yield_messages_settled [of E cf "concat (map snd es)" s1 s' u P] by (simp add: yield_entries_def)
    qed
  qed
qed

lemma iteration_settled:
  assumes run: "read_iteration E cf s = (s', Inr u)" and "settled cf P s"
  shows "settled cf P s'"
proof -
  obtain s1 b where sh: "should_read_reclaimed_messages cf s = (s1, b)" by (cases "should_read_reclaimed_messages cf s")
  then have "rs_log s1 = rs_log s" "rs_pending_ack_ids s1 = rs_pending_ack_ids s"
    by (auto simp: should_read_reclaimed_messages_def split: option.splits if_splits)
  with assms(2) have S1: "settled cf P s1" by (rule settled_same)
  obtain s2 ms where rd: "(if b then read_reclaimed_messages E cf else returnE []) s1 = (s2, Inr ms)"
      and next': "(if ms = [] then read_new E cf else yield_messages E cf ms) s2 = (s', Inr u)"
    using run sh by (auto simp: read_iteration_def bindE_Inr)
  have S2: "settled cf (rejected cf ms \<union> P) s2"
    using rd S1 reclaimed_settled [of E cf s1 s2 ms P] by (auto simp: rejected_Nil split: if_splits)
  show ?thesis
    using next' S2 read_new_settled [of E cf s2 s' u P] yield_messages_settled [of E cf ms s2 s' u P]
    by (simp add: rejected_Nil split: if_splits)
qed

lemma loop_settled: "\<lbrakk>read_loop E cf n s = (s', Inr u); settled cf P s\<rbrakk> \<Longrightarrow> settled cf P s'"
proof (induction n arbitrary: s)
  case (Suc n)
  then obtain s1 v where "read_iteration E cf s = (s1, Inr v)" "read_loop E cf n s1 = (s', Inr u)" by (auto simp: thenE_Inr)
  then show ?case using Suc iteration_settled by blast
qed simp

lemma stream_settled:
  assumes run: "redis_stream E cf n s = (s', Inr u)" and S: "settled cf P s"
  shows "settled cf P s'"
proof -
  define s0 where "s0 = s\<lparr>rs_record_error_count := 0, rs_record_drop_count := 0\<rparr>"
  have S0: "settled cf P s0" using S by (rule settled_same) (simp_all add: s0_def)
  obtain s1 s2 where r: "require_client s0 = (s1, Inr ())" "apply_resume_checkpoint E cf s1 = (s2, Inr ())" "read_loop E cf n s2 = (s', Inr u)"
    using run by (auto simp: redis_stream_def thenE_Inr s0_def)
  have "settled cf P s2"
    using preservesD [OF q.require r(1)] preservesD [OF q.apply_resume r(2)] S0 by (blast intro: settled_keeps keeps_quiet)
  then show ?thesis by (rule loop_settled [OF r(3)])
qed

section \<open>The property\<close>

definition opened_source :: "('f, 'a) redis_env \<Rightarrow> ('f, 'a) redis_source" where
  "opened_source E = fst (redis_source_open E redis_source_init)"

lemma opened_quiet: "quiet redis_source_init (opened_source E)"
proof -
  have "preserves quiet (redis_source_open E)"
    unfolding redis_source_open_def by (intro q.seq q.call q.group preserves_basic q.client) auto
  then show ?thesis unfolding opened_source_def by (rule preserves_state)
qed

text \<open>
  C7: after any number of iterations of an opened source, and however they end, every identifier that was ever sent
  in an \<^verbatim>\<open>XACK\<close>, successful or not, or is queued for one belongs to a message the consumer confirmed or the policy
  dropped; and when the loop goes on without an exception each of these messages was acknowledged successfully or
  is queued: batching, failed calls and reconnections lose none.
\<close>

theorem acks_follow_delivery:
  "case redis_stream E cf n (opened_source E) of (s', r) \<Rightarrow>
     touched_ids s' \<subseteq> due_ids cf s' \<and> (r = Inr () \<longrightarrow> due_ids cf s' \<subseteq> ack_ids s')"
proof -
  obtain s' r where run: "redis_stream E cf n (opened_source E) = (s', r)" by (metis prod.collapse)
  have empty: "touched_ids (redis_source_init :: ('a, 'b) redis_source) = {}" "due_ids cf (redis_source_init :: ('a, 'b) redis_source) = {}"
    by (simp_all add: touched_ids_def sent_ids_def due_ids_def confirmed_ids_def dropped_ids_def redis_source_init_def)
  have none: "touched_ids (opened_source E) = {}" "settled cf {} (opened_source E)"
    using keeps_quiet [OF opened_quiet, of cf E] quiet_touched [OF opened_quiet, of E] empty by (auto simp: keeps_def settled_def)
  have "touched_ids s' \<subseteq> due_ids cf s'"
    using preservesD [OF stream_step [of cf E n] run] none by (simp add: ack_step_def)
  moreover have "due_ids cf s' \<subseteq> ack_ids s'" if "r = Inr ()"
    using stream_settled [OF run [unfolded that] none(2)] by (simp add: settled_def)
  ultimately show ?thesis using run by auto
qed

text \<open>Three messages: one confirmed, one that does not deserialise and is dropped, one the consumer did not confirm.\<close>

definition ack_env :: "(bool, bool) redis_env" where
  "ack_env = \<lparr>re_reply = (\<lambda>log c. case c of
       XReadGroup _ \<Rightarrow> Inr (REntries [(''s'', [(RStr ''1'', True), (RStr ''2'', False), (RStr ''3'', True)])])
     | Deliver m _ \<Rightarrow> Inr (RDelivered (m = RStr ''1'')) | _ \<Rightarrow> Inr ROk)\<rparr>"

definition ack_config :: "(bool, bool) redis_source_config" where
  "ack_config = \<lparr>rc_stream = ''s'', rc_group = ''g'', rc_consumer = ''c'',
     rc_deserializer = (\<lambda>b. if b then Inr b else Inl (ValueError ''bad'')), rc_ack_on_success = True,
     rc_ack_batch_size = 2, rc_reclaim_idle_ms = None, rc_reclaim_batch_size = 10,
     rc_max_consecutive_reclaim_batches = None, rc_log_and_continue = True, rc_max_attempts = 3,
     rc_should_retry = (\<lambda>_ _. False), rc_has_xautoclaim = True, rc_has_xgroup_setid = True, rc_has_xinfo_consumers = True\<rparr>"

lemmas source_eval = opened_source_def redis_source_open_def redis_source_init_def redis_stream_def require_client_def
  apply_resume_checkpoint_def read_iteration_def should_read_reclaimed_messages_def read_reclaimed_messages_def
  no_reclaim_def read_new_def read_group_def yield_entries_def yield_message_def take_message_def deliver_record_def
  deserialize_failed_def note_deserialize_error_def enqueue_ack_def flush_pending_acks_def ack_callback_def
  set_pending_def note_acked_def ensure_group_def catchE_def tryE_def finallyE_def do_send_def send_def thenE_def
  bindE_def Let_def returnE_def modifyE_def

lemma acks_follow_delivery_witness:
  "touched_ids (fst (redis_stream ack_env ack_config 1 (opened_source ack_env))) \<subseteq>
     due_ids ack_config (fst (redis_stream ack_env ack_config 1 (opened_source ack_env))) \<and>
   RStr ''1'' \<in> ack_ids (fst (redis_stream ack_env ack_config 1 (opened_source ack_env)))"
proof -
  define s' where "s' = fst (redis_stream ack_env ack_config 1 (opened_source ack_env))"
  have ok: "snd (redis_stream ack_env ack_config 1 (opened_source ack_env)) = Inr ()"
    and seen: "(Deliver (RStr ''1'') True, Inr (RDelivered True)) \<in> set (rs_log s')"
    unfolding s'_def by (simp_all add: source_eval ack_env_def ack_config_def)
  have "touched_ids s' \<subseteq> due_ids ack_config s'" "due_ids ack_config s' \<subseteq> ack_ids s'"
    using acks_follow_delivery [where E = ack_env and cf = ack_config and n = 1] ok by (simp_all add: s'_def case_prod_beta)
  moreover have "RStr ''1'' \<in> due_ids ack_config s'"
    using seen by (auto simp: due_ids_def confirmed_ids_def ack_config_def)
  ultimately show ?thesis by (auto simp: s'_def)
qed

section \<open>Where the code falls short\<close>

text \<open>With \<^verbatim>\<open>decode_responses=False\<close> the cursor of a claim is \<^verbatim>\<open>bytes\<close> and the scan starts over each time.\<close>

lemma bytes_cursor_restarts:
  "fst (parse_xautoclaim_response (RClaim (Some (RBytes c)) messages)) = ''0-0''"
  by (simp add: parse_xautoclaim_response_def)

text \<open>A server that is gone when the source is closed with an acknowledgement pending.\<close>

definition gone_env :: "(bool, bool) redis_env" where
  "gone_env = \<lparr>re_reply = (\<lambda>log c. Inl (Exn ''ConnectionError'' [''redis.exceptions.ConnectionError'', ''Exception''] ''gone''))\<rparr>"

lemma close_after_failed_reconnect:
  "snd (redis_source_close gone_env ack_config (redis_source_init\<lparr>rs_client := True, rs_pending_ack_ids := [RStr ''1'']\<rparr>)) =
     Inl (PyExn (Exn ''AttributeError'' [''Exception''] ''object has no attribute aclose''))"
  by (simp add: redis_source_close_def flush_pending_acks_def recover_from_connection_error_def reconnect_client_def
      reconnect_loop.simps reconnect_once_def remember_error_def set_pending_def restore_pending_def
      is_retryable_connection_error_def is_cancelled_def isinstance_exn_def policy_retries_def catchE_def tryE_def
      do_send_def send_def thenE_def bindE_def Let_def redis_source_init_def gone_env_def ack_config_def)

end
