(* ===== verification/Redis_DLQ.thy ===== *)
theory Redis_DLQ
  imports DLQ_Records
begin

text \<open>
  The dead-letter queue kept in Redis: \<^verbatim>\<open>redis/_dlq_keyspace.py\<close> (names of records and indexes),
  \<^verbatim>\<open>redis/_dlq_payloads.py\<close> (records as hashes), \<^verbatim>\<open>redis/dlq.py\<close> (the Lua scripts and construction),
  \<^verbatim>\<open>redis/_dlq_runtime.py\<close>, \<^verbatim>\<open>redis/_dlq_sink_surface.py\<close> and \<^verbatim>\<open>redis/_dlq_source_surface.py\<close> (operations).

  A record is a hash; its key is in an index list of all records and in three lists for its pipeline, its stage
  and both.  Redis is a parameter (\<open>dlq_server\<close>): its commands over a server state of any type, and what may happen
  to a call.  A script or a transaction runs without interruption; the commands of a pipeline without transaction
  are sent one by one.
\<close>

section \<open>Keyspace\<close>

text \<open>\<^verbatim>\<open>urllib.parse.quote(value, safe="")\<close> on the UTF-8 bytes of the text.\<close>

definition unreserved :: "char \<Rightarrow> bool" where
  "unreserved c \<longleftrightarrow> is_digit c \<or> (CHR ''A'' \<le> c \<and> c \<le> CHR ''Z'') \<or> (CHR ''a'' \<le> c \<and> c \<le> CHR ''z'') \<or>
     c = CHR ''_'' \<or> c = CHR ''.'' \<or> c = CHR ''-'' \<or> c = CHR ''~''"

definition hex_digit :: "nat \<Rightarrow> char" where
  "hex_digit n = char_of (if n < 10 then 48 + n else 55 + n)"

definition quote_char :: "char \<Rightarrow> string" where
  "quote_char c = (if unreserved c then [c] else [CHR ''%'', hex_digit (of_char c div 16), hex_digit (of_char c mod 16)])"

definition index_part :: "string \<Rightarrow> string" where
  "index_part v = concat (map quote_char v)"

record dlq_keyspace =
  ks_key_prefix :: string
  ks_storage_key_prefix :: string

definition has_redis_hash_tag :: "string \<Rightarrow> bool" where
  "has_redis_hash_tag v =
     (case dropWhile (\<lambda>c. c \<noteq> CHR ''{'') v of
        [] \<Rightarrow> False
      | _ # rest \<Rightarrow> CHR ''}'' \<in> set rest \<and> hd rest \<noteq> CHR ''}'')"

definition cluster_storage_prefix :: "string \<Rightarrow> bool \<Rightarrow> string" where
  "cluster_storage_prefix key_prefix redis_cluster =
     (if \<not> redis_cluster \<or> has_redis_hash_tag key_prefix then key_prefix
      else key_prefix @ '':{'' @ key_prefix @ ''}'')"

text \<open>The keyspace the constructors make; colons at the end of the prefix are dropped.\<close>

definition dlq_keyspace_init :: "string \<Rightarrow> bool \<Rightarrow> dlq_keyspace" where
  "dlq_keyspace_init key_prefix redis_cluster =
     (let kp = rev (dropWhile (\<lambda>c. c = CHR '':'') (rev key_prefix))
      in \<lparr>ks_key_prefix = kp, ks_storage_key_prefix = cluster_storage_prefix kp redis_cluster\<rparr>)"

definition index_key :: "string \<Rightarrow> string" where
  "index_key kp = kp @ '':__index__''"

definition pipeline_index_key :: "string \<Rightarrow> string \<Rightarrow> string" where
  "pipeline_index_key kp pipeline_id = kp @ '':__index__:pipeline:'' @ index_part pipeline_id"

definition stage_index_key :: "string \<Rightarrow> string \<Rightarrow> string" where
  "stage_index_key kp stage = kp @ '':__index__:stage:'' @ index_part stage"

definition pipeline_stage_index_key :: "string \<Rightarrow> string \<Rightarrow> string \<Rightarrow> string" where
  "pipeline_stage_index_key kp pipeline_id stage =
     kp @ '':__index__:pipeline_stage:'' @ index_part pipeline_id @ '':'' @ index_part stage"

definition ordered_secondary_index_keys :: "string \<Rightarrow> dlq_record \<Rightarrow> string list" where
  "ordered_secondary_index_keys kp q =
     [pipeline_index_key kp (q_pipeline_id q), stage_index_key kp (q_stage q),
      pipeline_stage_index_key kp (q_pipeline_id q) (q_stage q)]"

definition secondary_index_keys :: "string \<Rightarrow> dlq_record \<Rightarrow> string set" where
  "secondary_index_keys kp q = set (ordered_secondary_index_keys kp q)"

abbreviation PIPELINE_FIELD :: string where "PIPELINE_FIELD \<equiv> ''__pipeline_index_key''"
abbreviation STAGE_FIELD :: string where "STAGE_FIELD \<equiv> ''__stage_index_key''"
abbreviation PIPELINE_STAGE_FIELD :: string where "PIPELINE_STAGE_FIELD \<equiv> ''__pipeline_stage_index_key''"

definition secondary_index_keys_from_payload :: "string \<Rightarrow> (string, string) dict \<Rightarrow> string set" where
  "secondary_index_keys_from_payload kp payload =
     (let explicit = set (map (\<lambda>f. dict_getd payload f []) [PIPELINE_FIELD, STAGE_FIELD, PIPELINE_STAGE_FIELD]) - {[]}
      in if explicit \<noteq> {} then explicit
         else let pipeline_id = dict_getd payload ''pipeline_id'' []; stage = dict_getd payload ''stage'' []
              in if pipeline_id = [] \<or> stage = [] then {}
                 else {pipeline_index_key kp pipeline_id, stage_index_key kp stage,
                       pipeline_stage_index_key kp pipeline_id stage})"

definition index_prefix_for_record_key :: "dlq_keyspace \<Rightarrow> string \<Rightarrow> string" where
  "index_prefix_for_record_key ks record_key =
     (if prefix (ks_storage_key_prefix ks @ '':'') record_key then ks_storage_key_prefix ks else ks_key_prefix ks)"

definition record_key :: "dlq_keyspace \<Rightarrow> string \<Rightarrow> dlq_record \<Rightarrow> string" where
  "record_key ks uuid q =
     (case q_storage_id q of
        Some (c # s) \<Rightarrow> c # s
      | _ \<Rightarrow> ks_storage_key_prefix ks @ '':'' @ default_storage_key uuid q)"

definition existing_record_key :: "dlq_record \<Rightarrow> string result" where
  "existing_record_key q =
     (case q_storage_id q of
        Some (c # s) \<Rightarrow> Inr (c # s)
      | _ \<Rightarrow> Inl (ValueError ''RedisDLQSink replay/acknowledge requires a persisted storage key.''))"

definition preferred_index_key :: "string \<Rightarrow> string option \<Rightarrow> string option \<Rightarrow> string" where
  "preferred_index_key kp pipeline_id stage =
     (case (pipeline_id, stage) of
        (Some p, Some s) \<Rightarrow> pipeline_stage_index_key kp p s
      | (Some p, None) \<Rightarrow> pipeline_index_key kp p
      | (None, Some s) \<Rightarrow> stage_index_key kp s
      | (None, None) \<Rightarrow> index_key kp)"

section \<open>Records as hashes\<close>

text \<open>
  \<open>hc_dumps\<close> and \<open>hc_loads\<close> are the JSON text of a value and its reading; a datetime is its ISO text, and
  \<open>hc_ensure_utc\<close> adds the UTC offset to one that has none.
\<close>

record hash_codec = dlq_codec +
  hc_dumps :: "pyval \<Rightarrow> string"
  hc_loads :: "string \<Rightarrow> pyval option"
  hc_ensure_utc :: "string \<Rightarrow> string"

abbreviation base_codec :: "hash_codec \<Rightarrow> dlq_codec" where
  "base_codec J \<equiv> dlq_codec.truncate J"

abbreviation cipher_codec :: "hash_codec \<Rightarrow> codec" where
  "cipher_codec J \<equiv> codec.truncate J"

definition blank :: "string option \<Rightarrow> string option" where
  "blank s = Some (case s of None \<Rightarrow> [] | Some t \<Rightarrow> t)"

text \<open>The payload of a record; an absent source, middleware or sink is the empty text.\<close>

definition blanked :: "dlq_record \<Rightarrow> dlq_record" where
  "blanked q = q\<lparr>q_source := blank (q_source q), q_middleware := blank (q_middleware q), q_sink := blank (q_sink q)\<rparr>"

definition hash_payload :: "dlq_record \<Rightarrow> (string, pyval) dict" where
  "hash_payload q = raw_payload (blanked q)"

text \<open>\<^verbatim>\<open>str(payload.get(name) or "")\<close>.\<close>

definition py_truthy :: "pyval \<Rightarrow> bool" where
  "py_truthy v = (case v of PNone \<Rightarrow> False | PBool b \<Rightarrow> b | PInt i \<Rightarrow> i \<noteq> 0 | PFloat m e \<Rightarrow> m \<noteq> 0 | PStr s \<Rightarrow> s \<noteq> []
                  | PList xs \<Rightarrow> xs \<noteq> [] | PDict d \<Rightarrow> d \<noteq> [])"

definition str_or_empty :: "(pyval \<Rightarrow> string) \<Rightarrow> (string, pyval) dict \<Rightarrow> string \<Rightarrow> string" where
  "str_or_empty R d k = (let v = dict_getd d k PNone in if py_truthy v then py_str R v else [])"

definition serialize_value :: "hash_codec \<Rightarrow> pyval \<Rightarrow> string" where
  "serialize_value J v = hc_dumps J v"

definition payload_to_hash :: "hash_codec \<Rightarrow> (string, pyval) dict \<Rightarrow> (string, string) dict result" where
  "payload_to_hash J d =
     (let R = cd_repr J; value = (\<lambda>k. serialize_value J (dict_getd d k PNone)) in
      bindR (payload_str R d ''pipeline_id'') (\<lambda>pipeline_id.
      bindR (payload_str R d ''run_id'') (\<lambda>run_id.
      bindR (payload_str R d ''stage'') (\<lambda>stage.
      bindR (payload_str R d ''error_type'') (\<lambda>error_type.
      bindR (payload_str R d ''error_message'') (\<lambda>error_message.
      bindR (bindR (payload_str R d ''created_at'') (qc_fromisoformat J)) (\<lambda>created_at.
      bindR (py_int (dict_getd d ''attempt'' (PInt 0))) (\<lambda>attempt.
      bindR (payload_optional_int d ''max_attempts'') (\<lambda>max_attempts.
        Inr [(''pipeline_id'', pipeline_id), (''run_id'', run_id), (''stage'', stage), (''error_type'', error_type),
             (''error_message'', error_message), (''record'', value ''record''),
             (''original_record'', value ''original_record''), (''processed_record'', value ''processed_record''),
             (''source'', str_or_empty R d ''source''), (''checkpoint'', value ''checkpoint''),
             (''details'', value ''details''), (''middleware'', str_or_empty R d ''middleware''),
             (''sink'', str_or_empty R d ''sink''), (''created_at'', created_at), (''attempt'', str_of_int attempt),
             (''max_attempts'', case max_attempts of None \<Rightarrow> [] | Some n \<Rightarrow> str_of_int n)])))))))))"

definition record_to_hash :: "hash_codec \<Rightarrow> dlq_policy option \<Rightarrow> dlq_record \<Rightarrow> (string, string) dict result" where
  "record_to_hash J policy q =
     (let payload = (case policy of None \<Rightarrow> hash_payload q
                     | Some p \<Rightarrow> dict_of (policy_apply (cd_repr J) p (PDict (hash_payload q)))) in
      bindR (payload_to_hash J payload) (\<lambda>record_hash.
        case policy of
          None \<Rightarrow> Inr record_hash
        | Some p \<Rightarrow>
            if dp_mode p = ''encrypted''
            then bindR (encrypt_payload (cipher_codec J) p (PDict payload)) (\<lambda>e.
                   Inr (dict_update record_hash
                     [(''record'', serialize_value J (PDict e)), (''original_record'', []), (''processed_record'', []),
                      (''checkpoint'', []), (''details'', [])]))
            else Inr record_hash))"

definition decode_json :: "hash_codec \<Rightarrow> string option \<Rightarrow> pyval" where
  "decode_json J value =
     (case value of
        None \<Rightarrow> PNone
      | Some s \<Rightarrow> if s = [] then PNone else (case hc_loads J s of None \<Rightarrow> PStr s | Some v \<Rightarrow> v))"

definition hash_item :: "(string, string) dict \<Rightarrow> string \<Rightarrow> string result" where
  "hash_item d k = (case dict_get d k of None \<Rightarrow> Inl (KeyError k) | Some v \<Rightarrow> Inr v)"

text \<open>\<^verbatim>\<open>payload.get(name) or None\<close>.\<close>

definition text_or_none :: "(string, string) dict \<Rightarrow> string \<Rightarrow> pyval" where
  "text_or_none d k = (let s = dict_getd d k [] in if s = [] then PNone else PStr s)"

definition int_of_text :: "string \<Rightarrow> int result" where
  "int_of_text s = py_int (PStr s)"

definition hash_to_payload :: "hash_codec \<Rightarrow> (string, string) dict \<Rightarrow> (string, pyval) dict result" where
  "hash_to_payload J d =
     (bindR (hash_item d ''pipeline_id'') (\<lambda>pipeline_id.
      bindR (hash_item d ''run_id'') (\<lambda>run_id.
      bindR (hash_item d ''stage'') (\<lambda>stage.
      bindR (hash_item d ''error_type'') (\<lambda>error_type.
      bindR (hash_item d ''error_message'') (\<lambda>error_message.
      bindR (bindR (hash_item d ''created_at'') (qc_fromisoformat J)) (\<lambda>created_at.
      bindR (let s = dict_getd d ''attempt'' ''0'' in int_of_text (if s = [] then ''0'' else s)) (\<lambda>attempt.
      bindR (let s = dict_getd d ''max_attempts'' [] in if s = [] then Inr None else bindR (int_of_text s) (\<lambda>n. Inr (Some n)))
       (\<lambda>max_attempts.
        Inr [(''pipeline_id'', PStr pipeline_id), (''run_id'', PStr run_id), (''stage'', PStr stage),
             (''error_type'', PStr error_type), (''error_message'', PStr error_message),
             (''record'', decode_json J (dict_get d ''record'')),
             (''original_record'', decode_json J (dict_get d ''original_record'')),
             (''processed_record'', decode_json J (dict_get d ''processed_record'')),
             (''source'', text_or_none d ''source''), (''checkpoint'', decode_json J (dict_get d ''checkpoint'')),
             (''details'', decode_json J (dict_get d ''details'')), (''middleware'', text_or_none d ''middleware''),
             (''sink'', text_or_none d ''sink''), (''created_at'', PStr created_at), (''attempt'', PInt attempt),
             (''max_attempts'', optional_int max_attempts)])))))))))"

text \<open>The creation time of a payload read from a hash is a datetime, which is only given an offset.\<close>

definition datetime_codec :: "hash_codec \<Rightarrow> dlq_codec" where
  "datetime_codec J = (base_codec J)\<lparr>qc_fromisoformat := (\<lambda>t. Inr (hc_ensure_utc J t))\<rparr>"

definition hash_to_record :: "hash_codec \<Rightarrow> dlq_policy option \<Rightarrow> (string, string) dict \<Rightarrow> dlq_record result" where
  "hash_to_record J policy payload =
     (let storage_key = dict_get payload ''storage_key'';
          plain = bindR (bindR (hash_to_payload J payload) (payload_to_record (datetime_codec J)))
                    (\<lambda>q. Inr (q\<lparr>q_storage_id := storage_key\<rparr>)) in
      case decode_json J (dict_get payload ''record'') of
        PDict e \<Rightarrow>
          if dict_get e ''payload_encoding'' = Some (PStr ''encrypted'') then
            (case policy of
               None \<Rightarrow> Inl (ValueError ''Encrypted Redis DLQ payload requires a DLQPayloadPolicy.'')
             | Some p \<Rightarrow>
                 bindR (bindR (decrypt_payload (cipher_codec J) p e) as_dict) (\<lambda>d.
                 bindR (payload_to_record (base_codec J) d) (\<lambda>q. Inr (q\<lparr>q_storage_id := storage_key\<rparr>))))
          else plain
      | _ \<Rightarrow> plain)"


section \<open>The server and the scripts\<close>

text \<open>
  The commands, \<open>LREM\<close> with count 0 and \<open>LRANGE\<close> of the whole list.  \<open>ds_hash\<close> and \<open>ds_list\<close> are no commands: they
  name what the server holds under a key, for the laws its commands obey.
\<close>

record 'r dlq_server =
  ds_hgetall :: "string \<Rightarrow> ('r, (string, string) dict) eff"
  ds_hget :: "string \<Rightarrow> string \<Rightarrow> ('r, string option) eff"
  ds_hset :: "string \<Rightarrow> (string, string) dict \<Rightarrow> ('r, unit) eff"
  ds_exists :: "string \<Rightarrow> ('r, bool) eff"
  ds_rpush :: "string \<Rightarrow> string \<Rightarrow> ('r, unit) eff"
  ds_lrem :: "string \<Rightarrow> string \<Rightarrow> ('r, unit) eff"
  ds_lrange :: "string \<Rightarrow> ('r, string list) eff"
  ds_del :: "string \<Rightarrow> ('r, unit) eff"
  ds_fault :: "'r \<Rightarrow> 'r \<times> call_fault"
  ds_hash :: "'r \<Rightarrow> string \<Rightarrow> (string \<rightharpoonup> string)"
  ds_list :: "'r \<Rightarrow> string \<Rightarrow> string list"

fun each_do :: "('a \<Rightarrow> ('s, 'e, unit) xeff) \<Rightarrow> 'a list \<Rightarrow> ('s, 'e, unit) xeff" where
  "each_do f [] = returnE ()"
| "each_do f (x # xs) = thenE (f x) (each_do f xs)"

text \<open>\<^verbatim>\<open>if index_key and index_key ~= "" and not seen[index_key]\<close>: what a field does not hold is skipped.\<close>

definition names_in_order :: "string option list \<Rightarrow> string list" where
  "names_in_order named =
     rev (remdups (rev (filter (\<lambda>k. k \<noteq> []) (List.map_filter id named))))"

definition DLQ_UPSERT_SCRIPT ::
    "'r dlq_server \<Rightarrow> string \<Rightarrow> string \<Rightarrow> string list \<Rightarrow> (string, string) dict \<Rightarrow> ('r, int) eff" where
  "DLQ_UPSERT_SCRIPT D rkey primary_index_key secondary hash =
     bindE (ds_exists D rkey) (\<lambda>present.
     bindE (ds_hget D rkey PIPELINE_FIELD) (\<lambda>old_pipeline.
     bindE (ds_hget D rkey STAGE_FIELD) (\<lambda>old_stage.
     bindE (ds_hget D rkey PIPELINE_STAGE_FIELD) (\<lambda>old_pipeline_stage.
     thenE (ds_hset D rkey hash)
       (if \<not> present
        then thenE (ds_rpush D primary_index_key rkey)
             (thenE (each_do (\<lambda>ix. ds_rpush D ix rkey) secondary) (returnE 1))
        else thenE (each_do (\<lambda>ix. ds_lrem D ix rkey)
                     (names_in_order ([old_pipeline, old_stage, old_pipeline_stage] @ map Some secondary)))
             (thenE (each_do (\<lambda>ix. ds_rpush D ix rkey) secondary) (returnE 0)))))))"

definition lrem_if_named :: "'r dlq_server \<Rightarrow> string \<Rightarrow> string \<Rightarrow> ('r, unit) eff" where
  "lrem_if_named D rkey ix = (if ix = [] then returnE () else ds_lrem D ix rkey)"

definition or_key :: "string option \<Rightarrow> string \<Rightarrow> string" where
  "or_key field key = (case field of None \<Rightarrow> key | Some k \<Rightarrow> k)"

definition DLQ_ACKNOWLEDGE_SCRIPT ::
    "'r dlq_server \<Rightarrow> string \<Rightarrow> string \<Rightarrow> string \<times> string \<times> string \<Rightarrow> ('r, int) eff" where
  "DLQ_ACKNOWLEDGE_SCRIPT D rkey primary_index_key secondary =
     (case secondary of (pipeline_ix, stage_ix, pipeline_stage_ix) \<Rightarrow>
     bindE (ds_hget D rkey PIPELINE_FIELD) (\<lambda>p.
     bindE (ds_hget D rkey STAGE_FIELD) (\<lambda>s.
     bindE (ds_hget D rkey PIPELINE_STAGE_FIELD) (\<lambda>ps.
     thenE (ds_del D rkey)
     (thenE (ds_lrem D primary_index_key rkey)
     (thenE (each_do (lrem_if_named D rkey) [or_key p pipeline_ix, or_key s stage_ix, or_key ps pipeline_stage_ix])
            (returnE 1)))))))"

text \<open>As a transaction a pipeline is one call, otherwise each command is sent by itself.\<close>

definition run_pipeline :: "'r dlq_server \<Rightarrow> bool \<Rightarrow> ('r, unit) eff list \<Rightarrow> ('r, unit) eff" where
  "run_pipeline D transaction commands =
     (if transaction then faulty_call (ds_fault D) (run_commands commands)
      else run_commands (map (faulty_call (ds_fault D)) commands))"

section \<open>The sink\<close>

record redis_dlq_config =
  rq_keyspace :: dlq_keyspace
  rq_redis_cluster :: bool
  rq_payload_policy :: "dlq_policy option"
  rq_uuid :: "nat \<Rightarrow> string"
  rq_now :: "nat \<Rightarrow> string"
  rq_set_order :: "string set \<Rightarrow> string list" \<comment> \<open>the order in which a Python set is iterated\<close>

record 'r redis_dlq_sink =
  rk_client :: bool
  rk_upsert_script :: bool
  rk_acknowledge_script :: bool
  rk_write_call_count :: nat
  rk_write_batch_call_count :: nat
  rk_inserted_record_count :: nat
  rk_upserted_record_count :: nat
  rk_updated_record_count :: nat
  rk_replay_count :: nat
  rk_replayed_record_count :: nat
  rk_acknowledge_count :: nat
  rk_acknowledged_record_count :: nat
  rk_last_write_at :: "string option"
  rk_last_replay_at :: "string option"
  rk_last_acknowledge_at :: "string option"
  rk_uuids :: nat
  rk_clock :: nat
  rk_server :: 'r

definition redis_dlq_sink_init :: "'r \<Rightarrow> 'r redis_dlq_sink" where
  "redis_dlq_sink_init r =
     \<lparr>rk_client = False, rk_upsert_script = False, rk_acknowledge_script = False, rk_write_call_count = 0,
      rk_write_batch_call_count = 0, rk_inserted_record_count = 0, rk_upserted_record_count = 0,
      rk_updated_record_count = 0, rk_replay_count = 0, rk_replayed_record_count = 0, rk_acknowledge_count = 0,
      rk_acknowledged_record_count = 0, rk_last_write_at = None, rk_last_replay_at = None,
      rk_last_acknowledge_at = None, rk_uuids = 0, rk_clock = 0, rk_server = r\<rparr>"

type_synonym ('r, 'a) dlq_op = "('r redis_dlq_sink, 'a) eff"

definition on_server :: "('r, 'a) eff \<Rightarrow> ('r, 'a) dlq_op" where
  "on_server m w = (case m (rk_server w) of (r, x) \<Rightarrow> (w\<lparr>rk_server := r\<rparr>, x))"

definition send :: "'r dlq_server \<Rightarrow> ('r, 'a) eff \<Rightarrow> ('r, 'a) dlq_op" where
  "send D m = on_server (faulty_call (ds_fault D) m)"

text \<open>Opening registers the scripts; building the client does not talk to the server.\<close>

definition dlq_sink_open :: "('r, unit) dlq_op" where
  "dlq_sink_open = modifyE (\<lambda>w. w\<lparr>rk_client := True, rk_upsert_script := True, rk_acknowledge_script := True\<rparr>)"

definition dlq_sink_close :: "('r, unit) dlq_op" where
  "dlq_sink_close = modifyE (\<lambda>w. w\<lparr>rk_client := False\<rparr>)"

definition require_client :: "('r, unit) dlq_op" where
  "require_client w =
     (if rk_client w then (w, Inr ()) else (w, Inl (RuntimeError ''RedisDLQSink.open() was not called'')))"

definition index_metadata :: "string \<Rightarrow> dlq_record \<Rightarrow> (string, string) dict" where
  "index_metadata kp q =
     [(PIPELINE_FIELD, pipeline_index_key kp (q_pipeline_id q)), (STAGE_FIELD, stage_index_key kp (q_stage q)),
      (PIPELINE_STAGE_FIELD, pipeline_stage_index_key kp (q_pipeline_id q) (q_stage q))]"

definition record_hash ::
    "hash_codec \<Rightarrow> redis_dlq_config \<Rightarrow> dlq_record \<Rightarrow> string \<Rightarrow> string \<Rightarrow> (string, string) dict result" where
  "record_hash J cf q rkey kp =
     bindR (record_to_hash J (rq_payload_policy cf) q) (\<lambda>payload.
       Inr (dict_update (dict_set ''storage_key'' rkey payload) (index_metadata kp q)))"

definition lift_pure :: "'a result \<Rightarrow> ('s, 'a) eff" where
  "lift_pure x s = (s, x)"

text \<open>The write without the script: the record is read first, then all changes go into one pipeline.\<close>

definition pipeline_write ::
    "'r dlq_server \<Rightarrow> redis_dlq_config \<Rightarrow> string \<Rightarrow> dlq_record \<Rightarrow> string \<Rightarrow> (string, string) dict \<Rightarrow> ('r, bool) dlq_op" where
  "pipeline_write D cf kp q rkey payload =
     bindE (send D (ds_hgetall D rkey)) (\<lambda>existing.
       let ks = secondary_index_keys kp q;
           push = (\<lambda>ix. ds_rpush D ix rkey); drop_from = (\<lambda>ix. ds_lrem D ix rkey);
           commands = (if existing = []
             then push (index_key kp) # map push (rq_set_order cf ks)
             else map drop_from (rq_set_order cf
                    (secondary_index_keys_from_payload (ks_storage_key_prefix (rq_keyspace cf)) existing - ks)) @
                  concat (map (\<lambda>ix. [drop_from ix, push ix]) (rq_set_order cf ks)))
       in thenE (on_server (run_pipeline D (\<not> rq_redis_cluster cf) (ds_hset D rkey payload # commands)))
                (returnE (existing = [])))"

definition write_record ::
    "'r dlq_server \<Rightarrow> hash_codec \<Rightarrow> redis_dlq_config \<Rightarrow> dlq_record \<Rightarrow> string \<Rightarrow> ('r, bool) dlq_op" where
  "write_record D J cf q rkey =
     (let kp = index_prefix_for_record_key (rq_keyspace cf) rkey; storage = ks_storage_key_prefix (rq_keyspace cf) in
      bindE (lift_pure (record_hash J cf q rkey kp)) (\<lambda>payload w.
        if rk_upsert_script w \<and> kp = storage
        then bindE (send D (DLQ_UPSERT_SCRIPT D rkey (index_key storage) (ordered_secondary_index_keys storage q) payload))
               (\<lambda>inserted. returnE (inserted = 1)) w
        else pipeline_write D cf kp q rkey payload w))"

definition acknowledge_record ::
    "'r dlq_server \<Rightarrow> redis_dlq_config \<Rightarrow> dlq_record \<Rightarrow> string \<Rightarrow> ('r, unit) dlq_op" where
  "acknowledge_record D cf q rkey =
     (let kp = index_prefix_for_record_key (rq_keyspace cf) rkey; storage = ks_storage_key_prefix (rq_keyspace cf) in
      bindE (send D (ds_hgetall D rkey)) (\<lambda>existing w.
        if rk_acknowledge_script w \<and> kp = storage \<and>
           (\<not> rq_redis_cluster cf \<or> dict_getd existing PIPELINE_FIELD [] \<noteq> [])
        then thenE (send D (DLQ_ACKNOWLEDGE_SCRIPT D rkey (index_key storage)
                      (pipeline_index_key storage (q_pipeline_id q), stage_index_key storage (q_stage q),
                       pipeline_stage_index_key storage (q_pipeline_id q) (q_stage q))))
               (returnE ()) w
        else let ks = (if existing \<noteq> [] then secondary_index_keys_from_payload kp existing
                       else secondary_index_keys kp q)
             in on_server (run_pipeline D (\<not> rq_redis_cluster cf)
                  (ds_del D rkey # ds_lrem D (index_key kp) rkey # map (\<lambda>ix. ds_lrem D ix rkey) (rq_set_order cf ks))) w))"

text \<open>The key of a record, drawing a UUID when it has none.\<close>

definition key_of :: "redis_dlq_config \<Rightarrow> dlq_record \<Rightarrow> ('r, string) dlq_op" where
  "key_of cf q w =
     (let rkey = record_key (rq_keyspace cf) (rq_uuid cf (rk_uuids w)) q
      in (if q_storage_id q = None \<or> q_storage_id q = Some [] then w\<lparr>rk_uuids := Suc (rk_uuids w)\<rparr> else w, Inr rkey))"

definition read_clock :: "redis_dlq_config \<Rightarrow> ('r, string) dlq_op" where
  "read_clock cf w = (w\<lparr>rk_clock := Suc (rk_clock w)\<rparr>, Inr (rq_now cf (rk_clock w)))"

text \<open>\<open>write\<close> gives the record its storage identifier; the record with it is the result.\<close>

definition dlq_write :: "'r dlq_server \<Rightarrow> hash_codec \<Rightarrow> redis_dlq_config \<Rightarrow> dlq_record \<Rightarrow> ('r, dlq_record) dlq_op" where
  "dlq_write D J cf q =
     thenE require_client
     (thenE (modifyE (\<lambda>w. w\<lparr>rk_write_call_count := Suc (rk_write_call_count w)\<rparr>))
     (bindE (key_of cf q) (\<lambda>rkey.
      let q' = q\<lparr>q_storage_id := Some rkey\<rparr> in
      bindE (write_record D J cf q' rkey) (\<lambda>should_index.
      thenE (modifyE (\<lambda>w. w\<lparr>rk_upserted_record_count := Suc (rk_upserted_record_count w),
               rk_inserted_record_count := rk_inserted_record_count w + (if should_index then 1 else 0),
               rk_updated_record_count := rk_updated_record_count w + (if should_index then 0 else 1)\<rparr>))
      (bindE (read_clock cf) (\<lambda>now.
       thenE (modifyE (\<lambda>w. w\<lparr>rk_last_write_at := Some now\<rparr>)) (returnE q')))))))"

fun write_each ::
    "'r dlq_server \<Rightarrow> hash_codec \<Rightarrow> redis_dlq_config \<Rightarrow> dlq_record list \<Rightarrow> ('r, dlq_record list \<times> nat) dlq_op" where
  "write_each D J cf [] = returnE ([], 0)"
| "write_each D J cf (q # qs) =
     bindE (key_of cf q) (\<lambda>rkey.
     let q' = q\<lparr>q_storage_id := Some rkey\<rparr> in
     bindE (write_record D J cf q' rkey) (\<lambda>inserted.
     bindE (write_each D J cf qs) (\<lambda>rest.
       returnE (q' # fst rest, snd rest + (if inserted then 1 else 0)))))"

definition dlq_write_batch ::
    "'r dlq_server \<Rightarrow> hash_codec \<Rightarrow> redis_dlq_config \<Rightarrow> dlq_record list \<Rightarrow> ('r, dlq_record list) dlq_op" where
  "dlq_write_batch D J cf records =
     thenE require_client
       (if records = [] then returnE []
        else thenE (modifyE (\<lambda>w. w\<lparr>rk_write_batch_call_count := Suc (rk_write_batch_call_count w)\<rparr>))
          (bindE (write_each D J cf records) (\<lambda>written.
           thenE (modifyE (\<lambda>w. w\<lparr>rk_inserted_record_count := rk_inserted_record_count w + snd written,
                    rk_updated_record_count := rk_updated_record_count w + (length records - snd written),
                    rk_upserted_record_count := rk_upserted_record_count w + length records\<rparr>))
           (bindE (read_clock cf) (\<lambda>now.
            thenE (modifyE (\<lambda>w. w\<lparr>rk_last_write_at := Some now\<rparr>)) (returnE (fst written)))))))"

text \<open>\<open>replay_record\<close> is the replay of the core package.\<close>

definition dlq_replay ::
    "'r dlq_server \<Rightarrow> redis_dlq_config \<Rightarrow> (dlq_record \<Rightarrow> dlq_record result) \<Rightarrow> dlq_record \<Rightarrow> ('r, dlq_record) dlq_op" where
  "dlq_replay D cf replay_record q =
     thenE require_client
     (bindE (lift_pure (existing_record_key q)) (\<lambda>rkey.
      bindE (lift_pure (replay_record q)) (\<lambda>updated.
      let q' = updated\<lparr>q_storage_id := Some rkey\<rparr> in
      thenE (send D (ds_hset D rkey [(''attempt'', str_of_int (q_attempt q'))]))
      (thenE (modifyE (\<lambda>w. w\<lparr>rk_replay_count := Suc (rk_replay_count w),
                rk_replayed_record_count := Suc (rk_replayed_record_count w)\<rparr>))
      (bindE (read_clock cf) (\<lambda>now.
       thenE (modifyE (\<lambda>w. w\<lparr>rk_last_replay_at := Some now\<rparr>)) (returnE q')))))))"

definition dlq_acknowledge :: "'r dlq_server \<Rightarrow> redis_dlq_config \<Rightarrow> dlq_record \<Rightarrow> ('r, unit) dlq_op" where
  "dlq_acknowledge D cf q =
     thenE require_client
     (bindE (lift_pure (existing_record_key q)) (\<lambda>rkey.
      thenE (acknowledge_record D cf q rkey)
      (thenE (modifyE (\<lambda>w. w\<lparr>rk_acknowledge_count := Suc (rk_acknowledge_count w),
                rk_acknowledged_record_count := Suc (rk_acknowledged_record_count w)\<rparr>))
      (bindE (read_clock cf) (\<lambda>now.
       modifyE (\<lambda>w. w\<lparr>rk_last_acknowledge_at := Some now\<rparr>))))))"

section \<open>The source\<close>

record redis_dlq_source_config =
  rf_keyspace :: dlq_keyspace
  rf_pipeline_id :: "string option"
  rf_stage :: "string option"
  rf_limit :: "int option"
  rf_payload_policy :: "dlq_policy option"
  rf_now :: "nat \<Rightarrow> string"

record 'r redis_dlq_source =
  ro_client :: bool
  ro_scan_count :: nat
  ro_emitted_record_count :: nat
  ro_last_scan_at :: "string option"
  ro_last_record_at :: "string option"
  ro_clock :: nat
  ro_server :: 'r

definition redis_dlq_source_init :: "'r \<Rightarrow> 'r redis_dlq_source" where
  "redis_dlq_source_init r =
     \<lparr>ro_client = False, ro_scan_count = 0, ro_emitted_record_count = 0, ro_last_scan_at = None,
      ro_last_record_at = None, ro_clock = 0, ro_server = r\<rparr>"

type_synonym ('r, 'a) source_op = "('r redis_dlq_source, 'a) eff"

definition ask_server :: "'r dlq_server \<Rightarrow> ('r, 'a) eff \<Rightarrow> ('r, 'a) source_op" where
  "ask_server D m w = (case faulty_call (ds_fault D) m (ro_server w) of (r, x) \<Rightarrow> (w\<lparr>ro_server := r\<rparr>, x))"

definition first_existing :: "'r dlq_server \<Rightarrow> string \<Rightarrow> bool \<Rightarrow> ('r, string) source_op \<Rightarrow> ('r, string) source_op" where
  "first_existing D key asked otherwise =
     (if asked then bindE (ask_server D (ds_exists D key)) (\<lambda>present. if present then returnE key else otherwise)
      else otherwise)"

definition resolve_index_key :: "'r dlq_server \<Rightarrow> redis_dlq_source_config \<Rightarrow> ('r, string) source_op" where
  "resolve_index_key D cf =
     (let ks = rf_keyspace cf;
          preferred = preferred_index_key (ks_storage_key_prefix ks) (rf_pipeline_id cf) (rf_stage cf);
          legacy_preferred = preferred_index_key (ks_key_prefix ks) (rf_pipeline_id cf) (rf_stage cf);
          primary_index = index_key (ks_storage_key_prefix ks);
          legacy_primary = index_key (ks_key_prefix ks)
      in first_existing D preferred True
         (first_existing D legacy_preferred (legacy_preferred \<noteq> preferred)
         (if preferred = primary_index then returnE preferred
          else first_existing D primary_index True
               (first_existing D legacy_primary (legacy_primary \<noteq> primary_index) (returnE primary_index)))))"

definition wanted :: "redis_dlq_source_config \<Rightarrow> dlq_record \<Rightarrow> bool" where
  "wanted cf q \<longleftrightarrow> (case rf_pipeline_id cf of None \<Rightarrow> True | Some p \<Rightarrow> q_pipeline_id q = p) \<and>
                  (case rf_stage cf of None \<Rightarrow> True | Some s \<Rightarrow> q_stage q = s)"

text \<open>The records of a chunk; the second component of the result tells whether the limit was reached.\<close>

fun emit_payloads ::
    "hash_codec \<Rightarrow> redis_dlq_source_config \<Rightarrow> (string, string) dict list \<Rightarrow> dlq_record list
     \<Rightarrow> ('r, dlq_record list \<times> bool) source_op" where
  "emit_payloads J cf [] out = returnE (out, False)"
| "emit_payloads J cf (payload # rest) out =
     (if payload = [] then emit_payloads J cf rest out
      else bindE (lift_pure (hash_to_record J (rf_payload_policy cf) payload)) (\<lambda>q.
        if \<not> wanted cf q then emit_payloads J cf rest out
        else thenE (modifyE (\<lambda>w. w\<lparr>ro_emitted_record_count := Suc (ro_emitted_record_count w), ro_clock := Suc (ro_clock w),
                      ro_last_record_at := Some (rf_now cf (ro_clock w))\<rparr>))
          (if case rf_limit cf of None \<Rightarrow> False | Some n \<Rightarrow> n \<le> int (length (out @ [q]))
           then returnE (out @ [q], True)
           else emit_payloads J cf rest (out @ [q]))))"

text \<open>The hashes of a chunk are fetched in a pipeline without transaction.\<close>

fun fetch_payloads :: "'r dlq_server \<Rightarrow> string list \<Rightarrow> ('r, (string, string) dict list) source_op" where
  "fetch_payloads D [] = returnE []"
| "fetch_payloads D (k # keys) =
     bindE (ask_server D (ds_hgetall D k)) (\<lambda>payload.
     bindE (fetch_payloads D keys) (\<lambda>payloads. returnE (payload # payloads)))"

abbreviation chunk_size :: nat where "chunk_size \<equiv> 100"

function emit_chunks ::
    "'r dlq_server \<Rightarrow> hash_codec \<Rightarrow> redis_dlq_source_config \<Rightarrow> string list \<Rightarrow> dlq_record list \<Rightarrow> ('r, dlq_record list) source_op" where
  "emit_chunks D J cf keys out =
     (if keys = [] then returnE out
      else bindE (fetch_payloads D (take chunk_size keys)) (\<lambda>payloads.
        bindE (emit_payloads J cf payloads out) (\<lambda>res.
          if snd res then returnE (fst res) else emit_chunks D J cf (drop chunk_size keys) (fst res))))"
  by pat_completeness auto
termination
  by (relation "measure (\<lambda>(D, J, cf, keys, out). length keys)") auto

declare emit_chunks.simps [simp del]

text \<open>The generator run to its end.\<close>

definition dlq_iter_records :: "'r dlq_server \<Rightarrow> hash_codec \<Rightarrow> redis_dlq_source_config \<Rightarrow> ('r, dlq_record list) source_op" where
  "dlq_iter_records D J cf w =
     (if \<not> ro_client w then (w, Inl (RuntimeError ''RedisDLQSource.open() was not called''))
      else thenE (modifyE (\<lambda>w. w\<lparr>ro_scan_count := Suc (ro_scan_count w), ro_clock := Suc (ro_clock w),
                     ro_last_scan_at := Some (rf_now cf (ro_clock w))\<rparr>))
           (bindE (resolve_index_key D cf) (\<lambda>ix.
            bindE (ask_server D (ds_lrange D ix)) (\<lambda>keys. emit_chunks D J cf keys []))) w)"

definition dlq_source_open :: "('r, unit) source_op" where
  "dlq_source_open = modifyE (\<lambda>w. w\<lparr>ro_client := True\<rparr>)"

definition dlq_source_close :: "('r, unit) source_op" where
  "dlq_source_close = modifyE (\<lambda>w. w\<lparr>ro_client := False\<rparr>)"

end
