(* ===== verification/Redis_DLQ_Hash.thy ===== *)
theory Redis_DLQ_Hash
  imports Redis_DLQ
begin

text \<open>
  What is read back from the hash of a dead-letter record: the record as the policy stores it, with the attempts of
  later replays, unless its payload is encrypted.
\<close>

section \<open>Integers as text\<close>

lemma is_digit_char_of: "d < 10 \<Longrightarrow> is_digit (char_of (48 + d :: nat))"
  by (auto simp: is_digit_def less_eq_char_def)

lemma digits_snoc: "n \<ge> 10 \<Longrightarrow> digits_of n = digits_of (n div 10) @ [char_of (48 + n mod 10)]"
  by (subst digits_of.simps) simp

lemma digits_small: "n < 10 \<Longrightarrow> digits_of n = [char_of (48 + n)]"
  by (subst digits_of.simps) simp

lemma digits_are_digits: "list_all is_digit (digits_of n)"
proof (induction n rule: digits_of.induct)
  case (1 n)
  then show ?case by (cases "n < 10") (simp_all add: digits_small digits_snoc is_digit_char_of)
qed

lemma digits_not_Nil [simp]: "digits_of n \<noteq> []"
  by (cases "n < 10") (simp_all add: digits_small digits_snoc)

lemma parse_digits_append:
  "list_all is_digit s \<Longrightarrow> parse_digits acc (s @ t) = (case parse_digits acc s of None \<Rightarrow> None | Some m \<Rightarrow> parse_digits m t)"
  by (induction s arbitrary: acc) auto

lemma parse_digits_of [simp]: "parse_digits 0 (digits_of n) = Some n"
proof (induction n rule: digits_of.induct)
  case (1 n)
  have c: "of_char (char_of (48 + d :: nat)) - 48 = d" if "d < 10" for d :: nat
    using that by (simp add: of_char_of)
  show ?case
  proof (cases "n < 10")
    case True
    then show ?thesis by (simp add: digits_small is_digit_char_of c)
  next
    case False
    then show ?thesis using 1
      by (simp add: digits_snoc parse_digits_append digits_are_digits is_digit_char_of c)
  qed
qed

lemma digit_not_space: "is_digit c \<Longrightarrow> \<not> is_space c \<and> c \<noteq> CHR ''-'' \<and> c \<noteq> CHR ''+''"
  by (auto simp: is_digit_def is_space_def less_eq_char_def)

lemma parse_int_str_of_int [simp]: "parse_int (str_of_int i) = Some i"
proof -
  obtain c cs where d: "digits_of (nat \<bar>i\<bar>) = c # cs" by (cases "digits_of (nat \<bar>i\<bar>)") auto
  have c: "is_digit c" using digits_are_digits [of "nat \<bar>i\<bar>"] d by simp
  have l: "is_digit (last (c # cs))"
    using digits_are_digits [of "nat \<bar>i\<bar>"] d by (metis last_in_set list.distinct(1) list_all_iff)
  have strip: "str_strip s = s" if "\<not> is_space (hd s)" "\<not> is_space (last s)" "s \<noteq> []" for s
  proof -
    have "dropWhile is_space s = s" using that by (cases s) auto
    moreover have "dropWhile is_space (rev s) = rev s" using that by (cases s rule: rev_cases) auto
    ultimately show ?thesis by (simp add: str_strip_def)
  qed
  have m: "\<not> is_space (CHR ''-'')" by (simp add: is_space_def less_eq_char_def)
  have p: "parse_digits 0 (c # cs) = Some (nat \<bar>i\<bar>)" using parse_digits_of [of "nat \<bar>i\<bar>"] d by simp
  show ?thesis
  proof (cases "i < 0")
    case True
    then have s: "str_of_int i = CHR ''-'' # c # cs" using d by (simp add: str_of_int_def)
    have "str_strip (str_of_int i) = CHR ''-'' # c # cs"
      unfolding s by (rule strip) (use m l digit_not_space in auto)
    then show ?thesis using True p c by (simp add: parse_int_def)
  next
    case False
    then have s: "str_of_int i = c # cs" using d by (simp add: str_of_int_def)
    have "str_strip (str_of_int i) = c # cs"
      unfolding s by (rule strip) (use c l digit_not_space in auto)
    then show ?thesis using False p c digit_not_space [OF c] by (simp add: parse_int_def)
  qed
qed

lemma str_of_int_not_Nil [simp]: "str_of_int i \<noteq> []"
  by (simp add: str_of_int_def)

section \<open>Reading a hash back\<close>

text \<open>The hash of a payload that no policy has encrypted.\<close>

definition text_of :: "string option \<Rightarrow> string" where
  "text_of s = (case s of None \<Rightarrow> [] | Some t \<Rightarrow> t)"

definition plain_hash :: "hash_codec \<Rightarrow> dlq_record \<Rightarrow> (string, string) dict" where
  "plain_hash J q =
     [(''pipeline_id'', q_pipeline_id q), (''run_id'', q_run_id q), (''stage'', q_stage q), (''error_type'', q_error_type q),
      (''error_message'', q_error_message q), (''record'', hc_dumps J (q_record q)),
      (''original_record'', hc_dumps J (q_original_record q)), (''processed_record'', hc_dumps J (q_processed_record q)),
      (''source'', text_of (q_source q)), (''checkpoint'', hc_dumps J (q_checkpoint q)),
      (''details'', hc_dumps J (q_details q)), (''middleware'', text_of (q_middleware q)), (''sink'', text_of (q_sink q)),
      (''created_at'', q_created_at q), (''attempt'', str_of_int (q_attempt q)),
      (''max_attempts'', case q_max_attempts q of None \<Rightarrow> [] | Some n \<Rightarrow> str_of_int n)]"

lemma wf_base_codec [simp]: "qc_fromisoformat (base_codec J) = qc_fromisoformat J" "cd_repr (base_codec J) = cd_repr J"
  by (simp_all add: dlq_codec.defs)

lemma str_or_empty_optional: "dict_get d k = Some (optional_str s) \<Longrightarrow> str_or_empty R d k = text_of s"
  by (cases s) (auto simp: str_or_empty_def dict_getd_def optional_str_def py_truthy_def text_of_def)

lemma payload_to_hash_raw:
  assumes "wf_record (base_codec J) q"
  shows "payload_to_hash J (raw_payload q) = Inr (plain_hash J q)"
proof -
  have s: "str_or_empty R (raw_payload q) ''source'' = text_of (q_source q)"
    "str_or_empty R (raw_payload q) ''middleware'' = text_of (q_middleware q)"
    "str_or_empty R (raw_payload q) ''sink'' = text_of (q_sink q)" for R
    by (rule str_or_empty_optional, simp add: raw_payload_def)+
  have c: "qc_fromisoformat J (q_created_at q) = Inr (q_created_at q)" using assms by (simp add: wf_record_def)
  show ?thesis
    unfolding payload_to_hash_def Let_def s
    by (cases "q_max_attempts q") (simp_all add: c payload_str_def payload_item_def payload_optional_int_def raw_payload_def
        dict_getd_def optional_int_def plain_hash_def serialize_value_def)
qed

definition some_text :: "string option \<Rightarrow> string option" where
  "some_text s = (if text_of s = [] then None else s)"

definition unblanked :: "dlq_record \<Rightarrow> dlq_record" where
  "unblanked q = q\<lparr>q_source := some_text (q_source q), q_middleware := some_text (q_middleware q), q_sink := some_text (q_sink q)\<rparr>"

definition json_ok :: "hash_codec \<Rightarrow> pyval \<Rightarrow> bool" where
  "json_ok J v \<longleftrightarrow> hc_dumps J v \<noteq> [] \<and> hc_loads J (hc_dumps J v) = Some v"

definition contents :: "dlq_record \<Rightarrow> pyval list" where
  "contents q = [q_record q, q_original_record q, q_processed_record q, q_checkpoint q, q_details q]"

lemma decode_json_ok: "json_ok J v \<Longrightarrow> decode_json J (Some (hc_dumps J v)) = v"
  by (simp add: json_ok_def decode_json_def)

lemma text_or_none_text: "dict_get d k = Some (text_of s) \<Longrightarrow> text_or_none d k = optional_str (some_text s)"
  by (cases s) (auto simp: text_or_none_def dict_getd_def optional_str_def some_text_def text_of_def)

lemma hash_to_payload_plain:
  assumes "wf_record (base_codec J) q" "list_all (json_ok J) (contents q)"
    and d: "\<And>k. k \<in> set (dict_keys (plain_hash J q)) \<Longrightarrow> dict_get d k = dict_get (plain_hash J q) k"
  shows "hash_to_payload J d = Inr (raw_payload (unblanked q))"
proof -
  have c: "qc_fromisoformat J (q_created_at q) = Inr (q_created_at q)" using assms by (simp add: wf_record_def)
  note get = d [of "''pipeline_id''"] d [of "''run_id''"] d [of "''stage''"] d [of "''error_type''"] d [of "''error_message''"]
    d [of "''record''"] d [of "''original_record''"] d [of "''processed_record''"] d [of "''source''"] d [of "''checkpoint''"]
    d [of "''details''"] d [of "''middleware''"] d [of "''sink''"] d [of "''created_at''"] d [of "''attempt''"] d [of "''max_attempts''"]
  note got = get [unfolded plain_hash_def, simplified]
  have t: "text_or_none d ''source'' = optional_str (some_text (q_source q))"
    "text_or_none d ''middleware'' = optional_str (some_text (q_middleware q))"
    "text_or_none d ''sink'' = optional_str (some_text (q_sink q))"
    by (rule text_or_none_text, simp add: got)+
  have m: "(let s = dict_getd d ''max_attempts'' [] in if s = [] then Inr None else bindR (int_of_text s) (\<lambda>n. Inr (Some n))) =
      Inr (q_max_attempts q)"
    by (cases "q_max_attempts q") (simp_all add: dict_getd_def got int_of_text_def)
  have a: "(let s = dict_getd d ''attempt'' ''0'' in int_of_text (if s = [] then ''0'' else s)) = Inr (q_attempt q)"
    by (simp add: dict_getd_def got int_of_text_def)
  show ?thesis
    unfolding hash_to_payload_def t m a
    using assms(2) by (simp add: hash_item_def got c decode_json_ok contents_def raw_payload_def unblanked_def)
qed


lemma hash_to_record_cong:
  assumes "dict_get d = dict_get d'"
  shows "hash_to_record J policy d = hash_to_record J policy d'"
proof -
  have "hash_to_payload J d = hash_to_payload J d'"
    using assms by (simp add: hash_to_payload_def hash_item_def dict_getd_def text_or_none_def)
  then show ?thesis using assms by (simp add: hash_to_record_def)
qed

text \<open>The record a hash is read back as: an encrypted payload keeps the empty texts, any other gives \<^verbatim>\<open>None\<close> for them.\<close>

definition hash_read_back :: "(pyval \<Rightarrow> string) \<Rightarrow> dlq_policy option \<Rightarrow> dlq_record \<Rightarrow> dlq_record" where
  "hash_read_back R policy q =
     (if encrypts policy then sorted_record (blanked q) else unblanked (stored_record R policy (blanked q)))"

definition not_marked_encrypted :: "pyval \<Rightarrow> bool" where
  "not_marked_encrypted v \<longleftrightarrow>
     (case v of PDict e \<Rightarrow> dict_get e ''payload_encoding'' \<noteq> Some (PStr ''encrypted'') | _ \<Rightarrow> True)"

text \<open>What is relied on of the codecs for a record, and of its creation time, which is an aware datetime.\<close>

definition storable :: "hash_codec \<Rightarrow> dlq_policy option \<Rightarrow> dlq_record \<Rightarrow> bool" where
  "storable J policy q \<longleftrightarrow>
     wf_record (base_codec J) q \<and> hc_ensure_utc J (q_created_at q) = q_created_at q \<and> keeps_parsed_fields policy \<and>
     list_all (json_ok J) (contents (stored_record (cd_repr J) policy (blanked q))) \<and>
     (\<not> encrypts policy \<longrightarrow> not_marked_encrypted (q_record (stored_record (cd_repr J) policy (blanked q)))) \<and>
     cipher_inverse (base_codec J) policy {blanked q} \<and>
     (\<forall>p e. policy = Some p \<longrightarrow> encrypt_payload (cipher_codec J) p (PDict (hash_payload q)) = Inr e \<longrightarrow> json_ok J (PDict e))"

lemma codec_of_base [simp]: "codec_of (base_codec J) = cipher_codec J"
  by (simp add: dlq_codec.defs codec.defs)

lemma blanked_fields [simp]:
  "q_created_at (blanked q) = q_created_at q" "q_attempt (blanked q) = q_attempt q"
  "q_max_attempts (blanked q) = q_max_attempts q" "q_record (blanked q) = q_record q"
  by (simp_all add: blanked_def)

lemma stored_payload:
  assumes "keeps_parsed_fields policy"
  shows "(case policy of None \<Rightarrow> hash_payload q | Some p \<Rightarrow> dict_of (policy_apply (cd_repr J) p (PDict (hash_payload q)))) =
    raw_payload (stored_record (cd_repr J) policy (blanked q))"
  using record_to_payload_stored [OF assms, of "cd_repr J" "blanked q"]
  unfolding record_to_payload_def hash_payload_def .

lemma record_to_hash_plain:
  assumes "storable J policy q" "\<not> encrypts policy"
  shows "record_to_hash J policy q = Inr (plain_hash J (stored_record (cd_repr J) policy (blanked q)))"
proof -
  have "wf_record (base_codec J) (stored_record (cd_repr J) policy (blanked q))"
    using assms(1) by (simp add: storable_def wf_record_def)
  then show ?thesis
    using assms unfolding record_to_hash_def Let_def storable_def
    by (subst stored_payload) (auto simp: payload_to_hash_raw encrypts_def split: option.splits)
qed

lemma record_to_hash_encrypted:
  assumes "storable J (Some p) q" "dp_mode p = ''encrypted''" "record_to_hash J (Some p) q = Inr h"
  obtains e where "encrypt_payload (cipher_codec J) p (PDict (raw_payload (blanked q))) = Inr e"
    "dict_get h ''record'' = Some (hc_dumps J (PDict e))" "dict_keys h = dict_keys (plain_hash J q)"
proof -
  have w: "wf_record (base_codec J) (blanked q)" using assms(1) by (simp add: storable_def wf_record_def)
  have "policy_apply (cd_repr J) p (PDict (hash_payload q)) = PDict (raw_payload (blanked q))"
    using assms(2) by (simp add: policy_apply_def hash_payload_def)
  then show thesis
    using assms(2,3) that
    by (auto simp: record_to_hash_def dict_of_def payload_to_hash_raw [OF w] result_simps dict_update_def serialize_value_def
        plain_hash_def)
qed


text \<open>The hash kept for a record whose \<^verbatim>\<open>attempt\<close> field was set to \<open>n\<close> since it was written.\<close>

lemma read_plain_hash:
  assumes "storable J policy q" "\<not> encrypts policy"
    and d: "\<And>k. k \<in> set (dict_keys (plain_hash J q)) \<Longrightarrow>
      dict_get d k = ((map_of (plain_hash J (stored_record (cd_repr J) policy (blanked q))))(''attempt'' \<mapsto> str_of_int n)) k"
  shows "hash_to_record J policy d =
    Inr ((hash_read_back (cd_repr J) policy q)\<lparr>q_attempt := n, q_storage_id := dict_get d ''storage_key''\<rparr>)"
proof -
  let ?q = "(stored_record (cd_repr J) policy (blanked q))\<lparr>q_attempt := n\<rparr>"
  have w: "wf_record (base_codec J) ?q" "wf_record (datetime_codec J) (unblanked ?q)"
    using assms(1) by (simp_all add: storable_def wf_record_def datetime_codec_def unblanked_def)
  have j: "list_all (json_ok J) (contents ?q)" using assms(1) by (simp add: storable_def contents_def)
  have get: "dict_get d k = dict_get (plain_hash J ?q) k" if "k \<in> set (dict_keys (plain_hash J ?q))" for k
    using d [of k] that by (auto simp: plain_hash_def)
  have p: "hash_to_payload J d = Inr (raw_payload (unblanked ?q))" by (rule hash_to_payload_plain [OF w(1) j get])
  have "dict_get d ''record'' = Some (hc_dumps J (q_record ?q))" using get [of "''record''"] by (simp add: plain_hash_def)
  then have r: "decode_json J (dict_get d ''record'') = q_record ?q"
    using j by (simp add: decode_json_ok contents_def)
  have n: "not_marked_encrypted (q_record ?q)" using assms(1,2) by (simp add: storable_def)
  have "hash_to_record J policy d =
      bindR (bindR (hash_to_payload J d) (payload_to_record (datetime_codec J))) (\<lambda>q. Inr (q\<lparr>q_storage_id := dict_get d ''storage_key''\<rparr>))"
    using n unfolding hash_to_record_def Let_def r not_marked_encrypted_def by (cases "q_record ?q") simp_all
  also have "\<dots> = Inr ((unblanked ?q)\<lparr>q_storage_id := dict_get d ''storage_key''\<rparr>)"
    by (simp add: p payload_to_record_raw [OF w(2)])
  finally show ?thesis using assms(2) by (simp add: hash_read_back_def unblanked_def)
qed

lemma read_encrypted_hash:
  assumes "storable J (Some p) q" "dp_mode p = ''encrypted''"
    and e: "encrypt_payload (cipher_codec J) p (PDict (raw_payload (blanked q))) = Inr e"
    and d: "dict_get d ''record'' = Some (hc_dumps J (PDict e))"
  shows "hash_to_record J (Some p) d =
    Inr ((hash_read_back (cd_repr J) (Some p) q)\<lparr>q_storage_id := dict_get d ''storage_key''\<rparr>)"
proof -
  have inv: "cipher_inverse (base_codec J) (Some p) {blanked q}" and w: "wf_record (base_codec J) (blanked q)"
    and j: "json_ok J (PDict e)"
    using assms(1) e by (auto simp: storable_def wf_record_def hash_payload_def)
  note shape = encrypted_payload_shape [where J = "base_codec J" and p = p and q = "blanked q" and e = e and Q = "{blanked q}" and env = "[]",
      unfolded codec_of_base, OF e inv singletonI]
  have up: "dict_get (dict_update [] e) = dict_get e" 
    using e by (auto simp: encrypt_payload_def dict_update_def result_simps split: option.splits if_splits cipher_output.splits)
  obtain s where s: "json_sorted (PDict (raw_payload (blanked q))) = PDict s" by simp
  have dec: "decrypt_payload (cipher_codec J) p e = Inr (PDict s)"
    using shape(1) unfolding s decrypt_payload_def up .
  have "dict_get e ''payload_encoding'' = Some (PStr ''encrypted'')" using shape(2) up by simp
  moreover have "decode_json J (dict_get d ''record'') = PDict e" using d j by (simp add: decode_json_ok)
  ultimately show ?thesis
    using payload_to_record_sorted [OF w s] dec assms(2)
    by (simp add: hash_to_record_def as_dict_def hash_read_back_def encrypts_def)
qed


definition read_after :: "(pyval \<Rightarrow> string) \<Rightarrow> dlq_policy option \<Rightarrow> dlq_record \<Rightarrow> int \<Rightarrow> dlq_record" where
  "read_after R policy q n = (if encrypts policy then hash_read_back R policy q else (hash_read_back R policy q)\<lparr>q_attempt := n\<rparr>)"

definition HASH_FIELDS :: "string list" where
  "HASH_FIELDS = [''pipeline_id'', ''run_id'', ''stage'', ''error_type'', ''error_message'', ''record'', ''original_record'',
     ''processed_record'', ''source'', ''checkpoint'', ''details'', ''middleware'', ''sink'', ''created_at'', ''attempt'',
     ''max_attempts'', ''storage_key'', PIPELINE_FIELD, STAGE_FIELD, PIPELINE_STAGE_FIELD]"

lemma plain_hash_keys: "dict_keys (plain_hash J q) = take 16 HASH_FIELDS"
  by (simp add: plain_hash_def HASH_FIELDS_def)

lemma record_hash_fields:
  assumes "record_hash J cf q k kp = Inr h"
  obtains p where "record_to_hash J (rq_payload_policy cf) q = Inr p"
    "map_of h = (map_of p)(''storage_key'' \<mapsto> k, PIPELINE_FIELD \<mapsto> pipeline_index_key kp (q_pipeline_id q),
       STAGE_FIELD \<mapsto> stage_index_key kp (q_stage q),
       PIPELINE_STAGE_FIELD \<mapsto> pipeline_stage_index_key kp (q_pipeline_id q) (q_stage q))"
  using assms that by (auto simp: record_hash_def result_simps dict_update_def index_metadata_def update_conv')

lemma dom_stored: "dom (map_of p) = set (take 16 HASH_FIELDS) \<Longrightarrow>
    dom ((map_of p)(''storage_key'' \<mapsto> a, PIPELINE_FIELD \<mapsto> b, STAGE_FIELD \<mapsto> c, PIPELINE_STAGE_FIELD \<mapsto> d)) = set HASH_FIELDS"
  by (simp add: HASH_FIELDS_def insert_commute)

lemma read_stored_hash:
  assumes store: "storable J policy q" "record_hash J cf q k kp = Inr h" "rq_payload_policy cf = policy"
    and d: "map_of d = (map_of h)(''attempt'' \<mapsto> str_of_int n)"
  shows "hash_to_record J policy d = Inr ((read_after (cd_repr J) policy q n)\<lparr>q_storage_id := Some k\<rparr>) \<and>
    dom (map_of h) = set HASH_FIELDS"
proof -
  obtain p where p: "record_to_hash J policy q = Inr p"
    and h: "map_of h = (map_of p)(''storage_key'' \<mapsto> k, PIPELINE_FIELD \<mapsto> pipeline_index_key kp (q_pipeline_id q),
       STAGE_FIELD \<mapsto> stage_index_key kp (q_stage q), PIPELINE_STAGE_FIELD \<mapsto> pipeline_stage_index_key kp (q_pipeline_id q) (q_stage q))"
    by (rule record_hash_fields [OF store(2), unfolded store(3)])
  have key: "map_of d ''storage_key'' = Some k" by (simp add: d h)
  have get: "map_of d f = ((map_of p)(''attempt'' \<mapsto> str_of_int n)) f" if "f \<in> set (take 16 HASH_FIELDS)" for f
    using that by (auto simp: d h HASH_FIELDS_def)
  show ?thesis
  proof (cases "encrypts policy")
    case False
    have ph: "p = plain_hash J (stored_record (cd_repr J) policy (blanked q))"
      using record_to_hash_plain [OF store(1) False] p by simp
    have "hash_to_record J policy d =
        Inr ((hash_read_back (cd_repr J) policy q)\<lparr>q_attempt := n, q_storage_id := dict_get d ''storage_key''\<rparr>)"
      using get unfolding ph by (intro read_plain_hash [OF store(1) False]) (simp add: plain_hash_keys)
    moreover have "dom (map_of h) = set HASH_FIELDS"
      unfolding h ph by (rule dom_stored) (simp add: dom_map_of_conv_image_fst plain_hash_keys flip: set_map)
    ultimately show ?thesis using False key by (simp add: read_after_def)
  next
    case True
    then obtain po where po: "policy = Some po" "dp_mode po = ''encrypted''" by (cases policy) (auto simp: encrypts_def)
    obtain e where e: "encrypt_payload (cipher_codec J) po (PDict (raw_payload (blanked q))) = Inr e"
      "dict_get p ''record'' = Some (hc_dumps J (PDict e))" "dict_keys p = dict_keys (plain_hash J q)"
      by (rule record_to_hash_encrypted [OF store(1)[unfolded po(1)] po(2) p[unfolded po(1)]])
    have "dict_get d ''record'' = Some (hc_dumps J (PDict e))"
      using get [of "''record''"] e(2) by (simp add: HASH_FIELDS_def)
    from read_encrypted_hash [OF store(1)[unfolded po(1)] po(2) e(1) this]
    have "hash_to_record J policy d = Inr ((hash_read_back (cd_repr J) policy q)\<lparr>q_storage_id := Some k\<rparr>)"
      using key po(1) by simp
    moreover have "dom (map_of h) = set HASH_FIELDS"
      unfolding h by (rule dom_stored) (simp add: dom_map_of_conv_image_fst e(3) plain_hash_keys flip: set_map)
    ultimately show ?thesis using True by (simp add: read_after_def)
  qed
qed

section \<open>Properties\<close>

text \<open>
  C22: the hash of a dead-letter record reads back as the record.  What the server returns for a record written under a
  key, in any order of the fields and after replays that set its \<^verbatim>\<open>attempt\<close> field to \<open>n\<close>, decodes to the record the
  policy stores, with \<open>n\<close> attempts and the key as its identifier, an absent source, middleware or sink being absent
  again.  Of an encrypted payload the attempts stay those of the write, and absent texts come back empty.
\<close>

theorem dead_letter_hash_roundtrip:
  assumes "storable J policy q" "record_hash J cf q k kp = Inr h" "rq_payload_policy cf = policy"
    and "map_of d = (map_of h)(''attempt'' \<mapsto> str_of_int n)"
  shows "hash_to_record J policy d =
    (if encrypts policy then Inr ((sorted_record (blanked q))\<lparr>q_storage_id := Some k\<rparr>)
     else Inr ((unblanked (stored_record (cd_repr J) policy (blanked q)))\<lparr>q_attempt := n, q_storage_id := Some k\<rparr>))"
  using read_stored_hash [OF assms] by (simp add: read_after_def hash_read_back_def)

definition sample_hash_codec :: hash_codec where
  "sample_hash_codec = dlq_codec.extend
     (sample_dlq_codec\<lparr>cd_json_loads := (\<lambda>_. Inr (json_sorted (PDict (raw_payload (blanked sample_record)))))\<rparr>)
     \<lparr>hc_dumps = (\<lambda>v. if v = PNone then ''null'' else if v = q_record sample_record then ''record'' else ''encrypted''),
      hc_loads = (\<lambda>s. Some (if s = ''null'' then PNone else if s = ''record'' then q_record sample_record
        else PDict [(''payload_encoding'', PStr ''encrypted''), (''payload_algorithm'', PStr (dp_encryption_algorithm sample_policy)),
                    (''payload_ciphertext'', PStr (rev ''payload''))])),
      hc_ensure_utc = id\<rparr>"

lemma sample_hash_codec_fields:
  "base_codec sample_hash_codec = sample_dlq_codec\<lparr>cd_json_loads := (\<lambda>_. Inr (json_sorted (PDict (raw_payload (blanked sample_record)))))\<rparr>"
  "hc_dumps sample_hash_codec v = (if v = PNone then ''null'' else if v = q_record sample_record then ''record'' else ''encrypted'')"
  "hc_loads sample_hash_codec s = Some (if s = ''null'' then PNone else if s = ''record'' then q_record sample_record
     else PDict [(''payload_encoding'', PStr ''encrypted''), (''payload_algorithm'', PStr (dp_encryption_algorithm sample_policy)),
       (''payload_ciphertext'', PStr (rev ''payload''))])"
  "hc_ensure_utc sample_hash_codec = id"
  by (simp_all add: sample_hash_codec_def dlq_codec.defs del: json_sorted.simps)

lemma sample_contents: "contents (blanked sample_record) = [q_record sample_record, PNone, PNone, PNone, PNone]"
  by (simp add: contents_def blanked_def sample_record_def)

lemma sample_json:
  "json_ok sample_hash_codec (q_record sample_record)" "json_ok sample_hash_codec PNone"
  "not_marked_encrypted (q_record sample_record)"
  by (simp_all add: json_ok_def sample_hash_codec_fields not_marked_encrypted_def) (simp_all add: sample_record_def)

lemma sample_wf: "wf_record (base_codec sample_hash_codec) sample_record"
  by (simp add: wf_record_def sample_hash_codec_fields sample_dlq_codec_def)

lemma sample_storable_plain: "storable sample_hash_codec None sample_record"
  by (simp add: storable_def sample_wf sample_contents sample_json stored_record_def sample_hash_codec_fields(4)
      keeps_parsed_fields_def cipher_inverse_def)

lemma sample_encrypted:
  "encrypt_payload (cipher_codec sample_hash_codec) encrypting_policy v =
     Inr [(''payload_encoding'', PStr ''encrypted''), (''payload_algorithm'', PStr (dp_encryption_algorithm sample_policy)),
       (''payload_ciphertext'', PStr (rev ''payload''))]"
  unfolding codec_of_base [symmetric] sample_hash_codec_fields(1)
  by (simp add: encrypt_payload_def encrypting_policy_def sample_policy_def reversing_cipher_def sample_dlq_codec_def codec.defs
      del: json_sorted.simps)

lemma sample_cipher: "cipher_inverse (base_codec sample_hash_codec) (Some encrypting_policy) {blanked sample_record}"
  unfolding sample_hash_codec_fields(1)
    by (auto simp: cipher_inverse_def encrypting_policy_def sample_policy_def reversing_cipher_def sample_dlq_codec_def
        simp del: json_sorted.simps)

lemma sample_storable_encrypted: "storable sample_hash_codec (Some encrypting_policy) sample_record"
proof -
  have "stored_record R (Some encrypting_policy) q = q" for R q
    by (simp add: stored_record_def redacts_def encrypting_policy_def)
  moreover have "encrypts (Some encrypting_policy)" by (simp add: encrypts_def encrypting_policy_def)
  moreover have "json_ok sample_hash_codec (PDict [(''payload_encoding'', PStr ''encrypted''), (''payload_algorithm'', PStr (dp_encryption_algorithm sample_policy)),
       (''payload_ciphertext'', PStr (rev ''payload''))])"
    unfolding json_ok_def sample_hash_codec_fields(2,3) by (simp add: sample_record_def)
  ultimately show ?thesis
  by (simp add: storable_def sample_wf sample_contents sample_json sample_hash_codec_fields(4) sample_encrypted sample_cipher del: rev.simps)
qed

definition sample_dlq_config :: "dlq_policy option \<Rightarrow> redis_dlq_config" where
  "sample_dlq_config policy =
     \<lparr>rq_keyspace = dlq_keyspace_init ''dlq'' False, rq_redis_cluster = False, rq_payload_policy = policy,
      rq_uuid = (\<lambda>_. ''u''), rq_now = (\<lambda>_. ''t''), rq_set_order = sorted_list_of_set\<rparr>"

theorem dead_letter_hash_roundtrip_witness:
  "\<exists>h h'. record_hash sample_hash_codec (sample_dlq_config None) sample_record ''k'' ''dlq'' = Inr h \<and>
    hash_to_record sample_hash_codec None (dict_set ''attempt'' ''2'' h) =
      Inr (sample_record\<lparr>q_attempt := 2, q_storage_id := Some ''k''\<rparr>) \<and>
    record_hash sample_hash_codec (sample_dlq_config (Some encrypting_policy)) sample_record ''k'' ''dlq'' = Inr h' \<and>
    hash_to_record sample_hash_codec (Some encrypting_policy) (dict_set ''attempt'' ''2'' h') =
      Inr ((sorted_record (blanked sample_record))\<lparr>q_storage_id := Some ''k''\<rparr>)"
proof -
  have two: "str_of_int 2 = ''2''" by code_simp
  have set: "map_of (dict_set ''attempt'' ''2'' h) = (map_of h)(''attempt'' \<mapsto> str_of_int 2)" for h :: "(string, string) dict"
    unfolding two by (rule update_conv')
  obtain h where h: "record_hash sample_hash_codec (sample_dlq_config None) sample_record ''k'' ''dlq'' = Inr h"
    using record_to_hash_plain [OF sample_storable_plain] by (auto simp: record_hash_def sample_dlq_config_def encrypts_def)
  obtain h' where h': "record_hash sample_hash_codec (sample_dlq_config (Some encrypting_policy)) sample_record ''k'' ''dlq'' = Inr h'"
  proof -
    have "wf_record (base_codec sample_hash_codec) (blanked sample_record)" using sample_wf by (simp add: wf_record_def)
    moreover have "policy_apply R encrypting_policy v = v" for R v by (simp add: policy_apply_def encrypting_policy_def)
    moreover have "dp_mode encrypting_policy = ''encrypted''" by (simp add: encrypting_policy_def)
    ultimately show thesis using that
      by (simp add: record_hash_def sample_dlq_config_def record_to_hash_def dict_of_def hash_payload_def payload_to_hash_raw
          sample_encrypted del: rev.simps)
  qed
  have "unblanked (stored_record R None (blanked sample_record)) = sample_record" for R by code_simp
  moreover have "encrypts (Some encrypting_policy)" by code_simp
  ultimately show ?thesis
    using h h' dead_letter_hash_roundtrip [OF sample_storable_plain h _ set]
      dead_letter_hash_roundtrip [OF sample_storable_encrypted h' _ set]
    by (simp add: sample_dlq_config_def encrypts_def)
qed

end
