(* ===== verification/Redis_DLQ_Index.thy ===== *)
theory Redis_DLQ_Index
  imports Redis_DLQ_Hash
begin

text \<open>
  The index lists of the dead-letter queue in Redis: under any history of writes, acknowledgements and replays of any
  number of sinks, with calls that fail before or after the server ran them, the index of all records and the
  indexes by pipeline, by stage and by both hold exactly the keys of the records they are for.

  The two Lua scripts are run symbolically over what the server holds (\<open>runs\<close>).
\<close>


section \<open>What is relied on of the server\<close>

text \<open>
  The documented behaviour of the commands, over what the server holds under each key; a key holds a hash or a list.
  A fault of the connection changes nothing by itself.
\<close>

definition dlq_server_laws :: "'r dlq_server \<Rightarrow> bool" where
  "dlq_server_laws D \<longleftrightarrow>
     (\<forall>r k. ds_list D r k = [] \<longrightarrow>
        (\<exists>d. ds_hgetall D k r = (r, Inr d) \<and> distinct (dict_keys d) \<and> map_of d = ds_hash D r k)) \<and>
     (\<forall>r k f. ds_list D r k = [] \<longrightarrow> ds_hget D k f r = (r, Inr (ds_hash D r k f))) \<and>
     (\<forall>r k. ds_exists D k r = (r, Inr (ds_hash D r k \<noteq> Map.empty \<or> ds_list D r k \<noteq> []))) \<and>
     (\<forall>r k. ds_hash D r k = Map.empty \<longrightarrow> ds_lrange D k r = (r, Inr (ds_list D r k))) \<and>
     (\<forall>r k d. ds_list D r k = [] \<longrightarrow> d \<noteq> [] \<longrightarrow> distinct (dict_keys d) \<longrightarrow>
        (\<exists>r'. ds_hset D k d r = (r', Inr ()) \<and> ds_hash D r' = (ds_hash D r)(k := ds_hash D r k ++ map_of d) \<and>
              ds_list D r' = ds_list D r)) \<and>
     (\<forall>r k v. ds_hash D r k = Map.empty \<longrightarrow>
        (\<exists>r'. ds_rpush D k v r = (r', Inr ()) \<and> ds_hash D r' = ds_hash D r \<and>
              ds_list D r' = (ds_list D r)(k := ds_list D r k @ [v]))) \<and>
     (\<forall>r k v. ds_hash D r k = Map.empty \<longrightarrow>
        (\<exists>r'. ds_lrem D k v r = (r', Inr ()) \<and> ds_hash D r' = ds_hash D r \<and>
              ds_list D r' = (ds_list D r)(k := removeAll v (ds_list D r k)))) \<and>
     (\<forall>r k. \<exists>r'. ds_del D k r = (r', Inr ()) \<and> ds_hash D r' = (ds_hash D r)(k := Map.empty) \<and>
              ds_list D r' = (ds_list D r)(k := [])) \<and>
     (\<forall>r. ds_hash D (fst (ds_fault D r)) = ds_hash D r \<and> ds_list D (fst (ds_fault D r)) = ds_list D r)"

type_synonym hashes = "string \<Rightarrow> (string \<rightharpoonup> string)"
type_synonym lists = "string \<Rightarrow> string list"

definition holds :: "'r dlq_server \<Rightarrow> 'r \<Rightarrow> hashes \<Rightarrow> lists \<Rightarrow> bool" where
  "holds D r H L \<longleftrightarrow> ds_hash D r = H \<and> ds_list D r = L"

text \<open>\<open>m\<close> run on a server that holds \<open>H\<close> and \<open>L\<close> returns \<open>a\<close> and leaves \<open>H'\<close> and \<open>L'\<close>.\<close>

definition runs ::
    "'r dlq_server \<Rightarrow> ('r, 'a) eff \<Rightarrow> hashes \<Rightarrow> lists \<Rightarrow> 'a \<Rightarrow> hashes \<Rightarrow> lists \<Rightarrow> bool" where
  "runs D m H L a H' L' \<longleftrightarrow> (\<forall>r. holds D r H L \<longrightarrow> (\<exists>r'. m r = (r', Inr a) \<and> holds D r' H' L'))"

lemma runs_return: "runs D (returnE a) H L a H L"
  by (simp add: runs_def)

lemma runs_bind: "\<lbrakk>runs D m H L a H1 L1; runs D (f a) H1 L1 b H2 L2\<rbrakk> \<Longrightarrow> runs D (bindE m f) H L b H2 L2"
  by (fastforce simp: runs_def bindE_def)

lemma runs_then: "\<lbrakk>runs D m H L a H1 L1; runs D n H1 L1 b H2 L2\<rbrakk> \<Longrightarrow> runs D (thenE m n) H L b H2 L2"
  unfolding thenE_def by (rule runs_bind)

lemma runs_command:
  assumes "dlq_server_laws D"
  shows "L k = [] \<Longrightarrow> runs D (ds_hget D k f) H L (H k f) H L"
    "runs D (ds_exists D k) H L (H k \<noteq> Map.empty \<or> L k \<noteq> []) H L"
    "H k = Map.empty \<Longrightarrow> runs D (ds_lrange D k) H L (L k) H L"
    "\<lbrakk>L k = []; d \<noteq> []; distinct (dict_keys d)\<rbrakk> \<Longrightarrow> runs D (ds_hset D k d) H L () (H(k := H k ++ map_of d)) L"
    "H k = Map.empty \<Longrightarrow> runs D (ds_rpush D k v) H L () H (L(k := L k @ [v]))"
    "H k = Map.empty \<Longrightarrow> runs D (ds_lrem D k v) H L () H (L(k := removeAll v (L k)))"
    "runs D (ds_del D k) H L () (H(k := Map.empty)) (L(k := []))"
  using assms unfolding dlq_server_laws_def runs_def holds_def by metis+

lemma runs_push_each:
  assumes "dlq_server_laws D" "distinct ks" "\<forall>ix \<in> set ks. H ix = Map.empty"
  shows "runs D (each_do (\<lambda>ix. ds_rpush D ix k) ks) H L () H (\<lambda>ix. if ix \<in> set ks then L ix @ [k] else L ix)"
  using assms(2,3)
proof (induction ks arbitrary: L)
  case Nil
  show ?case by (simp add: runs_def)
next
  case (Cons x xs)
  have eq: "(\<lambda>ix. if ix \<in> set xs then (L(x := L x @ [k])) ix @ [k] else (L(x := L x @ [k])) ix) =
      (\<lambda>ix. if ix \<in> set (x # xs) then L ix @ [k] else L ix)"
    using Cons.prems(1) by auto
  have one: "runs D (ds_rpush D x k) H L () H (L(x := L x @ [k]))" using runs_command(5) [OF assms(1)] Cons.prems by simp
  have "runs D (each_do (\<lambda>ix. ds_rpush D ix k) xs) H (L(x := L x @ [k])) () H (\<lambda>ix. if ix \<in> set (x # xs) then L ix @ [k] else L ix)"
    using Cons.IH [of "L(x := L x @ [k])", unfolded eq] Cons.prems by (simp only: set_simps distinct.simps) blast
  then show ?case using runs_then [OF one] by simp
qed

lemma runs_remove_each:
  assumes "dlq_server_laws D" "\<forall>ix \<in> set ks. H ix = Map.empty"
  shows "runs D (each_do (\<lambda>ix. ds_lrem D ix k) ks) H L () H (\<lambda>ix. if ix \<in> set ks then removeAll k (L ix) else L ix)"
  using assms(2)
proof (induction ks arbitrary: L)
  case Nil
  show ?case by (simp add: runs_def)
next
  case (Cons x xs)
  have eq: "(\<lambda>ix. if ix \<in> set xs then removeAll k ((L(x := removeAll k (L x))) ix) else (L(x := removeAll k (L x))) ix) =
      (\<lambda>ix. if ix \<in> set (x # xs) then removeAll k (L ix) else L ix)"
    by (auto simp: removeAll_filter_not_eq)
  have one: "runs D (ds_lrem D x k) H L () H (L(x := removeAll k (L x)))" using runs_command(6) [OF assms(1)] Cons.prems by simp
  have "runs D (each_do (\<lambda>ix. ds_lrem D ix k) xs) H (L(x := removeAll k (L x))) () H
      (\<lambda>ix. if ix \<in> set (x # xs) then removeAll k (L ix) else L ix)"
    using Cons.IH [of "L(x := removeAll k (L x))", unfolded eq] Cons.prems by (simp only: set_simps) blast
  then show ?case using runs_then [OF one] by simp
qed

section \<open>Index keys\<close>

definition secondary_keys :: "string \<Rightarrow> string set" where
  "secondary_keys kp = range (pipeline_index_key kp) \<union> range (stage_index_key kp) \<union>
     {pipeline_stage_index_key kp p s | p s. True}"

definition index_keys :: "string \<Rightarrow> string set" where
  "index_keys kp = insert (index_key kp) (secondary_keys kp)"

lemma index_key_not_secondary [simp]: "index_key kp \<notin> secondary_keys kp"
  by (auto simp: secondary_keys_def index_key_def pipeline_index_key_def stage_index_key_def pipeline_stage_index_key_def)

lemma index_keys_differ [simp]:
  "pipeline_index_key kp p \<noteq> stage_index_key kp s" "stage_index_key kp s \<noteq> pipeline_index_key kp p"
  "pipeline_index_key kp p \<noteq> pipeline_stage_index_key kp p' s" "pipeline_stage_index_key kp p' s \<noteq> pipeline_index_key kp p"
  "stage_index_key kp s \<noteq> pipeline_stage_index_key kp p' s'" "pipeline_stage_index_key kp p' s' \<noteq> stage_index_key kp s"
  by (simp_all add: pipeline_index_key_def stage_index_key_def pipeline_stage_index_key_def)

lemma index_keys_not_Nil [simp]:
  "index_key kp \<noteq> []" "pipeline_index_key kp p \<noteq> []" "stage_index_key kp s \<noteq> []" "pipeline_stage_index_key kp p s \<noteq> []"
  "[] \<noteq> index_key kp" "[] \<noteq> pipeline_index_key kp p" "[] \<noteq> stage_index_key kp s" "[] \<noteq> pipeline_stage_index_key kp p s"
  by (simp_all add: index_key_def pipeline_index_key_def stage_index_key_def pipeline_stage_index_key_def)

lemma ordered_secondary_index_keys_facts [simp]:
  "distinct (ordered_secondary_index_keys kp q)" "set (ordered_secondary_index_keys kp q) \<subseteq> secondary_keys kp"
  "[] \<notin> set (ordered_secondary_index_keys kp q)"
  by (auto simp: ordered_secondary_index_keys_def secondary_keys_def)

lemma set_names_in_order: "set (names_in_order xs) = {x. Some x \<in> set xs \<and> x \<noteq> []}"
  by (force simp: names_in_order_def List.map_filter_def)

section \<open>The indexes\<close>

text \<open>The index keys a hash names.\<close>

definition named_keys :: "(string \<rightharpoonup> string) \<Rightarrow> string set" where
  "named_keys h = {x. h PIPELINE_FIELD = Some x \<or> h STAGE_FIELD = Some x \<or> h PIPELINE_STAGE_FIELD = Some x}"

definition well_named :: "string \<Rightarrow> (string \<rightharpoonup> string) \<Rightarrow> bool" where
  "well_named kp h \<longleftrightarrow> dom h = set HASH_FIELDS \<and>
     (\<exists>p s. h PIPELINE_FIELD = Some (pipeline_index_key kp p) \<and> h STAGE_FIELD = Some (stage_index_key kp s) \<and>
            h PIPELINE_STAGE_FIELD = Some (pipeline_stage_index_key kp p s))"

text \<open>
  The records under the keys \<open>K\<close>: the index holds each of them once, and a secondary index exactly those that
  name it.
\<close>

definition indexed :: "string \<Rightarrow> string set \<Rightarrow> hashes \<Rightarrow> lists \<Rightarrow> bool" where
  "indexed kp K H L \<longleftrightarrow>
     K \<inter> index_keys kp = {} \<and> (\<forall>ix \<in> index_keys kp. H ix = Map.empty) \<and> (\<forall>k \<in> K. L k = []) \<and>
     (\<forall>k \<in> K. H k = Map.empty \<or> well_named kp (H k)) \<and>
     distinct (L (index_key kp)) \<and> set (L (index_key kp)) = {k \<in> K. H k \<noteq> Map.empty} \<and>
     (\<forall>ix \<in> secondary_keys kp. distinct (L ix) \<and> set (L ix) = {k \<in> K. H k \<noteq> Map.empty \<and> ix \<in> named_keys (H k)})"

lemma named_empty [simp]: "named_keys Map.empty = {}"
  by (simp add: named_keys_def)

lemma well_named_keys: "well_named kp h \<Longrightarrow> named_keys h \<subseteq> secondary_keys kp \<and> [] \<notin> named_keys h \<and> h \<noteq> Map.empty"
  by (auto simp: well_named_def named_keys_def secondary_keys_def) blast

text \<open>What a write, an acknowledgement and a replay do to the hashes and lists.\<close>

definition put_lists :: "string \<Rightarrow> string \<Rightarrow> string set \<Rightarrow> hashes \<Rightarrow> lists \<Rightarrow> lists" where
  "put_lists kp k names H L =
     (\<lambda>ix. if H k = Map.empty then (if ix \<in> insert (index_key kp) names then L ix @ [k] else L ix)
           else if ix \<in> names then removeAll k (L ix) @ [k]
           else if ix \<in> named_keys (H k) then removeAll k (L ix) else L ix)"

definition drop_lists :: "string \<Rightarrow> string \<Rightarrow> string set \<Rightarrow> lists \<Rightarrow> lists" where
  "drop_lists kp k names L = (\<lambda>ix. if ix \<in> insert (index_key kp) names then removeAll k (L ix) else L ix)"

lemma primary_not_named:
  assumes "indexed kp K H L" "k \<in> K"
  shows "index_key kp \<notin> named_keys (H k)"
proof -
  have "H k = Map.empty \<or> well_named kp (H k)" using assms by (simp add: indexed_def)
  then show ?thesis
  proof
    assume "well_named kp (H k)"
    then show ?thesis using well_named_keys index_key_not_secondary by blast
  qed simp
qed

lemma indexed_put:
  assumes ok: "indexed kp K H L" and k: "k \<in> K" and h: "well_named kp h" "named_keys h = names"
  shows "indexed kp K (H(k := h)) (put_lists kp k names H L)"
    "put_lists kp k names H L (index_key kp) = (if H k = Map.empty then L (index_key kp) @ [k] else L (index_key kp))"
proof -
  have n: "names \<subseteq> secondary_keys kp" "index_key kp \<notin> names" "h \<noteq> Map.empty" 
    using well_named_keys [OF h(1)] h(2) index_key_not_secondary by blast+
  have o: "index_key kp \<notin> named_keys (H k)"
    by (rule primary_not_named [OF ok k])
  show "put_lists kp k names H L (index_key kp) = (if H k = Map.empty then L (index_key kp) @ [k] else L (index_key kp))"
    using n(2) o by (simp add: put_lists_def)
  have dis: "k \<notin> index_keys kp" using ok k by (auto simp: indexed_def)
  have sec: "distinct (put_lists kp k names H L ix) \<and>
      set (put_lists kp k names H L ix) = {j \<in> K. (H(k := h)) j \<noteq> Map.empty \<and> ix \<in> named_keys ((H(k := h)) j)}"
    if ix: "ix \<in> secondary_keys kp" for ix
  proof -
    have L: "distinct (L ix)" "set (L ix) = {j \<in> K. H j \<noteq> Map.empty \<and> ix \<in> named_keys (H j)}"
      using ok ix by (simp_all add: indexed_def)
    have "ix \<noteq> index_key kp" using ix by auto
    then show ?thesis using L k h(2) n(3) by (auto simp: put_lists_def distinct_removeAll)
  qed
  have prim: "distinct (put_lists kp k names H L (index_key kp))"
    "set (put_lists kp k names H L (index_key kp)) = {j \<in> K. (H(k := h)) j \<noteq> Map.empty}"
    using ok k n o by (auto simp: put_lists_def indexed_def)
  have "put_lists kp k names H L j = []" if "j \<in> K" for j
  proof -
    have "j \<notin> index_keys kp" "L j = []" using ok that by (auto simp: indexed_def)
    then show ?thesis using n(1) by (auto simp: put_lists_def index_keys_def)
  qed
  then show "indexed kp K (H(k := h)) (put_lists kp k names H L)"
    using ok dis h(1) sec prim unfolding indexed_def by auto
qed

lemma indexed_drop:
  assumes ok: "indexed kp K H L" and k: "k \<in> K" and names: "named_keys (H k) \<subseteq> names" "names \<subseteq> secondary_keys kp"
  shows "indexed kp K (H(k := Map.empty)) (drop_lists kp k names L)"
proof -
  have o: "index_key kp \<notin> named_keys (H k)"
    by (rule primary_not_named [OF ok k])
  have dis: "k \<notin> index_keys kp" using ok k by (auto simp: indexed_def)
  have sec: "distinct (drop_lists kp k names L ix) \<and>
      set (drop_lists kp k names L ix) = {j \<in> K. (H(k := Map.empty)) j \<noteq> Map.empty \<and> ix \<in> named_keys ((H(k := Map.empty)) j)}"
    if ix: "ix \<in> secondary_keys kp" for ix
  proof -
    have L: "distinct (L ix)" "set (L ix) = {j \<in> K. H j \<noteq> Map.empty \<and> ix \<in> named_keys (H j)}"
      using ok ix by (simp_all add: indexed_def)
    have "ix \<noteq> index_key kp" using ix by auto
    then show ?thesis using L names(1) by (auto simp: drop_lists_def distinct_removeAll)
  qed
  have prim: "distinct (drop_lists kp k names L (index_key kp))"
    "set (drop_lists kp k names L (index_key kp)) = {j \<in> K. (H(k := Map.empty)) j \<noteq> Map.empty}"
    using ok by (auto simp: drop_lists_def indexed_def distinct_removeAll)
  have "drop_lists kp k names L j = []" if "j \<in> K" for j
  proof -
    have "j \<notin> index_keys kp" "L j = []" using ok that by (auto simp: indexed_def)
    then show ?thesis by (simp add: drop_lists_def)
  qed
  then show ?thesis using ok dis sec prim unfolding indexed_def by auto
qed

lemma indexed_set_field:
  assumes ok: "indexed kp K H L" and k: "k \<in> K" "H k \<noteq> Map.empty"
  shows "indexed kp K (H(k := (H k)(''attempt'' \<mapsto> s))) L"
proof -
  have w: "well_named kp (H k)" using ok k by (auto simp: indexed_def)
  then have n: "named_keys ((H k)(''attempt'' \<mapsto> s)) = named_keys (H k)" "well_named kp ((H k)(''attempt'' \<mapsto> s))"
    by (auto simp: named_keys_def well_named_def HASH_FIELDS_def)
  have dis: "k \<notin> index_keys kp" using ok k by (auto simp: indexed_def)
  have ne: "(H(k := (H k)(''attempt'' \<mapsto> s))) j \<noteq> Map.empty \<longleftrightarrow> H j \<noteq> Map.empty"
    "named_keys ((H(k := (H k)(''attempt'' \<mapsto> s))) j) = named_keys (H j)" for j
    using k(2) n(1) by auto
  show ?thesis using ok dis n(2) unfolding indexed_def ne by auto
qed


section \<open>The scripts\<close>

definition hash_of_record :: "string \<Rightarrow> dlq_record \<Rightarrow> (string, string) dict \<Rightarrow> bool" where
  "hash_of_record kp q h \<longleftrightarrow> dict_wf h \<and> well_named kp (map_of h) \<and>
     named_keys (map_of h) = set (ordered_secondary_index_keys kp q)"

lemma map_add_dominated: "dom m \<subseteq> dom n \<Longrightarrow> m ++ n = n"
proof
  fix x
  assume d: "dom m \<subseteq> dom n"
  show "(m ++ n) x = n x"
  proof (cases "n x")
    case None
    then have "m x = None" using d by (meson domIff subsetD)
    then show ?thesis using None by (simp add: map_add_def)
  qed (simp add: map_add_def)
qed

lemma HASH_FIELDS_not_Nil: "HASH_FIELDS \<noteq> []"
  by (simp add: HASH_FIELDS_def)

lemma record_to_hash_keys:
  assumes "record_to_hash J policy q = Inr p"
  shows "dict_keys p = take 16 HASH_FIELDS"
proof -
  have h: "dict_keys h = take 16 HASH_FIELDS" if "payload_to_hash J d = Inr h" for d h
    using that by (auto simp: payload_to_hash_def Let_def result_simps HASH_FIELDS_def)
  then show ?thesis
    using assms by (auto simp: record_to_hash_def Let_def result_simps dict_update_def AList.update_keys HASH_FIELDS_def
        split: option.splits if_splits)
qed

lemma record_hash_shape:
  assumes "record_hash J cf q k kp = Inr h"
  shows "hash_of_record kp q h"
proof -
  obtain p where p: "record_to_hash J (rq_payload_policy cf) q = Inr p"
    and h: "map_of h = (map_of p)(''storage_key'' \<mapsto> k, PIPELINE_FIELD \<mapsto> pipeline_index_key kp (q_pipeline_id q),
       STAGE_FIELD \<mapsto> stage_index_key kp (q_stage q), PIPELINE_STAGE_FIELD \<mapsto> pipeline_stage_index_key kp (q_pipeline_id q) (q_stage q))"
    by (rule record_hash_fields [OF assms])
  note keys = record_to_hash_keys [OF p]
  have "dict_wf p" unfolding dict_wf_def keys by (simp add: HASH_FIELDS_def)
  then have "dict_wf h" using assms p by (auto simp: record_hash_def dict_update_def index_metadata_def)
  moreover have "dom (map_of h) = set HASH_FIELDS"
    unfolding h by (rule dom_stored) (simp add: dom_map_of_conv_image_fst keys flip: set_map)
  ultimately show ?thesis
    by (auto simp: hash_of_record_def well_named_def named_keys_def ordered_secondary_index_keys_def h)
qed

text \<open>What the scripts need of what is kept under a key and under the indexes.\<close>

definition scriptable :: "string \<Rightarrow> string \<Rightarrow> hashes \<Rightarrow> lists \<Rightarrow> bool" where
  "scriptable kp k H L \<longleftrightarrow> L k = [] \<and> k \<notin> index_keys kp \<and> (\<forall>ix \<in> index_keys kp. H ix = Map.empty) \<and>
     dom (H k) \<subseteq> set HASH_FIELDS \<and> named_keys (H k) \<subseteq> secondary_keys kp \<and> [] \<notin> named_keys (H k)"

lemma indexed_scriptable:
  assumes "indexed kp K H L" "k \<in> K"
  shows "scriptable kp k H L"
proof -
  have "H k = Map.empty \<or> well_named kp (H k)" using assms by (simp add: indexed_def)
  then have "dom (H k) \<subseteq> set HASH_FIELDS" "named_keys (H k) \<subseteq> secondary_keys kp \<and> [] \<notin> named_keys (H k)"
    using well_named_keys [of kp "H k"] by (auto simp: well_named_def)
  then show ?thesis using assms by (auto simp: scriptable_def indexed_def)
qed

lemma upsert_runs:
  assumes laws: "dlq_server_laws D" and ok: "scriptable kp k H L" and h: "hash_of_record kp q h"
  shows "runs D (DLQ_UPSERT_SCRIPT D k (index_key kp) (ordered_secondary_index_keys kp q) h) H L
    (if H k = Map.empty then 1 else 0) (H(k := map_of h)) (put_lists kp k (set (ordered_secondary_index_keys kp q)) H L)"
proof -
  let ?ks = "ordered_secondary_index_keys kp q" and ?H = "H(k := map_of h)"
  have Lk: "L k = []" and kix: "k \<notin> index_keys kp" using ok by (auto simp: scriptable_def)
  have empty: "?H ix = Map.empty" if "ix \<in> index_keys kp" for ix
    using ok kix that by (auto simp: scriptable_def)
  have ks: "set ?ks \<subseteq> index_keys kp" using ordered_secondary_index_keys_facts(2) [of kp q] unfolding index_keys_def by blast
  have e1: "?H (index_key kp) = Map.empty" by (rule empty) (simp add: index_keys_def)
  have e2: "\<forall>ix \<in> set ?ks. ?H ix = Map.empty" using empty ks by blast
  have pk: "index_key kp \<notin> set ?ks"
    using ordered_secondary_index_keys_facts(2) [of kp q] index_key_not_secondary [of kp] by blast
  have d: "dom (map_of h) = set HASH_FIELDS" "h \<noteq> []" "distinct (dict_keys h)"
    using h HASH_FIELDS_not_Nil unfolding hash_of_record_def well_named_def dict_wf_def by (blast, fastforce, blast)
  have "dom (H k) \<subseteq> dom (map_of h)" using ok d(1) by (simp add: scriptable_def)
  then have "H k ++ map_of h = map_of h" by (rule map_add_dominated)
  then have H: "H(k := H k ++ map_of h) = ?H" by (rule arg_cong)
  note cmd = runs_command [OF laws]
  have old: "set (names_in_order ([H k PIPELINE_FIELD, H k STAGE_FIELD, H k PIPELINE_STAGE_FIELD] @ map Some ?ks)) =
      named_keys (H k) \<union> set ?ks" 
    using ok ordered_secondary_index_keys_facts(3) [of kp q]
    by (auto simp: set_names_in_order named_keys_def scriptable_def)
  have named: "named_keys (H k) \<subseteq> index_keys kp" using ok by (auto simp: index_keys_def scriptable_def)
  have new: "runs D (thenE (ds_rpush D (index_key kp) k) (thenE (each_do (\<lambda>ix. ds_rpush D ix k) ?ks) (returnE 1)))
      ?H L 1 ?H (put_lists kp k (set ?ks) H L)" if "H k = Map.empty"
  proof -
    have p: "put_lists kp k (set ?ks) H L =
        (\<lambda>ix. if ix \<in> set ?ks then (L(index_key kp := L (index_key kp) @ [k])) ix @ [k] else (L(index_key kp := L (index_key kp) @ [k])) ix)"
      using that pk by (auto simp: put_lists_def fun_eq_iff)
    show ?thesis unfolding p
      by (intro runs_then [OF cmd(5) [where k = "index_key kp" and H = ?H, OF e1]]
          runs_then [OF runs_push_each [OF laws ordered_secondary_index_keys_facts(1) e2]] runs_return)
  qed
  have upd: "runs D (thenE (each_do (\<lambda>ix. ds_lrem D ix k)
        (names_in_order ([H k PIPELINE_FIELD, H k STAGE_FIELD, H k PIPELINE_STAGE_FIELD] @ map Some ?ks)))
      (thenE (each_do (\<lambda>ix. ds_rpush D ix k) ?ks) (returnE 0))) ?H L 0 ?H (put_lists kp k (set ?ks) H L)" if "H k \<noteq> Map.empty"
  proof -
    let ?L = "\<lambda>ix. if ix \<in> named_keys (H k) \<union> set ?ks then removeAll k (L ix) else L ix"
    have p: "put_lists kp k (set ?ks) H L = (\<lambda>ix. if ix \<in> set ?ks then ?L ix @ [k] else ?L ix)"
      using that by (auto simp: put_lists_def fun_eq_iff)
    have r: "runs D (each_do (\<lambda>ix. ds_lrem D ix k)
        (names_in_order ([H k PIPELINE_FIELD, H k STAGE_FIELD, H k PIPELINE_STAGE_FIELD] @ map Some ?ks))) ?H L () ?H ?L"
      unfolding old [symmetric] by (rule runs_remove_each [OF laws]) (use old empty ks named in blast)
    have s: "runs D (each_do (\<lambda>ix. ds_rpush D ix k) ?ks) ?H ?L () ?H (\<lambda>ix. if ix \<in> set ?ks then ?L ix @ [k] else ?L ix)"
      by (rule runs_push_each [OF laws ordered_secondary_index_keys_facts(1) e2])
    show ?thesis unfolding p by (intro runs_then [OF r] runs_then [OF s] runs_return)
  qed
  have ex: "(H k \<noteq> Map.empty \<or> L k \<noteq> []) = (H k \<noteq> Map.empty)" using Lk by simp
  have set: "runs D (ds_hset D k h) H L () ?H L" using cmd(4) [where L = L and k = k and d = h and H = H] Lk d(2,3) H by simp
  show ?thesis
    unfolding DLQ_UPSERT_SCRIPT_def
    by (intro runs_bind [OF cmd(2) [where H = H and L = L and k = k, unfolded ex]] runs_bind [OF cmd(1) [where L = L and k = k and H = H, OF Lk]]
        runs_then [OF set], cases "H k = Map.empty")
      (simp_all only: not_not not_True_eq_False not_False_eq_True if_True if_False new upd simp_thms cong: if_weak_cong)
qed

lemma lrem_if_named: "[] \<notin> set ks \<Longrightarrow> each_do (lrem_if_named D k) ks = each_do (\<lambda>ix. ds_lrem D ix k) ks"
  by (induction ks) (auto simp: lrem_if_named_def)

text \<open>The lists an acknowledgement looks into: those the hash names, or those of the record it is given.\<close>

definition ack_names :: "string \<Rightarrow> (string \<rightharpoonup> string) \<Rightarrow> dlq_record \<Rightarrow> string set" where
  "ack_names kp h q = (if h = Map.empty then set (ordered_secondary_index_keys kp q) else named_keys h)"

lemma ack_runs:
  assumes laws: "dlq_server_laws D" and ok: "indexed kp K H L" and k: "k \<in> K"
  shows "runs D (DLQ_ACKNOWLEDGE_SCRIPT D k (index_key kp)
      (pipeline_index_key kp (q_pipeline_id q), stage_index_key kp (q_stage q), pipeline_stage_index_key kp (q_pipeline_id q) (q_stage q)))
    H L 1 (H(k := Map.empty)) (drop_lists kp k (ack_names kp (H k) q) L)"
proof -
  let ?H = "H(k := Map.empty)"
  have Lk: "L k = []" and kix: "k \<notin> index_keys kp" using ok k by (auto simp: indexed_def)
  have empty: "?H ix = Map.empty" if "ix \<in> index_keys kp" for ix using ok that by (auto simp: indexed_def)
  have wk: "H k = Map.empty \<or> well_named kp (H k)" using ok k by (simp add: indexed_def)
  define ks where "ks = [or_key (H k PIPELINE_FIELD) (pipeline_index_key kp (q_pipeline_id q)),
    or_key (H k STAGE_FIELD) (stage_index_key kp (q_stage q)),
    or_key (H k PIPELINE_STAGE_FIELD) (pipeline_stage_index_key kp (q_pipeline_id q) (q_stage q))]"
  have ks: "set ks = ack_names kp (H k) q"
    using wk by (auto simp: ks_def ack_names_def or_key_def ordered_secondary_index_keys_def well_named_def named_keys_def
        split: option.splits)
  have sec: "ack_names kp (H k) q \<subseteq> secondary_keys kp \<and> [] \<notin> ack_names kp (H k) q"
    using wk well_named_keys [of kp "H k"] ordered_secondary_index_keys_facts(2,3) [of kp q] unfolding ack_names_def by (auto simp del: ordered_secondary_index_keys_facts)
  have nil: "[] \<notin> set ks" using sec ks by simp
  have ks_empty: "\<forall>ix \<in> set ks. ?H ix = Map.empty"
    by (intro ballI empty) (use ks sec in \<open>auto simp: index_keys_def\<close>)
  note cmd = runs_command [OF laws]
  have L0: "L(k := []) = L" using Lk by auto
  have prim: "runs D (ds_lrem D (index_key kp) k) ?H L () ?H (L(index_key kp := removeAll k (L (index_key kp))))"
    by (rule cmd(6)) (use empty in \<open>auto simp: index_keys_def\<close>)
  have eq: "(\<lambda>ix. if ix \<in> set ks then removeAll k ((L(index_key kp := removeAll k (L (index_key kp)))) ix)
       else (L(index_key kp := removeAll k (L (index_key kp)))) ix) = drop_lists kp k (ack_names kp (H k) q) L"
    unfolding ks using sec index_key_not_secondary [of kp] by (auto simp: drop_lists_def fun_eq_iff)
  have rest: "runs D (each_do (lrem_if_named D k) ks) ?H (L(index_key kp := removeAll k (L (index_key kp)))) () ?H
      (drop_lists kp k (ack_names kp (H k) q) L)"
    unfolding lrem_if_named [OF nil] eq [symmetric]
    by (rule runs_remove_each [OF laws ks_empty])
  show ?thesis
    unfolding DLQ_ACKNOWLEDGE_SCRIPT_def prod.case
    by (intro runs_bind [OF cmd(1) [where L = L and k = k and H = H, OF Lk]] runs_then [OF cmd(7) [where H = H and L = L and k = k, unfolded L0]]
        runs_then [OF prim] runs_then [OF rest [unfolded ks_def]] runs_return)
qed

lemma indexed_ack:
  assumes "indexed kp K H L" "k \<in> K"
  shows "indexed kp K (H(k := Map.empty)) (drop_lists kp k (ack_names kp (H k) q) L)"
proof (rule indexed_drop [OF assms])
  have "H k = Map.empty \<or> well_named kp (H k)" using assms by (simp add: indexed_def)
  then show "named_keys (H k) \<subseteq> ack_names kp (H k) q" "ack_names kp (H k) q \<subseteq> secondary_keys kp"
    using well_named_keys [of kp "H k"] ordered_secondary_index_keys_facts(2) [of kp q] unfolding ack_names_def
    by (auto simp del: ordered_secondary_index_keys_facts)
qed

lemma attempt_runs:
  assumes laws: "dlq_server_laws D" and ok: "indexed kp K H L" and k: "k \<in> K"
  shows "runs D (ds_hset D k [(''attempt'', s)]) H L () (H(k := (H k)(''attempt'' \<mapsto> s))) L"
proof -
  have "L k = []" using ok k by (simp add: indexed_def)
  then show ?thesis using runs_command(4) [OF laws, where d = "[(''attempt'', s)]" and H = H and L = L and k = k] by simp
qed

section \<open>Calls\<close>

lemma faulty_run:
  assumes laws: "dlq_server_laws D" and run: "runs D m H L a H' L'" and h: "holds D r H L"
    and call: "faulty_call (ds_fault D) m r = (r', x)"
  shows "(x = Inr a \<and> holds D r' H' L') \<or> ((\<exists>e. x = Inl e) \<and> (holds D r' H L \<or> holds D r' H' L'))"
proof -
  obtain r1 f where f: "ds_fault D r = (r1, f)" by (cases "ds_fault D r")
  have h1: "holds D r1 H L" using laws h f unfolding dlq_server_laws_def holds_def by (metis fst_conv)
  then obtain r2 where "m r1 = (r2, Inr a)" "holds D r2 H' L'" using run by (auto simp: runs_def)
  then show ?thesis using call f h1 by (cases f) (auto simp: faulty_call_def)
qed

text \<open>
  What the calls of any number of sinks do to a server: the two scripts, for records kept under the keys \<open>K\<close>, the
  update of the attempts of a record that is there, and reads.
\<close>

inductive sink_call :: "'r dlq_server \<Rightarrow> string \<Rightarrow> string set \<Rightarrow> 'r \<Rightarrow> 'r \<Rightarrow> bool"
  for D kp K where
  upsert: "\<lbrakk>k \<in> K; hash_of_record kp q h\<rbrakk> \<Longrightarrow> sink_call D kp K r
      (fst (faulty_call (ds_fault D) (DLQ_UPSERT_SCRIPT D k (index_key kp) (ordered_secondary_index_keys kp q) h) r))"
| acknowledge: "k \<in> K \<Longrightarrow> sink_call D kp K r
      (fst (faulty_call (ds_fault D) (DLQ_ACKNOWLEDGE_SCRIPT D k (index_key kp)
        (pipeline_index_key kp (q_pipeline_id (q :: dlq_record)), stage_index_key kp (q_stage q), pipeline_stage_index_key kp (q_pipeline_id q) (q_stage q))) r))"
| replay: "\<lbrakk>k \<in> K; ds_hash D r k \<noteq> Map.empty\<rbrakk> \<Longrightarrow>
      sink_call D kp K r (fst (faulty_call (ds_fault D) (ds_hset D k [(''attempt'', s)]) r))"
| fetch: "k \<in> K \<Longrightarrow> sink_call D kp K r (fst (faulty_call (ds_fault D) (ds_hgetall D k) r))"

abbreviation indexed_server :: "'r dlq_server \<Rightarrow> string \<Rightarrow> string set \<Rightarrow> 'r \<Rightarrow> bool" where
  "indexed_server D kp K r \<equiv> indexed kp K (ds_hash D r) (ds_list D r)"

lemma hgetall_law:
  assumes "dlq_server_laws D" "ds_list D r k = []"
  obtains d where "ds_hgetall D k r = (r, Inr d)" "distinct (dict_keys d)" "map_of d = ds_hash D r k"
proof -
  have "\<forall>r k. ds_list D r k = [] \<longrightarrow> (\<exists>d. ds_hgetall D k r = (r, Inr d) \<and> distinct (dict_keys d) \<and> map_of d = ds_hash D r k)"
    using assms(1) unfolding dlq_server_laws_def by (rule conjunct1)
  then show thesis using assms(2) that by blast
qed

lemma fetch_call:
  assumes laws: "dlq_server_laws D" and k: "ds_list D r k = []" and call: "faulty_call (ds_fault D) (ds_hgetall D k) r = (r', x)"
  shows "ds_hash D r' = ds_hash D r \<and> ds_list D r' = ds_list D r \<and>
    (\<forall>d. x = Inr d \<longrightarrow> distinct (dict_keys d) \<and> map_of d = ds_hash D r k)"
proof -
  obtain r1 f where f: "ds_fault D r = (r1, f)" by (cases "ds_fault D r")
  have h1: "ds_hash D r1 = ds_hash D r" "ds_list D r1 = ds_list D r"
    using laws f unfolding dlq_server_laws_def by (metis fst_conv)+
  have "ds_list D r1 k = []" using h1 k by simp
  then obtain d where d: "ds_hgetall D k r1 = (r1, Inr d)" "distinct (dict_keys d)" "map_of d = ds_hash D r1 k"
    by (rule hgetall_law [OF laws])
  show ?thesis using call f h1 d by (cases f) (auto simp: faulty_call_def)
qed

lemma sink_call_indexed:
  assumes laws: "dlq_server_laws D" and ok: "indexed_server D kp K r" and step: "sink_call D kp K r r'"
  shows "indexed_server D kp K r'"
  using step
proof cases
  case (upsert k q h)
  let ?H = "ds_hash D r" and ?L = "ds_list D r"
  obtain r2 x where c: "faulty_call (ds_fault D) (DLQ_UPSERT_SCRIPT D k (index_key kp) (ordered_secondary_index_keys kp q) h) r = (r2, x)"
    by (metis prod.collapse)
  have "holds D r' ?H ?L \<or> holds D r' (?H(k := map_of h)) (put_lists kp k (set (ordered_secondary_index_keys kp q)) ?H ?L)"
    using faulty_run [OF laws upsert_runs [OF laws indexed_scriptable [OF ok upsert(2)] upsert(3)] _ c] upsert(1) c by (auto simp: holds_def)
  moreover have "indexed kp K (?H(k := map_of h)) (put_lists kp k (set (ordered_secondary_index_keys kp q)) ?H ?L)"
    by (rule indexed_put(1) [OF ok upsert(2)]) (use upsert(3) in \<open>simp_all add: hash_of_record_def\<close>)
  ultimately show ?thesis using ok by (auto simp: holds_def)
next
  case (acknowledge k q)
  let ?H = "ds_hash D r" and ?L = "ds_list D r"
  obtain r2 x where c: "faulty_call (ds_fault D) (DLQ_ACKNOWLEDGE_SCRIPT D k (index_key kp)
        (pipeline_index_key kp (q_pipeline_id q), stage_index_key kp (q_stage q), pipeline_stage_index_key kp (q_pipeline_id q) (q_stage q))) r = (r2, x)"
    by (metis prod.collapse)
  have "holds D r' ?H ?L \<or> holds D r' (?H(k := Map.empty)) (drop_lists kp k (ack_names kp (?H k) q) ?L)"
    using faulty_run [OF laws ack_runs [OF laws ok acknowledge(2)] _ c] acknowledge(1) c by (auto simp: holds_def)
  then show ?thesis using ok indexed_ack [OF ok acknowledge(2), of q] by (auto simp: holds_def)
next
  case (replay k s)
  let ?H = "ds_hash D r" and ?L = "ds_list D r"
  obtain r2 x where c: "faulty_call (ds_fault D) (ds_hset D k [(''attempt'', s)]) r = (r2, x)" by (metis prod.collapse)
  have "holds D r' ?H ?L \<or> holds D r' (?H(k := (?H k)(''attempt'' \<mapsto> s))) ?L"
    using faulty_run [OF laws attempt_runs [OF laws ok replay(2)] _ c] replay(1) c by (auto simp: holds_def)
  then show ?thesis using ok indexed_set_field [OF ok replay(2,3), of s] by (auto simp: holds_def)
next
  case (fetch k)
  then have "ds_list D r k = []" using ok by (simp add: indexed_def)
  moreover obtain r2 x where c: "faulty_call (ds_fault D) (ds_hgetall D k) r = (r2, x)" by (metis prod.collapse)
  ultimately show ?thesis using fetch_call [OF laws _ c] fetch(1) ok by simp
qed

section \<open>Operations\<close>

definition scripts_loaded :: "'r redis_dlq_sink \<Rightarrow> bool" where
  "scripts_loaded w \<longleftrightarrow> rk_upsert_script w \<and> rk_acknowledge_script w"

text \<open>A move of a sink makes calls of the kinds above and no others.\<close>

definition sink_moves :: "'r dlq_server \<Rightarrow> string \<Rightarrow> string set \<Rightarrow> 'r redis_dlq_sink \<Rightarrow> 'r redis_dlq_sink \<Rightarrow> bool" where
  "sink_moves D kp K w w' \<longleftrightarrow>
     (scripts_loaded w \<longrightarrow> scripts_loaded w' \<and> (sink_call D kp K)\<^sup>*\<^sup>* (rk_server w) (rk_server w'))"

lemma sink_moves_order [simp, intro]: "reflp (sink_moves D kp K)" "transp (sink_moves D kp K)"
  unfolding sink_moves_def by (auto simp: reflp_def intro!: transpI intro: rtranclp_trans)

text \<open>The keyspace of the records under \<open>K\<close>; the configuration is of a single server.\<close>

definition keyspace_of :: "redis_dlq_config \<Rightarrow> string \<Rightarrow> string set \<Rightarrow> bool" where
  "keyspace_of cf kp K \<longleftrightarrow> \<not> rq_redis_cluster cf \<and> kp = ks_storage_key_prefix (rq_keyspace cf) \<and>
     (\<forall>k \<in> K. prefix (kp @ '':'') k)"

lemma keyspace_prefix: "\<lbrakk>keyspace_of cf kp K; k \<in> K\<rbrakk> \<Longrightarrow> index_prefix_for_record_key (rq_keyspace cf) k = kp"
  by (auto simp: keyspace_of_def index_prefix_for_record_key_def)

lemma send_moves:
  assumes "\<And>r. sink_call D kp K r (fst (faulty_call (ds_fault D) m r))"
  shows "sink_moves D kp K w (fst (send D m w))"
  using assms [of "rk_server w"]
  by (auto simp: sink_moves_def send_def on_server_def scripts_loaded_def split: prod.split)

lemma counter_moves [intro]:
  "sink_moves D kp K w (w\<lparr>rk_write_call_count := a\<rparr>)" "sink_moves D kp K w (w\<lparr>rk_last_write_at := b\<rparr>)"
  "sink_moves D kp K w (w\<lparr>rk_last_replay_at := b\<rparr>)" "sink_moves D kp K w (w\<lparr>rk_last_acknowledge_at := b\<rparr>)"
  "sink_moves D kp K w (w\<lparr>rk_write_batch_call_count := a\<rparr>)"
  "sink_moves D kp K w (w\<lparr>rk_upserted_record_count := c, rk_inserted_record_count := d, rk_updated_record_count := e\<rparr>)"
  "sink_moves D kp K w (w\<lparr>rk_inserted_record_count := d, rk_updated_record_count := e, rk_upserted_record_count := c\<rparr>)"
  "sink_moves D kp K w (w\<lparr>rk_replay_count := c, rk_replayed_record_count := d\<rparr>)"
  "sink_moves D kp K w (w\<lparr>rk_acknowledge_count := c, rk_acknowledged_record_count := d\<rparr>)"
  "sink_moves D kp K w (w\<lparr>rk_uuids := c\<rparr>)" "sink_moves D kp K w (w\<lparr>rk_clock := c\<rparr>)" "sink_moves D kp K w w"
  by (auto simp: sink_moves_def scripts_loaded_def)

lemma helper_moves [intro]:
  "preserves (sink_moves D kp K) require_client" "preserves (sink_moves D kp K) (lift_pure x)"
  "preserves (sink_moves D kp K) (key_of cf q)" "preserves (sink_moves D kp K) (read_clock cf)"
  by (auto simp: preserves_def require_client_def lift_pure_def key_of_def read_clock_def Let_def)

lemma moves_when_loaded:
  "\<lbrakk>\<And>w. scripts_loaded w \<Longrightarrow> f w = g w; preserves (sink_moves D kp K) g\<rbrakk> \<Longrightarrow> preserves (sink_moves D kp K) f"
  unfolding preserves_def sink_moves_def by metis

lemma bind_lift_pure [simp]: "bindE (lift_pure x) f w = (case x of Inl e \<Rightarrow> (w, Inl e) | Inr a \<Rightarrow> f a w)"
  by (cases x) (simp_all add: bindE_def lift_pure_def)

lemma send_preserves:
  "(\<And>r. sink_call D kp K r (fst (faulty_call (ds_fault D) m r))) \<Longrightarrow> preserves (sink_moves D kp K) (send D m)"
  by (simp add: preserves_def send_moves)

lemma write_record_moves [intro]:
  assumes "keyspace_of cf kp K" "k \<in> K"
  shows "preserves (sink_moves D kp K) (write_record D J cf q k)"
proof -
  have kp: "index_prefix_for_record_key (rq_keyspace cf) k = kp" "ks_storage_key_prefix (rq_keyspace cf) = kp"
    using keyspace_prefix [OF assms] assms(1) by (simp_all add: keyspace_of_def)
  show ?thesis
  proof (cases "record_hash J cf q k kp")
    case (Inl e)
    then show ?thesis by (auto simp: preserves_def write_record_def Let_def kp)
  next
    case (Inr h)
    let ?upsert = "send D (DLQ_UPSERT_SCRIPT D k (index_key kp) (ordered_secondary_index_keys kp q) h)"
    show ?thesis
    proof (rule moves_when_loaded [where g = "bindE ?upsert (\<lambda>inserted. returnE (inserted = 1))"])
      show "preserves (sink_moves D kp K) (bindE ?upsert (\<lambda>inserted. returnE (inserted = 1)))"
        by (intro preserves_bind send_preserves preserves_basic sink_moves_order upsert assms(2) record_hash_shape [OF Inr])
    qed (simp add: write_record_def Let_def kp Inr scripts_loaded_def)
  qed
qed

lemma acknowledge_record_moves [intro]:
  assumes "keyspace_of cf kp K" "k \<in> K"
  shows "preserves (sink_moves D kp K) (acknowledge_record D cf q k)"
proof -
  have kp: "index_prefix_for_record_key (rq_keyspace cf) k = kp" "ks_storage_key_prefix (rq_keyspace cf) = kp" "\<not> rq_redis_cluster cf"
    using keyspace_prefix [OF assms] assms(1) by (simp_all add: keyspace_of_def)
  let ?ack = "send D (DLQ_ACKNOWLEDGE_SCRIPT D k (index_key kp)
     (pipeline_index_key kp (q_pipeline_id q), stage_index_key kp (q_stage q), pipeline_stage_index_key kp (q_pipeline_id q) (q_stage q)))"
  have ack: "preserves (sink_moves D kp K) (thenE ?ack (returnE ()))"
    by (intro preserves_then send_preserves preserves_basic sink_moves_order acknowledge assms(2))
  have "preserves (sink_moves D kp K) (send D (ds_hgetall D k))"
    by (intro send_preserves fetch assms(2))
  then show ?thesis
    unfolding acknowledge_record_def Let_def kp
    by (rule preserves_bind [OF sink_moves_order(2)])
      (rule moves_when_loaded [OF _ ack], simp add: scripts_loaded_def kp(3))
qed

lemma preserves_key_of:
  assumes "\<And>u. preserves (sink_moves D kp K) (f (record_key (rq_keyspace cf) u q))"
  shows "preserves (sink_moves D kp K) (bindE (key_of cf q) f)"
proof -
  have "sink_moves D kp K w (fst (bindE (key_of cf q) f w))" for w
  proof -
    let ?w = "w\<lparr>rk_uuids := Suc (rk_uuids w)\<rparr>" and ?k = "record_key (rq_keyspace cf) (rq_uuid cf (rk_uuids w)) q"
    have "sink_moves D kp K w (fst (f ?k w))" "sink_moves D kp K ?w (fst (f ?k ?w))"
      using assms by (simp_all add: preserves_def)
    moreover have "sink_moves D kp K w ?w" by (rule counter_moves)
    ultimately show ?thesis using transpD [OF sink_moves_order(2)]
      by (simp add: bindE_def key_of_def Let_def) blast
  qed
  then show ?thesis by (simp add: preserves_def)
qed

lemma preserves_count: "(\<And>w. sink_moves D kp K w (f w)) \<Longrightarrow> preserves (sink_moves D kp K) (modifyE f)"
  by (rule preserves_basic)

lemma dlq_write_moves:
  assumes "keyspace_of cf kp K" "\<And>u. record_key (rq_keyspace cf) u q \<in> K"
  shows "preserves (sink_moves D kp K) (dlq_write D J cf q)"
  unfolding dlq_write_def Let_def
  by (intro preserves_then preserves_bind preserves_key_of write_record_moves sink_moves_order helper_moves preserves_basic(1)
      preserves_count assms counter_moves)

lemma write_each_moves:
  assumes "keyspace_of cf kp K" "\<And>q u. q \<in> set qs \<Longrightarrow> record_key (rq_keyspace cf) u q \<in> K"
  shows "preserves (sink_moves D kp K) (write_each D J cf qs)"
  using assms(2)
proof (induction qs)
  case (Cons q qs)
  then show ?case
    unfolding write_each.simps Let_def
    by (intro preserves_bind preserves_key_of write_record_moves assms(1) sink_moves_order preserves_basic(1)) simp_all
qed (simp add: preserves_basic(1))

lemma dlq_write_batch_moves:
  assumes "keyspace_of cf kp K" "\<And>q u. q \<in> set qs \<Longrightarrow> record_key (rq_keyspace cf) u q \<in> K"
  shows "preserves (sink_moves D kp K) (dlq_write_batch D J cf qs)"
proof (cases "qs = []")
  case True
  show ?thesis unfolding dlq_write_batch_def True if_P [OF refl]
    by (intro preserves_then sink_moves_order helper_moves preserves_basic(1))
next
  case False
  show ?thesis unfolding dlq_write_batch_def if_not_P [OF False]
    by (intro preserves_then preserves_bind sink_moves_order helper_moves preserves_basic(1) preserves_count
        counter_moves write_each_moves [OF assms(1)]) (rule assms(2))
qed

lemma dlq_acknowledge_moves:
  assumes "keyspace_of cf kp K" "\<And>k. existing_record_key q = Inr k \<Longrightarrow> k \<in> K"
  shows "preserves (sink_moves D kp K) (dlq_acknowledge D cf q)"
proof (cases "existing_record_key q")
  case (Inl e)
  then have "(\<lambda>w. bindE (lift_pure (existing_record_key q)) f w) = lift_pure (Inl e)" for f :: "string \<Rightarrow> ('a, unit) dlq_op"
    by (simp add: lift_pure_def fun_eq_iff)
  then show ?thesis unfolding dlq_acknowledge_def by (intro preserves_then helper_moves sink_moves_order) (simp only: helper_moves)
next
  case (Inr k)
  have "(\<lambda>w. bindE (lift_pure (existing_record_key q)) f w) = f k" for f :: "string \<Rightarrow> ('a, unit) dlq_op"
    by (simp add: Inr fun_eq_iff)
  then show ?thesis using assms(2) [OF Inr] unfolding dlq_acknowledge_def
    by (simp only:) (intro preserves_then preserves_bind acknowledge_record_moves assms(1) sink_moves_order helper_moves preserves_count counter_moves)
qed

lemma moves_bind:
  assumes "sink_moves D kp K w (fst (m w))" "\<And>a. preserves (sink_moves D kp K) (f a)"
  shows "sink_moves D kp K w (fst (bindE m f w))"
  using assms transpD [OF sink_moves_order(2), of D kp K w]
  by (cases "m w"; cases "snd (m w)") (auto simp: bindE_def preserves_def)

lemma dlq_replay_moves:
  assumes "scripts_loaded w" "\<And>k. existing_record_key q = Inr k \<Longrightarrow> k \<in> K \<and> ds_hash D (rk_server w) k \<noteq> Map.empty"
  shows "sink_moves D kp K w (fst (dlq_replay D cf f q w))"
proof (cases "rk_client w \<and> existing_record_key q \<noteq> Inl (projl (existing_record_key q)) \<and> f q = Inr (projr (f q))")
  case False
  then show ?thesis
    by (cases "existing_record_key q"; cases "f q")
      (auto simp: dlq_replay_def thenE_def require_client_def bindE_def [of require_client] lift_pure_def)
next
  case True
  then obtain k q' where k: "existing_record_key q = Inr k" and q': "f q = Inr q'" by (cases "existing_record_key q") auto
  let ?m = "ds_hset D k [(''attempt'', str_of_int (q_attempt q'))]"
  let ?rest = "\<lambda>_. thenE (modifyE (\<lambda>w. w\<lparr>rk_replay_count := Suc (rk_replay_count w),
                rk_replayed_record_count := Suc (rk_replayed_record_count w)\<rparr>))
      (bindE (read_clock cf) (\<lambda>now.
       thenE (modifyE (\<lambda>w. w\<lparr>rk_last_replay_at := Some now\<rparr>)) (returnE (q'\<lparr>q_storage_id := Some k\<rparr>))))"
  have run: "dlq_replay D cf f q w = bindE (send D ?m) ?rest w"
    using True by (simp add: dlq_replay_def thenE_def require_client_def bindE_def [of require_client] k q')
  have "sink_moves D kp K w (fst (send D ?m w))"
    using assms(2) [OF k] by (auto simp: sink_moves_def send_def on_server_def scripts_loaded_def split: prod.split
        intro!: r_into_rtranclp replay dest: arg_cong [where f = fst])
  moreover have "preserves (sink_moves D kp K) (?rest a)" for a
    by (intro preserves_then preserves_bind sink_moves_order helper_moves preserves_basic(1) preserves_count counter_moves)
  ultimately show ?thesis unfolding run by (rule moves_bind)
qed


text \<open>
  The operations of the sinks of a keyspace, each sink with its own configuration, counters and clock; a record has a
  key under \<open>K\<close> or gets one, and what is replayed is still there.
\<close>

inductive dlq_call :: "'r dlq_server \<Rightarrow> hash_codec \<Rightarrow> string \<Rightarrow> string set \<Rightarrow> 'r \<Rightarrow> 'r \<Rightarrow> bool"
  for D J kp K where
  write_one: "\<lbrakk>scripts_loaded w; keyspace_of cf kp K; \<And>u. record_key (rq_keyspace cf) u q \<in> K\<rbrakk>
    \<Longrightarrow> dlq_call D J kp K (rk_server w) (rk_server (fst (dlq_write D J cf q w)))"
| write_batch: "\<lbrakk>scripts_loaded w; keyspace_of cf kp K; \<And>q u. q \<in> set qs \<Longrightarrow> record_key (rq_keyspace cf) u q \<in> K\<rbrakk>
    \<Longrightarrow> dlq_call D J kp K (rk_server w) (rk_server (fst (dlq_write_batch D J cf qs w)))"
| acknowledge: "\<lbrakk>scripts_loaded w; keyspace_of cf kp K; \<And>k. existing_record_key q = Inr k \<Longrightarrow> k \<in> K\<rbrakk>
    \<Longrightarrow> dlq_call D J kp K (rk_server w) (rk_server (fst (dlq_acknowledge D cf q w)))"
| replay: "\<lbrakk>scripts_loaded w; keyspace_of cf kp K;
      \<And>k. existing_record_key q = Inr k \<Longrightarrow> k \<in> K \<and> ds_hash D (rk_server w) k \<noteq> Map.empty\<rbrakk>
    \<Longrightarrow> dlq_call D J kp K (rk_server w) (rk_server (fst (dlq_replay D cf replay_record q w)))"

lemma dlq_call_sink_calls: "dlq_call D J kp K r r' \<Longrightarrow> (sink_call D kp K)\<^sup>*\<^sup>* r r'"
proof (induction rule: dlq_call.induct)
  case (write_one w cf q)
  then show ?case using preserves_state [OF dlq_write_moves [OF write_one(2,3), where D = D and J = J], where s = w] by (simp add: sink_moves_def)
next
  case (write_batch w cf qs)
  then show ?case using preserves_state [OF dlq_write_batch_moves [OF write_batch(2,3), where D = D and J = J], where s = w] by (simp add: sink_moves_def)
next
  case (acknowledge w cf q)
  then show ?case using preserves_state [OF dlq_acknowledge_moves [OF acknowledge(2,3), where D = D], where s = w] by (simp add: sink_moves_def)
next
  case (replay w cf q f)
  then show ?case using dlq_replay_moves [OF replay(1,3), where kp = kp and cf = cf and f = f] by (simp add: sink_moves_def)
qed

lemma sink_calls_indexed:
  assumes "dlq_server_laws D" "(sink_call D kp K)\<^sup>*\<^sup>* r r'" "indexed_server D kp K r"
  shows "indexed_server D kp K r'"
  using assms(2,3) by (induction rule: rtranclp_induct) (auto intro: sink_call_indexed [OF assms(1)])

section \<open>Properties\<close>

text \<open>
  C14: the indexes of the dead-letter queue stay consistent.  After any history of writes, batches, acknowledgements and
  replays by any number of sinks of a keyspace, with any policies, whatever calls failed before or after the server ran
  them, the index holds the key of every record there is once and no other, and the indexes by pipeline, by stage and
  by both hold exactly the keys of the records that name them.  Two things are assumed of the history: the keyspace is
  not that of a cluster, where the scripts are not used, and a record is only replayed while it is on the server; the
  replay of a record that was acknowledged meanwhile breaks the indexes (\<open>late_replay_hides_record\<close>).
\<close>

theorem indexes_stay_consistent:
  assumes "dlq_server_laws D" "indexed_server D kp K r" "(dlq_call D J kp K)\<^sup>*\<^sup>* r r'"
  shows "indexed_server D kp K r'"
proof -
  have "(sink_call D kp K)\<^sup>*\<^sup>* r r'"
    using assms(3) by (induction rule: rtranclp_induct) (auto dest: dlq_call_sink_calls)
  then show ?thesis by (rule sink_calls_indexed [OF assms(1) _ assms(2)])
qed

type_synonym sample_server_state = "(string \<Rightarrow> (string, string) dict) \<times> (string \<Rightarrow> string list) \<times> call_fault list"

definition sample_dlq_server :: "sample_server_state dlq_server" where
  "sample_dlq_server =
     \<lparr>ds_hgetall = (\<lambda>k (h, l, f). ((h, l, f), Inr (AList.clearjunk (h k)))),
      ds_hget = (\<lambda>k x (h, l, f). ((h, l, f), Inr (map_of (h k) x))),
      ds_hset = (\<lambda>k d (h, l, f). ((h(k := d @ h k), l, f), Inr ())),
      ds_exists = (\<lambda>k (h, l, f). ((h, l, f), Inr (h k \<noteq> [] \<or> l k \<noteq> []))),
      ds_rpush = (\<lambda>k v (h, l, f). ((h, l(k := l k @ [v]), f), Inr ())),
      ds_lrem = (\<lambda>k v (h, l, f). ((h, l(k := removeAll v (l k)), f), Inr ())),
      ds_lrange = (\<lambda>k (h, l, f). ((h, l, f), Inr (l k))),
      ds_del = (\<lambda>k (h, l, f). ((h(k := []), l(k := []), f), Inr ())),
      ds_fault = (\<lambda>(h, l, f). case f of [] \<Rightarrow> ((h, l, []), NoFault) | x # xs \<Rightarrow> ((h, l, xs), x)),
      ds_hash = (\<lambda>(h, l, f) k. map_of (h k)),
      ds_list = (\<lambda>(h, l, f). l)\<rparr>"

lemma sample_server_laws: "dlq_server_laws sample_dlq_server"
proof -
  have one: "(\<exists>s'. x = (s', y) \<and> P s') \<longleftrightarrow> snd x = y \<and> P (fst x)" for x :: "'s \<times> 'x" and y P by (cases x) auto
  have empty: "map_of xs = Map.empty \<longleftrightarrow> xs = []" for xs :: "(string, string) dict" by (cases xs) auto
  have upd: "(\<lambda>x. map_of ((h(k := d)) x)) = (\<lambda>x. map_of (h x))(k := map_of d)"
    for h :: "string \<Rightarrow> (string, string) dict" and k d by auto
  show ?thesis unfolding dlq_server_laws_def one
    by (intro conjI allI impI) (auto simp: sample_dlq_server_def empty upd distinct_clearjunk map_of_clearjunk
        simp del: fun_upd_apply split: list.splits)
qed

definition sample_sink :: "call_fault list \<Rightarrow> sample_server_state redis_dlq_sink" where
  "sample_sink faults = fst (dlq_sink_open (redis_dlq_sink_init ((\<lambda>_. []), (\<lambda>_. []), faults)))"

definition sample_keys :: "string set" where
  "sample_keys = {k. prefix ''dlq:'' k} - index_keys ''dlq''"

lemma sample_keyspace: "keyspace_of (sample_dlq_config policy) ''dlq'' sample_keys"
  by (auto simp: keyspace_of_def sample_dlq_config_def dlq_keyspace_init_def cluster_storage_prefix_def sample_keys_def Let_def)

lemma sample_key: "c \<noteq> CHR ''_'' \<Longrightarrow> ''dlq:'' @ c # s \<in> sample_keys"
  by (auto simp: sample_keys_def index_keys_def secondary_keys_def index_key_def pipeline_index_key_def stage_index_key_def
      pipeline_stage_index_key_def)

lemma sample_sink_start [simp]:
  "scripts_loaded (sample_sink faults)" "rk_server (sample_sink faults) = ((\<lambda>_. []), (\<lambda>_. []), faults)"
  "rk_client (sample_sink faults)"
  by (simp_all add: sample_sink_def dlq_sink_open_def redis_dlq_sink_init_def scripts_loaded_def)

lemma sample_server_indexed: "indexed_server sample_dlq_server ''dlq'' sample_keys ((\<lambda>_. []), (\<lambda>_. []), faults)"
  by (auto simp: indexed_def sample_dlq_server_def sample_keys_def)

theorem indexes_stay_consistent_witness:
  "\<exists>w. w = fst (dlq_write_batch sample_dlq_server sample_hash_codec (sample_dlq_config None)
          [sample_record\<lparr>q_storage_id := Some ''dlq:a''\<rparr>, sample_record\<lparr>q_storage_id := Some ''dlq:b''\<rparr>]
          (sample_sink [NoFault, LostReply (RuntimeError ''reset'')])) \<and>
     indexed_server sample_dlq_server ''dlq'' sample_keys
       (rk_server (fst (dlq_acknowledge sample_dlq_server (sample_dlq_config None) (sample_record\<lparr>q_storage_id := Some ''dlq:a''\<rparr>) w)))"
proof -
  let ?cf = "sample_dlq_config None" and ?a = "sample_record\<lparr>q_storage_id := Some ''dlq:a''\<rparr>"
  let ?b = "sample_record\<lparr>q_storage_id := Some ''dlq:b''\<rparr>" and ?start = "sample_sink [NoFault, LostReply (RuntimeError ''reset'')]"
  let ?w = "fst (dlq_write_batch sample_dlq_server sample_hash_codec ?cf [?a, ?b] ?start)"
  let ?call = "dlq_call sample_dlq_server sample_hash_codec ''dlq'' sample_keys"
  have keys: "''dlq:a'' \<in> sample_keys" "''dlq:b'' \<in> sample_keys"
    using sample_key [of "CHR ''a''" "[]"] sample_key [of "CHR ''b''" "[]"] by simp_all
  have key: "record_key (rq_keyspace ?cf) u q \<in> sample_keys" if "q \<in> set [?a, ?b]" for u q
    using that keys by (auto simp: record_key_def)
  have "?call (rk_server ?start) (rk_server ?w)"
    by (rule write_batch [where w = ?start and cf = ?cf]) (use key in \<open>simp_all add: sample_keyspace\<close>)
  moreover have "scripts_loaded ?w"
    using preserves_state [OF dlq_write_batch_moves [OF sample_keyspace key, where qs = "[?a, ?b]" and D = sample_dlq_server and J = sample_hash_codec], where s = ?start] by (simp add: sink_moves_def)
  then have "?call (rk_server ?w) (rk_server (fst (dlq_acknowledge sample_dlq_server ?cf ?a ?w)))"
    by (rule dlq_call.acknowledge [where w = ?w and cf = ?cf]) (use keys in \<open>simp_all add: sample_keyspace existing_record_key_def\<close>)
  ultimately have "?call\<^sup>*\<^sup>* (rk_server ?start) (rk_server (fst (dlq_acknowledge sample_dlq_server ?cf ?a ?w)))" by (rule rtranclp.rtrancl_into_rtrancl [OF r_into_rtranclp])
  from indexes_stay_consistent [OF sample_server_laws _ this] sample_server_indexed show ?thesis by simp
qed

text \<open>
  A replay of a record that was acknowledged before leaves a hash with the attempts alone; a later write under the key
  finds it and does not put the key into the index again.
\<close>

lemma late_replay_hides_record:
  assumes laws: "dlq_server_laws D" and ok: "indexed kp K H L" and k: "k \<in> K" and gone: "H k = Map.empty"
    and h: "hash_of_record kp q h"
  obtains L' where "runs D (thenE (ds_hset D k [(''attempt'', s)])
      (DLQ_UPSERT_SCRIPT D k (index_key kp) (ordered_secondary_index_keys kp q) h)) H L 0 (H(k := map_of h)) L'"
    "k \<notin> set (L' (index_key kp))"
proof -
  let ?H = "H(k := [''attempt'' \<mapsto> s])"
  note sc = indexed_scriptable [OF ok k]
  have named: "named_keys [''attempt'' \<mapsto> s] = {}" by (simp add: named_keys_def)
  have set: "runs D (ds_hset D k [(''attempt'', s)]) H L () ?H L" using attempt_runs [OF laws ok k, of s] gone by simp
  have "scriptable kp k ?H L" using sc named by (auto simp: scriptable_def HASH_FIELDS_def)
  from upsert_runs [OF laws this h]
  have run: "runs D (DLQ_UPSERT_SCRIPT D k (index_key kp) (ordered_secondary_index_keys kp q) h) ?H L 0 (H(k := map_of h))
      (put_lists kp k (set (ordered_secondary_index_keys kp q)) ?H L)" by simp
  have "index_key kp \<notin> set (ordered_secondary_index_keys kp q)"
    using ordered_secondary_index_keys_facts(2) [of kp q] index_key_not_secondary by blast
  then have "put_lists kp k (set (ordered_secondary_index_keys kp q)) ?H L (index_key kp) = L (index_key kp)"
    using named by (simp add: put_lists_def)
  moreover have "k \<notin> set (L (index_key kp))" using ok gone by (auto simp: indexed_def)
  ultimately show thesis using that [OF runs_then [OF set run]] by simp
qed

end
