(* ===== verification/Redis_DLQ_Store.thy ===== *)
theory Redis_DLQ_Store
  imports Redis_DLQ_Index
begin

text \<open>
  What the dead-letter queue in Redis promises: its hashes and index lists stand for a dictionary from storage keys to
  records and attempts (\<open>represents\<close>), the operations of the sink act on it as on a dictionary, and a scan of the
  source returns its records.  The source is run on a server that answers every call (\<open>reads\<close>).
\<close>

section \<open>What the server holds for a dictionary of dead letters\<close>

text \<open>The records under their keys, each with its attempts, in the order of the index.\<close>

type_synonym letters = "(string, dlq_record \<times> int) dict"

definition hash_for :: "hash_codec \<Rightarrow> dlq_policy option \<Rightarrow> string \<Rightarrow> string \<Rightarrow> dlq_record \<Rightarrow> int \<Rightarrow> (string \<rightharpoonup> string) \<Rightarrow> bool" where
  "hash_for J policy kp k q n m \<longleftrightarrow> storable J policy q \<and>
     (\<exists>cf h. rq_payload_policy cf = policy \<and> record_hash J cf q k kp = Inr h \<and> m = (map_of h)(''attempt'' \<mapsto> str_of_int n))"

definition represents ::
    "'r dlq_server \<Rightarrow> hash_codec \<Rightarrow> dlq_policy option \<Rightarrow> string \<Rightarrow> string set \<Rightarrow> letters \<Rightarrow> 'r \<Rightarrow> bool" where
  "represents D J policy kp K ls r \<longleftrightarrow> indexed_server D kp K r \<and> ds_list D r (index_key kp) = dict_keys ls \<and>
     (\<forall>k q n. dict_get ls k = Some (q, n) \<longrightarrow> hash_for J policy kp k q n (ds_hash D r k))"

lemma represents_keys:
  assumes "represents D J policy kp K ls r"
  shows "dict_wf ls" "dict_get ls k = None \<longleftrightarrow> k \<notin> K \<or> ds_hash D r k = Map.empty"
proof -
  have "ds_list D r (index_key kp) = dict_keys ls" using assms by (simp add: represents_def)
  moreover have "distinct (ds_list D r (index_key kp))" "set (ds_list D r (index_key kp)) = {k \<in> K. ds_hash D r k \<noteq> Map.empty}"
    using assms [unfolded represents_def, THEN conjunct1] by (simp_all add: indexed_def)
  ultimately have "distinct (dict_keys ls)" "set (dict_keys ls) = {k \<in> K. ds_hash D r k \<noteq> Map.empty}" by simp_all
  then show "dict_wf ls" "dict_get ls k = None \<longleftrightarrow> k \<notin> K \<or> ds_hash D r k = Map.empty"
    unfolding dict_wf_def map_of_eq_None_iff by auto
qed

datatype dlq_request = PutRecord dlq_record | Acknowledge dlq_record | Replay dlq_record

text \<open>What the requests mean for the dictionary; \<open>k\<close> is the key of a new record.\<close>

fun letters_after :: "(dlq_record \<Rightarrow> dlq_record result) \<Rightarrow> string \<Rightarrow> dlq_request \<Rightarrow> letters \<Rightarrow> letters" where
  "letters_after replay_record k (PutRecord q) ls = dict_set k (q\<lparr>q_storage_id := Some k\<rparr>, q_attempt q) ls"
| "letters_after replay_record k (Acknowledge q) ls = dict_pop k ls"
| "letters_after replay_record k (Replay q) ls =
     (case (dict_get ls k, replay_record q) of
        (Some (q0, _), Inr q') \<Rightarrow> dict_set k (q0, q_attempt q') ls
      | _ \<Rightarrow> ls)"

fun dlq_serve ::
    "'r dlq_server \<Rightarrow> hash_codec \<Rightarrow> redis_dlq_config \<Rightarrow> (dlq_record \<Rightarrow> dlq_record result) \<Rightarrow> dlq_request \<Rightarrow> ('r, unit) dlq_op" where
  "dlq_serve D J cf f (PutRecord q) = thenE (dlq_write D J cf q) (returnE ())"
| "dlq_serve D J cf f (Acknowledge q) = dlq_acknowledge D cf q"
| "dlq_serve D J cf f (Replay q) = thenE (dlq_replay D cf f q) (returnE ())"

section \<open>The hashes of records\<close>

lemma storable_storage_id [simp]: "storable J policy (q\<lparr>q_storage_id := x\<rparr>) = storable J policy q"
proof -
  have b: "blanked (q\<lparr>q_storage_id := x\<rparr>) = (blanked q)\<lparr>q_storage_id := x\<rparr>" by (simp add: blanked_def)
  have s: "stored_record R policy (q\<lparr>q_storage_id := x\<rparr>) = (stored_record R policy q)\<lparr>q_storage_id := x\<rparr>" for R q
    by (simp add: stored_record_def redact_record_def split: option.split)
  have p: "raw_payload (q\<lparr>q_storage_id := x\<rparr>) = raw_payload q" for q by (simp add: raw_payload_def)
  show ?thesis by (simp add: storable_def b s p wf_record_def contents_def hash_payload_def cipher_inverse_def)
qed

lemma record_hash_attempt:
  assumes "storable J policy q" "record_hash J cf q k kp = Inr h" "rq_payload_policy cf = policy"
  shows "map_of h ''attempt'' = Some (str_of_int (q_attempt q))"
proof -
  obtain p where p: "record_to_hash J policy q = Inr p"
    and h: "map_of h = (map_of p)(''storage_key'' \<mapsto> k, PIPELINE_FIELD \<mapsto> pipeline_index_key kp (q_pipeline_id q),
       STAGE_FIELD \<mapsto> stage_index_key kp (q_stage q), PIPELINE_STAGE_FIELD \<mapsto> pipeline_stage_index_key kp (q_pipeline_id q) (q_stage q))"
    by (rule record_hash_fields [OF assms(2), unfolded assms(3)])
  have "map_of p ''attempt'' = Some (str_of_int (q_attempt q))"
  proof (cases "encrypts policy")
    case False
    then show ?thesis using record_to_hash_plain [OF assms(1) False] p by (simp add: plain_hash_def)
  next
    case True
    then obtain po where po: "policy = Some po" "dp_mode po = ''encrypted''" by (cases policy) (auto simp: encrypts_def)
    have w: "wf_record (base_codec J) (blanked q)" using assms(1) by (simp add: storable_def wf_record_def)
    have "policy_apply (cd_repr J) po (PDict (hash_payload q)) = PDict (raw_payload (blanked q))"
      using po(2) by (simp add: policy_apply_def hash_payload_def)
    then show ?thesis using p po
      by (auto simp: record_to_hash_def dict_of_def payload_to_hash_raw [OF w] result_simps dict_update_def update_conv' plain_hash_def)
  qed
  then show ?thesis by (simp add: h)
qed

lemma hash_for_written:
  assumes "storable J policy q" "record_hash J cf q k kp = Inr h" "rq_payload_policy cf = policy"
  shows "hash_for J policy kp k q (q_attempt q) (map_of h)"
  unfolding hash_for_def using assms record_hash_attempt [OF assms]
  by (intro conjI exI [of _ cf] exI [of _ h]) (simp_all add: map_upd_triv)

lemma hash_for_attempt: "hash_for J policy kp k q n m \<Longrightarrow> hash_for J policy kp k q n' (m(''attempt'' \<mapsto> str_of_int n'))"
  unfolding hash_for_def by (elim conjE exE) (auto intro!: exI)

section \<open>The dictionary after a call\<close>

lemma represents_put:
  assumes rep: "represents D J policy kp K ls r" and k: "k \<in> K"
    and h: "record_hash J cf q k kp = Inr h" "rq_payload_policy cf = policy" "storable J policy q"
    and r': "holds D r' ((ds_hash D r)(k := map_of h)) (put_lists kp k (set (ordered_secondary_index_keys kp q)) (ds_hash D r) (ds_list D r))"
  shows "represents D J policy kp K (dict_set k (q, q_attempt q) ls) r'"
proof -
  have ok: "indexed_server D kp K r" using rep by (simp add: represents_def)
  note shape = record_hash_shape [OF h(1), unfolded hash_of_record_def]
  note put = indexed_put [OF ok k, of "map_of h" "set (ordered_secondary_index_keys kp q)"]
  have "put_lists kp k (set (ordered_secondary_index_keys kp q)) (ds_hash D r) (ds_list D r) (index_key kp) =
      dict_keys (dict_set k (q, q_attempt q) ls)"
    using put(2) shape rep represents_keys(2) [OF rep, of k] k
    by (auto simp: AList.update_keys represents_def map_of_eq_None_iff)
  moreover have "hash_for J policy kp k' q' n (((ds_hash D r)(k := map_of h)) k')"
    if "dict_get (dict_set k (q, q_attempt q) ls) k' = Some (q', n)" for k' q' n
    using that rep hash_for_written [OF h(3,1,2)] by (auto simp: represents_def split: if_splits)
  ultimately show ?thesis using put(1) shape r' by (simp add: represents_def holds_def)
qed

lemma represents_drop:
  assumes rep: "represents D J policy kp K ls r" and k: "k \<in> K"
    and r': "holds D r' ((ds_hash D r)(k := Map.empty)) (drop_lists kp k (ack_names kp (ds_hash D r k) q) (ds_list D r))"
  shows "represents D J policy kp K (dict_pop k ls) r'"
proof -
  have ok: "indexed_server D kp K r" using rep by (simp add: represents_def)
  have "hash_for J policy kp k' q' n (((ds_hash D r)(k := Map.empty)) k')"
    if "dict_get (dict_pop k ls) k' = Some (q', n)" for k' q' n
    using that rep by (auto simp: represents_def split: if_splits)
  moreover have "drop_lists kp k names (ds_list D r) (index_key kp) = dict_keys (dict_pop k ls)" for names
    using rep by (simp add: drop_lists_def represents_def AList.delete_keys)
  ultimately show ?thesis using indexed_ack [OF ok k, of q] r' by (simp add: represents_def holds_def)
qed

lemma represents_attempt:
  assumes rep: "represents D J policy kp K ls r" and k: "dict_get ls k = Some (q, n)"
    and r': "holds D r' ((ds_hash D r)(k := (ds_hash D r k)(''attempt'' \<mapsto> str_of_int m))) (ds_list D r)"
  shows "represents D J policy kp K (dict_set k (q, m) ls) r'"
proof -
  have ok: "indexed_server D kp K r" using rep by (simp add: represents_def)
  have kk: "k \<in> K" "ds_hash D r k \<noteq> Map.empty" "k \<in> fst ` set ls"
    using represents_keys(2) [OF rep, of k] k by (auto simp: rev_image_eqI dest: map_of_SomeD)
  have "hash_for J policy kp k' q' n' (((ds_hash D r)(k := (ds_hash D r k)(''attempt'' \<mapsto> str_of_int m))) k')"
    if "dict_get (dict_set k (q, m) ls) k' = Some (q', n')" for k' q' n'
    using that rep k by (auto simp: represents_def intro: hash_for_attempt split: if_splits)
  moreover have "dict_keys (dict_set k (q, m) ls) = ds_list D r (index_key kp)"
    using rep kk(3) by (simp add: represents_def AList.update_keys)
  ultimately show ?thesis using indexed_set_field [OF ok kk(1,2), of "str_of_int m"] r' by (simp add: represents_def holds_def)
qed


section \<open>The operations\<close>

lemma on_server_fields: "on_server m w = (w\<lparr>rk_server := fst (m (rk_server w))\<rparr>, snd (m (rk_server w)))"
  by (simp add: on_server_def split: prod.split)

lemma send_fields:
  "send D m w = (w\<lparr>rk_server := fst (faulty_call (ds_fault D) m (rk_server w))\<rparr>, snd (faulty_call (ds_fault D) m (rk_server w)))"
  by (simp add: send_def on_server_fields)

text \<open>A call of an operation that leaves the server as \<open>m\<close> does, and raises if \<open>m\<close> does.\<close>

definition acts :: "'r dlq_server \<Rightarrow> ('r, 'a) dlq_op \<Rightarrow> ('r, 'b) eff \<Rightarrow> 'r redis_dlq_sink \<Rightarrow> bool" where
  "acts D p m w \<longleftrightarrow> rk_server (fst (p w)) = fst (faulty_call (ds_fault D) m (rk_server w)) \<and>
     ((\<exists>e. snd (faulty_call (ds_fault D) m (rk_server w)) = Inl e) \<longrightarrow> (\<exists>e. snd (p w) = Inl e))"

lemma acts_cases:
  assumes laws: "dlq_server_laws D" and run: "runs D m (ds_hash D (rk_server w)) (ds_list D (rk_server w)) a H' L'"
    and acts: "acts D p m w" "p w = (w', x)"
  shows "holds D (rk_server w') H' L' \<or>
    (holds D (rk_server w') (ds_hash D (rk_server w)) (ds_list D (rk_server w)) \<and> (\<exists>e. x = Inl e))"
proof -
  obtain r' y where c: "faulty_call (ds_fault D) m (rk_server w) = (r', y)" by (metis prod.collapse)
  have "rk_server w' = r'" "\<forall>e. y = Inl e \<longrightarrow> (\<exists>e. x = Inl e)" using acts c by (auto simp: acts_def)
  then show ?thesis using faulty_run [OF laws run _ c] by (auto simp: holds_def)
qed

lemma write_acts:
  assumes w: "scripts_loaded w" "rk_client w" and ks: "keyspace_of cf kp K" "k \<in> K"
    and k: "k = record_key (rq_keyspace cf) (rq_uuid cf (rk_uuids w)) q"
  shows "case record_hash J cf (q\<lparr>q_storage_id := Some k\<rparr>) k kp of
      Inl e \<Rightarrow> rk_server (fst (dlq_write D J cf q w)) = rk_server w \<and> snd (dlq_write D J cf q w) = Inl e
    | Inr h \<Rightarrow> acts D (dlq_write D J cf q)
        (DLQ_UPSERT_SCRIPT D k (index_key kp) (ordered_secondary_index_keys kp (q\<lparr>q_storage_id := Some k\<rparr>)) h) w"
proof -
  have kp: "index_prefix_for_record_key (rq_keyspace cf) k = kp" "ks_storage_key_prefix (rq_keyspace cf) = kp"
    using keyspace_prefix [OF ks] ks(1) by (simp_all add: keyspace_of_def)
  show ?thesis
    using w by (cases "record_hash J cf (q\<lparr>q_storage_id := Some k\<rparr>) k kp")
      (auto simp: dlq_write_def thenE_def require_client_def key_of_def Let_def k [symmetric] write_record_def kp scripts_loaded_def
        acts_def send_def on_server_fields bindE_def lift_pure_def read_clock_def split: prod.splits sum.splits)
qed


lemma acknowledge_acts:
  assumes w: "scripts_loaded w" "rk_client w" and ks: "keyspace_of cf kp K" "k \<in> K" and k: "existing_record_key q = Inr k"
  shows "case faulty_call (ds_fault D) (ds_hgetall D k) (rk_server w) of
      (r, Inl e) \<Rightarrow> rk_server (fst (dlq_acknowledge D cf q w)) = r \<and> snd (dlq_acknowledge D cf q w) = Inl e
    | (r, Inr d) \<Rightarrow> (\<exists>p w1. dlq_acknowledge D cf q w = p w1 \<and> rk_server w1 = r \<and> acts D p (DLQ_ACKNOWLEDGE_SCRIPT D k (index_key kp)
        (pipeline_index_key kp (q_pipeline_id q), stage_index_key kp (q_stage q), pipeline_stage_index_key kp (q_pipeline_id q) (q_stage q))) w1)"
proof -
  have kp: "index_prefix_for_record_key (rq_keyspace cf) k = kp" "ks_storage_key_prefix (rq_keyspace cf) = kp" "\<not> rq_redis_cluster cf"
    using keyspace_prefix [OF ks] ks(1) by (simp_all add: keyspace_of_def)
  obtain r y where c: "faulty_call (ds_fault D) (ds_hgetall D k) (rk_server w) = (r, y)" by (metis prod.collapse)
  let ?ack = "send D (DLQ_ACKNOWLEDGE_SCRIPT D k (index_key kp)
        (pipeline_index_key kp (q_pipeline_id q), stage_index_key kp (q_stage q), pipeline_stage_index_key kp (q_pipeline_id q) (q_stage q)))"
  let ?p = "bindE (thenE ?ack (returnE ())) (\<lambda>_. thenE (modifyE (\<lambda>w. w\<lparr>rk_acknowledge_count := Suc (rk_acknowledge_count w),
                rk_acknowledged_record_count := Suc (rk_acknowledged_record_count w)\<rparr>))
      (bindE (read_clock cf) (\<lambda>now. modifyE (\<lambda>w. w\<lparr>rk_last_acknowledge_at := Some now\<rparr>))))"
  have run: "acknowledge_record D cf q k w =
      (case y of Inl e \<Rightarrow> (w\<lparr>rk_server := r\<rparr>, Inl e) | Inr d \<Rightarrow> thenE ?ack (returnE ()) (w\<lparr>rk_server := r\<rparr>))"
    using w c by (cases y) (simp_all add: acknowledge_record_def Let_def kp bindE_def [of "send D (ds_hgetall D k)"] send_fields
        scripts_loaded_def)
  have all: "dlq_acknowledge D cf q w = (case y of Inl e \<Rightarrow> (w\<lparr>rk_server := r\<rparr>, Inl e) | Inr d \<Rightarrow> ?p (w\<lparr>rk_server := r\<rparr>))"
    using w by (cases y) (simp_all add: dlq_acknowledge_def thenE_def require_client_def k run bindE_def [of require_client]
        bindE_def [of "acknowledge_record D cf q k"] bindE_def [of "bindE ?ack (\<lambda>_. returnE ())"])
  have acts: "acts D ?p (DLQ_ACKNOWLEDGE_SCRIPT D k (index_key kp)
        (pipeline_index_key kp (q_pipeline_id q), stage_index_key kp (q_stage q), pipeline_stage_index_key kp (q_pipeline_id q) (q_stage q))) w1" for w1
    by (auto simp: acts_def thenE_def bindE_def send_def on_server_fields read_clock_def split: prod.splits sum.splits)
  show ?thesis
  proof (cases y)
    case (Inr d)
    have "dlq_acknowledge D cf q w = ?p (w\<lparr>rk_server := r\<rparr>) \<and> rk_server (w\<lparr>rk_server := r\<rparr>) = r" using all by (simp add: Inr)
    then show ?thesis using acts unfolding c Inr prod.case sum.case
      by (intro exI [of _ ?p] exI [of _ "w\<lparr>rk_server := r\<rparr>"]) blast
  qed (simp add: c all)
qed

lemma replay_acts:
  assumes "rk_client w" "existing_record_key q = Inr k" "f q = Inr q'"
  shows "acts D (dlq_replay D cf f q) (ds_hset D k [(''attempt'', str_of_int (q_attempt q'))]) w"
  using assms by (auto simp: acts_def dlq_replay_def thenE_def require_client_def bindE_def lift_pure_def send_def on_server_fields
      read_clock_def Let_def split: prod.splits sum.splits)

lemma refused_without_client:
  "\<not> rk_client w \<Longrightarrow> dlq_serve D J cf f req w = (w, Inl (RuntimeError ''RedisDLQSink.open() was not called''))"
  by (cases req) (simp_all add: dlq_write_def dlq_acknowledge_def dlq_replay_def thenE_def require_client_def bindE_def)

definition dlq_request_key :: "redis_dlq_config \<Rightarrow> 'r redis_dlq_sink \<Rightarrow> dlq_request \<Rightarrow> string result" where
  "dlq_request_key cf w req =
     (case req of
        PutRecord q \<Rightarrow> Inr (record_key (rq_keyspace cf) (rq_uuid cf (rk_uuids w)) q)
      | Acknowledge q \<Rightarrow> existing_record_key q
      | Replay q \<Rightarrow> existing_record_key q)"

text \<open>Requests for records of the keyspace; what is written can be stored, what is replayed is there.\<close>

definition request_ok :: "hash_codec \<Rightarrow> dlq_policy option \<Rightarrow> string set \<Rightarrow> letters \<Rightarrow> string \<Rightarrow> dlq_request \<Rightarrow> bool" where
  "request_ok J policy K ls k req \<longleftrightarrow> k \<in> K \<and>
     (case req of PutRecord q \<Rightarrow> storable J policy q | Acknowledge q \<Rightarrow> True | Replay q \<Rightarrow> dict_get ls k \<noteq> None)"

lemma then_return: "thenE m (returnE ()) w = (fst (m w), case snd (m w) of Inl e \<Rightarrow> Inl e | Inr a \<Rightarrow> Inr ())"
  by (simp add: thenE_def bindE_def split: prod.split sum.split)


lemma unchanged_represents:
  assumes "represents D J policy kp K ls r" "holds D r' (ds_hash D r) (ds_list D r)"
  shows "represents D J policy kp K ls r'"
  using assms by (simp add: represents_def holds_def)

lemma serve_put:
  assumes laws: "dlq_server_laws D" and rep: "represents D J policy kp K ls (rk_server w)"
    and cf: "keyspace_of cf kp K" "rq_payload_policy cf = policy" and w: "scripts_loaded w" "rk_client w"
    and k: "k = record_key (rq_keyspace cf) (rq_uuid cf (rk_uuids w)) q" "k \<in> K" and q: "storable J policy q"
    and run: "dlq_write D J cf q w = (w', x)"
  shows "represents D J policy kp K (letters_after f k (PutRecord q) ls) (rk_server w') \<or>
    (represents D J policy kp K ls (rk_server w') \<and> (\<exists>e. x = Inl e))"
proof (cases "record_hash J cf (q\<lparr>q_storage_id := Some k\<rparr>) k kp")
  case (Inl e)
  then show ?thesis using write_acts [OF w cf(1) k(2,1), where J = J and D = D] run rep by simp
next
  case (Inr h)
  let ?q = "q\<lparr>q_storage_id := Some k\<rparr>"
  have ok: "indexed_server D kp K (rk_server w)" using rep by (simp add: represents_def)
  have acts: "acts D (dlq_write D J cf q) (DLQ_UPSERT_SCRIPT D k (index_key kp) (ordered_secondary_index_keys kp ?q) h) w"
    using write_acts [OF w cf(1) k(2,1), where J = J and D = D] by (simp add: Inr)
  from acts_cases [OF laws upsert_runs [OF laws indexed_scriptable [OF ok k(2)] record_hash_shape [OF Inr]] this run]
  show ?thesis
  proof
    assume "holds D (rk_server w') ((ds_hash D (rk_server w))(k := map_of h))
       (put_lists kp k (set (ordered_secondary_index_keys kp ?q)) (ds_hash D (rk_server w)) (ds_list D (rk_server w)))"
    from represents_put [OF rep k(2) Inr cf(2) _ this] show ?thesis using q by simp
  qed (use unchanged_represents [OF rep] in blast)
qed

lemma serve_drop:
  assumes laws: "dlq_server_laws D" and rep: "represents D J policy kp K ls (rk_server w)"
    and cf: "keyspace_of cf kp K" and w: "scripts_loaded w" "rk_client w" and k: "existing_record_key q = Inr k" "k \<in> K"
    and run: "dlq_acknowledge D cf q w = (w', x)"
  shows "represents D J policy kp K (dict_pop k ls) (rk_server w') \<or>
    (represents D J policy kp K ls (rk_server w') \<and> (\<exists>e. x = Inl e))"
proof -
  have ok: "indexed_server D kp K (rk_server w)" using rep by (simp add: represents_def)
  obtain r y where c: "faulty_call (ds_fault D) (ds_hgetall D k) (rk_server w) = (r, y)" by (metis prod.collapse)
  have "ds_list D (rk_server w) k = []" using ok k(2) by (simp add: indexed_def)
  from fetch_call [OF laws this c] have same: "holds D r (ds_hash D (rk_server w)) (ds_list D (rk_server w))"
    by (simp add: holds_def)
  have rep': "represents D J policy kp K ls r" by (rule unchanged_represents [OF rep same])
  have ok': "indexed_server D kp K r" using rep' by (simp add: represents_def)
  note acts = acknowledge_acts [OF w cf k(2,1), of D, unfolded c prod.case]
  show ?thesis
  proof (cases y)
    case (Inl e)
    then show ?thesis using acts run rep' by simp
  next
    case (Inr d)
    obtain p w1 where p: "dlq_acknowledge D cf q w = p w1" "rk_server w1 = r"
      "acts D p (DLQ_ACKNOWLEDGE_SCRIPT D k (index_key kp)
        (pipeline_index_key kp (q_pipeline_id q), stage_index_key kp (q_stage q), pipeline_stage_index_key kp (q_pipeline_id q) (q_stage q))) w1"
      using acts by (auto simp: Inr)
    have "p w1 = (w', x)" using p(1) run by simp
    from acts_cases [OF laws ack_runs [OF laws _ k(2)] p(3) this] ok' [folded p(2)]
    have "holds D (rk_server w') ((ds_hash D r)(k := Map.empty)) (drop_lists kp k (ack_names kp (ds_hash D r k) q) (ds_list D r)) \<or>
        holds D (rk_server w') (ds_hash D r) (ds_list D r) \<and> (\<exists>e. x = Inl e)" by (simp add: p(2))
    then show ?thesis using represents_drop [OF rep' k(2)] unchanged_represents [OF rep'] by blast
  qed
qed

lemma serve_replay:
  assumes laws: "dlq_server_laws D" and rep: "represents D J policy kp K ls (rk_server w)"
    and w: "rk_client w" and k: "existing_record_key q = Inr k" "k \<in> K" "dict_get ls k \<noteq> None"
    and run: "dlq_replay D cf f q w = (w', x)"
  shows "represents D J policy kp K (letters_after f k (Replay q) ls) (rk_server w') \<or>
    (represents D J policy kp K ls (rk_server w') \<and> (\<exists>e. x = Inl e))"
proof (cases "f q")
  case (Inl e)
  have "dlq_replay D cf f q w = (w, Inl e)"
    using w k(1) by (simp add: dlq_replay_def thenE_def require_client_def bindE_def [of require_client] Inl)
  then show ?thesis using run rep by auto
next
  case (Inr q')
  obtain q0 n where ls: "dict_get ls k = Some (q0, n)" using k(3) by auto
  have ok: "indexed_server D kp K (rk_server w)" using rep by (simp add: represents_def)
  from acts_cases [OF laws attempt_runs [OF laws ok k(2)] replay_acts [where f = f, OF w k(1) Inr] run]
  show ?thesis using represents_attempt [OF rep ls, of "rk_server w'" "q_attempt q'"] unchanged_represents [OF rep] ls Inr by auto
qed

section \<open>Reads of the source\<close>

text \<open>
  \<open>m\<close> run on a server that holds \<open>H\<close> and \<open>L\<close> returns something that satisfies \<open>P\<close> and changes neither; the server
  answers every call.
\<close>

definition no_faults :: "'r dlq_server \<Rightarrow> bool" where
  "no_faults D \<longleftrightarrow> (\<forall>r. snd (ds_fault D r) = NoFault)"

definition reads :: "'r dlq_server \<Rightarrow> ('r, 'a) source_op \<Rightarrow> hashes \<Rightarrow> lists \<Rightarrow> ('a \<Rightarrow> bool) \<Rightarrow> bool" where
  "reads D m H L P \<longleftrightarrow> (\<forall>w. holds D (ro_server w) H L \<longrightarrow> (\<exists>w' a. m w = (w', Inr a) \<and> P a \<and> holds D (ro_server w') H L))"

lemma reads_return: "P a \<Longrightarrow> reads D (returnE a) H L P"
  by (simp add: reads_def)

lemma reads_bind: "\<lbrakk>reads D m H L P; \<And>a. P a \<Longrightarrow> reads D (f a) H L Q\<rbrakk> \<Longrightarrow> reads D (bindE m f) H L Q"
  by (fastforce simp: reads_def bindE_def)

lemma reads_then: "\<lbrakk>reads D m H L P; reads D n H L Q\<rbrakk> \<Longrightarrow> reads D (thenE m n) H L Q"
  unfolding thenE_def by (rule reads_bind)

lemma reads_modify: "(\<And>w. ro_server (f w) = ro_server w) \<Longrightarrow> reads D (modifyE f) H L (\<lambda>_. True)"
  by (simp add: reads_def)

lemma reads_mono: "\<lbrakk>reads D m H L P; \<And>a. P a \<Longrightarrow> Q a\<rbrakk> \<Longrightarrow> reads D m H L Q"
  by (fastforce simp: reads_def)

lemma reads_lift: "x = Inr a \<Longrightarrow> P a \<Longrightarrow> reads D (lift_pure x) H L P"
  by (simp add: reads_def lift_pure_def)

lemma reads_ask:
  assumes "dlq_server_laws D" "no_faults D" "\<And>r. holds D r H L \<Longrightarrow> \<exists>r' a. m r = (r', Inr a) \<and> P a \<and> holds D r' H L"
  shows "reads D (ask_server D m) H L P"
  unfolding reads_def
proof (intro allI impI)
  fix w :: "_ redis_dlq_source"
  assume h: "holds D (ro_server w) H L"
  obtain r1 where f: "ds_fault D (ro_server w) = (r1, NoFault)" using assms(2) by (metis no_faults_def prod.collapse)
  have "ds_hash D r1 = ds_hash D (ro_server w)" "ds_list D r1 = ds_list D (ro_server w)"
    using assms(1) f unfolding dlq_server_laws_def by (metis fst_conv)+
  then have "holds D r1 H L" using h by (simp add: holds_def)
  from assms(3) [OF this] obtain r' a where "m r1 = (r', Inr a)" "P a" "holds D r' H L" by blast
  then show "\<exists>w' a. ask_server D m w = (w', Inr a) \<and> P a \<and> holds D (ro_server w') H L"
    by (simp add: ask_server_def faulty_call_def f)
qed

lemma reads_hgetall:
  assumes "dlq_server_laws D" "no_faults D" "L k = []"
  shows "reads D (ask_server D (ds_hgetall D k)) H L (\<lambda>d. map_of d = H k)"
proof (rule reads_ask [OF assms(1,2)])
  fix r
  assume h: "holds D r H L"
  then have "ds_list D r k = []" using assms(3) by (simp add: holds_def)
  then obtain d where "ds_hgetall D k r = (r, Inr d)" "map_of d = ds_hash D r k" by (rule hgetall_law [OF assms(1)])
  then show "\<exists>r' a. ds_hgetall D k r = (r', Inr a) \<and> map_of a = H k \<and> holds D r' H L" using h by (simp add: holds_def)
qed

lemma reads_runs: "\<lbrakk>dlq_server_laws D; no_faults D; runs D m H L a H L\<rbrakk> \<Longrightarrow> reads D (ask_server D m) H L (\<lambda>b. b = a)"
  by (rule reads_ask) (auto simp: runs_def)

lemma reads_fetch:
  assumes "dlq_server_laws D" "no_faults D" "\<And>k. k \<in> set keys \<Longrightarrow> L k = []"
  shows "reads D (fetch_payloads D keys) H L (list_all2 (\<lambda>k d. map_of d = H k) keys)"
  using assms(3)
proof (induction keys)
  case (Cons k keys)
  then show ?case
    unfolding fetch_payloads.simps
    by (intro reads_bind [OF reads_hgetall [OF assms(1,2)]] reads_bind [OF Cons.IH] reads_return) auto
qed (simp add: reads_return)

section \<open>What is emitted\<close>

definition at_most :: "int option \<Rightarrow> 'a list \<Rightarrow> 'a list" where
  "at_most limit xs = (case limit of None \<Rightarrow> xs | Some n \<Rightarrow> take (nat (max 1 n)) xs)"

definition below :: "int option \<Rightarrow> 'a list \<Rightarrow> bool" where
  "below limit xs \<longleftrightarrow> (\<forall>n. limit = Some n \<longrightarrow> int (length xs) < max 1 n)"

text \<open>The records of keys whose hashes can be read.\<close>

definition readable :: "hash_codec \<Rightarrow> dlq_policy option \<Rightarrow> hashes \<Rightarrow> (string \<Rightarrow> dlq_record) \<Rightarrow> string set \<Rightarrow> bool" where
  "readable J policy H rec ks \<longleftrightarrow>
     (\<forall>k \<in> ks. H k \<noteq> Map.empty \<and> (\<forall>d. map_of d = H k \<longrightarrow> hash_to_record J policy d = Inr (rec k)))"

lemma reads_emit:
  assumes "list_all2 (\<lambda>k d. map_of d = H k) keys ds" "readable J (rf_payload_policy cf) H rec (set keys)" "below (rf_limit cf) out"
  shows "reads D (emit_payloads J cf ds out) H L
    (\<lambda>res. let all = out @ filter (wanted cf) (map rec keys) in res = (at_most (rf_limit cf) all, \<not> below (rf_limit cf) all))"
  using assms
proof (induction keys ds arbitrary: out rule: list_all2_induct)
  case Nil
  then show ?case by (cases "rf_limit cf") (auto simp: reads_def at_most_def below_def)
next
  case (Cons k keys d ds)
  have d: "d \<noteq> []" "hash_to_record J (rf_payload_policy cf) d = Inr (rec k)"
    using Cons.hyps(1) Cons.prems(1) by (auto simp: readable_def)
  have rest: "readable J (rf_payload_policy cf) H rec (set keys)" using Cons.prems(1) by (simp add: readable_def)
  show ?case
  proof (cases "wanted cf (rec k)")
    case False
    then show ?thesis using d Cons.IH [OF rest Cons.prems(2)]
      by (auto intro!: reads_bind [OF reads_lift [OF d(2), of "\<lambda>q. q = rec k"]])
  next
    case True
    let ?out = "out @ [rec k]" and ?all = "out @ filter (wanted cf) (map rec (k # keys))"
    have stop: "(case rf_limit cf of None \<Rightarrow> False | Some n \<Rightarrow> n \<le> int (length ?out)) \<longleftrightarrow> \<not> below (rf_limit cf) ?out"
      using Cons.prems(2) by (cases "rf_limit cf") (auto simp: below_def)
    have full: "\<not> below (rf_limit cf) ?out \<Longrightarrow> (?out, True) = (at_most (rf_limit cf) ?all, \<not> below (rf_limit cf) ?all)"
    proof -
      assume "\<not> below (rf_limit cf) ?out"
      then obtain n where n: "rf_limit cf = Some n" "nat (max 1 n) = length ?out"
        using Cons.prems(2) by (auto simp: below_def)
      have "take (length ?out) (?out @ ys) = ?out" for ys by simp
      then show "(?out, True) = (at_most (rf_limit cf) ?all, \<not> below (rf_limit cf) ?all)"
        using True n by (simp add: at_most_def below_def)
    qed
    have eq: "emit_payloads J cf (d # ds) out = bindE (lift_pure (hash_to_record J (rf_payload_policy cf) d)) (\<lambda>q.
        if \<not> wanted cf q then emit_payloads J cf ds out
        else thenE (modifyE (\<lambda>w. w\<lparr>ro_emitted_record_count := Suc (ro_emitted_record_count w), ro_clock := Suc (ro_clock w),
                      ro_last_record_at := Some (rf_now cf (ro_clock w))\<rparr>))
          (if case rf_limit cf of None \<Rightarrow> False | Some n \<Rightarrow> n \<le> int (length (out @ [q]))
           then returnE (out @ [q], True)
           else emit_payloads J cf ds (out @ [q])))" using d(1) by simp
    have step: "reads D (if \<not> below (rf_limit cf) ?out then returnE (?out, True) else emit_payloads J cf ds ?out) H L
        (\<lambda>res. let all = ?all in res = (at_most (rf_limit cf) all, \<not> below (rf_limit cf) all))"
      using Cons.IH [OF rest, of ?out] full True by (auto intro: reads_return)
    show ?thesis
      unfolding eq
      by (rule reads_bind [OF reads_lift [OF d(2), of "\<lambda>q. q = rec k"]])
        (use step in \<open>simp_all add: True stop reads_then [OF reads_modify]\<close>)
  qed
qed

lemma at_most_below: "below limit xs \<Longrightarrow> at_most limit xs = xs"
  by (cases limit) (auto simp: below_def at_most_def)

lemma at_most_append: "\<not> below limit xs \<Longrightarrow> at_most limit (xs @ ys) = at_most limit xs"
  by (cases limit) (auto simp: below_def at_most_def)

lemma reads_chunks:
  assumes laws: "dlq_server_laws D" "no_faults D"
    and "\<And>k. k \<in> set keys \<Longrightarrow> L k = []" "readable J (rf_payload_policy cf) H rec (set keys)" "below (rf_limit cf) out"
  shows "reads D (emit_chunks D J cf keys out) H L (\<lambda>res. res = at_most (rf_limit cf) (out @ filter (wanted cf) (map rec keys)))"
  using assms(3-)
proof (induction keys arbitrary: out rule: length_induct)
  case (1 keys)
  show ?case
  proof (cases "keys = []")
    case True
    then show ?thesis using 1(4) by (subst emit_chunks.simps) (simp add: reads_return at_most_below)
  next
    case False
    let ?now = "take chunk_size keys" and ?later = "drop chunk_size keys"
    let ?out = "out @ filter (wanted cf) (map rec ?now)"
    have all: "?out @ filter (wanted cf) (map rec ?later) = out @ filter (wanted cf) (map rec keys)"
      unfolding append_assoc filter_append [symmetric] map_append [symmetric] append_take_drop_id ..
    have now: "\<And>k. k \<in> set ?now \<Longrightarrow> L k = []" "readable J (rf_payload_policy cf) H rec (set ?now)"
      and later: "\<And>k. k \<in> set ?later \<Longrightarrow> L k = []" "readable J (rf_payload_policy cf) H rec (set ?later)"
      using 1(2,3) by (auto simp: readable_def dest: in_set_takeD in_set_dropD)
    have "length ?later < length keys" using False by simp
    then have rest: "reads D (emit_chunks D J cf ?later ?out) H L (\<lambda>res. res = at_most (rf_limit cf) (?out @ filter (wanted cf) (map rec ?later)))"
      if "below (rf_limit cf) ?out" using 1(1) later that by blast
    have "reads D (if \<not> below (rf_limit cf) ?out then returnE (at_most (rf_limit cf) ?out)
          else emit_chunks D J cf ?later (at_most (rf_limit cf) ?out)) H L
        (\<lambda>res. res = at_most (rf_limit cf) (out @ filter (wanted cf) (map rec keys)))"
    proof (cases "below (rf_limit cf) ?out")
      case True
      then show ?thesis using rest [OF True] by (simp only: all at_most_below not_True_eq_False if_False)
    next
      case False
      then have "at_most (rf_limit cf) ?out = at_most (rf_limit cf) (out @ filter (wanted cf) (map rec keys))"
        unfolding all [symmetric] by (rule at_most_append [symmetric])
      then show ?thesis using False by (simp only: not_False_eq_True if_True) (rule reads_return, simp)
    qed
    then show ?thesis
      using False by (subst emit_chunks.simps)
        (auto simp: Let_def intro!: reads_bind [OF reads_fetch [OF laws now(1)]] reads_bind [OF reads_emit [OF _ now(2) 1(4)]])
  qed
qed

section \<open>The index that is read\<close>

lemma reads_exists:
  assumes "dlq_server_laws D" "no_faults D" "H ix = Map.empty"
  shows "reads D (ask_server D (ds_exists D ix)) H L (\<lambda>b. b = (L ix \<noteq> []))"
  using reads_runs [OF assms(1,2) runs_command(2) [OF assms(1), of ix H L]] assms(3) by simp

lemma preferred_is_index: "preferred_index_key kp p s \<in> index_keys kp"
  by (auto simp: preferred_index_key_def index_keys_def secondary_keys_def split: option.split)

lemma reads_resolve:
  assumes laws: "dlq_server_laws D" "no_faults D" and empty: "\<And>ix. ix \<in> index_keys kp \<Longrightarrow> H ix = Map.empty"
    and cf: "rf_keyspace cf = \<lparr>ks_key_prefix = kp, ks_storage_key_prefix = kp\<rparr>"
  shows "reads D (resolve_index_key D cf) H L
    (\<lambda>ix. ix = (let p = preferred_index_key kp (rf_pipeline_id cf) (rf_stage cf) in if L p \<noteq> [] then p else index_key kp))"
proof -
  let ?p = "preferred_index_key kp (rf_pipeline_id cf) (rf_stage cf)"
  have p: "reads D (ask_server D (ds_exists D ?p)) H L (\<lambda>b. b = (L ?p \<noteq> []))"
    by (rule reads_exists [where H = H, OF laws empty [OF preferred_is_index]])
  have "H (index_key kp) = Map.empty" by (rule empty) (simp add: index_keys_def)
  then have q: "reads D (ask_server D (ds_exists D (index_key kp))) H L (\<lambda>b. b = (L (index_key kp) \<noteq> []))"
    by (rule reads_exists [OF laws])
  show ?thesis
    unfolding resolve_index_key_def Let_def cf first_existing_def
    by (auto intro!: reads_bind [OF p] reads_bind [OF q] reads_return)
qed

lemma reads_lrange:
  assumes "dlq_server_laws D" "no_faults D" "H ix = Map.empty"
  shows "reads D (ask_server D (ds_lrange D ix)) H L (\<lambda>ks. ks = L ix)"
  by (rule reads_runs [OF assms(1,2) runs_command(3) [OF assms(1), of H ix L, OF assms(3)]])

section \<open>The records of the dictionary\<close>

definition letter_of :: "(pyval \<Rightarrow> string) \<Rightarrow> dlq_policy option \<Rightarrow> string \<times> dlq_record \<times> int \<Rightarrow> dlq_record" where
  "letter_of R policy e = (case e of (k, q, n) \<Rightarrow> (read_after R policy q n)\<lparr>q_storage_id := Some k\<rparr>)"

text \<open>The policy leaves pipeline and stage alone, by which a scan selects.\<close>

definition keeps_routing :: "dlq_policy option \<Rightarrow> bool" where
  "keeps_routing policy \<longleftrightarrow>
     (case policy of None \<Rightarrow> True | Some p \<Rightarrow> \<not> redacts policy \<or> policy_field_names p \<inter> {''pipeline_id'', ''stage''} = {})"

lemma keeps_routing_letter:
  assumes "keeps_routing policy"
  shows "q_pipeline_id (letter_of R policy (k, q, n)) = q_pipeline_id q" "q_stage (letter_of R policy (k, q, n)) = q_stage q"
  using assms by (auto simp: letter_of_def read_after_def hash_read_back_def sorted_record_def unblanked_def stored_record_def
      redact_record_def blanked_def keeps_routing_def stored_str_def split: option.splits)

definition letter_at :: "(pyval \<Rightarrow> string) \<Rightarrow> dlq_policy option \<Rightarrow> letters \<Rightarrow> string \<Rightarrow> dlq_record" where
  "letter_at R policy ls k = letter_of R policy (k, the (dict_get ls k))"

lemma letters_by_key:
  assumes "dict_wf ls"
  shows "map (letter_of R policy) ls = map (letter_at R policy ls) (dict_keys ls)"
proof -
  have "letter_of R policy e = letter_at R policy ls (fst e)" if "e \<in> set ls" for e
  proof -
    have "dict_get ls (fst e) = Some (snd e)" using that assms by (simp add: dict_wf_def)
    then show ?thesis by (simp add: letter_at_def)
  qed
  then show ?thesis by simp
qed

lemma represents_letter:
  assumes rep: "represents D J policy kp K ls r" and k: "k \<in> K" "ds_hash D r k \<noteq> Map.empty"
  obtains q n where "dict_get ls k = Some (q, n)" "named_keys (ds_hash D r k) = set (ordered_secondary_index_keys kp q)"
    "\<And>d. map_of d = ds_hash D r k \<Longrightarrow> hash_to_record J policy d = Inr (letter_at (cd_repr J) policy ls k)"
proof -
  obtain q n where ls: "dict_get ls k = Some (q, n)" using represents_keys(2) [OF rep, of k] k by fastforce
  then have "hash_for J policy kp k q n (ds_hash D r k)" using rep by (simp add: represents_def)
  then obtain cf h where h: "storable J policy q" "rq_payload_policy cf = policy" "record_hash J cf q k kp = Inr h"
    "ds_hash D r k = (map_of h)(''attempt'' \<mapsto> str_of_int n)"
    by (auto simp: hash_for_def)
  have "named_keys (ds_hash D r k) = set (ordered_secondary_index_keys kp q)"
    using record_hash_shape [OF h(3)] by (simp add: h(4) hash_of_record_def named_keys_def)
  moreover have "hash_to_record J policy d = Inr (letter_at (cd_repr J) policy ls k)" if "map_of d = ds_hash D r k" for d
    using read_stored_hash [OF h(1,3,2), of d n] that h(4) by (simp add: letter_at_def letter_of_def ls)
  ultimately show thesis using that ls by blast
qed

text \<open>A secondary index that is not empty holds every record that is wanted.\<close>

lemma selected_keys:
  assumes rep: "represents D J policy kp K ls r" and routing: "keeps_routing policy"
    and ix: "ix = (let p = preferred_index_key kp (rf_pipeline_id cf) (rf_stage cf) in if ds_list D r p \<noteq> [] then p else index_key kp)"
  shows "mset (filter (\<lambda>k. wanted cf (letter_at R policy ls k)) (ds_list D r ix)) =
    mset (filter (\<lambda>k. wanted cf (letter_at R policy ls k)) (dict_keys ls))"
proof (cases "ix = index_key kp")
  case True
  then show ?thesis using rep by (simp add: represents_def)
next
  case False
  let ?W = "\<lambda>k. wanted cf (letter_at R policy ls k)"
  have ok: "indexed_server D kp K r" and keys: "dict_keys ls = ds_list D r (index_key kp)"
    using rep by (simp_all add: represents_def)
  have p: "ix = preferred_index_key kp (rf_pipeline_id cf) (rf_stage cf)" using ix False by (auto simp: Let_def split: if_splits)
  have sec: "ix \<in> secondary_keys kp" using preferred_is_index [of kp] p False unfolding index_keys_def by blast
  have d: "distinct (ds_list D r ix)" "set (ds_list D r ix) = {k \<in> K. ds_hash D r k \<noteq> Map.empty \<and> ix \<in> named_keys (ds_hash D r k)}"
    "distinct (ds_list D r (index_key kp))" "set (ds_list D r (index_key kp)) = {k \<in> K. ds_hash D r k \<noteq> Map.empty}"
    using ok sec by (simp_all add: indexed_def)
  have named: "ix \<in> named_keys (ds_hash D r k)" if k: "k \<in> K" "ds_hash D r k \<noteq> Map.empty" and want: "?W k" for k
  proof -
    obtain q n where q: "dict_get ls k = Some (q, n)" "named_keys (ds_hash D r k) = set (ordered_secondary_index_keys kp q)"
      by (rule represents_letter [OF rep k])
    have "rf_pipeline_id cf = Some x \<Longrightarrow> x = q_pipeline_id q" "rf_stage cf = Some y \<Longrightarrow> y = q_stage q" for x y
      using want keeps_routing_letter [OF routing, of R k q n] by (simp_all add: wanted_def letter_at_def q(1))
    then show ?thesis using p False unfolding q(2)
      by (cases "rf_pipeline_id cf"; cases "rf_stage cf") (auto simp: preferred_index_key_def ordered_secondary_index_keys_def)
  qed
  have "set (filter ?W (ds_list D r ix)) = set (filter ?W (ds_list D r (index_key kp)))" using d(2,4) named by auto
  then show ?thesis
    unfolding keys using set_eq_iff_mset_eq_distinct [OF distinct_filter distinct_filter, OF d(1,3), of ?W ?W] by blast
qed

section \<open>Properties\<close>

text \<open>
  C12: the Redis dead-letter queue is a dictionary of records.  What the server holds under hashes and index lists stands
  for a dictionary from storage keys to records and attempts; a write that returns has put its record there (in the
  place of the record it replaces), an acknowledgement has removed its record, a replay has set the attempts and nothing
  else; a request that raises has done that or nothing.
\<close>

theorem dead_letters_are_a_dictionary:
  assumes "dlq_server_laws D" "represents D J policy kp K ls (rk_server w)" "keyspace_of cf kp K"
    and "rq_payload_policy cf = policy" "scripts_loaded w" "dlq_request_key cf w req = Inr k" "request_ok J policy K ls k req"
    and "dlq_serve D J cf replay_record req w = (w', x)"
  shows "represents D J policy kp K (letters_after replay_record k req ls) (rk_server w') \<or>
    (represents D J policy kp K ls (rk_server w') \<and> (\<exists>e. x = Inl e))"
proof (cases "rk_client w")
  case False
  then show ?thesis using assms(2,8) refused_without_client [OF False, of D J cf replay_record req] by auto
next
  case True
  show ?thesis
  proof (cases req)
    case (PutRecord q)
    obtain y where "dlq_write D J cf q w = (w', y)" "\<And>e. y = Inl e \<Longrightarrow> x = Inl e"
      using assms(8) PutRecord by (cases "dlq_write D J cf q w") (auto simp: then_return split: sum.splits)
    then show ?thesis using serve_put [OF assms(1-5) True, of k q w' y replay_record] assms(6,7) PutRecord
      by (auto simp: dlq_request_key_def request_ok_def)
  next
    case (Acknowledge q)
    then show ?thesis using serve_drop [OF assms(1-3,5) True, of q k w' x] assms(6-8)
      by (auto simp: dlq_request_key_def request_ok_def)
  next
    case (Replay q)
    obtain y where "dlq_replay D cf replay_record q w = (w', y)" "\<And>e. y = Inl e \<Longrightarrow> x = Inl e"
      using assms(8) Replay by (cases "dlq_replay D cf replay_record q w") (auto simp: then_return split: sum.splits)
    then show ?thesis using serve_replay [OF assms(1,2) True, of q k cf replay_record w' y] assms(6,7) Replay
      by (auto simp: dlq_request_key_def request_ok_def simp del: letters_after.simps)
  qed
qed

text \<open>
  C13: a scan of the Redis dead-letter queue returns what the queue holds.  On a server that stands for a dictionary, a
  scan without filter gives the records of the dictionary as the policy stores them, with their attempts and keys, in the
  order of their first write; with a pipeline or a stage it gives those that match, through whichever index it reads; a
  limit cuts the result, to one record at least; and nothing is changed.
\<close>

theorem scan_yields_dead_letters:
  assumes "dlq_server_laws D" "no_faults D" "represents D J policy kp K ls (ro_server w)" "ro_client w"
    and "rf_keyspace cf = \<lparr>ks_key_prefix = kp, ks_storage_key_prefix = kp\<rparr>" "rf_payload_policy cf = policy" "keeps_routing policy"
  shows "\<exists>w' xs. dlq_iter_records D J cf w = (w', Inr (at_most (rf_limit cf) xs)) \<and>
    mset xs = mset (filter (wanted cf) (map (letter_of (cd_repr J) policy) ls)) \<and>
    (rf_pipeline_id cf = None \<and> rf_stage cf = None \<longrightarrow> xs = map (letter_of (cd_repr J) policy) ls) \<and>
    represents D J policy kp K ls (ro_server w')"
proof -
  let ?H = "ds_hash D (ro_server w)" and ?L = "ds_list D (ro_server w)" and ?rec = "letter_at (cd_repr J) policy ls"
  let ?ix = "let p = preferred_index_key kp (rf_pipeline_id cf) (rf_stage cf) in if ?L p \<noteq> [] then p else index_key kp"
  let ?xs = "filter (wanted cf) (map ?rec (?L ?ix))"
  note rep = assms(3)
  have ok: "indexed kp K ?H ?L" and keys: "?L (index_key kp) = dict_keys ls" using rep by (simp_all add: represents_def)
  have empty: "?H ix = Map.empty" if "ix \<in> index_keys kp" for ix using ok that by (simp add: indexed_def)
  have ix: "?ix \<in> index_keys kp" using preferred_is_index [of kp] by (auto simp: Let_def index_keys_def)
  have there: "set (?L ?ix) \<subseteq> {k \<in> K. ?H k \<noteq> Map.empty}"
    using ok ix by (auto simp: indexed_def index_keys_def)
  have records: "\<And>k. k \<in> set (?L ?ix) \<Longrightarrow> ?L k = []" using there ok by (auto simp: indexed_def)
  have "hash_to_record J policy d = Inr (?rec k)" if "k \<in> set (?L ?ix)" "map_of d = ?H k" for k d
    using that there by (blast elim: represents_letter [OF rep])
  then have readable: "readable J (rf_payload_policy cf) ?H ?rec (set (?L ?ix))"
    using there assms(6) unfolding readable_def by blast
  have start: "below (rf_limit cf) []" by (auto simp: below_def)
  have scan: "reads D (thenE (modifyE (\<lambda>w. w\<lparr>ro_scan_count := Suc (ro_scan_count w), ro_clock := Suc (ro_clock w),
                     ro_last_scan_at := Some (rf_now cf (ro_clock w))\<rparr>))
           (bindE (resolve_index_key D cf) (\<lambda>ix. bindE (ask_server D (ds_lrange D ix)) (\<lambda>keys. emit_chunks D J cf keys []))))
      ?H ?L (\<lambda>res. res = at_most (rf_limit cf) ([] @ ?xs))"
    by (rule reads_then [OF reads_modify], simp,
        rule reads_bind [OF reads_resolve [OF assms(1,2) empty assms(5)]], assumption, hypsubst,
        rule reads_bind [OF reads_lrange [where H = ?H, OF assms(1,2) empty [OF ix]]], hypsubst,
        rule reads_chunks [OF assms(1,2) records readable start])
  then obtain w' where w': "dlq_iter_records D J cf w = (w', Inr (at_most (rf_limit cf) ?xs))" "holds D (ro_server w') ?H ?L"
    using assms(4) unfolding reads_def dlq_iter_records_def by (auto simp: holds_def)
  note wf = represents_keys(1) [OF rep]
  have "mset ?xs = mset (filter (wanted cf) (map (letter_of (cd_repr J) policy) ls))"
    using selected_keys [OF rep assms(7) refl, of cf "cd_repr J"]
    by (simp add: letters_by_key [OF wf] filter_map comp_def multiset.map_comp)
  moreover have "?xs = map (letter_of (cd_repr J) policy) ls" if "rf_pipeline_id cf = None" "rf_stage cf = None"
    using that by (simp add: letters_by_key [OF wf] preferred_index_key_def keys wanted_def del: map_map)
  moreover have "represents D J policy kp K ls (ro_server w')" by (rule unchanged_represents [OF rep w'(2)])
  ultimately show ?thesis using w'(1) by (intro exI [of _ w'] exI [of _ ?xs]) blast
qed


abbreviation sample_letter :: dlq_record where
  "sample_letter \<equiv> sample_record\<lparr>q_storage_id := Some ''dlq:a''\<rparr>"

abbreviation stored_sink :: "sample_server_state redis_dlq_sink" where
  "stored_sink \<equiv> fst (dlq_write sample_dlq_server sample_hash_codec (sample_dlq_config None) sample_letter (sample_sink []))"

lemma sample_letter_stored:
  "snd (dlq_write sample_dlq_server sample_hash_codec (sample_dlq_config None) sample_letter (sample_sink [])) = Inr sample_letter"
  by code_simp

lemma stored_sink_loaded: "scripts_loaded stored_sink"
  by code_simp

lemma sample_empty: "represents sample_dlq_server sample_hash_codec None ''dlq'' sample_keys [] ((\<lambda>_. []), (\<lambda>_. []), faults)"
  using sample_server_indexed by (simp add: represents_def sample_dlq_server_def)

lemma sample_letter_key: "''dlq:a'' \<in> sample_keys" "record_key (rq_keyspace cf) u sample_letter = ''dlq:a''"
  using sample_key [of "CHR ''a''" "[]"] by (simp_all add: record_key_def)

lemma sample_policy_field [simp]: "rq_payload_policy (sample_dlq_config policy) = policy"
  by (simp add: sample_dlq_config_def)

lemma stored_sink_represents:
  "represents sample_dlq_server sample_hash_codec None ''dlq'' sample_keys [(''dlq:a'', sample_letter, 1)] (rk_server stored_sink)"
proof -
  have run: "dlq_write sample_dlq_server sample_hash_codec (sample_dlq_config None) sample_letter (sample_sink []) = (stored_sink, Inr sample_letter)"
    by (rule prod_eqI) (simp_all only: fst_conv snd_conv sample_letter_stored)
  have start: "represents sample_dlq_server sample_hash_codec None ''dlq'' sample_keys [] (rk_server (sample_sink []))"
    using sample_empty [of "[]"] by simp
  have "represents sample_dlq_server sample_hash_codec None ''dlq'' sample_keys
      (letters_after Inr ''dlq:a'' (PutRecord sample_letter) []) (rk_server stored_sink)"
    using serve_put [OF sample_server_laws start sample_keyspace sample_policy_field _ _ sample_letter_key(2) [symmetric] sample_letter_key(1) _ run,
        where f = Inr] sample_storable_plain by auto
  then show ?thesis by (simp add: sample_record_def)
qed

definition quiet_dlq_server :: "sample_server_state dlq_server" where
  "quiet_dlq_server = sample_dlq_server\<lparr>ds_fault := (\<lambda>r. (r, NoFault))\<rparr>"

lemma quiet_server: "dlq_server_laws quiet_dlq_server" "no_faults quiet_dlq_server"
  using sample_server_laws by (simp_all add: quiet_dlq_server_def dlq_server_laws_def no_faults_def)

lemma quiet_represents: "represents quiet_dlq_server J policy kp K ls r = represents sample_dlq_server J policy kp K ls r"
  by (simp add: represents_def quiet_dlq_server_def)

lemma quiet_replay_returns:
  assumes "rk_client w"
  shows "snd (dlq_serve quiet_dlq_server J cf (\<lambda>q. Inr (f q)) (Replay sample_letter) w) = Inr ()"
proof -
  obtain h l fs where "rk_server w = (h, l, fs)" by (cases "rk_server w") auto
  then show ?thesis using assms
    by (simp add: dlq_replay_def thenE_def require_client_def existing_record_key_def bindE_def lift_pure_def send_fields faulty_call_def
        quiet_dlq_server_def sample_dlq_server_def read_clock_def Let_def)
qed

theorem dead_letters_are_a_dictionary_witness:
  "\<exists>r. r = rk_server (fst (dlq_serve quiet_dlq_server sample_hash_codec (sample_dlq_config None)
        (\<lambda>q. Inr (q\<lparr>q_attempt := q_attempt q + 1\<rparr>)) (Replay sample_letter) stored_sink)) \<and>
     represents quiet_dlq_server sample_hash_codec None ''dlq'' sample_keys [(''dlq:a'', sample_letter, 2)] r"
proof -
  let ?f = "\<lambda>q :: dlq_record. (Inr (q\<lparr>q_attempt := q_attempt q + 1\<rparr>) :: dlq_record result)"
  obtain w' x where run: "dlq_serve quiet_dlq_server sample_hash_codec (sample_dlq_config None) ?f (Replay sample_letter) stored_sink = (w', x)"
    by (rule prod.exhaust)
  have "rk_client stored_sink" by code_simp
  then have x: "x = Inr ()"
    using quiet_replay_returns [where w = stored_sink and J = sample_hash_codec and cf = "sample_dlq_config None" and
      f = "\<lambda>q. q\<lparr>q_attempt := q_attempt q + 1\<rparr>"] by (simp only: run snd_conv)
  have "represents quiet_dlq_server sample_hash_codec None ''dlq'' sample_keys
      (letters_after ?f ''dlq:a'' (Replay sample_letter) [(''dlq:a'', sample_letter, 1)]) (rk_server w')"
    using dead_letters_are_a_dictionary [OF quiet_server(1) stored_sink_represents [folded quiet_represents] sample_keyspace sample_policy_field stored_sink_loaded _ _ run]
      sample_letter_key(1) x
    by (auto simp: dlq_request_key_def existing_record_key_def request_ok_def)
  then show ?thesis using run by (simp add: sample_record_def)
qed

definition sample_source_config :: redis_dlq_source_config where
  "sample_source_config =
     \<lparr>rf_keyspace = \<lparr>ks_key_prefix = ''dlq'', ks_storage_key_prefix = ''dlq''\<rparr>, rf_pipeline_id = Some ''p'', rf_stage = None,
      rf_limit = None, rf_payload_policy = None, rf_now = (\<lambda>_. ''t'')\<rparr>"

theorem scan_yields_dead_letters_witness:
  "\<exists>w'. dlq_iter_records quiet_dlq_server sample_hash_codec sample_source_config
      (fst (dlq_source_open (redis_dlq_source_init (rk_server stored_sink)))) = (w', Inr [sample_letter])"
proof -
  let ?w = "fst (dlq_source_open (redis_dlq_source_init (rk_server stored_sink)))"
  have w: "ro_client ?w" "ro_server ?w = rk_server stored_sink"
    by (simp_all add: dlq_source_open_def redis_dlq_source_init_def)
  have start: "represents quiet_dlq_server sample_hash_codec None ''dlq'' sample_keys [(''dlq:a'', sample_letter, 1)] (ro_server ?w)"
    unfolding w(2) quiet_represents by (rule stored_sink_represents)
  have letter: "letter_of R None (''dlq:a'', sample_letter, 1) = sample_letter" for R by code_simp
  have want: "wanted sample_source_config sample_letter" by code_simp
  from scan_yields_dead_letters [OF quiet_server start w(1), of sample_source_config]
  obtain w' xs where "dlq_iter_records quiet_dlq_server sample_hash_codec sample_source_config ?w = (w', Inr (at_most None xs))"
    "mset xs = mset (filter (wanted sample_source_config) [sample_letter])"
    by (auto simp: sample_source_config_def keeps_routing_def letter)
  then show ?thesis using want by (auto simp: at_most_def)
qed
end
