(* ===== verification/Redis_Sink.thy ===== *)
theory Redis_Sink
  imports Prelude
begin

text \<open>
  The Redis sink of \<^verbatim>\<open>redis/sinks/redis.py\<close>: settings, the four ways of writing (\<^verbatim>\<open>set\<close>, \<^verbatim>\<open>lpush\<close>, \<^verbatim>\<open>rpush\<close>, \<^verbatim>\<open>xadd\<close>),
  batches by \<^verbatim>\<open>MSET\<close> or a pipeline, retries, and the Lua script by which a retried list write is not done twice.

  Redis is a parameter (\<open>sink_server\<close>) over a server state of any type; \<^verbatim>\<open>retry_async\<close> is one with the law \<open>retry_law\<close>.
  A record is of any type; its key and value come from functions of the caller, which may raise.
\<close>

section \<open>The server\<close>

text \<open>
  \<open>vs_text\<close>, \<open>vs_list\<close> and \<open>vs_stream\<close> are no commands: they name what the server holds under a key, for the laws the
  commands obey.
\<close>

record 'r sink_server =
  vs_set :: "string \<Rightarrow> pyval \<Rightarrow> int option \<Rightarrow> ('r, unit) eff" \<comment> \<open>\<^verbatim>\<open>EX\<close> seconds\<close>
  vs_set_nx :: "string \<Rightarrow> string \<Rightarrow> int \<Rightarrow> ('r, bool) eff"
  vs_mset :: "(string, pyval) dict \<Rightarrow> ('r, unit) eff"
  vs_lpush :: "string \<Rightarrow> pyval \<Rightarrow> ('r, unit) eff"
  vs_rpush :: "string \<Rightarrow> pyval \<Rightarrow> ('r, unit) eff"
  vs_ltrim :: "string \<Rightarrow> int \<Rightarrow> int \<Rightarrow> ('r, unit) eff"
  vs_xadd :: "string \<Rightarrow> (string \<times> pyval) list \<Rightarrow> int option \<Rightarrow> ('r, unit) eff" \<comment> \<open>approximate \<^verbatim>\<open>MAXLEN\<close>\<close>
  vs_fault :: "'r \<Rightarrow> 'r \<times> call_fault"
  vs_text :: "'r \<Rightarrow> string \<Rightarrow> pyval option"
  vs_list :: "'r \<Rightarrow> string \<Rightarrow> pyval list"

section \<open>Settings\<close>

abbreviation LIST_IDEMPOTENCY_TTL_SECONDS :: int where
  "LIST_IDEMPOTENCY_TTL_SECONDS \<equiv> 24 * 60 * 60"

record 't redis_sink_args =
  ra_key_fn :: "'t \<Rightarrow> string result"
  ra_serializer :: "'t \<Rightarrow> pyval result"
  ra_mode :: string
  ra_ttl_seconds :: "int option"
  ra_maxlen :: "int option"
  ra_redis_cluster :: bool
  ra_replay_safe_key_contract :: bool

definition MODES :: "string set" where
  "MODES = {''set'', ''lpush'', ''rpush'', ''xadd''}"

text \<open>The checks of the constructor; accepted arguments are kept as they are.\<close>

definition redis_sink_settings :: "'t redis_sink_args \<Rightarrow> 't redis_sink_args result" where
  "redis_sink_settings a =
     (if ra_mode a \<notin> MODES then Inl (ValueError ''RedisSink: invalid mode'')
      else if ra_replay_safe_key_contract a \<and> ra_mode a \<noteq> ''set''
        then Inl (ValueError ''RedisSink: replay_safe_key_contract=True requires mode set'')
      else if ra_ttl_seconds a \<noteq> None \<and> ra_mode a \<noteq> ''set''
        then Inl (ValueError ''RedisSink: ttl_seconds is only supported for mode set'')
      else if (case ra_ttl_seconds a of None \<Rightarrow> False | Some t \<Rightarrow> t \<le> 0)
        then Inl (ValueError ''RedisSink: ttl_seconds must be > 0 when provided.'')
      else if (case ra_maxlen a of None \<Rightarrow> False | Some n \<Rightarrow> n \<le> 0)
        then Inl (ValueError ''RedisSink: maxlen must be > 0 when provided.'')
      else Inr a)"

datatype idempotency_mode = APPLICATION_MANAGED | SINK_NATIVE | NO_IDEMPOTENCY

text \<open>What a sink promises of a replay: the mode and whether it is safe.\<close>

definition redis_delivery_capability :: "'t redis_sink_args \<Rightarrow> idempotency_mode \<times> bool" where
  "redis_delivery_capability a =
     (if ra_mode a = ''set'' then (APPLICATION_MANAGED, ra_replay_safe_key_contract a)
      else if ra_mode a \<in> {''lpush'', ''rpush''} then (SINK_NATIVE, False)
      else (NO_IDEMPOTENCY, False))"

section \<open>Keys of markers\<close>

text \<open>The part of a key between its first \<^verbatim>\<open>{\<close> and the first \<^verbatim>\<open>}\<close> after it, when there is one and it is not empty.\<close>

definition redis_hash_tag :: "string \<Rightarrow> string option" where
  "redis_hash_tag key =
     (case dropWhile (\<lambda>c. c \<noteq> CHR ''{'') key of
        [] \<Rightarrow> None
      | _ # rest \<Rightarrow>
          (let tag = takeWhile (\<lambda>c. c \<noteq> CHR ''}'') rest
           in if tag = [] \<or> CHR ''}'' \<notin> set rest then None else Some tag))"

abbreviation marker_infix :: string where
  "marker_infix \<equiv> '':agora:list-write:''"

definition list_idempotency_key :: "string \<Rightarrow> string \<Rightarrow> string" where
  "list_idempotency_key key operation_id =
     (case redis_hash_tag key of
        Some tag \<Rightarrow> ''{'' @ tag @ ''}'' @ marker_infix @ operation_id
      | None \<Rightarrow>
          if CHR ''{'' \<notin> set key \<and> CHR ''}'' \<notin> set key then ''{'' @ key @ ''}'' @ marker_infix @ operation_id
          else key @ marker_infix @ operation_id)"

section \<open>Commands\<close>

text \<open>
  The Lua script: the marker is set unless it is there, and only then the value is pushed and the list cut.  \<open>maxlen\<close>
  is 0 for a list that is not cut.
\<close>

definition LIST_WRITE_SCRIPT :: "'r sink_server \<Rightarrow> string \<Rightarrow> string \<Rightarrow> string \<Rightarrow> pyval \<Rightarrow> int \<Rightarrow> int \<Rightarrow> ('r, int) eff" where
  "LIST_WRITE_SCRIPT S list_key marker_key mode v maxlen ttl =
     bindE (vs_set_nx S marker_key ''1'' ttl) (\<lambda>marker_set.
       if \<not> marker_set then returnE 0
       else if mode = ''lpush'' then
         thenE (vs_lpush S list_key v)
         (thenE (if 0 < maxlen then vs_ltrim S list_key 0 (maxlen - 1) else returnE ()) (returnE 1))
       else if mode = ''rpush'' then
         thenE (vs_rpush S list_key v)
         (thenE (if 0 < maxlen then vs_ltrim S list_key (- maxlen) (- 1) else returnE ()) (returnE 1))
       else raiseE (Exn ''ResponseError'' [''RedisError'', ''Exception''] ''unsupported Redis list mode''))"

definition maxlen_or_zero :: "'t redis_sink_args \<Rightarrow> int" where
  "maxlen_or_zero a = (case ra_maxlen a of None \<Rightarrow> 0 | Some n \<Rightarrow> n)"

definition list_command :: "'r sink_server \<Rightarrow> 't redis_sink_args \<Rightarrow> string \<Rightarrow> pyval \<Rightarrow> string \<Rightarrow> ('r, unit) eff" where
  "list_command S a key v operation_id =
     thenE (LIST_WRITE_SCRIPT S key (list_idempotency_key key operation_id) (ra_mode a) v (maxlen_or_zero a) LIST_IDEMPOTENCY_TTL_SECONDS)
           (returnE ())"

text \<open>The command of the other modes; \<^verbatim>\<open>xadd\<close> refuses a value that is not a dictionary before anything is sent.\<close>

definition plain_command :: "'r sink_server \<Rightarrow> 't redis_sink_args \<Rightarrow> string \<Rightarrow> pyval \<Rightarrow> ('r, unit) eff result" where
  "plain_command S a key v =
     (if ra_mode a = ''set'' then Inr (vs_set S key v (ra_ttl_seconds a))
      else (case v of
              PDict d \<Rightarrow> Inr (vs_xadd S key d (ra_maxlen a))
            | _ \<Rightarrow> Inl (TypeError ''RedisSink mode='xadd' requires serializer to return a dict'')))"

section \<open>The sink\<close>

record 'r redis_sink =
  rs_client :: bool
  rs_write_call_count :: nat
  rs_write_batch_call_count :: nat
  rs_direct_write_count :: nat
  rs_mset_batch_count :: nat
  rs_pipeline_execute_count :: nat
  rs_written_record_count :: nat
  rs_accepted_record_count :: nat
  rs_redis_mutation_count :: nat
  rs_last_write_at :: "string option"
  rs_uuids :: nat
  rs_clock :: nat
  rs_server :: 'r

definition redis_sink_init :: "'r \<Rightarrow> 'r redis_sink" where
  "redis_sink_init r =
     \<lparr>rs_client = False, rs_write_call_count = 0, rs_write_batch_call_count = 0, rs_direct_write_count = 0,
      rs_mset_batch_count = 0, rs_pipeline_execute_count = 0, rs_written_record_count = 0, rs_accepted_record_count = 0,
      rs_redis_mutation_count = 0, rs_last_write_at = None, rs_uuids = 0, rs_clock = 0, rs_server = r\<rparr>"

type_synonym ('r, 'a) rsink_op = "('r redis_sink, 'a) eff"

text \<open>UUIDs and the clock, by the number of times they were drawn or read, and \<^verbatim>\<open>retry_async\<close> with the policy in force.\<close>

record 'r sink_env =
  se_uuid :: "nat \<Rightarrow> string"
  se_now :: "nat \<Rightarrow> string"
  se_retry :: "('r redis_sink, exn, unit) retry_fun"

definition redis_sink_open :: "('r, unit) rsink_op" where
  "redis_sink_open = modifyE (\<lambda>w. w\<lparr>rs_client := True\<rparr>)"

definition redis_sink_close :: "('r, unit) rsink_op" where
  "redis_sink_close = modifyE (\<lambda>w. w\<lparr>rs_client := False\<rparr>)"

definition rsink_require_client :: "('r, unit) rsink_op" where
  "rsink_require_client w =
     (if rs_client w then (w, Inr ()) else (w, Inl (RuntimeError ''RedisSink.open() was not called'')))"

definition with_server :: "('r, 'a) eff \<Rightarrow> ('r, 'a) rsink_op" where
  "with_server m w = (case m (rs_server w) of (r, x) \<Rightarrow> (w\<lparr>rs_server := r\<rparr>, x))"

definition of_result :: "'a result \<Rightarrow> ('s, 'a) eff" where
  "of_result x s = (s, x)"

definition new_operation_id :: "'r sink_env \<Rightarrow> ('r, string) rsink_op" where
  "new_operation_id E w = (w\<lparr>rs_uuids := Suc (rs_uuids w)\<rparr>, Inr (se_uuid E (rs_uuids w)))"

text \<open>\<^verbatim>\<open>_retry_redis_command\<close>; reporting a retry only logs.\<close>

definition retry_redis_command :: "'r sink_env \<Rightarrow> ('r, unit) rsink_op \<Rightarrow> ('r, unit) rsink_op" where
  "retry_redis_command E op = se_retry E op id"

definition note_write :: "'r sink_env \<Rightarrow> ('r, unit) rsink_op" where
  "note_write E = modifyE (\<lambda>w. w\<lparr>rs_last_write_at := Some (se_now E (rs_clock w)), rs_clock := Suc (rs_clock w)\<rparr>)"

definition count_records :: "nat \<Rightarrow> nat \<Rightarrow> ('r, unit) rsink_op" where
  "count_records records mutations = modifyE (\<lambda>w. w\<lparr>rs_written_record_count := rs_written_record_count w + records,
     rs_accepted_record_count := rs_accepted_record_count w + records,
     rs_redis_mutation_count := rs_redis_mutation_count w + mutations\<rparr>)"

definition is_list_mode :: "'t redis_sink_args \<Rightarrow> bool" where
  "is_list_mode a \<longleftrightarrow> ra_mode a = ''lpush'' \<or> ra_mode a = ''rpush''"

definition redis_sink_write :: "'r sink_server \<Rightarrow> 'r sink_env \<Rightarrow> 't redis_sink_args \<Rightarrow> 't \<Rightarrow> ('r, unit) rsink_op" where
  "redis_sink_write S E a record =
     thenE rsink_require_client
     (bindE (of_result (ra_key_fn a record)) (\<lambda>key.
      bindE (of_result (ra_serializer a record)) (\<lambda>v.
      thenE (modifyE (\<lambda>w. w\<lparr>rs_write_call_count := Suc (rs_write_call_count w)\<rparr>))
      (thenE (if is_list_mode a
              then bindE (new_operation_id E) (\<lambda>operation_id.
                     retry_redis_command E
                       (thenE rsink_require_client (with_server (faulty_call (vs_fault S) (list_command S a key v operation_id)))))
              else retry_redis_command E
                     (thenE rsink_require_client
                       (bindE (of_result (plain_command S a key v)) (\<lambda>c. with_server (faulty_call (vs_fault S) c)))))
      (thenE (modifyE (\<lambda>w. w\<lparr>rs_direct_write_count := Suc (rs_direct_write_count w)\<rparr>))
      (thenE (count_records 1 1) (note_write E)))))))"

text \<open>The dictionary comprehension \<^verbatim>\<open>{key(r): value(r) for r in records}\<close>.\<close>

fun mset_mapping :: "'t redis_sink_args \<Rightarrow> 't list \<Rightarrow> (string, pyval) dict \<Rightarrow> (string, pyval) dict result" where
  "mset_mapping a [] d = Inr d"
| "mset_mapping a (record # records) d =
     bindR (ra_key_fn a record) (\<lambda>key. bindR (ra_serializer a record) (\<lambda>v. mset_mapping a records (dict_set key v d)))"

text \<open>Keys, values and operation identifiers of a batch; each record draws an identifier, in every mode.\<close>

fun prepare_records :: "'r sink_env \<Rightarrow> 't redis_sink_args \<Rightarrow> 't list \<Rightarrow> ('r, (string \<times> pyval \<times> string) list) rsink_op" where
  "prepare_records E a [] = returnE []"
| "prepare_records E a (record # records) =
     bindE (of_result (ra_key_fn a record)) (\<lambda>key.
     bindE (of_result (ra_serializer a record)) (\<lambda>v.
     bindE (new_operation_id E) (\<lambda>operation_id.
     bindE (prepare_records E a records) (\<lambda>rest. returnE ((key, v, operation_id) # rest)))))"

text \<open>The commands of a pipeline; a value that is refused stops it before anything is sent.\<close>

fun pipe_commands :: "'r sink_server \<Rightarrow> 't redis_sink_args \<Rightarrow> (string \<times> pyval \<times> string) list \<Rightarrow> ('r, unit) eff list result" where
  "pipe_commands S a [] = Inr []"
| "pipe_commands S a ((key, v, operation_id) # items) =
     bindR (if is_list_mode a then Inr (list_command S a key v operation_id) else plain_command S a key v) (\<lambda>c.
     bindR (pipe_commands S a items) (\<lambda>cs. Inr (c # cs)))"

definition execute_pipeline :: "'r sink_server \<Rightarrow> 't redis_sink_args \<Rightarrow> (string \<times> pyval \<times> string) list \<Rightarrow> ('r, unit) rsink_op" where
  "execute_pipeline S a items =
     thenE rsink_require_client
     (bindE (of_result (pipe_commands S a items)) (\<lambda>cs. with_server (run_commands (map (faulty_call (vs_fault S)) cs))))"

definition redis_sink_write_batch :: "'r sink_server \<Rightarrow> 'r sink_env \<Rightarrow> 't redis_sink_args \<Rightarrow> 't list \<Rightarrow> ('r, unit) rsink_op" where
  "redis_sink_write_batch S E a records =
     thenE rsink_require_client
     (thenE (modifyE (\<lambda>w. w\<lparr>rs_write_batch_call_count := Suc (rs_write_batch_call_count w)\<rparr>))
     (if records = [] then returnE ()
      else if ra_mode a = ''set'' \<and> ra_ttl_seconds a = None \<and> \<not> ra_redis_cluster a
      then bindE (of_result (mset_mapping a records [])) (\<lambda>mapping.
           thenE (retry_redis_command E
                   (thenE rsink_require_client (with_server (faulty_call (vs_fault S) (vs_mset S mapping)))))
           (thenE (modifyE (\<lambda>w. w\<lparr>rs_mset_batch_count := Suc (rs_mset_batch_count w)\<rparr>))
           (thenE (count_records (length records) (length mapping)) (note_write E))))
      else bindE (prepare_records E a records) (\<lambda>items.
           thenE (retry_redis_command E (execute_pipeline S a items))
           (thenE (modifyE (\<lambda>w. w\<lparr>rs_pipeline_execute_count := Suc (rs_pipeline_execute_count w)\<rparr>))
           (thenE (count_records (length records) (length records)) (note_write E))))))"

end
