(* ===== verification/Redis_Sink_Writes.thy ===== *)
theory Redis_Sink_Writes
  imports Redis_Sink
begin

text \<open>
  What the writes of the Redis sink leave behind, whatever requests or replies are lost and however often a write is
  tried again: list values are pushed once (\<open>writes_items\<close> follows the writes done), keys end with the last value of a
  batch (\<open>settles\<close>).
\<close>

section \<open>What is relied on of the server\<close>

type_synonym held = "(string \<Rightarrow> pyval option) \<times> (string \<Rightarrow> pyval list)"

definition held :: "'r sink_server \<Rightarrow> 'r \<Rightarrow> held" where
  "held S r = (vs_text S r, vs_list S r)"

text \<open>\<^verbatim>\<open>LTRIM\<close>: negative positions count from the end.\<close>

definition trimmed :: "int \<Rightarrow> int \<Rightarrow> 'a list \<Rightarrow> 'a list" where
  "trimmed start stop xs =
     (let n = int (length xs);
          first = (if start < 0 then max 0 (n + start) else start);
          last = (if stop < 0 then n + stop else stop)
      in take (nat (last - first + 1)) (drop (nat first) xs))"

text \<open>
  The documented behaviour of the commands on a key that holds nothing of another type.  A fault changes no key; in
  particular a marker outlives the retries of its write, which is why it is kept for a day.
\<close>

definition sink_server_laws :: "'r sink_server \<Rightarrow> bool" where
  "sink_server_laws S \<longleftrightarrow>
     (\<forall>r. held S (fst (vs_fault S r)) = held S r) \<and>
     (\<forall>T L k v ex. L k = [] \<longrightarrow> runs_on (held S) (vs_set S k v ex) (T, L) () (T(k \<mapsto> v), L)) \<and>
     (\<forall>T L k v ttl. L k = [] \<longrightarrow>
        runs_on (held S) (vs_set_nx S k v ttl) (T, L) (T k = None) (if T k = None then (T(k \<mapsto> PStr v), L) else (T, L))) \<and>
     (\<forall>T L d. d \<noteq> [] \<longrightarrow> (\<forall>k \<in> set (dict_keys d). L k = []) \<longrightarrow> runs_on (held S) (vs_mset S d) (T, L) () (T ++ map_of d, L)) \<and>
     (\<forall>T L k v. T k = None \<longrightarrow> runs_on (held S) (vs_lpush S k v) (T, L) () (T, L(k := v # L k))) \<and>
     (\<forall>T L k v. T k = None \<longrightarrow> runs_on (held S) (vs_rpush S k v) (T, L) () (T, L(k := L k @ [v]))) \<and>
     (\<forall>T L k i j. T k = None \<longrightarrow> runs_on (held S) (vs_ltrim S k i j) (T, L) () (T, L(k := trimmed i j (L k))))"

lemma sink_commands:
  assumes "sink_server_laws S"
  shows "held S (fst (vs_fault S r)) = held S r"
    "L k = [] \<Longrightarrow> runs_on (held S) (vs_set S k v ex) (T, L) () (T(k \<mapsto> v), L)"
    "L k = [] \<Longrightarrow> runs_on (held S) (vs_set_nx S k s ttl) (T, L) (T k = None) (if T k = None then (T(k \<mapsto> PStr s), L) else (T, L))"
    "\<lbrakk>d \<noteq> []; \<forall>k \<in> set (dict_keys d). L k = []\<rbrakk> \<Longrightarrow> runs_on (held S) (vs_mset S d) (T, L) () (T ++ map_of d, L)"
    "T k = None \<Longrightarrow> runs_on (held S) (vs_lpush S k v) (T, L) () (T, L(k := v # L k))"
    "T k = None \<Longrightarrow> runs_on (held S) (vs_rpush S k v) (T, L) () (T, L(k := L k @ [v]))"
    "T k = None \<Longrightarrow> runs_on (held S) (vs_ltrim S k i j) (T, L) () (T, L(k := trimmed i j (L k)))"
  using assms by (simp_all add: sink_server_laws_def)

section \<open>The script\<close>

text \<open>A list after one write: the value at its end, cut to the bound.\<close>

definition pushed :: "'t redis_sink_args \<Rightarrow> pyval \<Rightarrow> pyval list \<Rightarrow> pyval list" where
  "pushed a v xs =
     (let n = nat (maxlen_or_zero a) in
      if ra_mode a = ''lpush'' then (if n = 0 then v # xs else take n (v # xs))
      else (let ys = xs @ [v] in if n = 0 then ys else drop (length ys - n) ys))"

lemma trimmed_front: "0 < m \<Longrightarrow> trimmed 0 (m - 1) xs = take (nat m) xs"
  by (simp add: trimmed_def)

lemma trimmed_back: "0 < m \<Longrightarrow> trimmed (- m) (- 1) xs = drop (length xs - nat m) xs"
  by (cases "int (length xs) \<le> m") (auto simp: trimmed_def Let_def nat_diff_distrib')

lemma list_command_runs:
  assumes laws: "sink_server_laws S" and mode: "is_list_mode a" and key: "T key = None" "key \<noteq> list_idempotency_key key uid"
    and marker: "L (list_idempotency_key key uid) = []"
  shows "T (list_idempotency_key key uid) = None \<Longrightarrow> runs_on (held S) (list_command S a key v uid) (T, L) ()
      (T(list_idempotency_key key uid \<mapsto> PStr ''1''), L(key := pushed a v (L key)))"
    "T (list_idempotency_key key uid) \<noteq> None \<Longrightarrow> runs_on (held S) (list_command S a key v uid) (T, L) () (T, L)"
proof -
  let ?m = "list_idempotency_key key uid"
  let ?T = "T(?m \<mapsto> PStr ''1'')"
  have T: "?T key = None" using key by simp
  note cmd = sink_commands [OF laws]
  note nx = cmd(3) [where k = ?m and s = "''1''" and ttl = LIST_IDEMPOTENCY_TTL_SECONDS and L = L, OF marker]
  show "runs_on (held S) (list_command S a key v uid) (T, L) () (T, L)" if "T ?m \<noteq> None"
    using nx [of T] that unfolding list_command_def LIST_WRITE_SCRIPT_def
    by (intro runs_on_then [OF runs_on_bind] runs_on_return) (auto intro: runs_on_return)
  have left: "runs_on (held S) (vs_lpush S key v) (?T, L) () (?T, L(key := v # L key))"
    and right: "runs_on (held S) (vs_rpush S key v) (?T, L) () (?T, L(key := L key @ [v]))"
    by (rule cmd(5) [where T = ?T, OF T], rule cmd(6) [where T = ?T, OF T])
  show "runs_on (held S) (list_command S a key v uid) (T, L) () (?T, L(key := pushed a v (L key)))" if new: "T ?m = None"
  proof -
    have nx': "runs_on (held S) (vs_set_nx S ?m ''1'' LIST_IDEMPOTENCY_TTL_SECONDS) (T, L) True (?T, L)" using nx [of T] new by simp
    have l: "runs_on (held S) (thenE (vs_lpush S key v)
         (thenE (if 0 < maxlen_or_zero a then vs_ltrim S key 0 (maxlen_or_zero a - 1) else returnE ()) (returnE (1::int)))) (?T, L) 1
         (?T, L(key := pushed a v (L key)))" if m: "ra_mode a = ''lpush''"
    proof (cases "0 < maxlen_or_zero a")
      case True
      have "runs_on (held S) (vs_ltrim S key 0 (maxlen_or_zero a - 1)) (?T, L(key := v # L key)) () (?T, L(key := pushed a v (L key)))"
        using cmd(7) [where T = ?T and k = key and i = 0 and j = "maxlen_or_zero a - 1" and L = "L(key := v # L key)", OF T] True m
        by (simp add: trimmed_front pushed_def)
      then show ?thesis using True by simp (intro runs_on_then [OF left] runs_on_then [OF _ runs_on_return])
    next
      case False
      then show ?thesis using runs_on_then [OF left runs_on_then [OF runs_on_return runs_on_return]] m
        by (simp add: pushed_def)
    qed
    have r: "runs_on (held S) (thenE (vs_rpush S key v)
         (thenE (if 0 < maxlen_or_zero a then vs_ltrim S key (- maxlen_or_zero a) (- 1) else returnE ()) (returnE (1::int)))) (?T, L) 1
         (?T, L(key := pushed a v (L key)))" if m: "ra_mode a = ''rpush''"
    proof (cases "0 < maxlen_or_zero a")
      case True
      have "runs_on (held S) (vs_ltrim S key (- maxlen_or_zero a) (- 1)) (?T, L(key := L key @ [v])) () (?T, L(key := pushed a v (L key)))"
        using cmd(7) [where T = ?T and k = key and i = "- maxlen_or_zero a" and j = "- 1" and L = "L(key := L key @ [v])", OF T] True m
        by (simp add: trimmed_back pushed_def del: drop_append)
      then show ?thesis using True by simp (intro runs_on_then [OF right] runs_on_then [OF _ runs_on_return])
    next
      case False
      then show ?thesis using runs_on_then [OF right runs_on_then [OF runs_on_return runs_on_return]] m
        by (simp add: pushed_def)
    qed
    have "runs_on (held S) (LIST_WRITE_SCRIPT S key ?m (ra_mode a) v (maxlen_or_zero a) LIST_IDEMPOTENCY_TTL_SECONDS) (T, L) 1
        (?T, L(key := pushed a v (L key)))"
      unfolding LIST_WRITE_SCRIPT_def by (rule runs_on_bind [OF nx']) (use mode l r in \<open>auto simp: is_list_mode_def\<close>)
    then show ?thesis unfolding list_command_def by (rule runs_on_then [OF _ runs_on_return])
  qed
qed


section \<open>What was done of a batch\<close>

type_synonym item = "string \<times> pyval \<times> string"

fun marker_of :: "item \<Rightarrow> string" where
  "marker_of (key, v, uid) = list_idempotency_key key uid"

text \<open>What is held after the writes \<open>os\<close>, in that order, of the items.\<close>

definition lists_after :: "'t redis_sink_args \<Rightarrow> item list \<Rightarrow> (string \<Rightarrow> pyval list) \<Rightarrow> nat list \<Rightarrow> string \<Rightarrow> pyval list" where
  "lists_after a items L os =
     foldl (\<lambda>L i. case items ! i of (key, v, _) \<Rightarrow> L(key := pushed a v (L key))) L os"

definition texts_after :: "item list \<Rightarrow> (string \<Rightarrow> pyval option) \<Rightarrow> nat list \<Rightarrow> string \<Rightarrow> pyval option" where
  "texts_after items T os = (\<lambda>k. if k \<in> (\<lambda>i. marker_of (items ! i)) ` set os then Some (PStr ''1'') else T k)"

text \<open>Keys of lists hold no text, markers are new and differ from each other and from the keys.\<close>

definition writable :: "item list \<Rightarrow> held \<Rightarrow> bool" where
  "writable items h \<longleftrightarrow> (case h of (T, L) \<Rightarrow>
     distinct (map marker_of items) \<and> (\<forall>(key, v, uid) \<in> set items. T key = None) \<and>
     (\<forall>it \<in> set items. T (marker_of it) = None \<and> L (marker_of it) = [] \<and> marker_of it \<notin> fst ` set items))"

definition done_of :: "'t redis_sink_args \<Rightarrow> item list \<Rightarrow> held \<Rightarrow> nat list \<Rightarrow> held \<Rightarrow> bool" where
  "done_of a items h os h' \<longleftrightarrow> distinct os \<and> set os \<subseteq> {..<length items} \<and>
     h' = (texts_after items (fst h) os, lists_after a items (snd h) os)"

lemma done_none: "done_of a items h [] h"
  by (simp add: done_of_def texts_after_def lists_after_def)

lemma lists_after_other: "k \<notin> fst ` set items \<Longrightarrow> set os \<subseteq> {..<length items} \<Longrightarrow> lists_after a items L os k = L k"
proof (induction os rule: rev_induct)
  case (snoc i os)
  obtain key v uid where it: "items ! i = (key, v, uid)" by (cases "items ! i")
  then have "(key, v, uid) \<in> set items" using snoc.prems(2) nth_mem [of i items] by simp
  then have "key \<in> fst ` set items" by force
  then show ?case using snoc it by (auto simp: lists_after_def)
qed (simp add: lists_after_def)

lemma list_item_runs:
  assumes laws: "sink_server_laws S" and mode: "is_list_mode a" and ok: "writable items h" and d: "done_of a items h os h1"
    and i: "i < length items" "items ! i = (key, v, uid)"
  shows "\<exists>os'. runs_on (held S) (list_command S a key v uid) h1 () (texts_after items (fst h) os', lists_after a items (snd h) os') \<and>
    done_of a items h os' (texts_after items (fst h) os', lists_after a items (snd h) os') \<and> set os' = insert i (set os)"
proof -
  let ?m = "list_idempotency_key key uid" and ?T = "texts_after items (fst h) os" and ?L = "lists_after a items (snd h) os"
  have h1: "h1 = (?T, ?L)" and os: "distinct os" "set os \<subseteq> {..<length items}" using d by (simp_all add: done_of_def)
  obtain T L where h: "h = (T, L)" by (cases h)
  have it: "(key, v, uid) \<in> set items" using i nth_mem by metis
  have mi: "marker_of (items ! i) = ?m" by (simp add: i(2))
  have all: "distinct (map marker_of items)" "\<forall>(key, v, uid) \<in> set items. T key = None"
    "\<forall>it \<in> set items. T (marker_of it) = None \<and> L (marker_of it) = [] \<and> marker_of it \<notin> fst ` set items"
    using ok by (simp_all add: writable_def h)
  have w: "T key = None" "T ?m = None" "L ?m = []" "?m \<notin> fst ` set items" using all(2) bspec [OF all(3) it] it by auto
  have kin: "key \<in> fst ` set items" using it by force
  then have km: "key \<noteq> ?m" using w(4) by metis
  have no_marker: "key \<notin> marker_of ` set items" using all(3) kin by blast
  have "(\<lambda>j. marker_of (items ! j)) ` set os \<subseteq> marker_of ` set items" using os(2) by (auto simp: nth_mem)
  then have Tk: "?T key = None" using no_marker w(1) by (auto simp: texts_after_def h)
  have Lm: "?L ?m = []" using lists_after_other [where a = a and L = L, OF w(4) os(2)] w(3) by (simp add: h)
  have Tm: "?T ?m = None \<longleftrightarrow> i \<notin> set os"
  proof -
    have eq: "marker_of (items ! j) = ?m \<longleftrightarrow> j = i" if "j \<in> set os" for j
    proof -
      have "j < length items" using os(2) that by auto
      then show ?thesis using nth_eq_iff_index_eq [OF all(1), of j i] i(1) mi by simp
    qed
    have "?m \<in> (\<lambda>j. marker_of (items ! j)) ` set os \<longleftrightarrow> (\<exists>j \<in> set os. marker_of (items ! j) = ?m)" by force
    also have "\<dots> \<longleftrightarrow> i \<in> set os" using eq by auto
    finally show ?thesis using w(2) by (simp add: texts_after_def h)
  qed
  note run = list_command_runs [where T = ?T and L = ?L and v = v, OF laws mode Tk km Lm]
  show ?thesis
  proof (cases "i \<in> set os")
    case True
    then show ?thesis using run(2) Tm d h1 by (intro exI [of _ os]) (auto simp: insert_absorb)
  next
    case False
    have "?T(?m \<mapsto> PStr ''1'') = texts_after items (fst h) (os @ [i])"
      using mi by (auto simp: texts_after_def)
    moreover have "?L(key := pushed a v (?L key)) = lists_after a items (snd h) (os @ [i])" by (simp add: lists_after_def i(2))
    ultimately show ?thesis using run(1) Tm False os i(1) h1
      by (intro exI [of _ "os @ [i]"]) (simp add: done_of_def)
  qed
qed

text \<open>An operation of the sink that does some of the writes, after those of \<open>os\<close>, and those of \<open>due\<close> when it returns.\<close>

definition writes_items :: "'r sink_server \<Rightarrow> 't redis_sink_args \<Rightarrow> item list \<Rightarrow> held \<Rightarrow> ('s \<Rightarrow> 'r) \<Rightarrow> nat set \<Rightarrow> ('s, unit) eff \<Rightarrow> bool" where
  "writes_items S a items h server due op \<longleftrightarrow>
     (\<forall>w os w' x. done_of a items h os (held S (server w)) \<longrightarrow> op w = (w', x) \<longrightarrow>
        (\<exists>os'. done_of a items h os' (held S (server w')) \<and> set os \<subseteq> set os' \<and> (x = Inr () \<longrightarrow> due \<subseteq> set os')))"

lemma sent_item:
  assumes "sink_server_laws S" "is_list_mode a" "writable items h" "i < length items" "items ! i = (key, v, uid)"
  shows "writes_items S a items h id {i} (faulty_call (vs_fault S) (list_command S a key v uid))"
  unfolding writes_items_def
proof (intro allI impI)
  fix w os w' x
  assume d: "done_of a items h os (held S (id w))" and run: "faulty_call (vs_fault S) (list_command S a key v uid) w = (w', x)"
  obtain os' where os': "runs_on (held S) (list_command S a key v uid) (held S w) ()
      (texts_after items (fst h) os', lists_after a items (snd h) os')"
    "done_of a items h os' (texts_after items (fst h) os', lists_after a items (snd h) os')" "set os' = insert i (set os)"
    using list_item_runs [OF assms(1-3) d assms(4,5)] by auto
  from runs_on_faulty [OF sink_commands(1) [OF assms(1)] os'(1) run]
  show "\<exists>os'. done_of a items h os' (held S (id w')) \<and> set os \<subseteq> set os' \<and> (x = Inr () \<longrightarrow> {i} \<subseteq> set os')"
    using d os'(2,3) by (metis Inl_Inr_False empty_subsetI id_apply insert_subset subset_insertI subset_refl insertI1)
qed

lemma run_items:
  assumes "list_all2 (\<lambda>i c. writes_items S a items h id {i} c) js cs"
  shows "writes_items S a items h id (set js) (run_commands cs)"
  using assms
proof (induction rule: list_all2_induct)
  case Nil
  show ?case by (auto simp: writes_items_def)
next
  case (Cons i js c cs)
  show ?case
    unfolding writes_items_def
  proof (intro allI impI)
    fix w os w' x
    assume d: "done_of a items h os (held S (id w))" and run: "run_commands (c # cs) w = (w', x)"
    obtain w1 y where c: "c w = (w1, y)" by (cases "c w")
    obtain os1 where os1: "done_of a items h os1 (held S (id w1))" "set os \<subseteq> set os1" "y = Inr () \<longrightarrow> i \<in> set os1"
      using Cons.hyps(1) d c unfolding writes_items_def by (metis insert_subset)
    obtain w2 z where r: "run_commands cs w1 = (w2, z)" by (cases "run_commands cs w1")
    obtain os2 where os2: "done_of a items h os2 (held S (id w2))" "set os1 \<subseteq> set os2" "z = Inr () \<longrightarrow> set js \<subseteq> set os2"
      using Cons.IH os1(1) r unfolding writes_items_def by metis
    have "w' = w2" "x = Inr () \<longrightarrow> y = Inr () \<and> z = Inr ()" using run c r by (auto split: sum.splits)
    then show "\<exists>os'. done_of a items h os' (held S (id w')) \<and> set os \<subseteq> set os' \<and> (x = Inr () \<longrightarrow> set (i # js) \<subseteq> set os')"
      using os1 os2 by (intro exI [of _ os2]) auto
  qed
qed

lemma with_server_items:
  "writes_items S a items h id due m \<Longrightarrow> writes_items S a items h rs_server due (with_server m)"
  unfolding writes_items_def with_server_def by (fastforce split: prod.splits)

lemma require_then_items:
  "writes_items S a items h rs_server due m \<Longrightarrow> writes_items S a items h rs_server due (thenE rsink_require_client m)"
  unfolding writes_items_def thenE_def bindE_def rsink_require_client_def by (fastforce split: if_splits)

lemma retried_items:
  assumes law: "retry_law (se_retry E)" and op: "writes_items S a items h rs_server due op"
  shows "writes_items S a items h rs_server due (retry_redis_command E op)"
  unfolding writes_items_def retry_redis_command_def
proof (intro allI impI)
  fix w os w' x
  assume d: "done_of a items h os (held S (rs_server w))" and run: "se_retry E op id w = (w', x)"
  have "attempts op id w out \<Longrightarrow> done_of a items h os (held S (rs_server w)) \<Longrightarrow>
      \<exists>os'. done_of a items h os' (held S (rs_server (fst out))) \<and> set os \<subseteq> set os' \<and> (snd out = Inr () \<longrightarrow> due \<subseteq> set os')" for w os out
  proof (induction arbitrary: os rule: attempts.induct)
    case (last_attempt s)
    then show ?case using op unfolding writes_items_def by (metis prod.collapse)
  next
    case (next_attempt s s1 e out)
    obtain os1 where "done_of a items h os1 (held S (rs_server s1))" "set os \<subseteq> set os1"
      using op next_attempt.prems next_attempt.hyps(1) unfolding writes_items_def by metis
    then show ?case using next_attempt.IH [of os1] by auto
  qed
  then show "\<exists>os'. done_of a items h os' (held S (rs_server w')) \<and> set os \<subseteq> set os' \<and> (x = Inr () \<longrightarrow> due \<subseteq> set os')"
    using law d run unfolding retry_law_def by (metis fst_conv snd_conv)
qed


section \<open>A batch of list writes\<close>

text \<open>The functions of the caller return for all records.\<close>

definition keyed :: "'t redis_sink_args \<Rightarrow> 't list \<Rightarrow> (string \<times> pyval) list \<Rightarrow> bool" where
  "keyed a records kvs \<longleftrightarrow> list_all2 (\<lambda>r kv. ra_key_fn a r = Inr (fst kv) \<and> ra_serializer a r = Inr (snd kv)) records kvs"

fun items_of :: "(nat \<Rightarrow> string) \<Rightarrow> nat \<Rightarrow> (string \<times> pyval) list \<Rightarrow> item list" where
  "items_of uuid n [] = []"
| "items_of uuid n ((k, v) # kvs) = (k, v, uuid n) # items_of uuid (Suc n) kvs"

lemma items_of_length [simp]: "length (items_of uuid n kvs) = length kvs"
  by (induction uuid n kvs rule: items_of.induct) auto

lemma items_of_nth: "i < length kvs \<Longrightarrow> items_of uuid n kvs ! i = (fst (kvs ! i), snd (kvs ! i), uuid (n + i))"
  by (induction uuid n kvs arbitrary: i rule: items_of.induct) (auto simp: nth_Cons split: nat.split)

lemma prepared_items:
  assumes "keyed a records kvs"
  shows "prepare_records E a records w =
    (w\<lparr>rs_uuids := rs_uuids w + length kvs\<rparr>, Inr (items_of (se_uuid E) (rs_uuids w) kvs))"
  using assms unfolding keyed_def
proof (induction records kvs arbitrary: w rule: list_all2_induct)
  case (Cons r rs kv kvs)
  then show ?case by (cases kv) (simp add: bindE_def of_result_def new_operation_id_def)
qed simp

lemma bind_of_result [simp]: "bindE (of_result x) f w = (case x of Inl e \<Rightarrow> (w, Inl e) | Inr b \<Rightarrow> f b w)"
  by (cases x) (simp_all add: bindE_def of_result_def)

lemma bindE_of_Inr: "bindE (of_result (Inr b)) f = f b"
  by (simp add: fun_eq_iff)

lemma pipe_list_commands:
  "is_list_mode a \<Longrightarrow> pipe_commands S a items = Inr (map (\<lambda>(k, v, u). list_command S a k v u) items)"
  by (induction S a items rule: pipe_commands.induct) auto

text \<open>Operation identifiers are new: no marker with one of them is held, and they are the hexadecimal text of UUIDs.\<close>

definition fresh_ids :: "(nat \<Rightarrow> string) \<Rightarrow> nat \<Rightarrow> held \<Rightarrow> bool" where
  "fresh_ids uuid n h \<longleftrightarrow> inj uuid \<and> (\<forall>i. CHR '':'' \<notin> set (uuid i)) \<and>
     (\<forall>key. \<forall>i \<ge> n. fst h (list_idempotency_key key (uuid i)) = None \<and> snd h (list_idempotency_key key (uuid i)) = [])"

text \<open>Keys for lists: they hold no text and are no markers.\<close>

definition list_keys :: "(nat \<Rightarrow> string) \<Rightarrow> held \<Rightarrow> string set \<Rightarrow> bool" where
  "list_keys uuid h ks \<longleftrightarrow> (\<forall>k \<in> ks. fst h k = None) \<and> (\<forall>key i. list_idempotency_key key (uuid i) \<notin> ks)"

lemma marker_ends: "\<exists>p. list_idempotency_key key u = p @ CHR '':'' # u"
proof -
  have q: "\<exists>p. q @ marker_infix @ u = p @ CHR '':'' # u" for q
    by (rule exI [of _ "q @ '':agora:list-write''"]) simp
  show ?thesis
    using q [of key] q [of "''{'' @ key @ ''}''"] q [of "''{'' @ the (redis_hash_tag key) @ ''}''"]
    by (cases "redis_hash_tag key") (auto simp: list_idempotency_key_def)
qed

lemma markers_differ:
  assumes "list_idempotency_key key u = list_idempotency_key key' u'" "CHR '':'' \<notin> set u" "CHR '':'' \<notin> set u'"
  shows "u = u'"
proof -
  have "rev (takeWhile (\<lambda>c. c \<noteq> CHR '':'') (rev (p @ CHR '':'' # u))) = u" if "CHR '':'' \<notin> set u" for p u
    using that by (simp add: takeWhile_append takeWhile_eq_all_conv)
  then show ?thesis using assms marker_ends [of key u] marker_ends [of key' u'] by metis
qed

lemma fresh_writable:
  assumes "fresh_ids uuid n h" "list_keys uuid h (fst ` set kvs)"
  shows "writable (items_of uuid n kvs) h"
proof -
  let ?items = "items_of uuid n kvs"
  have m: "marker_of (?items ! i) = list_idempotency_key (fst (kvs ! i)) (uuid (n + i))" if "i < length kvs" for i
    using that by (simp add: items_of_nth)
  have "inj_on (\<lambda>i. marker_of (?items ! i)) {..<length kvs}"
  proof (rule inj_onI)
    fix i j
    assume "i \<in> {..<length kvs}" "j \<in> {..<length kvs}" "marker_of (?items ! i) = marker_of (?items ! j)"
    then have "uuid (n + i) = uuid (n + j)" using m assms(1) markers_differ by (metis fresh_ids_def lessThan_iff)
    then show "i = j" using assms(1) by (auto simp: fresh_ids_def dest: injD)
  qed
  then have "distinct (map marker_of ?items)"
    by (auto simp: distinct_conv_nth inj_on_def)
  moreover have keys: "fst ` set ?items = fst ` set kvs"
    by (induction uuid n kvs rule: items_of.induct) auto
  moreover have "fst h k = None" if "(k, v, u) \<in> set ?items" for k v u
  proof -
    have "k \<in> fst ` set kvs" using keys that by (metis fst_conv image_eqI)
    then show ?thesis using assms(2) [unfolded list_keys_def, THEN conjunct1] by (rule bspec [rotated])
  qed
  moreover have "fst h (marker_of it) = None \<and> snd h (marker_of it) = [] \<and> marker_of it \<notin> fst ` set kvs" if it: "it \<in> set ?items" for it
  proof -
    obtain i where "i < length kvs" "it = ?items ! i" using it by (auto simp: in_set_conv_nth)
    then have "marker_of it = list_idempotency_key (fst (kvs ! i)) (uuid (n + i))" using m by simp
    then show ?thesis using assms by (simp add: fresh_ids_def list_keys_def)
  qed
  ultimately show ?thesis unfolding writable_def by (cases h) auto
qed

text \<open>The lists after the writes of some of the records, in some order.\<close>

definition lists_with :: "'t redis_sink_args \<Rightarrow> (string \<times> pyval) list \<Rightarrow> (string \<Rightarrow> pyval list) \<Rightarrow> nat list \<Rightarrow> string \<Rightarrow> pyval list" where
  "lists_with a kvs L os = foldl (\<lambda>L i. L(fst (kvs ! i) := pushed a (snd (kvs ! i)) (L (fst (kvs ! i))))) L os"

lemma lists_after_items:
  "set os \<subseteq> {..<length kvs} \<Longrightarrow> lists_after a (items_of uuid n kvs) L os = lists_with a kvs L os"
  unfolding lists_after_def lists_with_def by (rule foldl_cong) (auto simp: items_of_nth subset_iff)

text \<open>
  C15: the list writes of a batch are done once.  However often the pipeline is tried again, and whatever requests and
  replies are lost, each value of the batch is pushed at most once, and exactly once when the batch returns; the lists
  are what pushes in some order give, cut to the bound, and no other list changes.
\<close>

theorem list_batch_applied_once:
  assumes "sink_server_laws S" "retry_law (se_retry E)" "is_list_mode a" "keyed a records kvs"
    and "fresh_ids (se_uuid E) (rs_uuids w) (held S (rs_server w))"
    and "list_keys (se_uuid E) (held S (rs_server w)) (fst ` set kvs)"
    and run: "redis_sink_write_batch S E a records w = (w', x)"
  shows "\<exists>os. distinct os \<and> set os \<subseteq> {..<length kvs} \<and> (x = Inr () \<longrightarrow> set os = {..<length kvs}) \<and>
    vs_list S (rs_server w') = lists_with a kvs (vs_list S (rs_server w)) os"
proof (cases "rs_client w \<and> records \<noteq> []")
  case False
  have none: "lists_with a kvs L [] = L" for L by (simp add: lists_with_def)
  have "kvs = [] \<longleftrightarrow> records = []" using assms(4) by (auto simp: keyed_def)
  then show ?thesis using False run none
    by (intro exI [of _ "[]"]) (auto simp: redis_sink_write_batch_def thenE_def bindE_def rsink_require_client_def split: if_splits)
next
  case True
  let ?items = "items_of (se_uuid E) (rs_uuids w) kvs" and ?h = "held S (rs_server w)"
  let ?w1 = "w\<lparr>rs_write_batch_call_count := Suc (rs_write_batch_call_count w), rs_uuids := rs_uuids w + length kvs\<rparr>"
  have ok: "writable ?items ?h" by (rule fresh_writable [OF assms(5,6)])
  have mode: "ra_mode a \<noteq> ''set''" using assms(3) by (auto simp: is_list_mode_def)
  have "list_all2 (\<lambda>i c. writes_items S a ?items ?h id {i} c) [0..<length kvs]
      (map (faulty_call (vs_fault S)) (map (\<lambda>(k, v, u). list_command S a k v u) ?items))"
  proof (rule list_all2_all_nthI)
    fix i
    assume i: "i < length [0..<length kvs]"
    then have "writes_items S a ?items ?h id {i} (faulty_call (vs_fault S) (list_command S a (fst (kvs ! i)) (snd (kvs ! i)) (se_uuid E (rs_uuids w + i))))"
      by (intro sent_item [OF assms(1,3) ok]) (simp_all add: items_of_nth)
    then show "writes_items S a ?items ?h id {[0..<length kvs] ! i}
        (map (faulty_call (vs_fault S)) (map (\<lambda>(k, v, u). list_command S a k v u) ?items) ! i)"
      using i by (simp add: items_of_nth)
  qed simp
  from run_items [OF this]
  have "writes_items S a ?items ?h rs_server {..<length kvs} (execute_pipeline S a ?items)"
    unfolding execute_pipeline_def pipe_list_commands [OF assms(3)]
    by (intro require_then_items) (simp add: with_server_items atLeast0LessThan bindE_of_Inr)
  from retried_items [OF assms(2) this]
  have op: "writes_items S a ?items ?h rs_server {..<length kvs} (retry_redis_command E (execute_pipeline S a ?items))" .
  obtain w2 y where send: "retry_redis_command E (execute_pipeline S a ?items) ?w1 = (w2, y)" by (metis prod.collapse)
  have batch: "redis_sink_write_batch S E a records w = (case y of Inl e \<Rightarrow> (w2, Inl e)
      | Inr _ \<Rightarrow> thenE (modifyE (\<lambda>w. w\<lparr>rs_pipeline_execute_count := Suc (rs_pipeline_execute_count w)\<rparr>))
           (thenE (count_records (length records) (length records)) (note_write E)) w2)"
    using True mode send prepared_items [OF assms(4), of E "w\<lparr>rs_write_batch_call_count := Suc (rs_write_batch_call_count w)\<rparr>"]
    by (simp add: redis_sink_write_batch_def thenE_run bindE_def rsink_require_client_def split: sum.split)
  have same: "rs_server w' = rs_server w2" "x = y"
    using run batch by (auto simp: count_records_def note_write_def split: sum.splits)
  have "done_of a ?items ?h [] (held S (rs_server ?w1))" using done_none by simp
  then obtain os where os: "done_of a ?items ?h os (held S (rs_server w2))" "y = Inr () \<longrightarrow> {..<length kvs} \<subseteq> set os"
    using op send unfolding writes_items_def by blast
  then have "set os \<subseteq> {..<length kvs}" "vs_list S (rs_server w2) = lists_after a ?items (vs_list S (rs_server w)) os"
    by (simp_all add: done_of_def held_def)
  then show ?thesis using os same by (intro exI [of _ os]) (auto simp: done_of_def lists_after_items)
qed


section \<open>A batch of keys\<close>

definition settles :: "'r sink_server \<Rightarrow> ('s \<Rightarrow> 'r) \<Rightarrow> (held \<Rightarrow> bool) \<Rightarrow> (held \<Rightarrow> bool) \<Rightarrow> ('s, unit) eff \<Rightarrow> bool" where
  "settles S server P Q op \<longleftrightarrow>
     (\<forall>w w' x. P (held S (server w)) \<longrightarrow> op w = (w', x) \<longrightarrow> P (held S (server w')) \<and> (x = Inr () \<longrightarrow> Q (held S (server w'))))"

lemma settles_server: "settles S id P Q m \<Longrightarrow> settles S rs_server P Q (thenE rsink_require_client (with_server m))"
  by (fastforce simp: settles_def thenE_run rsink_require_client_def with_server_def split: prod.splits if_splits)

lemma settles_retried:
  assumes law: "retry_law (se_retry E)" and op: "settles S rs_server P Q op"
  shows "settles S rs_server P Q (retry_redis_command E op)"
  unfolding settles_def retry_redis_command_def
proof (intro allI impI)
  fix w w' x
  assume P: "P (held S (rs_server w))" and run: "se_retry E op id w = (w', x)"
  have "attempts op id w out \<Longrightarrow> P (held S (rs_server w)) \<Longrightarrow>
      P (held S (rs_server (fst out))) \<and> (snd out = Inr () \<longrightarrow> Q (held S (rs_server (fst out))))" for w out
  proof (induction rule: attempts.induct)
    case (last_attempt s)
    then show ?case using op unfolding settles_def by (metis prod.collapse)
  next
    case (next_attempt s s1 e out)
    then show ?case using op unfolding settles_def by (metis id_apply)
  qed
  then show "P (held S (rs_server w')) \<and> (x = Inr () \<longrightarrow> Q (held S (rs_server w')))"
    using law P run unfolding retry_law_def by (metis fst_conv snd_conv)
qed

text \<open>Each key holds what it held or a value of the batch; the last value of each key.\<close>

definition some_set :: "(string \<times> pyval) list \<Rightarrow> held \<Rightarrow> held \<Rightarrow> bool" where
  "some_set kvs h0 h \<longleftrightarrow> snd h = snd h0 \<and> (\<forall>k. fst h k = fst h0 k \<or> (\<exists>v. (k, v) \<in> set kvs \<and> fst h k = Some v))"

definition all_set :: "(string \<times> pyval) list \<Rightarrow> held \<Rightarrow> held \<Rightarrow> bool" where
  "all_set kvs h0 h \<longleftrightarrow> h = (fst h0 ++ map_of (rev kvs), snd h0)"

lemma foldl_updates: "foldl (\<lambda>T (k, v). T(k \<mapsto> v)) T kvs = T ++ map_of (rev kvs)"
  by (induction kvs arbitrary: T) auto

lemma all_set_again:
  assumes "some_set kvs h0 h"
  shows "fst h ++ map_of (rev kvs) = fst h0 ++ map_of (rev kvs)"
proof
  fix k
  show "(fst h ++ map_of (rev kvs)) k = (fst h0 ++ map_of (rev kvs)) k"
  proof (cases "map_of (rev kvs) k")
    case None
    then have "k \<notin> fst ` set kvs" by (simp add: map_of_eq_None_iff)
    then have "fst h k = fst h0 k" using assms unfolding some_set_def by (metis fst_conv image_eqI)
    then show ?thesis using None by (simp add: map_add_def)
  qed (simp add: map_add_def)
qed

lemma all_set_some: "all_set kvs h0 h \<Longrightarrow> some_set kvs h0 h"
  by (auto simp: all_set_def some_set_def map_add_def split: option.split dest: map_of_SomeD)

lemma mset_settles:
  assumes laws: "sink_server_laws S" and m: "map_of d = map_of (rev kvs)" "d \<noteq> []" and L: "\<And>k. k \<in> fst ` set kvs \<Longrightarrow> snd h0 k = []"
  shows "settles S id (some_set kvs h0) (all_set kvs h0) (faulty_call (vs_fault S) (vs_mset S d))"
  unfolding settles_def
proof (intro allI impI)
  fix r r' x
  assume P: "some_set kvs h0 (held S (id r))" and run: "faulty_call (vs_fault S) (vs_mset S d) r = (r', x)"
  obtain T L where h: "held S r = (T, L)" by (cases "held S r")
  have "dom (map_of d) = dom (map_of (rev kvs))" using m(1) by simp
  then have keys: "fst ` set d = fst ` set kvs" by (simp add: dom_map_of_conv_image_fst)
  have "L = snd h0" using P h by (simp add: some_set_def)
  then have "runs_on (held S) (vs_mset S d) (held S r) () (T ++ map_of (rev kvs), L)"
    unfolding h m(1) [symmetric] using assms(4) keys m(2) by (intro sink_commands(4) [OF laws]) auto
  moreover have "T ++ map_of (rev kvs) = fst h0 ++ map_of (rev kvs)" using all_set_again [OF P] h by simp
  ultimately have "runs_on (held S) (vs_mset S d) (held S r) () (fst h0 ++ map_of (rev kvs), snd h0)" using \<open>L = snd h0\<close> by simp
  from runs_on_faulty [OF sink_commands(1) [OF laws] this run]
  have "all_set kvs h0 (held S r') \<or> held S r' = held S r \<and> x \<noteq> Inr ()" by (auto simp: all_set_def)
  then show "some_set kvs h0 (held S (id r')) \<and> (x = Inr () \<longrightarrow> all_set kvs h0 (held S (id r')))"
    using all_set_some [of kvs h0 "held S r'"] P by (metis id_apply)
qed

lemma sets_settle:
  assumes laws: "sink_server_laws S" and L: "\<And>k. k \<in> fst ` set kvs \<Longrightarrow> snd h0 k = []"
  shows "settles S id (some_set kvs h0) (all_set kvs h0)
    (run_commands (map (faulty_call (vs_fault S)) (map (\<lambda>kv. vs_set S (fst kv) (snd kv) ttl) kvs)))"
proof -
  have "some_set kvs h0 (held S r') \<and> (x = Inr () \<longrightarrow> held S r' = (fst (held S r) ++ map_of (rev sent), snd h0))"
    if "set sent \<subseteq> set kvs" "some_set kvs h0 (held S r)"
      "run_commands (map (faulty_call (vs_fault S)) (map (\<lambda>kv. vs_set S (fst kv) (snd kv) ttl) sent)) r = (r', x)" for sent r r' x
    using that
  proof (induction sent arbitrary: r r' x)
    case Nil
    then show ?case by (simp add: some_set_def prod_eq_iff)
  next
    case (Cons kv sent)
    obtain k v where kv: "kv = (k, v)" by (cases kv)
    obtain T L where h: "held S r = (T, L)" by (cases "held S r")
    have k: "(k, v) \<in> set kvs" using Cons.prems(1) kv by simp
    then have "snd h0 k = []" using L by force
    then have "L k = []" using Cons.prems(2) h by (simp add: some_set_def)
    then have set: "runs_on (held S) (vs_set S k v ttl) (held S r) () (T(k \<mapsto> v), L)" unfolding h by (rule sink_commands(2) [OF laws])
    obtain r1 y where c: "faulty_call (vs_fault S) (vs_set S k v ttl) r = (r1, y)" by (metis prod.collapse)
    note one = runs_on_faulty [OF sink_commands(1) [OF laws] set c]
    have "held S r1 = held S r \<or> held S r1 = (T(k \<mapsto> v), L)" using one by blast
    then have P1: "some_set kvs h0 (held S r1)"
    proof
      assume "held S r1 = (T(k \<mapsto> v), L)"
      then show ?thesis using Cons.prems(2) h k unfolding some_set_def by (metis fst_conv fun_upd_apply snd_conv)
    qed (use Cons.prems(2) in simp)
    obtain r2 z where rest: "run_commands (map (faulty_call (vs_fault S)) (map (\<lambda>kv. vs_set S (fst kv) (snd kv) ttl) sent)) r1 = (r2, z)"
      by (metis prod.collapse)
    have "r' = r2" "x = Inr () \<longrightarrow> y = Inr () \<and> z = Inr ()" using Cons.prems(3) c rest kv by (auto split: sum.splits)
    moreover have "some_set kvs h0 (held S r2) \<and> (z = Inr () \<longrightarrow> held S r2 = (fst (held S r1) ++ map_of (rev sent), snd h0))"
      using Cons.IH [OF _ P1 rest] Cons.prems(1) by simp
    moreover have "y = Inr () \<Longrightarrow> held S r1 = (T(k \<mapsto> v), L)" using one by auto
    ultimately show ?case using h kv by auto
  qed
  from this [of kvs] show ?thesis
    using all_set_again unfolding settles_def all_set_def by (metis (no_types, lifting) id_apply subset_refl)
qed

lemma mset_mapping_keyed:
  assumes "keyed a records kvs"
  shows "\<exists>d'. mset_mapping a records d = Inr d' \<and> map_of d' = map_of d ++ map_of (rev kvs) \<and> (d \<noteq> [] \<or> kvs \<noteq> [] \<longrightarrow> d' \<noteq> [])"
  using assms unfolding keyed_def
proof (induction records kvs arbitrary: d rule: list_all2_induct)
  case (Cons r rs kv kvs)
  have "dict_set (fst kv) (snd kv) d \<noteq> []" by (cases d) auto
  moreover have "map_of (dict_set (fst kv) (snd kv) d) ++ map_of (rev kvs) = map_of d ++ map_of (rev (kv # kvs))"
    by (cases kv) (auto simp: update_conv' map_add_def fun_eq_iff split: option.split)
  moreover obtain d' where "mset_mapping a rs (dict_set (fst kv) (snd kv) d) = Inr d'"
    "map_of d' = map_of (dict_set (fst kv) (snd kv) d) ++ map_of (rev kvs)" "dict_set (fst kv) (snd kv) d \<noteq> [] \<longrightarrow> d' \<noteq> []"
    using Cons.IH [of "dict_set (fst kv) (snd kv) d"] by blast
  ultimately show ?case using Cons.hyps by (intro exI [of _ d']) (simp del: update_conv')
qed simp

lemma pipe_set_commands:
  "ra_mode a = ''set'' \<Longrightarrow> pipe_commands S a (items_of uuid n kvs) = Inr (map (\<lambda>kv. vs_set S (fst kv) (snd kv) (ra_ttl_seconds a)) kvs)"
  by (induction uuid n kvs rule: items_of.induct) (auto simp: is_list_mode_def plain_command_def)

text \<open>
  C23: a batch of keys is as good as writing its records one after the other.  When it returns, by \<^verbatim>\<open>MSET\<close> or by a
  pipeline, whatever was tried again, each key holds the last value of the batch for it and every other key what it
  held; when it raises, a key holds what it held or a value of the batch.
\<close>

theorem set_batch_is_sequential:
  assumes "sink_server_laws S" "retry_law (se_retry E)" "ra_mode a = ''set''" "keyed a records kvs"
    and "\<forall>k \<in> fst ` set kvs. vs_list S (rs_server w) k = []"
    and run: "redis_sink_write_batch S E a records w = (w', x)"
  shows "(x = Inr () \<longrightarrow> vs_text S (rs_server w') = foldl (\<lambda>T (k, v). T(k \<mapsto> v)) (vs_text S (rs_server w)) kvs) \<and>
    (\<forall>k. vs_text S (rs_server w') k = vs_text S (rs_server w) k \<or> (\<exists>v. (k, v) \<in> set kvs \<and> vs_text S (rs_server w') k = Some v)) \<and>
    vs_list S (rs_server w') = vs_list S (rs_server w)"
proof (cases "rs_client w \<and> records \<noteq> []")
  case False
  have "kvs = [] \<longleftrightarrow> records = []" using assms(4) by (auto simp: keyed_def)
  then show ?thesis using False run
    by (auto simp: redis_sink_write_batch_def thenE_run rsink_require_client_def split: if_splits)
next
  case True
  let ?h = "held S (rs_server w)" and ?w1 = "w\<lparr>rs_write_batch_call_count := Suc (rs_write_batch_call_count w)\<rparr>"
  have L: "\<And>k. k \<in> fst ` set kvs \<Longrightarrow> snd ?h k = []" using bspec [OF assms(5)] unfolding held_def snd_conv by blast
  have kvs: "kvs \<noteq> []" using True assms(4) by (auto simp: keyed_def)
  obtain d where d: "mset_mapping a records [] = Inr d" "map_of d = map_of (rev kvs)" "d \<noteq> []"
    using mset_mapping_keyed [OF assms(4), of "[]"] kvs by auto
  obtain op :: "(_ redis_sink, unit) eff" and w2 w3 y where op: "settles S rs_server (some_set kvs ?h) (all_set kvs ?h) op"
    and send: "op w2 = (w3, y)" "rs_server w3 = rs_server w'" "rs_server w2 = rs_server w" "x = y"
  proof (cases "ra_ttl_seconds a = None \<and> \<not> ra_redis_cluster a")
    case mset: True
    let ?op = "retry_redis_command E (thenE rsink_require_client (with_server (faulty_call (vs_fault S) (vs_mset S d))))"
    obtain w3 y where s: "?op ?w1 = (w3, y)" by (metis prod.collapse)
    have "rs_server w3 = rs_server w' \<and> x = y"
      using run True mset assms(3) d(1) s
      by (auto simp: redis_sink_write_batch_def thenE_run bindE_of_Inr rsink_require_client_def count_records_def note_write_def split: sum.splits)
    moreover have "settles S rs_server (some_set kvs ?h) (all_set kvs ?h) ?op"
      by (intro settles_retried [OF assms(2)] settles_server mset_settles [OF assms(1) d(2,3)] L)
    ultimately show thesis using that [of ?op ?w1 w3 y] s by simp
  next
    case pipe: False
    let ?items = "items_of (se_uuid E) (rs_uuids w) kvs"
    let ?op = "retry_redis_command E (execute_pipeline S a ?items)"
    let ?w2 = "?w1\<lparr>rs_uuids := rs_uuids w + length kvs\<rparr>"
    obtain w3 y where s: "?op ?w2 = (w3, y)" by (metis prod.collapse)
    have "rs_server w3 = rs_server w' \<and> x = y"
      using run True pipe assms(3) s prepared_items [OF assms(4), of E ?w1]
      by (auto simp: redis_sink_write_batch_def thenE_run bindE_def rsink_require_client_def count_records_def note_write_def split: sum.splits)
    moreover have "settles S rs_server (some_set kvs ?h) (all_set kvs ?h) ?op"
      unfolding execute_pipeline_def pipe_set_commands [OF assms(3)] bindE_of_Inr
      by (intro settles_retried [OF assms(2)] settles_server sets_settle [OF assms(1)] L)
    ultimately show thesis using that [of ?op ?w2 w3 y] s by simp
  qed
  have "some_set kvs ?h ?h" by (simp add: some_set_def)
  then have "some_set kvs ?h (held S (rs_server w')) \<and> (x = Inr () \<longrightarrow> all_set kvs ?h (held S (rs_server w')))"
    using op send unfolding settles_def by metis
  then show ?thesis by (auto simp: some_set_def all_set_def held_def foldl_updates)
qed


text \<open>A single list write.\<close>

lemma list_write_applied_once:
  assumes "sink_server_laws S" "retry_law (se_retry E)" "is_list_mode a" "ra_key_fn a record = Inr k" "ra_serializer a record = Inr v"
    and "fresh_ids (se_uuid E) (rs_uuids w) (held S (rs_server w))" "list_keys (se_uuid E) (held S (rs_server w)) {k}"
    and run: "redis_sink_write S E a record w = (w', x)"
  shows "vs_list S (rs_server w') = (vs_list S (rs_server w))(k := pushed a v (vs_list S (rs_server w) k)) \<or>
    (vs_list S (rs_server w') = vs_list S (rs_server w) \<and> (\<exists>e. x = Inl e))"
proof (cases "rs_client w")
  case False
  then show ?thesis using run by (auto simp: redis_sink_write_def thenE_run rsink_require_client_def)
next
  case True
  let ?u = "se_uuid E (rs_uuids w)" and ?h = "held S (rs_server w)"
  let ?items = "[(k, v, ?u)]"
  let ?op = "retry_redis_command E (thenE rsink_require_client (with_server (faulty_call (vs_fault S) (list_command S a k v ?u))))"
  have "writable (items_of (se_uuid E) (rs_uuids w) [(k, v)]) ?h" using assms(6,7) by (intro fresh_writable) simp_all
  then have ok: "writable ?items ?h" by simp
  have op: "writes_items S a ?items ?h rs_server {0} ?op"
    by (intro retried_items [OF assms(2)] require_then_items with_server_items sent_item [OF assms(1,3) ok]) simp_all
  let ?w1 = "w\<lparr>rs_write_call_count := Suc (rs_write_call_count w), rs_uuids := Suc (rs_uuids w)\<rparr>"
  obtain w2 y where send: "?op ?w1 = (w2, y)" by (metis prod.collapse)
  have "rs_server w2 = rs_server w' \<and> x = y"
    using run True send assms(3-5)
    by (auto simp: redis_sink_write_def thenE_run bindE_of_Inr rsink_require_client_def new_operation_id_def bindE_def count_records_def
        note_write_def split: sum.splits)
  moreover have "done_of a ?items ?h [] (held S (rs_server ?w1))" using done_none by simp
  then obtain os where os: "done_of a ?items ?h os (held S (rs_server w2))" "y = Inr () \<longrightarrow> {0} \<subseteq> set os"
    using op send unfolding writes_items_def by blast
  moreover have "os = [] \<or> os = [0]"
    using os(1) by (cases os; cases "tl os") (auto simp: done_of_def)
  ultimately show ?thesis by (cases y) (auto simp: done_of_def lists_after_def held_def)
qed

section \<open>Markers and the slots of a cluster\<close>

text \<open>
  The part of a key a Redis cluster hashes.  The marker is in the slot of its list when the list key has a hash tag or
  is a text without braces; with other braces in the key they are in general in different slots, and a cluster refuses
  the script.
\<close>

definition hashed_part :: "string \<Rightarrow> string" where
  "hashed_part key = (case redis_hash_tag key of None \<Rightarrow> key | Some tag \<Rightarrow> tag)"

lemma hash_tag_braced: "CHR ''}'' \<notin> set t \<Longrightarrow> t \<noteq> [] \<Longrightarrow> redis_hash_tag (''{'' @ t @ ''}'' @ s) = Some t"
  by (simp add: redis_hash_tag_def Let_def takeWhile_append)

lemma hash_tag_part: "redis_hash_tag key = Some t \<Longrightarrow> CHR ''}'' \<notin> set t \<and> t \<noteq> []"
  by (auto simp: redis_hash_tag_def Let_def split: list.splits if_splits dest: set_takeWhileD)

lemma hash_tag_none:
  assumes "CHR ''{'' \<notin> set key"
  shows "redis_hash_tag key = None"
proof -
  have "dropWhile (\<lambda>c. c \<noteq> CHR ''{'') key = []" using assms by auto
  then show ?thesis by (simp only: redis_hash_tag_def list.case)
qed

lemma marker_in_slot:
  assumes "redis_hash_tag key \<noteq> None \<or> (CHR ''{'' \<notin> set key \<and> CHR ''}'' \<notin> set key \<and> key \<noteq> [])"
  shows "hashed_part (list_idempotency_key key u) = hashed_part key"
proof (cases "redis_hash_tag key")
  case None
  then have "CHR ''{'' \<notin> set key" "CHR ''}'' \<notin> set key" "key \<noteq> []" using assms by simp_all
  then show ?thesis using None hash_tag_braced [of key] by (simp add: hashed_part_def list_idempotency_key_def)
next
  case (Some t)
  then show ?thesis using hash_tag_part [OF Some] hash_tag_braced [of t] by (simp add: hashed_part_def list_idempotency_key_def)
qed

lemma marker_in_other_slot: "hashed_part (list_idempotency_key ''a}b'' u) \<noteq> hashed_part ''a}b'' \<or> CHR ''{'' \<in> set u"
proof (cases "CHR ''{'' \<in> set u")
  case False
  then have "redis_hash_tag (list_idempotency_key ''a}b'' u) = None" "list_idempotency_key ''a}b'' u \<noteq> ''a}b''"
    by (simp_all add: list_idempotency_key_def hash_tag_none)
  then show ?thesis by (simp add: hashed_part_def hash_tag_none)
qed simp

section \<open>Instances\<close>

type_synonym sample_keys_state = "(string \<Rightarrow> pyval option) \<times> (string \<Rightarrow> pyval list) \<times> call_fault list"

definition sample_sink_server :: "sample_keys_state sink_server" where
  "sample_sink_server =
     \<lparr>vs_set = (\<lambda>k v ex (T, L, f). ((T(k \<mapsto> v), L(k := []), f), Inr ())),
      vs_set_nx = (\<lambda>k v ttl (T, L, f). if T k = None \<and> L k = [] then ((T(k \<mapsto> PStr v), L, f), Inr True) else ((T, L, f), Inr False)),
      vs_mset = (\<lambda>d (T, L, f). ((T ++ map_of d, (\<lambda>k. if k \<in> set (dict_keys d) then [] else L k), f), Inr ())),
      vs_lpush = (\<lambda>k v (T, L, f). ((T, L(k := v # L k), f), Inr ())),
      vs_rpush = (\<lambda>k v (T, L, f). ((T, L(k := L k @ [v]), f), Inr ())),
      vs_ltrim = (\<lambda>k i j (T, L, f). ((T, L(k := trimmed i j (L k)), f), Inr ())),
      vs_xadd = (\<lambda>k d m s. (s, Inr ())),
      vs_fault = (\<lambda>(T, L, f). case f of [] \<Rightarrow> ((T, L, []), NoFault) | x # xs \<Rightarrow> ((T, L, xs), x)),
      vs_text = (\<lambda>(T, L, f). T), vs_list = (\<lambda>(T, L, f). L)\<rparr>"

lemma sample_sink_laws: "sink_server_laws sample_sink_server"
proof -
  have L: "(\<lambda>k. if k \<in> fst ` set d then [] else L k) = L" if "\<forall>k \<in> set d. L (fst k) = []" for d :: "(string, pyval) dict" and L :: "string \<Rightarrow> pyval list"
    using that by (auto simp: fun_eq_iff)
  show ?thesis unfolding sink_server_laws_def
    by (intro conjI allI impI) (auto simp: sample_sink_server_def runs_on_def held_def L fun_upd_idem split: list.splits prod.splits)
qed

definition sample_sink_env :: "sample_keys_state sink_env" where
  "sample_sink_env = \<lparr>se_uuid = (\<lambda>n. replicate (Suc n) (CHR ''a'')), se_now = (\<lambda>_. ''t''), se_retry = two_attempts\<rparr>"

definition sample_sink_args :: "string \<Rightarrow> string redis_sink_args" where
  "sample_sink_args mode =
     \<lparr>ra_key_fn = (\<lambda>_. Inr ''k''), ra_serializer = (\<lambda>s. Inr (PStr s)), ra_mode = mode, ra_ttl_seconds = None, ra_maxlen = Some 5,
      ra_redis_cluster = False, ra_replay_safe_key_contract = False\<rparr>"

definition sample_redis_sink :: "call_fault list \<Rightarrow> sample_keys_state redis_sink" where
  "sample_redis_sink faults = fst (redis_sink_open (redis_sink_init ((\<lambda>_. None), (\<lambda>_. []), faults)))"

theorem list_batch_applied_once_witness:
  "\<exists>w'. redis_sink_write_batch sample_sink_server sample_sink_env (sample_sink_args ''rpush'') [''v'']
      (sample_redis_sink [LostReply (RuntimeError ''reset'')]) = (w', Inr ()) \<and> vs_list sample_sink_server (rs_server w') ''k'' = [PStr ''v'']"
proof -
  let ?a = "sample_sink_args ''rpush''" and ?w = "sample_redis_sink [LostReply (RuntimeError ''reset'')]"
  obtain w' x where run: "redis_sink_write_batch sample_sink_server sample_sink_env ?a [''v''] ?w = (w', x)"
    by (rule prod.exhaust)
  have "snd (redis_sink_write_batch sample_sink_server sample_sink_env ?a [''v''] ?w) = Inr ()" by code_simp
  then have x: "x = Inr ()" by (simp only: run snd_conv)
  have w: "rs_server ?w = ((\<lambda>_. None), (\<lambda>_. []), [LostReply (RuntimeError ''reset'')])" "rs_uuids ?w = 0"
    by (simp_all add: sample_redis_sink_def redis_sink_init_def redis_sink_open_def)
  have mode: "is_list_mode ?a" by (simp add: is_list_mode_def sample_sink_args_def)
  have keyed: "keyed ?a [''v''] [(''k'', PStr ''v'')]" by (simp add: keyed_def sample_sink_args_def)
  have retry: "retry_law (se_retry sample_sink_env)" by (simp add: sample_sink_env_def two_attempts_law)
  have uuid: "se_uuid sample_sink_env = (\<lambda>n. replicate (Suc n) (CHR ''a''))" by (simp add: sample_sink_env_def)
  have fresh: "fresh_ids (se_uuid sample_sink_env) (rs_uuids ?w) (held sample_sink_server (rs_server ?w))"
    unfolding uuid w by (auto simp: fresh_ids_def held_def sample_sink_server_def inj_def replicate_eq_replicate)
  have "list_idempotency_key key (replicate (Suc i) (CHR ''a'')) \<noteq> ''k''" for key i
    using marker_ends [of key "replicate (Suc i) (CHR ''a'')"] by (auto simp: append_eq_Cons_conv)
  then have keys: "list_keys (se_uuid sample_sink_env) (held sample_sink_server (rs_server ?w)) (fst ` set [(''k'', PStr ''v'')])"
    unfolding uuid w by (simp add: list_keys_def held_def sample_sink_server_def)
  obtain os where "set os = {..<1}" "distinct os" "vs_list sample_sink_server (rs_server w') = lists_with ?a [(''k'', PStr ''v'')] (\<lambda>_. []) os"
    using list_batch_applied_once [OF sample_sink_laws retry mode keyed fresh keys run] x
    by (auto simp: w sample_sink_server_def)
  moreover then have "os = [0]" by (cases os; cases "tl os") (auto simp: lessThan_Suc)
  ultimately show ?thesis using run x by (simp add: lists_with_def pushed_def sample_sink_args_def maxlen_or_zero_def)
qed

theorem set_batch_is_sequential_witness:
  "\<exists>w'. redis_sink_write_batch sample_sink_server sample_sink_env (sample_sink_args ''set'') [''u'', ''v'']
      (sample_redis_sink [LostReply (RuntimeError ''reset'')]) = (w', Inr ()) \<and> vs_text sample_sink_server (rs_server w') ''k'' = Some (PStr ''v'')"
proof -
  let ?a = "sample_sink_args ''set''" and ?w = "sample_redis_sink [LostReply (RuntimeError ''reset'')]"
  obtain w' x where run: "redis_sink_write_batch sample_sink_server sample_sink_env ?a [''u'', ''v''] ?w = (w', x)"
    by (rule prod.exhaust)
  have "snd (redis_sink_write_batch sample_sink_server sample_sink_env ?a [''u'', ''v''] ?w) = Inr ()" by code_simp
  then have x: "x = Inr ()" by (simp only: run snd_conv)
  have keyed: "keyed ?a [''u'', ''v''] [(''k'', PStr ''u''), (''k'', PStr ''v'')]" by (simp add: keyed_def sample_sink_args_def)
  have retry: "retry_law (se_retry sample_sink_env)" by (simp add: sample_sink_env_def two_attempts_law)
  have "vs_list sample_sink_server (rs_server ?w) k = []" for k
    by (simp add: sample_redis_sink_def redis_sink_init_def redis_sink_open_def sample_sink_server_def)
  then show ?thesis using set_batch_is_sequential [OF sample_sink_laws retry _ keyed _ run] run x by (auto simp: sample_sink_args_def)
qed

end
