(* ===== verification/Kafka_Sink.thy ===== *)
theory Kafka_Sink
  imports Schema_Wire
begin

text \<open>
  The Kafka sink of \<^verbatim>\<open>kafka/sinks/kafka.py\<close> with \<^verbatim>\<open>_message.py\<close>, \<^verbatim>\<open>_producer_options.py\<close> and \<^verbatim>\<open>kafka/_lifecycle.py\<close>:
  settings, the message of a record, sending with retries, the queue of deliveries that wait for their
  acknowledgement, batches, transactions, opening and closing.

  The producer is the environment: the sink's log records every call with whether it returned, and the environment
  decides from the log so far whether a call returns or raises.  The delivery a \<^verbatim>\<open>send\<close> returns is named by the
  place of the \<^verbatim>\<open>send\<close> in the log.  The functions that make topic, key, value and so on of a record are the caller's
  and may raise; \<^verbatim>\<open>retry_async\<close> is a parameter with the law \<open>retry_law\<close>.  The sink is used by one task.
\<close>

section \<open>Messages\<close>

type_synonym msg_headers = "(string \<times> bytes) list"

text \<open>A field of \<^verbatim>\<open>KafkaSinkMessage\<close> is \<open>None\<close> when it is \<^verbatim>\<open>UNSET\<close>.\<close>

record sink_message =
  sm_value :: "bytes option option"
  sm_topic :: "string option"
  sm_key :: "bytes option option"
  sm_partition :: "int option option"
  sm_headers :: "msg_headers option option"
  sm_timestamp_ms :: "int option option"

definition unset_message :: sink_message where
  "unset_message =
     \<lparr>sm_value = None, sm_topic = None, sm_key = None, sm_partition = None, sm_headers = None, sm_timestamp_ms = None\<rparr>"

record publish_message =
  pm_topic :: string
  pm_value :: "bytes option"
  pm_key :: "bytes option"
  pm_partition :: "int option"
  pm_headers :: "msg_headers option"
  pm_timestamp_ms :: "int option"

definition coerce_headers :: "msg_headers option option \<Rightarrow> msg_headers option" where
  "coerce_headers h = (case h of None \<Rightarrow> None | Some None \<Rightarrow> None | Some (Some hs) \<Rightarrow> Some hs)"

section \<open>Settings\<close>

datatype lifecycle_object = SerializerObject | MessageFnObject

text \<open>
  \<open>kc_serializer_awaits r\<close>: the value the serializer returns for \<open>r\<close> is awaitable.  \<open>kc_inject\<close> adds the headers of
  tracing; \<open>kc_has_hook\<close> and \<open>kc_supports\<close> say which methods the caller's objects and the producer have;
  \<open>kc_should_retry\<close> is \<^verbatim>\<open>should_retry\<close> of the retry policy.
\<close>

record 'r kafka_sink_config =
  kc_topic :: string
  kc_serializer :: "'r \<Rightarrow> bytes result"
  kc_serializer_is_async :: bool
  kc_serializer_awaits :: "'r \<Rightarrow> bool"
  kc_message_fn :: "('r \<Rightarrow> sink_message result) option"
  kc_topic_fn :: "('r \<Rightarrow> string option result) option"
  kc_key_fn :: "('r \<Rightarrow> bytes option result) option"
  kc_partition_fn :: "('r \<Rightarrow> int option result) option"
  kc_headers_fn :: "('r \<Rightarrow> msg_headers option result) option"
  kc_timestamp_ms_fn :: "('r \<Rightarrow> int option result) option"
  kc_inject :: "msg_headers option \<Rightarrow> msg_headers option"
  kc_max_pending_acks :: int
  kc_transaction_per_batch :: bool
  kc_has_hook :: "lifecycle_object \<Rightarrow> string \<Rightarrow> bool"
  kc_supports :: "string \<Rightarrow> bool"
  kc_should_retry :: "exn \<Rightarrow> bool"

definition PRODUCER_POSITIVE_INT_CONFIGS :: "string list" where
  "PRODUCER_POSITIVE_INT_CONFIGS =
     [''connections_max_idle_ms'', ''max_batch_size'', ''max_in_flight_requests_per_connection'',
      ''max_request_size'', ''metadata_max_age_ms'', ''request_timeout_ms'']"

definition PRODUCER_NON_NEGATIVE_INT_CONFIGS :: "string list" where
  "PRODUCER_NON_NEGATIVE_INT_CONFIGS = [''linger_ms'', ''retry_backoff_ms'']"

definition validate_int_config :: "string \<Rightarrow> pyval \<Rightarrow> int \<Rightarrow> unit result" where
  "validate_int_config name v minimum =
     (case v of
        PInt i \<Rightarrow>
          if i < minimum then Inl (ValueError (''KafkaSink producer option '' @ name @ '' must be >= '' @ str_of_int minimum @ ''.''))
          else Inr ()
      | _ \<Rightarrow> Inl (TypeError (''KafkaSink producer option '' @ name @ '' must be an integer >= '' @ str_of_int minimum @ ''.'')))"

fun validate_int_configs :: "string list \<Rightarrow> int \<Rightarrow> (string, pyval) dict \<Rightarrow> unit result" where
  "validate_int_configs [] minimum kwargs = Inr ()"
| "validate_int_configs (name # names) minimum kwargs =
     bindR (case dict_get kwargs name of None \<Rightarrow> Inr () | Some v \<Rightarrow> validate_int_config name v minimum)
           (\<lambda>_. validate_int_configs names minimum kwargs)"

text \<open>
  \<^verbatim>\<open>v in frozenset({0, 1, -1, "all"})\<close>: membership is by \<open>==\<close>, so \<^verbatim>\<open>True\<close>, \<^verbatim>\<open>False\<close> and floats equal to a member are
  members, and a value without a hash raises.  A float is \<open>m * 2 ^ e\<close>.
\<close>

definition float_is_int :: "int \<Rightarrow> int \<Rightarrow> int \<Rightarrow> bool" where
  "float_is_int m e i \<longleftrightarrow> (if 0 \<le> e then m * 2 ^ nat e = i else m = i * 2 ^ nat (- e))"

definition in_int_or_all :: "int list \<Rightarrow> pyval \<Rightarrow> bool result" where
  "in_int_or_all ints v =
     (case v of
        PInt i \<Rightarrow> Inr (List.member ints i)
      | PBool b \<Rightarrow> Inr (List.member ints (if b then 1 else 0))
      | PFloat m e \<Rightarrow> Inr (list_ex (float_is_int m e) ints)
      | PStr s \<Rightarrow> Inr (s = ''all'')
      | PNone \<Rightarrow> Inr False
      | PList _ \<Rightarrow> Inl (TypeError ''unhashable type'')
      | PDict _ \<Rightarrow> Inl (TypeError ''unhashable type''))"

definition VALID_ACKS :: "int list" where
  "VALID_ACKS = [0, 1, -1]"

definition validate_producer_tuning :: "(string, pyval) dict \<Rightarrow> unit result" where
  "validate_producer_tuning kwargs =
     bindR (validate_int_configs PRODUCER_POSITIVE_INT_CONFIGS 1 kwargs) (\<lambda>_.
     bindR (validate_int_configs PRODUCER_NON_NEGATIVE_INT_CONFIGS 0 kwargs) (\<lambda>_.
     bindR (case dict_get kwargs ''acks'' of
              None \<Rightarrow> Inr ()
            | Some v \<Rightarrow> bindR (in_int_or_all VALID_ACKS v) (\<lambda>ok.
                if ok then Inr ()
                else Inl (ValueError ''KafkaSink producer option acks must be one of 0, 1, -1, or all.''))) (\<lambda>_.
     (case dict_get kwargs ''enable_idempotence'' of
        None \<Rightarrow> Inr ()
      | Some (PBool _) \<Rightarrow> Inr ()
      | Some _ \<Rightarrow> Inl (TypeError ''KafkaSink producer option enable_idempotence must be a bool.'')))))"

definition setdefault :: "string \<Rightarrow> pyval \<Rightarrow> (string, pyval) dict \<Rightarrow> (string, pyval) dict" where
  "setdefault k v d = (if dict_get d k = None then dict_set k v d else d)"

text \<open>\<open>None\<close>: the signature of the client is not known or takes any keyword.\<close>

definition supports_producer_kwarg :: "string list option \<Rightarrow> string \<Rightarrow> bool" where
  "supports_producer_kwarg supported name = (case supported of None \<Rightarrow> True | Some names \<Rightarrow> List.member names name)"

text \<open>The constructor: its checks in their order, and the keyword arguments the producer is made with.\<close>

definition kafka_sink_settings ::
    "string list option \<Rightarrow> int \<Rightarrow> string option \<Rightarrow> bool \<Rightarrow> (string, pyval) dict \<Rightarrow> (string, pyval) dict result" where
  "kafka_sink_settings supported max_pending_acks transactional_id per_batch kwargs =
     (if max_pending_acks < 1 then Inl (ValueError ''max_pending_acks must be >= 1'')
      else if transactional_id = Some '''' then Inl (ValueError ''KafkaSink transactional_id must be non-empty when provided.'')
      else if per_batch \<and> transactional_id = None
        then Inl (ValueError ''KafkaSink transaction_per_batch=True requires transactional_id.'')
      else
        (let k1 = setdefault ''enable_idempotence'' (PBool True)
                    (setdefault ''compression_type'' (PStr ''gzip'') (setdefault ''linger_ms'' (PInt 5) kwargs));
             k2 = (case transactional_id of
                     None \<Rightarrow> k1
                   | Some t \<Rightarrow> dict_set ''enable_idempotence'' (PBool True) (dict_set ''transactional_id'' (PStr t) k1))
         in bindR (validate_producer_tuning k2) (\<lambda>_.
              if dict_get k2 ''enable_idempotence'' \<noteq> Some (PBool True) then Inr k2
              else
                (let k3 = setdefault ''acks'' (PStr ''all'') k2;
                     k4 = (if supports_producer_kwarg supported ''max_in_flight_requests_per_connection''
                           then setdefault ''max_in_flight_requests_per_connection'' (PInt 5) k3 else k3)
                 in bindR (in_int_or_all [-1] (dict_getd k4 ''acks'' PNone)) (\<lambda>ok.
                      if ok then Inr k4
                      else Inl (ValueError ''KafkaSink with idempotence enabled requires acks=all''))))))"

definition supported_producer_kwargs ::
    "string list option \<Rightarrow> (string, pyval) dict \<Rightarrow> (string, pyval) dict \<Rightarrow> (string, pyval) dict" where
  "supported_producer_kwargs supported security kwargs =
     filter (\<lambda>(k, _). supports_producer_kwarg supported k) (fold (\<lambda>(k, v). dict_set k v) kwargs security)"

section \<open>The message of a record\<close>

definition maybe_call :: "('r \<Rightarrow> 'a option result) option \<Rightarrow> 'r \<Rightarrow> 'a option result" where
  "maybe_call f r = (case f of None \<Rightarrow> Inr None | Some g \<Rightarrow> g r)"

definition topic_for :: "'r kafka_sink_config \<Rightarrow> 'r \<Rightarrow> string result" where
  "topic_for C r =
     bindR (maybe_call (kc_topic_fn C) r) (\<lambda>t.
       Inr (case t of None \<Rightarrow> kc_topic C | Some t' \<Rightarrow> if t' = '''' then kc_topic C else t'))"

definition serialize_sync :: "'r kafka_sink_config \<Rightarrow> 'r \<Rightarrow> bytes result" where
  "serialize_sync C r =
     (if kc_serializer_awaits C r
      then Inl (TypeError ''KafkaSink serializer returned awaitable on the synchronous path.'')
      else kc_serializer C r)"

definition message_overrides_for :: "'r kafka_sink_config \<Rightarrow> 'r \<Rightarrow> sink_message result" where
  "message_overrides_for C r = (case kc_message_fn C of None \<Rightarrow> Inr unset_message | Some f \<Rightarrow> f r)"

text \<open>A field the message sets is taken; for the others the functions of the sink are called, the topic's always.\<close>

definition publish_message_for :: "'r kafka_sink_config \<Rightarrow> 'r \<Rightarrow> publish_message result" where
  "publish_message_for C r =
     bindR (message_overrides_for C r) (\<lambda>payload.
     bindR (topic_for C r) (\<lambda>default_topic.
     bindR (case sm_value payload of None \<Rightarrow> bindR (kc_serializer C r) (\<lambda>v. Inr (Some v)) | Some v \<Rightarrow> Inr v) (\<lambda>v.
     bindR (case sm_key payload of None \<Rightarrow> maybe_call (kc_key_fn C) r | Some k \<Rightarrow> Inr k) (\<lambda>k.
     bindR (case sm_partition payload of None \<Rightarrow> maybe_call (kc_partition_fn C) r | Some p \<Rightarrow> Inr p) (\<lambda>p.
     bindR (case sm_headers payload of None \<Rightarrow> maybe_call (kc_headers_fn C) r | Some h \<Rightarrow> Inr (coerce_headers (Some h))) (\<lambda>h.
     bindR (case sm_timestamp_ms payload of None \<Rightarrow> maybe_call (kc_timestamp_ms_fn C) r | Some t \<Rightarrow> Inr t) (\<lambda>t.
       Inr \<lparr>pm_topic = (case sm_topic payload of None \<Rightarrow> default_topic | Some tp \<Rightarrow> tp), pm_value = v, pm_key = k,
            pm_partition = p, pm_headers = h, pm_timestamp_ms = t\<rparr>)))))))"

section \<open>The producer\<close>

datatype kafka_call =
    OpenObject lifecycle_object
  | CloseObject lifecycle_object
  | ProducerCreate
  | ProducerStart
  | ProducerStop
  | SendRecord publish_message
  | AwaitDelivery nat
  | ProducerFlush
  | BeginTransaction
  | CommitTransaction
  | AbortTransaction
  | SendOffsets "(topic_partition, int) dict" string

type_synonym kafka_log = "(kafka_call \<times> bool) list"

type_synonym kafka_env = "kafka_log \<Rightarrow> kafka_call \<Rightarrow> exn option"

text \<open>A call returns its place in the log.\<close>

definition producer_call :: "kafka_env \<Rightarrow> kafka_call \<Rightarrow> (kafka_log, nat) eff" where
  "producer_call E c l =
     (case E l c of None \<Rightarrow> (l @ [(c, True)], Inr (length l)) | Some e \<Rightarrow> (l @ [(c, False)], Inl e))"

section \<open>State\<close>

text \<open>A delivery that waits for its acknowledgement: the message, which is sent again when it fails, and its \<^verbatim>\<open>send\<close>.\<close>

datatype kafka_delivery = Delivery (dv_message: publish_message) (dv_handle: nat)

record kafka_sink =
  sn_producer :: bool
  sn_in_transaction :: bool
  sn_pending_acks :: "kafka_delivery list"
  sn_serializer_open :: bool
  sn_log :: kafka_log

definition kafka_sink_init :: kafka_sink where
  "kafka_sink_init =
     \<lparr>sn_producer = False, sn_in_transaction = False, sn_pending_acks = [], sn_serializer_open = False, sn_log = []\<rparr>"

type_synonym 'a ksink_op = "(kafka_sink, 'a) eff"

definition on_producer :: "(kafka_log, 'a) eff \<Rightarrow> 'a ksink_op" where
  "on_producer m s = (case m (sn_log s) of (l, r) \<Rightarrow> (s\<lparr>sn_log := l\<rparr>, r))"

definition ksink_call :: "kafka_env \<Rightarrow> kafka_call \<Rightarrow> unit ksink_op" where
  "ksink_call E c = on_producer (thenE (producer_call E c) (returnE ()))"

definition ksink_require_producer :: "unit ksink_op" where
  "ksink_require_producer s =
     (if sn_producer s then (s, Inr ()) else (s, Inl (RuntimeError ''KafkaSink.open() was not called'')))"

text \<open>\<^verbatim>\<open>except Exception\<close>: a cancellation is not caught.\<close>

definition unless_cancelled :: "('s, 'a) eff \<Rightarrow> (exn \<Rightarrow> ('s, 'a) eff) \<Rightarrow> ('s, 'a) eff" where
  "unless_cancelled m h = tryE m (\<lambda>e. if isinstance_exn e ''Exception'' then h e else raiseE e)"

section \<open>Sending\<close>

text \<open>
  The size of the value is computed for the span also without tracing, so a message without value raises here, before
  it is sent.
\<close>

definition issue_send :: "kafka_env \<Rightarrow> publish_message \<Rightarrow> (kafka_log, nat) eff" where
  "issue_send E m =
     (case pm_value m of
        None \<Rightarrow> raiseE (TypeError ''object of type NoneType has no len()'')
      | Some _ \<Rightarrow> producer_call E (SendRecord m))"

text \<open>What is awaited is the delivery; the metadata it returns names the \<^verbatim>\<open>send\<close>.\<close>

definition await_delivery :: "kafka_env \<Rightarrow> nat \<Rightarrow> (kafka_log, nat) eff" where
  "await_delivery E h = thenE (producer_call E (AwaitDelivery h)) (returnE h)"

definition send_and_confirm :: "kafka_env \<Rightarrow> publish_message \<Rightarrow> (kafka_log, nat) eff" where
  "send_and_confirm E m = bindE (issue_send E m) (await_delivery E)"

type_synonym ksink_retry = "(kafka_log, exn, nat) retry_fun"

definition send_with_retry ::
    "kafka_env \<Rightarrow> ksink_retry \<Rightarrow> 'r kafka_sink_config \<Rightarrow> publish_message \<Rightarrow> kafka_delivery ksink_op" where
  "send_with_retry E retry C m0 =
     thenE ksink_require_producer
       (let m = m0\<lparr>pm_headers := kc_inject C (pm_headers m0)\<rparr>
        in on_producer (bindE (retry (issue_send E m) id) (\<lambda>h. returnE (Delivery m h))))"

text \<open>Awaiting a \<^verbatim>\<open>_DeliveryConfirmation\<close>: a failure the policy retries is answered by sending the message again.\<close>

definition confirm :: "kafka_env \<Rightarrow> ksink_retry \<Rightarrow> 'r kafka_sink_config \<Rightarrow> kafka_delivery \<Rightarrow> (kafka_log, nat) eff" where
  "confirm E retry C d =
     unless_cancelled (await_delivery E (dv_handle d))
       (\<lambda>e. if \<not> kc_should_retry C e then raiseE e else retry (send_and_confirm E (dv_message d)) id)"

definition await_oldest_ack :: "kafka_env \<Rightarrow> ksink_retry \<Rightarrow> 'r kafka_sink_config \<Rightarrow> unit ksink_op" where
  "await_oldest_ack E retry C s =
     (case sn_pending_acks s of
        [] \<Rightarrow> (s, Inr ())
      | d # ds \<Rightarrow> on_producer (thenE (confirm E retry C d) (returnE ())) (s\<lparr>sn_pending_acks := ds\<rparr>))"

text \<open>Awaiting a delivery leaves the others where they are, so the loop is a recursion over the queue.\<close>

fun drain_loop :: "kafka_env \<Rightarrow> ksink_retry \<Rightarrow> 'r kafka_sink_config \<Rightarrow> kafka_delivery list \<Rightarrow> unit ksink_op" where
  "drain_loop E retry C [] = returnE ()"
| "drain_loop E retry C (d # ds) = thenE (await_oldest_ack E retry C) (drain_loop E retry C ds)"

definition drain_pending_acks :: "kafka_env \<Rightarrow> ksink_retry \<Rightarrow> 'r kafka_sink_config \<Rightarrow> unit ksink_op" where
  "drain_pending_acks E retry C s = drain_loop E retry C (sn_pending_acks s) s"

definition append_delivery ::
    "kafka_env \<Rightarrow> ksink_retry \<Rightarrow> 'r kafka_sink_config \<Rightarrow> kafka_delivery \<Rightarrow> unit ksink_op" where
  "append_delivery E retry C d =
     thenE (modifyE (\<lambda>s. s\<lparr>sn_pending_acks := sn_pending_acks s @ [d]\<rparr>))
       (\<lambda>s. if kc_max_pending_acks C \<le> int (length (sn_pending_acks s)) then await_oldest_ack E retry C s else (s, Inr ()))"

definition liftR :: "'a result \<Rightarrow> ('s, 'a) eff" where
  "liftR x s = (s, x)"

definition enqueue_send :: "kafka_env \<Rightarrow> ksink_retry \<Rightarrow> 'r kafka_sink_config \<Rightarrow> 'r \<Rightarrow> unit ksink_op" where
  "enqueue_send E retry C r =
     thenE ksink_require_producer
     (bindE (liftR (publish_message_for C r)) (\<lambda>m.
      bindE (send_with_retry E retry C m) (append_delivery E retry C)))"

definition ksink_write :: "kafka_env \<Rightarrow> ksink_retry \<Rightarrow> 'r kafka_sink_config \<Rightarrow> 'r \<Rightarrow> unit ksink_op" where
  "ksink_write E retry C r = thenE ksink_require_producer (enqueue_send E retry C r)"

section \<open>Batches\<close>

fun enqueue_each :: "kafka_env \<Rightarrow> ksink_retry \<Rightarrow> 'r kafka_sink_config \<Rightarrow> 'r list \<Rightarrow> unit ksink_op" where
  "enqueue_each E retry C [] = returnE ()"
| "enqueue_each E retry C (r # rs) = thenE (enqueue_send E retry C r) (enqueue_each E retry C rs)"

fun serialize_all :: "('r \<Rightarrow> bytes result) \<Rightarrow> 'r list \<Rightarrow> bytes list result" where
  "serialize_all f [] = Inr []"
| "serialize_all f (r # rs) = bindR (f r) (\<lambda>v. bindR (serialize_all f rs) (\<lambda>vs. Inr (v # vs)))"

definition batch_message :: "'r kafka_sink_config \<Rightarrow> 'r \<Rightarrow> bytes \<Rightarrow> publish_message result" where
  "batch_message C r v =
     bindR (topic_for C r) (\<lambda>tp.
     bindR (maybe_call (kc_key_fn C) r) (\<lambda>k.
     bindR (maybe_call (kc_partition_fn C) r) (\<lambda>p.
     bindR (maybe_call (kc_headers_fn C) r) (\<lambda>h.
     bindR (maybe_call (kc_timestamp_ms_fn C) r) (\<lambda>t.
       Inr \<lparr>pm_topic = tp, pm_value = Some v, pm_key = k, pm_partition = p, pm_headers = h, pm_timestamp_ms = t\<rparr>)))))"

fun send_each :: "kafka_env \<Rightarrow> ksink_retry \<Rightarrow> 'r kafka_sink_config \<Rightarrow> ('r \<times> bytes) list \<Rightarrow> unit ksink_op" where
  "send_each E retry C [] = returnE ()"
| "send_each E retry C ((r, v) # rvs) =
     thenE (bindE (liftR (batch_message C r v)) (\<lambda>m.
            bindE (send_with_retry E retry C m) (append_delivery E retry C)))
           (send_each E retry C rvs)"

text \<open>Without a message function all values are made before the first message is sent.\<close>

definition write_batch_unwrapped ::
    "kafka_env \<Rightarrow> ksink_retry \<Rightarrow> 'r kafka_sink_config \<Rightarrow> 'r list \<Rightarrow> unit ksink_op" where
  "write_batch_unwrapped E retry C rs =
     (if kc_message_fn C \<noteq> None then enqueue_each E retry C rs
      else bindE (liftR (serialize_all (if kc_serializer_is_async C then kc_serializer C else serialize_sync C) rs))
             (\<lambda>vs. send_each E retry C (zip rs vs)))"

section \<open>Transactions\<close>

definition ksink_supported :: "'r kafka_sink_config \<Rightarrow> string \<Rightarrow> unit ksink_op" where
  "ksink_supported C method =
     (if kc_supports C method then returnE () else raiseE (TypeError ''Kafka producer does not support transactions.''))"

definition begin_transaction :: "kafka_env \<Rightarrow> 'r kafka_sink_config \<Rightarrow> unit ksink_op" where
  "begin_transaction E C =
     thenE ksink_require_producer
     (thenE (ksink_supported C ''begin_transaction'')
     (thenE (ksink_call E BeginTransaction)
            (modifyE (\<lambda>s. s\<lparr>sn_in_transaction := True\<rparr>))))"

definition commit_transaction :: "kafka_env \<Rightarrow> ksink_retry \<Rightarrow> 'r kafka_sink_config \<Rightarrow> unit ksink_op" where
  "commit_transaction E retry C =
     thenE ksink_require_producer
     (thenE (ksink_supported C ''commit_transaction'')
     (thenE (drain_pending_acks E retry C)
     (thenE (ksink_call E CommitTransaction)
            (modifyE (\<lambda>s. s\<lparr>sn_in_transaction := False\<rparr>)))))"

definition abort_transaction :: "kafka_env \<Rightarrow> 'r kafka_sink_config \<Rightarrow> unit ksink_op" where
  "abort_transaction E C =
     thenE ksink_require_producer
     (thenE (ksink_supported C ''abort_transaction'')
     (thenE (modifyE (\<lambda>s. s\<lparr>sn_pending_acks := []\<rparr>))
     (thenE (ksink_call E AbortTransaction)
            (modifyE (\<lambda>s. s\<lparr>sn_in_transaction := False\<rparr>)))))"

definition send_offsets_to_transaction ::
    "kafka_env \<Rightarrow> 'r kafka_sink_config \<Rightarrow> (topic_partition, int) dict \<Rightarrow> string \<Rightarrow> unit ksink_op" where
  "send_offsets_to_transaction E C offsets group_id =
     thenE ksink_require_producer
     (thenE (ksink_supported C ''send_offsets_to_transaction'')
            (ksink_call E (SendOffsets offsets group_id)))"

text \<open>
  \<^verbatim>\<open>async with sink.transaction(): body\<close>.  The commit stands in the \<^verbatim>\<open>else\<close> branch: its own failure is not followed by
  an abort.
\<close>

definition transaction ::
    "kafka_env \<Rightarrow> ksink_retry \<Rightarrow> 'r kafka_sink_config \<Rightarrow> unit ksink_op \<Rightarrow> unit ksink_op" where
  "transaction E retry C body =
     thenE (begin_transaction E C)
     (\<lambda>s. case unless_cancelled body (\<lambda>e. thenE (abort_transaction E C) (raiseE e)) s of
            (s1, Inl e) \<Rightarrow> (s1, Inl e)
          | (s1, Inr _) \<Rightarrow> commit_transaction E retry C s1)"

definition ksink_write_batch :: "kafka_env \<Rightarrow> ksink_retry \<Rightarrow> 'r kafka_sink_config \<Rightarrow> 'r list \<Rightarrow> unit ksink_op" where
  "ksink_write_batch E retry C rs =
     thenE ksink_require_producer
     (\<lambda>s. if kc_transaction_per_batch C \<and> \<not> sn_in_transaction s
          then transaction E retry C (write_batch_unwrapped E retry C rs) s
          else write_batch_unwrapped E retry C rs s)"

section \<open>Flush, opening and closing\<close>

definition ksink_flush :: "kafka_env \<Rightarrow> ksink_retry \<Rightarrow> 'r kafka_sink_config \<Rightarrow> unit ksink_op" where
  "ksink_flush E retry C s =
     (if \<not> sn_producer s then (s, Inr ())
      else thenE (drain_pending_acks E retry C)
             (on_producer (thenE (retry (producer_call E ProducerFlush) id) (returnE ()))) s)"

definition call_lifecycle :: "kafka_env \<Rightarrow> 'r kafka_sink_config \<Rightarrow> lifecycle_object \<Rightarrow> string \<Rightarrow> unit ksink_op" where
  "call_lifecycle E C ob method =
     (if kc_has_hook C ob method
      then ksink_call E (if method = ''open'' then OpenObject ob else CloseObject ob)
      else returnE ())"

definition open_serializer :: "kafka_env \<Rightarrow> 'r kafka_sink_config \<Rightarrow> unit ksink_op" where
  "open_serializer E C =
     thenE (call_lifecycle E C SerializerObject ''open'')
     (thenE (modifyE (\<lambda>s. s\<lparr>sn_serializer_open := True\<rparr>))
            (if kc_message_fn C = None then returnE () else call_lifecycle E C MessageFnObject ''open''))"

definition close_serializer :: "kafka_env \<Rightarrow> 'r kafka_sink_config \<Rightarrow> unit ksink_op" where
  "close_serializer E C s =
     (if \<not> sn_serializer_open s then (s, Inr ())
      else thenE (if kc_message_fn C = None then returnE () else call_lifecycle E C MessageFnObject ''close'')
           (thenE (call_lifecycle E C SerializerObject ''close'')
                  (modifyE (\<lambda>s. s\<lparr>sn_serializer_open := False\<rparr>))) s)"

definition ksink_open :: "kafka_env \<Rightarrow> 'r kafka_sink_config \<Rightarrow> unit ksink_op" where
  "ksink_open E C =
     unless_cancelled
       (thenE (open_serializer E C)
       (thenE (ksink_call E ProducerCreate)
       (thenE (modifyE (\<lambda>s. s\<lparr>sn_producer := True\<rparr>))
              (ksink_call E ProducerStart))))
       (\<lambda>e s. let had_producer = sn_producer s
              in thenE (modifyE (\<lambda>s. s\<lparr>sn_producer := False\<rparr>))
                 (thenE (if had_producer then unless_cancelled (ksink_call E ProducerStop) (\<lambda>_. returnE ()) else returnE ())
                 (thenE (close_serializer E C) (raiseE e))) s)"

definition ksink_close :: "kafka_env \<Rightarrow> ksink_retry \<Rightarrow> 'r kafka_sink_config \<Rightarrow> unit ksink_op" where
  "ksink_close E retry C =
     finallyE
       (\<lambda>s. if \<not> sn_producer s then (s, Inr ())
            else finallyE
                   (if sn_in_transaction s then abort_transaction E C else ksink_flush E retry C)
                   (thenE (modifyE (\<lambda>s. s\<lparr>sn_producer := False\<rparr>))
                          (finallyE (ksink_call E ProducerStop) (modifyE (\<lambda>s. s\<lparr>sn_pending_acks := []\<rparr>)))) s)
       (close_serializer E C)"

end
