(* ===== verification/Kafka_Sink_Delivery.thy ===== *)
theory Kafka_Sink_Delivery
  imports Kafka_Sink
begin

text \<open>
  What the Kafka sink promises of the records it was given.

  \<^item> Between two operations fewer than \<open>max_pending_acks\<close> deliveries wait, whatever fails.
  \<^item> A batch without message function sends what its records sent one by one would, once all values are made.
  \<^item> Records of operations that returned are acknowledged when the next flush returns: the invariant \<open>accounted\<close> ties
    the records taken to the deliveries acknowledged and waiting.
  \<^item> A batch of a sink with \<open>transaction_per_batch\<close> is committed as a whole or not at all; the log of the producer is
    read as the transactions it makes (\<open>transactions\<close>).
\<close>

section \<open>The log\<close>

fun data_call :: "kafka_call \<Rightarrow> bool" where
  "data_call (SendRecord _) = True"
| "data_call (AwaitDelivery _) = True"
| "data_call ProducerFlush = True"
| "data_call _ = False"

definition log_grows :: "kafka_log \<Rightarrow> kafka_log \<Rightarrow> bool" where
  "log_grows l l' \<longleftrightarrow> (\<exists>x. l' = l @ x \<and> (\<forall>c\<in>set x. data_call (fst c)))"

lemma log_grows_refl: "reflp log_grows"
  by (auto simp: reflp_def log_grows_def)

lemma log_grows_trans: "transp log_grows"
  by (force simp: transp_def log_grows_def)

lemmas log_grows_order = log_grows_trans log_grows_refl

text \<open>The rules for a reflexive and transitive relation between the states before and after an operation.\<close>

locale step_relation =
  fixes R :: "'s \<Rightarrow> 's \<Rightarrow> bool"
  assumes trans: "transp R" and refl: "reflp R"
begin

lemma return: "preserves R (returnE a)"
  by (rule preserves_basic(1) [OF refl])

lemma unchanged: "preserves R (\<lambda>s. (s, x))"
  using refl by (simp add: preserves_def reflp_def)

lemma raise: "preserves R (raiseE e)"
  by (rule preserves_basic(2) [OF refl])

lemma bind: "\<lbrakk>preserves R m; \<And>a. preserves R (f a)\<rbrakk> \<Longrightarrow> preserves R (bindE m f)"
  by (rule preserves_bind [OF trans])

lemma seq: "\<lbrakk>preserves R m; preserves R n\<rbrakk> \<Longrightarrow> preserves R (thenE m n)"
  by (rule preserves_then [OF trans])

lemma unless_cancelled: "\<lbrakk>preserves R m; \<And>e. preserves R (h e)\<rbrakk> \<Longrightarrow> preserves R (unless_cancelled m h)"
  unfolding unless_cancelled_def by (rule preserves_try [OF trans]) (simp_all add: raise)

lemma retried: "\<lbrakk>retry_law retry; preserves R m\<rbrakk> \<Longrightarrow> preserves R (retry m id)"
  by (rule preserves_retry [OF _ trans refl]) (use refl in \<open>auto simp: reflp_def\<close>)

lemma lifted: "preserves R (liftR x)"
  using refl by (simp add: preserves_def liftR_def reflp_def)

lemma same: "R s s"
  using refl by (simp add: reflp_def)

lemma last_run:
  assumes "retry_law retry" "preserves R m" "retry m id s = (s', x)"
  shows "\<exists>s1. R s s1 \<and> m s1 = (s', x)"
  by (rule retry_last_run [where f = id and retry = retry]) (simp_all add: assms trans refl same)

end

interpretation grows: step_relation log_grows
  by standard (rule log_grows_order)+

lemma producer_call_grows: "data_call c \<Longrightarrow> preserves log_grows (producer_call E c)"
  by (auto simp: preserves_def producer_call_def log_grows_def split: option.split)

lemma issue_send_grows: "preserves log_grows (issue_send E m)"
  by (simp add: issue_send_def producer_call_grows grows.raise split: option.split)

lemma await_delivery_grows: "preserves log_grows (await_delivery E h)"
  unfolding await_delivery_def by (intro grows.seq producer_call_grows grows.return) simp

lemma send_and_confirm_grows: "preserves log_grows (send_and_confirm E m)"
  unfolding send_and_confirm_def by (intro grows.bind issue_send_grows await_delivery_grows)

lemma confirm_grows: "retry_law retry \<Longrightarrow> preserves log_grows (confirm E retry C d)"
  unfolding confirm_def
  by (rule grows.unless_cancelled [OF await_delivery_grows])
    (simp add: grows.raise grows.retried send_and_confirm_grows)

definition sent :: "kafka_log \<Rightarrow> kafka_delivery \<Rightarrow> bool" where
  "sent l d \<longleftrightarrow> dv_handle d < length l \<and> l ! dv_handle d = (SendRecord (dv_message d), True)"

text \<open>A delivery is acknowledged: its message was sent, and awaiting this \<^verbatim>\<open>send\<close> returned.\<close>

definition acknowledged :: "kafka_log \<Rightarrow> kafka_delivery \<Rightarrow> bool" where
  "acknowledged l d \<longleftrightarrow> sent l d \<and> (AwaitDelivery (dv_handle d), True) \<in> set l"

lemma sent_append: "sent l d \<Longrightarrow> sent (l @ x) d"
  by (simp add: sent_def nth_append)

lemma acknowledged_append: "acknowledged l d \<Longrightarrow> acknowledged (l @ x) d"
  by (simp add: acknowledged_def sent_append)

lemma sent_grows: "\<lbrakk>sent l d; log_grows l l'\<rbrakk> \<Longrightarrow> sent l' d"
  by (auto simp: log_grows_def sent_append)

lemma log_grows_length: "log_grows l l' \<Longrightarrow> length l \<le> length l'"
  by (auto simp: log_grows_def)

lemma issue_send_returns:
  assumes "issue_send E m l = (l', Inr h)"
  shows "h = length l \<and> sent l' (Delivery m h) \<and> log_grows l l'"
  using assms preservesD [OF issue_send_grows assms]
  by (auto simp: issue_send_def producer_call_def sent_def nth_append split: option.splits)

lemma await_delivery_returns:
  assumes "await_delivery E h l = (l', Inr h')"
  shows "h' = h \<and> (AwaitDelivery h, True) \<in> set l' \<and> log_grows l l'"
  using assms preservesD [OF await_delivery_grows assms]
  by (auto simp: await_delivery_def thenE_def bindE_def producer_call_def split: option.splits)

lemma send_and_confirm_returns:
  assumes "send_and_confirm E m l = (l', Inr h)"
  shows "length l \<le> h \<and> acknowledged l' (Delivery m h)"
proof -
  obtain l1 h1 where "issue_send E m l = (l1, Inr h1)" "await_delivery E h1 l1 = (l', Inr h)"
    using assms by (auto simp: send_and_confirm_def bindE_Inr)
  then show ?thesis using issue_send_returns await_delivery_returns sent_grows
    by (fastforce simp: acknowledged_def)
qed

text \<open>A confirmation that returns has an acknowledged delivery of the message: the one awaited or a later one.\<close>

lemma confirm_returns:
  assumes "retry_law retry" "confirm E retry C d l = (l', Inr h)" "sent l d"
  shows "acknowledged l' (Delivery (dv_message d) h) \<and> (h = dv_handle d \<or> length l \<le> h)"
proof -
  obtain l1 r where a: "await_delivery E (dv_handle d) l = (l1, r)" by (cases "await_delivery E (dv_handle d) l")
  have g: "log_grows l l1" using preservesD [OF await_delivery_grows a] .
  show ?thesis
  proof (cases r)
    case (Inr h1)
    then have "l' = l1" "h1 = h" using assms(2) a by (simp_all add: confirm_def unless_cancelled_def tryE_def)
    moreover have "h1 = dv_handle d \<and> (AwaitDelivery (dv_handle d), True) \<in> set l1"
      using await_delivery_returns a Inr by blast
    ultimately show ?thesis using sent_grows [OF assms(3) g] by (auto simp: acknowledged_def sent_def)
  next
    case (Inl e)
    then have "retry (send_and_confirm E (dv_message d)) id l1 = (l', Inr h)"
      using assms(2) a by (auto simp: confirm_def unless_cancelled_def tryE_def split: if_splits)
    then obtain l2 where "log_grows l1 l2" "send_and_confirm E (dv_message d) l2 = (l', Inr h)"
      using grows.last_run [OF assms(1) send_and_confirm_grows] by blast
    then have "length l2 \<le> h" "acknowledged l' (Delivery (dv_message d) h)" "length l1 \<le> length l2" "length l \<le> length l1"
      using send_and_confirm_returns log_grows_length g by blast+
    then show ?thesis by simp
  qed
qed

section \<open>The state\<close>

text \<open>The steps of data: only the log and the queue change.\<close>

definition data_step :: "kafka_sink \<Rightarrow> kafka_sink \<Rightarrow> bool" where
  "data_step s s' \<longleftrightarrow> log_grows (sn_log s) (sn_log s') \<and> sn_producer s' = sn_producer s \<and>
     sn_in_transaction s' = sn_in_transaction s \<and> sn_serializer_open s' = sn_serializer_open s"

interpretation step: step_relation data_step
  by standard (use log_grows_order in \<open>auto simp: transp_def reflp_def data_step_def\<close>)

lemma on_producer_step: "preserves log_grows m \<Longrightarrow> preserves data_step (on_producer m)"
  by (auto simp: preserves_def [of data_step] on_producer_def data_step_def split: prod.split dest: preservesD)

lemma require_producer_step: "preserves data_step ksink_require_producer"
  by (simp add: preserves_def ksink_require_producer_def step.same)

lemma data_step_queue: "data_step (s\<lparr>sn_pending_acks := q\<rparr>) s' \<longleftrightarrow> data_step s s'"
  by (simp add: data_step_def)

lemma await_oldest_step:
  assumes "retry_law retry"
  shows "preserves data_step (await_oldest_ack E retry C)"
  unfolding preserves_def
proof
  fix s
  show "data_step s (fst (await_oldest_ack E retry C s))"
  proof (cases "sn_pending_acks s")
    case Nil
    then show ?thesis by (simp add: await_oldest_ack_def step.same)
  next
    case (Cons d ds)
    have "preserves data_step (on_producer (thenE (confirm E retry C d) (returnE ())))"
      by (intro on_producer_step grows.seq confirm_grows assms grows.return)
    then have "data_step (s\<lparr>sn_pending_acks := ds\<rparr>) (fst (await_oldest_ack E retry C s))"
      using Cons by (simp add: await_oldest_ack_def preserves_state)
    then show ?thesis by (simp add: data_step_queue)
  qed
qed

lemma drain_loop_step: "retry_law retry \<Longrightarrow> preserves data_step (drain_loop E retry C ds)"
  by (induction ds) (simp_all add: step.return step.seq await_oldest_step)

lemma drain_step: "retry_law retry \<Longrightarrow> preserves data_step (drain_pending_acks E retry C)"
  unfolding preserves_def drain_pending_acks_def by (simp add: preserves_state [OF drain_loop_step])

lemma append_delivery_step: "retry_law retry \<Longrightarrow> preserves data_step (append_delivery E retry C d)"
  unfolding append_delivery_def
  by (rule step.seq) (use await_oldest_step step.same in \<open>auto simp: preserves_def data_step_def log_grows_def\<close>)

lemma send_with_retry_step:
  assumes "retry_law retry"
  shows "preserves data_step (send_with_retry E retry C m)"
  unfolding send_with_retry_def Let_def
  by (intro step.seq require_producer_step on_producer_step grows.bind grows.retried [OF assms] issue_send_grows grows.return)

lemma ksink_enqueue_step: "retry_law retry \<Longrightarrow> preserves data_step (enqueue_send E retry C r)"
  unfolding enqueue_send_def
  by (intro step.seq step.bind require_producer_step step.lifted send_with_retry_step append_delivery_step)

lemma enqueue_each_step: "retry_law retry \<Longrightarrow> preserves data_step (enqueue_each E retry C rs)"
  by (induction rs) (simp_all add: step.return step.seq ksink_enqueue_step)

lemma send_each_step: "retry_law retry \<Longrightarrow> preserves data_step (send_each E retry C rvs)"
  by (induction E retry C rvs rule: send_each.induct)
    (simp_all add: step.return step.seq step.bind step.lifted send_with_retry_step append_delivery_step)

lemma unwrapped_step: "retry_law retry \<Longrightarrow> preserves data_step (write_batch_unwrapped E retry C rs)"
  unfolding write_batch_unwrapped_def
  by (simp add: enqueue_each_step step.bind step.lifted send_each_step)

lemma ksink_flush_step:
  assumes "retry_law retry"
  shows "preserves data_step (ksink_flush E retry C)"
proof -
  have "preserves data_step (thenE (drain_pending_acks E retry C)
      (on_producer (thenE (retry (producer_call E ProducerFlush) id) (returnE ()))))"
    by (intro step.seq drain_step assms on_producer_step grows.seq grows.retried [OF assms] producer_call_grows
        grows.return) simp
  then show ?thesis using step.same by (simp add: preserves_def ksink_flush_def)
qed


section \<open>Bounded queue\<close>

definition acks_bounded :: "'r kafka_sink_config \<Rightarrow> kafka_sink \<Rightarrow> bool" where
  "acks_bounded C s \<longleftrightarrow> int (length (sn_pending_acks s)) < kc_max_pending_acks C"

definition keeps_bound :: "'r kafka_sink_config \<Rightarrow> kafka_sink \<Rightarrow> kafka_sink \<Rightarrow> bool" where
  "keeps_bound C s s' \<longleftrightarrow> (acks_bounded C s \<longrightarrow> acks_bounded C s')"

interpretation bound: step_relation "keeps_bound C" for C :: "'r kafka_sink_config"
  by standard (auto simp: transp_def reflp_def keeps_bound_def)

lemma on_producer_queue: "sn_pending_acks (fst (on_producer m s)) = sn_pending_acks s"
  by (simp add: on_producer_def split: prod.split)

lemma on_producer_bound: "preserves (keeps_bound C) (on_producer m)"
  by (simp add: preserves_def keeps_bound_def acks_bounded_def on_producer_queue)

lemma await_oldest_queue: "sn_pending_acks (fst (await_oldest_ack E retry C s)) = tl (sn_pending_acks s)"
  by (simp add: await_oldest_ack_def on_producer_queue split: list.split)

lemma await_oldest_bound: "preserves (keeps_bound C) (await_oldest_ack E retry C)"
  by (auto simp: preserves_def keeps_bound_def acks_bounded_def await_oldest_queue)

lemma drain_bound: "preserves (keeps_bound C) (drain_pending_acks E retry C)"
proof -
  have "preserves (keeps_bound C) (drain_loop E retry C ds)" for ds
    by (induction ds) (simp_all add: bound.unchanged bound.return bound.seq await_oldest_bound)
  then show ?thesis by (simp add: preserves_def drain_pending_acks_def)
qed

lemma append_delivery_bound: "preserves (keeps_bound C) (append_delivery E retry C d)"
  by (auto simp: preserves_def keeps_bound_def acks_bounded_def append_delivery_def await_oldest_queue)

lemma require_producer_bound: "preserves (keeps_bound C) ksink_require_producer"
  by (simp add: preserves_def ksink_require_producer_def bound.same)

lemma send_with_retry_bound: "preserves (keeps_bound C) (send_with_retry E retry C m)"
  unfolding send_with_retry_def Let_def by (intro bound.seq require_producer_bound on_producer_bound)

lemmas bound_rules = bound.unchanged bound.return bound.raise bound.seq bound.bind bound.lifted require_producer_bound
  send_with_retry_bound append_delivery_bound on_producer_bound drain_bound

lemma enqueue_bound: "preserves (keeps_bound C) (enqueue_send E retry C r)"
  unfolding enqueue_send_def by (simp add: bound_rules)

lemma unwrapped_bound: "preserves (keeps_bound C) (write_batch_unwrapped E retry C rs)"
proof -
  have "preserves (keeps_bound C) (enqueue_each E retry C rs)" by (induction rs) (simp_all add: bound_rules enqueue_bound)
  moreover have "preserves (keeps_bound C) (send_each E retry C rvs)" for rvs
    by (induction E retry C rvs rule: send_each.induct) (simp_all add: bound_rules)
  ultimately show ?thesis unfolding write_batch_unwrapped_def by (simp add: bound_rules)
qed

lemma sink_state_bound: "(\<And>s. sn_pending_acks (f s) = sn_pending_acks s) \<Longrightarrow> preserves (keeps_bound C) (modifyE f)"
  by (simp add: preserves_def keeps_bound_def acks_bounded_def)

lemma supported_bound: "preserves (keeps_bound C) (ksink_supported C m)"
  by (simp add: ksink_supported_def bound_rules)

lemma call_bound: "preserves (keeps_bound C) (ksink_call E c)"
  unfolding ksink_call_def by (rule on_producer_bound)

lemma abort_bound:
  assumes "1 \<le> kc_max_pending_acks C"
  shows "preserves (keeps_bound C) (abort_transaction E C)"
proof -
  have "preserves (keeps_bound C) (modifyE (\<lambda>s. s\<lparr>sn_pending_acks := []\<rparr>))"
    using assms by (simp add: preserves_def keeps_bound_def acks_bounded_def)
  then show ?thesis unfolding abort_transaction_def
    by (intro bound.seq require_producer_bound supported_bound call_bound) (auto intro!: sink_state_bound)
qed

lemma begin_bound: "preserves (keeps_bound C) (begin_transaction E C)"
  unfolding begin_transaction_def by (intro bound.seq require_producer_bound supported_bound call_bound sink_state_bound) simp

lemma commit_bound: "preserves (keeps_bound C) (commit_transaction E retry C)"
  unfolding commit_transaction_def
  by (intro bound.seq require_producer_bound supported_bound call_bound sink_state_bound drain_bound) simp

lemma transaction_bound:
  assumes "1 \<le> kc_max_pending_acks C" "preserves (keeps_bound C) body"
  shows "preserves (keeps_bound C) (transaction E retry C body)"
proof -
  let ?tail = "\<lambda>s. case unless_cancelled body (\<lambda>e. thenE (abort_transaction E C) (raiseE e)) s of
            (s1, Inl e) \<Rightarrow> (s1, Inl e) | (s1, Inr _) \<Rightarrow> commit_transaction E retry C s1"
  have "?tail = bindE (unless_cancelled body (\<lambda>e. thenE (abort_transaction E C) (raiseE e))) (\<lambda>_. commit_transaction E retry C)"
    by (rule ext) (simp add: bindE_def)
  moreover have "preserves (keeps_bound C) (bindE (unless_cancelled body (\<lambda>e. thenE (abort_transaction E C) (raiseE e)))
      (\<lambda>_. commit_transaction E retry C))"
    by (intro bound.bind bound.unless_cancelled assms(2) bound.seq abort_bound assms(1) bound.raise commit_bound)
  ultimately show ?thesis unfolding transaction_def by (simp add: bound.seq begin_bound)
qed

lemma write_batch_bound:
  assumes "1 \<le> kc_max_pending_acks C"
  shows "preserves (keeps_bound C) (ksink_write_batch E retry C rs)"
proof -
  have "preserves (keeps_bound C) (\<lambda>s. if kc_transaction_per_batch C \<and> \<not> sn_in_transaction s
          then transaction E retry C (write_batch_unwrapped E retry C rs) s else write_batch_unwrapped E retry C rs s)"
    by (simp add: preserves_def preserves_state [OF transaction_bound [OF assms unwrapped_bound]]
        preserves_state [OF unwrapped_bound])
  then show ?thesis unfolding ksink_write_batch_def by (rule bound.seq [OF require_producer_bound])
qed

lemma flush_bound: "preserves (keeps_bound C) (ksink_flush E retry C)"
proof -
  have "preserves (keeps_bound C) (thenE (drain_pending_acks E retry C)
      (on_producer (thenE (retry (producer_call E ProducerFlush) id) (returnE ()))))"
    by (intro bound.seq drain_bound on_producer_bound)
  then show ?thesis by (simp add: preserves_def ksink_flush_def bound.same)
qed

section \<open>Batches and single records\<close>

lemma serialize_all_iff: "serialize_all f rs = Inr vs \<longleftrightarrow> list_all2 (\<lambda>r v. f r = Inr v) rs vs"
  by (induction rs arbitrary: vs) (auto simp: bindR_Inr_iff list_all2_Cons1)

lemma liftR_bind: "bindE (liftR x) f = (case x of Inl e \<Rightarrow> raiseE e | Inr a \<Rightarrow> f a)"
  by (rule ext) (simp add: bindE_def liftR_def split: sum.split)

lemma batch_message_is_message:
  assumes "kc_message_fn C = None" "kc_serializer C r = Inr v"
  shows "batch_message C r v = publish_message_for C r"
proof -
  have "(case topic_for C r of Inl e \<Rightarrow> Inl e | Inr tp \<Rightarrow> f tp) = bindR (topic_for C r) f" for f :: "string \<Rightarrow> publish_message result"
    by (cases "topic_for C r") simp_all
  then show ?thesis using assms by (simp add: batch_message_def publish_message_for_def message_overrides_for_def unset_message_def)
qed

lemma send_each_is_enqueue_each:
  assumes "retry_law retry" "kc_message_fn C = None" "list_all2 (\<lambda>r v. kc_serializer C r = Inr v) rs vs" "sn_producer s"
  shows "send_each E retry C (zip rs vs) s = enqueue_each E retry C rs s"
  using assms(3,4)
proof (induction arbitrary: s rule: list_all2_induct)
  case Nil
  then show ?case by simp
next
  case (Cons r rs v vs)
  have one: "bindE (liftR (batch_message C r v)) (\<lambda>m. bindE (send_with_retry E retry C m) (append_delivery E retry C)) s
      = enqueue_send E retry C r s"
    using Cons.prems by (simp add: enqueue_send_def thenE_def bindE_def [of ksink_require_producer] ksink_require_producer_def
        batch_message_is_message [OF assms(2) Cons.hyps(1)])
  obtain s1 x where e: "enqueue_send E retry C r s = (s1, x)" by (cases "enqueue_send E retry C r s")
  then have "sn_producer s1" using preservesD [OF ksink_enqueue_step [OF assms(1)] e] Cons.prems by (simp add: data_step_def)
  then show ?case using one e Cons.IH [of s1] by (simp add: thenE_def bindE_def [of _ _ s] split: sum.split)
qed

lemma batch_is_sequential:
  assumes "retry_law retry" "kc_message_fn C = None" "list_all2 (\<lambda>r v. kc_serializer C r = Inr v) rs vs"
    "kc_serializer_is_async C \<or> (\<forall>r\<in>set rs. \<not> kc_serializer_awaits C r)" "sn_producer s"
  shows "write_batch_unwrapped E retry C rs s = enqueue_each E retry C rs s"
proof -
  have "list_all2 (\<lambda>r v. (if kc_serializer_is_async C then kc_serializer C else serialize_sync C) r = Inr v) rs vs"
    by (rule list.rel_mono_strong [OF assms(3)]) (use assms(4) in \<open>auto simp: serialize_sync_def\<close>)
  then have "serialize_all (if kc_serializer_is_async C then kc_serializer C else serialize_sync C) rs = Inr vs"
    by (simp add: serialize_all_iff)
  then show ?thesis using assms(2) send_each_is_enqueue_each [OF assms(1,2,3,5)]
    by (simp add: write_batch_unwrapped_def liftR_bind)
qed

text \<open>A batch that returns made all its values, so it is the same as its records one by one.\<close>

lemma batch_returns_sequential:
  assumes "retry_law retry" "sn_producer s" "write_batch_unwrapped E retry C rs s = (s', Inr ())"
  shows "enqueue_each E retry C rs s = (s', Inr ())"
proof (cases "kc_message_fn C = None")
  case False
  then show ?thesis using assms(3) by (simp add: write_batch_unwrapped_def)
next
  case True
  let ?f = "if kc_serializer_is_async C then kc_serializer C else serialize_sync C"
  obtain vs where vs: "serialize_all ?f rs = Inr vs"
    using assms(3) True by (cases "serialize_all ?f rs") (auto simp: write_batch_unwrapped_def liftR_bind)
  then have "list_all2 (\<lambda>r v. ?f r = Inr v) rs vs" by (simp only: serialize_all_iff)
  then have "list_all2 (\<lambda>r v. kc_serializer C r = Inr v) rs vs"
    by (rule list_all2_mono) (auto simp: serialize_sync_def split: if_splits)
  then show ?thesis
    using send_each_is_enqueue_each [OF assms(1) True _ assms(2), of rs vs E] assms(3) True vs
    by (simp add: write_batch_unwrapped_def liftR_bind)
qed

section \<open>Records and deliveries\<close>

text \<open>The message of a record as it goes out.\<close>

definition wire_message :: "'r kafka_sink_config \<Rightarrow> 'r \<Rightarrow> publish_message result" where
  "wire_message C r = bindR (publish_message_for C r) (\<lambda>m. Inr (m\<lparr>pm_headers := kc_inject C (pm_headers m)\<rparr>))"

text \<open>
  The records \<open>rs\<close> have one delivery each, in order: those of \<open>ds\<close> are acknowledged, the rest waits in the queue.  All
  were sent at place \<open>n\<close> of the log or later, each at a place of its own.
\<close>

definition deliveries_of :: "'r kafka_sink_config \<Rightarrow> nat \<Rightarrow> 'r list \<Rightarrow> kafka_log \<Rightarrow> kafka_delivery list \<Rightarrow> kafka_delivery list \<Rightarrow> bool" where
  "deliveries_of C n rs l ds waiting \<longleftrightarrow>
     map (wire_message C) rs = map (\<lambda>d. Inr (dv_message d)) (ds @ waiting) \<and> distinct (map dv_handle (ds @ waiting)) \<and>
     (\<forall>d\<in>set (ds @ waiting). n \<le> dv_handle d \<and> sent l d) \<and> (\<forall>d\<in>set ds. acknowledged l d)"

definition accounted :: "'r kafka_sink_config \<Rightarrow> nat \<Rightarrow> 'r list \<Rightarrow> kafka_sink \<Rightarrow> bool" where
  "accounted C n rs s \<longleftrightarrow> n \<le> length (sn_log s) \<and> (\<exists>ds. deliveries_of C n rs (sn_log s) ds (sn_pending_acks s))"

lemma accounted_start: "sn_pending_acks s = [] \<Longrightarrow> accounted C (length (sn_log s)) [] s"
  by (auto simp: accounted_def deliveries_of_def intro: exI [of _ "[]"])

lemma deliveries_append: "deliveries_of C n rs l ds q \<Longrightarrow> deliveries_of C n rs (l @ x) ds q"
  by (simp add: deliveries_of_def sent_append acknowledged_append)

lemma deliveries_grow: "\<lbrakk>deliveries_of C n rs l ds q; log_grows l l'\<rbrakk> \<Longrightarrow> deliveries_of C n rs l' ds q"
  by (auto simp: log_grows_def deliveries_append)

lemma accounted_append:
  "\<lbrakk>accounted C n rs s; sn_log s' = sn_log s @ x; sn_pending_acks s' = sn_pending_acks s\<rbrakk> \<Longrightarrow> accounted C n rs s'"
  by (auto simp: accounted_def intro: deliveries_append)

lemma accounted_grows:
  "\<lbrakk>accounted C n rs s; log_grows (sn_log s) (sn_log s'); sn_pending_acks s' = sn_pending_acks s\<rbrakk> \<Longrightarrow> accounted C n rs s'"
  using accounted_append by (auto simp: log_grows_def)

lemma await_oldest_accounted:
  assumes "retry_law retry" "accounted C n rs s" "await_oldest_ack E retry C s = (s', Inr ())"
  shows "accounted C n rs s'"
proof (cases "sn_pending_acks s")
  case Nil
  then show ?thesis using assms by (simp add: await_oldest_ack_def)
next
  case (Cons d q)
  obtain l h where c: "confirm E retry C d (sn_log s) = (l, Inr h)"
    and s': "sn_log s' = l" "sn_pending_acks s' = q"
    using assms(3) Cons by (auto simp: await_oldest_ack_def on_producer_def thenE_def bindE_def split: prod.splits sum.splits)
  have g: "log_grows (sn_log s) l" using preservesD [OF confirm_grows [OF assms(1)] c] .
  obtain ds where ds: "n \<le> length (sn_log s)" "deliveries_of C n rs (sn_log s) ds (d # q)"
    using assms(2) Cons by (auto simp: accounted_def)
  then have "sent (sn_log s) d" by (simp add: deliveries_of_def)
  note h = confirm_returns [OF assms(1) c this]
  let ?d = "Delivery (dv_message d) h"
  have ds': "deliveries_of C n rs l ds (d # q)" using deliveries_grow [OF ds(2) g] .
  have below: "dv_handle x < length (sn_log s)" if "x \<in> set (ds @ d # q)" for x
    using ds(2) that by (auto simp: deliveries_of_def sent_def)
  have "h \<notin> dv_handle ` set (ds @ q)"
  proof
    assume "h \<in> dv_handle ` set (ds @ q)"
    then obtain x where x: "x \<in> set (ds @ q)" "h = dv_handle x" by blast
    then have "h < length (sn_log s)" using below [of x] by auto
    then have "h = dv_handle d" using h by simp
    moreover have "dv_handle d \<notin> dv_handle ` set (ds @ q)" using ds(2) by (auto simp: deliveries_of_def)
    ultimately show False using x by blast
  qed
  then have "distinct (map dv_handle ((ds @ [?d]) @ q))" using ds' by (auto simp: deliveries_of_def)
  moreover have "map (wire_message C) rs = map (\<lambda>d. Inr (dv_message d)) ((ds @ [?d]) @ q)"
    using ds' by (simp add: deliveries_of_def)
  moreover have "n \<le> h" using h ds by (auto simp: deliveries_of_def)
  ultimately have "deliveries_of C n rs l (ds @ [?d]) q"
    using ds' h by (auto simp: deliveries_of_def acknowledged_def)
  then show ?thesis using s' ds(1) log_grows_length [OF g] by (auto simp: accounted_def)
qed

lemma drain_loop_queue: "drain_loop E retry C ds s = (s', Inr ()) \<Longrightarrow> sn_pending_acks s' = drop (length ds) (sn_pending_acks s)"
proof (induction ds arbitrary: s)
  case Nil
  then show ?case by simp
next
  case (Cons d ds)
  then obtain s1 where "await_oldest_ack E retry C s = (s1, Inr ())" "drain_loop E retry C ds s1 = (s', Inr ())"
    by (auto simp: thenE_Inr)
  then show ?case using Cons.IH await_oldest_queue [of E retry C s] by (simp add: drop_Suc)
qed

lemma drain_loop_accounted:
  assumes "retry_law retry"
  shows "\<lbrakk>accounted C n rs s; drain_loop E retry C ds s = (s', Inr ())\<rbrakk> \<Longrightarrow> accounted C n rs s'"
  by (induction ds arbitrary: s) (auto simp: thenE_Inr dest: await_oldest_accounted [OF assms])

lemma drain_accounted:
  assumes "retry_law retry" "accounted C n rs s" "drain_pending_acks E retry C s = (s', Inr ())"
  shows "accounted C n rs s' \<and> sn_pending_acks s' = []"
  using assms drain_loop_accounted drain_loop_queue by (fastforce simp: drain_pending_acks_def)

lemma on_producer_accounted:
  assumes "preserves log_grows m" "accounted C n rs s" "on_producer m s = (s', x)"
  shows "accounted C n rs s'"
proof (rule accounted_grows [OF assms(2)])
  show "log_grows (sn_log s) (sn_log s')" using preservesD [OF on_producer_step [OF assms(1)] assms(3)] by (simp add: data_step_def)
  show "sn_pending_acks s' = sn_pending_acks s" using on_producer_queue [of m s] assms(3) by simp
qed

lemma send_with_retry_returns:
  assumes "retry_law retry" "send_with_retry E retry C m s = (s', Inr d)"
  shows "dv_message d = m\<lparr>pm_headers := kc_inject C (pm_headers m)\<rparr>" "sent (sn_log s') d" "length (sn_log s) \<le> dv_handle d"
    "log_grows (sn_log s) (sn_log s')" "sn_pending_acks s' = sn_pending_acks s"
proof -
  let ?m = "m\<lparr>pm_headers := kc_inject C (pm_headers m)\<rparr>"
  obtain h where r: "retry (issue_send E ?m) id (sn_log s) = (sn_log s', Inr h)" and d: "d = Delivery ?m h"
    and q: "sn_pending_acks s' = sn_pending_acks s"
    using assms(2)
    by (auto simp: send_with_retry_def Let_def thenE_Inr ksink_require_producer_def on_producer_def bindE_def split: if_splits prod.splits sum.splits)
  obtain l where l: "log_grows (sn_log s) l" "issue_send E ?m l = (sn_log s', Inr h)"
    using grows.last_run [OF assms(1) issue_send_grows r] by blast
  note i = issue_send_returns [OF l(2)]
  show "dv_message d = ?m" "sent (sn_log s') d" "length (sn_log s) \<le> dv_handle d" "sn_pending_acks s' = sn_pending_acks s"
    using i q log_grows_length [OF l(1)] unfolding d by auto
  show "log_grows (sn_log s) (sn_log s')" using preservesD [OF grows.retried [OF assms(1) issue_send_grows] r] .
qed

lemma append_delivery_accounted:
  assumes "retry_law retry" "accounted C n rs s0" "log_grows (sn_log s0) (sn_log s)" "sn_pending_acks s = sn_pending_acks s0"
    "wire_message C r = Inr (dv_message d)" "sent (sn_log s) d" "length (sn_log s0) \<le> dv_handle d"
    "append_delivery E retry C d s = (s', Inr ())"
  shows "accounted C n (rs @ [r]) s'"
proof -
  let ?s = "s\<lparr>sn_pending_acks := sn_pending_acks s @ [d]\<rparr>"
  obtain ds where ds: "n \<le> length (sn_log s0)" "deliveries_of C n rs (sn_log s0) ds (sn_pending_acks s0)"
    using assms(2) by (auto simp: accounted_def)
  have "\<forall>x\<in>set (ds @ sn_pending_acks s0). dv_handle x < length (sn_log s0)"
    using ds(2) by (auto simp: deliveries_of_def sent_def)
  then have "dv_handle d \<notin> dv_handle ` set (ds @ sn_pending_acks s0)" using assms(7) by fastforce
  moreover have "n \<le> dv_handle d" using ds(1) assms(7) by simp
  ultimately have "deliveries_of C n (rs @ [r]) (sn_log s) ds (sn_pending_acks s @ [d])"
    using deliveries_grow [OF ds(2) assms(3)] assms(4-6) by (auto simp: deliveries_of_def)
  then have "accounted C n (rs @ [r]) ?s"
    using ds(1) log_grows_length [OF assms(3)] by (auto simp: accounted_def)
  then show ?thesis using assms(8) await_oldest_accounted [OF assms(1)]
    by (auto simp: append_delivery_def thenE_def bindE_def split: if_splits)
qed

lemma enqueue_accounted:
  assumes "retry_law retry" "accounted C n rs s" "enqueue_send E retry C r s = (s', Inr ())"
  shows "accounted C n (rs @ [r]) s'"
proof -
  obtain m d s1 where m: "publish_message_for C r = Inr m" and d: "send_with_retry E retry C m s = (s1, Inr d)"
    and a: "append_delivery E retry C d s1 = (s', Inr ())"
    using assms(3) by (auto simp: enqueue_send_def thenE_Inr bindE_Inr ksink_require_producer_def liftR_def split: if_splits)
  note S = send_with_retry_returns [OF assms(1) d]
  show ?thesis
    by (rule append_delivery_accounted [OF assms(1,2) S(4,5) _ S(2,3) a]) (simp add: wire_message_def m S(1))
qed

lemma enqueue_each_accounted:
  assumes "retry_law retry"
  shows "\<lbrakk>accounted C n rs s; enqueue_each E retry C xs s = (s', Inr ())\<rbrakk> \<Longrightarrow> accounted C n (rs @ xs) s'"
proof (induction xs arbitrary: rs s)
  case (Cons x xs)
  then obtain s1 where "enqueue_send E retry C x s = (s1, Inr ())" "enqueue_each E retry C xs s1 = (s', Inr ())"
    by (auto simp: thenE_Inr)
  then show ?case using Cons.IH [of "rs @ [x]" s1] enqueue_accounted [OF assms Cons.prems(1)] by simp
qed simp

lemma unwrapped_accounted:
  assumes "retry_law retry" "sn_producer s" "accounted C n rs s" "write_batch_unwrapped E retry C xs s = (s', Inr ())"
  shows "accounted C n (rs @ xs) s'"
  using enqueue_each_accounted [OF assms(1,3)] batch_returns_sequential [OF assms(1,2,4)] .

lemma flush_accounted:
  assumes "retry_law retry" "accounted C n rs s" "sn_producer s" "ksink_flush E retry C s = (s', Inr ())"
  shows "accounted C n rs s' \<and> sn_pending_acks s' = []"
proof -
  obtain s1 where d: "drain_pending_acks E retry C s = (s1, Inr ())"
    and f: "on_producer (thenE (retry (producer_call E ProducerFlush) id) (returnE ())) s1 = (s', Inr ())"
    using assms(3,4) by (auto simp: ksink_flush_def thenE_Inr)
  have g: "preserves log_grows (thenE (retry (producer_call E ProducerFlush) id) (returnE ()))"
    by (intro grows.seq grows.retried [OF assms(1)] producer_call_grows grows.return) simp
  show ?thesis
    using on_producer_accounted [OF g _ f] drain_accounted [OF assms(1,2) d] on_producer_queue [of _ s1] f by (metis fst_conv)
qed

text \<open>When nothing waits, every record has an acknowledged delivery.\<close>

lemma accounted_settled:
  "\<lbrakk>accounted C n rs s; sn_pending_acks s = []\<rbrakk> \<Longrightarrow>
     \<exists>ds. map (wire_message C) rs = map (\<lambda>d. Inr (dv_message d)) ds \<and> distinct (map dv_handle ds) \<and>
       (\<forall>d\<in>set ds. n \<le> dv_handle d \<and> acknowledged (sn_log s) d)"
  by (auto simp: accounted_def deliveries_of_def)

section \<open>Transactions of the producer\<close>

text \<open>
  The log read as transactions: the places of the calls in the open one, of those in committed ones, and of those in one
  whose commit raised and so may have been done or not.
\<close>

record producer_transactions =
  pt_open :: "nat list option"
  pt_committed :: "nat list"
  pt_doubtful :: "nat list"

definition no_transactions :: producer_transactions where
  "no_transactions = \<lparr>pt_open = None, pt_committed = [], pt_doubtful = []\<rparr>"

definition opened :: "producer_transactions \<Rightarrow> nat list" where
  "opened t = (case pt_open t of None \<Rightarrow> [] | Some ns \<Rightarrow> ns)"

fun transaction_call :: "producer_transactions \<Rightarrow> nat \<times> kafka_call \<times> bool \<Rightarrow> producer_transactions" where
  "transaction_call t (n, SendRecord _, True) = t\<lparr>pt_open := map_option (\<lambda>ns. ns @ [n]) (pt_open t)\<rparr>"
| "transaction_call t (n, SendOffsets _ _, True) = t\<lparr>pt_open := map_option (\<lambda>ns. ns @ [n]) (pt_open t)\<rparr>"
| "transaction_call t (n, BeginTransaction, True) = t\<lparr>pt_open := Some []\<rparr>"
| "transaction_call t (n, CommitTransaction, True) = t\<lparr>pt_open := None, pt_committed := pt_committed t @ opened t\<rparr>"
| "transaction_call t (n, CommitTransaction, False) = t\<lparr>pt_doubtful := pt_doubtful t @ opened t\<rparr>"
| "transaction_call t (n, AbortTransaction, True) = t\<lparr>pt_open := None\<rparr>"
| "transaction_call t (n, _, _) = t"

definition transactions :: "kafka_log \<Rightarrow> producer_transactions" where
  "transactions l = foldl transaction_call no_transactions (enumerate 0 l)"

lemma transactions_snoc [simp]: "transactions (l @ [c]) = transaction_call (transactions l) (length l, c)"
  by (simp add: transactions_def enumerate_append_eq)

text \<open>Calls of data extend the open transaction by the messages they send, and touch nothing else.\<close>

definition extends_open :: "kafka_log \<Rightarrow> kafka_log \<Rightarrow> bool" where
  "extends_open l l' \<longleftrightarrow>
     pt_committed (transactions l') = pt_committed (transactions l) \<and> pt_doubtful (transactions l') = pt_doubtful (transactions l) \<and>
     (pt_open (transactions l) \<noteq> None \<longrightarrow> (\<exists>x. pt_open (transactions l') = Some (opened (transactions l) @ x) \<and>
        (\<forall>d. sent l' d \<and> length l \<le> dv_handle d \<longrightarrow> dv_handle d \<in> set x)))"

lemma extends_open_call:
  assumes "data_call (fst c)" "extends_open l l'" "length l \<le> length l'"
  shows "extends_open l (l' @ [c])"
proof -
  have s: "sent (l' @ [c]) d \<longleftrightarrow> sent l' d \<or> dv_handle d = length l' \<and> c = (SendRecord (dv_message d), True)" for d
    by (auto simp: sent_def nth_append less_Suc_eq)
  obtain f b where c: "c = (f, b)" by (cases c)
  show ?thesis
  proof (cases "\<exists>m. c = (SendRecord m, True)")
    case True
    then show ?thesis using assms(2,3) by (auto simp: extends_open_def s)
  next
    case False
    then have "transaction_call (transactions l') (length l', c) = transactions l'"
      using assms(1) c by (cases f; cases b) simp_all
    moreover have "sent (l' @ [c]) d \<longleftrightarrow> sent l' d" for d using False by (auto simp: s)
    ultimately show ?thesis using assms(2) by (simp add: extends_open_def)
  qed
qed

lemma grows_extends_open:
  assumes "log_grows l l'"
  shows "extends_open l l'"
proof -
  have "\<forall>c\<in>set x. data_call (fst c) \<Longrightarrow> extends_open l (l @ x)" for x
  proof (induction x rule: rev_induct)
    case Nil
    show ?case by (auto simp: extends_open_def sent_def opened_def)
  next
    case (snoc c x)
    then show ?case using extends_open_call [of c l "l @ x"] by simp
  qed
  then show ?thesis using assms by (auto simp: log_grows_def)
qed

definition same_transactions :: "kafka_log \<Rightarrow> kafka_log \<Rightarrow> bool" where
  "same_transactions l l' \<longleftrightarrow>
     pt_committed (transactions l') = pt_committed (transactions l) \<and> pt_doubtful (transactions l') = pt_doubtful (transactions l)"

lemma same_transactions_trans: "\<lbrakk>same_transactions l l1; same_transactions l1 l'\<rbrakk> \<Longrightarrow> same_transactions l l'"
  by (simp add: same_transactions_def)

lemma same_transactions_refl [simp]: "same_transactions l l"
  by (simp add: same_transactions_def)

lemma same_transactions_grows: "log_grows l l' \<Longrightarrow> same_transactions l l'"
  using grows_extends_open by (auto simp: same_transactions_def extends_open_def)

lemma same_transactions_call: "fst c \<noteq> CommitTransaction \<Longrightarrow> same_transactions l (l @ [c])"
  by (cases "(transactions l, length l, c)" rule: transaction_call.cases) (auto simp: same_transactions_def)

lemma data_step_transactions: "data_step s s' \<Longrightarrow> same_transactions (sn_log s) (sn_log s')"
  by (simp add: data_step_def same_transactions_grows)

lemma call_cases:
  assumes "ksink_call E c s = (s', r)"
  obtains (returned) "r = Inr ()" "s' = s\<lparr>sn_log := sn_log s @ [(c, True)]\<rparr>"
    | (raised) e where "r = Inl e" "s' = s\<lparr>sn_log := sn_log s @ [(c, False)]\<rparr>"
  using assms by (auto simp: ksink_call_def on_producer_def thenE_def bindE_def producer_call_def split: option.splits)

lemma begin_cases:
  assumes "begin_transaction E C s = (s', r)"
  obtains (returned) "r = Inr ()" "sn_producer s" "s' = s\<lparr>sn_log := sn_log s @ [(BeginTransaction, True)], sn_in_transaction := True\<rparr>"
    | (raised) e where "r = Inl e" "same_transactions (sn_log s) (sn_log s')" "sn_in_transaction s' = sn_in_transaction s"
proof (cases "sn_producer s \<and> kc_supports C ''begin_transaction''")
  case False
  then show ?thesis using assms raised
    by (auto simp: begin_transaction_def thenE_def bindE_def ksink_require_producer_def ksink_supported_def split: if_splits)
next
  case True
  obtain s1 z where c: "ksink_call E BeginTransaction s = (s1, z)" by (cases "ksink_call E BeginTransaction s")
  then show ?thesis
  proof (cases rule: call_cases)
    case 1: returned
    then show ?thesis using True assms c returned
      by (auto simp: begin_transaction_def thenE_def bindE_def ksink_require_producer_def ksink_supported_def)
  next
    case (raised e)
    then have "r = Inl e" "s' = s1" using True assms c
      by (auto simp: begin_transaction_def thenE_def bindE_def ksink_require_producer_def ksink_supported_def)
    then show ?thesis using that(2) raised same_transactions_call [of "(BeginTransaction, False)"] by auto
  qed
qed

lemma abort_outcome:
  assumes "abort_transaction E C s = (s', r)"
  shows "same_transactions (sn_log s) (sn_log s')"
proof (cases "sn_producer s \<and> kc_supports C ''abort_transaction''")
  case False
  then show ?thesis using assms
    by (auto simp: abort_transaction_def thenE_def bindE_def ksink_require_producer_def ksink_supported_def split: if_splits)
next
  case True
  let ?s = "s\<lparr>sn_pending_acks := []\<rparr>"
  obtain s1 z where c: "ksink_call E AbortTransaction ?s = (s1, z)" by (cases "ksink_call E AbortTransaction ?s")
  then have "same_transactions (sn_log s) (sn_log s1)"
    using same_transactions_call [of "(AbortTransaction, _)"] by (cases rule: call_cases) auto
  moreover have "sn_log s' = sn_log s1" using True assms c
    by (cases z) (auto simp: abort_transaction_def thenE_def bindE_def ksink_require_producer_def ksink_supported_def)
  ultimately show ?thesis by simp
qed

text \<open>
  A commit that returns has had every waiting delivery acknowledged; one that raises has committed nothing, or its own
  call raised and nobody knows.
\<close>

lemma commit_cases:
  assumes L: "retry_law retry" and "commit_transaction E retry C s = (s', r)"
  obtains (returned) l where "r = Inr ()" "log_grows (sn_log s) l" "sn_log s' = l @ [(CommitTransaction, True)]"
      "\<And>n rs. accounted C n rs s \<Longrightarrow> accounted C n rs s'" "sn_pending_acks s' = []" "\<not> sn_in_transaction s'" "sn_producer s'"
    | (raised) e where "r = Inl e" "same_transactions (sn_log s) (sn_log s')" "sn_in_transaction s' = sn_in_transaction s"
    | (doubtful) e l where "r = Inl e" "log_grows (sn_log s) l" "sn_log s' = l @ [(CommitTransaction, False)]"
        "sn_in_transaction s' = sn_in_transaction s"
proof (cases "sn_producer s \<and> kc_supports C ''commit_transaction''")
  case False
  then show ?thesis using assms(2) raised
    by (auto simp: commit_transaction_def thenE_def bindE_def ksink_require_producer_def ksink_supported_def split: if_splits)
next
  case True
  obtain s1 z where d: "drain_pending_acks E retry C s = (s1, z)" by (cases "drain_pending_acks E retry C s")
  have step: "data_step s s1" using preservesD [OF drain_step [OF L] d] .
  show ?thesis
  proof (cases z)
    case (Inl e)
    then have "r = Inl e" "s' = s1" using True assms(2) d
      by (auto simp: commit_transaction_def thenE_def bindE_def ksink_require_producer_def ksink_supported_def)
    then show ?thesis using raised data_step_transactions [OF step] step by (simp add: data_step_def)
  next
    case (Inr u)
    obtain s2 y where c: "ksink_call E CommitTransaction s1 = (s2, y)" by (cases "ksink_call E CommitTransaction s1")
    have run: "(s', r) = (case y of Inl e \<Rightarrow> (s2, Inl e) | Inr _ \<Rightarrow> (s2\<lparr>sn_in_transaction := False\<rparr>, Inr ()))"
      using True assms(2) d c Inr
      by (auto simp: commit_transaction_def thenE_def bindE_def ksink_require_producer_def ksink_supported_def split: sum.splits)
    from c show ?thesis
    proof (cases rule: call_cases)
      case 1: returned
      then have s': "r = Inr ()" "s' = s1\<lparr>sn_log := sn_log s1 @ [(CommitTransaction, True)], sn_in_transaction := False\<rparr>"
        using run by simp_all
      have q: "sn_pending_acks s1 = []" using d Inr drain_loop_queue by (fastforce simp: drain_pending_acks_def)
      have "accounted C n rs s'" if a: "accounted C n rs s" for n rs
        using drain_accounted [OF L a, of E s1] d Inr accounted_append [of C n rs s1 s'] s' by simp
      then show ?thesis using returned [of "sn_log s1"] s' q step True by (simp add: data_step_def)
    next
      case (raised e)
      then have "r = Inl e" "s' = s1\<lparr>sn_log := sn_log s1 @ [(CommitTransaction, False)]\<rparr>" using run by simp_all
      then show ?thesis using doubtful [of e "sn_log s1"] step by (simp add: data_step_def)
    qed
  qed
qed

lemma returned_batch_accounted:
  assumes L: "retry_law retry" and "sn_producer s" "accounted C n rs s" and run: "ksink_write_batch E retry C xs s = (s', Inr ())"
  shows "accounted C n (rs @ xs) s' \<and> sn_producer s'"
proof (cases "kc_transaction_per_batch C \<and> \<not> sn_in_transaction s")
  case False
  then have "write_batch_unwrapped E retry C xs s = (s', Inr ())"
    using run assms(2) by (auto simp: ksink_write_batch_def thenE_def bindE_def ksink_require_producer_def)
  then show ?thesis
    using unwrapped_accounted [OF L assms(2,3)] preservesD [OF unwrapped_step [OF L]] assms(2) by (fastforce simp: data_step_def)
next
  case True
  then have t: "transaction E retry C (write_batch_unwrapped E retry C xs) s = (s', Inr ())"
    using run assms(2) by (auto simp: ksink_write_batch_def thenE_def bindE_def ksink_require_producer_def)
  obtain s1 where b: "begin_transaction E C s = (s1, Inr ())"
    using t by (auto simp: transaction_def thenE_Inr)
  have s1: "s1 = s\<lparr>sn_log := sn_log s @ [(BeginTransaction, True)], sn_in_transaction := True\<rparr>" using b by (cases rule: begin_cases) auto
  obtain s2 where w: "write_batch_unwrapped E retry C xs s1 = (s2, Inr ())" and c: "commit_transaction E retry C s2 = (s', Inr ())"
    using t b by (auto simp: transaction_def thenE_def bindE_def unless_cancelled_def tryE_def split: prod.splits sum.splits if_splits)
  have a1: "accounted C n rs s1" by (rule accounted_append [OF assms(3)]) (simp_all add: s1)
  have p1: "sn_producer s1" using assms(2) s1 by simp
  have a2: "accounted C n (rs @ xs) s2" using unwrapped_accounted [OF L p1 a1 w] .
  show ?thesis using c a2 by (cases rule: commit_cases [OF L]) auto
qed

text \<open>The body of a transaction writes the records, or raises.\<close>

lemma transaction_all_or_nothing:
  assumes L: "retry_law retry" and "sn_producer s" "sn_pending_acks s = []"
    and t: "transaction E retry C (write_batch_unwrapped E retry C rs) s = (s', r)"
  shows "case r of
      Inr _ \<Rightarrow> \<exists>ns ds. pt_committed (transactions (sn_log s')) = pt_committed (transactions (sn_log s)) @ ns \<and>
          pt_doubtful (transactions (sn_log s')) = pt_doubtful (transactions (sn_log s)) \<and>
          map (wire_message C) rs = map (\<lambda>d. Inr (dv_message d)) ds \<and> distinct (map dv_handle ds) \<and>
          (\<forall>d\<in>set ds. dv_handle d \<in> set ns \<and> acknowledged (sn_log s') d) \<and>
          \<not> sn_in_transaction s' \<and> sn_pending_acks s' = [] \<and> sn_producer s'
    | Inl e \<Rightarrow> pt_committed (transactions (sn_log s')) = pt_committed (transactions (sn_log s)) \<and>
          (pt_doubtful (transactions (sn_log s')) = pt_doubtful (transactions (sn_log s)) \<or>
           last (sn_log s') = (CommitTransaction, False))"
proof -
  obtain s1 z where b: "begin_transaction E C s = (s1, z)" by (cases "begin_transaction E C s")
  from b show ?thesis
  proof (cases rule: begin_cases)
    case (raised e)
    then show ?thesis using t b by (auto simp: transaction_def thenE_def bindE_def same_transactions_def)
  next
    case returned
    let ?l = "sn_log s1"
    have l: "pt_open (transactions ?l) = Some []" "same_transactions (sn_log s) ?l"
      using returned by (simp_all add: same_transactions_def)
    obtain s2 y where w: "write_batch_unwrapped E retry C rs s1 = (s2, y)" by (cases "write_batch_unwrapped E retry C rs s1")
    have step: "data_step s1 s2" using preservesD [OF unwrapped_step [OF L] w] .
    have same2: "same_transactions (sn_log s) (sn_log s2)" using same_transactions_trans [OF l(2) data_step_transactions [OF step]] .
    show ?thesis
    proof (cases y)
      case (Inl e)
      then have "\<exists>e'. r = Inl e'" "same_transactions (sn_log s2) (sn_log s')"
        using t b w returned(1) abort_outcome [of E C s2]
        by (auto simp: transaction_def thenE_def bindE_def unless_cancelled_def tryE_def split: prod.splits sum.splits if_splits)
      then show ?thesis using same_transactions_trans [OF same2] by (auto simp: same_transactions_def)
    next
      case (Inr u)
      then have c: "commit_transaction E retry C s2 = (s', r)"
        using t b w returned(1) by (auto simp: transaction_def thenE_def bindE_def unless_cancelled_def tryE_def)
      have "accounted C (length ?l) [] s1" using accounted_start [of s1] assms(3) returned by simp
      then have a: "accounted C (length ?l) rs s2" using unwrapped_accounted [OF L, of s1 C _ "[]" E rs s2] w Inr assms(2) returned by simp
      from c show ?thesis
      proof (cases rule: commit_cases [OF L, consumes 1, case_names returned raised doubtful])
        case (returned l')
        have g: "log_grows ?l l'" using step returned(2) grows.trans by (auto simp: data_step_def dest: transpD)
        obtain ns where ns: "pt_open (transactions l') = Some ns"
          "\<forall>d. sent l' d \<and> length ?l \<le> dv_handle d \<longrightarrow> dv_handle d \<in> set ns" "same_transactions ?l l'"
          using grows_extends_open [OF g] l(1) by (auto simp: extends_open_def opened_def same_transactions_def)
        obtain ds where ds: "map (wire_message C) rs = map (\<lambda>d. Inr (dv_message d)) ds" "distinct (map dv_handle ds)"
          "\<forall>d\<in>set ds. length ?l \<le> dv_handle d \<and> acknowledged (sn_log s') d"
          using accounted_settled [OF returned(4) [OF a] returned(5)] by blast
        have "dv_handle d \<in> set ns" if "d \<in> set ds" for d
        proof -
          have "sent (sn_log s') d" "length ?l \<le> dv_handle d" using ds(3) that by (simp_all add: acknowledged_def)
          then have "sent l' d" using returned(3) by (auto simp: sent_def nth_append less_Suc_eq split: if_splits)
          then show ?thesis using ns(2) \<open>length ?l \<le> dv_handle d\<close> by blast
        qed
        moreover have "transactions (sn_log s') = transaction_call (transactions l') (length l', CommitTransaction, True)"
          using returned(3) by simp
        ultimately show ?thesis using returned ns(1,3) l(2) ds
          by (auto simp: same_transactions_def opened_def intro!: exI [of _ ns] exI [of _ ds])
      next
        case (raised e)
        then show ?thesis using same_transactions_trans [OF same2] by (auto simp: same_transactions_def)
      next
        case (doubtful e l')
        have "same_transactions (sn_log s) l'" using same_transactions_trans [OF same2 same_transactions_grows] doubtful by blast
        then show ?thesis using doubtful by (simp add: same_transactions_def)
      qed
    qed
  qed
qed

section \<open>Properties\<close>

datatype 'r sink_use = UseWrite 'r | UseBatch "'r list" | UseFlush

fun used_records :: "'r sink_use \<Rightarrow> 'r list" where
  "used_records (UseWrite r) = [r]"
| "used_records (UseBatch rs) = rs"
| "used_records UseFlush = []"

fun use_sink :: "kafka_env \<Rightarrow> ksink_retry \<Rightarrow> 'r kafka_sink_config \<Rightarrow> 'r sink_use \<Rightarrow> unit ksink_op" where
  "use_sink E retry C (UseWrite r) = ksink_write E retry C r"
| "use_sink E retry C (UseBatch rs) = ksink_write_batch E retry C rs"
| "use_sink E retry C UseFlush = ksink_flush E retry C"

text \<open>Operations one after the other; those after one that raised are run as well.\<close>

fun use_all :: "kafka_env \<Rightarrow> ksink_retry \<Rightarrow> 'r kafka_sink_config \<Rightarrow> 'r sink_use list \<Rightarrow> kafka_sink \<Rightarrow> kafka_sink \<times> unit result list" where
  "use_all E retry C [] s = (s, [])"
| "use_all E retry C (u # us) s =
     (case use_sink E retry C u s of (s1, r) \<Rightarrow> (case use_all E retry C us s1 of (s', rs) \<Rightarrow> (s', r # rs)))"

lemma used_sink_accounted:
  assumes L: "retry_law retry" and "sn_producer s" "accounted C n rs s" "use_sink E retry C u s = (s', Inr ())"
  shows "accounted C n (rs @ used_records u) s' \<and> sn_producer s'"
proof (cases u)
  case (UseWrite r)
  then have "enqueue_send E retry C r s = (s', Inr ())"
    using assms(2,4) by (simp add: ksink_write_def thenE_def bindE_def ksink_require_producer_def)
  then show ?thesis
    using enqueue_accounted [OF L assms(3)] preservesD [OF ksink_enqueue_step [OF L]] assms(2) UseWrite by (fastforce simp: data_step_def)
next
  case (UseBatch xs)
  then show ?thesis using returned_batch_accounted [OF L assms(2,3)] assms(4) by simp
next
  case UseFlush
  then show ?thesis
    using flush_accounted [OF L assms(3,2)] preservesD [OF ksink_flush_step [OF L]] assms(2,4) by (fastforce simp: data_step_def)
qed

lemma used_all_accounted:
  assumes L: "retry_law retry"
  shows "\<lbrakk>sn_producer s; accounted C n rs s; use_all E retry C us s = (s', outs); set outs \<subseteq> {Inr ()}\<rbrakk> \<Longrightarrow>
     accounted C n (rs @ concat (map used_records us)) s' \<and> sn_producer s'"
proof (induction us arbitrary: rs s outs)
  case (Cons u us)
  then obtain s1 outs1 where u: "use_sink E retry C u s = (s1, Inr ())" and us: "use_all E retry C us s1 = (s', outs1)"
    and outs: "outs = Inr () # outs1"
    by (auto split: prod.splits)
  note a = used_sink_accounted [OF L Cons.prems(1,2) u]
  show ?case using Cons.IH [OF _ _ us, of "rs @ used_records u"] a Cons.prems(4) outs by simp
qed simp

lemma sink_use_bound: "1 \<le> kc_max_pending_acks C \<Longrightarrow> preserves (keeps_bound C) (use_sink E retry C u)"
  by (cases u) (simp_all add: ksink_write_def bound.seq require_producer_bound enqueue_bound write_batch_bound flush_bound)

text \<open>
  C17: records taken are acknowledged by the next flush that returns.  When writes, batches and flushes of an open sink
  all returned and so does a last flush, each record written has a delivery of its own, of its message: a \<open>send\<close> that
  returned and whose acknowledgement was awaited and came, whatever was sent again on the way.
\<close>

theorem written_records_are_acknowledged:
  assumes "retry_law retry" "sn_producer s" "sn_pending_acks s = []"
    and "use_all E retry C us s = (s1, outs)" "set outs \<subseteq> {Inr ()}" "ksink_flush E retry C s1 = (s', Inr ())"
  shows "\<exists>ds. map (wire_message C) (concat (map used_records us)) = map (\<lambda>d. Inr (dv_message d)) ds \<and>
     distinct (map dv_handle ds) \<and> (\<forall>d\<in>set ds. length (sn_log s) \<le> dv_handle d \<and> acknowledged (sn_log s') d)"
proof -
  have a: "accounted C (length (sn_log s)) (concat (map used_records us)) s1" "sn_producer s1"
    using used_all_accounted [OF assms(1,2) accounted_start [OF assms(3)] assms(4,5)] by simp_all
  show ?thesis using accounted_settled flush_accounted [OF assms(1) a assms(6)] by blast
qed

text \<open>
  Fewer than \<open>max_pending_acks\<close> deliveries wait for their acknowledgement between any operations of the sink, also
  after operations that raised, with and without transactions.
\<close>

lemma pending_acks_bounded:
  assumes "1 \<le> kc_max_pending_acks C" "int (length (sn_pending_acks s)) < kc_max_pending_acks C"
    and "use_all E retry C us s = (s', outs)"
  shows "int (length (sn_pending_acks s')) < kc_max_pending_acks C"
  using assms(2,3)
proof (induction us arbitrary: s outs)
  case (Cons u us)
  obtain s1 r where u: "use_sink E retry C u s = (s1, r)" by (cases "use_sink E retry C u s")
  then have "int (length (sn_pending_acks s1)) < kc_max_pending_acks C"
    using preservesD [OF sink_use_bound [OF assms(1)] u] Cons.prems(1) by (simp add: keeps_bound_def acks_bounded_def)
  then show ?case using Cons.IH Cons.prems(2) u by (auto split: prod.splits)
qed simp

text \<open>
  C16: a batch of a sink with one transaction per batch is committed as a whole or not at all.  The sink is open, in no
  transaction and without outstanding acknowledgements, as a batch that returns leaves it again.  When the batch returns,
  one committed transaction has an acknowledged message of its own for each record, and the sink is ready for the next
  batch; when it raises nothing is committed, unless the call that raised is the commit itself.  In a sink that is still
  in a transaction a batch returns without being committed (\<open>batch_in_open_transaction_not_committed\<close> below).
\<close>

theorem batch_all_or_nothing:
  assumes "retry_law retry" "kc_transaction_per_batch C" "sn_producer s" "\<not> sn_in_transaction s" "sn_pending_acks s = []"
    and run: "ksink_write_batch E retry C rs s = (s', r)"
  shows "case r of
      Inr _ \<Rightarrow> \<exists>ns ds. pt_committed (transactions (sn_log s')) = pt_committed (transactions (sn_log s)) @ ns \<and>
          pt_doubtful (transactions (sn_log s')) = pt_doubtful (transactions (sn_log s)) \<and>
          map (wire_message C) rs = map (\<lambda>d. Inr (dv_message d)) ds \<and> distinct (map dv_handle ds) \<and>
          (\<forall>d\<in>set ds. dv_handle d \<in> set ns \<and> acknowledged (sn_log s') d) \<and>
          \<not> sn_in_transaction s' \<and> sn_pending_acks s' = [] \<and> sn_producer s'
    | Inl e \<Rightarrow> pt_committed (transactions (sn_log s')) = pt_committed (transactions (sn_log s)) \<and>
          (pt_doubtful (transactions (sn_log s')) = pt_doubtful (transactions (sn_log s)) \<or>
           last (sn_log s') = (CommitTransaction, False))"
proof -
  have t: "transaction E retry C (write_batch_unwrapped E retry C rs) s = (s', r)"
    using run assms(2-4) by (auto simp: ksink_write_batch_def thenE_def bindE_def ksink_require_producer_def)
  show ?thesis by (rule transaction_all_or_nothing [OF assms(1,3,5) t])
qed

section \<open>Two ways to lose a record\<close>

text \<open>A commit that raises leaves the transaction open, and then batches return without a commit of their own.\<close>

lemma failed_commit_stays_open:
  assumes "retry_law retry" "commit_transaction E retry C s = (s', Inl e)"
  shows "sn_in_transaction s' = sn_in_transaction s"
  by (cases rule: commit_cases [OF assms]) simp_all

lemma batch_in_open_transaction_not_committed:
  assumes "retry_law retry" "sn_in_transaction s" "ksink_write_batch E retry C rs s = (s', r)"
  shows "sn_in_transaction s' \<and> pt_committed (transactions (sn_log s')) = pt_committed (transactions (sn_log s))"
proof (cases "sn_producer s")
  case False
  then show ?thesis using assms(2,3) by (auto simp: ksink_write_batch_def thenE_def bindE_def ksink_require_producer_def)
next
  case True
  then have "write_batch_unwrapped E retry C rs s = (s', r)"
    using assms(2,3) by (simp add: ksink_write_batch_def thenE_def bindE_def ksink_require_producer_def)
  then have "data_step s s'" using preservesD [OF unwrapped_step [OF assms(1)]] by blast
  then show ?thesis using assms(2) data_step_transactions by (auto simp: data_step_def same_transactions_def)
qed

text \<open>A message without value, which \<^verbatim>\<open>KafkaSinkMessage\<close> allows, is never sent.\<close>

lemma message_without_value_refused:
  assumes "retry_law retry" "sn_producer s" "pm_value m = None"
  shows "send_with_retry E retry C m s = (s, Inl (TypeError ''object of type NoneType has no len()''))"
proof -
  let ?op = "issue_send E (m\<lparr>pm_headers := kc_inject C (pm_headers m)\<rparr>)"
  have op: "?op l = (l, Inl (TypeError ''object of type NoneType has no len()''))" for l
    using assms(3) by (simp add: issue_send_def)
  obtain l x where run: "retry ?op id (sn_log s) = (l, x)" by (cases "retry ?op id (sn_log s)")
  have eq: "transp ((=) :: kafka_log \<Rightarrow> _)" "reflp ((=) :: kafka_log \<Rightarrow> _)" "preserves (=) ?op" "\<And>l. l = id l"
    by (simp_all add: transp_def reflp_def preserves_def op)
  have "\<exists>l1. sn_log s = l1 \<and> ?op l1 = (l, x)"
    by (rule retry_last_run [where f = id and retry = retry and R = "(=)"]) (rule assms(1) eq run)+
  then show ?thesis using run op assms(2)
    by (auto simp: send_with_retry_def Let_def thenE_def bindE_def ksink_require_producer_def on_producer_def)
qed

section \<open>Instances\<close>

definition sample_sink_config :: "bytes kafka_sink_config" where
  "sample_sink_config =
     \<lparr>kc_topic = ''orders'', kc_serializer = Inr, kc_serializer_is_async = False, kc_serializer_awaits = (\<lambda>_. False),
      kc_message_fn = None, kc_topic_fn = None, kc_key_fn = Some (\<lambda>r. Inr (Some r)), kc_partition_fn = None,
      kc_headers_fn = None, kc_timestamp_ms_fn = None, kc_inject = id, kc_max_pending_acks = 2,
      kc_transaction_per_batch = True, kc_has_hook = (\<lambda>_ _. False), kc_supports = (\<lambda>_. True), kc_should_retry = (\<lambda>_. True)\<rparr>"

text \<open>The acknowledgement of the first message sent after opening fails once.\<close>

definition first_delivery_fails :: kafka_env where
  "first_delivery_fails l c = (if c = AwaitDelivery 0 then Some (Exn ''KafkaError'' [''Exception''] ''request timed out'') else None)"

definition open_sink :: kafka_sink where
  "open_sink = kafka_sink_init\<lparr>sn_producer := True\<rparr>"

definition sample_uses :: "bytes sink_use list" where
  "sample_uses = [UseWrite [1], UseBatch [[2], [3]], UseWrite [4]]"

lemma sample_runs:
  "snd (use_all first_delivery_fails two_attempts sample_sink_config sample_uses open_sink) = [Inr (), Inr (), Inr ()]"
  "snd (ksink_flush first_delivery_fails two_attempts sample_sink_config
          (fst (use_all first_delivery_fails two_attempts sample_sink_config sample_uses open_sink))) = Inr ()"
  by code_simp+

definition after_sample :: kafka_sink where
  "after_sample = fst (ksink_flush first_delivery_fails two_attempts sample_sink_config
     (fst (use_all first_delivery_fails two_attempts sample_sink_config sample_uses open_sink)))"

theorem written_records_are_acknowledged_witness:
  "\<exists>ds. map (wire_message sample_sink_config) [[1], [2], [3], [4]] = map (\<lambda>d. Inr (dv_message d)) ds \<and>
     distinct (map dv_handle ds) \<and> (\<forall>d\<in>set ds. acknowledged (sn_log after_sample) d)"
proof -
  let ?run = "use_all first_delivery_fails two_attempts sample_sink_config sample_uses open_sink"
  have "?run = (fst ?run, [Inr (), Inr (), Inr ()])" using sample_runs(1) by (simp add: prod_eq_iff)
  note run = this
  have fl: "ksink_flush first_delivery_fails two_attempts sample_sink_config (fst ?run) = (after_sample, Inr ())"
    using sample_runs(2) by (simp add: prod_eq_iff after_sample_def)
  have "\<exists>ds. map (wire_message sample_sink_config) (concat (map used_records sample_uses)) = map (\<lambda>d. Inr (dv_message d)) ds \<and>
     distinct (map dv_handle ds) \<and> (\<forall>d\<in>set ds. length (sn_log open_sink) \<le> dv_handle d \<and> acknowledged (sn_log after_sample) d)"
    by (rule written_records_are_acknowledged [OF two_attempts_law _ _ run _ fl])
      (simp_all add: open_sink_def kafka_sink_init_def)
  moreover have "concat (map used_records sample_uses) = [[1], [2], [3], [4]]" by (simp add: sample_uses_def)
  ultimately show ?thesis by metis
qed

definition after_batch :: kafka_sink where
  "after_batch = fst (ksink_write_batch first_delivery_fails two_attempts sample_sink_config [[2], [3]] open_sink)"

theorem batch_all_or_nothing_witness:
  "\<exists>ns ds. pt_committed (transactions (sn_log after_batch)) = ns \<and>
     map (wire_message sample_sink_config) [[2], [3]] = map (\<lambda>d. Inr (dv_message d)) ds \<and> distinct (map dv_handle ds) \<and>
     (\<forall>d\<in>set ds. dv_handle d \<in> set ns)"
proof -
  let ?run = "ksink_write_batch first_delivery_fails two_attempts sample_sink_config [[2], [3]] open_sink"
  have ok: "snd ?run = Inr ()" by code_simp
  have "?run = (after_batch, snd ?run)" by (simp add: after_batch_def)
  note outcome = batch_all_or_nothing [OF two_attempts_law _ _ _ _ this, unfolded ok sum.case]
  have "\<exists>ns ds. pt_committed (transactions (sn_log after_batch)) = pt_committed (transactions (sn_log open_sink)) @ ns \<and>
     map (wire_message sample_sink_config) [[2], [3]] = map (\<lambda>d. Inr (dv_message d)) ds \<and> distinct (map dv_handle ds) \<and>
     (\<forall>d\<in>set ds. dv_handle d \<in> set ns)"
    using outcome by (force simp: sample_sink_config_def open_sink_def kafka_sink_init_def)
  then show ?thesis by (simp add: open_sink_def kafka_sink_init_def transactions_def no_transactions_def)
qed

end
