(* ===== verification/Kafka_Kafka.thy ===== *)
theory Kafka_Kafka
  imports Kafka_Durability Kafka_Sink_Delivery
begin

text \<open>
  The Kafka sink behind the runtime of \<^verbatim>\<open>kafka/runtime.py\<close>: records read from Kafka and written to Kafka.  The sink keeps
  the contract \<open>durable_sink\<close> (a record is durable when a message of it is acknowledged), so a drain that flushes each
  record commits only offsets whose messages are acknowledged.  With \<^verbatim>\<open>transactional_offsets=True\<close> the message and its
  offset are committed in one transaction of the producer.
\<close>

section \<open>The sink as the runtime sees it\<close>

definition kafka_transaction_methods :: "kafka_env \<Rightarrow> ksink_retry \<Rightarrow> 'u kafka_sink_config \<Rightarrow> kafka_sink transaction_methods" where
  "kafka_transaction_methods E retry C =
     \<lparr>tx_begin = begin_transaction E C, tx_send_offsets = (\<lambda>(offsets, group_id). send_offsets_to_transaction E C offsets group_id),
      tx_commit = commit_transaction E retry C, tx_abort = abort_transaction E C\<rparr>"

definition kafka_base_sink :: "kafka_env \<Rightarrow> ksink_retry \<Rightarrow> 'u kafka_sink_config \<Rightarrow> ('u, kafka_sink) base_sink" where
  "kafka_base_sink E retry C =
     \<lparr>bs_open = ksink_open E C, bs_write = ksink_write E retry C, bs_flush = ksink_flush E retry C,
      bs_close = ksink_close E retry C, bs_wait_for_pending_acks = Some (drain_pending_acks E retry C),
      bs_transaction = Some (kafka_transaction_methods E retry C)\<rparr>"

section \<open>The contract of the sink\<close>

definition queue_sent :: "kafka_sink \<Rightarrow> bool" where
  "queue_sent s \<longleftrightarrow> (\<forall>d\<in>set (sn_pending_acks s). sent (sn_log s) d)"

definition message_acknowledged :: "publish_message \<Rightarrow> kafka_sink \<Rightarrow> bool" where
  "message_acknowledged m s \<longleftrightarrow> (\<exists>h. acknowledged (sn_log s) (Delivery m h))"

definition message_waits :: "publish_message \<Rightarrow> kafka_sink \<Rightarrow> bool" where
  "message_waits m s \<longleftrightarrow> m \<in> dv_message ` set (sn_pending_acks s)"

lemma acknowledged_stays:
  assumes "message_acknowledged m s" "data_step s s'"
  shows "message_acknowledged m s'"
proof -
  obtain x where "sn_log s' = sn_log s @ x" using assms(2) by (auto simp: data_step_def log_grows_def)
  then show ?thesis using assms(1) acknowledged_append by (auto simp: message_acknowledged_def)
qed

lemma queue_sent_step:
  "\<lbrakk>queue_sent s; data_step s s'; set (sn_pending_acks s') \<subseteq> set (sn_pending_acks s)\<rbrakk> \<Longrightarrow> queue_sent s'"
  by (auto simp: queue_sent_def data_step_def intro: sent_grows)

lemma await_oldest_settles:
  assumes L: "retry_law retry" and "queue_sent s" "await_oldest_ack E retry C s = (s', r)"
  shows "queue_sent s'" "\<lbrakk>r = Inr (); message_waits m s\<rbrakk> \<Longrightarrow> message_acknowledged m s' \<or> message_waits m s'"
proof -
  have q: "sn_pending_acks s' = tl (sn_pending_acks s)" using await_oldest_queue [of E retry C s] assms(3) by simp
  have step: "data_step s s'" using preservesD [OF await_oldest_step [OF L] assms(3)] .
  show "queue_sent s'" by (rule queue_sent_step [OF assms(2) step]) (use q list.set_sel(2) in \<open>fastforce simp: tl_def split: list.splits\<close>)
  show "message_acknowledged m s' \<or> message_waits m s'" if r: "r = Inr ()" and w: "message_waits m s"
  proof (cases "sn_pending_acks s")
    case Nil
    then show ?thesis using w by (simp add: message_waits_def)
  next
    case (Cons d ds)
    obtain l h where c: "confirm E retry C d (sn_log s) = (l, Inr h)" and l: "sn_log s' = l"
      using assms(3) Cons r by (auto simp: await_oldest_ack_def on_producer_def thenE_def bindE_def split: prod.splits sum.splits)
    have "sent (sn_log s) d" using assms(2) Cons by (simp add: queue_sent_def)
    then have "message_acknowledged (dv_message d) s'" using confirm_returns [OF L c] l by (auto simp: message_acknowledged_def)
    then show ?thesis using w Cons q by (auto simp: message_waits_def)
  qed
qed

lemma drain_loop_settles:
  assumes L: "retry_law retry"
  shows "\<lbrakk>queue_sent s; drain_loop E retry C ds s = (s', r)\<rbrakk> \<Longrightarrow>
     queue_sent s' \<and> (r = Inr () \<longrightarrow> message_waits m s \<longrightarrow> message_acknowledged m s' \<or> message_waits m s')"
proof (induction ds arbitrary: s)
  case (Cons d ds)
  obtain s1 z where a: "await_oldest_ack E retry C s = (s1, z)" by (cases "await_oldest_ack E retry C s")
  note A = await_oldest_settles [OF L Cons.prems(1) a]
  show ?case
  proof (cases z)
    case (Inl e)
    then show ?thesis using Cons.prems(2) a A(1) by (auto simp: thenE_def bindE_def)
  next
    case (Inr u)
    then have d: "drain_loop E retry C ds s1 = (s', r)" using Cons.prems(2) a by (simp add: thenE_def bindE_def)
    have "message_acknowledged m s1 \<Longrightarrow> message_acknowledged m s'"
      using acknowledged_stays preservesD [OF drain_loop_step [OF L] d] by blast
    then show ?thesis using Cons.IH [OF A(1) d] A(2) [of m] Inr by auto
  qed
qed simp

lemma flush_settles:
  assumes L: "retry_law retry" and "queue_sent s" "sn_producer s" "ksink_flush E retry C s = (s', r)"
  shows "queue_sent s'" "\<lbrakk>r = Inr (); message_waits m s\<rbrakk> \<Longrightarrow> message_acknowledged m s'"
proof -
  let ?f = "on_producer (thenE (retry (producer_call E ProducerFlush) id) (returnE ()))"
  obtain s1 z where d: "drain_loop E retry C (sn_pending_acks s) s = (s1, z)" by (cases "drain_loop E retry C (sn_pending_acks s) s")
  note D = drain_loop_settles [OF L assms(2) d]
  have fs: "preserves data_step ?f"
    by (intro on_producer_step grows.seq grows.retried [OF L] producer_call_grows grows.return) simp
  have "queue_sent s' \<and> (r = Inr () \<longrightarrow> message_waits m s \<longrightarrow> message_acknowledged m s')"
  proof (cases z)
    case (Inl e)
    then show ?thesis using D assms(3,4) d by (auto simp: ksink_flush_def drain_pending_acks_def thenE_def bindE_def)
  next
    case (Inr u)
    then have f: "?f s1 = (s', r)" using assms(3,4) d by (simp add: ksink_flush_def drain_pending_acks_def thenE_def bindE_def)
    have step: "data_step s1 s'" using preservesD [OF fs f] .
    have q: "sn_pending_acks s' = sn_pending_acks s1" using on_producer_queue f by (metis fst_conv)
    have "sn_pending_acks s1 = []" using drain_loop_queue [of E retry C] d Inr by simp
    then show ?thesis using D Inr acknowledged_stays [OF _ step] queue_sent_step [OF _ step] q by (auto simp: message_waits_def)
  qed
  then show "queue_sent s'" "\<lbrakk>r = Inr (); message_waits m s\<rbrakk> \<Longrightarrow> message_acknowledged m s'" by blast+
qed

lemma enqueue_settles:
  assumes L: "retry_law retry" and "queue_sent s" "enqueue_send E retry C u s = (s', r)"
  shows "queue_sent s'"
    "r = Inr () \<Longrightarrow> \<exists>m. wire_message C u = Inr m \<and> (message_acknowledged m s' \<or> message_waits m s')"
proof -
  have "queue_sent s' \<and> (r = Inr () \<longrightarrow> (\<exists>m. wire_message C u = Inr m \<and> (message_acknowledged m s' \<or> message_waits m s')))"
  proof (cases "sn_producer s \<and> (\<exists>m. publish_message_for C u = Inr m)")
    case False
    then have "s' = s \<and> r \<noteq> Inr ()" using assms(3)
      by (cases "publish_message_for C u")
        (auto simp: enqueue_send_def thenE_def bindE_def ksink_require_producer_def liftR_def split: if_splits)
    then show ?thesis using assms(2) by simp
  next
    case True
    then obtain m where m: "publish_message_for C u = Inr m" by blast
    obtain s1 z where sd: "send_with_retry E retry C m s = (s1, z)" by (cases "send_with_retry E retry C m s")
    have run: "(s', r) = (case z of Inl e \<Rightarrow> (s1, Inl e) | Inr d \<Rightarrow> append_delivery E retry C d s1)"
      using assms(3) True m sd by (cases z) (simp_all add: enqueue_send_def thenE_def bindE_def ksink_require_producer_def liftR_def)
    have st: "data_step s s1" using preservesD [OF send_with_retry_step [OF L] sd] .
    have q: "sn_pending_acks s1 = sn_pending_acks s"
      using sd True by (auto simp: send_with_retry_def Let_def thenE_def bindE_def ksink_require_producer_def on_producer_def split: prod.splits sum.splits)
    show ?thesis
    proof (cases z)
      case (Inl e)
      then show ?thesis using run queue_sent_step [OF assms(2) st] q by simp
    next
      case (Inr d)
      note S = send_with_retry_returns [OF L sd [unfolded Inr]]
      let ?s = "s1\<lparr>sn_pending_acks := sn_pending_acks s1 @ [d]\<rparr>"
      have qs: "queue_sent ?s" using queue_sent_step [OF assms(2) st] q S(2) by (auto simp: queue_sent_def)
      have w: "message_waits (dv_message d) ?s" by (simp add: message_waits_def)
      have wire: "wire_message C u = Inr (dv_message d)" using m S(1) by (simp add: wire_message_def)
      show ?thesis
      proof (cases "kc_max_pending_acks C \<le> int (length (sn_pending_acks ?s))")
        case True
        then have "await_oldest_ack E retry C ?s = (s', r)" using run Inr by (simp add: append_delivery_def)
        then show ?thesis using await_oldest_settles [OF L qs] w wire by blast
      next
        case False
        then have "s' = ?s" using run Inr by (simp add: append_delivery_def)
        then show ?thesis using qs w wire by blast
      qed
    qed
  qed
  then show "queue_sent s'" "r = Inr () \<Longrightarrow> \<exists>m. wire_message C u = Inr m \<and> (message_acknowledged m s' \<or> message_waits m s')"
    by blast+
qed

definition ksink_ready :: "ksink_retry \<Rightarrow> kafka_sink \<Rightarrow> bool" where
  "ksink_ready retry q \<longleftrightarrow> retry_law retry \<and> sn_producer q \<and> queue_sent q"

definition record_acknowledged :: "'u kafka_sink_config \<Rightarrow> 'u \<Rightarrow> kafka_sink \<Rightarrow> bool" where
  "record_acknowledged C u q \<longleftrightarrow> (\<exists>m. wire_message C u = Inr m \<and> message_acknowledged m q)"

definition record_waits :: "'u kafka_sink_config \<Rightarrow> 'u \<Rightarrow> kafka_sink \<Rightarrow> bool" where
  "record_waits C u q \<longleftrightarrow> (\<exists>m. wire_message C u = Inr m \<and> message_waits m q)"

lemma ready_step:
  "\<lbrakk>ksink_ready retry q; queue_sent q'; data_step q q'\<rbrakk> \<Longrightarrow> ksink_ready retry q' \<and> (record_acknowledged C v q \<longrightarrow> record_acknowledged C v q')"
  using acknowledged_stays [of _ q q'] by (auto simp: ksink_ready_def record_acknowledged_def data_step_def [of q q'])

lemma base_sink_write: "\<lbrakk>ksink_ready retry q; bs_write (kafka_base_sink E retry C) u q = (q', r)\<rbrakk> \<Longrightarrow> enqueue_send E retry C u q = (q', r)"
  by (simp add: kafka_base_sink_def ksink_ready_def ksink_write_def thenE_def bindE_def ksink_require_producer_def)

interpretation kafka_durable: durable_sink "kafka_base_sink E retry C" "ksink_ready retry" "record_acknowledged C" "record_waits C"
  for E retry and C :: "'u kafka_sink_config"
proof (unfold_locales, goal_cases)
  case (1 q u q' r v)
  have L: "retry_law retry" "queue_sent q" using 1(1) by (simp_all add: ksink_ready_def)
  note w = base_sink_write [OF 1]
  show ?case by (rule ready_step [OF 1(1) enqueue_settles(1) [OF L w] preservesD [OF ksink_enqueue_step [OF L(1)] w]])
next
  case (2 q u q')
  have L: "retry_law retry" "queue_sent q" using 2(1) by (simp_all add: ksink_ready_def)
  show ?case using enqueue_settles(2) [OF L base_sink_write [OF 2]] by (auto simp: record_acknowledged_def record_waits_def)
next
  case (3 q q' r v)
  have L: "retry_law retry" "queue_sent q" "sn_producer q" using 3(1) by (simp_all add: ksink_ready_def)
  have f: "ksink_flush E retry C q = (q', r)" using 3(2) by (simp add: kafka_base_sink_def)
  show ?case by (rule ready_step [OF 3(1) flush_settles(1) [OF L f] preservesD [OF ksink_flush_step [OF L(1)] f]])
next
  case (4 q q' v)
  have L: "retry_law retry" "queue_sent q" "sn_producer q" using 4(1) by (simp_all add: ksink_ready_def)
  have f: "ksink_flush E retry C q = (q', Inr ())" using 4(2) by (simp add: kafka_base_sink_def)
  show ?case using flush_settles(2) [OF L f refl] 4(3) by (auto simp: record_acknowledged_def record_waits_def)
qed

section \<open>Drains that flush each record\<close>

text \<open>The record of a message is acknowledged by the target, or it cannot be deserialised and the policy goes on.\<close>

definition message_forwarded ::
    "kafka_config \<Rightarrow> 'r deserializers \<Rightarrow> ('r, 'u, 'v) runtime_options \<Rightarrow> poison_policy \<Rightarrow> 'u kafka_sink_config \<Rightarrow> kafka_sink
     \<Rightarrow> kafka_message list \<times> nat \<Rightarrow> bool" where
  "message_forwarded cfg ds opts pol C q = (\<lambda>(b, i).
     case message_record cfg ds b i of
       None \<Rightarrow> continues pol
     | Some r \<Rightarrow>
         let md = message_metadata cfg (b ! i) (int (length b)) (int i)
         in \<exists>u. outbound_record opts (Some (delivery_context_from_metadata md)) r = Inr u \<and> record_acknowledged C u q)"

lemma kept_forwarded: "kafka_durable.kept C opts pol cfg ds q = message_forwarded cfg ds opts pol C q"
  by (auto simp: kafka_durable.kept_def message_forwarded_def fun_eq_iff split: option.split)

text \<open>
  C18: the offsets a Kafka to Kafka drain may commit are those of messages whose records the target has acknowledged.
  The sink is open and no acknowledgement is outstanding; the drain is a whole run of \<^verbatim>\<open>drain_to\<close> that flushes each
  record and uses no transactions, from the start of the generator through all its polls, with single or batch
  deserialiser, to the closing of the generator, whether it returns or raises; while it runs no partition is revoked and
  no operator call is made.  Let \<open>batches\<close> be what the polls of the loop handed out
  (a poll made by the start drops what it gets: \<open>positioning_drops_message\<close>).  Then there is a \<open>k\<close> such that the committable
  offsets are those of the first \<open>k\<close> messages of all batches, every commit sent to the broker covers a prefix of at most
  \<open>k\<close> of them, and each of the first \<open>k\<close> messages has its record acknowledged, unless it could not be deserialised and
  the policy goes on after such a message.  A drain that returns has received the records of these \<open>k\<close> messages, which
  are all messages handed out unless as many records as wanted were received.
\<close>

theorem committable_offsets_are_forwarded:
  assumes env: "retry_law retry" "sn_producer q" "sn_pending_acks q = []"
    and source: "source_inv s" "begins = (if wants_more opts 0 then fst (stream_start K s) else s)" "src_consumer begins = Some c"
    and log: "client_log K F trace polled"
    and opts: "ro_flush opts" "\<not> ro_transactional opts"
    and base: "base = dict_get (committable_offsets (src_cursor begins))"
    and run: "drain_to cfg K SK ds (kafka_base_sink E retry C) opts F fuel (s, q) = Some ((s', q'), r)"
  shows "\<exists>k c' new batches. src_consumer s' = Some c' \<and> trace c' = trace c @ new \<and> polled c' = polled c @ batches \<and>
      k \<le> length (concat batches) \<and>
      dict_get (committable_offsets (src_cursor s')) = prefix_committable base (concat batches) k \<and>
      (\<forall>offsets \<in> set new. \<exists>j \<le> k. commits_prefix base (concat batches) j offsets) \<and>
      list_all (message_forwarded cfg ds opts (poison_record_policy (src_poison s)) C q') (take k (positions batches)) \<and>
      (\<forall>records. r = Inr records \<longrightarrow> records = position_records cfg ds (take k (positions batches)) \<and>
         (k = length (concat batches) \<or> \<not> wants_more opts (length records)))"
proof -
  have ok: "ksink_ready retry q" using env by (simp add: ksink_ready_def queue_sent_def)
  show ?thesis
    by (rule kafka_durable.drain_settles [OF opts log source(1) ok source(2,3) base run, unfolded kept_forwarded])
qed

section \<open>Offsets in the transaction\<close>

text \<open>Operations only append to the log.\<close>

definition appends :: "kafka_sink \<Rightarrow> kafka_sink \<Rightarrow> bool" where
  "appends s s' \<longleftrightarrow> (\<exists>x. sn_log s' = sn_log s @ x)"

interpretation app: step_relation appends
  by standard (force simp: transp_def reflp_def appends_def)+

lemma data_step_appends: "preserves data_step m \<Longrightarrow> preserves appends m"
  by (erule preserves_mono) (auto simp: data_step_def log_grows_def appends_def)

lemma quiet_appends: "(\<And>s. sn_log (f s) = sn_log s) \<Longrightarrow> preserves appends (modifyE f)"
  by (simp add: preserves_def appends_def)

lemma call_appends: "preserves appends (ksink_call E c)"
  by (simp add: preserves_def appends_def ksink_call_def on_producer_def thenE_def bindE_def producer_call_def split: option.split)

lemma guard_appends: "preserves appends (ksink_supported C m)" "preserves appends ksink_require_producer"
  by (auto simp: ksink_supported_def app.return app.raise intro: data_step_appends require_producer_step)

lemma method_appends:
  "preserves appends (begin_transaction E C)" "preserves appends (send_offsets_to_transaction E C offsets g)"
  "preserves appends (abort_transaction E C)" "retry_law retry \<Longrightarrow> preserves appends (commit_transaction E retry C)"
  unfolding begin_transaction_def send_offsets_to_transaction_def abort_transaction_def commit_transaction_def
  by (intro app.seq call_appends guard_appends quiet_appends data_step_appends drain_step; simp)+

lemma write_step: "retry_law retry \<Longrightarrow> preserves data_step (ksink_write E retry C u)"
  unfolding ksink_write_def by (intro step.seq require_producer_step ksink_enqueue_step)

text \<open>Only a commit that raises makes calls doubtful.\<close>

lemma doubt_needs_failed_commit:
  "(CommitTransaction, False) \<notin> set x \<Longrightarrow> pt_doubtful (transactions (l @ x)) = pt_doubtful (transactions l)"
proof (induction x rule: rev_induct)
  case (snoc c x)
  obtain f b where "c = (f, b)" by (cases c)
  then have "pt_doubtful (transaction_call t (n, c)) = pt_doubtful t" for t n
    using snoc.prems by (cases f; cases b) auto
  then show ?case using snoc by (simp flip: append_assoc)
qed simp

text \<open>Writing a record and flushing it are steps of data, and when they return the record has a delivery of its own.\<close>

lemma written_record:
  assumes L: "retry_law retry" and "sn_producer s" "sn_pending_acks s = []"
    and run: "thenE (ksink_write E retry C u) (if flush then ksink_flush E retry C else returnE ()) s = (s', r)"
  shows "data_step s s'" "r = Inr () \<Longrightarrow> accounted C (length (sn_log s)) [u] s'"
proof -
  have fs: "preserves data_step (if flush then ksink_flush E retry C else returnE ())"
    by (simp add: ksink_flush_step [OF L] step.return)
  show "data_step s s'" by (rule preservesD [OF step.seq [OF write_step [OF L] fs] run])
  show "accounted C (length (sn_log s)) [u] s'" if r: "r = Inr ()"
  proof -
    obtain s1 where w: "ksink_write E retry C u s = (s1, Inr ())" and f: "(if flush then ksink_flush E retry C else returnE ()) s1 = (s', Inr ())"
      using run r by (auto simp: thenE_Inr)
    have "enqueue_send E retry C u s = (s1, Inr ())"
      using w assms(2) by (simp add: ksink_write_def thenE_def bindE_def ksink_require_producer_def)
    then have a: "accounted C (length (sn_log s)) [u] s1" using enqueue_accounted [OF L accounted_start [OF assms(3)]] by fastforce
    have "sn_producer s1" using preservesD [OF write_step [OF L] w] assms(2) by (simp add: data_step_def)
    then show ?thesis using f a flush_accounted [OF L a] by (auto split: if_splits)
  qed
qed

lemma offsets_cases:
  assumes "send_offsets_to_transaction E C offsets g s = (s', r)"
  obtains (returned) "r = Inr ()" "s' = s\<lparr>sn_log := sn_log s @ [(SendOffsets offsets g, True)]\<rparr>"
    | (raised) e where "r = Inl e" "same_transactions (sn_log s) (sn_log s')"
proof (cases "sn_producer s \<and> kc_supports C ''send_offsets_to_transaction''")
  case False
  then show ?thesis using assms raised
    by (auto simp: send_offsets_to_transaction_def thenE_def bindE_def ksink_require_producer_def ksink_supported_def split: if_splits)
next
  case True
  then have "ksink_call E (SendOffsets offsets g) s = (s', r)"
    using assms by (auto simp: send_offsets_to_transaction_def thenE_def bindE_def ksink_require_producer_def ksink_supported_def)
  then show ?thesis
    by (cases rule: call_cases) (use returned raised same_transactions_call [of "(SendOffsets offsets g, False)"] in auto)
qed

text \<open>The message of \<open>u\<close> and the offsets are in one committed transaction.\<close>

definition committed_together :: "'u kafka_sink_config \<Rightarrow> 'u \<Rightarrow> offset_map \<times> string \<Rightarrow> kafka_log \<Rightarrow> kafka_log \<Rightarrow> bool" where
  "committed_together C u offsets l l' \<longleftrightarrow>
     (\<exists>ns d k. pt_committed (transactions l') = pt_committed (transactions l) @ ns \<and>
        pt_doubtful (transactions l') = pt_doubtful (transactions l) \<and>
        wire_message C u = Inr (dv_message d) \<and> acknowledged l' d \<and> dv_handle d \<in> set ns \<and>
        k \<in> set ns \<and> k < length l' \<and> l' ! k = (SendOffsets (fst offsets) (snd offsets), True))"

lemma transaction_body_outcome:
  assumes L: "retry_law retry" and "sn_producer s" "sn_pending_acks s = []" "pt_open (transactions (sn_log s)) = Some []"
    and run: "transaction_body (kafka_base_sink E retry C) (kafka_transaction_methods E retry C) flush offsets u s = (s', r)"
  shows "case r of Inr _ \<Rightarrow> committed_together C u offsets (sn_log s) (sn_log s')
    | Inl e \<Rightarrow> pt_committed (transactions (sn_log s')) = pt_committed (transactions (sn_log s))"
proof -
  let ?taken = "thenE (ksink_write E retry C u) (if flush then ksink_flush E retry C else returnE ())"
  let ?rest = "thenE (send_offsets_to_transaction E C (fst offsets) (snd offsets)) (commit_transaction E retry C)"
  have body: "transaction_body (kafka_base_sink E retry C) (kafka_transaction_methods E retry C) flush offsets u = thenE ?taken ?rest"
    by (simp add: transaction_body_def kafka_base_sink_def kafka_transaction_methods_def thenE_def bindE_assoc case_prod_unfold)
  obtain s1 z where w: "?taken s = (s1, z)" by (cases "?taken s")
  note W = written_record [OF L assms(2,3) w]
  have same1: "same_transactions (sn_log s) (sn_log s1)" using data_step_transactions [OF W(1)] .
  show ?thesis
  proof (cases z)
    case (Inl e)
    then have "r = Inl e" "s' = s1" using run w thenE_run [of ?taken ?rest s] unfolding body by simp_all
    then show ?thesis using same1 by (simp add: same_transactions_def)
  next
    case (Inr x)
    then have rest: "?rest s1 = (s', r)" using run w thenE_run [of ?taken ?rest s] unfolding body by simp
    obtain s2 y where o: "send_offsets_to_transaction E C (fst offsets) (snd offsets) s1 = (s2, y)" by fastforce
    from o show ?thesis
    proof (cases rule: offsets_cases)
      case (raised e)
      then have "r = Inl e" "s' = s2" using rest o by (simp_all add: thenE_def bindE_def)
      then show ?thesis using same_transactions_trans [OF same1 raised(2)] by (simp add: same_transactions_def)
    next
      case returned
      let ?k = "length (sn_log s1)"
      have c: "commit_transaction E retry C s2 = (s', r)" using rest o returned by (simp add: thenE_def bindE_def)
      obtain ns where ns: "pt_open (transactions (sn_log s1)) = Some ns"
        "\<forall>d. sent (sn_log s1) d \<and> length (sn_log s) \<le> dv_handle d \<longrightarrow> dv_handle d \<in> set ns"
        using grows_extends_open [of "sn_log s" "sn_log s1"] W(1) assms(4) by (auto simp: extends_open_def opened_def data_step_def)
      have t2: "pt_open (transactions (sn_log s2)) = Some (ns @ [?k])" "same_transactions (sn_log s) (sn_log s2)"
        using returned(2) ns(1) same1 by (simp_all add: same_transactions_def)
      have a1: "accounted C (length (sn_log s)) [u] s1" using W(2) Inr by simp
      have a2: "accounted C (length (sn_log s)) [u] s2" by (rule accounted_append [OF a1]) (simp_all add: returned(2))
      from c show ?thesis
      proof (cases rule: commit_cases [OF L, consumes 1, case_names returned raised doubtful])
        case (raised e)
        then show ?thesis using same_transactions_trans [OF t2(2) raised(2)] by (simp add: same_transactions_def)
      next
        case (doubtful e l)
        then show ?thesis using same_transactions_trans [OF t2(2) same_transactions_grows [OF doubtful(2)]] by (simp add: same_transactions_def)
      next
        case (returned l)
        obtain x where x: "pt_open (transactions l) = Some (ns @ [?k] @ x)" "same_transactions (sn_log s) l"
          "\<forall>d. sent l d \<and> length (sn_log s2) \<le> dv_handle d \<longrightarrow> dv_handle d \<in> set x"
          using grows_extends_open [OF returned(2)] t2 same_transactions_trans [OF t2(2) same_transactions_grows [OF returned(2)]]
          by (auto simp: extends_open_def opened_def)
        have prefix: "\<exists>y. sn_log s' = sn_log s2 @ y" "\<exists>y. sn_log s2 = sn_log s1 @ y"
          using returned(2,3) \<open>s2 = _\<close> by (auto simp: log_grows_def)
        obtain d where d: "wire_message C u = Inr (dv_message d)" "length (sn_log s) \<le> dv_handle d" "acknowledged (sn_log s') d"
          using accounted_settled [OF returned(4) [OF a2] returned(5)] by auto
        have sl: "sent l d" using d(3) returned(3) by (auto simp: acknowledged_def sent_def nth_append less_Suc_eq split: if_splits)
        have "dv_handle d \<in> set (ns @ [?k] @ x)"
        proof (cases "dv_handle d < ?k")
          case True
          then have "sent (sn_log s1) d" using d(3) prefix by (auto simp: acknowledged_def sent_def nth_append)
          then show ?thesis using ns(2) d(2) by auto
        next
          case False
          then show ?thesis using x(3) sl \<open>s2 = _\<close> by (cases "dv_handle d = ?k") auto
        qed
        moreover have "sn_log s' ! ?k = (SendOffsets (fst offsets) (snd offsets), True)" "?k < length (sn_log s')"
          using prefix(1) \<open>s2 = _\<close> by (auto simp: nth_append)
        moreover have "transactions (sn_log s') = transaction_call (transactions l) (length l, CommitTransaction, True)"
          using returned(3) by simp
        ultimately show ?thesis using returned(1) x(1,2) d
          by (auto simp: committed_together_def same_transactions_def opened_def intro!: exI [of _ "ns @ [?k] @ x"] exI [of _ d] exI [of _ ?k])
      qed
    qed
  qed
qed

lemma transaction_outcome:
  assumes L: "retry_law retry" and "sn_producer q" "sn_pending_acks q = []"
    and run: "run_transaction (kafka_base_sink E retry C) (kafka_transaction_methods E retry C) flush offsets u q = (q', r)"
  shows "appends q q'"
    "case r of Inr _ \<Rightarrow> committed_together C u offsets (sn_log q) (sn_log q')
     | Inl e \<Rightarrow> pt_committed (transactions (sn_log q')) = pt_committed (transactions (sn_log q))"
proof -
  let ?body = "transaction_body (kafka_base_sink E retry C) (kafka_transaction_methods E retry C) flush offsets u"
  have ba: "preserves appends ?body"
    unfolding transaction_body_def
    by (intro app.seq) (simp_all add: kafka_base_sink_def kafka_transaction_methods_def case_prod_unfold method_appends L
        data_step_appends [OF write_step] data_step_appends [OF ksink_flush_step] app.return)
  have ta: "preserves appends (tryE ?body (\<lambda>e. if runtime_cancelled e then raiseE e else thenE (tx_abort (kafka_transaction_methods E retry C)) (raiseE e)))"
    by (rule preserves_try [OF app.trans ba]) (simp add: app.raise app.seq method_appends kafka_transaction_methods_def)
  have "preserves appends (run_transaction (kafka_base_sink E retry C) (kafka_transaction_methods E retry C) flush offsets u)"
    unfolding run_transaction_def by (rule app.seq [OF _ ta]) (simp add: kafka_transaction_methods_def method_appends)
  then show "appends q q'" using run by (rule preservesD)
  show "case r of Inr _ \<Rightarrow> committed_together C u offsets (sn_log q) (sn_log q')
     | Inl e \<Rightarrow> pt_committed (transactions (sn_log q')) = pt_committed (transactions (sn_log q))"
  proof -
    obtain q1 z where b: "begin_transaction E C q = (q1, z)" by (cases "begin_transaction E C q")
    from b show ?thesis
    proof (cases rule: begin_cases)
      case (raised e)
      then have "r = Inl e" "q' = q1" using run b by (simp_all add: run_transaction_def kafka_transaction_methods_def thenE_def bindE_def)
      then show ?thesis using raised by (simp add: same_transactions_def)
    next
      case returned
      have o: "pt_open (transactions (sn_log q1)) = Some []" "same_transactions (sn_log q) (sn_log q1)" "sn_producer q1" "sn_pending_acks q1 = []"
        using returned assms(2,3) by (simp_all add: same_transactions_def)
      obtain q2 y where t: "?body q1 = (q2, y)" by (cases "?body q1")
      note B = transaction_body_outcome [OF L o(3,4,1) t]
      show ?thesis
      proof (cases y)
        case (Inr x)
        then have "r = Inr ()" "q' = q2" using run b t returned(1)
          by (simp_all add: run_transaction_def kafka_transaction_methods_def thenE_def bindE_def tryE_def)
        then show ?thesis using B Inr o(2) by (simp add: committed_together_def same_transactions_def)
      next
        case (Inl e)
        have "(\<exists>e'. r = Inl e') \<and> same_transactions (sn_log q2) (sn_log q')"
        proof (cases "runtime_cancelled e")
          case True
          then show ?thesis using run b t returned(1) Inl
            by (auto simp add: run_transaction_def kafka_transaction_methods_def thenE_def bindE_def tryE_def)
        next
          case False
          obtain q3 w where a: "abort_transaction E C q2 = (q3, w)" by (cases "abort_transaction E C q2")
          then show ?thesis using run b t returned(1) Inl False abort_outcome [OF a]
            by (cases w) (auto simp: run_transaction_def kafka_transaction_methods_def thenE_def bindE_def tryE_def)
        qed
        then show ?thesis using B Inl o(2) by (auto simp: same_transactions_def)
      qed
    qed
  qed
qed

text \<open>
  C3: a transactional delivery hands over the record and its offset together.  When the runtime's delivery returns, the
  message of the record and the offset after the source's message are in one committed transaction, and the source has
  marked the offset as committed; when it raises, nothing is committed and the source is unchanged, unless a commit was
  tried whose call raised.
\<close>

theorem transactional_delivery_atomic:
  assumes "retry_law retry" "sn_producer q" "sn_pending_acks q = []"
    and "ro_transactional opts" "active_hook (src_delivery s) = Some hook"
    and run: "runtime_deliver cfg K (kafka_base_sink E retry C) opts record (s, q) = ((s', q'), r)"
  shows "case r of
      Inr u \<Rightarrow> outbound_record opts (current_delivery_context (src_delivery s)) record = Inr u \<and>
          committed_together C u (offsets_hook cfg hook) (sn_log q) (sn_log q') \<and> s' = committed_hook cfg hook s
    | Inl e \<Rightarrow> s' = s \<and> pt_committed (transactions (sn_log q')) = pt_committed (transactions (sn_log q)) \<and>
          (\<exists>x. sn_log q' = sn_log q @ x \<and>
             (pt_doubtful (transactions (sn_log q')) = pt_doubtful (transactions (sn_log q)) \<or> (CommitTransaction, False) \<in> set x))"
proof (cases "outbound_record opts (current_delivery_context (src_delivery s)) record")
  case (Inl e)
  then have "s' = s" "q' = q" "r = Inl e" using run by (simp_all add: runtime_deliver_def)
  then show ?thesis by simp
next
  case (Inr u)
  let ?T = "kafka_transaction_methods E retry C" and ?S = "kafka_base_sink E retry C" and ?o = "offsets_hook cfg hook"
  obtain z where t: "run_transaction ?S ?T (ro_flush opts) ?o u q = (q', z)"
    and out: "(s', r) = (case z of Inl e \<Rightarrow> (s, Inl e) | Inr _ \<Rightarrow> (committed_hook cfg hook s, Inr u))"
    using run Inr assms(4,5)
    by (auto simp: runtime_deliver_def deliver_with_transactional_offsets_def kafka_base_sink_def split: prod.splits sum.splits)
  note T = transaction_outcome [OF assms(1-3) t]
  show ?thesis
  proof (cases z)
    case z: (Inl e)
    obtain x where "sn_log q' = sn_log q @ x" using T(1) by (auto simp: appends_def)
    then show ?thesis using T(2) z out doubt_needs_failed_commit [of x "sn_log q"] by (cases "(CommitTransaction, False) \<in> set x") auto
  next
    case z: (Inr x)
    then show ?thesis using T(2) out Inr by simp
  qed
qed

section \<open>Instances\<close>

text \<open>Records are bytes handed on as they are; partition 7 cannot be deserialised.\<close>

definition relay_options :: "bool \<Rightarrow> (bytes, bytes, unit) runtime_options" where
  "relay_options transactional =
     \<lparr>ro_transform = Inr, ro_flush = True, ro_metadata_field = None, ro_key_field = None, ro_transactional = transactional,
      ro_max_records = None, ro_mapping = (\<lambda>_. None), ro_of_mapping = (\<lambda>_. []), ro_context_value = (\<lambda>_. ()), ro_key_value = (\<lambda>_. ())\<rparr>"

definition relayed_bytes :: "kafka_message \<Rightarrow> message_metadata \<Rightarrow> bytes result" where
  "relayed_bytes m md = (if m_partition m = 7 then Inl (ValueError ''bad payload'') else Inr [word_of_int (m_offset m)])"

definition relayed_deserialize :: "bytes deserializers" where
  "relayed_deserialize = \<lparr>ds_single = relayed_bytes, ds_batch = None\<rparr>"

abbreviation relay_sink :: "(bytes, kafka_sink) base_sink" where
  "relay_sink \<equiv> kafka_base_sink first_delivery_fails two_attempts sample_sink_config"

lemma sample_relayed:
  "map_option (\<lambda>((s, q), r). (committable_offsets (src_cursor s), src_consumer s, r))
     (drain_to sample_config queue_consumer sample_sink relayed_deserialize relay_sink (relay_options False) queue_fetch 10
        (queue_source, open_sink)) =
   Some ([(TopicPartition ''t'' 0, 4), (TopicPartition ''t'' 1, 9)],
     Some ([], [[(TopicPartition ''t'' 0, 5)], [(TopicPartition ''t'' 0, 5), (TopicPartition ''t'' 1, 10)]], sample_batches),
     Inl (Exn ''SourceRecordError'' [''Exception''] ''bad payload''))"
  by code_simp

theorem committable_offsets_are_forwarded_witness:
  "\<exists>s' q' e.
     drain_to sample_config queue_consumer sample_sink relayed_deserialize relay_sink (relay_options False) queue_fetch 10
       (queue_source, open_sink) = Some ((s', q'), Inl e) \<and>
     committable_offsets (src_cursor s') = [(TopicPartition ''t'' 0, 4), (TopicPartition ''t'' 1, 9)] \<and>
     list_all (message_forwarded sample_config relayed_deserialize (relay_options False) FAIL_CLOSED sample_sink_config q')
       [([sample_message 0 4], 0), ([sample_message 1 9, sample_message 7 2], 0)]"
proof -
  obtain s' q' e where run: "drain_to sample_config queue_consumer sample_sink relayed_deserialize relay_sink (relay_options False) queue_fetch 10
       (queue_source, open_sink) = Some ((s', q'), Inl e)"
    and off: "committable_offsets (src_cursor s') = [(TopicPartition ''t'' 0, 4), (TopicPartition ''t'' 1, 9)]"
    and c: "src_consumer s' = Some ([], [[(TopicPartition ''t'' 0, 5)], [(TopicPartition ''t'' 0, 5), (TopicPartition ''t'' 1, 10)]], sample_batches)"
    using sample_relayed by auto
  have q: "sn_producer open_sink" "sn_pending_acks open_sink = []" by (simp_all add: open_sink_def kafka_sink_init_def)
  have opts: "ro_flush (relay_options False)" "\<not> ro_transactional (relay_options False)" by (simp_all add: relay_options_def)
  have begins: "fst (stream_start queue_consumer queue_source) =
      (if wants_more (relay_options False) 0 then fst (stream_start queue_consumer queue_source) else queue_source)"
    by (simp add: wants_more_def relay_options_def)
  obtain k batches where k: "sample_batches = batches" "k \<le> length (concat batches)"
    "dict_get (committable_offsets (src_cursor s')) = prefix_committable Map.empty (concat batches) k"
    "list_all (message_forwarded sample_config relayed_deserialize (relay_options False) FAIL_CLOSED sample_sink_config q') (take k (positions batches))"
    using committable_offsets_are_forwarded [OF two_attempts_law q queue_source_start(1) begins queue_source_start(3)
        queue_client_log opts refl run] c
    by (auto simp: queue_source_start(2,4))
  have "k \<le> 3" using k(2) [folded k(1)] by (simp add: sample_batches_def)
  then have "k = 2" by (rule two_of_three [OF _ k(3) [unfolded off, folded k(1)]])
  then show ?thesis using run off k(1,4) by (auto simp: sample_batches_def numeral_2_eq_2)
qed

definition started_source :: "(offset_map list, unit) kafka_source" where
  "started_source = fst (start_delivery ''in'' 0 4 (message_metadata sample_config (sample_message 0 4) 1 0) (sample_source FAIL_CLOSED []))"

definition relayed :: "((offset_map list, unit) kafka_source \<times> kafka_sink) \<times> bytes result" where
  "relayed = runtime_deliver sample_config logging_consumer (kafka_base_sink first_delivery_fails two_attempts sample_sink_config)
     (relay_options True) [4] (started_source, open_sink)"

lemma relayed_returns: "snd relayed = Inr [4]"
  by code_simp

definition started_hook :: delivery_hook where
  "started_hook = snd (start_delivery ''in'' 0 4 (message_metadata sample_config (sample_message 0 4) 1 0) (sample_source FAIL_CLOSED ([] :: offset_map list)))"

theorem transactional_delivery_atomic_witness:
  "committed_together sample_sink_config [4] (offsets_hook sample_config started_hook) [] (sn_log (snd (fst relayed)))"
proof -
  have run: "runtime_deliver sample_config logging_consumer (kafka_base_sink first_delivery_fails two_attempts sample_sink_config)
     (relay_options True) [4] (started_source, open_sink) = ((fst (fst relayed), snd (fst relayed)), Inr [4])"
    using relayed_returns by (simp add: relayed_def prod_eq_iff)
  have "active_hook (src_delivery started_source) = Some started_hook"
    by (simp add: started_source_def started_hook_def start_delivery_def Let_def)
  from transactional_delivery_atomic [OF two_attempts_law _ _ _ this run]
  show ?thesis by (simp add: open_sink_def kafka_sink_init_def relay_options_def)
qed

end
