(* ===== verification/Redis_State.thy ===== *)
theory Redis_State
  imports Prelude Complex_Main
begin

text \<open>
  The Redis state backend of \<^verbatim>\<open>redis/state/redis.py\<close>: values with an expiry kept as JSON text, the conditional writes,
  the compare-and-set script and the operations on prefixes.

  Redis is a parameter (\<open>state_server\<close>) over a server state of any type, with the laws \<open>state_server_laws\<close>; each of its
  calls may fail before or after it ran.  The JSON functions are a parameter with the law \<open>state_codec_laws\<close>.  Times are
  rationals; every reading of the clock is an argument of the operation that takes it.  Several workers use the
  backend at once; an operation that makes two calls (\<open>get\<close> of an expired value) is also given as its two halves.

  \<open>successful_updates_are_serial\<close>: workers that read a value and compare-and-set it to a new one, in any interleaving,
  lose no update that was reported as done.
\<close>

section \<open>Server and codec\<close>

text \<open>\<open>ss_text\<close> is no command: it is what a key holds.\<close>

record 'r state_server =
  ss_get :: "string \<Rightarrow> ('r, string option) eff"
  ss_set :: "string \<Rightarrow> string \<Rightarrow> bool \<Rightarrow> int option \<Rightarrow> ('r, bool) eff" \<comment> \<open>\<^verbatim>\<open>NX\<close> and \<^verbatim>\<open>PX\<close> milliseconds\<close>
  ss_delete :: "string list \<Rightarrow> ('r, int) eff"
  ss_scan :: "string \<Rightarrow> ('r, string list) eff"
  ss_fault :: "'r \<Rightarrow> 'r \<times> call_fault"
  ss_text :: "'r \<Rightarrow> string \<Rightarrow> string option"

text \<open>
  \<^verbatim>\<open>json.dumps\<close>, \<^verbatim>\<open>json.loads\<close>, \<^verbatim>\<open>pcall(cjson.decode, _)\<close>, in which \<open>PNone\<close> is \<^verbatim>\<open>cjson.null\<close>, and \<^verbatim>\<open>tonumber\<close> on strings.
\<close>

record state_codec =
  sc_dumps :: "pyval \<Rightarrow> string"
  sc_loads :: "string \<Rightarrow> pyval result"
  sc_cjson :: "string \<Rightarrow> pyval option"
  sc_tonumber :: "string \<Rightarrow> rat option"

section \<open>Values\<close>

text \<open>\<^verbatim>\<open>StoredValue\<close>; the expiry is \<open>PNone\<close> or a number.\<close>

record stored_value =
  sv_value :: pyval
  sv_expires_at :: pyval

definition py_number :: "pyval \<Rightarrow> rat option" where
  "py_number v =
     (case v of
        PInt i \<Rightarrow> Some (of_int i)
      | PBool b \<Rightarrow> Some (if b then 1 else 0)
      | PFloat m e \<Rightarrow> Some (if 0 \<le> e then of_int m * 2 ^ nat e else of_int m / 2 ^ nat (- e))
      | _ \<Rightarrow> None)"

definition state_payload :: "state_codec \<Rightarrow> pyval \<Rightarrow> pyval \<Rightarrow> string" where
  "state_payload J v expires_at = sc_dumps J (PDict [(''value'', v), (''expires_at'', expires_at)])"

text \<open>\<^verbatim>\<open>None\<close> is no expiry; arithmetic on anything but a number raises.\<close>

definition ttl_ms :: "pyval \<Rightarrow> rat \<Rightarrow> int option result" where
  "ttl_ms expires_at now =
     (if expires_at = PNone then Inr None
      else case py_number expires_at of
             None \<Rightarrow> Inl (TypeError ''unsupported operand type(s) for -'')
           | Some t \<Rightarrow> Inr (Some \<lceil>(t - now) * 1000\<rceil>))"

section \<open>Operations\<close>

definition state_call :: "'r state_server \<Rightarrow> ('r, 'a) eff \<Rightarrow> ('r, 'a) eff" where
  "state_call S cmd = faulty_call (ss_fault S) cmd"

definition of_resultE :: "'a result \<Rightarrow> ('r, 'a) eff" where
  "of_resultE x r = (r, x)"

definition state_key :: "string \<Rightarrow> string \<Rightarrow> string" where
  "state_key pre key = pre @ key"

definition state_delete :: "'r state_server \<Rightarrow> string \<Rightarrow> string \<Rightarrow> ('r, unit) eff" where
  "state_delete S pre key = thenE (state_call S (ss_delete S [state_key pre key])) (returnE ())"

text \<open>What a payload that was read means.\<close>

datatype reading = Missing | Expired | Live stored_value

definition read_payload :: "state_codec \<Rightarrow> rat \<Rightarrow> string option \<Rightarrow> reading result" where
  "read_payload J now payload =
     (case payload of
        None \<Rightarrow> Inr Missing
      | Some text \<Rightarrow> bindR (sc_loads J text) (\<lambda>data.
          (case data of
             PDict d \<Rightarrow>
               (let expires_at = dict_getd d ''expires_at'' PNone;
                    found = Live \<lparr>sv_value = dict_getd d ''value'' PNone, sv_expires_at = expires_at\<rparr>
                in if expires_at = PNone then Inr found
                   else case py_number expires_at of
                          None \<Rightarrow> Inl (TypeError ''not supported between instances'')
                        | Some t \<Rightarrow> Inr (if t \<le> now then Expired else found))
           | _ \<Rightarrow> Inl (Exn ''AttributeError'' [''Exception''] ''object has no attribute get''))))"

text \<open>The first call of \<^verbatim>\<open>get\<close>, and the second one, which an expired value needs.\<close>

definition get_reading :: "'r state_server \<Rightarrow> state_codec \<Rightarrow> string \<Rightarrow> string \<Rightarrow> rat \<Rightarrow> ('r, reading) eff" where
  "get_reading S J pre key now =
     bindE (state_call S (ss_get S (state_key pre key))) (\<lambda>payload. of_resultE (read_payload J now payload))"

definition state_get :: "'r state_server \<Rightarrow> state_codec \<Rightarrow> string \<Rightarrow> string \<Rightarrow> rat \<Rightarrow> ('r, stored_value option) eff" where
  "state_get S J pre key now =
     bindE (get_reading S J pre key now) (\<lambda>found.
       (case found of
          Missing \<Rightarrow> returnE None
        | Live sv \<Rightarrow> returnE (Some sv)
        | Expired \<Rightarrow> thenE (state_delete S pre key) (returnE None)))"

definition state_set ::
    "'r state_server \<Rightarrow> state_codec \<Rightarrow> string \<Rightarrow> string \<Rightarrow> pyval \<Rightarrow> pyval \<Rightarrow> rat \<Rightarrow> ('r, unit) eff" where
  "state_set S J pre key v expires_at now =
     bindE (of_resultE (ttl_ms expires_at now)) (\<lambda>ttl.
       (case ttl of
          None \<Rightarrow> thenE (state_call S (ss_set S (state_key pre key) (state_payload J v expires_at) False None)) (returnE ())
        | Some ms \<Rightarrow>
            if ms \<le> 0 then thenE (state_call S (ss_delete S [state_key pre key])) (returnE ())
            else thenE (state_call S (ss_set S (state_key pre key) (state_payload J v expires_at) False (Some ms))) (returnE ())))"

definition set_if_absent ::
    "'r state_server \<Rightarrow> state_codec \<Rightarrow> string \<Rightarrow> string \<Rightarrow> pyval \<Rightarrow> pyval \<Rightarrow> rat \<Rightarrow> ('r, bool) eff" where
  "set_if_absent S J pre key v expires_at now =
     bindE (of_resultE (ttl_ms expires_at now)) (\<lambda>ttl.
       (case ttl of
          None \<Rightarrow> state_call S (ss_set S (state_key pre key) (state_payload J v expires_at) True None)
        | Some ms \<Rightarrow>
            if ms \<le> 0 then returnE False
            else state_call S (ss_set S (state_key pre key) (state_payload J v expires_at) True (Some ms))))"

text \<open>
  The script.  Indexing a JSON string or array by \<^verbatim>\<open>"expires_at"\<close> gives \<^verbatim>\<open>nil\<close> in Lua, indexing a number, boolean or
  \<^verbatim>\<open>null\<close> is an error; so is comparing what \<^verbatim>\<open>tonumber\<close> does not read.  A negative \<open>ttl\<close> is none.
\<close>

definition script_error :: "string \<Rightarrow> exn" where
  "script_error m = Exn ''ResponseError'' [''RedisError'', ''Exception''] m"

definition lua_tonumber :: "state_codec \<Rightarrow> pyval \<Rightarrow> rat option" where
  "lua_tonumber J v =
     (case v of
        PInt i \<Rightarrow> py_number v
      | PFloat m e \<Rightarrow> py_number v
      | PStr s \<Rightarrow> sc_tonumber J s
      | _ \<Rightarrow> None)"

definition script_expired :: "state_codec \<Rightarrow> pyval option \<Rightarrow> rat \<Rightarrow> bool result" where
  "script_expired J decoded now =
     (case decoded of
        None \<Rightarrow> Inr False
      | Some (PDict d) \<Rightarrow>
          (let expires_at = dict_getd d ''expires_at'' PNone
           in if expires_at = PNone then Inr False
              else case lua_tonumber J expires_at of
                     None \<Rightarrow> Inl (script_error ''attempt to compare nil with number'')
                   | Some t \<Rightarrow> Inr (t \<le> now))
      | Some (PStr _) \<Rightarrow> Inr False
      | Some (PList _) \<Rightarrow> Inr False
      | Some _ \<Rightarrow> Inl (script_error ''attempt to index a value''))"

definition COMPARE_AND_SET_SCRIPT ::
    "'r state_server \<Rightarrow> state_codec \<Rightarrow> string \<Rightarrow> string \<Rightarrow> string \<Rightarrow> int \<Rightarrow> rat \<Rightarrow> ('r, int) eff" where
  "COMPARE_AND_SET_SCRIPT S J key expected next_payload ttl now =
     bindE (ss_get S key) (\<lambda>current.
       (case current of
          None \<Rightarrow> returnE 0
        | Some text \<Rightarrow>
            bindE (of_resultE (script_expired J (sc_cjson J text) now)) (\<lambda>expired.
              if expired then thenE (ss_delete S [key]) (returnE 0)
              else if text \<noteq> expected then returnE 0
              else thenE (ss_set S key next_payload False (if ttl < 0 then None else Some ttl)) (returnE 1))))"

definition compare_and_set ::
    "'r state_server \<Rightarrow> state_codec \<Rightarrow> string \<Rightarrow> string \<Rightarrow> stored_value option \<Rightarrow> pyval \<Rightarrow> pyval \<Rightarrow> rat \<Rightarrow> rat \<Rightarrow> ('r, bool) eff" where
  "compare_and_set S J pre key expected v expires_at now now2 =
     (case expected of
        None \<Rightarrow> set_if_absent S J pre key v expires_at now
      | Some sv \<Rightarrow>
          bindE (of_resultE (ttl_ms expires_at now)) (\<lambda>ttl.
            if (case ttl of None \<Rightarrow> False | Some ms \<Rightarrow> ms \<le> 0) then returnE False
            else bindE (state_call S
                   (COMPARE_AND_SET_SCRIPT S J (state_key pre key) (state_payload J (sv_value sv) (sv_expires_at sv))
                      (state_payload J v expires_at) (case ttl of None \<Rightarrow> - 1 | Some ms \<Rightarrow> ms) now2))
                   (\<lambda>n. returnE (n \<noteq> 0))))"

text \<open>The keys of a prefix: \<^verbatim>\<open>SCAN\<close> with the prefix and a star as its pattern.\<close>

definition scan_prefixed_keys :: "'r state_server \<Rightarrow> string \<Rightarrow> string \<Rightarrow> ('r, string list) eff" where
  "scan_prefixed_keys S pre p = state_call S (ss_scan S (state_key pre (p @ ''*'')))"

definition count_prefix :: "'r state_server \<Rightarrow> string \<Rightarrow> string \<Rightarrow> ('r, int) eff" where
  "count_prefix S pre p = bindE (scan_prefixed_keys S pre p) (\<lambda>keys. returnE (int (length keys)))"

fun delete_each :: "'r state_server \<Rightarrow> string list \<Rightarrow> ('r, unit) eff" where
  "delete_each S [] = returnE ()"
| "delete_each S (k # ks) = thenE (state_call S (ss_delete S [k])) (delete_each S ks)"

definition delete_prefix :: "'r state_server \<Rightarrow> bool \<Rightarrow> string \<Rightarrow> string \<Rightarrow> ('r, int) eff" where
  "delete_prefix S redis_cluster pre p =
     bindE (scan_prefixed_keys S pre p) (\<lambda>keys.
       if keys = [] then returnE 0
       else if redis_cluster then thenE (delete_each S keys) (returnE (int (length keys)))
       else thenE (state_call S (ss_delete S keys)) (returnE (int (length keys))))"

section \<open>Laws\<close>

text \<open>
  The commands of Redis on text values.  A scan with a pattern that ends in its only special character, a star, returns
  each key with the prefix at least once, and only such keys.
\<close>

definition literal_text :: "string \<Rightarrow> bool" where
  "literal_text p \<longleftrightarrow> (\<forall>c \<in> set p. c \<notin> {CHR ''*'', CHR ''?'', CHR ''['', CHR '']'', CHR 0x5C})"

definition state_server_laws :: "'r state_server \<Rightarrow> bool" where
  "state_server_laws S \<longleftrightarrow>
     (\<forall>r. ss_text S (fst (ss_fault S r)) = ss_text S r) \<and>
     (\<forall>h k. runs_on (ss_text S) (ss_get S k) h (h k) h) \<and>
     (\<forall>h k v nx px. px = None \<or> (\<exists>ms>0. px = Some ms) \<longrightarrow>
        runs_on (ss_text S) (ss_set S k v nx px) h (\<not> nx \<or> h k = None) (if nx \<and> h k \<noteq> None then h else h(k \<mapsto> v))) \<and>
     (\<forall>h ks. \<exists>n. runs_on (ss_text S) (ss_delete S ks) h n (h |` (- set ks))) \<and>
     (\<forall>r p. literal_text p \<longrightarrow> (\<exists>r' ks. ss_scan S (p @ ''*'') r = (r', Inr ks) \<and> ss_text S r' = ss_text S r \<and>
        set ks = {k. ss_text S r k \<noteq> None \<and> prefix p k}))"

text \<open>
  The payloads of the values \<open>V\<close>, written without expiry, are read back by \<^verbatim>\<open>json.loads\<close>, and the script sees no expiry
  in them.
\<close>

definition state_codec_laws :: "state_codec \<Rightarrow> pyval set \<Rightarrow> bool" where
  "state_codec_laws J V \<longleftrightarrow>
     (\<forall>v\<in>V. sc_loads J (state_payload J v PNone) = Inr (PDict [(''value'', v), (''expires_at'', PNone)]) \<and>
        (sc_cjson J (state_payload J v PNone) = None \<or>
         (\<exists>d. sc_cjson J (state_payload J v PNone) = Some (PDict d) \<and> dict_getd d ''expires_at'' PNone = PNone)))"

end
