(* ===== verification/Redis_State_Updates.thy ===== *)
theory Redis_State_Updates
  imports Redis_State
begin

text \<open>
  What the Redis state backend promises to workers that share it.

  \<^item> Updates by \<^verbatim>\<open>get\<close> and \<^verbatim>\<open>compare_and_set\<close>, in any interleaving and with lost requests and replies, are as if done one
    after the other: \<open>successful_updates_are_serial\<close>.
  \<^item> \<^verbatim>\<open>delete_prefix\<close> removes the keys of a literal prefix and no other.
  \<^item> \<^verbatim>\<open>get\<close> of an expired value deletes the key whatever it holds by then.
\<close>

section \<open>Calls\<close>

lemma server_laws:
  assumes "state_server_laws S"
  shows "ss_text S (fst (ss_fault S r)) = ss_text S r" "runs_on (ss_text S) (ss_get S k) h (h k) h"
    "px = None \<or> (\<exists>ms>0. px = Some ms) \<Longrightarrow>
       runs_on (ss_text S) (ss_set S k v nx px) h (\<not> nx \<or> h k = None) (if nx \<and> h k \<noteq> None then h else h(k \<mapsto> v))"
    "\<exists>n. runs_on (ss_text S) (ss_delete S ks) h n (h |` (- set ks))"
  using assms unfolding state_server_laws_def by blast+

lemma of_resultE_bind: "bindE (of_resultE (Inr a)) g = g a"
  by (rule ext) (simp add: of_resultE_def bindE_def)

text \<open>A call that is run on a server where the text is \<open>h\<close>: it returns and leaves \<open>h'\<close>, or raises, done or not.\<close>

lemma state_call_runs:
  assumes "state_server_laws S" "runs_on (ss_text S) m (ss_text S r) a h'" "state_call S m r = (r', x)"
  shows "(x = Inr a \<and> ss_text S r' = h') \<or> ((\<exists>e. x = Inl e) \<and> (ss_text S r' = ss_text S r \<or> ss_text S r' = h'))"
  using runs_on_faulty [of "ss_text S" "ss_fault S", OF server_laws(1) [OF assms(1)] assms(2)] assms(3)
  by (simp add: state_call_def)

section \<open>Updates\<close>

text \<open>
  Workers update one key: each reads it, keeps what it found, and offers a new value computed from it.  \<open>up_reported\<close> are
  the workers whose \<^verbatim>\<open>compare_and_set\<close> returned \<^verbatim>\<open>True\<close>, \<open>up_failed\<close> those whose \<^verbatim>\<open>compare_and_set\<close> raised, in the order
  of the calls.
\<close>

record ('r, 'w) updates =
  up_server :: 'r
  up_found :: "'w \<Rightarrow> reading option"
  up_reported :: "'w list"
  up_failed :: "'w list"

definition expected_value :: "reading \<Rightarrow> stored_value option" where
  "expected_value g = (case g of Live sv \<Rightarrow> Some sv | _ \<Rightarrow> None)"

inductive update_step ::
    "'r state_server \<Rightarrow> state_codec \<Rightarrow> string \<Rightarrow> string \<Rightarrow> ('w \<Rightarrow> pyval option \<Rightarrow> pyval) \<Rightarrow> ('r, 'w) updates \<Rightarrow> ('r, 'w) updates \<Rightarrow> bool"
  for S J pre key f where
  read: "\<lbrakk>up_found x w = None; get_reading S J pre key now (up_server x) = (r', z);
      x' = x\<lparr>up_server := r', up_found := (up_found x)(w := (case z of Inl e \<Rightarrow> None | Inr g \<Rightarrow> Some g))\<rparr>\<rbrakk> \<Longrightarrow>
    update_step S J pre key f x x'"
| expire: "\<lbrakk>up_found x w = Some Expired; state_delete S pre key (up_server x) = (r', z);
      x' = x\<lparr>up_server := r', up_found := (up_found x)(w := (case z of Inl e \<Rightarrow> None | Inr _ \<Rightarrow> Some Missing))\<rparr>\<rbrakk> \<Longrightarrow>
    update_step S J pre key f x x'"
| update: "\<lbrakk>up_found x w = Some g; g \<noteq> Expired;
      compare_and_set S J pre key (expected_value g) (f w (map_option sv_value (expected_value g))) PNone now later (up_server x) = (r', z);
      x' = x\<lparr>up_server := r', up_found := (up_found x)(w := None),
             up_reported := up_reported x @ (if z = Inr True then [w] else []),
             up_failed := up_failed x @ (case z of Inl e \<Rightarrow> [w] | Inr _ \<Rightarrow> [])\<rparr>\<rbrakk> \<Longrightarrow>
    update_step S J pre key f x x'"
| elsewhere: "\<lbrakk>ss_text S r' (state_key pre key) = ss_text S (up_server x) (state_key pre key); x' = x\<lparr>up_server := r'\<rparr>\<rbrakk> \<Longrightarrow>
    update_step S J pre key f x x'"

text \<open>The value after updates done one after the other.\<close>

definition updated :: "('w \<Rightarrow> pyval option \<Rightarrow> pyval) \<Rightarrow> pyval option \<Rightarrow> 'w list \<Rightarrow> pyval option" where
  "updated f v ws = foldl (\<lambda>v w. Some (f w v)) v ws"

lemma updated_snoc [simp]: "updated f v (ws @ [w]) = Some (f w (updated f v ws))"
  by (simp add: updated_def)

definition closed_updates :: "('w \<Rightarrow> pyval option \<Rightarrow> pyval) \<Rightarrow> pyval set \<Rightarrow> bool" where
  "closed_updates f V \<longleftrightarrow> (\<forall>w. f w None \<in> V) \<and> (\<forall>w. \<forall>v\<in>V. f w (Some v) \<in> V)"

lemma updated_closed: "\<lbrakk>closed_updates f V; set_option v \<subseteq> V\<rbrakk> \<Longrightarrow> set_option (updated f v ws) \<subseteq> V"
proof (induction ws rule: rev_induct)
  case (snoc w ws)
  then show ?case by (cases "updated f v ws") (auto simp: closed_updates_def)
qed (simp add: updated_def)

definition payload_of :: "state_codec \<Rightarrow> pyval option \<Rightarrow> string option" where
  "payload_of J v = map_option (\<lambda>v. state_payload J v PNone) v"

text \<open>What was found are values without expiry, to be written back only where they still are.\<close>

definition found_ok :: "pyval set \<Rightarrow> reading option \<Rightarrow> bool" where
  "found_ok V g \<longleftrightarrow> (case g of None \<Rightarrow> True | Some Missing \<Rightarrow> True | Some Expired \<Rightarrow> False
     | Some (Live sv) \<Rightarrow> sv_expires_at sv = PNone \<and> sv_value sv \<in> V)"

lemma codec_law:
  assumes "state_codec_laws J V" "v \<in> V"
  shows "sc_loads J (state_payload J v PNone) = Inr (PDict [(''value'', v), (''expires_at'', PNone)])"
  using assms unfolding state_codec_laws_def by blast

lemma read_payload_ok:
  assumes "state_codec_laws J V" "set_option v \<subseteq> V" "read_payload J now (payload_of J v) = Inr g"
  shows "found_ok V (Some g)"
proof (cases v)
  case None
  then show ?thesis using assms(3) by (auto simp: read_payload_def payload_of_def found_ok_def)
next
  case (Some u)
  then have u: "u \<in> V" using assms(2) by simp
  note codec_law [OF assms(1) u]
  then show ?thesis using u assms(3) Some by (auto simp: read_payload_def payload_of_def found_ok_def dict_getd_def)
qed

lemma payload_inj:
  assumes "state_codec_laws J V" "v \<in> V" "u \<in> V" "state_payload J v PNone = state_payload J u PNone"
  shows "v = u"
proof -
  have "sc_loads J (state_payload J v PNone) = sc_loads J (state_payload J u PNone)" by (simp only: assms(4))
  then show ?thesis unfolding codec_law [OF assms(1,2)] codec_law [OF assms(1,3)] by simp
qed

lemma script_not_expired:
  assumes "state_codec_laws J V" "v \<in> V"
  shows "script_expired J (sc_cjson J (state_payload J v PNone)) now = Inr False"
  using assms by (auto simp: state_codec_laws_def script_expired_def Let_def)

text \<open>A conditional write on a server where the key holds \<open>v\<close>.\<close>

lemma script_runs:
  assumes laws: "state_server_laws S" "state_codec_laws J V" and h: "h k = payload_of J v" "set_option v \<subseteq> V" "u \<in> V"
  shows "runs_on (ss_text S) (COMPARE_AND_SET_SCRIPT S J k (state_payload J u PNone) next_payload (- 1) now) h
     (if v = Some u then 1 else 0) (if v = Some u then h(k \<mapsto> next_payload) else h)"
  unfolding COMPARE_AND_SET_SCRIPT_def
proof (rule runs_on_bind [OF server_laws(2) [OF laws(1)]])
  let ?rest = "\<lambda>current. (case current of None \<Rightarrow> returnE 0
      | Some text \<Rightarrow> bindE (of_resultE (script_expired J (sc_cjson J text) now)) (\<lambda>expired.
              if expired then thenE (ss_delete S [k]) (returnE 0)
              else if text \<noteq> state_payload J u PNone then returnE 0
              else thenE (ss_set S k next_payload False (if (- 1 :: int) < 0 then None else Some (- 1))) (returnE 1)))"
  show "runs_on (ss_text S) (?rest (h k)) h (if v = Some u then 1 else 0) (if v = Some u then h(k \<mapsto> next_payload) else h)"
  proof (cases v)
    case None
    then show ?thesis using h(1) by (simp add: payload_of_def runs_on_return)
  next
    case (Some w)
    then have w: "w \<in> V" "h k = Some (state_payload J w PNone)" using h by (simp_all add: payload_of_def)
    have same: "state_payload J w PNone = state_payload J u PNone \<longleftrightarrow> w = u"
      using payload_inj [OF laws(2) w(1) h(3)] by blast
    show ?thesis
    proof (cases "w = u")
      case True
      have "runs_on (ss_text S) (thenE (ss_set S k next_payload False None) (returnE 1)) h 1 (h(k \<mapsto> next_payload))"
        by (rule runs_on_then [OF server_laws(3) [OF laws(1)]]) (simp_all add: runs_on_return)
      then show ?thesis using True Some w by (simp add: script_not_expired [OF laws(2)] of_resultE_bind)
    next
      case False
      then show ?thesis using Some w same by (simp add: script_not_expired [OF laws(2)] of_resultE_bind runs_on_def)
    qed
  qed
qed

text \<open>
  A \<^verbatim>\<open>compare_and_set\<close> without expiry on such a server: it returns whether the key held what was expected, and then the
  key holds the new value; one that raises did so or did nothing.
\<close>

lemma compare_and_set_runs:
  assumes laws: "state_server_laws S" "state_codec_laws J V"
    and held: "ss_text S r (state_key pre key) = payload_of J v" "set_option v \<subseteq> V"
    and exp: "case expected of None \<Rightarrow> True | Some sv \<Rightarrow> sv_expires_at sv = PNone \<and> sv_value sv \<in> V"
    and run: "compare_and_set S J pre key expected n PNone now now2 r = (r', z)"
  shows "(z = Inr True \<and> v = map_option sv_value expected \<and> ss_text S r' (state_key pre key) = payload_of J (Some n)) \<or>
    (z = Inr False \<and> v \<noteq> map_option sv_value expected \<and> ss_text S r' (state_key pre key) = payload_of J v) \<or>
    ((\<exists>e. z = Inl e) \<and> (ss_text S r' (state_key pre key) = payload_of J v \<or>
       v = map_option sv_value expected \<and> ss_text S r' (state_key pre key) = payload_of J (Some n)))"
proof (cases expected)
  case None
  let ?k = "state_key pre key" and ?h = "ss_text S r"
  have "state_call S (ss_set S ?k (state_payload J n PNone) True None) r = (r', z)"
    using run None by (simp add: compare_and_set_def set_if_absent_def ttl_ms_def of_resultE_bind)
  moreover have "runs_on (ss_text S) (ss_set S ?k (state_payload J n PNone) True None) ?h (?h ?k = None)
      (if ?h ?k \<noteq> None then ?h else ?h(?k \<mapsto> state_payload J n PNone))"
    using server_laws(3) [OF laws(1), of None ?k "state_payload J n PNone" True ?h] by simp
  ultimately show ?thesis
    using state_call_runs [OF laws(1)] held None by (cases v) (fastforce simp: payload_of_def)+
next
  case (Some sv)
  let ?k = "state_key pre key" and ?h = "ss_text S r"
  have sv: "sv_expires_at sv = PNone" "sv_value sv \<in> V" using exp Some by simp_all
  let ?script = "COMPARE_AND_SET_SCRIPT S J ?k (state_payload J (sv_value sv) PNone) (state_payload J n PNone) (- 1) now2"
  obtain y where c: "state_call S ?script r = (r', y)" and z: "z = (case y of Inl e \<Rightarrow> Inl e | Inr i \<Rightarrow> Inr (i \<noteq> 0))"
    using run Some sv(1) by (auto simp: compare_and_set_def ttl_ms_def of_resultE_bind bindE_def split: prod.splits sum.splits)
  note R = state_call_runs [OF laws(1) script_runs [where h = ?h and k = ?k, OF laws held sv(2)] c]
  show ?thesis
  proof (cases "v = Some (sv_value sv)")
    case True
    then show ?thesis using R z held(1) Some by (auto simp: payload_of_def)
  next
    case False
    then show ?thesis using R z held(1) Some by auto
  qed
qed

section \<open>Interleaved updates\<close>

definition updates_inv ::
    "'r state_server \<Rightarrow> state_codec \<Rightarrow> string \<Rightarrow> ('w \<Rightarrow> pyval option \<Rightarrow> pyval) \<Rightarrow> pyval set \<Rightarrow> pyval option \<Rightarrow> ('r, 'w) updates \<Rightarrow> bool" where
  "updates_inv S J k f V v x \<longleftrightarrow> (\<forall>w. found_ok V (up_found x w)) \<and>
     (\<exists>ws. ss_text S (up_server x) k = payload_of J (updated f v ws) \<and> subseq (up_reported x) ws \<and>
        mset ws \<subseteq># mset (up_reported x) + mset (up_failed x))"

lemma updates_inv_step:
  assumes laws: "state_server_laws S" "state_codec_laws J V" and V: "closed_updates f V" "set_option v \<subseteq> V"
    and "updates_inv S J (state_key pre key) f V v x" "update_step S J pre key f x x'"
  shows "updates_inv S J (state_key pre key) f V v x'"
proof -
  obtain ws where inv: "\<And>w. found_ok V (up_found x w)" "ss_text S (up_server x) (state_key pre key) = payload_of J (updated f v ws)"
    "subseq (up_reported x) ws" "mset ws \<subseteq># mset (up_reported x) + mset (up_failed x)"
    using assms(5) by (auto simp: updates_inv_def)
  from assms(6) show ?thesis
  proof cases
  case (read w now r' z)
  obtain y where y: "state_call S (ss_get S (state_key pre key)) (up_server x) = (r', y)"
    and z: "z = (case y of Inl e \<Rightarrow> Inl e | Inr p \<Rightarrow> read_payload J now p)"
    using read(2) by (auto simp: get_reading_def bindE_def of_resultE_def split: prod.splits sum.splits)
  note R = state_call_runs [OF laws(1) server_laws(2) [OF laws(1)] y]
  have same: "ss_text S r' = ss_text S (up_server x)" using R by blast
  have "found_ok V (case z of Inl e \<Rightarrow> None | Inr g \<Rightarrow> Some g)"
  proof (cases z)
    case (Inl e)
    then show ?thesis by (simp add: found_ok_def)
  next
    case (Inr g)
    then obtain p where p: "y = Inr p" "read_payload J now p = Inr g" using z by (cases y) auto
    then have "p = payload_of J (updated f v ws)" using R inv(2) by auto
    then show ?thesis using read_payload_ok [OF laws(2) updated_closed [OF V]] p(2) Inr by auto
  qed
  then show ?thesis using inv read(3) same by (auto simp: updates_inv_def)
next
  case (expire w r' z)
  then show ?thesis using inv(1) [of w] by (simp add: found_ok_def)
next
  case (update w g now later r' z)
  let ?e = "expected_value g" and ?v = "updated f v ws"
  let ?n = "f w (map_option sv_value ?e)"
  have "case ?e of None \<Rightarrow> True | Some sv \<Rightarrow> sv_expires_at sv = PNone \<and> sv_value sv \<in> V"
    using inv(1) [of w] update(1) by (auto simp: found_ok_def expected_value_def split: reading.splits)
  note R = compare_and_set_runs [OF laws inv(2) updated_closed [OF V] this update(3)]
  have found: "found_ok V (up_found x' u)" for u using inv(1) update(4) by (simp add: found_ok_def [of _ None])
  have took: "updates_inv S J (state_key pre key) f V v x'"
    if "?v = map_option sv_value ?e" "ss_text S r' (state_key pre key) = payload_of J (Some ?n)" "z = Inr True \<or> (\<exists>e. z = Inl e)"
  proof -
    have "ss_text S (up_server x') (state_key pre key) = payload_of J (updated f v (ws @ [w]))" using that(1,2) update(4) by simp
    moreover have "subseq (up_reported x') (ws @ [w])"
      using that(3) inv(3) update(4) list_emb_append_mono [of "(=)" "up_reported x" ws "[]" "[w]"]
        list_emb_append_mono [of "(=)" "up_reported x" ws "[w]" "[w]"] by auto
    moreover have "mset (ws @ [w]) \<subseteq># mset (up_reported x') + mset (up_failed x')"
      using that(3) inv(4) update(4) by auto
    ultimately show ?thesis using found unfolding updates_inv_def by blast
  qed
  have left: "updates_inv S J (state_key pre key) f V v x'"
    if "ss_text S r' (state_key pre key) = payload_of J ?v" "z = Inr False \<or> (\<exists>e. z = Inl e)"
  proof -
    have "mset ws \<subseteq># mset (up_reported x') + mset (up_failed x')"
      using that(2) inv(4) update(4) by (auto intro: subset_mset.order_trans)
    moreover have "up_reported x' = up_reported x" using that(2) update(4) by auto
    ultimately show ?thesis using found inv(3) that(1) update(4) unfolding updates_inv_def by auto
  qed
  show ?thesis using R took left by blast
next
  case (elsewhere r')
  then show ?thesis using inv by (auto simp: updates_inv_def)
  qed
qed

text \<open>
  C20: concurrent updates of a key are serial.  Workers read the key with \<^verbatim>\<open>get\<close> and write a value computed from what they
  found with \<^verbatim>\<open>compare_and_set\<close>, without expiry, in any interleaving, with requests and replies lost, while other keys
  change.  Then the key always holds the result of some of the updates done one after the other on its first value:
  every update reported as done is among them, in the order of the reports, and every other one is an update whose
  call raised.
\<close>

theorem successful_updates_are_serial:
  assumes "state_server_laws S" "state_codec_laws J V" "closed_updates f V" "set_option v \<subseteq> V"
    and "ss_text S (up_server x0) (state_key pre key) = payload_of J v" "up_found x0 = (\<lambda>_. None)" "up_reported x0 = []" "up_failed x0 = []"
    and "(update_step S J pre key f)\<^sup>*\<^sup>* x0 x"
  shows "\<exists>ws. ss_text S (up_server x) (state_key pre key) = payload_of J (updated f v ws) \<and> subseq (up_reported x) ws \<and>
    mset ws \<subseteq># mset (up_reported x) + mset (up_failed x)"
proof -
  have "updates_inv S J (state_key pre key) f V v x"
    using assms(9)
  proof (induction rule: rtranclp_induct)
    case base
    show ?case unfolding updates_inv_def
      by (intro conjI exI [of _ "[]"]) (simp_all add: assms(5-8) found_ok_def updated_def)
  next
    case (step y z)
    then show ?case using updates_inv_step [OF assms(1-4)] by blast
  qed
  then show ?thesis by (simp add: updates_inv_def)
qed

section \<open>Prefixes\<close>

lemma delete_law:
  assumes "state_server_laws S" "state_call S (ss_delete S ks) r = (r', z)"
  shows "z = Inr n \<Longrightarrow> ss_text S r' = ss_text S r |` (- set ks)"
proof -
  obtain m where "runs_on (ss_text S) (ss_delete S ks) (ss_text S r) m (ss_text S r |` (- set ks))"
    using server_laws(4) [OF assms(1)] by blast
  then show "z = Inr n \<Longrightarrow> ss_text S r' = ss_text S r |` (- set ks)"
    using state_call_runs [OF assms(1) _ assms(2)] by blast
qed

lemma delete_each_text:
  assumes "state_server_laws S"
  shows "delete_each S ks r = (r', Inr ()) \<Longrightarrow> ss_text S r' = ss_text S r |` (- set ks)"
proof (induction ks arbitrary: r)
  case (Cons k ks)
  then obtain r1 n where k: "state_call S (ss_delete S [k]) r = (r1, Inr n)" and ks: "delete_each S ks r1 = (r', Inr ())"
    by (auto simp: thenE_Inr)
  have "ss_text S r' = (ss_text S r |` (- {k})) |` (- set ks)" using Cons.IH [OF ks] delete_law [OF assms k refl] by simp
  then show ?case by (auto simp: restrict_map_def)
qed (simp add: restrict_map_def)

lemma server_scan:
  assumes "state_server_laws S" "literal_text p"
  shows "\<exists>r' ks. ss_scan S (p @ ''*'') r = (r', Inr ks) \<and> ss_text S r' = ss_text S r \<and>
    set ks = {k. ss_text S r k \<noteq> None \<and> prefix p k}"
  using assms(1) unfolding state_server_laws_def by (elim conjE allE [of _ r] allE [of _ p]) (rule mp [OF _ assms(2)])

lemma scan_law:
  assumes "state_server_laws S" "literal_text (pre @ p)" "scan_prefixed_keys S pre p r = (r', Inr ks)"
  shows "ss_text S r' = ss_text S r" "set ks = {k. ss_text S r k \<noteq> None \<and> prefix (pre @ p) k}"
proof -
  obtain r1 fl where f: "ss_fault S r = (r1, fl)" by (cases "ss_fault S r")
  have r1: "ss_text S r1 = ss_text S r" using server_laws(1) [OF assms(1), of r] f by simp
  obtain r2 ks2 where sc: "ss_scan S ((pre @ p) @ ''*'') r1 = (r2, Inr ks2)" "ss_text S r2 = ss_text S r1"
    "set ks2 = {k. ss_text S r1 k \<noteq> None \<and> prefix (pre @ p) k}"
    using server_scan [OF assms(1,2), of r1] by blast
  then have "r' = r2 \<and> ks = ks2"
    using assms(3) f by (cases fl) (auto simp: scan_prefixed_keys_def state_call_def faulty_call_def state_key_def)
  then show "ss_text S r' = ss_text S r" "set ks = {k. ss_text S r k \<noteq> None \<and> prefix (pre @ p) k}" using r1 sc by auto
qed

text \<open>
  \<^verbatim>\<open>delete_prefix\<close> that returns has removed the keys with the prefix and no other key, when prefix and key prefix are
  literal; the number it returns counts each of them, some perhaps more than once.
\<close>

lemma delete_prefix_exact:
  assumes laws: "state_server_laws S" "literal_text (pre @ p)" and run: "delete_prefix S redis_cluster pre p r = (r', Inr n)"
  shows "ss_text S r' = ss_text S r |` {k. \<not> prefix (pre @ p) k}" "int (card {k. ss_text S r k \<noteq> None \<and> prefix (pre @ p) k}) \<le> n"
proof -
  obtain r1 ks where sc: "scan_prefixed_keys S pre p r = (r1, Inr ks)" using run by (auto simp: delete_prefix_def bindE_Inr)
  note L = scan_law [OF laws sc]
  have N: "n = int (length ks) \<and> ss_text S r' = ss_text S r1 |` (- set ks)"
  proof (cases "ks = []")
    case True
    then show ?thesis using run sc by (simp add: delete_prefix_def bindE_def restrict_map_def)
  next
    case False
    then show ?thesis
      using run sc delete_each_text [OF laws(1), of ks r1 r'] delete_law [OF laws(1), of ks r1 r']
      by (cases redis_cluster) (auto simp: delete_prefix_def bindE_def [of "scan_prefixed_keys S pre p"] thenE_Inr)
  qed
  then show "ss_text S r' = ss_text S r |` {k. \<not> prefix (pre @ p) k}"
    using L by (auto simp: restrict_map_def fun_eq_iff)
  show "int (card {k. ss_text S r k \<noteq> None \<and> prefix (pre @ p) k}) \<le> n"
    using N L(2) card_length [of ks] by simp
qed

text \<open>
  The second call of a \<^verbatim>\<open>get\<close> that read an expired value deletes the key whatever it holds by then: a value that
  another worker has written since the first call is lost.
\<close>

lemma late_delete_removes_fresh_value:
  assumes "state_server_laws S" "ss_text S r (state_key pre key) = Some fresh" "state_delete S pre key r = (r', Inr ())"
  shows "ss_text S r' (state_key pre key) = None"
proof -
  obtain n where "state_call S (ss_delete S [state_key pre key]) r = (r', Inr n)"
    using assms(3) by (auto simp: state_delete_def thenE_Inr)
  then show ?thesis using delete_law [OF assms(1)] by (simp add: restrict_map_def)
qed

section \<open>Instances\<close>

text \<open>A server with a list of faults to come; its texts are a dictionary.\<close>

type_synonym sample_state = "call_fault list \<times> (string, string) dict"

definition sample_state_server :: "sample_state state_server" where
  "sample_state_server =
     \<lparr>ss_get = (\<lambda>k (fs, d). ((fs, d), Inr (dict_get d k))),
      ss_set = (\<lambda>k v nx px (fs, d). if nx \<and> dict_get d k \<noteq> None then ((fs, d), Inr False) else ((fs, dict_set k v d), Inr True)),
      ss_delete = (\<lambda>ks (fs, d). ((fs, AList.restrict (- set ks) d), Inr (int (length ks)))),
      ss_scan = (\<lambda>pat (fs, d). ((fs, d), Inr (filter (prefix (butlast pat)) (dict_keys d)))),
      ss_fault = (\<lambda>(fs, d). case fs of [] \<Rightarrow> ((fs, d), NoFault) | f # fs' \<Rightarrow> ((fs', d), f)),
      ss_text = (\<lambda>(fs, d). dict_get d)\<rparr>"

lemma sample_state_server_laws: "state_server_laws sample_state_server"
  unfolding state_server_laws_def
proof (intro conjI allI impI)
  fix r :: sample_state
  show "ss_text sample_state_server (fst (ss_fault sample_state_server r)) = ss_text sample_state_server r"
    by (cases r) (auto simp: sample_state_server_def split: list.splits)
next
  fix h k
  show "runs_on (ss_text sample_state_server) (ss_get sample_state_server k) h (h k) h"
    by (auto simp: runs_on_def sample_state_server_def)
next
  fix h k v nx px
  show "runs_on (ss_text sample_state_server) (ss_set sample_state_server k v nx px) h (\<not> nx \<or> h k = None)
      (if nx \<and> h k \<noteq> None then h else h(k \<mapsto> v))"
    by (auto simp: runs_on_def sample_state_server_def update_conv')
next
  fix h ks
  have "runs_on (ss_text sample_state_server) (ss_delete sample_state_server ks) h (int (length ks)) (h |` (- set ks))"
    by (auto simp: runs_on_def sample_state_server_def restr_conv')
  then show "\<exists>n. runs_on (ss_text sample_state_server) (ss_delete sample_state_server ks) h n (h |` (- set ks))" by blast
next
  fix r :: sample_state and p
  obtain fs d where r: "r = (fs, d)" by (cases r)
  have "set (dict_keys d) = {k. dict_get d k \<noteq> None}" by (auto simp: map_of_eq_None_iff)
  then show "\<exists>r' ks. ss_scan sample_state_server (p @ ''*'') r = (r', Inr ks) \<and>
      ss_text sample_state_server r' = ss_text sample_state_server r \<and>
      set ks = {k. ss_text sample_state_server r k \<noteq> None \<and> prefix p k}"
    using r by (auto simp: sample_state_server_def butlast_append simp del: set_map)
qed

text \<open>Counters: the text of a count is as long as the count.\<close>

definition counts :: "pyval set" where
  "counts = range (\<lambda>n. PInt (int n))"

definition count_codec :: state_codec where
  "count_codec =
     \<lparr>sc_dumps = (\<lambda>v. case v of PDict ((_, PInt i) # _) \<Rightarrow> replicate (nat i) CHR ''x'' | _ \<Rightarrow> []),
      sc_loads = (\<lambda>t. Inr (PDict [(''value'', PInt (int (length t))), (''expires_at'', PNone)])),
      sc_cjson = (\<lambda>_. None), sc_tonumber = (\<lambda>_. None)\<rparr>"

definition increment :: "bool \<Rightarrow> pyval option \<Rightarrow> pyval" where
  "increment w v = (case v of Some (PInt i) \<Rightarrow> PInt (i + 1) | _ \<Rightarrow> PInt 1)"

lemma count_codec_laws: "state_codec_laws count_codec counts"
  by (auto simp: state_codec_laws_def count_codec_def counts_def state_payload_def)

lemma increment_closed: "closed_updates increment counts"
proof -
  have "PInt 1 \<in> counts" unfolding counts_def by (rule range_eqI [of _ _ 1]) simp
  moreover have "PInt (int n + 1) \<in> counts" for n unfolding counts_def by (rule range_eqI [of _ _ "Suc n"]) simp
  ultimately show ?thesis by (auto simp: closed_updates_def increment_def counts_def)
qed

text \<open>Both workers find no value; the reply to the first write is lost, the second write is refused.\<close>

definition updates_at :: "call_fault list \<Rightarrow> (string, string) dict \<Rightarrow> (bool \<Rightarrow> reading option) \<Rightarrow> bool list \<Rightarrow> (sample_state, bool) updates" where
  "updates_at fs d found failed = \<lparr>up_server = (fs, d), up_found = found, up_reported = [], up_failed = failed\<rparr>"

abbreviation sample_step :: "(sample_state, bool) updates \<Rightarrow> (sample_state, bool) updates \<Rightarrow> bool" where
  "sample_step \<equiv> update_step sample_state_server count_codec ''s:'' ''n'' increment"

definition sample_faults :: "call_fault list" where
  "sample_faults = [NoFault, NoFault, LostReply (RuntimeError ''connection lost''), NoFault]"

lemma sample_updates:
  "sample_step\<^sup>*\<^sup>* (updates_at sample_faults [] (\<lambda>_. None) []) (updates_at [] [(''s:n'', ''x'')] (\<lambda>_. None) [False])"
proof -
  have 1: "sample_step (updates_at sample_faults [] (\<lambda>_. None) []) (updates_at (tl sample_faults) [] ((\<lambda>_. None)(False := Some Missing)) [])"
    by (rule update_step.read [where w = False and now = 0])
      (auto simp: updates_at_def sample_faults_def get_reading_def state_call_def faulty_call_def sample_state_server_def bindE_def
        of_resultE_def read_payload_def)
  have 2: "sample_step (updates_at (tl sample_faults) [] ((\<lambda>_. None)(False := Some Missing)) [])
      (updates_at (drop 2 sample_faults) [] (\<lambda>_. Some Missing) [])"
    by (rule update_step.read [where w = True and now = 0])
      (auto simp: updates_at_def sample_faults_def get_reading_def state_call_def faulty_call_def sample_state_server_def bindE_def
        of_resultE_def read_payload_def)
  have 3: "sample_step (updates_at (drop 2 sample_faults) [] (\<lambda>_. Some Missing) [])
      (updates_at [NoFault] [(''s:n'', ''x'')] ((\<lambda>_. Some Missing)(False := None)) [False])"
    by (rule update_step.update [where w = False and now = 0 and later = 0])
      (auto simp: updates_at_def sample_faults_def expected_value_def compare_and_set_def set_if_absent_def ttl_ms_def of_resultE_bind
        state_call_def faulty_call_def sample_state_server_def state_payload_def count_codec_def increment_def state_key_def)
  have 4: "sample_step (updates_at [NoFault] [(''s:n'', ''x'')] ((\<lambda>_. Some Missing)(False := None)) [False])
      (updates_at [] [(''s:n'', ''x'')] (\<lambda>_. None) [False])"
    by (rule update_step.update [where w = True and now = 0 and later = 0])
      (auto simp: updates_at_def expected_value_def compare_and_set_def set_if_absent_def ttl_ms_def of_resultE_bind
        state_call_def faulty_call_def sample_state_server_def state_payload_def count_codec_def increment_def state_key_def)
  show ?thesis using 1 2 3 4 by (meson converse_rtranclp_into_rtranclp rtranclp.rtrancl_refl)
qed

theorem successful_updates_are_serial_witness:
  "\<exists>ws. Some ''x'' = payload_of count_codec (updated increment None ws) \<and> mset ws \<subseteq># {#False#}"
proof -
  have "\<exists>ws. ss_text sample_state_server (up_server (updates_at [] [(''s:n'', ''x'')] (\<lambda>_. None) [False])) (state_key ''s:'' ''n'') =
      payload_of count_codec (updated increment None ws) \<and> subseq (up_reported (updates_at [] [(''s:n'', ''x'')] (\<lambda>_. None) [False])) ws \<and>
      mset ws \<subseteq># mset (up_reported (updates_at [] [(''s:n'', ''x'')] (\<lambda>_. None) [False])) + mset (up_failed (updates_at [] [(''s:n'', ''x'')] (\<lambda>_. None) [False]))"
    by (rule successful_updates_are_serial [OF sample_state_server_laws count_codec_laws increment_closed _ _ _ _ _ sample_updates])
      (simp_all add: updates_at_def sample_state_server_def payload_of_def)
  then show ?thesis by (simp add: updates_at_def sample_state_server_def state_key_def)
qed

end
