(* ===== verification/Spec2Isabelle.thy ===== *)
theory Spec2Isabelle
  imports Schema_Wire Kafka_Postgres Lease_Coordinator DLQ_Queue PG_Pool PG_Source_Reads Redis_Fairness Redis_Acks
    Redis_DLQ_Store Redis_Sink_Writes Kafka_Kafka Redis_State_Updates
begin

text \<open>
  A verification development for the connector plugins under \<^verbatim>\<open>src/agora_plugins\<close>: sources, sinks, dead-letter
  queues and the coordination of workers of a data pipeline, written in Python over asyncio.

  \<^bold>\<open>The program.\<close>  A pipeline reads records from a source, hands them to its stages, writes them to a sink and
  acknowledges them.  A Kafka source polls a consumer, deserialises messages, delivers them one by one or in
  batches, and commits the offsets of what was acknowledged; messages it cannot deserialise go to a poison route.
  Messages may carry the framing of the schema registry.  Records that fail are put into a dead-letter queue, a
  compacted topic from which they are replayed and in which they are acknowledged.  The PostgreSQL sink buffers
  rows and writes them in batches; the batches it cannot write go to a dead-letter sink.  Workers that share
  pipelines hold leases with fencing tokens, kept on one Redis server or on a quorum of them, and register
  themselves so that others see them.

  \<^bold>\<open>Theories and code.\<close>

  \<^item> \<open>Prelude\<close>: exceptions as values, computations with a state that may raise (\<open>bindE\<close>, \<open>tryE\<close>, \<open>finallyE\<close>, and
    the rule set \<open>preserves\<close> for relations between states that operations keep), dictionaries in insertion order,
    topic partitions, JSON values, strings and integers as Python reads and prints them.
  \<^item> \<open>Schema_Wire\<close>: \<^verbatim>\<open>kafka/_schema_registry_wire.py\<close>.  Varints, zigzag, message indexes, the prefix; round trip,
    termination and the one encoding that is not injective.
  \<^item> \<open>Kafka_Cursor\<close> (\<^verbatim>\<open>kafka/sources/_cursor_state.py\<close>, \<^verbatim>\<open>_offsets.py\<close>), \<open>Kafka_Poison\<close> (\<^verbatim>\<open>_poison.py\<close>,
    \<^verbatim>\<open>_poison_controller.py\<close>), \<open>Kafka_Operator\<close> (\<^verbatim>\<open>_operator_controls.py\<close>), \<open>Kafka_Delivery\<close> (\<^verbatim>\<open>_delivery.py\<close>,
    \<^verbatim>\<open>_commit_runtime.py\<close>, \<^verbatim>\<open>_runtime_state.py\<close>), \<open>Kafka_Stream\<close> (\<^verbatim>\<open>_consumer_runtime.py\<close>, \<^verbatim>\<open>_operator_api.py\<close>,
    \<^verbatim>\<open>_stream_runtime.py\<close>, \<^verbatim>\<open>_deserializer_runtime.py\<close>) and \<open>Kafka_Commit_Safety\<close>: the state of a Kafka source and
    its operations, and that offsets are committed only behind deliveries.
  \<^item> \<open>Lease_Store\<close> (\<^verbatim>\<open>distributed/primary_lease_store.py\<close> with its Lua scripts), \<open>Lease_Redlock\<close>
    (\<^verbatim>\<open>redlock_quorum.py\<close>, \<^verbatim>\<open>redlock_scripts.py\<close>), \<open>Lease_Control\<close> (\<^verbatim>\<open>lease_operations.py\<close>, \<^verbatim>\<open>lease_controller.py\<close>,
    \<^verbatim>\<open>worker_session.py\<close>, \<^verbatim>\<open>coordinator*.py\<close>), \<open>Worker_Registry\<close> (\<^verbatim>\<open>worker_registry.py\<close>): leases and workers.
    \<open>Lease_Safety\<close> shows that fencing tokens increase and stale leases are refused, over any interleaving of
    workers, expiries and lost messages, on a single server whose fencing counter never expires; \<open>Lease_Providers\<close> states the contract of a provider as a locale and
    interprets it on both stores; \<open>Lease_Coordinator\<close> shows the properties of the whole.
  \<^item> \<open>DLQ_Policy\<close> (\<^verbatim>\<open>dlq_policy.py\<close>), \<open>DLQ_Records\<close> (\<^verbatim>\<open>kafka/_dlq_payloads.py\<close>), \<open>DLQ_Compaction\<close>
    (\<^verbatim>\<open>kafka/_dlq_compaction.py\<close>), \<open>DLQ_Scan\<close> (\<^verbatim>\<open>kafka/_dlq_source_*.py\<close>), \<open>DLQ_Sink\<close> (\<^verbatim>\<open>kafka/_dlq_sink_*.py\<close>) and
    \<open>DLQ_Queue\<close>: redaction and encryption, envelopes, compaction with its spill to SQLite (a locale for the store,
    interpreted on both representations), the replay, the sink, and that a replay yields what was put and not
    acknowledged.
  \<^item> \<open>PG_Identifiers\<close>, \<open>PG_Write\<close>, \<open>PG_Sink\<close>, \<open>PG_Atomicity\<close> and \<open>PG_Pool\<close> (\<^verbatim>\<open>postgres/sinks/\<close>): quoting of
    identifiers, the text of statements, alignment with the target table, the buffer and its flush in the three insert
    modes with retries and dead letters, that a flush writes all rows or none, and the connection pool as a step
    relation over the tasks that share it.
  \<^item> \<open>PG_Source\<close> and \<open>PG_Source_Reads\<close> (\<^verbatim>\<open>postgres/sources/\<close>, \<^verbatim>\<open>_source_identity.py\<close>): settings, resume, routing with
    the guard against stale replicas, the read loop with its retries; that rows come from fresh servers and once.
  \<^item> \<open>Redis_Stream\<close> (\<^verbatim>\<open>redis/sources/\<close>): connection, resume, acknowledgements, the read loop and reclaimed
    messages.  \<open>Redis_Frames\<close> reads the log of its calls and states, as a locale, what its connection and resume
    operations leave alone; \<open>Redis_Fairness\<close> bounds the batches of reclaimed messages in a row, \<open>Redis_Acks\<close> shows that
    acknowledgements follow deliveries and none is forgotten.
  \<^item> \<open>Redis_DLQ\<close> (\<^verbatim>\<open>redis/_dlq_keyspace.py\<close>, \<^verbatim>\<open>_dlq_payloads.py\<close>, \<^verbatim>\<open>dlq.py\<close> with its Lua scripts, \<^verbatim>\<open>_dlq_runtime.py\<close>,
    \<^verbatim>\<open>_dlq_sink_surface.py\<close>, \<^verbatim>\<open>_dlq_source_surface.py\<close>): the dead-letter queue kept in Redis.  \<open>Redis_DLQ_Hash\<close> shows
    what is read back from the hash of a record, \<open>Redis_DLQ_Index\<close> that the index lists stay consistent with the hashes
    under any history of calls, lost requests and lost replies included, in which no acknowledged record is replayed, \<open>Redis_DLQ_Store\<close> that the queue is a dictionary
    of records and that a scan returns its records.
  \<^item> \<open>Redis_Sink\<close> (\<^verbatim>\<open>redis/sinks/redis.py\<close>): the modes of the Redis sink, its batches and the script that applies a
    list write behind a marker; \<open>Redis_Sink_Writes\<close> shows that a list batch is applied once under retries and lost
    replies, and that a batch of \<^verbatim>\<open>SET\<close>s writes what its records written one by one would.
  \<^item> \<open>Kafka_Runtime\<close> (\<^verbatim>\<open>kafka/runtime.py\<close>): the delivery of a record to a sink and its acknowledgement, or both in a
    transaction, and \<open>drain_to\<close>, which runs the generator of the source over the joint state of source and sink: its start
    (\<open>stream_start\<close>), its polls (\<open>fetch\<close>, \<open>drain_polls\<close>), the batches with either kind of deserialiser, and its end or its
    closing, which commits (\<open>drain_end\<close>).  \<open>Kafka_Durability\<close> states the contract of a sink as the locale \<open>durable_sink\<close>
    and shows what a drain promises over it (\<open>drain_settles\<close>) and that it returns when the client runs dry
    (\<open>drain_returns\<close>); \<open>Kafka_Postgres\<close> (\<^verbatim>\<open>postgres/kafka.py\<close>) interprets it on the PostgreSQL sink: offsets are committed
    only for messages whose rows are in committed transactions.  Rebalances and operator calls during a drain are not
    part of it; for a single batch, \<open>Kafka_Stream\<close> has them as events of the pipeline.
  \<^item> \<open>Redis_State\<close> (\<^verbatim>\<open>redis/state/redis.py\<close>): the state backend and its compare-and-set script; \<open>Redis_State_Updates\<close>
    shows that concurrent updates by several workers are serial, as an inductive relation over their single calls.
  \<^item> \<open>Kafka_Sink\<close> (\<^verbatim>\<open>kafka/sinks/\<close>): the Kafka sink, its messages, retries, deliveries that wait, batches and
    transactions.  \<open>Kafka_Sink_Delivery\<close> shows that records taken are acknowledged by the next flush that returns and
    that a batch is committed as a whole or not at all; \<open>Kafka_Kafka\<close> interprets \<open>durable_sink\<close> on it and shows that a
    transactional delivery has its message and its offset in one transaction.

  \<^bold>\<open>Conventions.\<close>  An \<^verbatim>\<open>async\<close> operation is a function from a state to a state and a result or exception; what was
  changed before an exception stays changed.  The operations of the Kafka source, the dead-letter queue and the
  PostgreSQL sink are run by one task; where tasks or workers meet (leases, pool), steps are interleaved by an
  inductive relation.  Clients (Redis, Kafka, the database driver, SQLite, ciphers, digests, clocks, UUIDs) and the
  core package (\<^verbatim>\<open>retry_async\<close>, sinks, records) are parameters; what is relied on of them are named predicates
  (\<open>redis_laws\<close>, \<open>retry_law\<close> and the like), each with an instance in a witness.  The PostgreSQL sink runs against a
  log of calls with outcomes chosen by an environment from the calls so far, so that nothing is assumed of the
  driver; \<open>ledger\<close> reads the committed transactions off the log.  Integers are Python's; fixed widths occur in the
  wire format and the advisory lock key and are words there.  Floats are rationals, a datetime is its ISO text, JSON
  text is the value it denotes, regular expressions are the predicates they describe.  Messages of exceptions are
  kept where the code reads them and shortened otherwise; log lines are left out.

  \<^bold>\<open>Loops.\<close>  Loops over data are structural or have a measure.  The poll loop of a source, the scan of the registry
  and the compaction loop of a replay may run as long as the other side goes on; they have fuel, one unit for an
  iteration, and \<open>scan_loop\<close>, the replay and the drain of a Kafka source (for a client whose messages run out and a limit
  on idle polls) have theorems that a stated amount is enough.  An asynchronous generator
  is run to its end and gives the list of what it yields; where its consumer closes it early, the closing is a case of its
  own.

  \<^bold>\<open>Not modelled.\<close>  Settings declarations, metrics snapshots and Prometheus text, doctor reports, tracing and export
  tables: data rendering without state.  The schema registry client and codecs, the Anthropic provider, BigQuery and
  S3: calls into client packages.  Scheduling of heartbeat and renewal tasks: asyncio.  Left for later extensions:
  the table-backed dead-letter queue of PostgreSQL, its schema adapter, the
  runtimes over other pairs of source and sink.
\<close>

end
